(* ===== verification/Kernel_Prelude.thy ===== *)
theory Kernel_Prelude
  imports Main "HOL-Library.Word"
begin

text \<open>
  Shared vocabulary of the development: the fixed-width integer types of
  \<^verbatim>\<open>kernel/types.h\<close>, the theorem collections the component theories fill, and the
  generic facts on words, lists and options their proofs share.
\<close>

unbundle bit_operations_syntax

section \<open>The integer types of types.h\<close>

type_synonym u8 = "8 word"
type_synonym u16 = "16 word"
type_synonym u32 = "32 word"
type_synonym u64 = "64 word"
type_synonym i8 = "8 word"
type_synonym i16 = "16 word"
type_synonym i32 = "32 word"
type_synonym i64 = "64 word"

text \<open>
  \<open>mem_simps\<close> collects how reads see earlier writes of the byte memory, \<open>inv_defs\<close>
  the component invariants that proofs unfold.
\<close>

named_theorems mem_simps
named_theorems inv_defs

section \<open>Words\<close>

lemma unat_lt: "unat (w :: 'a::len word) < 2 ^ LENGTH('a)"
  by (rule unsigned_less)

lemma unat_Suc_less:
  fixes w :: "'a::len word"
  assumes "w < v"
  shows "unat (w + 1) = Suc (unat w)"
proof -
  from assms have "unat w < unat v" by (simp add: word_less_nat_alt)
  then have "Suc (unat w) < 2 ^ LENGTH('a)"
    using unat_lt [of v] by linarith
  then show ?thesis by (simp add: unat_word_ariths)
qed

lemma unat_sub_le:
  fixes w :: "'a::len word"
  shows "v \<le> w \<Longrightarrow> unat (w - v) = unat w - unat v"
  by (simp add: unat_sub)

lemma unat_of_nat_id:
  "n < 2 ^ LENGTH('a) \<Longrightarrow> unat (word_of_nat n :: 'a::len word) = n"
  by (simp add: unat_of_nat take_bit_nat_eq_self)

lemma unat_add_lt:
  fixes v w :: "'a::len word"
  shows "unat v + unat w < 2 ^ LENGTH('a) \<Longrightarrow> unat (v + w) = unat v + unat w"
  by (simp add: unat_word_ariths)

text \<open>Bits that do not overlap add.\<close>

lemma or_high:
  fixes c x :: "'a::len word"
  assumes "unat x < 2 ^ k" "take_bit k c = 0"
  shows "c OR x = c + x"
proof -
  have "take_bit k x = x"
    using assms(1) by (simp add: word_unat_eq_iff unsigned_take_bit_eq take_bit_nat_eq_self)
  moreover have "\<not> bit c n" if "n < k" for n
  proof -
    have "bit (take_bit k c) n = bit c n" using that by (simp add: bit_take_bit_iff)
    then show ?thesis using assms(2) by simp
  qed
  then have "c AND take_bit k x = 0" by (intro bit_eqI) (auto simp: bit_and_iff bit_take_bit_iff)
  ultimately have "c AND x = 0" by simp
  then show ?thesis using word_plus_and_or [of c x] by simp
qed

text \<open>Clearing the low twelve bits of an address rounds it down to its page.\<close>

lemma not_4095: "NOT (4095 :: u64) = NOT (mask 12)"
  by (simp add: mask_eq_exp_minus_1)

lemma unat_page_down: "unat (w AND NOT 4095 :: u64) = unat w div 4096 * 4096"
proof -
  have "w AND NOT (mask 12) = push_bit 12 (drop_bit 12 w)"
    by (rule bit_eqI) (auto simp: bit_simps)
  moreover have "unat (push_bit 12 (drop_bit 12 w)) = unat w div 4096 * 4096"
  proof -
    have "unat (drop_bit 12 w) = unat w div 4096"
      by (simp add: drop_bit_eq_div unat_div)
    moreover have "unat w div 4096 * 4096 < 2 ^ 64"
      using unat_lt [of w] by (intro order_le_less_trans [OF div_times_less_eq_dividend]) simp
    ultimately show ?thesis by (simp add: push_bit_eq_mult unat_word_ariths)
  qed
  ultimately show ?thesis unfolding not_4095 by simp
qed

section \<open>Lists\<close>

lemma take_Suc_snoc: "n < length xs \<Longrightarrow> take (Suc n) xs = take n xs @ [xs ! n]"
  by (rule take_Suc_conv_app_nth)

lemma take_drop_Suc:
  "i < length xs \<Longrightarrow> take (Suc k) (drop i xs) = xs ! i # take k (drop (Suc i) xs)"
  by (simp flip: Cons_nth_drop_Suc)

text \<open>The last \<open>n\<close> elements of a list: what a bounded buffer that overwrites its oldest
  element keeps.\<close>

definition last_n :: "nat \<Rightarrow> 'a list \<Rightarrow> 'a list" where
  "last_n n xs = drop (length xs - n) xs"

lemma last_n_short [simp]: "length xs \<le> n \<Longrightarrow> last_n n xs = xs"
  by (simp add: last_n_def)

lemma length_last_n [simp]: "length (last_n n xs) = min n (length xs)"
  by (simp add: last_n_def)

lemma last_n_append: "last_n n (last_n n xs @ ys) = last_n n (xs @ ys)"
proof (cases "length xs \<le> n")
  case False
  then show ?thesis by (auto simp: last_n_def add.commute)
qed simp

lemma last_n_snoc_full: "length xs = n \<Longrightarrow> 0 < n \<Longrightarrow> last_n n (xs @ [x]) = tl xs @ [x]"
  by (cases xs) (auto simp: last_n_def)

section \<open>Arithmetic of circular indices\<close>

lemma circ_index_neq:
  fixes h d c :: nat
  assumes "h < c" "0 < d" "d < c"
  shows "(h + d) mod c \<noteq> h"
proof
  assume "(h + d) mod c = h"
  then have "(h + d) mod c = h mod c" using assms by simp
  then have "c dvd d" by (metis mod_eq_dvd_iff_nat le_add1 diff_add_inverse)
  then show False using assms by (auto dest: dvd_imp_le)
qed

lemma circ_shift:
  fixes h n c i :: nat
  assumes "h < c" "n < c"
  shows "(Suc h mod c + c - Suc n + i) mod c = (h + c - n + i) mod c"
proof (cases "Suc h = c")
  case True
  have e: "h + c - n + i = c + (c - Suc n + i)" using True assms by linarith
  show ?thesis using True unfolding e by simp
next
  case False
  with assms show ?thesis by simp
qed

section \<open>Counting loops\<close>

text \<open>\<^verbatim>\<open>for (u32 x = a; x < b; x++)\<close> over a state.\<close>

definition for_u32 :: "u32 \<Rightarrow> u32 \<Rightarrow> (u32 \<Rightarrow> 's \<Rightarrow> 's) \<Rightarrow> 's \<Rightarrow> 's" where
  "for_u32 a b f s = fold (\<lambda>i. f (word_of_nat i)) [unat a..<unat b] s"

lemma fold_upt_inv:
  assumes "a \<le> b" "I a s" "\<And>i s. a \<le> i \<Longrightarrow> i < b \<Longrightarrow> I i s \<Longrightarrow> I (Suc i) (f i s)"
  shows "I b (fold f [a..<b] s)"
  using assms
proof (induction b rule: dec_induct)
  case (step b)
  then show ?case by simp
qed simp

lemma for_u32_inv:
  assumes "a \<le> b" "I (unat a) s"
    "\<And>i s. unat a \<le> i \<Longrightarrow> i < unat b \<Longrightarrow> I i s \<Longrightarrow> I (Suc i) (f (word_of_nat i) s)"
  shows "I (unat b) (for_u32 a b f s)"
  unfolding for_u32_def
  using fold_upt_inv [of "unat a" "unat b" I s "\<lambda>i. f (word_of_nat i)"] assms
  by (simp add: word_le_nat_alt)

end
