(* ===== verification/Ring.thy ===== *)
theory Ring
  imports Kernel_Prelude
begin

text \<open>
  The byte ring of \<^verbatim>\<open>kernel/ring.h\<close>, which the keyboard and mouse drivers fill and the
  console device drains. The model keeps the four fields of \<^verbatim>\<open>ring_t\<close> at their width and
  one function per inline function of the header; \<open>ring_list\<close> reads the ring as the queue it
  stands for, oldest byte first. The contract is the locale \<open>overwrite_queue\<close>, which the
  ring interprets.
\<close>

section \<open>Model\<close>

record ring_t =
  rbuf :: "u8 list"
  rcap :: u32
  rhead :: u32
  rlen :: u32

definition ring_init :: "u8 list \<Rightarrow> u32 \<Rightarrow> ring_t" where
  "ring_init storage capacity =
     \<lparr>rbuf = storage, rcap = capacity, rhead = 0, rlen = 0\<rparr>"

definition ring_putc :: "ring_t \<Rightarrow> u8 \<Rightarrow> ring_t" where
  "ring_putc r c =
     (let r1 = r\<lparr>rbuf := (rbuf r)[unat (rhead r) := c]\<rparr>;
          r2 = r1\<lparr>rhead := rhead r1 + 1\<rparr>;
          r3 = (if rhead r2 = rcap r2 then r2\<lparr>rhead := 0\<rparr> else r2)
      in if rlen r3 < rcap r3 then r3\<lparr>rlen := rlen r3 + 1\<rparr> else r3)"

text \<open>The sequential fill of the \<^verbatim>\<open>n >= cap\<close> branch: \<open>k\<close> iterations from index \<open>i\<close>.\<close>

fun ring_fill :: "u8 list \<Rightarrow> u8 list \<Rightarrow> nat \<Rightarrow> nat \<Rightarrow> u8 list" where
  "ring_fill buf data i 0 = buf"
| "ring_fill buf data i (Suc k) = ring_fill (buf[i := data ! i]) data (Suc i) k"

text \<open>The byte-wise loop: \<open>k\<close> calls of \<open>ring_putc\<close> from index \<open>i\<close> of the data.\<close>

fun ring_puts :: "ring_t \<Rightarrow> u8 list \<Rightarrow> nat \<Rightarrow> nat \<Rightarrow> ring_t" where
  "ring_puts r data i 0 = r"
| "ring_puts r data i (Suc k) = ring_puts (ring_putc r (data ! i)) data (Suc i) k"

definition ring_write :: "ring_t \<Rightarrow> u8 list \<Rightarrow> u32 \<Rightarrow> ring_t" where
  "ring_write r data n =
     (if rcap r \<le> n then
        let data' = drop (unat (n - rcap r)) data
        in r\<lparr>rhead := 0, rlen := rcap r,
             rbuf := ring_fill (rbuf r) data' 0 (unat (rcap r))\<rparr>
      else ring_puts r data 0 (unat n))"

definition ring_start :: "ring_t \<Rightarrow> u32" where
  "ring_start r =
     (let start = rhead r
      in if rlen r \<le> start then start - rlen r else rcap r - (rlen r - start))"

text \<open>The copy loop of \<open>ring_read\<close>: \<open>k\<close> bytes from index \<open>idx\<close>, wrapping at the capacity.\<close>

fun ring_copy :: "ring_t \<Rightarrow> u32 \<Rightarrow> nat \<Rightarrow> u8 list" where
  "ring_copy r idx 0 = []"
| "ring_copy r idx (Suc k) =
     rbuf r ! unat idx #
     ring_copy r (let i' = idx + 1 in if i' = rcap r then 0 else i') k"

definition ring_read :: "ring_t \<Rightarrow> u32 \<Rightarrow> u8 list \<times> ring_t" where
  "ring_read r out_cap =
     (let n = (if out_cap < rlen r then out_cap else rlen r)
      in if n = 0 then ([], r)
         else (ring_copy r (ring_start r) (unat n), r\<lparr>rlen := rlen r - n\<rparr>))"

section \<open>Specification\<close>

definition wf_ring :: "ring_t \<Rightarrow> bool" where
  "wf_ring r \<longleftrightarrow> 0 < rcap r \<and> length (rbuf r) = unat (rcap r) \<and>
     rhead r < rcap r \<and> rlen r \<le> rcap r"

definition ring_list :: "ring_t \<Rightarrow> u8 list" where
  "ring_list r = map (\<lambda>i. rbuf r ! ((unat (ring_start r) + i) mod unat (rcap r)))
     [0..<unat (rlen r)]"

text \<open>
  What a user of a bounded queue relies on: an insertion appends and, beyond the capacity,
  drops from the front; a removal takes a prefix.
\<close>

locale overwrite_queue =
  fixes abs :: "'q \<Rightarrow> 'a list"
    and invar :: "'q \<Rightarrow> bool"
    and capacity :: "'q \<Rightarrow> nat"
    and put :: "'q \<Rightarrow> 'a \<Rightarrow> 'q"
    and get :: "'q \<Rightarrow> 'n \<Rightarrow> 'a list \<times> 'q"
    and count :: "'n \<Rightarrow> nat"
  assumes put_invar: "invar q \<Longrightarrow> invar (put q x)"
    and put_capacity: "invar q \<Longrightarrow> capacity (put q x) = capacity q"
    and put_abs: "invar q \<Longrightarrow> abs (put q x) = last_n (capacity q) (abs q @ [x])"
    and get_invar: "invar q \<Longrightarrow> invar (snd (get q n))"
    and get_capacity: "invar q \<Longrightarrow> capacity (snd (get q n)) = capacity q"
    and get_fst: "invar q \<Longrightarrow> fst (get q n) = take (count n) (abs q)"
    and get_snd: "invar q \<Longrightarrow> abs (snd (get q n)) = drop (count n) (abs q)"
    and abs_bound: "invar q \<Longrightarrow> length (abs q) \<le> capacity q"
begin

lemma puts_refine:
  "invar q \<Longrightarrow> invar (foldl put q xs) \<and> capacity (foldl put q xs) = capacity q \<and>
     abs (foldl put q xs) = last_n (capacity q) (abs q @ xs)"
proof (induction xs arbitrary: q)
  case Nil
  then show ?case using abs_bound by simp
next
  case (Cons x xs)
  then show ?case
    using last_n_append [of "capacity q" "abs q @ [x]" xs]
    by (simp add: put_invar put_capacity put_abs)
qed

lemma puts_get_fifo:
  assumes "invar q" and "length (abs q) + length xs \<le> capacity q"
    and "count n = length (abs q) + length xs"
  shows "fst (get (foldl put q xs) n) = abs q @ xs"
    and "abs (snd (get (foldl put q xs) n)) = []"
  using puts_refine [OF assms(1), of xs] assms by (simp_all add: get_fst get_snd)

end

section \<open>The ring refines the queue\<close>

lemma ring_start_unat:
  assumes "wf_ring r"
  shows "unat (ring_start r) =
    (unat (rhead r) + unat (rcap r) - unat (rlen r)) mod unat (rcap r)"
proof (cases "rlen r \<le> rhead r")
  case True
  have "unat (rhead r) - unat (rlen r) < unat (rcap r)"
    using assms less_imp_diff_less by (auto simp: wf_ring_def word_less_nat_alt)
  moreover have "unat (rlen r) \<le> unat (rhead r)" using True by (simp add: word_le_nat_alt)
  moreover have "(unat (rhead r) + unat (rcap r) - unat (rlen r)) mod unat (rcap r) =
      (unat (rhead r) - unat (rlen r) + unat (rcap r)) mod unat (rcap r)"
    using \<open>unat (rlen r) \<le> unat (rhead r)\<close> by simp
  ultimately show ?thesis
    using True by (simp only: ring_start_def unat_sub_le Let_def if_True mod_add_self2) simp
next
  case False
  then have lt: "unat (rhead r) < unat (rlen r)" and le: "unat (rlen r) \<le> unat (rcap r)"
    using assms by (simp_all add: wf_ring_def word_le_nat_alt)
  have d: "unat (rlen r - rhead r) = unat (rlen r) - unat (rhead r)"
    using False by (simp add: unat_sub_le)
  have "unat (rcap r - (rlen r - rhead r)) = unat (rcap r) - (unat (rlen r) - unat (rhead r))"
    using lt le d by (subst unat_sub_le) (simp_all add: word_le_nat_alt)
  then show ?thesis using False lt le by (simp add: ring_start_def)
qed

lemma ring_start_bound: "wf_ring r \<Longrightarrow> ring_start r < rcap r"
  by (simp add: word_less_nat_alt ring_start_unat) (simp add: wf_ring_def word_less_nat_alt)

lemma length_ring_list [simp]: "length (ring_list r) = unat (rlen r)"
  by (simp add: ring_list_def)

lemma ring_list_nth:
  "wf_ring r \<Longrightarrow> i < unat (rlen r) \<Longrightarrow>
     ring_list r ! i =
     rbuf r ! ((unat (rhead r) + unat (rcap r) - unat (rlen r) + i) mod unat (rcap r))"
  by (simp add: ring_list_def ring_start_unat mod_add_left_eq)

lemma ring_putc_fields:
  assumes "wf_ring r"
  shows "rcap (ring_putc r c) = rcap r"
    and "rbuf (ring_putc r c) = (rbuf r)[unat (rhead r) := c]"
    and "unat (rhead (ring_putc r c)) = Suc (unat (rhead r)) mod unat (rcap r)"
    and "unat (rlen (ring_putc r c)) = min (Suc (unat (rlen r))) (unat (rcap r))"
proof -
  have h: "rhead r < rcap r" and l: "rlen r \<le> rcap r" using assms by (simp_all add: wf_ring_def)
  have s: "unat (rhead r + 1) = Suc (unat (rhead r))" by (rule unat_Suc_less [OF h])
  show "rcap (ring_putc r c) = rcap r" "rbuf (ring_putc r c) = (rbuf r)[unat (rhead r) := c]"
    by (simp_all add: ring_putc_def Let_def)
  have "unat (rhead r) < unat (rcap r)" using h by (simp add: word_less_nat_alt)
  moreover have "rhead r + 1 = rcap r \<longleftrightarrow> Suc (unat (rhead r)) = unat (rcap r)"
    using s by (metis word_unat_eq_iff)
  ultimately show "unat (rhead (ring_putc r c)) = Suc (unat (rhead r)) mod unat (rcap r)"
    using s by (auto simp: ring_putc_def Let_def)
  show "unat (rlen (ring_putc r c)) = min (Suc (unat (rlen r))) (unat (rcap r))"
    using l unat_Suc_less [of "rlen r" "rcap r"]
    by (auto simp: ring_putc_def Let_def word_less_nat_alt word_le_nat_alt min_def)
qed

lemma wf_ring_putc: "wf_ring r \<Longrightarrow> wf_ring (ring_putc r c)"
  using ring_putc_fields [of r c]
  by (simp add: wf_ring_def word_less_nat_alt word_le_nat_alt)

lemma ring_putc_list:
  assumes wf: "wf_ring r"
  shows "ring_list (ring_putc r c) = last_n (unat (rcap r)) (ring_list r @ [c])"
    (is "?l = ?r")
proof (rule nth_equalityI)
  let ?h = "unat (rhead r)" and ?c = "unat (rcap r)" and ?n = "unat (rlen r)"
  note f = ring_putc_fields [OF wf, of c]
  have h: "?h < ?c" and n: "?n \<le> ?c" and len: "length (rbuf r) = ?c"
    using wf by (simp_all add: wf_ring_def word_less_nat_alt word_le_nat_alt)
  show "length ?l = length ?r" using n by (simp add: f)
  fix i assume "i < length ?l"
  then have i: "i < min (Suc ?n) ?c" by (simp add: f)
  have nth: "?l ! i = ((rbuf r)[?h := c]) !
      ((Suc ?h mod ?c + ?c - min (Suc ?n) ?c + i) mod ?c)"
    using i by (subst ring_list_nth [OF wf_ring_putc [OF wf]]) (simp_all add: f)
  show "?l ! i = ?r ! i"
  proof (cases "?n < ?c")
    case True
    have ix: "(Suc ?h mod ?c + ?c - Suc ?n + i) mod ?c = (?h + ?c - ?n + i) mod ?c"
      by (rule circ_shift [OF h True])
    have at: "(?h + ?c - ?n + i) mod ?c = (?h + (?c - ?n + i)) mod ?c"
      using True by (metis (no_types) add.assoc add_diff_assoc less_imp_le_nat)
    show ?thesis
    proof (cases "i = ?n")
      case True
      then show ?thesis using ix nth h len \<open>?n < ?c\<close> by (simp add: nth_append)
    next
      case False
      then have lt: "i < ?n" using i by simp
      have "(?h + ?c - ?n + i) mod ?c \<noteq> ?h"
        unfolding at using lt True by (intro circ_index_neq [OF h]) auto
      then show ?thesis using ix nth h len lt \<open>?n < ?c\<close> by (simp add: nth_append ring_list_nth [OF wf])
    qed
  next
    case False
    then have nc: "?n = ?c" using n by simp
    have ix: "(Suc ?h mod ?c + ?c - ?c + i) mod ?c = (?h + Suc i) mod ?c"
      by (simp add: mod_add_left_eq)
    show ?thesis
    proof (cases "Suc i = ?c")
      case True
      then have "i = length (ring_list r) - 1" and "0 < ?c" using nc by simp_all
      then have "?r ! i = c" using nc by (simp add: last_n_def nth_append)
      then show ?thesis using ix nth h len nc True by simp
    next
      case False
      then have lt: "Suc i < ?c" using i by simp
      have "(?h + Suc i) mod ?c \<noteq> ?h"
        using lt by (intro circ_index_neq [OF h]) auto
      moreover have "?r ! i = ring_list r ! Suc i"
        using lt nc less_diff_conv [of i ?c 1] by (simp add: last_n_def nth_append)
      moreover have "ring_list r ! Suc i = rbuf r ! ((?h + Suc i) mod ?c)"
        using lt nc by (subst ring_list_nth [OF wf]) (simp_all del: add_Suc_right)
      ultimately show ?thesis using ix nth h len nc by simp
    qed
  qed
qed


section \<open>Bulk transfer\<close>

lemma ring_fill_eq:
  "i + k \<le> length buf \<Longrightarrow> i + k \<le> length data \<Longrightarrow>
     ring_fill buf data i k = take i buf @ take k (drop i data) @ drop (i + k) buf"
proof (induction k arbitrary: buf i)
  case 0
  then show ?case by simp
next
  case (Suc k)
  have "take (Suc i) (buf[i := data ! i]) = take i buf @ [data ! i]"
    using Suc.prems by (simp add: take_Suc_snoc)
  moreover have "take (Suc k) (drop i data) = data ! i # take k (drop (Suc i) data)"
    using Suc.prems by (simp add: take_drop_Suc)
  ultimately show ?case using Suc by simp
qed

lemma ring_puts_foldl:
  "i + k \<le> length data \<Longrightarrow> ring_puts r data i k = foldl ring_putc r (take k (drop i data))"
proof (induction k arbitrary: r i)
  case 0
  then show ?case by simp
next
  case (Suc k)
  then have "take (Suc k) (drop i data) = data ! i # take k (drop (Suc i) data)"
    by (simp add: take_drop_Suc)
  with Suc show ?case by simp
qed

lemma ring_copy_eq:
  "wf_ring r \<Longrightarrow> idx < rcap r \<Longrightarrow>
     ring_copy r idx k = map (\<lambda>i. rbuf r ! ((unat idx + i) mod unat (rcap r))) [0..<k]"
proof (induction k arbitrary: idx)
  case 0
  then show ?case by simp
next
  case (Suc k)
  have s: "unat (idx + 1) = Suc (unat idx)" by (rule unat_Suc_less [OF Suc.prems(2)])
  define j where "j = (if idx + 1 = rcap r then 0 else idx + 1)"
  have lt: "unat idx < unat (rcap r)" using Suc.prems by (simp add: word_less_nat_alt)
  have eq: "idx + 1 = rcap r \<longleftrightarrow> Suc (unat idx) = unat (rcap r)" using s by (metis word_unat_eq_iff)
  then have j: "unat j = Suc (unat idx) mod unat (rcap r)" "j < rcap r"
    using lt s Suc.prems(1) by (auto simp: j_def wf_ring_def word_less_nat_alt)
  have "ring_copy r j k = map (\<lambda>i. rbuf r ! ((unat idx + Suc i) mod unat (rcap r))) [0..<k]"
    using Suc.IH [OF Suc.prems(1) j(2)] by (simp add: j mod_add_left_eq)
  then show ?case
    using lt by (simp add: j_def Let_def map_upt_Suc del: upt_Suc)
qed

lemma ring_read_rest:
  assumes wf: "wf_ring q"
  shows "ring_list (snd (ring_read q n)) = drop (unat n) (ring_list q)"
proof -
  let ?k = "if n < rlen q then n else rlen q"
  let ?q = "q\<lparr>rlen := rlen q - ?k\<rparr>"
  have k: "unat ?k = min (unat n) (unat (rlen q))" by (auto simp: word_less_nat_alt)
  have le: "?k \<le> rlen q" by auto
  then have len: "unat (rlen q - ?k) = unat (rlen q) - unat ?k" by (rule unat_sub_le)
  have snd_eq: "snd (ring_read q n) = ?q"
    by (cases "?k = 0") (simp_all add: ring_read_def Let_def)
  have wf': "wf_ring ?q"
    using wf len by (auto simp: wf_ring_def word_le_nat_alt)
  show ?thesis
  proof (rule nth_equalityI)
    show "length (ring_list (snd (ring_read q n))) = length (drop (unat n) (ring_list q))"
      unfolding snd_eq by (simp add: len k)
    fix i assume "i < length (ring_list (snd (ring_read q n)))"
    then have i: "i + unat ?k < unat (rlen q)" unfolding snd_eq by (simp add: len)
    have "ring_list ?q ! i = ring_list q ! (unat ?k + i)"
      using i wf k le by (simp add: ring_list_nth [OF wf'] ring_list_nth [OF wf] len wf_ring_def
          word_le_nat_alt add.assoc [symmetric] del: if_split)
    moreover have "unat ?k = unat n" if "i < length (drop (unat n) (ring_list q))"
      using that by (simp add: k)
    moreover have "i < length (drop (unat n) (ring_list q))" using i by (auto simp: k)
    ultimately show "ring_list (snd (ring_read q n)) ! i = drop (unat n) (ring_list q) ! i"
      unfolding snd_eq by simp
  qed
qed

interpretation rq: overwrite_queue ring_list wf_ring "\<lambda>r. unat (rcap r)" ring_putc ring_read unat
proof unfold_locales
  fix q x n assume wf: "wf_ring q"
  show "wf_ring (ring_putc q x)" by (rule wf_ring_putc [OF wf])
  show "unat (rcap (ring_putc q x)) = unat (rcap q)" by (simp add: ring_putc_fields [OF wf])
  show "ring_list (ring_putc q x) = last_n (unat (rcap q)) (ring_list q @ [x])"
    by (rule ring_putc_list [OF wf])
  show "length (ring_list q) \<le> unat (rcap q)" using wf by (simp add: wf_ring_def word_le_nat_alt)
  show "wf_ring (snd (ring_read q n))"
    using wf by (auto simp: ring_read_def wf_ring_def Let_def word_le_nat_alt word_less_nat_alt
        unat_sub_if')
  show "unat (rcap (snd (ring_read q n))) = unat (rcap q)" by (simp add: ring_read_def Let_def)
  let ?k = "if n < rlen q then n else rlen q"
  have k: "unat ?k = min (unat n) (unat (rlen q))" by (auto simp: word_less_nat_alt)
  have copy: "ring_copy q (ring_start q) (unat ?k) = take (unat n) (ring_list q)"
    unfolding ring_copy_eq [OF wf ring_start_bound [OF wf]] k ring_list_def
    by (simp add: take_map min_def)
  then show "fst (ring_read q n) = take (unat n) (ring_list q)"
    by (auto simp: ring_read_def Let_def)
  show "ring_list (snd (ring_read q n)) = drop (unat n) (ring_list q)"
    by (rule ring_read_rest [OF wf])
qed


lemma ring_write_refines:
  assumes wf: "wf_ring r" and len: "unat n \<le> length data"
  shows "wf_ring (ring_write r data n) \<and> rcap (ring_write r data n) = rcap r \<and>
    ring_list (ring_write r data n) = last_n (unat (rcap r)) (ring_list r @ take (unat n) data)"
proof (cases "rcap r \<le> n")
  case True
  let ?c = "unat (rcap r)" and ?d = "drop (unat (n - rcap r)) data"
  have le: "?c \<le> unat n" using True by (simp add: word_le_nat_alt)
  have d: "unat (n - rcap r) = unat n - ?c" using True by (rule unat_sub_le)
  have buf: "ring_fill (rbuf r) ?d 0 ?c = take ?c ?d"
    using wf len le d by (subst ring_fill_eq) (simp_all add: wf_ring_def)
  have w: "ring_write r data n = r\<lparr>rhead := 0, rlen := rcap r, rbuf := take ?c ?d\<rparr>"
    using True buf by (simp add: ring_write_def Let_def)
  have wf': "wf_ring (ring_write r data n)"
    using wf len le d unfolding w by (simp add: wf_ring_def word_less_nat_alt)
  have "ring_list (ring_write r data n) = take ?c ?d"
  proof (rule nth_equalityI)
    show "length (ring_list (ring_write r data n)) = length (take ?c ?d)"
      using len le d by (simp add: w)
    fix i assume "i < length (ring_list (ring_write r data n))"
    then have "i < ?c" by (simp add: w)
    then show "ring_list (ring_write r data n) ! i = take ?c ?d ! i"
      using ring_list_nth [OF wf', of i] by (simp add: w)
  qed
  also have "\<dots> = last_n ?c (ring_list r @ take (unat n) data)"
    using len le d by (simp add: last_n_def take_drop)
  finally show ?thesis using wf' by (simp add: w)
next
  case False
  then have "ring_write r data n = foldl ring_putc r (take (unat n) data)"
    using ring_puts_foldl [of 0 "unat n" data r] len by (simp add: ring_write_def)
  then show ?thesis
    using rq.puts_refine [OF wf, of "take (unat n) data"] by (simp add: word_unat_eq_iff)
qed

section \<open>Properties\<close>

text \<open>
  C26: \<open>ring_write\<close> refines "append, then keep the newest \<open>cap\<close> bytes": both branches, the
  wholesale refill when \<^verbatim>\<open>n >= cap\<close> and the byte-wise loop, leave a well-formed ring that
  stands for the last \<open>cap\<close> bytes of the old content followed by the data.
\<close>

theorem ring_write_spec:
  assumes "wf_ring r" and "unat n \<le> length data"
  shows "wf_ring (ring_write r data n) \<and>
    ring_list (ring_write r data n) = last_n (unat (rcap r)) (ring_list r @ take (unat n) data)"
  using ring_write_refines [OF assms] by blast

definition sample_ring :: ring_t where
  "sample_ring = ring_putc (ring_putc (ring_init [0, 0, 0] 3) 7) 8"

lemma wf_sample_ring: "wf_ring sample_ring"
  by (simp add: sample_ring_def ring_putc_def ring_init_def wf_ring_def Let_def)

theorem ring_write_spec_witness:
  "ring_list (ring_write sample_ring [1, 2] 2) = [8, 1, 2]"
proof -
  have l: "ring_list sample_ring = [7, 8]" and c: "rcap sample_ring = 3"
    by (simp_all add: sample_ring_def ring_putc_def ring_init_def ring_list_def ring_start_def
        Let_def upt_rec)
  show ?thesis
    using ring_write_spec [OF wf_sample_ring, of 2 "[1, 2]"] by (simp add: l c last_n_def)
qed

text \<open>
  \<open>ring_read\<close> returns the oldest \<^verbatim>\<open>min(len, out_cap)\<close> bytes in order, consumes exactly
  those, and keeps the ring well formed.
\<close>

lemma ring_read_spec:
  assumes "wf_ring r"
  shows "fst (ring_read r n) = take (unat n) (ring_list r) \<and>
    ring_list (snd (ring_read r n)) = drop (unat n) (ring_list r) \<and>
    wf_ring (snd (ring_read r n))"
  using rq.get_fst [OF assms] rq.get_snd [OF assms] rq.get_invar [OF assms] by simp

end
