(* ===== verification/Spinlock.thy ===== *)
theory Spinlock
  imports Kernel_Prelude "HOL-Library.Monad_Syntax"
begin

text \<open>
  The spinlock of \<^verbatim>\<open>kernel/spinlock.h\<close>: the nesting of interrupt disabling
  (\<^verbatim>\<open>pushcli\<close>, \<^verbatim>\<open>popcli\<close>) on one CPU, the lock operations as one CPU runs them, and the
  same operations as a step relation over any number of CPUs, split at every access to the
  lock's two shared words.

  \<open>None\<close> is "does not return": the CPU sits in \<^verbatim>\<open>hlt\<close> with interrupts off, or spins on a lock
  that nobody else is there to release.
\<close>

section \<open>One CPU\<close>

text \<open>The fields of \<^verbatim>\<open>struct cpu\<close> the lock code uses, and the IF bit of the CPU's RFLAGS.\<close>

record cpu =
  ncli :: u8
  intena :: u8
  iflag :: bool

text \<open>\<open>lcpu\<close> is the pointer to the holder's \<^verbatim>\<open>struct cpu\<close>, here the CPU's index; \<open>None\<close> is 0.\<close>

record spinlock =
  locked :: u8
  lname :: string
  lcpu :: "nat option"

text \<open>\<^verbatim>\<open>hlt\<close> resumes after the next interrupt; with interrupts off there is none.\<close>

definition hlt :: "cpu \<Rightarrow> cpu option" where
  "hlt c = (if iflag c then Some c else None)"

definition pushcli :: "cpu \<Rightarrow> cpu" where
  "pushcli c =
     (let was_on = iflag c;
          c1 = c\<lparr>iflag := False\<rparr>;
          c2 = (if ncli c1 = 0 then c1\<lparr>intena := (if was_on then 1 else 0)\<rparr> else c1)
      in c2\<lparr>ncli := ncli c2 + 1\<rparr>)"

definition popcli :: "cpu \<Rightarrow> cpu option" where
  "popcli c =
     do {
       c1 \<leftarrow> (if iflag c then hlt c else Some c);
       c2 \<leftarrow> (if ncli c1 = 0 then hlt c1 else Some c1);
       let c3 = c2\<lparr>ncli := ncli c2 - 1\<rparr>;
       Some (if ncli c3 = 0 \<and> intena c3 \<noteq> 0 then c3\<lparr>iflag := True\<rparr> else c3)
     }"

definition initlock :: "string \<Rightarrow> spinlock" where
  "initlock name = \<lparr>locked = 0, lname = name, lcpu = None\<rparr>"

definition holding :: "nat \<Rightarrow> cpu \<Rightarrow> spinlock \<Rightarrow> (bool \<times> cpu) option" where
  "holding me c lk =
     do {
       let c1 = pushcli c;
       let r = (locked lk \<noteq> 0 \<and> lcpu lk = Some me);
       c2 \<leftarrow> popcli c1;
       Some (r, c2)
     }"

definition acquire :: "nat \<Rightarrow> cpu \<Rightarrow> spinlock \<Rightarrow> (cpu \<times> spinlock) option" where
  "acquire me c lk =
     do {
       let c1 = pushcli c;
       (held, c2) \<leftarrow> holding me c1 lk;
       c3 \<leftarrow> (if held then hlt c2 else Some c2);
       if locked lk \<noteq> 0 then None
       else Some (c3, lk\<lparr>locked := 1, lcpu := Some me\<rparr>)
     }"

definition release :: "nat \<Rightarrow> cpu \<Rightarrow> spinlock \<Rightarrow> (cpu \<times> spinlock) option" where
  "release me c lk =
     do {
       (held, c1) \<leftarrow> holding me c lk;
       c2 \<leftarrow> (if \<not> held then hlt c1 else Some c1);
       let lk1 = lk\<lparr>lcpu := None\<rparr>;
       let lk2 = lk1\<lparr>locked := 0\<rparr>;
       c3 \<leftarrow> popcli c2;
       Some (c3, lk2)
     }"

section \<open>All CPUs\<close>

text \<open>
  Where a CPU stands in the code, between two accesses to shared memory. \<open>Entered\<close>: in
  \<open>acquire\<close>, before \<open>holding\<close> reads \<^verbatim>\<open>locked\<close>. \<open>Checking\<close>: it read a non-zero
  \<^verbatim>\<open>locked\<close>, and is about to read \<^verbatim>\<open>cpu\<close>. \<open>Spinning\<close>: in the \<^verbatim>\<open>xchg\<close> loop. \<open>Owned\<close>: its
  \<^verbatim>\<open>xchg\<close> returned 0. \<open>Critical\<close>: \<open>acquire\<close> returned. \<open>Cleared\<close>: in \<open>release\<close>, after
  \<^verbatim>\<open>lk->cpu = 0\<close>. \<open>Unlocked\<close>: after \<^verbatim>\<open>locked = 0\<close>, before \<open>popcli\<close>. \<open>Stuck\<close>: in
  \<^verbatim>\<open>hlt\<close> with interrupts off; \<open>Dead\<close>: so inside \<open>release\<close>, the lock still held.
\<close>

datatype lk_pc = Idle | Entered | Checking | Spinning | Owned | Critical | Cleared | Unlocked | Stuck | Dead

record lk_sys =
  cpus :: "nat \<Rightarrow> cpu"
  lk :: spinlock
  pcs :: "nat \<Rightarrow> lk_pc"

definition at_pc :: "lk_sys \<Rightarrow> nat \<Rightarrow> lk_pc \<Rightarrow> lk_sys" where
  "at_pc s i p = s\<lparr>pcs := (pcs s)(i := p)\<rparr>"

definition set_cpu :: "lk_sys \<Rightarrow> nat \<Rightarrow> cpu \<Rightarrow> lk_sys" where
  "set_cpu s i c = s\<lparr>cpus := (cpus s)(i := c)\<rparr>"

text \<open>\<open>popcli\<close> of CPU \<open>i\<close>, then on to \<open>p\<close>; a CPU whose \<open>popcli\<close> halts is stuck.\<close>

definition pop_to :: "lk_sys \<Rightarrow> nat \<Rightarrow> lk_pc \<Rightarrow> lk_sys" where
  "pop_to s i p = (case popcli (cpus s i) of
     None \<Rightarrow> at_pc s i Stuck | Some c \<Rightarrow> at_pc (set_cpu s i c) i p)"

inductive lk_step :: "lk_sys \<Rightarrow> lk_sys \<Rightarrow> bool" where
  enter: "pcs s i = Idle \<Longrightarrow>
    lk_step s (at_pc (set_cpu s i (pushcli (pushcli (cpus s i)))) i Entered)"
| read_free: "pcs s i = Entered \<Longrightarrow> locked (lk s) = 0 \<Longrightarrow> lk_step s (pop_to s i Spinning)"
| read_locked: "pcs s i = Entered \<Longrightarrow> locked (lk s) \<noteq> 0 \<Longrightarrow> lk_step s (at_pc s i Checking)"
| read_other: "pcs s i = Checking \<Longrightarrow> lcpu (lk s) \<noteq> Some i \<Longrightarrow> lk_step s (pop_to s i Spinning)"
| read_self: "pcs s i = Checking \<Longrightarrow> lcpu (lk s) = Some i \<Longrightarrow> lk_step s (pop_to s i Stuck)"
| xchg_fail: "pcs s i = Spinning \<Longrightarrow> locked (lk s) \<noteq> 0 \<Longrightarrow>
    lk_step s (s\<lparr>lk := (lk s)\<lparr>locked := 1\<rparr>\<rparr>)"
| xchg_win: "pcs s i = Spinning \<Longrightarrow> locked (lk s) = 0 \<Longrightarrow>
    lk_step s (at_pc (s\<lparr>lk := (lk s)\<lparr>locked := 1\<rparr>\<rparr>) i Owned)"
| claim: "pcs s i = Owned \<Longrightarrow>
    lk_step s (at_pc (s\<lparr>lk := (lk s)\<lparr>lcpu := Some i\<rparr>\<rparr>) i Critical)"
| clear: "pcs s i = Critical \<Longrightarrow> locked (lk s) \<noteq> 0 \<Longrightarrow> lcpu (lk s) = Some i \<Longrightarrow>
    popcli (pushcli (cpus s i)) = Some c \<Longrightarrow>
    lk_step s (at_pc (set_cpu (s\<lparr>lk := (lk s)\<lparr>lcpu := None\<rparr>\<rparr>) i c) i Cleared)"
| clear_halt: "pcs s i = Critical \<Longrightarrow> locked (lk s) \<noteq> 0 \<Longrightarrow> lcpu (lk s) = Some i \<Longrightarrow>
    popcli (pushcli (cpus s i)) = None \<Longrightarrow> lk_step s (at_pc s i Dead)"
| clear_bad: "pcs s i = Critical \<Longrightarrow> \<not> (locked (lk s) \<noteq> 0 \<and> lcpu (lk s) = Some i) \<Longrightarrow>
    lk_step s (at_pc s i Stuck)"
| unlock: "pcs s i = Cleared \<Longrightarrow>
    lk_step s (at_pc (s\<lparr>lk := (lk s)\<lparr>locked := 0\<rparr>\<rparr>) i Unlocked)"
| leave: "pcs s i = Unlocked \<Longrightarrow> lk_step s (pop_to s i Idle)"

definition lk_init :: "(nat \<Rightarrow> cpu) \<Rightarrow> lk_sys" where
  "lk_init cs = \<lparr>cpus = cs, lk = initlock '''', pcs = (\<lambda>_. Idle)\<rparr>"

inductive lk_reach :: "(nat \<Rightarrow> cpu) \<Rightarrow> lk_sys \<Rightarrow> bool" for cs where
  start: "lk_reach cs (lk_init cs)"
| step: "lk_reach cs s \<Longrightarrow> lk_step s t \<Longrightarrow> lk_reach cs t"

definition in_lock :: "lk_pc \<Rightarrow> bool" where
  "in_lock p \<longleftrightarrow> p = Owned \<or> p = Critical \<or> p = Cleared \<or> p = Dead"

text \<open>
  The lock word is non-zero exactly while some CPU is between winning the exchange and the
  store of 0, there is at most one such CPU, and the \<^verbatim>\<open>cpu\<close> word names the one in its
  critical section.
\<close>

definition lk_inv :: "lk_sys \<Rightarrow> bool" where
  "lk_inv s \<longleftrightarrow>
     (\<forall>i j. in_lock (pcs s i) \<longrightarrow> in_lock (pcs s j) \<longrightarrow> i = j) \<and>
     (locked (lk s) \<noteq> 0 \<longleftrightarrow> (\<exists>i. in_lock (pcs s i))) \<and>
     (\<forall>i. lcpu (lk s) = Some i \<longleftrightarrow> pcs s i = Critical \<or> pcs s i = Dead)"

section \<open>Lemmas\<close>

lemma pc_simps [simp]:
  "pcs (at_pc s i p) = (pcs s)(i := p)" "lk (at_pc s i p) = lk s"
  "cpus (at_pc s i p) = cpus s"
  "pcs (set_cpu s i c) = pcs s" "lk (set_cpu s i c) = lk s"
  "cpus (set_cpu s i c) = (cpus s)(i := c)"
  by (simp_all add: at_pc_def set_cpu_def)

lemma pop_to_pcs:
  "lk (pop_to s i p) = lk s"
  "pcs (pop_to s i p) = (pcs s)(i := (if popcli (cpus s i) = None then Stuck else p))"
  by (auto simp: pop_to_def split: option.splits)

lemma lk_inv_init: "lk_inv (lk_init cs)"
  by (simp add: lk_inv_def lk_init_def initlock_def in_lock_def)

text \<open>A step that changes neither the lock words nor who is between them.\<close>

lemma lk_inv_outside:
  assumes "lk_inv s" "pcs t = (pcs s)(i := p)" "in_lock p \<longleftrightarrow> in_lock (pcs s i)"
    "p = Critical \<or> p = Dead \<longleftrightarrow> pcs s i = Critical \<or> pcs s i = Dead" "lk t = lk s"
  shows "lk_inv t"
proof -
  have "in_lock (pcs t j) \<longleftrightarrow> in_lock (pcs s j)" for j
    using assms by auto
  moreover have "pcs t j = Critical \<or> pcs t j = Dead \<longleftrightarrow> pcs s j = Critical \<or> pcs s j = Dead" for j
    using assms by (cases "j = i") simp_all
  ultimately show ?thesis using assms(1,5) by (simp add: lk_inv_def)
qed

lemma lk_inv_pop_to:
  assumes "lk_inv s" "\<not> in_lock (pcs s i)" "\<not> in_lock p"
  shows "lk_inv (pop_to s i p)"
  by (rule lk_inv_outside [OF assms(1) pop_to_pcs(2)])
    (use assms in \<open>auto simp: in_lock_def pop_to_pcs\<close>)

lemma lk_inv_only:
  "lk_inv s \<Longrightarrow> in_lock (pcs s i) \<Longrightarrow> in_lock (pcs s j) \<longleftrightarrow> j = i"
  by (auto simp: lk_inv_def)

lemma lk_inv_stay:
  assumes "lk_inv s" "pcs t = (pcs s)(i := p)" "in_lock (pcs s i)" "in_lock p"
    "locked (lk t) \<noteq> 0"
    "lcpu (lk t) = (if p = Critical \<or> p = Dead then Some i else None)"
  shows "lk_inv t"
proof -
  have only: "in_lock (pcs s j) \<longleftrightarrow> j = i" for j by (rule lk_inv_only [OF assms(1,3)])
  have "pcs t j \<noteq> Critical \<and> pcs t j \<noteq> Dead" if "j \<noteq> i" for j
    using only [of j] that assms(2) by (auto simp: in_lock_def)
  moreover have "in_lock (pcs t j) \<longleftrightarrow> j = i" for j
    using only [of j] assms(2,4) by auto
  ultimately show ?thesis
    using assms by (auto simp: lk_inv_def split: if_splits)
qed

lemma lk_step_inv: "lk_step s t \<Longrightarrow> lk_inv s \<Longrightarrow> lk_inv t"
proof (induction rule: lk_step.induct)
  case (enter s i)
  show ?case by (rule lk_inv_outside [OF enter(2), of _ i Entered]) (use enter(1) in \<open>auto simp: in_lock_def\<close>)
next
  case (read_free s i)
  then show ?case by (intro lk_inv_pop_to) (simp_all add: in_lock_def)
next
  case (read_locked s i)
  show ?case
    by (rule lk_inv_outside [OF read_locked(3), of _ i Checking]) (use read_locked(1) in \<open>auto simp: in_lock_def\<close>)
next
  case (read_other s i)
  then show ?case by (intro lk_inv_pop_to) (simp_all add: in_lock_def)
next
  case (read_self s i)
  then show ?case by (intro lk_inv_pop_to) (simp_all add: in_lock_def)
next
  case (xchg_fail s i)
  then show ?case by (auto simp: lk_inv_def)
next
  case (xchg_win s i)
  then have none: "\<not> in_lock (pcs s j)" for j by (auto simp: lk_inv_def)
  then have "pcs s j \<noteq> Critical \<and> pcs s j \<noteq> Dead" for j
    by (metis in_lock_def)
  with none xchg_win show ?case by (auto simp: lk_inv_def in_lock_def)
next
  case (claim s i)
  show ?case by (rule lk_inv_stay [OF claim(2), of _ i Critical]) (use claim in \<open>auto simp: in_lock_def lk_inv_def\<close>)
next
  case (clear s i c)
  show ?case by (rule lk_inv_stay [OF clear(5), of _ i Cleared]) (use clear in \<open>auto simp: in_lock_def\<close>)
next
  case (clear_halt s i)
  show ?case
    by (rule lk_inv_outside [OF clear_halt(5), of _ i Dead]) (use clear_halt(1) in \<open>auto simp: in_lock_def\<close>)
next
  case (clear_bad s i)
  then show ?case by (auto simp: lk_inv_def in_lock_def)
next
  case (unlock s i)
  have in_i: "in_lock (pcs s i)" using unlock(1) by (simp add: in_lock_def)
  have only: "in_lock (pcs s j) \<longleftrightarrow> j = i" for j by (rule lk_inv_only [OF unlock(2) in_i])
  have not: "pcs s j \<noteq> Critical \<and> pcs s j \<noteq> Dead" for j
    using only [of j] unlock(1) by (auto simp: in_lock_def)
  then have "lcpu (lk s) = None" using unlock(2) by (auto simp: lk_inv_def)
  then show ?case using only not by (auto simp: lk_inv_def in_lock_def)
next
  case (leave s i)
  then show ?case by (intro lk_inv_pop_to) (simp_all add: in_lock_def)
qed

lemma lk_reach_inv: "lk_reach cs s \<Longrightarrow> lk_inv s"
  by (induction rule: lk_reach.induct) (auto intro: lk_inv_init lk_step_inv)


section \<open>Acquire and release on one CPU\<close>

lemma push_pop:
  "ncli c + 1 \<noteq> 0 \<Longrightarrow> popcli (pushcli c) =
     Some (if ncli c = 0 then c\<lparr>intena := (if iflag c then 1 else 0)\<rparr> else c\<lparr>iflag := False\<rparr>)"
  by (auto simp: popcli_def pushcli_def Let_def)

lemma pushcli_fields [simp]:
  "ncli (pushcli c) = ncli c + 1" "iflag (pushcli c) = False"
  "intena (pushcli c) = (if ncli c = 0 then if iflag c then 1 else 0 else intena c)"
  by (simp_all add: pushcli_def Let_def)

lemma u8_add1_neq_0:
  assumes "unat (n :: u8) + 1 < 256"
  shows "n + 1 \<noteq> 0"
proof -
  have "unat (n + 1) = unat n + 1" using assms by (simp add: unat_word_ariths)
  then show ?thesis by (metis add_is_0 unat_0 zero_neq_one)
qed

lemma holding_ok:
  assumes "iflag c = False" "unat (ncli c) + 1 < 256" "ncli c \<noteq> 0"
  shows "holding me c l = Some (locked l \<noteq> 0 \<and> lcpu l = Some me, c)"
proof -
  have "ncli c + 1 \<noteq> 0" by (rule u8_add1_neq_0 [OF assms(2)])
  then show ?thesis using assms by (simp add: holding_def push_pop Let_def)
qed

lemma acquire_free:
  assumes "locked l = 0" "unat (ncli c) + 2 < 256"
  shows "acquire me c l = Some (pushcli c, l\<lparr>locked := 1, lcpu := Some me\<rparr>)"
proof -
  have n1: "ncli c + 1 \<noteq> 0" using assms(2) by (intro u8_add1_neq_0) simp
  have "unat (ncli c + 1) + 1 < 256" using assms(2) by (simp add: unat_word_ariths)
  then have "holding me (pushcli c) l = Some (False, pushcli c)"
    using assms n1 by (subst holding_ok) simp_all
  then show ?thesis using assms by (simp add: acquire_def Let_def)
qed

lemma release_held:
  assumes "locked l \<noteq> 0" "lcpu l = Some me" "iflag c = False" "ncli c \<noteq> 0"
    "unat (ncli c) + 1 < 256"
  shows "release me c l =
    Some (let c' = c\<lparr>ncli := ncli c - 1\<rparr>
          in if ncli c' = 0 \<and> intena c' \<noteq> 0 then c'\<lparr>iflag := True\<rparr> else c',
          l\<lparr>lcpu := None, locked := 0\<rparr>)"
  using assms by (simp add: release_def holding_ok popcli_def Let_def)


lemma acquire_release_id:
  assumes "locked l = 0" "lcpu l = None" "unat (ncli c) + 2 < 256" "ncli c = 0 \<or> \<not> iflag c"
  shows "acquire me c l = Some (pushcli c, l\<lparr>locked := 1, lcpu := Some me\<rparr>)"
    and "holding me (pushcli c) (l\<lparr>locked := 1, lcpu := Some me\<rparr>) = Some (True, pushcli c)"
    and "release me (pushcli c) (l\<lparr>locked := 1, lcpu := Some me\<rparr>) =
      Some (if ncli c = 0 then c\<lparr>intena := (if iflag c then 1 else 0)\<rparr> else c, l)"
proof -
  have n1: "ncli c + 1 \<noteq> 0" using assms(3) by (intro u8_add1_neq_0) simp
  have n2: "unat (ncli c + 1) + 1 < 256" using assms(3) by (simp add: unat_word_ariths)
  show "acquire me c l = Some (pushcli c, l\<lparr>locked := 1, lcpu := Some me\<rparr>)"
    by (rule acquire_free [OF assms(1,3)])
  show "holding me (pushcli c) (l\<lparr>locked := 1, lcpu := Some me\<rparr>) = Some (True, pushcli c)"
    using n1 n2 by (subst holding_ok) simp_all
  show "release me (pushcli c) (l\<lparr>locked := 1, lcpu := Some me\<rparr>) =
      Some (if ncli c = 0 then c\<lparr>intena := (if iflag c then 1 else 0)\<rparr> else c, l)"
    using n1 n2 assms by (subst release_held) (auto simp: Let_def pushcli_def)
qed

text \<open>A run of one CPU into its critical section, for the witness of mutual exclusion.\<close>

definition boot_cpu :: cpu where
  "boot_cpu = \<lparr>ncli = 0, intena = 0, iflag = True\<rparr>"

lemma one_cpu_critical: "\<exists>s. lk_reach (\<lambda>_. boot_cpu) s \<and> pcs s 0 = Critical"
proof -
  let ?c0 = "\<lambda>_ :: nat. boot_cpu"
  let ?s0 = "lk_init ?c0"
  let ?s1 = "at_pc (set_cpu ?s0 0 (pushcli (pushcli (cpus ?s0 0)))) 0 Entered"
  let ?s2 = "pop_to ?s1 0 Spinning"
  let ?s3 = "at_pc (?s2\<lparr>lk := (lk ?s2)\<lparr>locked := 1\<rparr>\<rparr>) 0 Owned"
  let ?s4 = "at_pc (?s3\<lparr>lk := (lk ?s3)\<lparr>lcpu := Some 0\<rparr>\<rparr>) 0 Critical"
  have r1: "lk_reach ?c0 ?s1"
    by (rule lk_reach.step [OF lk_reach.start], rule lk_step.enter) (simp add: lk_init_def)
  have r2: "lk_reach ?c0 ?s2"
    by (rule lk_reach.step [OF r1], rule lk_step.read_free) (simp_all add: lk_init_def initlock_def)
  have p2: "pcs ?s2 0 = Spinning"
    by (simp add: pop_to_pcs lk_init_def popcli_def pushcli_def boot_cpu_def Let_def)
  have r3: "lk_reach ?c0 ?s3"
    by (rule lk_reach.step [OF r2], rule lk_step.xchg_win)
      (simp_all add: p2, simp add: pop_to_pcs lk_init_def initlock_def)
  have r4: "lk_reach ?c0 ?s4"
    by (rule lk_reach.step [OF r3], rule lk_step.claim) simp
  then show ?thesis by (intro exI [of _ ?s4]) simp
qed

section \<open>Properties\<close>



text \<open>
  On one CPU, \<^verbatim>\<open>acquire\<close> of a free lock returns with interrupts off and the lock held, and
  the matching \<^verbatim>\<open>release\<close> returns with the lock as it was and the CPU's nesting count and
  interrupt flag restored, at any nesting depth below 254.
\<close>

lemma acquire_release_restores:
  assumes "locked l = 0" and "lcpu l = None" and "unat (ncli c) + 2 < 256"
    and "ncli c = 0 \<or> \<not> iflag c"
  shows "\<exists>c1 l1. acquire me c l = Some (c1, l1) \<and> \<not> iflag c1 \<and>
    holding me c1 l1 = Some (True, c1) \<and>
    (\<exists>c2. release me c1 l1 = Some (c2, l) \<and> ncli c2 = ncli c \<and> iflag c2 = iflag c)"
  using acquire_release_id [OF assms, of me] by auto

text \<open>
  The two checks the source marks as panics do not stop the CPU when interrupts are on:
  \<^verbatim>\<open>hlt\<close> resumes at the next interrupt, and a \<^verbatim>\<open>popcli\<close> with a zero count then wraps the
  8-bit count to 255. They stop it exactly when interrupts are off and the count is zero.
\<close>

lemma popcli_panic_checks:
  "(popcli c = None \<longleftrightarrow> \<not> iflag c \<and> ncli c = 0) \<and>
   (iflag c \<and> ncli c = 0 \<longrightarrow> (\<exists>c'. popcli c = Some c' \<and> ncli c' = 255))"
  by (auto simp: popcli_def hlt_def Let_def)

end
