(* ===== verification/Bytes.thy ===== *)
theory Bytes
  imports Kernel_Prelude
begin

text \<open>
  The kernel's address space as a byte memory, with the loops \<^verbatim>\<open>memset\<close> and \<^verbatim>\<open>memcpy\<close> of
  \<^verbatim>\<open>kernel/mem.c\<close> and the little-endian 64-bit loads and stores through which the C code
  reaches page-table entries and the free blocks' link words. Each loop comes with its
  closed form, so that later proofs never unfold a loop of 4096 rounds.
\<close>

section \<open>Model\<close>

type_synonym mem = "u64 \<Rightarrow> u8"

fun memset_loop :: "mem \<Rightarrow> u64 \<Rightarrow> u8 \<Rightarrow> u64 \<Rightarrow> nat \<Rightarrow> mem" where
  "memset_loop m d c i 0 = m"
| "memset_loop m d c i (Suc k) = memset_loop (m(d + i := c)) d c (i + 1) k"

definition memset :: "mem \<Rightarrow> u64 \<Rightarrow> i32 \<Rightarrow> u64 \<Rightarrow> mem" where
  "memset m dst c n = memset_loop m dst (ucast c) 0 (unat n)"

fun memcpy_loop :: "mem \<Rightarrow> u64 \<Rightarrow> u64 \<Rightarrow> u64 \<Rightarrow> nat \<Rightarrow> mem" where
  "memcpy_loop m d s i 0 = m"
| "memcpy_loop m d s i (Suc k) = memcpy_loop (m(d + i := m (s + i))) d s (i + 1) k"

definition memcpy :: "mem \<Rightarrow> u64 \<Rightarrow> u64 \<Rightarrow> u64 \<Rightarrow> mem" where
  "memcpy m dst src n = memcpy_loop m dst src 0 (unat n)"

text \<open>The value of \<open>n\<close> bytes from \<open>a\<close> on, least significant first, and its inverse.\<close>

fun ld_bytes :: "mem \<Rightarrow> u64 \<Rightarrow> nat \<Rightarrow> nat" where
  "ld_bytes m a 0 = 0"
| "ld_bytes m a (Suc n) = unat (m a) + 256 * ld_bytes m (a + 1) n"

fun st_bytes :: "mem \<Rightarrow> u64 \<Rightarrow> nat \<Rightarrow> nat \<Rightarrow> mem" where
  "st_bytes m a v 0 = m"
| "st_bytes m a v (Suc n) = (st_bytes m (a + 1) (v div 256) n)(a := word_of_nat v)"

definition ld16 :: "mem \<Rightarrow> u64 \<Rightarrow> u16" where
  "ld16 m a = word_of_nat (ld_bytes m a 2)"

definition ld32 :: "mem \<Rightarrow> u64 \<Rightarrow> u32" where
  "ld32 m a = word_of_nat (ld_bytes m a 4)"

definition ld64 :: "mem \<Rightarrow> u64 \<Rightarrow> u64" where
  "ld64 m a = word_of_nat (ld_bytes m a 8)"

definition st16 :: "mem \<Rightarrow> u64 \<Rightarrow> u16 \<Rightarrow> mem" where
  "st16 m a v = st_bytes m a (unat v) 2"

definition st32 :: "mem \<Rightarrow> u64 \<Rightarrow> u32 \<Rightarrow> mem" where
  "st32 m a v = st_bytes m a (unat v) 4"

definition st64 :: "mem \<Rightarrow> u64 \<Rightarrow> u64 \<Rightarrow> mem" where
  "st64 m a v = st_bytes m a (unat v) 8"

text \<open>A row of bytes, and of words, written from \<open>a\<close> on.\<close>

fun wr_bytes :: "mem \<Rightarrow> u64 \<Rightarrow> u8 list \<Rightarrow> mem" where
  "wr_bytes m a [] = m"
| "wr_bytes m a (c # cs) = wr_bytes (m(a := c)) (a + 1) cs"

fun wr_words :: "mem \<Rightarrow> u64 \<Rightarrow> u64 list \<Rightarrow> mem" where
  "wr_words m a [] = m"
| "wr_words m a (w # ws) = wr_words (st64 m a w) (a + 8) ws"

section \<open>Closed forms of the loops\<close>

lemma word_less_SucE:
  fixes x :: u64
  shows "unat x < Suc k \<longleftrightarrow> x = 0 \<or> unat (x - 1) < k"
proof (cases "x = 0")
  case False
  then have "0 < unat x" by (simp add: unat_gt_0)
  with False show ?thesis by (simp add: unat_minus_one) linarith
qed simp

lemma memset_loop_apply:
  "memset_loop m d c i k a = (if unat (a - (d + i)) < k then c else m a)"
proof (induction k arbitrary: m i)
  case 0
  then show ?case by simp
next
  case (Suc k)
  have "unat (a - (d + i)) < Suc k \<longleftrightarrow> a = d + i \<or> unat (a - (d + (i + 1))) < k"
    using word_less_SucE [of "a - (d + i)" k] by (auto simp: algebra_simps)
  then show ?case by (simp add: Suc.IH)
qed

lemma memset_apply [mem_simps]:
  "memset m dst c n a = (if a - dst < n then ucast c else m a)"
  by (simp add: memset_def memset_loop_apply word_less_nat_alt)

text \<open>A copy whose ranges do not overlap: no byte of the source range is written.\<close>

lemma memcpy_loop_apply:
  assumes "\<And>j. unat j < k \<Longrightarrow> k \<le> unat (s + i + j - (d + i))"
  shows "memcpy_loop m d s i k a =
    (if unat (a - (d + i)) < k then m (s + (a - d)) else m a)"
  using assms
proof (induction k arbitrary: m i)
  case 0
  then show ?case by simp
next
  case (Suc k)
  let ?m = "m(d + i := m (s + i))"
  have far: "k \<le> unat (s + (i + 1) + j - (d + (i + 1)))" if "unat j < k" for j
    using Suc.prems [of j] that by (simp add: algebra_simps)
  have split: "unat (a - (d + i)) < Suc k \<longleftrightarrow> a = d + i \<or> unat (a - (d + (i + 1))) < k"
    using word_less_SucE [of "a - (d + i)" k] by (auto simp: algebra_simps)
  have src: "s + (a - d) \<noteq> d + i" if "unat (a - (d + (i + 1))) < k" "a \<noteq> d + i"
  proof
    assume eq: "s + (a - d) = d + i"
    define j where "j = a - (d + i)"
    have "unat j < Suc k" using that split by (simp add: j_def)
    from Suc.prems [OF this] have "Suc k \<le> unat (s + i + j - (d + i))" .
    moreover have "s + i + j - (d + i) = 0" using eq by (simp add: j_def algebra_simps)
    ultimately show False by simp
  qed
  have eq: "memcpy_loop m d s i (Suc k) a =
      (if unat (a - (d + (i + 1))) < k then ?m (s + (a - d)) else ?m a)"
    using Suc.IH [OF far] by simp
  then show ?case
  proof (cases "a = d + i")
    case True
    then have "unat (a - (d + i)) < Suc k" "a - d = i" by simp_all
    moreover have "memcpy_loop m d s i (Suc k) a = m (s + i)"
      using eq True by auto
    ultimately show ?thesis by simp
  next
    case False
    with eq split src show ?thesis by (simp del: memcpy_loop.simps)
  qed
qed

lemma memcpy_apply:
  assumes "\<And>j. j < n \<Longrightarrow> n \<le> src + j - dst"
  shows "memcpy m dst src n a = (if a - dst < n then m (src + (a - dst)) else m a)"
  using assms memcpy_loop_apply [of "unat n" src 0 dst m a]
  by (simp add: memcpy_def word_less_nat_alt word_le_nat_alt)

section \<open>Loads and stores\<close>

lemma ld_bytes_cong:
  "(\<And>j. j < n \<Longrightarrow> m (a + word_of_nat j) = m' (a + word_of_nat j)) \<Longrightarrow>
     ld_bytes m a n = ld_bytes m' a n"
proof (induction n arbitrary: a)
  case 0
  then show ?case by simp
next
  case (Suc n)
  have "ld_bytes m (a + 1) n = ld_bytes m' (a + 1) n"
  proof (rule Suc.IH)
    fix j assume "j < n"
    then show "m (a + 1 + word_of_nat j) = m' (a + 1 + word_of_nat j)"
      using Suc.prems [of "Suc j"] by (simp add: algebra_simps)
  qed
  with Suc.prems [of 0] show ?case by simp
qed

lemma st_bytes_other: "word_of_nat n \<le> x - a \<Longrightarrow> n < 2 ^ 64 \<Longrightarrow> st_bytes m a v n x = m x"
proof (induction n arbitrary: a v)
  case 0
  then show ?case by simp
next
  case (Suc n)
  have u: "unat (word_of_nat (Suc n) :: u64) = Suc n"
    using Suc.prems by (intro unat_of_nat_id) simp
  then have ne: "Suc n \<le> unat (x - a)" using Suc.prems by (simp add: word_le_nat_alt)
  then have "x - a \<noteq> 0" by auto
  then have "unat (x - (a + 1)) = unat (x - a) - 1"
    using unat_minus_one [of "x - a"] by (simp add: algebra_simps)
  then have "word_of_nat n \<le> x - (a + 1)"
    using ne Suc.prems unat_of_nat_id [of n, where 'a = 64] by (simp add: word_le_nat_alt)
  with Suc \<open>x - a \<noteq> 0\<close> show ?case by auto
qed

lemma ld_st_bytes: "n \<le> 8 \<Longrightarrow> ld_bytes (st_bytes m a v n) a n = v mod 256 ^ n"
proof (induction n arbitrary: m a v)
  case 0
  then show ?case by simp
next
  case (Suc n)
  let ?s = "st_bytes m (a + 1) (v div 256) n"
  have "ld_bytes (?s(a := word_of_nat v)) (a + 1) n = ld_bytes ?s (a + 1) n"
  proof (rule ld_bytes_cong)
    fix j assume "j < n"
    then have "unat (word_of_nat (Suc j) :: u64) = Suc j"
      using Suc.prems by (intro unat_of_nat_id) simp
    then have "(1 :: u64) + word_of_nat j \<noteq> 0" by (metis of_nat_Suc nat.distinct(1) unat_0)
    then show "(?s(a := word_of_nat v)) (a + 1 + word_of_nat j) = ?s (a + 1 + word_of_nat j)"
      by (simp add: add.assoc)
  qed
  then have "ld_bytes (st_bytes m a v (Suc n)) a (Suc n) =
      v mod 256 + 256 * (v div 256 mod 256 ^ n)"
    using Suc by (simp add: unat_of_nat take_bit_eq_mod)
  also have "\<dots> = v mod 256 ^ Suc n" by (simp add: mod_mult2_eq)
  finally show ?case .
qed

lemma ld64_zero [simp]: "ld64 (\<lambda>_. 0) a = 0"
proof -
  have "ld_bytes (\<lambda>_. 0) b n = 0" for b n by (induction n arbitrary: b) simp_all
  then show ?thesis by (simp add: ld64_def)
qed

lemma ld64_cong:
  "(\<And>x. x - a < 8 \<Longrightarrow> m x = m' x) \<Longrightarrow> ld64 m a = ld64 m' a"
  unfolding ld64_def
proof (rule arg_cong [where f = word_of_nat], rule ld_bytes_cong)
  fix j :: nat assume m: "\<And>x. x - a < 8 \<Longrightarrow> m x = m' x" and "j < 8"
  then have "(word_of_nat j :: u64) < 8" by (simp add: word_less_nat_alt unat_of_nat_id)
  then show "m (a + word_of_nat j) = m' (a + word_of_nat j)" by (intro m) simp
qed

lemma st64_other [mem_simps]: "8 \<le> x - a \<Longrightarrow> st64 m a v x = m x"
  unfolding st64_def by (rule st_bytes_other) simp_all

lemma ld64_st64_same [simp, mem_simps]: "ld64 (st64 m a v) a = v"
proof -
  have "ld_bytes (st_bytes m a (unat v) 8) a 8 = unat v mod 256 ^ 8" by (rule ld_st_bytes) simp
  also have "\<dots> = unat v" using unat_lt [of v] by simp
  finally show ?thesis by (simp add: ld64_def st64_def)
qed

lemma unat_minus_sub:
  fixes a b :: u64
  shows "a \<noteq> b \<Longrightarrow> unat (b - a) = 2 ^ 64 - unat (a - b)"
proof -
  assume ne: "a \<noteq> b"
  then have "unat a \<noteq> unat b" by (simp add: word_unat_eq_iff)
  then show ?thesis
    using unat_lt [of a] unat_lt [of b] by (simp add: unat_sub_if') linarith
qed

text \<open>Two 8-byte cells do not overlap when each starts at least 8 bytes after the other.\<close>

lemma cells_apart:
  fixes a b x :: u64
  assumes "x - b < 8" "8 \<le> a - b" "8 \<le> b - a"
  shows "8 \<le> x - a"
proof -
  have lt: "unat (x - b) < 8" and ge: "8 \<le> unat (a - b)" "8 \<le> unat (b - a)"
    using assms by (simp_all add: word_less_nat_alt word_le_nat_alt del: word_le_sub1)
  have "a \<noteq> b" using assms(2) by auto
  then have "unat (b - a) = 2 ^ 64 - unat (a - b)" by (rule unat_minus_sub)
  then have "unat (x - b) + unat (b - a) < 2 ^ LENGTH(64)"
    using lt ge unat_lt [of "a - b"] by simp
  from unat_add_lt [OF this] have "unat (x - a) = unat (x - b) + unat (b - a)" by simp
  then show ?thesis using ge by (simp add: word_le_nat_alt)
qed

lemma ld64_st64_other [mem_simps]:
  "8 \<le> a - b \<Longrightarrow> 8 \<le> b - a \<Longrightarrow> ld64 (st64 m a v) b = ld64 m b"
  by (rule ld64_cong) (simp add: st64_other cells_apart)

section \<open>Rows\<close>

lemma shift_unat:
  fixes x a :: u64
  assumes "n \<le> unat (x - a)"
  shows "unat (x - (a + word_of_nat n)) = unat (x - a) - n"
proof -
  have n: "unat (word_of_nat n :: u64) = n" using assms unat_lt [of "x - a"] by (intro unat_of_nat_id) simp
  have "unat ((x - a) - word_of_nat n) = unat (x - a) - unat (word_of_nat n :: u64)"
    using assms n by (intro unat_sub) (simp add: word_le_nat_alt)
  then show ?thesis unfolding n diff_diff_eq .
qed

lemma wr_bytes_other: "length cs \<le> unat (x - a) \<Longrightarrow> wr_bytes m a cs x = m x"
proof (induction cs arbitrary: a m)
  case (Cons c cs)
  then have "x \<noteq> a" by auto
  moreover have "length cs \<le> unat (x - (a + 1))"
    using Cons.prems shift_unat [of 1 x a] by simp
  ultimately show ?case using Cons.IH by simp
qed simp

lemma wr_bytes_nth:
  "length cs \<le> 2 ^ 63 \<Longrightarrow> unat (x - a) < length cs \<Longrightarrow> wr_bytes m a cs x = cs ! unat (x - a)"
proof (induction cs arbitrary: a m)
  case (Cons c cs)
  show ?case
  proof (cases "x = a")
    case True
    have "unat (a - (a + 1)) = 2 ^ 64 - 1" by (simp add: unsigned_minus_1_eq_mask mask_eq_exp_minus_1)
    then have "wr_bytes (m(a := c)) (a + 1) cs a = (m(a := c)) a"
      using Cons.prems(1) by (intro wr_bytes_other) simp
    then show ?thesis using True by simp
  next
    case False
    then have "x - a \<noteq> 0" by simp
    then have p: "0 < unat (x - a)" by (rule unat_gt_0 [THEN iffD2])
    then have "unat (x - (a + 1)) = unat (x - a) - 1" using shift_unat [of 1 x a] by simp
    then show ?thesis using Cons p by (simp add: nth_Cons')
  qed
qed simp

lemma wr_words_other: "8 * length ws \<le> unat (x - a) \<Longrightarrow> wr_words m a ws x = m x"
proof (induction ws arbitrary: a m)
  case (Cons w ws)
  have "8 \<le> x - a" using Cons.prems by (simp add: word_le_nat_alt)
  moreover have "8 * length ws \<le> unat (x - (a + 8))"
    using Cons.prems shift_unat [of 8 x a] by simp
  ultimately show ?case using Cons.IH by (simp add: st64_other)
qed simp

lemma ld64_wr_words:
  "8 * length ws \<le> 2 ^ 63 \<Longrightarrow> i < length ws \<Longrightarrow> ld64 (wr_words m a ws) (a + 8 * word_of_nat i) = ws ! i"
proof (induction ws arbitrary: a m i)
  case (Cons w ws)
  show ?case
  proof (cases i)
    case 0
    have "ld64 (wr_words (st64 m a w) (a + 8) ws) a = ld64 (st64 m a w) a"
    proof (rule ld64_cong)
      fix x assume x: "x - a < 8"
      have "unat (x - a - 8) = 2 ^ 64 - 8 + unat (x - a)"
        using x by (simp add: unat_sub_if' word_less_nat_alt)
      then have "8 * length ws \<le> unat (x - (a + 8))"
        using Cons.prems(1) by (simp add: algebra_simps)
      then show "wr_words (st64 m a w) (a + 8) ws x = st64 m a w x" by (rule wr_words_other)
    qed
    then show ?thesis using 0 by simp
  next
    case (Suc j)
    have a: "a + 8 * word_of_nat i = a + 8 + 8 * word_of_nat j" using Suc by (simp add: algebra_simps)
    have "ld64 (wr_words (st64 m a w) (a + 8) ws) (a + 8 + 8 * word_of_nat j) = ws ! j"
      by (rule Cons.IH) (use Cons.prems Suc in simp_all)
    then show ?thesis unfolding a using Suc by simp
  qed
qed simp

end
