(* ===== verification/Buddy.thy ===== *)
theory Buddy
  imports Bytes Spinlock "HOL-Library.Multiset" "HOL-Library.Monad_Syntax"
begin

text \<open>
  The binary buddy allocator of \<^verbatim>\<open>kernel/mem.c\<close>. The model works on the byte memory: the
  free lists are chained through the first word of each free block, and the walk of
  \<^verbatim>\<open>buddy_remove\<close> follows pointers to the link cells. A function that may not return is
  \<open>None\<close>-valued there. The specification is the multiset of free pages.
\<close>

section \<open>Model\<close>

text \<open>The kernel's memory, the HHDM offset, the allocator's global state, and the state of
  the CPU that runs (\<open>kme\<close> is its index), which the lock operations change.\<close>

record kmem =
  kbytes :: mem
  khhdm :: u64
  bd_lock :: spinlock
  bd_use_lock :: u8
  bd_lists :: "u64 list"
  kme :: nat
  kcpu :: cpu

abbreviation (input) MAX_ORDER :: nat where "MAX_ORDER \<equiv> 12"
abbreviation (input) PAGE_SIZE :: u64 where "PAGE_SIZE \<equiv> 4096"
abbreviation (input) MEM_FREE_PATTERN :: i32 where "MEM_FREE_PATTERN \<equiv> 0x01"
abbreviation (input) MEM_ALLOC_PATTERN :: i32 where "MEM_ALLOC_PATTERN \<equiv> 0x05"

partial_function (option) order_loop :: "u64 \<Rightarrow> u64 \<Rightarrow> nat \<Rightarrow> nat option" where
  "order_loop n sz ord =
     (if sz < n then order_loop n (push_bit 1 sz) (ord + 1) else Some ord)"

definition order_for :: "u64 \<Rightarrow> nat option" where
  "order_for n = order_loop n 1 0"

definition kinit :: "kmem \<Rightarrow> u64 \<Rightarrow> kmem" where
  "kinit st hhdm = st\<lparr>khhdm := hhdm, bd_lock := initlock ''buddy'', bd_use_lock := 0,
     bd_lists := replicate MAX_ORDER 0\<rparr>"

text \<open>The places \<^verbatim>\<open>struct run **pp\<close> points to: a list head or the link word of a block.\<close>

datatype cell = Head nat | Next u64

fun rd_cell :: "kmem \<Rightarrow> cell \<Rightarrow> u64" where
  "rd_cell st (Head k) = bd_lists st ! k"
| "rd_cell st (Next a) = ld64 (kbytes st) a"

fun wr_cell :: "kmem \<Rightarrow> cell \<Rightarrow> u64 \<Rightarrow> kmem" where
  "wr_cell st (Head k) v = st\<lparr>bd_lists := (bd_lists st)[k := v]\<rparr>"
| "wr_cell st (Next a) v = st\<lparr>kbytes := st64 (kbytes st) a v\<rparr>"

partial_function (option) remove_walk :: "kmem \<Rightarrow> u64 \<Rightarrow> cell \<Rightarrow> (bool \<times> kmem) option" where
  "remove_walk st addr pp =
     (let p = rd_cell st pp in
      if p = 0 then Some (False, st)
      else if p = addr then Some (True, wr_cell st pp (ld64 (kbytes st) p))
      else remove_walk st addr (Next p))"

definition buddy_remove :: "kmem \<Rightarrow> u64 \<Rightarrow> nat \<Rightarrow> (bool \<times> kmem) option" where
  "buddy_remove st addr order = remove_walk st addr (Head order)"

text \<open>\<^verbatim>\<open>r->next = free_lists[order]; free_lists[order] = r\<close>\<close>

definition bd_push :: "kmem \<Rightarrow> u64 \<Rightarrow> nat \<Rightarrow> kmem" where
  "bd_push st r order =
     (let st1 = st\<lparr>kbytes := st64 (kbytes st) r (bd_lists st ! order)\<rparr>
      in st1\<lparr>bd_lists := (bd_lists st1)[order := r]\<rparr>)"

function bd_merge :: "kmem \<Rightarrow> u64 \<Rightarrow> nat \<Rightarrow> (u64 \<times> nat \<times> kmem) option" where
  "bd_merge st addr order =
     (if order < MAX_ORDER - 1 then
        (let buddy_addr = addr XOR push_bit order PAGE_SIZE in
         case buddy_remove st buddy_addr order of
           None \<Rightarrow> None
         | Some (False, st1) \<Rightarrow> Some (addr, order, st1)
         | Some (True, st1) \<Rightarrow>
             bd_merge st1 (if buddy_addr < addr then buddy_addr else addr) (order + 1))
      else Some (addr, order, st))"
  by pat_completeness auto
termination by (relation "measure (\<lambda>(_, _, order). MAX_ORDER - order)") auto

definition bd_acquire :: "kmem \<Rightarrow> kmem option" where
  "bd_acquire st =
     (if bd_use_lock st \<noteq> 0 then
        do { (c, l) \<leftarrow> acquire (kme st) (kcpu st) (bd_lock st);
             Some (st\<lparr>kcpu := c, bd_lock := l\<rparr>) }
      else Some st)"

definition bd_release :: "kmem \<Rightarrow> kmem option" where
  "bd_release st =
     (if bd_use_lock st \<noteq> 0 then
        do { (c, l) \<leftarrow> release (kme st) (kcpu st) (bd_lock st);
             Some (st\<lparr>kcpu := c, bd_lock := l\<rparr>) }
      else Some st)"

definition kfree :: "kmem \<Rightarrow> u64 \<Rightarrow> u64 \<Rightarrow> kmem option" where
  "kfree st v npages =
     (if v mod PAGE_SIZE \<noteq> 0 \<or> npages = 0 then Some st
      else do {
        order0 \<leftarrow> order_for npages;
        let order = (if MAX_ORDER \<le> order0 then MAX_ORDER - 1 else order0);
        let block_pages = push_bit order 1;
        let st1 = st\<lparr>kbytes := memset (kbytes st) v MEM_FREE_PATTERN (block_pages * PAGE_SIZE)\<rparr>;
        st2 \<leftarrow> bd_acquire st1;
        (addr, order', st3) \<leftarrow> bd_merge st2 v order;
        bd_release (bd_push st3 addr order')
      })"

text \<open>The search for the smallest non-empty list, and the splitting of the popped block.\<close>

function bd_find :: "kmem \<Rightarrow> nat \<Rightarrow> nat" where
  "bd_find st k = (if k < MAX_ORDER \<and> bd_lists st ! k = 0 then bd_find st (k + 1) else k)"
  by pat_completeness auto
termination by (relation "measure (\<lambda>(_, k). MAX_ORDER - k)") auto

fun bd_split :: "kmem \<Rightarrow> u64 \<Rightarrow> nat \<Rightarrow> nat \<Rightarrow> kmem" where
  "bd_split st block k order =
     (if order < k then
        bd_split (bd_push st (block + push_bit (k - 1) PAGE_SIZE) (k - 1)) block (k - 1) order
      else st)"

definition kalloc :: "kmem \<Rightarrow> u64 \<Rightarrow> (u64 \<times> kmem) option" where
  "kalloc st npages =
     (if npages = 0 then Some (0, st)
      else do {
        order \<leftarrow> order_for npages;
        if MAX_ORDER \<le> order then Some (0, st)
        else do {
          st1 \<leftarrow> bd_acquire st;
          let k = bd_find st1 order;
          if k = MAX_ORDER then do { st2 \<leftarrow> bd_release st1; Some (0, st2) }
          else do {
            let block = bd_lists st1 ! k;
            let st2 = st1\<lparr>bd_lists := (bd_lists st1)[k := ld64 (kbytes st1) block]\<rparr>;
            st3 \<leftarrow> bd_release (bd_split st2 block k order);
            Some (block, st3\<lparr>kbytes :=
              memset (kbytes st3) block MEM_ALLOC_PATTERN (npages * PAGE_SIZE)\<rparr>)
          }
        }
      })"

text \<open>\<^verbatim>\<open>__builtin_ctzll\<close> of a non-zero word.\<close>

fun ctz_from :: "u64 \<Rightarrow> nat \<Rightarrow> nat \<Rightarrow> nat" where
  "ctz_from w i 0 = i"
| "ctz_from w i (Suc k) = (if bit w i then i else ctz_from w (Suc i) k)"

definition ctzll :: "u64 \<Rightarrow> nat" where
  "ctzll w = ctz_from w 0 64"

fun fit_order :: "u64 \<Rightarrow> u64 \<Rightarrow> nat \<Rightarrow> nat" where
  "fit_order p phys_end 0 = 0"
| "fit_order p phys_end (Suc o') =
     (if phys_end < p + push_bit (Suc o') PAGE_SIZE then fit_order p phys_end o' else Suc o')"

definition range_order :: "u64 \<Rightarrow> u64 \<Rightarrow> nat" where
  "range_order p phys_end =
     (let page_idx = p div PAGE_SIZE;
          o0 = (if page_idx = 0 then MAX_ORDER - 1 else ctzll page_idx);
          o1 = (if MAX_ORDER \<le> o0 then MAX_ORDER - 1 else o0)
      in fit_order p phys_end o1)"

partial_function (option) range_loop :: "kmem \<Rightarrow> u64 \<Rightarrow> u64 \<Rightarrow> kmem option" where
  "range_loop st p phys_end =
     (if p + PAGE_SIZE \<le> phys_end then do {
        let max_order = range_order p phys_end;
        (addr, order, st1) \<leftarrow> bd_merge st (p + khhdm st) max_order;
        range_loop (bd_push st1 addr order) (p + push_bit max_order PAGE_SIZE) phys_end
      } else Some st)"

definition freerange :: "kmem \<Rightarrow> u64 \<Rightarrow> u64 \<Rightarrow> kmem option" where
  "freerange st phys_start phys_end =
     range_loop st ((phys_start + PAGE_SIZE - 1) AND NOT (PAGE_SIZE - 1)) phys_end"

definition buddy_enable_lock :: "kmem \<Rightarrow> kmem" where
  "buddy_enable_lock st = st\<lparr>bd_use_lock := 1\<rparr>"


declare bd_merge.simps [simp del] bd_find.simps [simp del] bd_split.simps [simp del]

section \<open>The chained lists of the byte memory\<close>

definition pg_aligned :: "u64 \<Rightarrow> bool" where
  "pg_aligned a \<longleftrightarrow> 4096 dvd unat a"

fun chain :: "mem \<Rightarrow> u64 \<Rightarrow> u64 list \<Rightarrow> bool" where
  "chain m p [] \<longleftrightarrow> p = 0"
| "chain m p (x # xs) \<longleftrightarrow> p = x \<and> x \<noteq> 0 \<and> chain m (ld64 m x) xs"

text \<open>The addresses on the free lists are page-aligned and occur once.\<close>

definition apart_lists :: "u64 list list \<Rightarrow> bool" where
  "apart_lists L \<longleftrightarrow> (\<forall>k < 12. distinct (L ! k) \<and> (\<forall>x \<in> set (L ! k). pg_aligned x \<and> x \<noteq> 0)) \<and>
     (\<forall>j < 12. \<forall>k < 12. j \<noteq> k \<longrightarrow> set (L ! j) \<inter> set (L ! k) = {})"

definition heap_rel :: "kmem \<Rightarrow> u64 list list \<Rightarrow> bool" where
  "heap_rel st L \<longleftrightarrow> length (bd_lists st) = 12 \<and> length L = 12 \<and> apart_lists L \<and>
     (\<forall>k < 12. chain (kbytes st) (bd_lists st ! k) (L ! k))"

lemma aligned_apart:
  assumes "pg_aligned a" "pg_aligned b" "a \<noteq> b"
  shows "8 \<le> a - b"
proof -
  have ne: "unat a \<noteq> unat b" using assms by (simp add: word_unat_eq_iff)
  obtain i j where ij: "unat a = 4096 * i" "unat b = 4096 * j"
    using assms by (auto simp: pg_aligned_def dvd_def)
  have l: "4096 * i < 2 ^ 64" "4096 * j < 2 ^ 64"
    using unat_lt [of a] unat_lt [of b] ij by simp_all
  have "8 \<le> unat (a - b)"
  proof (cases "j \<le> i")
    case True
    then have "unat (a - b) = unat a - unat b" using ij by (simp add: unat_sub_if')
    then show ?thesis using True ij ne by simp
  next
    case False
    then have "unat (a - b) = 2 ^ 64 + unat a - unat b" using ij by (simp add: unat_sub_if')
    then show ?thesis using ij l(2) by simp
  qed
  then show ?thesis by (simp add: word_le_nat_alt)
qed

lemma ld64_st64_aligned:
  "pg_aligned a \<Longrightarrow> pg_aligned b \<Longrightarrow> a \<noteq> b \<Longrightarrow> ld64 (st64 m a v) b = ld64 m b"
  by (rule ld64_st64_other) (simp_all add: aligned_apart)

lemma chain_cong:
  "(\<And>x. x \<in> set xs \<Longrightarrow> ld64 m x = ld64 m' x) \<Longrightarrow> chain m p xs = chain m' p xs"
  by (induction xs arbitrary: p) auto

lemma chain_st64:
  "pg_aligned a \<Longrightarrow> (\<And>x. x \<in> set xs \<Longrightarrow> pg_aligned x) \<Longrightarrow> a \<notin> set xs \<Longrightarrow>
     chain (st64 m a v) p xs = chain m p xs"
  by (rule chain_cong) (metis ld64_st64_aligned)

lemma heap_rel_cong:
  assumes "heap_rel st L" "bd_lists st' = bd_lists st"
    "\<And>k x. k < 12 \<Longrightarrow> x \<in> set (L ! k) \<Longrightarrow> ld64 (kbytes st') x = ld64 (kbytes st) x"
  shows "heap_rel st' L"
  using assms chain_cong [of "L ! k" "kbytes st'" "kbytes st" for k] by (auto simp: heap_rel_def)

text \<open>What the list operations leave alone: everything but link words and list heads.\<close>

definition same_rest :: "kmem \<Rightarrow> kmem \<Rightarrow> bool" where
  "same_rest st st' \<longleftrightarrow> khhdm st' = khhdm st \<and> bd_lock st' = bd_lock st \<and>
     bd_use_lock st' = bd_use_lock st \<and> kme st' = kme st \<and> kcpu st' = kcpu st \<and>
     length (bd_lists st') = length (bd_lists st)"

lemma same_rest_refl [simp, intro]: "same_rest st st"
  by (simp add: same_rest_def)

lemma same_rest_trans: "same_rest a b \<Longrightarrow> same_rest b c \<Longrightarrow> same_rest a c"
  by (simp add: same_rest_def)

lemma same_rest_wr_cell [simp]: "same_rest st (wr_cell st c v)"
  by (cases c) (simp_all add: same_rest_def)

lemma same_rest_push [simp]: "same_rest st (bd_push st r k)"
  by (simp add: bd_push_def same_rest_def Let_def)

lemma same_rest_lists [simp]:
  "same_rest st (st\<lparr>bd_lists := (bd_lists st)[k := v]\<rparr>)"
  by (simp add: same_rest_def)

text \<open>Bytes outside the link words of \<open>S\<close> keep their values.\<close>

definition links_only :: "u64 set \<Rightarrow> mem \<Rightarrow> mem \<Rightarrow> bool" where
  "links_only S m m' \<longleftrightarrow> (\<forall>a. (\<forall>x \<in> S. 8 \<le> a - x) \<longrightarrow> m' a = m a)"

lemma links_only_refl [simp]: "links_only S m m"
  by (simp add: links_only_def)

lemma links_only_mono: "links_only S m m' \<Longrightarrow> S \<subseteq> T \<Longrightarrow> links_only T m m'"
  by (auto simp: links_only_def)

lemma links_only_trans: "links_only S a b \<Longrightarrow> links_only S b c \<Longrightarrow> links_only S a c"
  by (simp add: links_only_def)

lemma links_only_st64: "a \<in> S \<Longrightarrow> links_only S m (st64 m a v)"
  by (auto simp: links_only_def st64_other)

lemma links_only_ld64:
  assumes "links_only S m m'" "pg_aligned a" "\<And>x. x \<in> S \<Longrightarrow> pg_aligned x" "a \<notin> S"
  shows "ld64 m' a = ld64 m a"
proof (rule ld64_cong)
  fix y assume y: "y - a < 8"
  have "8 \<le> y - x" if "x \<in> S" for x
  proof -
    have "x \<noteq> a" using assms(4) that by auto
    then have "8 \<le> x - a" "8 \<le> a - x"
      using aligned_apart assms(2) assms(3) [OF that] by metis+
    then show ?thesis using cells_apart [OF y] by blast
  qed
  then show "m' y = m y" using assms(1) by (auto simp: links_only_def)
qed

section \<open>The list operations refine operations on lists\<close>

lemma remove_walk_chain:
  assumes "chain (kbytes st) (rd_cell st pp) xs" "distinct xs"
    "\<And>x. x \<in> set xs \<Longrightarrow> pg_aligned x"
    "case pp of Next y \<Rightarrow> pg_aligned y \<and> y \<notin> set xs | Head k \<Rightarrow> k < length (bd_lists st)"
  shows "\<exists>st'. remove_walk st addr pp = Some (addr \<in> set xs, st') \<and>
    chain (kbytes st') (rd_cell st' pp) (remove1 addr xs) \<and> same_rest st st' \<and>
    (case pp of
       Head k \<Rightarrow> links_only (set xs) (kbytes st) (kbytes st') \<and>
         bd_lists st' = (bd_lists st)[k := bd_lists st' ! k]
     | Next y \<Rightarrow> links_only (insert y (set xs)) (kbytes st) (kbytes st') \<and>
         bd_lists st' = bd_lists st) \<and>
    (addr \<notin> set xs \<longrightarrow> st' = st)"
  using assms
proof (induction xs arbitrary: pp)
  case Nil
  then show ?case
    by (subst remove_walk.simps) (auto split: cell.splits)
next
  case (Cons x xs)
  have p: "rd_cell st pp = x" "x \<noteq> 0" "chain (kbytes st) (ld64 (kbytes st) x) xs"
    using Cons.prems(1) by auto
  have xa: "pg_aligned x" using Cons.prems(3) by simp
  show ?case
  proof (cases "x = addr")
    case True
    let ?st = "wr_cell st pp (ld64 (kbytes st) addr)"
    have r: "remove_walk st addr pp = Some (True, ?st)"
      using p True by (subst remove_walk.simps) simp
    have c: "chain (kbytes ?st) (rd_cell ?st pp) xs"
    proof (cases pp)
      case (Head k)
      then show ?thesis using p Cons.prems(4) True by simp
    next
      case (Next y)
      then have "chain (st64 (kbytes st) y v) q xs = chain (kbytes st) q xs" for v q
        using Cons.prems(3,4) by (intro chain_st64) auto
      then show ?thesis using p Next True by simp
    qed
    show ?thesis
      using r c True Cons.prems(4) by (cases pp) (auto intro: links_only_st64 simp: same_rest_def)
  next
    case False
    obtain st' where w: "remove_walk st addr (Next x) = Some (addr \<in> set xs, st')"
      and c: "chain (kbytes st') (ld64 (kbytes st') x) (remove1 addr xs)"
      and s: "same_rest st st'" and l: "links_only (insert x (set xs)) (kbytes st) (kbytes st')"
      and b: "bd_lists st' = bd_lists st" and n: "addr \<notin> set xs \<longrightarrow> st' = st"
      using Cons.IH [of "Next x"] Cons.prems p xa by auto
    have r: "remove_walk st addr pp = remove_walk st addr (Next x)"
      using p False by (subst remove_walk.simps) simp
    have rd: "rd_cell st' pp = x"
    proof (cases pp)
      case (Head k)
      then show ?thesis using b p by simp
    next
      case (Next y)
      then have "ld64 (kbytes st') y = ld64 (kbytes st) y"
        using Cons.prems(3,4) by (intro links_only_ld64 [OF l]) auto
      then show ?thesis using Next p by simp
    qed
    have "chain (kbytes st') (rd_cell st' pp) (remove1 addr (x # xs))"
      using c rd p False by auto
    then show ?thesis
      using w r s n b l False
      by (cases pp)
        (auto intro: links_only_mono)
  qed
qed

lemma heap_rel_chain:
  "heap_rel st L \<Longrightarrow> k < 12 \<Longrightarrow> chain (kbytes st) (bd_lists st ! k) (L ! k)"
  by (simp add: heap_rel_def)

lemma apart_listsD:
  "apart_lists L \<Longrightarrow> k < 12 \<Longrightarrow> distinct (L ! k)"
  "apart_lists L \<Longrightarrow> k < 12 \<Longrightarrow> x \<in> set (L ! k) \<Longrightarrow> pg_aligned x"
  "apart_lists L \<Longrightarrow> k < 12 \<Longrightarrow> x \<in> set (L ! k) \<Longrightarrow> x \<noteq> 0"
  "apart_lists L \<Longrightarrow> j < 12 \<Longrightarrow> k < 12 \<Longrightarrow> x \<in> set (L ! j) \<Longrightarrow> x \<in> set (L ! k) \<Longrightarrow> j = k"
  unfolding apart_lists_def by (blast, blast, blast, metis IntI empty_iff)

definition all_blocks :: "u64 list list \<Rightarrow> u64 set" where
  "all_blocks L = set (concat L)"

lemma all_blocksI: "x \<in> set (L ! k) \<Longrightarrow> k < length L \<Longrightarrow> x \<in> all_blocks L"
  by (auto simp: all_blocks_def)

lemma all_blocksE:
  assumes "x \<in> all_blocks L" obtains k where "k < length L" "x \<in> set (L ! k)"
  using assms by (auto simp: all_blocks_def) (metis in_set_conv_nth)

lemma apart_lists_shrink:
  assumes "apart_lists L" "length L = 12" "k < 12" "distinct ys" "set ys \<subseteq> set (L ! k)"
  shows "apart_lists (L[k := ys])"
proof -
  have sub: "set (L[k := ys] ! j) \<subseteq> set (L ! j)" for j
    using assms by (cases "j = k") simp_all
  have dist: "distinct (L[k := ys] ! j)" if "j < 12" for j
    using assms apart_listsD(1) [OF assms(1) that] by (cases "j = k") simp_all
  show ?thesis
    unfolding apart_lists_def
  proof (intro conjI allI impI ballI)
    fix j x assume "j < 12" "x \<in> set (L[k := ys] ! j)"
    then show "pg_aligned x" "x \<noteq> 0"
      using sub [of j] apart_listsD(2,3) [OF assms(1)] by blast+
  next
    fix i j :: nat assume "i < 12" "j < 12" "i \<noteq> j"
    then have "set (L ! i) \<inter> set (L ! j) = {}" using assms(1) by (simp add: apart_lists_def)
    then show "set (L[k := ys] ! i) \<inter> set (L[k := ys] ! j) = {}"
      using sub [of i] sub [of j] by blast
  qed (rule dist)
qed

lemma apart_lists_push:
  assumes "apart_lists L" "length L = 12" "k < 12" "pg_aligned x" "x \<noteq> 0" "x \<notin> all_blocks L"
  shows "apart_lists (L[k := x # L ! k])"
proof -
  have "x \<notin> set (L ! j)" if "j < 12" for j using assms that by (auto dest: all_blocksI)
  then show ?thesis using assms unfolding apart_lists_def by (auto simp: nth_list_update)
qed

lemma buddy_remove_rel:
  assumes "heap_rel st L" "k < 12"
  shows "\<exists>st'. buddy_remove st addr k = Some (addr \<in> set (L ! k), st') \<and>
    heap_rel st' (L[k := remove1 addr (L ! k)]) \<and> same_rest st st' \<and>
    links_only (all_blocks L) (kbytes st) (kbytes st')"
proof -
  have ap: "apart_lists L" and len: "length L = 12" "length (bd_lists st) = 12"
    using assms by (simp_all add: heap_rel_def)
  obtain st' where r: "remove_walk st addr (Head k) = Some (addr \<in> set (L ! k), st')"
    and c: "chain (kbytes st') (bd_lists st' ! k) (remove1 addr (L ! k))"
    and s: "same_rest st st'" and l: "links_only (set (L ! k)) (kbytes st) (kbytes st')"
    and b: "bd_lists st' = (bd_lists st)[k := bd_lists st' ! k]"
    using remove_walk_chain [of st "Head k" "L ! k" addr] heap_rel_chain [OF assms]
      apart_listsD(1,2) [OF ap assms(2)] assms(2) len by fastforce
  have other: "chain (kbytes st') (bd_lists st ! j) (L ! j)" if "j < 12" "j \<noteq> k" for j
  proof -
    have "ld64 (kbytes st') x = ld64 (kbytes st) x" if "x \<in> set (L ! j)" for x
      using that \<open>j < 12\<close> \<open>j \<noteq> k\<close> apart_listsD [OF ap] assms(2)
      by (intro links_only_ld64 [OF l]) auto
    then show ?thesis
      using heap_rel_chain [OF assms(1) that(1)] chain_cong [of "L ! j"] by metis
  qed
  have blen: "length (bd_lists st') = 12" using s len by (simp add: same_rest_def)
  have bj: "bd_lists st' ! j = bd_lists st ! j" if "j \<noteq> k" for j
    using b that by (metis nth_list_update_neq)
  have "heap_rel st' (L[k := remove1 addr (L ! k)])"
    unfolding heap_rel_def
  proof (intro conjI allI impI)
    show "length (bd_lists st') = 12" "length (L[k := remove1 addr (L ! k)]) = 12"
      using blen len by simp_all
    show "apart_lists (L[k := remove1 addr (L ! k)])"
      using ap len assms(2) apart_listsD(1) [OF ap assms(2)]
      by (intro apart_lists_shrink) (simp_all add: set_remove1_subset)
    show "chain (kbytes st') (bd_lists st' ! j) (L[k := remove1 addr (L ! k)] ! j)" if "j < 12" for j
      using other [OF that] bj [of j] c len that by (cases "j = k") simp_all
  qed
  moreover have "links_only (all_blocks L) (kbytes st) (kbytes st')"
    using l by (rule links_only_mono) (use assms(2) len in \<open>auto intro: all_blocksI\<close>)
  ultimately show ?thesis using r s by (auto simp: buddy_remove_def)
qed

lemma bd_push_rel:
  assumes "heap_rel st L" "k < 12" "pg_aligned x" "x \<noteq> 0" "x \<notin> all_blocks L"
  shows "heap_rel (bd_push st x k) (L[k := x # L ! k])"
proof -
  have ap: "apart_lists L" and len: "length L = 12" "length (bd_lists st) = 12"
    using assms by (simp_all add: heap_rel_def)
  have "chain (st64 (kbytes st) x v) p (L ! j) = chain (kbytes st) p (L ! j)" if "j < 12" for j v p
    using that len assms(3,5) apart_listsD(2) [OF ap that]
    by (intro chain_st64) (auto dest: all_blocksI)
  then show ?thesis
    using assms len heap_rel_chain [OF assms(1)] apart_lists_push [OF ap len(1) assms(2-5)]
    by (auto simp: heap_rel_def bd_push_def Let_def nth_list_update)
qed

lemma links_only_push: "links_only {x} (kbytes st) (kbytes (bd_push st x k))"
  by (simp add: bd_push_def Let_def links_only_st64)

lemma bd_pop_rel:
  assumes "heap_rel st L" "k < 12" "L ! k = x # xs"
  shows "bd_lists st ! k = x"
    and "heap_rel (st\<lparr>bd_lists := (bd_lists st)[k := ld64 (kbytes st) x]\<rparr>) (L[k := xs])"
proof -
  have ap: "apart_lists L" and len: "length L = 12" "length (bd_lists st) = 12"
    using assms by (simp_all add: heap_rel_def)
  have c: "bd_lists st ! k = x" "chain (kbytes st) (ld64 (kbytes st) x) xs"
    using heap_rel_chain [OF assms(1,2)] assms(3) by simp_all
  show "bd_lists st ! k = x" by fact
  have "apart_lists (L[k := xs])"
    using apart_listsD(1) [OF ap assms(2)] assms(2,3) ap len by (intro apart_lists_shrink) auto
  moreover have "chain (kbytes st) ((bd_lists st)[k := ld64 (kbytes st) x] ! j) (L[k := xs] ! j)"
    if "j < 12" for j
    using c(2) len heap_rel_chain [OF assms(1) that] that by (cases "j = k") simp_all
  ultimately show "heap_rel (st\<lparr>bd_lists := (bd_lists st)[k := ld64 (kbytes st) x]\<rparr>) (L[k := xs])"
    using len by (simp add: heap_rel_def)
qed

end
