(* ===== verification/Buddy_Spec.thy ===== *)
theory Buddy_Spec
  imports Buddy
begin

text \<open>
  The contract of the page allocator and the proof that the buddy system of theory
  \<^verbatim>\<open>Buddy\<close> meets it. A block is a base address with an order; \<open>free_pages\<close> is the multiset of
  page numbers on the free lists. Allocation takes a block's pages out of the multiset,
  release puts them back, and neither touches a byte of any other page.
\<close>

section \<open>Blocks and pages\<close>

definition blk_aligned :: "nat \<Rightarrow> u64 \<Rightarrow> bool" where
  "blk_aligned k x \<longleftrightarrow> 2 ^ (12 + k) dvd unat x"

definition page_of :: "u64 \<Rightarrow> nat" where
  "page_of a = unat a div 4096"

definition block_pages :: "nat \<Rightarrow> u64 \<Rightarrow> nat multiset" where
  "block_pages k x = mset [page_of x ..< page_of x + 2 ^ k]"

definition list_pages :: "nat \<Rightarrow> u64 list \<Rightarrow> nat multiset" where
  "list_pages k xs = sum_list (map (block_pages k) xs)"

fun pages_from :: "nat \<Rightarrow> u64 list list \<Rightarrow> nat multiset" where
  "pages_from k [] = {#}"
| "pages_from k (xs # L) = list_pages k xs + pages_from (Suc k) L"

definition free_pages :: "u64 list list \<Rightarrow> nat multiset" where
  "free_pages L = pages_from 0 L"

definition once :: "nat multiset \<Rightarrow> bool" where
  "once F \<longleftrightarrow> (\<forall>p. count F p \<le> 1)"

definition aligned_lists :: "u64 list list \<Rightarrow> bool" where
  "aligned_lists L \<longleftrightarrow> (\<forall>k < 12. \<forall>x \<in> set (L ! k). blk_aligned k x)"

definition buddy_rel :: "kmem \<Rightarrow> u64 list list \<Rightarrow> bool" where
  "buddy_rel st L \<longleftrightarrow> heap_rel st L \<and> aligned_lists L \<and> once (free_pages L)"

definition pg_frame :: "nat multiset \<Rightarrow> mem \<Rightarrow> mem \<Rightarrow> bool" where
  "pg_frame F m m' \<longleftrightarrow> (\<forall>a. page_of a \<notin># F \<longrightarrow> m' a = m a)"

lemma pg_frame_refl [simp]: "pg_frame F m m"
  by (simp add: pg_frame_def)

lemma pg_frame_trans: "pg_frame F a b \<Longrightarrow> pg_frame F b c \<Longrightarrow> pg_frame F a c"
  by (simp add: pg_frame_def)

lemma pg_frame_mono: "pg_frame F a b \<Longrightarrow> set_mset F \<subseteq> set_mset G \<Longrightarrow> pg_frame G a b"
  by (auto simp: pg_frame_def)

lemma list_pages_simps [simp]:
  "list_pages k [] = {#}" "list_pages k (x # xs) = block_pages k x + list_pages k xs"
  by (simp_all add: list_pages_def)

lemma list_pages_remove1:
  "x \<in> set xs \<Longrightarrow> list_pages k xs = block_pages k x + list_pages k (remove1 x xs)"
  by (induction xs) (auto simp: ac_simps)

lemma pages_from_update:
  "i < length L \<Longrightarrow>
     pages_from k (L[i := ys]) + list_pages (k + i) (L ! i) = pages_from k L + list_pages (k + i) ys"
proof (induction L arbitrary: i k)
  case (Cons xs L)
  show ?case
  proof (cases i)
    case (Suc j)
    then show ?thesis using Cons.IH [of j "Suc k"] Cons.prems by (simp add: ac_simps)
  qed (simp add: ac_simps)
qed simp

lemma free_pages_update:
  "i < length L \<Longrightarrow>
     free_pages (L[i := ys]) + list_pages i (L ! i) = free_pages L + list_pages i ys"
  using pages_from_update [of i L 0 ys] by (simp add: free_pages_def)

lemma free_pages_push:
  "i < length L \<Longrightarrow> free_pages (L[i := x # L ! i]) = free_pages L + block_pages i x"
  using free_pages_update [of i L "x # L ! i"] by (simp add: ac_simps)

lemma free_pages_remove1:
  "i < length L \<Longrightarrow> x \<in> set (L ! i) \<Longrightarrow>
     free_pages L = free_pages (L[i := remove1 x (L ! i)]) + block_pages i x"
  using free_pages_update [of i L "remove1 x (L ! i)"] list_pages_remove1 [of x "L ! i" i]
  by (simp add: ac_simps)

lemma free_pages_pop:
  "i < length L \<Longrightarrow> L ! i = x # xs \<Longrightarrow> free_pages L = free_pages (L[i := xs]) + block_pages i x"
  using free_pages_remove1 [of i L x] by simp

lemma page_in_block: "page_of x \<in># block_pages k x"
  by (simp add: block_pages_def)

lemma all_blocks_page:
  assumes "x \<in> all_blocks L" shows "page_of x \<in># free_pages L"
proof -
  obtain k where "k < length L" "x \<in> set (L ! k)" using assms by (rule all_blocksE)
  from free_pages_remove1 [OF this] show ?thesis using page_in_block [of x k] by simp
qed

lemma once_sub: "once (F + G) \<Longrightarrow> once F"
  by (auto simp: once_def le_sup_iff) (metis add_leD1)

lemma once_disjoint: "once (F + G) \<Longrightarrow> p \<in># F \<Longrightarrow> p \<notin># G"
proof
  assume "once (F + G)" "p \<in># F" "p \<in># G"
  moreover from this(2,3) have "0 < count F p" "0 < count G p" by simp_all
  ultimately show False unfolding once_def by (metis One_nat_def add_is_1 count_union le_antisym
      less_numeral_extra(3) add_gr_0 Suc_leI)
qed

lemma once_block_pages [simp]: "once (block_pages k x)"
  by (simp add: once_def block_pages_def count_mset_set')

section \<open>Arithmetic of naturally aligned blocks\<close>

lemma blk_alignedE:
  assumes "blk_aligned k x" obtains q where "unat x = 2 ^ (12 + k) * q"
  using assms by (auto simp: blk_aligned_def dvd_def)

lemma blk_alignedI: "unat x = 2 ^ (12 + k) * q \<Longrightarrow> blk_aligned k x"
  by (simp add: blk_aligned_def)

lemma blk_aligned_mono:
  assumes "blk_aligned j x" "k \<le> j" shows "blk_aligned k x"
  using assms unfolding blk_aligned_def by (meson dvd_trans le_imp_power_dvd add_left_mono)

lemma blk_aligned_pg: "blk_aligned k x \<Longrightarrow> pg_aligned x"
  using blk_aligned_mono [of k x 0] by (simp add: blk_aligned_def pg_aligned_def)

lemma page_of_mult: "unat x = 2 ^ (12 + k) * q \<Longrightarrow> page_of x = 2 ^ k * q"
  by (simp add: page_of_def power_add)

lemma block_pages_mult:
  "unat x = 2 ^ (12 + k) * q \<Longrightarrow> block_pages k x = mset [2 ^ k * q ..< 2 ^ k * (q + 1)]"
  by (simp add: block_pages_def page_of_mult algebra_simps)

lemma pow_13: "(2 :: nat) ^ (13 + k) = 2 * 2 ^ (12 + k)"
  by (simp add: power_add)

lemma unat_page_shift:
  "k < 52 \<Longrightarrow> unat (push_bit k 4096 :: u64) = 2 ^ (12 + k)"
proof -
  assume k: "k < 52"
  then have "(2 :: nat) ^ (12 + k) < 2 ^ 64" by (intro power_strict_increasing) simp_all
  moreover have "(push_bit k 4096 :: u64) = word_of_nat (2 ^ (12 + k))"
    by (simp add: push_bit_eq_mult power_add)
  ultimately show ?thesis using unat_of_nat_id [of "2 ^ (12 + k)", where 'a = 64] by simp
qed

text \<open>The buddy of a block, in units of its size.\<close>

lemma unat_buddy:
  fixes x :: u64
  assumes "unat x = 2 ^ (12 + k) * q" "k < 52"
  shows "unat (x XOR push_bit k 4096) = 2 ^ (12 + k) * (if even q then q + 1 else q - 1)"
proof -
  have "unat x = push_bit (12 + k) q" "unat (push_bit k 4096 :: u64) = push_bit (12 + k) 1"
    using assms unat_page_shift [of k] by (simp_all add: push_bit_eq_mult mult.commute)
  then have "unat (x XOR push_bit k 4096) = push_bit (12 + k) (q XOR 1)"
    by (simp only: unsigned_xor_eq push_bit_xor)
  moreover have "q XOR 1 = (if even q then q + 1 else q - 1)" by (simp add: xor_Suc_0_eq)
  ultimately show ?thesis by (simp add: push_bit_eq_mult mult.commute)
qed

lemma block_pages_split:
  assumes "unat x = 2 ^ (12 + k) * (2 * p)" "unat y = 2 ^ (12 + k) * (2 * p + 1)"
  shows "block_pages (Suc k) x = block_pages k x + block_pages k y"
proof -
  have e: "unat x = 2 ^ (12 + Suc k) * p" using assms(1) by (simp add: pow_13)
  have "[2 ^ Suc k * p ..< 2 ^ Suc k * (p + 1)] =
      [2 ^ k * (2 * p) ..< 2 ^ k * (2 * p) + 2 ^ k] @
      [2 ^ k * (2 * p) + 2 ^ k ..< 2 ^ k * (2 * p) + 2 ^ k + 2 ^ k]"
    by (subst upt_add_eq_append [symmetric]) (simp_all add: algebra_simps)
  then show ?thesis
    unfolding block_pages_mult [OF e] block_pages_mult [OF assms(1)] block_pages_mult [OF assms(2)]
    by (simp only: mset_append) (simp add: algebra_simps)
qed

lemma buddy_merge_pages:
  assumes "blk_aligned k x" "k < 52" and y: "y = x XOR push_bit k 4096"
  shows "blk_aligned k y" "y \<noteq> x" "blk_aligned (Suc k) (if y < x then y else x)"
    and "block_pages (Suc k) (if y < x then y else x) = block_pages k x + block_pages k y"
proof -
  obtain q where q: "unat x = 2 ^ (12 + k) * q" by (rule blk_alignedE [OF assms(1)])
  have yq: "unat y = 2 ^ (12 + k) * (if even q then q + 1 else q - 1)"
    unfolding y by (rule unat_buddy [OF q assms(2)])
  show "blk_aligned k y" using yq by (simp add: blk_aligned_def)
  show "y \<noteq> x" using q yq by (cases "even q") (auto elim: oddE)
  show "blk_aligned (Suc k) (if y < x then y else x)"
    and "block_pages (Suc k) (if y < x then y else x) = block_pages k x + block_pages k y"
  proof (atomize (full), cases "even q")
    case True
    then obtain p where p: "q = 2 * p" by (rule evenE)
    have "\<not> y < x" using q yq p by (simp add: word_less_nat_alt)
    moreover have "blk_aligned (Suc k) x"
      by (rule blk_alignedI [of _ _ p]) (use q p in \<open>simp add: pow_13\<close>)
    ultimately show "blk_aligned (Suc k) (if y < x then y else x) \<and>
        block_pages (Suc k) (if y < x then y else x) = block_pages k x + block_pages k y"
      using block_pages_split [of x k p y] q yq p by simp
  next
    case False
    then obtain p where p: "q = 2 * p + 1" by (rule oddE)
    have "y < x" using q yq p by (simp add: word_less_nat_alt)
    moreover have "blk_aligned (Suc k) y"
      by (rule blk_alignedI [of _ _ p]) (use yq p in \<open>simp add: pow_13\<close>)
    ultimately show "blk_aligned (Suc k) (if y < x then y else x) \<and>
        block_pages (Suc k) (if y < x then y else x) = block_pages k x + block_pages k y"
      using block_pages_split [of y k p x] q yq p by (simp add: ac_simps)
  qed
qed

text \<open>The upper half of a block of order \<open>k + 1\<close>.\<close>

lemma buddy_split_pages:
  assumes "blk_aligned (Suc k) x" "k < 52"
  shows "blk_aligned k (x + push_bit k 4096)" "x + push_bit k 4096 \<noteq> 0"
    and "block_pages (Suc k) x = block_pages k x + block_pages k (x + push_bit k 4096)"
proof -
  obtain p where p: "unat x = 2 ^ (12 + Suc k) * p" by (rule blk_alignedE [OF assms(1)])
  have sz: "unat (push_bit k 4096 :: u64) = 2 ^ (12 + k)" by (rule unat_page_shift [OF assms(2)])
  define d :: nat where "d = 2 ^ (12 + k)"
  have p': "unat x = 2 * d * p" using p by (simp add: d_def pow_13)
  have "(2 :: nat) ^ (12 + Suc k) dvd 2 ^ 64" using assms(2) by (intro le_imp_power_dvd) simp
  then have "2 * d dvd 2 ^ 64" by (simp add: d_def pow_13)
  then obtain r where r: "(2 :: nat) ^ 64 = 2 * d * r" by (rule dvdE)
  have "unat x < 2 ^ 64" using unat_lt [of x] by simp
  then have "2 * d * p < 2 * d * r" unfolding p' r .
  then have "p + 1 \<le> r" by simp
  then have "2 * d * (p + 1) \<le> 2 * d * r" by (rule mult_le_mono2)
  moreover have "0 < d" by (simp add: d_def)
  ultimately have "2 * d * p + d < 2 ^ 64" unfolding r by (simp only: distrib_left)
  then have "unat x + unat (push_bit k 4096 :: u64) < 2 ^ LENGTH(64)"
    unfolding sz p' d_def by simp
  from unat_add_lt [OF this]
  have u: "unat (x + push_bit k 4096) = 2 ^ (12 + k) * (2 * p + 1)"
    unfolding sz p' d_def by simp
  then show "blk_aligned k (x + push_bit k 4096)" by (simp add: blk_aligned_def)
  show "x + push_bit k 4096 \<noteq> 0" using u by (metis unat_0 mult_is_0 power_not_zero
      zero_neq_numeral add_is_0 zero_neq_one)
  show "block_pages (Suc k) x = block_pages k x + block_pages k (x + push_bit k 4096)"
    by (rule block_pages_split [OF _ u]) (simp add: p pow_13)
qed

text \<open>The bytes of a block are exactly the bytes of its pages; the size does not wrap.\<close>

lemma block_bytes:
  assumes "blk_aligned k x" "k < 52"
  shows "a - x < push_bit k 4096 \<longleftrightarrow> page_of a \<in># block_pages k x"
proof -
  obtain q where q: "unat x = 2 ^ (12 + k) * q" by (rule blk_alignedE [OF assms(1)])
  define d :: nat where "d = 2 ^ k"
  have d: "0 < d" by (simp add: d_def)
  have x: "unat x = 4096 * d * q" using q by (simp add: d_def power_add)
  have "(2 :: nat) ^ (12 + k) dvd 2 ^ 64" using assms(2) by (intro le_imp_power_dvd) simp
  then have "4096 * d dvd 2 ^ 64" by (simp add: d_def power_add)
  then obtain r where r: "(2 :: nat) ^ 64 = 4096 * d * r" by (rule dvdE)
  have "unat x < 2 ^ 64" using unat_lt [of x] by simp
  then have "4096 * d * q < 4096 * d * r" unfolding x r .
  then have "q + 1 \<le> r" by simp
  then have "4096 * d * (q + 1) \<le> 4096 * d * r" by (rule mult_le_mono2)
  then have top: "unat x + 4096 * d \<le> 2 ^ 64" unfolding r x by (simp only: distrib_left)
  have "a - x < push_bit k 4096 \<longleftrightarrow> unat (a - x) < 4096 * d"
    using unat_page_shift [OF assms(2)] by (simp add: word_less_nat_alt d_def power_add)
  also have "\<dots> \<longleftrightarrow> unat x \<le> unat a \<and> unat a < unat x + 4096 * d"
    using top unat_lt [of a] by (auto simp: unat_sub_if')
  also have "\<dots> \<longleftrightarrow> d * q \<le> unat a div 4096 \<and> unat a div 4096 < d * q + d"
    unfolding x by (auto simp: less_eq_div_iff_mult_less_eq div_less_iff_less_mult algebra_simps)
  also have "\<dots> \<longleftrightarrow> page_of a \<in># block_pages k x"
    using page_of_mult [OF q] by (simp add: block_pages_def d_def page_of_def)
  finally show ?thesis .
qed

lemma page_of_link: "pg_aligned x \<Longrightarrow> a - x < 8 \<Longrightarrow> page_of a = page_of x"
proof -
  assume x: "pg_aligned x" and a: "a - x < 8"
  have "a - x < push_bit 0 4096" using a by (simp add: word_less_nat_alt)
  moreover have "blk_aligned 0 x" using x by (simp add: blk_aligned_def pg_aligned_def)
  ultimately have "page_of a \<in># block_pages 0 x" using block_bytes [of 0 x a] by simp
  then show ?thesis by (simp add: block_pages_def)
qed

lemma links_only_frame:
  assumes "links_only (all_blocks L) m m'" "heap_rel st L"
  shows "pg_frame (free_pages L) m m'"
  unfolding pg_frame_def
proof (intro allI impI)
  fix a assume a: "page_of a \<notin># free_pages L"
  have "8 \<le> a - x" if x: "x \<in> all_blocks L" for x
  proof (rule ccontr)
    assume "\<not> 8 \<le> a - x"
    moreover have "pg_aligned x"
      using x assms(2) by (auto simp: heap_rel_def elim!: all_blocksE dest: apart_listsD)
    ultimately have "page_of a = page_of x" by (intro page_of_link) simp_all
    with a all_blocks_page [OF x] show False by simp
  qed
  then show "m' a = m a" using assms(1) by (simp add: links_only_def)
qed

text \<open>Writing only to pages that are not free keeps the lists.\<close>

lemma heap_rel_frame:
  assumes "heap_rel st L" "bd_lists st' = bd_lists st"
    "pg_frame G (kbytes st) (kbytes st')" "\<And>p. p \<in># free_pages L \<Longrightarrow> p \<notin># G"
  shows "heap_rel st' L"
proof (rule heap_rel_cong [OF assms(1,2)])
  fix k x assume x: "k < 12" "x \<in> set (L ! k)"
  have "pg_aligned x" "k < length L"
    using assms(1) x by (auto simp: heap_rel_def dest: apart_listsD)
  then have "page_of a \<in># free_pages L" if "a - x < 8" for a
    using page_of_link [OF _ that] all_blocks_page [OF all_blocksI [OF x(2)]] by simp
  then show "ld64 (kbytes st') x = ld64 (kbytes st) x"
    using assms(3,4) by (intro ld64_cong) (auto simp: pg_frame_def)
qed

section \<open>Merging, splitting and searching\<close>

lemma aligned_lists_update:
  "aligned_lists L \<Longrightarrow> length L = 12 \<Longrightarrow> k < 12 \<Longrightarrow> (\<And>x. x \<in> set ys \<Longrightarrow> blk_aligned k x) \<Longrightarrow>
     aligned_lists (L[k := ys])"
  by (auto simp: aligned_lists_def nth_list_update)

lemma all_blocks_update:
  "set ys \<subseteq> insert x (set (L ! k)) \<Longrightarrow> k < length L \<Longrightarrow>
     all_blocks (L[k := ys]) \<subseteq> insert x (all_blocks L)"
  unfolding all_blocks_def by (auto dest!: set_update_subset_insert [THEN subsetD])

lemma fresh_block:
  "once (free_pages L + block_pages k x) \<Longrightarrow> x \<notin> all_blocks L"
  using once_disjoint [of "free_pages L" "block_pages k x" "page_of x"] all_blocks_page
    page_in_block by blast

lemma bd_merge_rel:
  assumes "heap_rel st L" "aligned_lists L" "once (free_pages L + block_pages k x)"
    "k < 12" "blk_aligned k x" "x \<noteq> 0"
  shows "\<exists>x' k' st' L'. bd_merge st x k = Some (x', k', st') \<and> heap_rel st' L' \<and>
    aligned_lists L' \<and> k \<le> k' \<and> k' < 12 \<and> blk_aligned k' x' \<and> x' \<noteq> 0 \<and> same_rest st st' \<and>
    free_pages L' + block_pages k' x' = free_pages L + block_pages k x \<and>
    pg_frame (free_pages L) (kbytes st) (kbytes st')"
  using assms
proof (induction "12 - k" arbitrary: st L k x rule: less_induct)
  case less
  show ?case
  proof (cases "k < 11")
    case False
    then have "bd_merge st x k = Some (x, k, st)" by (simp add: bd_merge.simps)
    then show ?thesis using less.prems by auto
  next
    case True
    define b where "b = x XOR push_bit k 4096"
    define m where "m = (if b < x then b else x)"
    have len: "length L = 12" using less.prems by (simp add: heap_rel_def)
    obtain st1 where rm: "buddy_remove st b k = Some (b \<in> set (L ! k), st1)"
      and h1: "heap_rel st1 (L[k := remove1 b (L ! k)])"
      and s1: "same_rest st st1" and l1: "links_only (all_blocks L) (kbytes st) (kbytes st1)"
      using buddy_remove_rel [OF less.prems(1,4), of b] by blast
    have f1: "pg_frame (free_pages L) (kbytes st) (kbytes st1)"
      by (rule links_only_frame [OF l1 less.prems(1)])
    show ?thesis
    proof (cases "b \<in> set (L ! k)")
      case False
      then have "bd_merge st x k = Some (x, k, st1)"
        using rm True by (simp add: bd_merge.simps [of st x k] b_def [symmetric])
      moreover have "L[k := remove1 b (L ! k)] = L" using False by (simp add: remove1_idem)
      ultimately show ?thesis using less.prems h1 s1 f1 by auto
    next
      case in_list: True
      let ?L = "L[k := remove1 b (L ! k)]"
      note ar = buddy_merge_pages [OF less.prems(5) _ b_def]
      have fp: "free_pages L = free_pages ?L + block_pages k b"
        using in_list less.prems(4) len by (intro free_pages_remove1) simp_all
      have sum: "free_pages ?L + block_pages (Suc k) m = free_pages L + block_pages k x"
        using fp ar(4) True by (simp add: m_def ac_simps)
      have "b \<noteq> 0"
        using in_list less.prems(1,4) by (auto simp: heap_rel_def dest: apart_listsD)
      then have m0: "m \<noteq> 0" using less.prems(6) by (simp add: m_def)
      have al: "aligned_lists ?L"
        using less.prems(2,4) len notin_set_remove1
        by (intro aligned_lists_update) (auto simp: aligned_lists_def dest: notin_set_remove1)
      have mal: "blk_aligned (Suc k) m" using ar(3) True by (simp add: m_def)
      have lt: "12 - Suc k < 12 - k" and k12: "Suc k < 12" using True by simp_all
      have on: "once (free_pages ?L + block_pages (Suc k) m)" using sum less.prems(3) by simp
      have step: "bd_merge st x k = bd_merge st1 m (Suc k)"
        using rm True in_list by (simp add: bd_merge.simps [of st x k] b_def [symmetric] m_def)
      obtain x' k' st' L' where r: "bd_merge st1 m (Suc k) = Some (x', k', st')"
        "heap_rel st' L'" "aligned_lists L'" "Suc k \<le> k'" "k' < 12" "blk_aligned k' x'" "x' \<noteq> 0"
        "same_rest st1 st'" "free_pages L' + block_pages k' x' = free_pages ?L + block_pages (Suc k) m"
        "pg_frame (free_pages ?L) (kbytes st1) (kbytes st')"
        using less.hyps [OF lt h1 al on k12 mal m0] by blast
      have "set_mset (free_pages ?L) \<subseteq> set_mset (free_pages L)" unfolding fp by simp
      then have fr: "pg_frame (free_pages L) (kbytes st) (kbytes st')"
        by (rule pg_frame_trans [OF f1 pg_frame_mono [OF r(10)]])
      have "k \<le> k'" using r(4) by simp
      with r same_rest_trans [OF s1 r(8)] fr sum step show ?thesis
        by (intro exI [of _ x'] exI [of _ k'] exI [of _ st'] exI [of _ L']) simp
    qed
  qed
qed

text \<open>Pushing a block whose pages are not on the lists.\<close>

lemma bd_push_buddy:
  assumes "heap_rel st L" "aligned_lists L" "once (free_pages L + block_pages k x)"
    "k < 12" "blk_aligned k x" "x \<noteq> 0"
  shows "buddy_rel (bd_push st x k) (L[k := x # L ! k])"
    and "free_pages (L[k := x # L ! k]) = free_pages L + block_pages k x"
    and "pg_frame (block_pages k x) (kbytes st) (kbytes (bd_push st x k))"
proof -
  have len: "length L = 12" using assms(1) by (simp add: heap_rel_def)
  show fp: "free_pages (L[k := x # L ! k]) = free_pages L + block_pages k x"
    using assms(4) len by (intro free_pages_push) simp
  have pa: "pg_aligned x" by (rule blk_aligned_pg [OF assms(5)])
  have "heap_rel (bd_push st x k) (L[k := x # L ! k])"
    by (rule bd_push_rel [OF assms(1,4) pa assms(6) fresh_block [OF assms(3)]])
  moreover have "aligned_lists (L[k := x # L ! k])"
    using assms(2,4,5) len by (intro aligned_lists_update) (auto simp: aligned_lists_def)
  ultimately show "buddy_rel (bd_push st x k) (L[k := x # L ! k])"
    using assms(3) fp by (simp add: buddy_rel_def)
  show "pg_frame (block_pages k x) (kbytes st) (kbytes (bd_push st x k))"
    unfolding pg_frame_def
  proof (intro allI impI)
    fix a assume a: "page_of a \<notin># block_pages k x"
    have "8 \<le> a - x"
    proof (rule ccontr)
      assume "\<not> 8 \<le> a - x"
      then have "page_of a = page_of x" using pa by (intro page_of_link) simp_all
      with a page_in_block show False by metis
    qed
    then show "kbytes (bd_push st x k) a = kbytes st a"
      by (simp add: bd_push_def Let_def st64_other)
  qed
qed

lemma merge_push_rel:
  assumes "heap_rel st L" "aligned_lists L" "once (free_pages L + block_pages k x)"
    "k < 12" "blk_aligned k x" "x \<noteq> 0"
  shows "\<exists>x' k' st' L'. bd_merge st x k = Some (x', k', st') \<and>
    buddy_rel (bd_push st' x' k') L' \<and> same_rest st (bd_push st' x' k') \<and>
    free_pages L' = free_pages L + block_pages k x \<and>
    pg_frame (free_pages L + block_pages k x) (kbytes st) (kbytes (bd_push st' x' k'))"
proof -
  obtain x' k' st' L' where m: "bd_merge st x k = Some (x', k', st')" "heap_rel st' L'"
    "aligned_lists L'" "k \<le> k'" "k' < 12" "blk_aligned k' x'" "x' \<noteq> 0" "same_rest st st'"
    "free_pages L' + block_pages k' x' = free_pages L + block_pages k x"
    "pg_frame (free_pages L) (kbytes st) (kbytes st')"
    using bd_merge_rel [OF assms] by blast
  have o: "once (free_pages L' + block_pages k' x')" using m(9) assms(3) by simp
  note p = bd_push_buddy [OF m(2,3) o m(5-7)]
  have "set_mset (block_pages k' x') \<subseteq> set_mset (free_pages L + block_pages k x)"
    using m(9) by (metis set_mset_union Un_upper2)
  then have "pg_frame (free_pages L + block_pages k x) (kbytes st) (kbytes (bd_push st' x' k'))"
    using m(10) p(3) by (auto simp: pg_frame_def)
  then show ?thesis
    using m(1,8,9) p(1,2) same_rest_trans [OF m(8) same_rest_push] by metis
qed

lemma bd_split_rel:
  assumes "heap_rel st L" "aligned_lists L" "once (free_pages L + block_pages k x)"
    "order \<le> k" "k < 12" "blk_aligned k x"
  shows "\<exists>L'. buddy_rel (bd_split st x k order) L' \<and> same_rest st (bd_split st x k order) \<and>
    free_pages L' + block_pages order x = free_pages L + block_pages k x \<and>
    pg_frame (free_pages L + block_pages k x) (kbytes st) (kbytes (bd_split st x k order))"
  using assms
proof (induction k arbitrary: st L)
  case 0
  then have "bd_split st x 0 order = st" by (simp add: bd_split.simps)
  moreover have "buddy_rel st L" using 0 once_sub by (auto simp: buddy_rel_def)
  moreover have "order = 0" using 0 by simp
  ultimately show ?case by (intro exI [of _ L]) simp
next
  case (Suc k)
  show ?case
  proof (cases "order = Suc k")
    case True
    then have "bd_split st x (Suc k) order = st" by (simp add: bd_split.simps)
    moreover have "buddy_rel st L" using Suc.prems once_sub by (auto simp: buddy_rel_def)
    ultimately show ?thesis using True by (intro exI [of _ L]) simp
  next
    case False
    let ?u = "x + push_bit k 4096"
    let ?L = "L[k := ?u # L ! k]"
    have le: "order \<le> k" and k12: "k < 12" using False Suc.prems(4,5) by simp_all
    have k52: "k < 52" using k12 by simp
    have al: "blk_aligned k ?u" and u0: "?u \<noteq> 0"
      and bp: "block_pages (Suc k) x = block_pages k x + block_pages k ?u"
      using buddy_split_pages [OF Suc.prems(6) k52] by blast+
    have o: "once (free_pages L + block_pages k ?u + block_pages k x)"
      using Suc.prems(3) bp by (simp add: ac_simps)
    note pu = bd_push_buddy [OF Suc.prems(1,2) once_sub [OF o] k12 al u0]
    have h: "heap_rel (bd_push st ?u k) ?L" "aligned_lists ?L"
      using pu(1) by (simp_all add: buddy_rel_def)
    have o': "once (free_pages ?L + block_pages k x)" using o pu(2) by simp
    have ax: "blk_aligned k x" by (rule blk_aligned_mono [OF Suc.prems(6)]) simp
    obtain L' where r: "buddy_rel (bd_split (bd_push st ?u k) x k order) L'"
      "same_rest (bd_push st ?u k) (bd_split (bd_push st ?u k) x k order)"
      "free_pages L' + block_pages order x = free_pages ?L + block_pages k x"
      "pg_frame (free_pages ?L + block_pages k x) (kbytes (bd_push st ?u k))
         (kbytes (bd_split (bd_push st ?u k) x k order))"
      using Suc.IH [OF h o' le k12 ax] by blast
    have step: "bd_split st x (Suc k) order = bd_split (bd_push st ?u k) x k order"
      using le by (simp add: bd_split.simps [of st x "Suc k"])
    have sum: "free_pages ?L + block_pages k x = free_pages L + block_pages (Suc k) x"
      using pu(2) bp by (simp add: ac_simps)
    have "pg_frame (free_pages L + block_pages (Suc k) x) (kbytes st) (kbytes (bd_push st ?u k))"
      using pu(3) by (rule pg_frame_mono) (auto simp: bp)
    then have "pg_frame (free_pages L + block_pages (Suc k) x) (kbytes st)
        (kbytes (bd_split (bd_push st ?u k) x k order))"
      using r(4) unfolding sum by (rule pg_frame_trans)
    then show ?thesis
      unfolding step using r(1,3) sum same_rest_trans [OF same_rest_push r(2)]
      by (intro exI [of _ L']) simp
  qed
qed

lemma chain_0 [simp]: "chain m 0 xs \<longleftrightarrow> xs = []"
  by (cases xs) auto

lemma heap_rel_empty: "heap_rel st L \<Longrightarrow> k < 12 \<Longrightarrow> bd_lists st ! k = 0 \<longleftrightarrow> L ! k = []"
  using heap_rel_chain [of st L k] by (cases "L ! k") auto

lemma bd_find_spec:
  "heap_rel st L \<Longrightarrow> k \<le> 12 \<Longrightarrow>
     k \<le> bd_find st k \<and> bd_find st k \<le> 12 \<and> (\<forall>i. k \<le> i \<and> i < bd_find st k \<longrightarrow> L ! i = []) \<and>
     (bd_find st k < 12 \<longrightarrow> L ! bd_find st k \<noteq> [])"
proof (induction "12 - k" arbitrary: k rule: less_induct)
  case less
  show ?case
  proof (cases "k < 12 \<and> L ! k = []")
    case True
    then have e: "bd_find st k = bd_find st (k + 1)"
      using heap_rel_empty [OF less.prems(1)] by (subst bd_find.simps) simp
    have "12 - (k + 1) < 12 - k" "k + 1 \<le> 12" using True by auto
    note ih = less.hyps [OF this(1) less.prems(1) this(2)]
    have "L ! i = []" if "k \<le> i" "i < bd_find st k" for i
      using that ih True by (cases "i = k") (simp_all add: e)
    then show ?thesis using ih by (simp add: e)
  next
    case False
    then have "bd_find st k = k"
      using heap_rel_empty [OF less.prems(1)] by (subst bd_find.simps) auto
    then show ?thesis using False less.prems by auto
  qed
qed

section \<open>The order of a request\<close>

definition fits_order :: "u64 \<Rightarrow> nat \<Rightarrow> bool" where
  "fits_order n k \<longleftrightarrow> unat n \<le> 2 ^ k \<and> (k = 0 \<or> 2 ^ (k - 1) < unat n)"

lemma order_loop_some:
  assumes "unat n \<le> 2 ^ 63" "k \<le> 63" "k = 0 \<or> 2 ^ (k - 1) < unat n"
  shows "\<exists>j. order_loop n (push_bit k 1) k = Some j \<and> fits_order n j"
  using assms
proof (induction "63 - k" arbitrary: k rule: less_induct)
  case less
  have "(2 :: nat) ^ k < 2 ^ 64" using less.prems(2) by (intro power_strict_increasing) simp_all
  then have sz: "unat (push_bit k 1 :: u64) = 2 ^ k"
    using unat_of_nat_id [of "2 ^ k", where 'a = 64] by (simp add: push_bit_eq_mult)
  show ?case
  proof (cases "(push_bit k 1 :: u64) < n")
    case False
    then have "fits_order n k" using less.prems sz by (simp add: fits_order_def word_less_nat_alt)
    then show ?thesis using False by (subst order_loop.simps) simp
  next
    case True
    then have lt: "2 ^ k < unat n" using sz by (simp add: word_less_nat_alt)
    then have "(2 :: nat) ^ k < 2 ^ 63" using less.prems(1) by linarith
    then have k: "k < 63" by (rule power_less_imp_less_exp [rotated]) simp
    have "63 - (k + 1) < 63 - k" "k + 1 \<le> 63" "k + 1 = 0 \<or> 2 ^ (k + 1 - 1) < unat n"
      using k lt by simp_all
    from less.hyps [OF this(1) less.prems(1) this(2,3)] show ?thesis
      using True by (subst order_loop.simps) (simp add: mult.commute)
  qed
qed

lemma order_for_some: "unat n \<le> 2 ^ 63 \<Longrightarrow> \<exists>k. order_for n = Some k \<and> fits_order n k"
  using order_loop_some [of n 0] by (simp add: order_for_def)

lemma fits_order_unique: "fits_order n j \<Longrightarrow> fits_order n k \<Longrightarrow> j = k"
proof (induction j k rule: linorder_wlog)
  case (le j k)
  show ?case
  proof (rule ccontr)
    assume "j \<noteq> k"
    then have "j \<le> k - 1" "k \<noteq> 0" using le by simp_all
    then have "(2 :: nat) ^ j \<le> 2 ^ (k - 1)" by (intro power_increasing) simp_all
    moreover have "unat n \<le> 2 ^ j" "2 ^ (k - 1) < unat n"
      using le \<open>k \<noteq> 0\<close> by (simp_all add: fits_order_def)
    ultimately show False by linarith
  qed
qed simp

lemma order_for_iff: "unat n \<le> 2 ^ 63 \<Longrightarrow> order_for n = Some k \<longleftrightarrow> fits_order n k"
  using order_for_some [of n] fits_order_unique by auto

text \<open>Beyond \<open>2\<^sup>63\<close> the loop doubles \<open>size\<close> to 0 and never ends.\<close>

lemma order_loop_bound:
  assumes "order_loop n sz k = Some j" "sz = 0 \<or> (\<exists>i < 64. sz = push_bit i 1)"
  shows "unat n \<le> 2 ^ 63"
  using assms
proof (induction rule: order_loop.raw_induct [rotated, consumes 1])
  case (1 loop n sz k j)
  have sz: "unat sz \<le> 2 ^ 63" 
  proof (cases "sz = 0")
    case False
    then obtain i where i: "i < 64" "sz = push_bit i 1" using 1(3) by blast
    then have "(2 :: nat) ^ i < 2 ^ 64" "(2 :: nat) ^ i \<le> 2 ^ 63"
      by (intro power_strict_increasing power_increasing; simp)+
    then show ?thesis
      using i unat_of_nat_id [of "2 ^ i", where 'a = 64] by (simp add: push_bit_eq_mult)
  qed simp
  show ?case
  proof (cases "sz < n")
    case True
    have "push_bit 1 sz = 0 \<or> (\<exists>i < 64. push_bit 1 sz = push_bit i 1)"
    proof (cases "sz = 0 \<or> sz = push_bit 63 1")
      case False
      then obtain i where "i < 64" "i \<noteq> 63" "sz = push_bit i 1" using 1(3) by blast
      then show ?thesis by (intro disjI2 exI [of _ "Suc i"]) (simp add: push_bit_eq_mult)
    qed (auto simp: push_bit_eq_mult)
    then show ?thesis using 1(1,2) True by simp
  next
    case False
    then show ?thesis using sz by (simp add: word_less_nat_alt)
  qed
qed

lemma order_for_none: "2 ^ 63 < unat n \<Longrightarrow> order_for n = None"
proof (cases "order_for n")
  case (Some k)
  have "\<exists>i < 64. (1 :: u64) = push_bit i 1" by (intro exI [of _ 0]) simp
  then show "2 ^ 63 < unat n \<Longrightarrow> order_for n = None"
    using order_loop_bound [of n 1 0 k] Some by (simp add: order_for_def)
qed simp

section \<open>The lock around the lists\<close>

text \<open>The buddy lock is free and the running CPU can take it: before
  \<^verbatim>\<open>buddy_enable_lock\<close>, or at a nesting depth the 8-bit counter has room for.\<close>

definition bd_unlocked :: "kmem \<Rightarrow> bool" where
  "bd_unlocked st \<longleftrightarrow> bd_use_lock st = 0 \<or>
     (locked (bd_lock st) = 0 \<and> lcpu (bd_lock st) = None \<and> unat (ncli (kcpu st)) + 2 < 256 \<and>
      (ncli (kcpu st) = 0 \<or> \<not> iflag (kcpu st)))"

definition same_cpu :: "kmem \<Rightarrow> kmem \<Rightarrow> bool" where
  "same_cpu st st' \<longleftrightarrow> khhdm st' = khhdm st \<and> bd_lock st' = bd_lock st \<and>
     bd_use_lock st' = bd_use_lock st \<and> kme st' = kme st \<and>
     ncli (kcpu st') = ncli (kcpu st) \<and> iflag (kcpu st') = iflag (kcpu st)"

lemma same_cpu_refl [simp]: "same_cpu st st"
  by (simp add: same_cpu_def)

lemma same_cpu_bytes [simp]: "same_cpu st (st\<lparr>kbytes := m\<rparr>)"
  by (simp add: same_cpu_def)

lemma same_cpu_trans: "same_cpu a b \<Longrightarrow> same_cpu b c \<Longrightarrow> same_cpu a c"
  by (simp add: same_cpu_def)

lemma same_rest_cpu: "same_rest a b \<Longrightarrow> same_cpu a b"
  by (simp add: same_cpu_def same_rest_def)

lemma same_cpu_unlocked: "same_cpu a b \<Longrightarrow> bd_unlocked a \<Longrightarrow> bd_unlocked b"
  by (auto simp: same_cpu_def bd_unlocked_def)

text \<open>What runs between the two lock calls sees the lists and the memory as they were, and
  \<open>bd_release\<close> puts the lock and the CPU back.\<close>

lemma bd_locked:
  assumes "bd_unlocked st"
  shows "\<exists>st1. bd_acquire st = Some st1 \<and> kbytes st1 = kbytes st \<and> bd_lists st1 = bd_lists st \<and>
    khhdm st1 = khhdm st \<and>
    (\<forall>st2. same_rest st1 st2 \<longrightarrow>
      (\<exists>st3. bd_release st2 = Some st3 \<and> kbytes st3 = kbytes st2 \<and> bd_lists st3 = bd_lists st2 \<and>
        same_cpu st st3))"
proof (cases "bd_use_lock st = 0")
  case True
  then show ?thesis
    by (auto simp: bd_acquire_def bd_release_def same_rest_cpu) (simp add: same_rest_def)+
next
  case False
  let ?l = "bd_lock st" and ?c = "kcpu st" and ?i = "kme st"
  have f: "locked ?l = 0" "lcpu ?l = None" "unat (ncli ?c) + 2 < 256" "ncli ?c = 0 \<or> \<not> iflag ?c"
    using assms False by (simp_all add: bd_unlocked_def)
  note ar = acquire_release_id [OF f, of ?i]
  let ?l1 = "?l\<lparr>locked := 1, lcpu := Some ?i\<rparr>"
  have "bd_acquire st = Some (st\<lparr>kcpu := pushcli ?c, bd_lock := ?l1\<rparr>)"
    using False ar(1) by (simp add: bd_acquire_def)
  moreover have "\<exists>st3. bd_release st2 = Some st3 \<and> kbytes st3 = kbytes st2 \<and>
      bd_lists st3 = bd_lists st2 \<and> same_cpu st st3"
    if "same_rest (st\<lparr>kcpu := pushcli ?c, bd_lock := ?l1\<rparr>) st2" for st2
    using that False ar(3) by (auto simp: same_rest_def bd_release_def same_cpu_def)
  ultimately show ?thesis by auto
qed

section \<open>Release and allocation\<close>

lemma heap_rel_same_lists:
  "heap_rel st L \<Longrightarrow> kbytes st' = kbytes st \<Longrightarrow> bd_lists st' = bd_lists st \<Longrightarrow> heap_rel st' L"
  by (simp add: heap_rel_def)

lemma buddy_rel_same_lists:
  "buddy_rel st L \<Longrightarrow> kbytes st' = kbytes st \<Longrightarrow> bd_lists st' = bd_lists st \<Longrightarrow> buddy_rel st' L"
  by (auto simp: buddy_rel_def intro: heap_rel_same_lists)

lemma memset_block_frame:
  assumes "blk_aligned k x" "k < 52" "n \<le> push_bit k 4096"
  shows "pg_frame (block_pages k x) m (memset m x c n)"
  unfolding pg_frame_def
proof (intro allI impI)
  fix a assume "page_of a \<notin># block_pages k x"
  then have "\<not> a - x < push_bit k 4096" using block_bytes [OF assms(1,2)] by simp
  then have "\<not> a - x < n" using assms(3) by (auto dest: less_le_trans)
  then show "memset m x c n a = m a" by (simp add: memset_apply)
qed

lemma request_size:
  "unat n \<le> 2 ^ k \<Longrightarrow> k < 12 \<Longrightarrow> n * 4096 \<le> (push_bit k 4096 :: u64)"
proof -
  assume n: "unat n \<le> 2 ^ k" and k: "k < 12"
  then have "(2 :: nat) ^ k < 2 ^ 12" by (intro power_strict_increasing) simp_all
  then have "unat (n * 4096) = unat n * 4096" using n by (simp add: unat_word_ariths)
  then show ?thesis using n k unat_page_shift [of k] by (simp add: word_le_nat_alt power_add)
qed

lemma kfree_rel:
  assumes "buddy_rel st L" "bd_unlocked st" "order_for n = Some k" "n \<noteq> 0" "k < 12"
    "blk_aligned k v" "v \<noteq> 0" "once (free_pages L + block_pages k v)"
  shows "\<exists>st' L'. kfree st v n = Some st' \<and> buddy_rel st' L' \<and> same_cpu st st' \<and>
    free_pages L' = free_pages L + block_pages k v \<and>
    pg_frame (free_pages L + block_pages k v) (kbytes st) (kbytes st')"
proof -
  let ?m = "memset (kbytes st) v MEM_FREE_PATTERN (push_bit k 1 * 4096)"
  let ?st1 = "st\<lparr>kbytes := ?m\<rparr>"
  have sz: "push_bit k 1 * 4096 = (push_bit k 4096 :: u64)" by (simp add: push_bit_eq_mult)
  have fm: "pg_frame (block_pages k v) (kbytes st) ?m"
    unfolding sz using assms(5,6) by (intro memset_block_frame) simp_all
  have h1: "heap_rel ?st1 L"
    by (rule heap_rel_frame [of st]) (use assms(1,8) fm once_disjoint in \<open>auto simp: buddy_rel_def\<close>)
  have al: "aligned_lists L" using assms(1) by (simp add: buddy_rel_def)
  have "bd_unlocked ?st1" using assms(2) by (rule same_cpu_unlocked [rotated]) simp
  then obtain st2 where ac: "bd_acquire ?st1 = Some st2" "kbytes st2 = ?m"
    "bd_lists st2 = bd_lists st" and
    rel: "\<And>st4. same_rest st2 st4 \<Longrightarrow> \<exists>st5. bd_release st4 = Some st5 \<and> kbytes st5 = kbytes st4 \<and>
        bd_lists st5 = bd_lists st4 \<and> same_cpu ?st1 st5"
    using bd_locked [of ?st1] by auto
  have h2: "heap_rel st2 L" using heap_rel_same_lists [OF h1] ac by simp
  obtain x' k' st3 L' where mp: "bd_merge st2 v k = Some (x', k', st3)"
    "buddy_rel (bd_push st3 x' k') L'" "same_rest st2 (bd_push st3 x' k')"
    "free_pages L' = free_pages L + block_pages k v"
    "pg_frame (free_pages L + block_pages k v) (kbytes st2) (kbytes (bd_push st3 x' k'))"
    using merge_push_rel [OF h2 al assms(8,5,6,7)] by blast
  obtain st5 where st5: "bd_release (bd_push st3 x' k') = Some st5"
    "kbytes st5 = kbytes (bd_push st3 x' k')" "bd_lists st5 = bd_lists (bd_push st3 x' k')"
    "same_cpu ?st1 st5"
    using rel [OF mp(3)] by blast
  have "4096 dvd unat v" using blk_aligned_pg [OF assms(6)] by (simp add: pg_aligned_def)
  then have "v mod 4096 = 0" by (simp add: unat_mod unat_eq_0 flip: unat_eq_zero)
  then have "kfree st v n = Some st5"
    using assms(3-5) ac(1) mp(1) st5(1) by (simp add: kfree_def Let_def)
  moreover have "buddy_rel st5 L'" by (rule buddy_rel_same_lists [OF mp(2) st5(2,3)])
  moreover have "same_cpu st st5" using st5(4) by (simp add: same_cpu_def)
  moreover have "pg_frame (free_pages L + block_pages k v) (kbytes st) (kbytes st5)"
    using pg_frame_mono [OF fm, of "free_pages L + block_pages k v"] mp(5) ac(2) st5(2)
    by (auto simp: pg_frame_def)
  ultimately show ?thesis using mp(4) by blast
qed

lemma kalloc_rel:
  assumes "buddy_rel st L" "bd_unlocked st" "order_for n = Some k" "n \<noteq> 0" "k < 12"
    "unat n \<le> 2 ^ k"
  shows "(\<forall>j. k \<le> j \<and> j < 12 \<longrightarrow> L ! j = []) \<and>
      (\<exists>st'. kalloc st n = Some (0, st') \<and> buddy_rel st' L \<and> same_cpu st st' \<and>
         kbytes st' = kbytes st) \<or>
    (\<exists>j. k \<le> j \<and> j < 12 \<and> L ! j \<noteq> []) \<and>
    (\<exists>st' b L'. kalloc st n = Some (b, st') \<and> b \<noteq> 0 \<and> blk_aligned k b \<and> buddy_rel st' L' \<and>
       same_cpu st st' \<and> free_pages L = free_pages L' + block_pages k b \<and>
       pg_frame (free_pages L) (kbytes st) (kbytes st') \<and>
       (\<forall>a. a - b < n * 4096 \<longrightarrow> kbytes st' a = 5))"
proof -
  obtain st1 where ac: "bd_acquire st = Some st1" "kbytes st1 = kbytes st"
    "bd_lists st1 = bd_lists st" and
    rel: "\<And>st2. same_rest st1 st2 \<Longrightarrow> \<exists>st3. bd_release st2 = Some st3 \<and> kbytes st3 = kbytes st2 \<and>
        bd_lists st3 = bd_lists st2 \<and> same_cpu st st3"
    using bd_locked [OF assms(2)] by auto
  have r1: "buddy_rel st1 L" by (rule buddy_rel_same_lists [OF assms(1) ac(2,3)])
  then have h1: "heap_rel st1 L" and al: "aligned_lists L" and len: "length L = 12"
    by (simp_all add: buddy_rel_def heap_rel_def)
  define j where "j = bd_find st1 k"
  have j: "k \<le> j" "j \<le> 12" "\<And>i. k \<le> i \<Longrightarrow> i < j \<Longrightarrow> L ! i = []" "j < 12 \<Longrightarrow> L ! j \<noteq> []"
    using bd_find_spec [OF h1, of k] assms(5) by (auto simp: j_def)
  show ?thesis
  proof (cases "j = 12")
    case True
    obtain st3 where st3: "bd_release st1 = Some st3" "kbytes st3 = kbytes st1"
      "bd_lists st3 = bd_lists st1" "same_cpu st st3"
      using rel [of st1] by auto
    have "kalloc st n = Some (0, st3)"
      using assms(3-5) ac(1) st3(1) True by (simp add: kalloc_def j_def Let_def)
    moreover have "buddy_rel st3 L" by (rule buddy_rel_same_lists [OF r1 st3(2,3)])
    ultimately show ?thesis using j(3) True st3 ac(2) by auto
  next
    case False
    then have j12: "j < 12" using j(2) by simp
    obtain b xs where b: "L ! j = b # xs" using j(4) [OF j12] by (cases "L ! j") auto
    let ?st2 = "st1\<lparr>bd_lists := (bd_lists st1)[j := ld64 (kbytes st1) b]\<rparr>" and ?L = "L[j := xs]"
    note pop = bd_pop_rel [OF h1 j12 b]
    have bal: "blk_aligned j b" using al b j12 by (auto simp: aligned_lists_def)
    have b0: "b \<noteq> 0"
      using h1 b j12 by (auto simp: heap_rel_def dest!: apart_listsD(3) [of _ j b])
    have fp: "free_pages L = free_pages ?L + block_pages j b"
      using j12 len b by (intro free_pages_pop) simp_all
    have al2: "aligned_lists ?L"
      using al b j12 len by (intro aligned_lists_update) (auto simp: aligned_lists_def)
    have on: "once (free_pages ?L + block_pages j b)"
      using r1 fp by (simp add: buddy_rel_def)
    obtain L' where sp: "buddy_rel (bd_split ?st2 b j k) L'"
      "same_rest ?st2 (bd_split ?st2 b j k)"
      "free_pages L' + block_pages k b = free_pages ?L + block_pages j b"
      "pg_frame (free_pages ?L + block_pages j b) (kbytes ?st2) (kbytes (bd_split ?st2 b j k))"
      using bd_split_rel [OF pop(2) al2 on j(1) j12 bal] by blast
    have sr: "same_rest st1 (bd_split ?st2 b j k)"
      by (rule same_rest_trans [OF same_rest_lists sp(2)])
    obtain st3 where st3: "bd_release (bd_split ?st2 b j k) = Some st3"
      "kbytes st3 = kbytes (bd_split ?st2 b j k)" "bd_lists st3 = bd_lists (bd_split ?st2 b j k)"
      "same_cpu st st3"
      using rel [OF sr] by auto
    let ?m = "memset (kbytes st3) b MEM_ALLOC_PATTERN (n * 4096)" and ?st4 = "st3\<lparr>kbytes :=
      memset (kbytes st3) b MEM_ALLOC_PATTERN (n * 4096)\<rparr>"
    have bk: "blk_aligned k b" by (rule blk_aligned_mono [OF bal j(1)])
    have "n * 4096 \<le> (push_bit k 4096 :: u64)"
      using request_size [OF assms(6,5)] .
    then have fm: "pg_frame (block_pages k b) (kbytes st3) ?m"
      using assms(5) bk by (intro memset_block_frame) simp_all
    have r3: "buddy_rel st3 L'" by (rule buddy_rel_same_lists [OF sp(1) st3(2,3)])
    have od: "once (free_pages L' + block_pages k b)" using on sp(3) by simp
    have "heap_rel ?st4 L'"
    proof (rule heap_rel_frame [of st3 L' _ "block_pages k b"])
      show "heap_rel st3 L'" using r3 by (simp add: buddy_rel_def)
      show "pg_frame (block_pages k b) (kbytes st3) (kbytes ?st4)" using fm by simp
      show "\<And>p. p \<in># free_pages L' \<Longrightarrow> p \<notin># block_pages k b" by (rule once_disjoint [OF od])
    qed simp
    then have "buddy_rel ?st4 L'" using r3 by (simp add: buddy_rel_def)
    moreover have "kalloc st n = Some (b, ?st4)"
      using assms(3-5) ac(1) st3(1) j12 pop(1) by (simp add: kalloc_def j_def Let_def)
    moreover have fl: "free_pages L = free_pages L' + block_pages k b" using fp sp(3) by simp
    moreover have "pg_frame (free_pages L) (kbytes st) (kbytes ?st4)"
    proof (rule pg_frame_trans [of _ _ "kbytes st3"])
      show "pg_frame (free_pages L) (kbytes st) (kbytes st3)"
        using sp(4) ac(2) st3(2) unfolding fp by simp
      show "pg_frame (free_pages L) (kbytes st3) (kbytes ?st4)"
        using pg_frame_mono [OF fm, of "free_pages L"] fl by simp
    qed
    moreover have "same_cpu st ?st4" using st3(4) by (simp add: same_cpu_def)
    moreover have "kbytes ?st4 a = 5" if "a - b < n * 4096" for a
      using that by (simp add: memset_apply)
    moreover have "\<exists>j. k \<le> j \<and> j < 12 \<and> L ! j \<noteq> []" using j(1,4) j12 by blast
    ultimately show ?thesis using b0 bk by blast
  qed
qed

section \<open>Adding a physical range\<close>

lemma ctz_from_clear: "i \<le> j \<Longrightarrow> j < ctz_from w i k \<Longrightarrow> \<not> bit w j"
proof (induction k arbitrary: i)
  case (Suc k)
  show ?case
  proof (cases "j = i")
    case True
    then show ?thesis using Suc.prems by (cases "bit w i") auto
  next
    case False
    then show ?thesis using Suc.IH [of "Suc i"] Suc.prems by (cases "bit w i") auto
  qed
qed simp

lemma ctzll_dvd: "2 ^ ctzll w dvd unat w"
proof -
  have "\<not> bit w j" if "j < ctzll w" for j
    using ctz_from_clear [of 0 j w 64] that by (simp add: ctzll_def)
  then have "take_bit (ctzll w) w = 0" by (intro bit_eqI) (simp add: bit_take_bit_iff)
  then have "unat (take_bit (ctzll w) w) = 0" by simp
  then have "take_bit (ctzll w) (unat w) = 0" by (simp add: unsigned_take_bit_eq)
  then show ?thesis by (simp add: take_bit_eq_mod mod_eq_0_iff_dvd)
qed

lemma fit_order_le: "fit_order p e k \<le> k"
  by (induction k) auto

lemma fit_order_fits: "p + 4096 \<le> e \<Longrightarrow> p + push_bit (fit_order p e k) 4096 \<le> e"
  by (induction k) (auto simp: not_less)

lemma range_order_props:
  assumes "p + 4096 \<le> e" "pg_aligned p"
  shows "range_order p e \<le> 11" "blk_aligned (range_order p e) p"
    and "p + push_bit (range_order p e) 4096 \<le> e"
proof -
  define i where "i = p div 4096"
  define o0 where "o0 = (if i = 0 then 11 else ctzll i)"
  define o1 where "o1 = (if 12 \<le> o0 then 11 else o0)"
  have ro: "range_order p e = fit_order p e o1"
    by (simp add: range_order_def Let_def i_def o0_def o1_def)
  have o1: "o1 \<le> 11" "o1 \<le> o0" by (auto simp: o1_def)
  show "range_order p e \<le> 11" using fit_order_le [of p e o1] o1 ro by simp
  show "p + push_bit (range_order p e) 4096 \<le> e" unfolding ro by (rule fit_order_fits [OF assms(1)])
  have "unat p = 4096 * unat i"
    using assms(2) by (simp add: i_def unat_div pg_aligned_def)
  moreover have "2 ^ o0 dvd unat i" using ctzll_dvd [of i] by (simp add: o0_def)
  ultimately have "blk_aligned o0 p" by (simp add: blk_aligned_def power_add mult_dvd_mono)
  then show "blk_aligned (range_order p e) p"
    by (rule blk_aligned_mono) (use fit_order_le [of p e o1] o1 ro in simp)
qed

definition range_pages :: "u64 \<Rightarrow> u64 \<Rightarrow> u64 \<Rightarrow> nat multiset" where
  "range_pages hh p e = mset [page_of (p + hh) ..< page_of (p + hh) + (unat e - unat p) div 4096]"

text \<open>The HHDM window: aligned to the largest block, and no address of the range wraps.\<close>

definition window_ok :: "u64 \<Rightarrow> u64 \<Rightarrow> bool" where
  "window_ok hh e \<longleftrightarrow> hh \<noteq> 0 \<and> 2 ^ 23 dvd unat hh \<and> unat hh + unat e < 2 ^ 64"

lemma range_pages_span:
  assumes "window_ok hh e" "unat p = (unat s + 4095) div 4096 * 4096"
  shows "range_pages hh p e =
    mset [(unat hh + unat s + 4095) div 4096 ..< (unat hh + unat e) div 4096]"
proof -
  obtain h where h: "unat hh = 4096 * h"
    using assms(1) dvd_trans [of 4096 "2 ^ 23" "unat hh"] by (auto simp: window_ok_def dvd_def)
  define q where "q = (unat s + 4095) div 4096"
  have p: "unat p = 4096 * q" using assms(2) by (simp add: q_def)
  have l: "(unat hh + unat s + 4095) div 4096 = h + q"
    unfolding h q_def by (simp add: add.assoc)
  have r: "(unat hh + unat e) div 4096 = h + unat e div 4096" unfolding h by simp
  have d: "(unat e - unat p) div 4096 = unat e div 4096 - q"
    unfolding p by (simp add: div_mult_self1)
  show ?thesis
  proof (cases "q < unat e div 4096")
    case True
    then have "unat p \<le> unat e" unfolding p by simp
    then have "unat (p + hh) = unat p + unat hh"
      using assms(1) unat_add_lt [of p hh] by (simp add: window_ok_def)
    then have "page_of (p + hh) = h + q" using h p by (simp add: page_of_def)
    then show ?thesis using True unfolding range_pages_def l r d by simp
  qed (simp add: range_pages_def l r d)
qed

lemma window_room: "window_ok hh e \<Longrightarrow> unat e + 2 ^ 23 < 2 ^ 64"
proof -
  assume w: "window_ok hh e"
  then have "2 ^ 23 dvd unat hh" "0 < unat hh" by (simp_all add: window_ok_def unat_gt_0)
  then have "2 ^ 23 \<le> unat hh" by (rule dvd_imp_le)
  then show ?thesis using w by (simp add: window_ok_def)
qed

lemma range_pages_step:
  assumes "window_ok hh e" "blk_aligned k p" "k \<le> 11" "unat p + 2 ^ (12 + k) \<le> unat e"
  shows "blk_aligned k (p + hh)" "p + hh \<noteq> 0"
    and "range_pages hh p e =
      block_pages k (p + hh) + range_pages hh (p + push_bit k 4096) e"
proof -
  have w: "unat (p + hh) = unat p + unat hh"
    using assms(1,4) unat_add_lt [of p hh] by (simp add: window_ok_def)
  have "2 ^ (12 + k) dvd unat hh"
  proof (rule dvd_trans)
    show "(2 :: nat) ^ (12 + k) dvd 2 ^ 23" using assms(3) by (intro le_imp_power_dvd) simp
    show "2 ^ 23 dvd unat hh" using assms(1) by (simp add: window_ok_def)
  qed
  then show al: "blk_aligned k (p + hh)"
    using assms(2) w by (simp add: blk_aligned_def)
  show "p + hh \<noteq> 0" using w assms(1) by (metis add_is_0 unat_0 unat_eq_zero window_ok_def)
  have k52: "k < 52" using assms(3) by simp
  have sz: "unat (push_bit k 4096 :: u64) = 2 ^ (12 + k)" by (rule unat_page_shift [OF k52])
  then have up: "unat (p + push_bit k 4096) = unat p + 2 ^ (12 + k)"
    using assms(4) unat_lt [of e] unat_add_lt [of p "push_bit k 4096"] by simp
  then have "unat (p + push_bit k 4096 + hh) = unat p + 2 ^ (12 + k) + unat hh"
    using assms(1,4) unat_add_lt [of "p + push_bit k 4096" hh] by (simp add: window_ok_def)
  moreover have pw: "2 ^ (12 + k) = (4096 * 2 ^ k :: nat)" by (simp add: power_add)
  ultimately have pg: "page_of (p + push_bit k 4096 + hh) = page_of (p + hh) + 2 ^ k"
    using w by (simp add: page_of_def)
  define d where "d = (unat e - (unat p + 2 ^ (12 + k))) div 4096"
  have "unat e - unat p = 4096 * 2 ^ k + (unat e - (unat p + 2 ^ (12 + k)))"
    using assms(4) pw by simp
  then have "(unat e - unat p) div 4096 = 2 ^ k + d"
    by (simp add: d_def)
  moreover define b where "b = page_of (p + hh)"
  have "[b ..< b + 2 ^ k + d] = [b ..< b + 2 ^ k] @ [b + 2 ^ k ..< b + 2 ^ k + d]"
    by (rule upt_add_eq_append) simp
  ultimately show "range_pages hh p e =
      block_pages k (p + hh) + range_pages hh (p + push_bit k 4096) e"
    unfolding range_pages_def block_pages_def pg up d_def [symmetric] b_def [symmetric]
    by (simp only: mset_append add.assoc [symmetric])
qed

lemma range_loop_rel:
  assumes "buddy_rel st L" "window_ok (khhdm st) e" "pg_aligned p"
    "once (free_pages L + range_pages (khhdm st) p e)" "unat p < unat e + 4096"
  shows "\<exists>st' L'. range_loop st p e = Some st' \<and> buddy_rel st' L' \<and> same_rest st st' \<and>
    free_pages L' = free_pages L + range_pages (khhdm st) p e \<and>
    pg_frame (free_pages L + range_pages (khhdm st) p e) (kbytes st) (kbytes st')"
  using assms
proof (induction "unat e - unat p" arbitrary: st L p rule: less_induct)
  case less
  note pe = less.prems(5)
  have room: "unat e + 2 ^ 23 < 2 ^ 64" by (rule window_room [OF less.prems(2)])
  have p4: "unat (p + 4096) = unat p + 4096"
    using pe room unat_add_lt [of p 4096] by simp
  show ?case
  proof (cases "p + 4096 \<le> e")
    case False
    then have "(unat e - unat p) div 4096 = 0" using p4 by (simp add: word_le_nat_alt)
    then have "range_pages (khhdm st) p e = {#}" by (simp add: range_pages_def)
    moreover have "range_loop st p e = Some st" using False by (subst range_loop.simps) simp
    ultimately show ?thesis using less.prems(1) by (intro exI [of _ st] exI [of _ L]) simp
  next
    case True
    define k where "k = range_order p e"
    note ro = range_order_props [OF True less.prems(3), folded k_def]
    have k12: "k < 12" and k52: "k < 52" using ro(1) by simp_all
    have "unat p \<le> unat e" using True p4 by (simp add: word_le_nat_alt)
    moreover have "(2 :: nat) ^ (12 + k) \<le> 2 ^ 23" using ro(1) by (intro power_increasing) simp_all
    ultimately have up: "unat (p + push_bit k 4096) = unat p + 2 ^ (12 + k)"
      using room unat_page_shift [OF k52] unat_add_lt [of p "push_bit k 4096"] by simp
    then have fits: "unat p + 2 ^ (12 + k) \<le> unat e" using ro(3) by (simp add: word_le_nat_alt)
    note rp = range_pages_step [OF less.prems(2) ro(2,1) fits]
    let ?x = "p + khhdm st" and ?q = "p + push_bit k 4096"
    have h: "heap_rel st L" "aligned_lists L" using less.prems(1) by (simp_all add: buddy_rel_def)
    have on: "once (free_pages L + block_pages k ?x + range_pages (khhdm st) ?q e)"
      using less.prems(4) rp(3) by (simp add: ac_simps)
    obtain x' k' st' L' where m: "bd_merge st ?x k = Some (x', k', st')"
      "buddy_rel (bd_push st' x' k') L'" "same_rest st (bd_push st' x' k')"
      "free_pages L' = free_pages L + block_pages k ?x"
      "pg_frame (free_pages L + block_pages k ?x) (kbytes st) (kbytes (bd_push st' x' k'))"
      using merge_push_rel [OF h once_sub [OF on] k12 rp(1,2)] by blast
    let ?st = "bd_push st' x' k'"
    have hh: "khhdm ?st = khhdm st" using m(3) by (simp add: same_rest_def)
    have "blk_aligned k ?q"
      using ro(2) up by (simp add: blk_aligned_def)
    then have qa: "pg_aligned ?q" by (rule blk_aligned_pg)
    have "(0 :: nat) < 2 ^ (12 + k)" by simp
    then have lt: "unat e - unat ?q < unat e - unat p" using up fits by linarith
    have q: "unat ?q < unat e + 4096" using up fits by simp
    have w: "window_ok (khhdm ?st) e" using less.prems(2) hh by simp
    have on': "once (free_pages L' + range_pages (khhdm ?st) ?q e)" using on m(4) hh by simp
    obtain st2 L2 where r: "range_loop ?st ?q e = Some st2" "buddy_rel st2 L2" "same_rest ?st st2"
      "free_pages L2 = free_pages L' + range_pages (khhdm ?st) ?q e"
      "pg_frame (free_pages L' + range_pages (khhdm ?st) ?q e) (kbytes ?st) (kbytes st2)"
      using less.hyps [OF lt m(2) w qa on' q] by blast
    have step: "range_loop st p e = range_loop ?st ?q e"
      using True m(1) by (subst range_loop.simps) (simp add: k_def [symmetric] Let_def)
    have sum: "free_pages L' + range_pages (khhdm ?st) ?q e =
        free_pages L + range_pages (khhdm st) p e"
      using m(4) rp(3) hh by (simp add: ac_simps)
    have "pg_frame (free_pages L + range_pages (khhdm st) p e) (kbytes st) (kbytes st2)"
    proof (rule pg_frame_trans [OF pg_frame_mono [OF m(5)] r(5) [unfolded sum]])
      show "set_mset (free_pages L + block_pages k ?x) \<subseteq>
          set_mset (free_pages L + range_pages (khhdm st) p e)" unfolding rp(3) by auto
    qed
    then show ?thesis
      unfolding step using r sum same_rest_trans [OF m(3) r(3)]
      by (intro exI [of _ st2] exI [of _ L2]) simp
  qed
qed

section \<open>The contract of a page allocator\<close>

text \<open>
  What the page tables and the other clients rely on. \<open>pages n b\<close> are the pages a block \<open>b\<close>
  serving a request \<open>n\<close> owns, \<open>blk n b\<close> says that \<open>b\<close> can be such a block.
\<close>

locale page_alloc =
  fixes ok :: "'s \<Rightarrow> nat multiset \<Rightarrow> bool"
    and bytes :: "'s \<Rightarrow> mem"
    and req :: "'n \<Rightarrow> bool"
    and blk :: "'n \<Rightarrow> u64 \<Rightarrow> bool"
    and pages :: "'n \<Rightarrow> u64 \<Rightarrow> nat multiset"
    and alloc :: "'s \<Rightarrow> 'n \<Rightarrow> (u64 \<times> 's) option"
    and free :: "'s \<Rightarrow> u64 \<Rightarrow> 'n \<Rightarrow> 's option"
  assumes ok_once: "ok s F \<Longrightarrow> once F"
    and alloc_law: "ok s F \<Longrightarrow> req n \<Longrightarrow> \<exists>b s'. alloc s n = Some (b, s') \<and>
      (b = 0 \<and> ok s' F \<and> bytes s' = bytes s \<or>
       b \<noteq> 0 \<and> blk n b \<and>
         (\<exists>F'. ok s' F' \<and> F = F' + pages n b \<and> pg_frame F (bytes s) (bytes s')))"
    and free_law: "ok s F \<Longrightarrow> req n \<Longrightarrow> blk n b \<Longrightarrow> b \<noteq> 0 \<Longrightarrow> once (F + pages n b) \<Longrightarrow>
      \<exists>s'. free s b n = Some s' \<and> ok s' (F + pages n b) \<and>
        pg_frame (F + pages n b) (bytes s) (bytes s')"
begin

lemma alloc_some:
  assumes "ok s F" "req n" "alloc s n = Some (b, s')" "b \<noteq> 0"
  obtains F' where "ok s' F'" "F = F' + pages n b" "blk n b" "pg_frame F (bytes s) (bytes s')"
  using alloc_law [OF assms(1,2)] assms(3,4) by auto

lemma alloc_free:
  assumes "ok s F" "req n" "alloc s n = Some (b, s')" "b \<noteq> 0"
  shows "\<exists>s''. free s' b n = Some s'' \<and> ok s'' F \<and> pg_frame F (bytes s) (bytes s'')"
proof -
  obtain F' where F': "ok s' F'" "F = F' + pages n b" "blk n b" "pg_frame F (bytes s) (bytes s')"
    using alloc_some [OF assms] .
  have "once (F' + pages n b)" using ok_once [OF assms(1)] F'(2) by simp
  from free_law [OF F'(1) assms(2) F'(3) assms(4) this] F' show ?thesis
    by (metis pg_frame_trans)
qed

lemma alloc_disjoint:
  assumes "ok s F" "req n" "alloc s n = Some (b, s1)" "b \<noteq> 0"
    "req m" "alloc s1 m = Some (c, s2)" "c \<noteq> 0"
  shows "\<forall>p. p \<in># pages n b \<longrightarrow> p \<notin># pages m c"
    and "\<forall>a. page_of a \<in># pages n b \<longrightarrow> bytes s2 a = bytes s1 a"
proof -
  obtain F1 where F1: "ok s1 F1" "F = F1 + pages n b" using alloc_some [OF assms(1-4)] .
  obtain F2 where F2: "ok s2 F2" "F1 = F2 + pages m c" "pg_frame F1 (bytes s1) (bytes s2)"
    using alloc_some [OF F1(1) assms(5-7)] .
  have o: "once (F1 + pages n b)" using ok_once [OF assms(1)] F1(2) by simp
  show "\<forall>p. p \<in># pages n b \<longrightarrow> p \<notin># pages m c"
    using once_disjoint [OF o] F2(2) by auto
  show "\<forall>a. page_of a \<in># pages n b \<longrightarrow> bytes s2 a = bytes s1 a"
    using once_disjoint [OF o] F2(3) by (auto simp: pg_frame_def)
qed

end

text \<open>The buddy allocator, for requests of 1 to 2048 pages.\<close>

definition buddy_ok :: "kmem \<Rightarrow> nat multiset \<Rightarrow> bool" where
  "buddy_ok st F \<longleftrightarrow> bd_unlocked st \<and> (\<exists>L. buddy_rel st L \<and> free_pages L = F)"

definition req_ok :: "u64 \<Rightarrow> bool" where
  "req_ok n \<longleftrightarrow> 0 < unat n \<and> unat n \<le> 2048"

definition req_order :: "u64 \<Rightarrow> nat" where
  "req_order n = the (order_for n)"

lemma req_order_props:
  assumes "req_ok n"
  shows "order_for n = Some (req_order n)" "req_order n < 12" "unat n \<le> 2 ^ req_order n" "n \<noteq> 0"
proof -
  have n: "unat n \<le> 2 ^ 63" "0 < unat n" "unat n \<le> 2048" using assms by (simp_all add: req_ok_def)
  then obtain k where k: "order_for n = Some k" "fits_order n k" using order_for_some by blast
  then show "order_for n = Some (req_order n)" "unat n \<le> 2 ^ req_order n"
    by (simp_all add: req_order_def fits_order_def)
  have "k < 12"
  proof (rule ccontr)
    assume "\<not> k < 12"
    then have "(2 :: nat) ^ 11 \<le> 2 ^ (k - 1)" by (intro power_increasing) simp_all
    moreover have "k \<noteq> 0" using \<open>\<not> k < 12\<close> by simp
    ultimately show False using k(2) n(3) by (simp add: fits_order_def)
  qed
  then show "req_order n < 12" using k by (simp add: req_order_def)
  show "n \<noteq> 0" using n by auto
qed

interpretation pa: page_alloc buddy_ok kbytes req_ok "\<lambda>n. blk_aligned (req_order n)"
  "\<lambda>n. block_pages (req_order n)" kalloc kfree
proof
  fix s F assume "buddy_ok s F"
  then show "once F" by (auto simp: buddy_ok_def buddy_rel_def)
next
  fix s F n assume "buddy_ok s F" "req_ok n"
  then obtain L where L: "buddy_rel s L" "free_pages L = F" "bd_unlocked s"
    by (auto simp: buddy_ok_def)
  note r = req_order_props [OF \<open>req_ok n\<close>]
  show "\<exists>b s'. kalloc s n = Some (b, s') \<and>
      (b = 0 \<and> buddy_ok s' F \<and> kbytes s' = kbytes s \<or>
       b \<noteq> 0 \<and> blk_aligned (req_order n) b \<and>
         (\<exists>F'. buddy_ok s' F' \<and> F = F' + block_pages (req_order n) b \<and>
           pg_frame F (kbytes s) (kbytes s')))"
    using kalloc_rel [OF L(1,3) r(1,4,2,3)]
  proof (elim disjE conjE exE)
    fix st' assume "kalloc s n = Some (0, st')" "buddy_rel st' L" "same_cpu s st'"
      "kbytes st' = kbytes s"
    then show ?thesis using L same_cpu_unlocked by (auto simp: buddy_ok_def)
  next
    fix st' b L' assume "kalloc s n = Some (b, st')" "b \<noteq> 0" "blk_aligned (req_order n) b"
      "buddy_rel st' L'" "same_cpu s st'" "free_pages L = free_pages L' + block_pages (req_order n) b"
      "pg_frame (free_pages L) (kbytes s) (kbytes st')"
    moreover from this have "bd_unlocked st'" using L(3) same_cpu_unlocked by blast
    ultimately show ?thesis using L unfolding buddy_ok_def by auto
  qed
next
  fix s F n b
  assume a: "buddy_ok s F" "req_ok n" "blk_aligned (req_order n) b" "b \<noteq> 0"
    "once (F + block_pages (req_order n) b)"
  from a(1) obtain L where L: "buddy_rel s L" "free_pages L = F" "bd_unlocked s"
    by (auto simp: buddy_ok_def)
  note r = req_order_props [OF a(2)]
  obtain st' L' where "kfree s b n = Some st'" "buddy_rel st' L'" "same_cpu s st'"
    "free_pages L' = F + block_pages (req_order n) b"
    "pg_frame (F + block_pages (req_order n) b) (kbytes s) (kbytes st')"
    using kfree_rel [OF L(1,3) r(1,4,2) a(3,4) a(5) [folded L(2)]] L(2) by blast
  moreover from this have "bd_unlocked st'" using L(3) same_cpu_unlocked by blast
  ultimately show "\<exists>s'. kfree s b n = Some s' \<and> buddy_ok s' (F + block_pages (req_order n) b) \<and>
      pg_frame (F + block_pages (req_order n) b) (kbytes s) (kbytes s')"
    by (auto simp: buddy_ok_def)
qed

lemma freerange_rel:
  assumes "buddy_ok st F" "window_ok (khhdm st) e" "s \<le> e"
    "once (F + mset [(unat (khhdm st) + unat s + 4095) div 4096 ..<
                     (unat (khhdm st) + unat e) div 4096])"
  shows "\<exists>st'. freerange st s e = Some st' \<and>
    buddy_ok st' (F + mset [(unat (khhdm st) + unat s + 4095) div 4096 ..<
                            (unat (khhdm st) + unat e) div 4096]) \<and> same_rest st st' \<and>
    pg_frame (F + mset [(unat (khhdm st) + unat s + 4095) div 4096 ..<
                        (unat (khhdm st) + unat e) div 4096]) (kbytes st) (kbytes st')"
proof -
  obtain L where L: "buddy_rel st L" "free_pages L = F" "bd_unlocked st"
    using assms(1) by (auto simp: buddy_ok_def)
  have se: "unat s \<le> unat e" using assms(3) by (simp add: word_le_nat_alt)
  define p where "p = (s + 4096 - 1) AND NOT (4096 - 1)"
  have "unat (s + 4095) = unat s + 4095"
    using window_room [OF assms(2)] se unat_add_lt [of s 4095] by simp
  moreover have "s + 4096 - 1 = s + 4095" by simp
  ultimately have p: "unat p = (unat s + 4095) div 4096 * 4096"
    using unat_page_down [of "s + 4095"] by (simp only: p_def) simp
  then have pa: "pg_aligned p" "unat p < unat e + 4096"
    using se by (simp_all add: pg_aligned_def)
  note span = range_pages_span [OF assms(2) p]
  obtain st' L' where r: "range_loop st p e = Some st'" "buddy_rel st' L'" "same_rest st st'"
    "free_pages L' = free_pages L + range_pages (khhdm st) p e"
    "pg_frame (free_pages L + range_pages (khhdm st) p e) (kbytes st) (kbytes st')"
    using range_loop_rel [OF L(1) assms(2) pa(1) _ pa(2)] assms(4) L(2) span by auto
  have "bd_unlocked st'" by (rule same_cpu_unlocked [OF same_rest_cpu [OF r(3)] L(3)])
  then show ?thesis
    using r L(2) span by (auto simp: freerange_def p_def buddy_ok_def)
qed

lemma fits_order_Least: "fits_order n k \<Longrightarrow> (LEAST j. unat n \<le> 2 ^ j) = k"
proof (rule Least_equality)
  fix j assume k: "fits_order n k" and j: "unat n \<le> 2 ^ j"
  show "k \<le> j"
  proof (rule ccontr)
    assume "\<not> k \<le> j"
    then have "(2 :: nat) ^ j \<le> 2 ^ (k - 1)" by (intro power_increasing) simp_all
    moreover have "2 ^ (k - 1) < unat n"
      using k \<open>\<not> k \<le> j\<close> by (simp add: fits_order_def)
    ultimately show False using j by linarith
  qed
qed (simp add: fits_order_def)

section \<open>Properties\<close>

text \<open>Two concrete states: freshly initialised, and with one free page.\<close>

definition hhdm0 :: u64 where
  "hhdm0 = 0xffff800000000000"

definition fresh_kmem :: kmem where
  "fresh_kmem = kinit \<lparr>kbytes = (\<lambda>_. 0), khhdm = 0, bd_lock = initlock '''', bd_use_lock = 0,
     bd_lists = [], kme = 0, kcpu = boot_cpu\<rparr> hhdm0"

definition one_page :: kmem where
  "one_page = buddy_enable_lock (fresh_kmem\<lparr>bd_lists := (replicate 12 0)[0 := hhdm0 + 0x1000]\<rparr>)"

lemma pages_from_empty [simp]: "pages_from k (replicate n []) = {#}"
  by (induction n arbitrary: k) simp_all

lemma free_pages_empty [simp]: "free_pages (replicate n []) = {#}"
  by (simp add: free_pages_def)

lemma buddy_rel_fresh: "buddy_rel fresh_kmem (replicate 12 [])"
  by (simp add: buddy_rel_def heap_rel_def apart_lists_def aligned_lists_def once_def
      fresh_kmem_def kinit_def)

lemma unlocked_fresh: "bd_unlocked fresh_kmem"
  by (simp add: bd_unlocked_def fresh_kmem_def kinit_def)

lemma buddy_ok_fresh: "buddy_ok fresh_kmem {#}"
  unfolding buddy_ok_def using buddy_rel_fresh unlocked_fresh free_pages_empty by blast

lemma one_page_addr: "hhdm0 + 0x1000 \<noteq> 0" "blk_aligned 0 (hhdm0 + 0x1000)"
  by (simp_all add: hhdm0_def blk_aligned_def)

lemma free_pages_one: "free_pages ([x] # replicate 11 []) = {# page_of x #}"
  by (simp add: free_pages_def block_pages_def del: replicate.simps)

lemma replicate_12: "replicate 12 x = x # replicate 11 x"
  by (simp add: numeral_eq_Suc)

lemma buddy_rel_one: "buddy_rel one_page ([hhdm0 + 0x1000] # replicate 11 [])"
proof -
  define x where "x = hhdm0 + 0x1000"
  have x: "x \<noteq> 0" "blk_aligned 0 x" using one_page_addr by (simp_all add: x_def)
  have k: "kbytes one_page = (\<lambda>_. 0)" "bd_lists one_page = x # replicate 11 0"
    by (simp_all add: one_page_def buddy_enable_lock_def fresh_kmem_def kinit_def x_def
        replicate_12)
  have n: "([x] # replicate 11 []) ! j = (if j = 0 then [x] else [])" if "j < 12" for j
    using that by (cases j) simp_all
  have n': "(x # replicate 11 0) ! j = (if j = 0 then x else 0)" if "j < 12" for j
    using that by (cases j) simp_all
  have "heap_rel one_page ([x] # replicate 11 [])"
    unfolding heap_rel_def apart_lists_def
    using x by (auto simp: k n n' blk_aligned_pg)
  moreover have "aligned_lists ([x] # replicate 11 [])"
    using x by (simp add: aligned_lists_def n)
  ultimately show ?thesis
    unfolding buddy_rel_def x_def [symmetric] free_pages_one by (simp add: once_def)
qed

lemma unlocked_one: "bd_unlocked one_page"
  by (simp add: bd_unlocked_def one_page_def buddy_enable_lock_def fresh_kmem_def kinit_def
      initlock_def boot_cpu_def)

lemma buddy_ok_one: "buddy_ok one_page {# page_of (hhdm0 + 0x1000) #}"
  unfolding buddy_ok_def using buddy_rel_one unlocked_one free_pages_one by blast

lemma one_page_nonempty:
  "\<not> (\<forall>j. 0 \<le> j \<and> j < 12 \<longrightarrow> ([hhdm0 + 0x1000] # replicate 11 []) ! j = [])"
  by (metis list.distinct(1) nth_Cons_0 le_refl zero_less_numeral)

lemma req_1: "req_ok 1" "req_order 1 = 0"
  by (simp_all add: req_ok_def req_order_def order_for_def order_loop.simps)

text \<open>Single pages: with at least one page free, \<^verbatim>\<open>kalloc(1)\<close> succeeds.\<close>

lemma block_pages_0: "block_pages 0 b = {# page_of b #}"
  by (simp add: block_pages_def)

lemma pages_from_nonempty:
  "pages_from i L \<noteq> {#} \<Longrightarrow> \<exists>j < length L. L ! j \<noteq> []"
proof (induction L arbitrary: i)
  case (Cons xs L)
  show ?case
  proof (cases "xs = []")
    case True
    then obtain j where "j < length L" "L ! j \<noteq> []" using Cons.IH [of "Suc i"] Cons.prems by auto
    then show ?thesis by (intro exI [of _ "Suc j"]) simp
  qed auto
qed simp

lemma kalloc_page:
  assumes "buddy_ok st F" "F \<noteq> {#}"
  shows "\<exists>b st' F'. kalloc st 1 = Some (b, st') \<and> b \<noteq> 0 \<and> pg_aligned b \<and> buddy_ok st' F' \<and>
    F = F' + {# page_of b #} \<and> pg_frame F (kbytes st) (kbytes st') \<and> same_cpu st st'"
proof -
  obtain L where L: "buddy_rel st L" "free_pages L = F" "bd_unlocked st"
    using assms(1) by (auto simp: buddy_ok_def)
  then obtain j where j: "j < 12" "L ! j \<noteq> []"
    using pages_from_nonempty [of 0 L] assms(2)
    by (auto simp: free_pages_def buddy_rel_def heap_rel_def)
  have 1: "order_for 1 = Some 0" using req_order_props(1) [OF req_1(1)] req_1(2) by simp
  obtain b st' L' where b: "kalloc st 1 = Some (b, st')" "b \<noteq> 0" "blk_aligned 0 b"
    "buddy_rel st' L'" "same_cpu st st'" "free_pages L = free_pages L' + block_pages 0 b"
    "pg_frame (free_pages L) (kbytes st) (kbytes st')"
    using kalloc_rel [OF L(1,3) 1] j by fastforce
  have "buddy_ok st' (free_pages L')"
    using b(4) same_cpu_unlocked [OF b(5) L(3)] by (auto simp: buddy_ok_def)
  then show ?thesis
    using b L(2) blk_aligned_pg [OF b(3)] unfolding block_pages_0 by blast
qed

lemma kalloc_one: "\<exists>st'. kalloc one_page 1 = Some (hhdm0 + 0x1000, st')"
proof -
  have 1: "order_for 1 = Some 0" by (simp add: order_for_def order_loop.simps)
  obtain b st' L' where b: "kalloc one_page 1 = Some (b, st')" "blk_aligned 0 b"
    "free_pages ([hhdm0 + 0x1000] # replicate 11 []) = free_pages L' + block_pages 0 b"
    using kalloc_rel [OF buddy_rel_one unlocked_one 1] one_page_nonempty by auto
  then have "page_of b = page_of (hhdm0 + 0x1000)"
    unfolding free_pages_one by (simp add: block_pages_def)
  then have "unat b = unat (hhdm0 + 0x1000)"
    using b(2) one_page_addr(2) by (auto simp: page_of_def blk_aligned_def)
  then show ?thesis using b(1) by (simp add: word_unat_eq_iff)
qed

text \<open>A single page by its bytes, and its release.\<close>

lemma page_bytes: "pg_aligned b \<Longrightarrow> unat (a - b) < 4096 \<longleftrightarrow> page_of a = page_of b"
  using block_bytes [of 0 b a] by (simp add: blk_aligned_def pg_aligned_def block_pages_0 word_less_nat_alt)

lemma kfree_page:
  assumes "buddy_ok k F" "once (F + {# page_of b #})" "pg_aligned b" "b \<noteq> 0"
  shows "\<exists>k'. kfree k b 1 = Some k' \<and> buddy_ok k' (F + {# page_of b #}) \<and>
    pg_frame (F + {# page_of b #}) (kbytes k) (kbytes k')"
  using pa.free_law [OF assms(1) req_1(1), of b] assms(2-4)
  by (simp add: req_1(2) block_pages_0 blk_aligned_def pg_aligned_def)

lemma page_index:
  assumes "pg_aligned b" "i < 4096"
  shows "page_of (b + word_of_nat i) = page_of b"
proof -
  have "unat (b + word_of_nat i - b) < 4096" using assms(2) by (simp add: unat_of_nat_id)
  then show ?thesis using page_bytes [OF assms(1)] by blast
qed

text \<open>Two separate free pages, numbers 1 and 2: no buddies, so one list of two blocks.\<close>

definition two_pages :: kmem where
  "two_pages = fresh_kmem\<lparr>kbytes := st64 (\<lambda>_. 0) 0x2000 0x1000,
     bd_lists := (replicate 12 0)[0 := 0x2000]\<rparr>"

lemma buddy_ok_two: "buddy_ok two_pages {# 1, 2 #}"
proof -
  have k: "kbytes two_pages = st64 (\<lambda>_. 0) 0x2000 0x1000" "bd_lists two_pages = 0x2000 # replicate 11 0"
    by (simp_all add: two_pages_def fresh_kmem_def kinit_def replicate_12)
  have z: "ld64 (st64 (\<lambda>_. 0) 0x2000 0x1000) 0x1000 = 0"
    by (subst ld64_st64_aligned) (simp_all add: pg_aligned_def)
  have n: "([0x2000, 0x1000 :: u64] # replicate 11 []) ! j = (if j = 0 then [0x2000, 0x1000] else [])"
    if "j < 12" for j using that by (cases j) simp_all
  have n': "((0x2000 :: u64) # replicate 11 0) ! j = (if j = 0 then 0x2000 else 0)"
    if "j < 12" for j using that by (cases j) simp_all
  have "heap_rel two_pages ([0x2000, 0x1000] # replicate 11 [])"
    unfolding heap_rel_def apart_lists_def by (auto simp: k n n' z pg_aligned_def)
  moreover have "aligned_lists ([0x2000, 0x1000] # replicate 11 [])"
    by (auto simp: aligned_lists_def n blk_aligned_def)
  moreover have f: "free_pages ([0x2000, 0x1000] # replicate 11 []) = {# 1, 2 #}"
    by (simp add: free_pages_def block_pages_0 page_of_def del: replicate.simps)
  moreover have "bd_unlocked two_pages" using unlocked_fresh by (simp add: bd_unlocked_def two_pages_def)
  ultimately show ?thesis
    unfolding buddy_ok_def buddy_rel_def by (intro conjI exI [of _ "[0x2000, 0x1000] # replicate 11 []"]) (simp_all add: once_def)
qed

text \<open>
  C1: allocation. For a request of 1 to 2048 pages, with the lock free, \<^verbatim>\<open>kalloc\<close> returns. It
  returns NULL, leaving memory and free pages alone, exactly when every list of the request's
  order or above is empty. Otherwise the block is aligned to its own size, its pages leave the
  free pages, no byte outside the formerly free pages changes, the requested bytes hold the
  allocation pattern, and the lock and the interrupt state are as before.
\<close>

theorem kalloc_spec:
  assumes "buddy_rel st L" and "bd_unlocked st" and "req_ok n"
  shows "\<exists>b st'. kalloc st n = Some (b, st') \<and> same_cpu st st' \<and>
    (if \<forall>j. req_order n \<le> j \<and> j < 12 \<longrightarrow> L ! j = []
     then b = 0 \<and> buddy_rel st' L \<and> kbytes st' = kbytes st
     else b \<noteq> 0 \<and> blk_aligned (req_order n) b \<and>
       (\<exists>L'. buddy_rel st' L' \<and> free_pages L = free_pages L' + block_pages (req_order n) b) \<and>
       pg_frame (free_pages L) (kbytes st) (kbytes st') \<and>
       (\<forall>a. a - b < n * 4096 \<longrightarrow> kbytes st' a = 5))"
proof -
  note r = req_order_props [OF assms(3)]
  from kalloc_rel [OF assms(1,2) r(1,4,2,3)] show ?thesis
  proof (elim disjE conjE exE)
    fix st' assume "kalloc st n = Some (0, st')" "buddy_rel st' L" "same_cpu st st'"
      "kbytes st' = kbytes st" "\<forall>j. req_order n \<le> j \<and> j < 12 \<longrightarrow> L ! j = []"
    then show ?thesis by (intro exI [of _ 0] exI [of _ st']) simp
  next
    fix st' b L' j
    assume a: "kalloc st n = Some (b, st')" "b \<noteq> 0" "blk_aligned (req_order n) b"
      "buddy_rel st' L'" "same_cpu st st'" "free_pages L = free_pages L' + block_pages (req_order n) b"
      "pg_frame (free_pages L) (kbytes st) (kbytes st')" "\<forall>a. a - b < n * 4096 \<longrightarrow> kbytes st' a = 5"
    assume "req_order n \<le> j" "j < 12" "L ! j \<noteq> []"
    then have "\<not> (\<forall>j. req_order n \<le> j \<and> j < 12 \<longrightarrow> L ! j = [])" by blast
    then show ?thesis using a by (intro exI [of _ b] exI [of _ st']) (simp only: if_False, blast)
  qed
qed

theorem kalloc_spec_witness: "\<exists>b st'. kalloc one_page 1 = Some (b, st') \<and> kbytes st' b = 5"
proof -
  obtain b st' where b: "kalloc one_page 1 = Some (b, st')"
    "\<forall>a. a - b < 1 * 4096 \<longrightarrow> kbytes st' a = 5"
    using kalloc_spec [OF buddy_rel_one unlocked_one req_1(1)] one_page_nonempty
    unfolding req_1(2) by (simp only: if_False) blast
  have "b - b < 1 * 4096" by simp
  with b show ?thesis by blast
qed

text \<open>
  C27: release. For a block aligned to its order and none of whose pages is free, \<^verbatim>\<open>kfree\<close>
  returns, adds exactly the block's pages to the free pages (merging buddies on the way, with
  the lists still well-formed), writes only to free pages and the block, and leaves the lock
  and the interrupt state as before.
\<close>

theorem kfree_spec:
  assumes "buddy_rel st L" and "bd_unlocked st" and "req_ok n"
    and "v \<noteq> 0" and "blk_aligned (req_order n) v"
    and "once (free_pages L + block_pages (req_order n) v)"
  shows "\<exists>st' L'. kfree st v n = Some st' \<and> buddy_rel st' L' \<and> same_cpu st st' \<and>
    free_pages L' = free_pages L + block_pages (req_order n) v \<and>
    pg_frame (free_pages L + block_pages (req_order n) v) (kbytes st) (kbytes st')"
  by (rule kfree_rel [OF assms(1,2) req_order_props(1,4,2) [OF assms(3)] assms(5,4,6)])

theorem kfree_spec_witness:
  "\<exists>st' L'. kfree fresh_kmem (hhdm0 + 0x1000) 1 = Some st' \<and> buddy_rel st' L' \<and>
     free_pages L' = {# page_of (hhdm0 + 0x1000) #}"
proof -
  have al: "blk_aligned (req_order 1) (hhdm0 + 0x1000)" using one_page_addr(2) req_1(2) by simp
  have "once (free_pages (replicate 12 []) + block_pages (req_order 1) (hhdm0 + 0x1000))"
    unfolding free_pages_empty by simp
  from kfree_spec [OF buddy_rel_fresh unlocked_fresh req_1(1) one_page_addr(1) al this]
  show ?thesis unfolding free_pages_empty req_1(2) by (auto simp: block_pages_def)
qed

text \<open>
  A block that \<^verbatim>\<open>kalloc\<close> returned can be given back: \<^verbatim>\<open>kfree\<close> with the same request
  restores exactly the free pages there were, and no byte outside them has changed.
\<close>

lemma kalloc_kfree_restores:
  assumes "buddy_ok st F" and "req_ok n" and "kalloc st n = Some (b, st')" and "b \<noteq> 0"
  shows "\<exists>st''. kfree st' b n = Some st'' \<and> buddy_ok st'' F \<and>
    pg_frame F (kbytes st) (kbytes st'')"
  by (rule pa.alloc_free [OF assms])

text \<open>
  \<^verbatim>\<open>order_for\<close> computes the least order whose block holds the request, for every request
  up to \<open>2\<^sup>63\<close> pages; for a larger one its loop never ends (the doubling reaches 0).
\<close>

lemma order_for_spec:
  "order_for n = (if unat n \<le> 2 ^ 63 then Some (LEAST k. unat n \<le> 2 ^ k) else None)"
  using order_for_some [of n] fits_order_Least [of n] order_for_none [of n] by auto

end
