(* ===== verification/Paging.thy ===== *)
theory Paging
  imports Buddy_Spec
begin

text \<open>
  The four-level page tables of \<^verbatim>\<open>kernel/mem.c\<close>: mapping a page, mapping device memory,
  creating, copying and freeing an address space. Tables are pages of the byte memory reached
  through the HHDM window; the value of \<^verbatim>\<open>cr3\<close> is an argument, and the TLB is not modelled.
  The theorem shows that the hardware's walk finds the mapping that was made.
\<close>

section \<open>Model\<close>

abbreviation (input) PTE_PRESENT :: u64 where "PTE_PRESENT \<equiv> 1"
abbreviation (input) PTE_WRITE :: u64 where "PTE_WRITE \<equiv> 2"
abbreviation (input) PTE_USER :: u64 where "PTE_USER \<equiv> 4"
abbreviation (input) PTE_PWT :: u64 where "PTE_PWT \<equiv> 8"
abbreviation (input) PTE_PCD :: u64 where "PTE_PCD \<equiv> 16"
abbreviation (input) PTE_NX :: u64 where "PTE_NX \<equiv> 0x8000000000000000"
abbreviation (input) PAGE_FRAME_MASK :: u64 where "PAGE_FRAME_MASK \<equiv> NOT 0xFFF"

definition PHYS_TO_VIRT :: "kmem \<Rightarrow> u64 \<Rightarrow> u64" where
  "PHYS_TO_VIRT st a = a + khhdm st"

definition VIRT_TO_PHYS :: "kmem \<Rightarrow> u64 \<Rightarrow> u64" where
  "VIRT_TO_PHYS st a = a - khhdm st"

definition PML4_INDEX :: "u64 \<Rightarrow> u64" where "PML4_INDEX va = drop_bit 39 va AND 0x1FF"
definition PDPT_INDEX :: "u64 \<Rightarrow> u64" where "PDPT_INDEX va = drop_bit 30 va AND 0x1FF"
definition PD_INDEX :: "u64 \<Rightarrow> u64" where "PD_INDEX va = drop_bit 21 va AND 0x1FF"
definition PT_INDEX :: "u64 \<Rightarrow> u64" where "PT_INDEX va = drop_bit 12 va AND 0x1FF"

text \<open>Entry \<open>i\<close> of the table at \<open>t\<close>: \<^verbatim>\<open>t[i]\<close>.\<close>

definition pte_at :: "kmem \<Rightarrow> u64 \<Rightarrow> u64 \<Rightarrow> u64" where
  "pte_at st t i = ld64 (kbytes st) (t + 8 * i)"

definition set_pte :: "kmem \<Rightarrow> u64 \<Rightarrow> u64 \<Rightarrow> u64 \<Rightarrow> kmem" where
  "set_pte st t i v = st\<lparr>kbytes := st64 (kbytes st) (t + 8 * i) v\<rparr>"

definition get_pml4 :: "kmem \<Rightarrow> u64 \<Rightarrow> u64" where
  "get_pml4 st cr3 = PHYS_TO_VIRT st (cr3 AND PAGE_FRAME_MASK)"

text \<open>
  \<^verbatim>\<open>Get or create\<close>: one level of \<^verbatim>\<open>map_page\<close> (\<open>fl = 0\<close>) and \<^verbatim>\<open>map_page_pml4\<close>
  (\<open>fl = PTE_USER\<close>). As in the source, the result of \<^verbatim>\<open>kalloc\<close> is used unchecked.
\<close>

definition get_or_create :: "kmem \<Rightarrow> u64 \<Rightarrow> u64 \<Rightarrow> u64 \<Rightarrow> (u64 \<times> kmem) option" where
  "get_or_create st t i fl = do {
     st1 \<leftarrow> (if pte_at st t i AND PTE_PRESENT = 0 then do {
              (p, sa) \<leftarrow> kalloc st 1;
              let new_table = VIRT_TO_PHYS sa p;
              let sb = sa\<lparr>kbytes := memset (kbytes sa) (PHYS_TO_VIRT sa new_table) 0 PAGE_SIZE\<rparr>;
              Some (set_pte sb t i (new_table OR PTE_PRESENT OR PTE_WRITE OR fl))
            } else Some st);
     Some (PHYS_TO_VIRT st1 (pte_at st1 t i AND PAGE_FRAME_MASK), st1)
   }"

definition map_page_pml4 :: "kmem \<Rightarrow> u64 \<Rightarrow> u64 \<Rightarrow> u64 \<Rightarrow> u64 \<Rightarrow> kmem option" where
  "map_page_pml4 st pml4 virt phys flags = do {
     (pdpt, st1) \<leftarrow> get_or_create st pml4 (PML4_INDEX virt) PTE_USER;
     (pd, st2) \<leftarrow> get_or_create st1 pdpt (PDPT_INDEX virt) PTE_USER;
     (pt, st3) \<leftarrow> get_or_create st2 pd (PD_INDEX virt) PTE_USER;
     Some (set_pte st3 pt (PT_INDEX virt) ((phys AND PAGE_FRAME_MASK) OR flags OR PTE_PRESENT))
   }"

definition map_page :: "kmem \<Rightarrow> u64 \<Rightarrow> u64 \<Rightarrow> u64 \<Rightarrow> u64 \<Rightarrow> kmem option" where
  "map_page st cr3 virt phys flags = do {
     (pdpt, st1) \<leftarrow> get_or_create st (get_pml4 st cr3) (PML4_INDEX virt) 0;
     (pd, st2) \<leftarrow> get_or_create st1 pdpt (PDPT_INDEX virt) 0;
     (pt, st3) \<leftarrow> get_or_create st2 pd (PD_INDEX virt) 0;
     Some (set_pte st3 pt (PT_INDEX virt) ((phys AND PAGE_FRAME_MASK) OR flags OR PTE_PRESENT))
   }"

partial_function (option) mmio_loop :: "kmem \<Rightarrow> u64 \<Rightarrow> u64 \<Rightarrow> u64 \<Rightarrow> kmem option" where
  "mmio_loop st cr3 p e =
     (if p < e then do {
        st1 \<leftarrow> map_page st cr3 (PHYS_TO_VIRT st p) p
                (PTE_PRESENT OR PTE_WRITE OR PTE_PCD OR PTE_PWT);
        mmio_loop st1 cr3 (p + PAGE_SIZE) e
      } else Some st)"

definition map_mmio :: "kmem \<Rightarrow> u64 \<Rightarrow> u64 \<Rightarrow> u64 \<Rightarrow> kmem option" where
  "map_mmio st cr3 phys len =
     mmio_loop st cr3 (phys AND NOT (PAGE_SIZE - 1))
       ((phys + len + PAGE_SIZE - 1) AND NOT (PAGE_SIZE - 1))"

definition copy_entries :: "kmem \<Rightarrow> u64 \<Rightarrow> u64 \<Rightarrow> nat list \<Rightarrow> kmem" where
  "copy_entries st dst src = foldl (\<lambda>s i. set_pte s dst (word_of_nat i)
     (pte_at s src (word_of_nat i))) st"

definition create_user_pml4 :: "kmem \<Rightarrow> u64 \<Rightarrow> (u64 \<times> kmem) option" where
  "create_user_pml4 st cr3 = do {
     (new_pml4, st1) \<leftarrow> kalloc st 1;
     if new_pml4 = 0 then Some (0, st1)
     else let st2 = st1\<lparr>kbytes := memset (kbytes st1) new_pml4 0 PAGE_SIZE\<rparr>
          in Some (new_pml4, copy_entries st2 new_pml4 (get_pml4 st2 cr3) [256..<512])
   }"

text \<open>The loops over the 512 (or 256) entries of a table, in order.\<close>

fun for_entries :: "(u64 \<Rightarrow> kmem \<Rightarrow> kmem option) \<Rightarrow> nat list \<Rightarrow> kmem \<Rightarrow> kmem option" where
  "for_entries f [] st = Some st"
| "for_entries f (i # is) st = do { st1 \<leftarrow> f (word_of_nat i) st; for_entries f is st1 }"

definition present :: "u64 \<Rightarrow> bool" where
  "present pte \<longleftrightarrow> pte AND PTE_PRESENT \<noteq> 0"

definition copy_user_pml4 :: "kmem \<Rightarrow> u64 \<Rightarrow> u64 \<Rightarrow> kmem option" where
  "copy_user_pml4 st new_pml4 old_pml4 =
     for_entries (\<lambda>i4 st.
       if \<not> present (pte_at st old_pml4 i4) then Some st else
       let old_pdpt = PHYS_TO_VIRT st (pte_at st old_pml4 i4 AND PAGE_FRAME_MASK) in
       for_entries (\<lambda>i3 st.
         if \<not> present (pte_at st old_pdpt i3) then Some st else
         let old_pd = PHYS_TO_VIRT st (pte_at st old_pdpt i3 AND PAGE_FRAME_MASK) in
         for_entries (\<lambda>i2 st.
           if \<not> present (pte_at st old_pd i2) then Some st else
           let old_pt = PHYS_TO_VIRT st (pte_at st old_pd i2 AND PAGE_FRAME_MASK) in
           for_entries (\<lambda>i1 st.
             let pte = pte_at st old_pt i1 in
             if \<not> present pte \<or> pte AND PTE_USER = 0 then Some st
             else do {
               let va = push_bit 39 i4 OR push_bit 30 i3 OR push_bit 21 i2 OR push_bit 12 i1;
               (new_page, s1) \<leftarrow> kalloc st 1;
               if new_page = 0 then Some s1
               else
                 let s2 = s1\<lparr>kbytes := memcpy (kbytes s1) new_page
                            (PHYS_TO_VIRT s1 (pte AND PAGE_FRAME_MASK)) PAGE_SIZE\<rparr>;
                     flags = (pte AND NOT PAGE_FRAME_MASK) AND NOT PTE_PRESENT
                 in map_page_pml4 s2 new_pml4 va (VIRT_TO_PHYS s2 new_page) flags
             }) [0..<512] st) [0..<512] st) [0..<512] st) [0..<256] st"

definition free_user_pml4 :: "kmem \<Rightarrow> u64 \<Rightarrow> kmem option" where
  "free_user_pml4 st pml4 =
     for_entries (\<lambda>i4 st.
       if \<not> present (pte_at st pml4 i4) then Some st else
       let pdpt = PHYS_TO_VIRT st (pte_at st pml4 i4 AND PAGE_FRAME_MASK) in
       do {
         st3 \<leftarrow> for_entries (\<lambda>i3 st.
           if \<not> present (pte_at st pdpt i3) then Some st else
           let pd = PHYS_TO_VIRT st (pte_at st pdpt i3 AND PAGE_FRAME_MASK) in
           do {
             st2 \<leftarrow> for_entries (\<lambda>i2 st.
               if \<not> present (pte_at st pd i2) then Some st else
               let pt = PHYS_TO_VIRT st (pte_at st pd i2 AND PAGE_FRAME_MASK) in
               do {
                 st1 \<leftarrow> for_entries (\<lambda>i1 st.
                   let pte = pte_at st pt i1 in
                   if present pte \<and> pte AND PTE_USER \<noteq> 0
                   then kfree st (PHYS_TO_VIRT st (pte AND PAGE_FRAME_MASK)) 1
                   else Some st) [0..<512] st;
                 kfree st1 pt 1
               }) [0..<512] st;
             kfree st2 pd 1
           }) [0..<512] st;
         st4 \<leftarrow> kfree st3 pdpt 1;
         Some (set_pte st4 pml4 i4 0)
       }) [0..<256] st"

section \<open>The hardware walk\<close>

text \<open>Walking \<open>is\<close> index by index from table \<open>t\<close>: the table reached, if all entries on the
  way are present; and the tables visited as far as the walk gets.\<close>

fun walk_tables :: "mem \<Rightarrow> u64 \<Rightarrow> u64 \<Rightarrow> u64 list \<Rightarrow> u64 option" where
  "walk_tables m hh t [] = Some t"
| "walk_tables m hh t (i # is) =
     (let e = ld64 m (t + 8 * i)
      in if present e then walk_tables m hh ((e AND PAGE_FRAME_MASK) + hh) is else None)"

fun visited :: "mem \<Rightarrow> u64 \<Rightarrow> u64 \<Rightarrow> u64 list \<Rightarrow> u64 list" where
  "visited m hh t [] = [t]"
| "visited m hh t (i # is) =
     t # (let e = ld64 m (t + 8 * i)
          in if present e then visited m hh ((e AND PAGE_FRAME_MASK) + hh) is else [])"

definition va_indices :: "u64 \<Rightarrow> u64 list" where
  "va_indices va = [PML4_INDEX va, PDPT_INDEX va, PD_INDEX va]"

definition translate :: "kmem \<Rightarrow> u64 \<Rightarrow> u64 \<Rightarrow> u64 option" where
  "translate st pml4 va = do {
     pt \<leftarrow> walk_tables (kbytes st) (khhdm st) pml4 (va_indices va);
     let e = pte_at st pt (PT_INDEX va);
     if present e then Some e else None
   }"

section \<open>Writing a table keeps the allocator\<close>

lemma buddy_ok_frame:
  assumes "buddy_ok st F" "pg_frame G (kbytes st) m" "\<And>p. p \<in># F \<Longrightarrow> p \<notin># G"
  shows "buddy_ok (st\<lparr>kbytes := m\<rparr>) F"
proof -
  obtain L where L: "buddy_rel st L" "free_pages L = F" "bd_unlocked st"
    using assms(1) by (auto simp: buddy_ok_def)
  have "heap_rel (st\<lparr>kbytes := m\<rparr>) L"
  proof (rule heap_rel_frame [of st L _ G])
    show "heap_rel st L" using L(1) by (simp add: buddy_rel_def)
    show "pg_frame G (kbytes st) (kbytes (st\<lparr>kbytes := m\<rparr>))" using assms(2) by simp
    show "\<And>p. p \<in># free_pages L \<Longrightarrow> p \<notin># G" using assms(3) L(2) by simp
  qed simp
  then have "buddy_rel (st\<lparr>kbytes := m\<rparr>) L" using L(1) by (simp add: buddy_rel_def)
  moreover have "bd_unlocked (st\<lparr>kbytes := m\<rparr>)"
    by (rule same_cpu_unlocked [OF same_cpu_bytes L(3)])
  ultimately show ?thesis using L(2) by (auto simp: buddy_ok_def)
qed

text \<open>Entry \<open>i\<close> of a table lies in the table's page.\<close>

lemma entry_page:
  fixes i :: u64
  assumes "pg_aligned t" "i < 512" "a - (t + 8 * i) < 8"
  shows "page_of a = page_of t"
proof -
  define d where "d = a - (t + 8 * i)"
  have u: "unat i < 512" "unat d < 8" using assms(2,3) by (simp_all add: word_less_nat_alt d_def)
  have i8: "unat (8 * i) = 8 * unat i" using u by (simp add: unat_word_ariths)
  have "unat (8 * i + d) = 8 * unat i + unat d"
    using u i8 unat_add_lt [of "8 * i" d] by simp
  then have "8 * i + d < push_bit 0 4096" using u by (simp add: word_less_nat_alt)
  moreover have "a - t = 8 * i + d" by (simp add: d_def)
  moreover have "blk_aligned 0 t" using assms(1) by (simp add: blk_aligned_def pg_aligned_def)
  ultimately have "page_of a \<in># block_pages 0 t" using block_bytes [of 0 t a] by simp
  then show ?thesis by (simp add: block_pages_0)
qed

lemma pte_at_cong:
  assumes "pg_aligned t" "i < 512" "\<And>a. page_of a = page_of t \<Longrightarrow> kbytes st' a = kbytes st a"
  shows "pte_at st' t i = pte_at st t i"
  unfolding pte_at_def
  by (rule ld64_cong) (rule assms(3), rule entry_page [OF assms(1,2)])

lemma set_pte_frame:
  assumes "pg_aligned t" "i < 512"
  shows "pg_frame {# page_of t #} (kbytes st) (kbytes (set_pte st t i v))"
  unfolding pg_frame_def
proof (intro allI impI)
  fix a assume "page_of a \<notin># {# page_of t #}"
  then have "\<not> a - (t + 8 * i) < 8" using entry_page [OF assms] by auto
  then show "kbytes (set_pte st t i v) a = kbytes st a"
    by (simp add: set_pte_def st64_other)
qed

lemma memset_page_frame:
  "pg_aligned x \<Longrightarrow> pg_frame {# page_of x #} m (memset m x c 4096)"
  using memset_block_frame [of 0 x 4096 m c]
  by (simp add: blk_aligned_def pg_aligned_def block_pages_0)

lemma zero_table:
  assumes "pg_aligned t" "i < 512" "\<And>a. page_of a = page_of t \<Longrightarrow> kbytes st a = 0"
  shows "pte_at st t i = 0"
proof -
  have "pte_at st t i = pte_at (st\<lparr>kbytes := \<lambda>_. 0\<rparr>) t i"
    by (rule pte_at_cong [OF assms(1,2)]) (simp add: assms(3))
  then show ?thesis by (simp add: pte_at_def)
qed

lemma memset_page_zero:
  "pg_aligned x \<Longrightarrow> page_of a = page_of x \<Longrightarrow> memset m x 0 4096 a = 0"
  using block_bytes [of 0 x a]
  by (simp add: memset_apply blk_aligned_def pg_aligned_def block_pages_0)

lemma pg_aligned_mask: "pg_aligned x \<longleftrightarrow> x AND 0xFFF = 0"
proof -
  have "x AND 0xFFF = take_bit 12 x" by (simp add: take_bit_eq_mask mask_eq_exp_minus_1)
  moreover have "unat (take_bit 12 x) = unat x mod 4096"
    by (simp add: take_bit_eq_mod unat_mod)
  ultimately show ?thesis
    by (metis pg_aligned_def mod_eq_0_iff_dvd unat_0 unat_eq_zero)
qed

lemma frame_and_flags:
  fixes x :: u64
  assumes "x AND 0xFFF = 0" "f AND NOT 0xFFF = 0"
  shows "(x OR f) AND NOT 0xFFF = x"
proof -
  have "x = (x AND 0xFFF) OR (x AND NOT 0xFFF)"
    by (simp add: bit.conj_disj_distrib [symmetric])
  then show ?thesis using assms by (simp add: bit.conj_disj_distrib2)
qed

lemma pg_aligned_sub: "pg_aligned x \<Longrightarrow> pg_aligned h \<Longrightarrow> pg_aligned (x - h)"
  unfolding pg_aligned_def unat_sub_if' by (auto intro: dvd_diff_nat dvd_add)

lemma pg_aligned_add: "pg_aligned x \<Longrightarrow> pg_aligned h \<Longrightarrow> pg_aligned (x + h)"
  using pg_aligned_sub [of x "- h"] pg_aligned_sub [of 0 h] by (simp add: pg_aligned_def)

lemma pg_aligned_frame: "pg_aligned (x AND NOT 0xFFF)"
proof -
  have "(x AND NOT 0xFFF) AND 0xFFF = x AND (NOT 0xFFF AND 0xFFF)" by (rule and.assoc)
  then show ?thesis by (simp add: pg_aligned_mask)
qed

section \<open>One level\<close>

lemma present_bit: "present e \<longleftrightarrow> bit e 0"
  by (simp add: present_def and_one_eq bit_0 odd_iff_mod_2_eq_one)

lemma get_or_create_present:
  "present (pte_at st t i) \<Longrightarrow>
     get_or_create st t i fl = Some ((pte_at st t i AND PAGE_FRAME_MASK) + khhdm st, st)"
  by (simp add: get_or_create_def present_def PHYS_TO_VIRT_def)

lemma get_or_create_fresh:
  assumes "buddy_ok st F" "F \<noteq> {#}" "pg_aligned t" "page_of t \<notin># F" "i < 512"
    "pg_aligned (khhdm st)" "\<not> present (pte_at st t i)" "fl AND NOT 0xFFF = 0"
  shows "\<exists>n st1 F1. get_or_create st t i fl = Some (n, st1) \<and> pg_aligned n \<and> buddy_ok st1 F1 \<and>
    F = F1 + {# page_of n #} \<and> khhdm st1 = khhdm st \<and> present (pte_at st1 t i) \<and>
    (pte_at st1 t i AND PAGE_FRAME_MASK) + khhdm st = n \<and>
    (\<forall>j < 512. pte_at st1 n j = 0) \<and>
    (\<forall>a. page_of a \<notin># F \<and> page_of a \<noteq> page_of t \<longrightarrow> kbytes st1 a = kbytes st a)"
proof -
  obtain b sa F1 where k: "kalloc st 1 = Some (b, sa)" "pg_aligned b" "buddy_ok sa F1"
    "F = F1 + {# page_of b #}" "pg_frame F (kbytes st) (kbytes sa)" "same_cpu st sa"
    using kalloc_page [OF assms(1,2)] by blast
  define x where "x = b - khhdm st"
  have hh: "khhdm sa = khhdm st" using k(6) by (simp add: same_cpu_def)
  let ?sb = "sa\<lparr>kbytes := memset (kbytes sa) b 0 4096\<rparr>"
  let ?e = "x OR PTE_PRESENT OR PTE_WRITE OR fl"
  let ?st1 = "set_pte ?sb t i ?e"
  have tb: "page_of t \<noteq> page_of b" using assms(4) k(4) by auto
  have "x AND 0xFFF = 0"
    using pg_aligned_sub [OF k(2) assms(6)] by (simp add: x_def pg_aligned_mask)
  moreover have "(PTE_PRESENT OR PTE_WRITE OR fl) AND NOT 0xFFF = 0"
    using assms(8) by (simp add: bit.conj_disj_distrib2)
  ultimately have fr: "?e AND NOT 0xFFF = x" by (intro frame_and_flags)
  have pr: "present ?e" by (simp add: present_bit bit_or_iff)
  have e: "pte_at ?st1 t i = ?e" by (simp add: pte_at_def set_pte_def)
  have once: "once (F1 + {# page_of b #})"
    using assms(1) k(4) by (auto simp: buddy_ok_def buddy_rel_def)
  have o1: "p \<noteq> page_of b \<and> p \<noteq> page_of t" if "p \<in># F1" for p
    using once_disjoint [OF once that] assms(4) k(4) that by auto
  have ok1: "buddy_ok ?sb F1"
    by (rule buddy_ok_frame [OF k(3) memset_page_frame [OF k(2)]]) (use o1 in auto)
  have "buddy_ok (?sb\<lparr>kbytes := kbytes ?st1\<rparr>) F1"
    by (rule buddy_ok_frame [OF ok1 set_pte_frame [OF assms(3,5)]]) (use o1 in auto)
  then have ok2: "buddy_ok ?st1 F1" by (simp add: set_pte_def)
  have zero: "pte_at ?st1 b j = 0" if "j < 512" for j
  proof (rule zero_table [OF k(2) that])
    fix a assume a: "page_of a = page_of b"
    then have "kbytes ?st1 a = kbytes ?sb a"
      using set_pte_frame [OF assms(3,5), of ?sb ?e] tb by (auto simp: pg_frame_def)
    then show "kbytes ?st1 a = 0" using memset_page_zero [OF k(2) a] by simp
  qed
  have same: "kbytes ?st1 a = kbytes st a" if "page_of a \<notin># F" "page_of a \<noteq> page_of t" for a
  proof -
    have "page_of a \<noteq> page_of b" using that k(4) by auto
    then show ?thesis
      using that k(5) set_pte_frame [OF assms(3,5), of ?sb ?e]
        memset_page_frame [OF k(2), of "kbytes sa" 0] by (auto simp: pg_frame_def)
  qed
  have "get_or_create st t i fl = Some (b, ?st1)"
    using assms(7) k(1) fr e
    by (simp add: get_or_create_def present_def Let_def VIRT_TO_PHYS_def PHYS_TO_VIRT_def hh
        x_def [symmetric]) (simp add: set_pte_def hh x_def)
  moreover have "khhdm ?st1 = khhdm st" by (simp add: set_pte_def hh)
  ultimately show ?thesis
    using k(2,4) ok2 e fr pr zero same by (intro exI [of _ b] exI [of _ ?st1] exI [of _ F1]) (simp add: x_def)
qed

section \<open>The path to the leaf table\<close>

fun map_walk :: "kmem \<Rightarrow> u64 \<Rightarrow> u64 \<Rightarrow> u64 list \<Rightarrow> (u64 \<times> kmem) option" where
  "map_walk st t fl [] = Some (t, st)"
| "map_walk st t fl (i # is) = do {
     (n, st1) \<leftarrow> get_or_create st t i fl;
     map_walk st1 n fl is
   }"

lemma map_page_pml4_walk:
  "map_page_pml4 st pml4 virt phys flags = do {
     (pt, st1) \<leftarrow> map_walk st pml4 PTE_USER (va_indices virt);
     Some (set_pte st1 pt (PT_INDEX virt) ((phys AND PAGE_FRAME_MASK) OR flags OR PTE_PRESENT))
   }"
  by (simp add: map_page_pml4_def va_indices_def case_prod_beta split: Option.bind_splits)

lemma map_page_walk:
  "map_page st cr3 virt phys flags = do {
     (pt, st1) \<leftarrow> map_walk st (get_pml4 st cr3) 0 (va_indices virt);
     Some (set_pte st1 pt (PT_INDEX virt) ((phys AND PAGE_FRAME_MASK) OR flags OR PTE_PRESENT))
   }"
  by (simp add: map_page_def va_indices_def case_prod_beta split: Option.bind_splits)

definition pages_of :: "u64 list \<Rightarrow> nat list" where
  "pages_of ts = map page_of ts"

text \<open>The tables the walk visits are distinct pages, none of them free.\<close>

definition tables_ok :: "mem \<Rightarrow> u64 \<Rightarrow> nat multiset \<Rightarrow> u64 \<Rightarrow> u64 list \<Rightarrow> bool" where
  "tables_ok m hh F t is \<longleftrightarrow> pg_aligned t \<and> distinct (pages_of (visited m hh t is)) \<and>
     (\<forall>p \<in> set (pages_of (visited m hh t is)). p \<notin># F)"

lemma pages_of_simps [simp]: "pages_of [] = []" "pages_of (t # ts) = page_of t # pages_of ts"
  by (simp_all add: pages_of_def)

text \<open>A walk reads only the entries of the tables it visits before the last.\<close>

lemma walk_cong:
  assumes "\<forall>i \<in> set is. i < 512" "pg_aligned t" "pg_aligned hh"
    "\<And>a. page_of a \<in> set (pages_of (visited m hh t is)) \<Longrightarrow> m' a = m a"
  shows "walk_tables m' hh t is = walk_tables m hh t is \<and> visited m' hh t is = visited m hh t is"
  using assms
proof (induction "is" arbitrary: t)
  case (Cons i "is")
  let ?n = "(ld64 m (t + 8 * i) AND PAGE_FRAME_MASK) + hh"
  have e: "ld64 m' (t + 8 * i) = ld64 m (t + 8 * i)"
    using Cons.prems by (intro ld64_cong) (auto dest: entry_page)
  have al: "pg_aligned ?n" by (rule pg_aligned_add [OF pg_aligned_frame Cons.prems(3)])
  show ?case
  proof (cases "present (ld64 m (t + 8 * i))")
    case True
    then have "walk_tables m' hh ?n is = walk_tables m hh ?n is \<and> visited m' hh ?n is = visited m hh ?n is"
      using Cons.prems al by (intro Cons.IH) (simp_all add: Let_def)
    with True e show ?thesis by (simp add: Let_def)
  qed (simp add: e Let_def)
qed simp

lemma map_walk_ok:
  assumes "buddy_ok st F" "length is \<le> size F" "pg_aligned (khhdm st)" "\<forall>i \<in> set is. i < 512"
    "fl AND NOT 0xFFF = 0" "tables_ok (kbytes st) (khhdm st) F t is"
  shows "\<exists>st' u F'. map_walk st t fl is = Some (u, st') \<and> buddy_ok st' F' \<and> F' \<subseteq># F \<and>
    khhdm st' = khhdm st \<and> walk_tables (kbytes st') (khhdm st) t is = Some u \<and> pg_aligned u \<and>
    last (visited (kbytes st') (khhdm st) t is) = u \<and>
    tables_ok (kbytes st') (khhdm st) F' t is \<and>
    (\<forall>p \<in> set (pages_of (visited (kbytes st') (khhdm st) t is)).
       p \<in># F \<or> p \<in> set (pages_of (visited (kbytes st) (khhdm st) t is))) \<and>
    (\<forall>a. page_of a \<notin># F \<and> page_of a \<notin> set (pages_of (visited (kbytes st) (khhdm st) t is)) \<longrightarrow>
       kbytes st' a = kbytes st a)"
  using assms
proof (induction "is" arbitrary: st F t)
  case Nil
  then show ?case by (auto simp: tables_ok_def intro!: exI [of _ st] exI [of _ F])
next
  case (Cons i "is")
  let ?hh = "khhdm st"
  have t: "pg_aligned t" "page_of t \<notin># F" "i < 512"
    using Cons.prems(4,6) by (simp_all add: tables_ok_def)
  have F0: "F \<noteq> {#}" using Cons.prems(2) by auto
  have "\<exists>n st1 F1. get_or_create st t i fl = Some (n, st1) \<and> buddy_ok st1 F1 \<and> F1 \<subseteq># F \<and>
    size F \<le> Suc (size F1) \<and> khhdm st1 = ?hh \<and> present (pte_at st1 t i) \<and>
    (pte_at st1 t i AND PAGE_FRAME_MASK) + ?hh = n \<and>
    tables_ok (kbytes st1) ?hh F1 n is \<and>
    page_of t \<notin> set (pages_of (visited (kbytes st1) ?hh n is)) \<and>
    (\<forall>p \<in> set (pages_of (visited (kbytes st1) ?hh n is)).
       p \<in># F \<or> p \<in> set (pages_of (visited (kbytes st) ?hh t (i # is)))) \<and>
    (\<forall>a. page_of a \<notin># F \<and> page_of a \<noteq> page_of t \<longrightarrow> kbytes st1 a = kbytes st a)"
  proof (cases "present (pte_at st t i)")
    case True
    let ?n = "(pte_at st t i AND PAGE_FRAME_MASK) + ?hh"
    have v: "visited (kbytes st) ?hh t (i # is) = t # visited (kbytes st) ?hh ?n is"
      using True by (simp add: pte_at_def Let_def)
    have "pg_aligned ?n" by (rule pg_aligned_add [OF pg_aligned_frame Cons.prems(3)])
    then have "tables_ok (kbytes st) ?hh F ?n is"
      using Cons.prems(6) unfolding tables_ok_def v by simp
    moreover have "page_of t \<notin> set (pages_of (visited (kbytes st) ?hh ?n is))"
      using Cons.prems(6) unfolding tables_ok_def v by simp
    ultimately show ?thesis
      using get_or_create_present [OF True, of fl] True Cons.prems(1) v
      by (intro exI [of _ ?n] exI [of _ st] exI [of _ F]) simp
  next
    case False
    obtain n st1 F1 where g: "get_or_create st t i fl = Some (n, st1)" "pg_aligned n"
      "buddy_ok st1 F1" "F = F1 + {# page_of n #}" "khhdm st1 = ?hh" "present (pte_at st1 t i)"
      "(pte_at st1 t i AND PAGE_FRAME_MASK) + ?hh = n" "\<forall>j < 512. pte_at st1 n j = 0"
      "\<forall>a. page_of a \<notin># F \<and> page_of a \<noteq> page_of t \<longrightarrow> kbytes st1 a = kbytes st a"
      using get_or_create_fresh [OF Cons.prems(1) F0 t Cons.prems(3) False Cons.prems(5)] by blast
    have v: "visited (kbytes st1) ?hh n is = [n]"
      using g(8) Cons.prems(4) by (cases "is") (simp_all add: pte_at_def present_def Let_def)
    have "once (F1 + {# page_of n #})"
      using Cons.prems(1) g(4) by (auto simp: buddy_ok_def buddy_rel_def)
    then have "page_of n \<notin># F1" using once_disjoint [of F1 "{# page_of n #}"] by auto
    then have "tables_ok (kbytes st1) ?hh F1 n is" using v g(2) by (simp add: tables_ok_def)
    moreover have "page_of t \<noteq> page_of n" using t(2) g(4) by auto
    ultimately show ?thesis
      using g v by (intro exI [of _ n] exI [of _ st1] exI [of _ F1]) simp
  qed
  then obtain n st1 F1 where s: "get_or_create st t i fl = Some (n, st1)" "buddy_ok st1 F1"
    "F1 \<subseteq># F" "size F \<le> Suc (size F1)" "khhdm st1 = ?hh" "present (pte_at st1 t i)"
    "(pte_at st1 t i AND PAGE_FRAME_MASK) + ?hh = n" "tables_ok (kbytes st1) ?hh F1 n is"
    "page_of t \<notin> set (pages_of (visited (kbytes st1) ?hh n is))"
    "\<forall>p \<in> set (pages_of (visited (kbytes st1) ?hh n is)).
       p \<in># F \<or> p \<in> set (pages_of (visited (kbytes st) ?hh t (i # is)))"
    "\<forall>a. page_of a \<notin># F \<and> page_of a \<noteq> page_of t \<longrightarrow> kbytes st1 a = kbytes st a"
    by blast
  have pre: "length is \<le> size F1" "pg_aligned (khhdm st1)" "\<forall>i \<in> set is. i < 512"
    "tables_ok (kbytes st1) (khhdm st1) F1 n is"
    using Cons.prems(2,3,4) s(4,5,8) by simp_all
  obtain st' u F' where r: "map_walk st1 n fl is = Some (u, st')" "buddy_ok st' F'" "F' \<subseteq># F1"
    "khhdm st' = ?hh" "walk_tables (kbytes st') ?hh n is = Some u" "pg_aligned u"
    "last (visited (kbytes st') ?hh n is) = u" "tables_ok (kbytes st') ?hh F' n is"
    "\<forall>p \<in> set (pages_of (visited (kbytes st') ?hh n is)).
       p \<in># F1 \<or> p \<in> set (pages_of (visited (kbytes st1) ?hh n is))"
    "\<forall>a. page_of a \<notin># F1 \<and> page_of a \<notin> set (pages_of (visited (kbytes st1) ?hh n is)) \<longrightarrow>
       kbytes st' a = kbytes st1 a"
    using Cons.IH [OF s(2) pre(1-3) Cons.prems(5) pre(4)] s(5) by auto
  have F1F: "p \<in># F" if "p \<in># F1" for p using that s(3) by (meson mset_subset_eqD)
  have tF1: "page_of t \<notin># F1" using t(2) F1F by blast
  have e: "pte_at st' t i = pte_at st1 t i"
    by (rule pte_at_cong [OF t(1,3)]) (use r(10) s(9) tF1 in simp)
  have v: "visited (kbytes st') ?hh t (i # is) = t # visited (kbytes st') ?hh n is"
    using e s(6,7) by (simp add: pte_at_def Let_def)
  have ne: "visited m hh x js \<noteq> []" for m hh x js by (cases js) simp_all
  have tn: "page_of t \<notin> set (pages_of (visited (kbytes st') ?hh n is))"
    using r(9) s(9) tF1 by blast
  have F'F1: "p \<in># F1" if "p \<in># F'" for p using that r(3) by (meson mset_subset_eqD)
  show ?case
  proof (intro exI [of _ st'] exI [of _ u] exI [of _ F'] conjI)
    show "map_walk st t fl (i # is) = Some (u, st')" using s(1) r(1) by simp
    show "buddy_ok st' F'" "khhdm st' = ?hh" "pg_aligned u" by fact+
    show "F' \<subseteq># F" using r(3) s(3) by (rule subset_mset.order_trans)
    show "walk_tables (kbytes st') ?hh t (i # is) = Some u"
      using e s(6,7) r(5) by (simp add: pte_at_def Let_def)
    show "last (visited (kbytes st') ?hh t (i # is)) = u" unfolding v using r(7) ne by simp
    show "tables_ok (kbytes st') ?hh F' t (i # is)"
      unfolding tables_ok_def v using t(1) tn tF1 F'F1 r(8) by (auto simp: tables_ok_def)
    show "\<forall>p \<in> set (pages_of (visited (kbytes st') ?hh t (i # is))).
       p \<in># F \<or> p \<in> set (pages_of (visited (kbytes st) ?hh t (i # is)))"
      unfolding v using r(9) s(10) F1F by auto
    show "\<forall>a. page_of a \<notin># F \<and> page_of a \<notin> set (pages_of (visited (kbytes st) ?hh t (i # is))) \<longrightarrow>
       kbytes st' a = kbytes st a"
    proof (intro allI impI)
      fix a assume a: "page_of a \<notin># F \<and> page_of a \<notin> set (pages_of (visited (kbytes st) ?hh t (i # is)))"
      then have "page_of a \<noteq> page_of t" by auto
      moreover have "page_of a \<notin># F1" using a F1F by blast
      moreover have "page_of a \<notin> set (pages_of (visited (kbytes st1) ?hh n is))" using a s(10) by blast
      ultimately show "kbytes st' a = kbytes st a" using r(10) s(11) a by simp
    qed
  qed
qed

text \<open>Writing only the last table of a complete walk leaves the walk as it is.\<close>

lemma walk_last:
  assumes "\<forall>i \<in> set is. i < 512" "pg_aligned t" "pg_aligned hh"
    "walk_tables m hh t is = Some u" "last (visited m hh t is) = u"
    "distinct (pages_of (visited m hh t is))"
    "\<And>a. page_of a \<noteq> page_of u \<Longrightarrow> m' a = m a"
  shows "walk_tables m' hh t is = Some u"
  using assms
proof (induction "is" arbitrary: t)
  case (Cons i "is")
  let ?n = "(ld64 m (t + 8 * i) AND PAGE_FRAME_MASK) + hh"
  have pr: "present (ld64 m (t + 8 * i))" and w: "walk_tables m hh ?n is = Some u"
    using Cons.prems(4) by (simp_all add: Let_def split: if_splits)
  have v: "visited m hh t (i # is) = t # visited m hh ?n is" using pr by (simp add: Let_def)
  have ne: "visited m hh ?n is \<noteq> []" by (cases "is") simp_all
  then have l: "last (visited m hh ?n is) = u" using Cons.prems(5) unfolding v by simp
  then have "page_of u \<in> set (pages_of (visited m hh ?n is))"
    using ne last_in_set by (force simp: pages_of_def)
  then have tu: "page_of t \<noteq> page_of u" using Cons.prems(6) unfolding v by auto
  have e: "ld64 m' (t + 8 * i) = ld64 m (t + 8 * i)"
    by (rule ld64_cong) (use Cons.prems(1,2,7) tu entry_page in \<open>metis list.set_intros(1)\<close>)
  have "walk_tables m' hh ?n is = Some u"
  proof (rule Cons.IH [OF _ pg_aligned_add [OF pg_aligned_frame Cons.prems(3)] Cons.prems(3) w l])
    show "distinct (pages_of (visited m hh ?n is))" using Cons.prems(6) unfolding v by simp
  qed (use Cons.prems(1,7) in simp_all)
  then show ?case using e pr by (simp add: Let_def)
qed simp

lemma index_bound: "x AND 0x1FF < (512 :: u64)"
proof -
  have "x AND 0x1FF = take_bit 9 x" by (simp add: take_bit_eq_mask mask_eq_exp_minus_1)
  moreover have "unat (take_bit 9 x) < 512" by (simp add: take_bit_eq_mod unat_mod)
  ultimately show ?thesis by (simp add: word_less_nat_alt)
qed

lemma va_indices_bound: "\<forall>i \<in> set (va_indices va). i < 512" "PT_INDEX va < 512"
  by (simp_all add: va_indices_def PML4_INDEX_def PDPT_INDEX_def PD_INDEX_def PT_INDEX_def index_bound)

text \<open>Three free pages are enough for one mapping.\<close>

lemma leaf_written:
  assumes "buddy_ok st F" "3 \<le> size F" "pg_aligned (khhdm st)" "fl AND NOT 0xFFF = 0"
    "tables_ok (kbytes st) (khhdm st) F pml4 (va_indices va)"
  shows "\<exists>u st' F'. map_walk st pml4 fl (va_indices va) = Some (u, st') \<and>
    buddy_ok (set_pte st' u (PT_INDEX va) e) F' \<and> F' \<subseteq># F \<and> khhdm st' = khhdm st \<and>
    (present e \<longrightarrow> translate (set_pte st' u (PT_INDEX va) e) pml4 va = Some e) \<and>
    (\<forall>a. page_of a \<notin># F \<and>
       page_of a \<notin> set (pages_of (visited (kbytes st) (khhdm st) pml4 (va_indices va))) \<longrightarrow>
       kbytes (set_pte st' u (PT_INDEX va) e) a = kbytes st a)"
proof -
  let ?hh = "khhdm st" and ?is = "va_indices va"
  have len: "length ?is \<le> size F" using assms(2) by (simp add: va_indices_def)
  obtain u st' F' where r: "map_walk st pml4 fl ?is = Some (u, st')" "buddy_ok st' F'" "F' \<subseteq># F"
    "khhdm st' = ?hh" "walk_tables (kbytes st') ?hh pml4 ?is = Some u" "pg_aligned u"
    "last (visited (kbytes st') ?hh pml4 ?is) = u" "tables_ok (kbytes st') ?hh F' pml4 ?is"
    "\<forall>p \<in> set (pages_of (visited (kbytes st') ?hh pml4 ?is)).
       p \<in># F \<or> p \<in> set (pages_of (visited (kbytes st) ?hh pml4 ?is))"
    "\<forall>a. page_of a \<notin># F \<and> page_of a \<notin> set (pages_of (visited (kbytes st) ?hh pml4 ?is)) \<longrightarrow>
       kbytes st' a = kbytes st a"
    using map_walk_ok [OF assms(1) len assms(3) va_indices_bound(1) assms(4,5)] by auto
  let ?st = "set_pte st' u (PT_INDEX va) e"
  let ?v = "visited (kbytes st') ?hh pml4 ?is"
  have fr: "pg_frame {# page_of u #} (kbytes st') (kbytes ?st)"
    by (rule set_pte_frame [OF r(6) va_indices_bound(2)])
  have vne: "?v \<noteq> []" by (simp add: va_indices_def)
  then have uv: "page_of u \<in> set (pages_of ?v)" using r(7) last_in_set by (force simp: pages_of_def)
  have "buddy_ok (st'\<lparr>kbytes := kbytes ?st\<rparr>) F'"
    by (rule buddy_ok_frame [OF r(2) fr]) (use r(8) uv in \<open>auto simp: tables_ok_def\<close>)
  then have ok: "buddy_ok ?st F'" by (simp add: set_pte_def)
  have same: "kbytes ?st a = kbytes st' a" if "page_of a \<noteq> page_of u" for a
    using fr that by (auto simp: pg_frame_def)
  have walk: "walk_tables (kbytes ?st) ?hh pml4 ?is = Some u"
    by (rule walk_last [OF va_indices_bound(1) _ assms(3) r(5,7)])
      (use r(8) same in \<open>simp_all add: tables_ok_def\<close>)
  have "pte_at ?st u (PT_INDEX va) = e" by (simp add: pte_at_def set_pte_def)
  then have "translate ?st pml4 va = Some e" if "present e"
    using walk that r(4) by (simp add: translate_def set_pte_def Let_def)
  moreover have "kbytes ?st a = kbytes st a"
    if "page_of a \<notin># F" "page_of a \<notin> set (pages_of (visited (kbytes st) ?hh pml4 ?is))" for a
    using same [of a] r(9,10) uv that by metis
  ultimately show ?thesis using r(1,3,4) ok by blast
qed

definition boot_pml4 :: u64 where
  "boot_pml4 = hhdm0 + 0x10000"

lemma three_pages:
  "\<exists>st F. buddy_ok st F \<and> size F = 3 \<and> khhdm st = hhdm0 \<and> page_of boot_pml4 \<notin># F \<and>
     (\<forall>a. page_of a = page_of boot_pml4 \<longrightarrow> kbytes st a = 0)"
proof -
  have hh: "khhdm fresh_kmem = hhdm0" by (simp add: fresh_kmem_def kinit_def)
  have z: "kbytes fresh_kmem = (\<lambda>_. 0)" by (simp add: fresh_kmem_def kinit_def)
  have w: "window_ok (khhdm fresh_kmem) 0x4000" by (simp add: hh hhdm0_def window_ok_def)
  have lo: "(unat (khhdm fresh_kmem) + unat (0x1000 :: u64) + 4095) div 4096 = 0xffff800000001"
    and hi: "(unat (khhdm fresh_kmem) + unat (0x4000 :: u64)) div 4096 = 0xffff800000004"
    by (simp_all add: hh hhdm0_def)
  have on: "once ({#} + mset [0xffff800000001 ..< 0xffff800000004])"
    by (simp only: once_def mset_upt) (simp add: count_mset_set')
  have le: "(0x1000 :: u64) \<le> 0x4000" by (simp add: word_le_nat_alt)
  obtain st where st: "buddy_ok st (mset [0xffff800000001 ..< 0xffff800000004])"
    "same_rest fresh_kmem st"
    "pg_frame (mset [0xffff800000001 ..< 0xffff800000004]) (kbytes fresh_kmem) (kbytes st)"
    using freerange_rel [OF buddy_ok_fresh w le, unfolded lo hi, OF on] by auto
  have p: "page_of boot_pml4 = 0xffff800000010" by (simp add: boot_pml4_def hhdm0_def page_of_def)
  have np: "page_of boot_pml4 \<notin># mset [0xffff800000001 ..< 0xffff800000004]" unfolding p by simp
  then have "\<forall>a. page_of a = page_of boot_pml4 \<longrightarrow> kbytes st a = 0"
    using st(3) unfolding pg_frame_def z by (metis (no_types))
  then show ?thesis using st np hh
    by (intro exI [of _ st] exI [of _ "mset [0xffff800000001 ..< 0xffff800000004]"])
      (simp add: same_rest_def)
qed

lemma boot_tables:
  fixes st :: kmem
  assumes "khhdm st = hhdm0" "page_of boot_pml4 \<notin># F"
    "\<forall>a. page_of a = page_of boot_pml4 \<longrightarrow> kbytes st a = 0"
  shows "tables_ok (kbytes st) (khhdm st) F boot_pml4 (va_indices va)"
proof -
  have al: "pg_aligned boot_pml4" by (simp add: boot_pml4_def hhdm0_def pg_aligned_def)
  have "pte_at st boot_pml4 (PML4_INDEX va) = 0"
    using va_indices_bound(1) [of va] assms(3) by (intro zero_table [OF al]) (simp_all add: va_indices_def)
  then have "visited (kbytes st) (khhdm st) boot_pml4 (va_indices va) = [boot_pml4]"
    by (simp add: va_indices_def pte_at_def present_def Let_def)
  then show ?thesis using al assms(2) by (simp add: tables_ok_def)
qed



section \<open>A new address space\<close>

lemma entries_apart:
  fixes i j :: u64
  assumes "i < 512" "j < 512" "i \<noteq> j"
  shows "8 \<le> (t + 8 * i) - (t + 8 * j)"
proof -
  have u: "unat i < 512" "unat j < 512" "unat i \<noteq> unat j"
    using assms by (simp_all add: word_less_nat_alt word_unat_eq_iff)
  have m: "unat (8 * i) = 8 * unat i" "unat (8 * j) = 8 * unat j"
    using u by (simp_all add: unat_word_ariths)
  have "(t + 8 * i) - (t + 8 * j) = 8 * i - 8 * j" by simp
  moreover have "8 \<le> unat (8 * i - 8 * j)" using u by (simp add: unat_sub_if' m) linarith
  ultimately show ?thesis by (simp add: word_le_nat_alt)
qed

lemma pte_at_set_pte:
  "i < 512 \<Longrightarrow> j < 512 \<Longrightarrow> pte_at (set_pte st t i v) t j = (if i = j then v else pte_at st t j)"
  using entries_apart [of i j t] entries_apart [of j i t] ld64_st64_other [of "t + 8 * i" "t + 8 * j"]
  by (cases "i = j") (simp_all add: pte_at_def set_pte_def)

lemma set_pte_ok:
  assumes "buddy_ok st F" "pg_aligned t" "i < 512" "page_of t \<notin># F"
  shows "buddy_ok (set_pte st t i v) F"
proof -
  have "buddy_ok (st\<lparr>kbytes := kbytes (set_pte st t i v)\<rparr>) F"
    by (rule buddy_ok_frame [OF assms(1) set_pte_frame [OF assms(2,3)]]) (use assms(4) in auto)
  then show ?thesis by (simp add: set_pte_def)
qed

lemma copy_entries_ok:
  "buddy_ok st F \<Longrightarrow> pg_aligned n \<Longrightarrow> page_of n \<notin># F \<Longrightarrow> \<forall>i \<in> set is. i < 512 \<Longrightarrow>
     buddy_ok (copy_entries st n k is) F"
proof (induction "is" arbitrary: st)
  case (Cons i "is")
  have "(word_of_nat i :: u64) < 512"
    using Cons.prems(4) unat_of_nat_id [of i, where 'a = 64] by (simp add: word_less_nat_alt)
  then show ?case using Cons set_pte_ok by (simp add: copy_entries_def)
qed (simp add: copy_entries_def)

lemma pte_at_set_other:
  "pg_aligned t \<Longrightarrow> pg_aligned u \<Longrightarrow> page_of u \<noteq> page_of t \<Longrightarrow> i < 512 \<Longrightarrow> j < 512 \<Longrightarrow>
     pte_at (set_pte st t i v) u j = pte_at st u j"
  using set_pte_frame [of t i st v] by (intro pte_at_cong) (auto simp: pg_frame_def)

lemma copy_entries_apply:
  assumes "pg_aligned n" "pg_aligned k" "page_of k \<noteq> page_of n" "b \<le> 512" "a \<le> b" "j < 512"
  shows "pte_at (copy_entries st n k [a..<b]) n j =
      (if a \<le> unat j \<and> unat j < b then pte_at st k j else pte_at st n j) \<and>
    pte_at (copy_entries st n k [a..<b]) k j = pte_at st k j \<and>
    pg_frame {# page_of n #} (kbytes st) (kbytes (copy_entries st n k [a..<b])) \<and>
    khhdm (copy_entries st n k [a..<b]) = khhdm st"
  using assms(5,4,6)
proof (induction b arbitrary: j rule: dec_induct)
  case base
  have "\<not> (a \<le> unat j \<and> unat j < a)" by simp
  then show ?case by (simp only: copy_entries_def upt_rec [of a a] less_irrefl if_False foldl.simps pg_frame_refl simp_thms)
next
  case (step b)
  let ?s = "copy_entries st n k [a..<b]" and ?b = "word_of_nat b :: u64"
  have b: "b < 512" using step by simp
  then have ub: "unat ?b = b" by (intro unat_of_nat_id) simp
  then have b512: "?b < 512" using b by (simp add: word_less_nat_alt)
  have eq: "copy_entries st n k [a..<Suc b] = set_pte ?s n ?b (pte_at ?s k ?b)"
    using step.hyps by (simp add: copy_entries_def)
  have jb: "?b = j \<longleftrightarrow> unat j = b" using ub by (auto simp: word_unat_eq_iff)
  have ih: "pte_at ?s n j = (if a \<le> unat j \<and> unat j < b then pte_at st k j else pte_at st n j)"
    "pte_at ?s k j = pte_at st k j" "pg_frame {# page_of n #} (kbytes st) (kbytes ?s)"
    "khhdm ?s = khhdm st" "pte_at ?s k ?b = pte_at st k ?b"
    using step.IH [of j] step.IH [of ?b] step.prems b b512 by simp_all
  have "pte_at (set_pte ?s n ?b (pte_at ?s k ?b)) k j = pte_at ?s k j"
    by (rule pte_at_set_other [OF assms(1,2,3) b512 step.prems(2)])
  moreover have "pg_frame {# page_of n #} (kbytes st) (kbytes (set_pte ?s n ?b (pte_at ?s k ?b)))"
    by (rule pg_frame_trans [OF ih(3) set_pte_frame [OF assms(1) b512]])
  ultimately show ?case
    unfolding eq pte_at_set_pte [OF b512 step.prems(2)] using ih jb step.hyps
    by (auto simp: set_pte_def less_Suc_eq)
qed

text \<open>
  With a free page, and a kernel table that is not a free page, \<^verbatim>\<open>create_user_pml4\<close>
  returns a new table whose upper half equals the kernel's and whose user half is empty: no
  user address translates in it. The new page leaves the free pages.
\<close>

lemma create_user_pml4_spec:
  assumes "buddy_ok st F" and "F \<noteq> {#}" and "pg_aligned (khhdm st)"
    and "page_of (get_pml4 st cr3) \<notin># F"
  shows "\<exists>n st' F'. create_user_pml4 st cr3 = Some (n, st') \<and> n \<noteq> 0 \<and> buddy_ok st' F' \<and>
    F = F' + {# page_of n #} \<and>
    (\<forall>j < 512. pte_at st' n j = (if j < 256 then 0 else pte_at st (get_pml4 st cr3) j)) \<and>
    (\<forall>va. PML4_INDEX va < 256 \<longrightarrow> translate st' n va = None)"
proof -
  obtain n sa F1 where k: "kalloc st 1 = Some (n, sa)" "n \<noteq> 0" "pg_aligned n" "buddy_ok sa F1"
    "F = F1 + {# page_of n #}" "pg_frame F (kbytes st) (kbytes sa)" "same_cpu st sa"
    using kalloc_page [OF assms(1,2)] by blast
  let ?k = "get_pml4 st cr3"
  let ?sb = "sa\<lparr>kbytes := memset (kbytes sa) n 0 4096\<rparr>"
  let ?sc = "copy_entries ?sb n ?k [256..<512]"
  have hh: "khhdm ?sb = khhdm st" using k(7) by (simp add: same_cpu_def)
  then have kk: "get_pml4 ?sb cr3 = ?k" by (simp add: get_pml4_def PHYS_TO_VIRT_def)
  have ka: "pg_aligned ?k"
    unfolding get_pml4_def PHYS_TO_VIRT_def by (rule pg_aligned_add [OF pg_aligned_frame assms(3)])
  have kn: "page_of ?k \<noteq> page_of n" using assms(4) k(5) by auto
  have "once (F1 + {# page_of n #})"
    using assms(1) k(5) by (auto simp: buddy_ok_def buddy_rel_def)
  then have n1: "p \<noteq> page_of n" if "p \<in># F1" for p using once_disjoint that by fastforce
  note mf = memset_page_frame [OF k(3), of "kbytes sa" 0]
  have okb: "buddy_ok ?sb F1" by (rule buddy_ok_frame [OF k(4) mf]) (use n1 in auto)
  have ce: "pte_at ?sc n j = (if 256 \<le> unat j then pte_at ?sb ?k j else pte_at ?sb n j)"
    "pg_frame {# page_of n #} (kbytes ?sb) (kbytes ?sc)" if "j < 512" for j
    using copy_entries_apply [OF k(3) ka kn _ _ that, of 512 256 ?sb] that
    by (simp_all add: word_less_nat_alt)
  have fr: "pg_frame {# page_of n #} (kbytes ?sb) (kbytes ?sc)" using ce(2) [of 0] by simp
  have "page_of n \<notin># F1" using n1 by blast
  then have okc: "buddy_ok ?sc F1" by (intro copy_entries_ok [OF okb k(3)]) simp_all
  have kb: "pte_at ?sb ?k j = pte_at st ?k j" if "j < 512" for j
    by (rule pte_at_cong [OF ka that]) (use k(6) mf assms(4) kn in \<open>auto simp: pg_frame_def\<close>)
  have nb: "pte_at ?sb n j = 0" if "j < 512" for j
    by (rule zero_table [OF k(3) that]) (simp add: memset_page_zero [OF k(3)])
  have ent: "pte_at ?sc n j = (if j < 256 then 0 else pte_at st ?k j)" if "j < 512" for j
    using ce(1) [OF that] kb [OF that] nb [OF that] by (simp add: word_less_nat_alt)
  have "translate ?sc n va = None" if "PML4_INDEX va < 256" for va
  proof -
    have "pte_at ?sc n (PML4_INDEX va) = 0"
      using ent [of "PML4_INDEX va"] that va_indices_bound(1) [of va] by (simp add: va_indices_def)
    then show ?thesis
      by (simp add: translate_def va_indices_def pte_at_def present_def Let_def)
  qed
  moreover have "create_user_pml4 st cr3 = Some (n, ?sc)"
    using k(1,2) kk by (simp add: create_user_pml4_def Let_def)
  ultimately show ?thesis
    using k(2,5) okc ent by (intro exI [of _ n] exI [of _ ?sc] exI [of _ F1]) simp
qed

end
