(* ===== verification/KString.thy ===== *)
theory KString
  imports Kernel_Prelude
begin

text \<open>
  The string functions of \<^verbatim>\<open>kernel/string.c\<close>. A C string is the list of its bytes before
  the terminator; reading at its length gives the terminator, and no function here reads
  further. A possibly null pointer is an \<open>option\<close>.
\<close>

section \<open>Model\<close>

type_synonym cstr = "u8 list"

definition ch :: "cstr \<Rightarrow> nat \<Rightarrow> u8" where
  "ch s i = (if i < length s then s ! i else 0)"

function strlen_from :: "cstr \<Rightarrow> nat \<Rightarrow> nat" where
  "strlen_from s n = (if ch s n \<noteq> 0 then strlen_from s (n + 1) else n)"
  by pat_completeness auto
termination
  by (relation "measure (\<lambda>(s, n). length s - n)") (auto simp: ch_def split: if_splits)

definition kstrlen :: "cstr option \<Rightarrow> u64" where
  "kstrlen s = (case s of None \<Rightarrow> 0 | Some s \<Rightarrow> word_of_nat (strlen_from s 0))"

function strcmp_from :: "cstr \<Rightarrow> cstr \<Rightarrow> nat \<Rightarrow> i32" where
  "strcmp_from a b i =
     (if ch a i \<noteq> 0 \<and> ch a i = ch b i then strcmp_from a b (i + 1)
      else ucast (ch a i) - ucast (ch b i))"
  by pat_completeness auto
termination
  by (relation "measure (\<lambda>(a, b, i). length a - i)") (auto simp: ch_def split: if_splits)

text \<open>Equal pointers are equal strings here, for which the loop gives 0 as well.\<close>

definition kstrcmp :: "cstr option \<Rightarrow> cstr option \<Rightarrow> i32" where
  "kstrcmp a b =
     (if a = b then 0
      else case a of None \<Rightarrow> - 1
        | Some x \<Rightarrow> (case b of None \<Rightarrow> 1 | Some y \<Rightarrow> strcmp_from x y 0))"

function nlit_from :: "cstr \<Rightarrow> nat \<Rightarrow> cstr \<Rightarrow> nat \<Rightarrow> u8" where
  "nlit_from s len lit i =
     (if i < len \<and> ch lit i \<noteq> 0 then
        if ch s i \<noteq> ch lit i then 0 else nlit_from s len lit (i + 1)
      else if i = len \<and> ch lit i = 0 then 1 else 0)"
  by pat_completeness auto
termination by (relation "measure (\<lambda>(s, len, lit, i). len - i)") auto

definition kstreq_nlit :: "cstr \<Rightarrow> u64 \<Rightarrow> cstr \<Rightarrow> u8" where
  "kstreq_nlit s len lit = nlit_from s (unat len) lit 0"

declare strlen_from.simps [simp del] strcmp_from.simps [simp del] nlit_from.simps [simp del]

section \<open>Lemmas\<close>

definition wf_cstr :: "cstr \<Rightarrow> bool" where
  "wf_cstr s \<longleftrightarrow> 0 \<notin> set s \<and> length s < 2 ^ 63"

lemma ch_end [simp]: "ch s (length s) = 0"
  by (simp add: ch_def)

lemma ch_nonzero: "wf_cstr s \<Longrightarrow> i < length s \<Longrightarrow> ch s i \<noteq> 0"
  by (auto simp: ch_def wf_cstr_def in_set_conv_nth)

lemma strlen_from_eq: "wf_cstr s \<Longrightarrow> n \<le> length s \<Longrightarrow> strlen_from s n = length s"
proof (induction "length s - n" arbitrary: n rule: less_induct)
  case less
  show ?case
  proof (cases "n = length s")
    case False
    then show ?thesis
      using less ch_nonzero [of s n] by (subst strlen_from.simps) simp
  qed (subst strlen_from.simps, simp)
qed

lemma kstrlen_eq: "wf_cstr s \<Longrightarrow> unat (kstrlen (Some s)) = length s"
  by (simp add: kstrlen_def strlen_from_eq unat_of_nat_id wf_cstr_def)

text \<open>The first difference decides, as unsigned bytes.\<close>

fun str_less :: "cstr \<Rightarrow> cstr \<Rightarrow> bool" where
  "str_less [] bs \<longleftrightarrow> bs \<noteq> []"
| "str_less (a # as) [] \<longleftrightarrow> False"
| "str_less (a # as) (b # bs) \<longleftrightarrow> a < b \<or> a = b \<and> str_less as bs"

lemma ch_Cons [simp]: "ch (x # a) 0 = x" "ch (x # a) (Suc i) = ch a i" "ch [] i = 0"
  by (simp_all add: ch_def)

lemma strcmp_Suc: "strcmp_from (x # a) (y # b) (Suc i) = strcmp_from a b i"
proof (induction "length a - i" arbitrary: i rule: less_induct)
  case less
  show ?case
  proof (cases "ch a i \<noteq> 0 \<and> ch a i = ch b i")
    case True
    then have "i < length a" by (auto simp: ch_def split: if_splits)
    then have "strcmp_from (x # a) (y # b) (Suc (Suc i)) = strcmp_from a b (Suc i)"
      by (intro less.hyps) simp
    then show ?thesis
      using True by (simp add: strcmp_from.simps [of "x # a"] strcmp_from.simps [of a])
  next
    case False
    then show ?thesis
      by (subst strcmp_from.simps [of "x # a"], subst strcmp_from.simps [of a]) auto
  qed
qed

lemma strcmp_Nil: "strcmp_from [] b 0 = - ucast (ch b 0)" "strcmp_from a [] 0 = ucast (ch a 0)"
  by (simp_all add: strcmp_from.simps [of _ _ 0])

lemma strcmp_Cons:
  "strcmp_from (x # a) (y # b) 0 =
     (if x \<noteq> 0 \<and> x = y then strcmp_from a b 0 else ucast x - ucast y)"
  by (simp add: strcmp_from.simps [of "x # a"] strcmp_Suc)

lemma byte_diff:
  fixes x y :: u8
  shows "(ucast x - ucast y :: i32) = 0 \<longleftrightarrow> x = y" "(ucast x - ucast y :: i32) <s 0 \<longleftrightarrow> x < y"
proof -
  have b: "unat x < 256" "unat y < 256" using unat_lt [of x] unat_lt [of y] by simp_all
  have u: "unat (ucast x :: i32) = unat x" "unat (ucast y :: i32) = unat y"
    by (simp_all add: unsigned_ucast_eq take_bit_nat_eq_self less_le_trans [OF b(1)] less_le_trans [OF b(2)])
  show "(ucast x - ucast y :: i32) = 0 \<longleftrightarrow> x = y"
    using u by (simp add: word_unat_eq_iff [of x y] word_unat_eq_iff [of "ucast x :: i32" "ucast y"])
  define k where "k = int (unat x) - int (unat y)"
  have e: "(ucast x - ucast y :: i32) = word_of_int k"
    by (simp add: k_def flip: u)
  have "- 256 < k" "k < 256" using b by (simp_all add: k_def del: of_nat_unat)
  then have "sint (word_of_int k :: i32) = k"
    by (simp add: signed_of_int signed_take_bit_int_eq_self)
  then have "sint (ucast x - ucast y :: i32) = int (unat x) - int (unat y)"
    unfolding e by (simp only: k_def)
  then show "(ucast x - ucast y :: i32) <s 0 \<longleftrightarrow> x < y"
    by (simp add: word_sless_alt word_less_def)
qed

lemma strcmp_sign:
  "wf_cstr a \<Longrightarrow> wf_cstr b \<Longrightarrow>
     (strcmp_from a b 0 = 0 \<longleftrightarrow> a = b) \<and> (strcmp_from a b 0 <s 0 \<longleftrightarrow> str_less a b)"
proof (induction a b rule: str_less.induct)
  case (1 bs)
  show ?case
  proof (cases bs)
    case (Cons y ys)
    then have "y \<noteq> 0" using 1 by (auto simp: wf_cstr_def)
    then show ?thesis using byte_diff [of 0 y] Cons by (simp add: strcmp_Nil word_gt_0)
  qed (simp add: strcmp_Nil)
next
  case (2 a as)
  then have "a \<noteq> 0" by (auto simp: wf_cstr_def)
  then show ?case using byte_diff [of a 0] by (simp add: strcmp_Nil)
next
  case (3 a as b bs)
  then have "a \<noteq> 0" "wf_cstr as" "wf_cstr bs" by (auto simp: wf_cstr_def)
  then show ?case using 3 byte_diff [of a b] by (auto simp: strcmp_Cons)
qed

lemma nlit_Suc: "nlit_from (x # s) (Suc len) (y # lit) (Suc i) = nlit_from s len lit i"
proof (induction "len - i" arbitrary: i rule: less_induct)
  case less
  show ?case
  proof (cases "i < len \<and> ch lit i \<noteq> 0 \<and> ch s i = ch lit i")
    case True
    then have "nlit_from (x # s) (Suc len) (y # lit) (Suc (Suc i)) = nlit_from s len lit (Suc i)"
      by (intro less.hyps) auto
    then show ?thesis
      using True by (simp add: nlit_from.simps [of "x # s"] nlit_from.simps [of s])
  next
    case False
    then show ?thesis
      by (subst nlit_from.simps [of "x # s"], subst nlit_from.simps [of s]) auto
  qed
qed

lemma nlit_eq: "wf_cstr lit \<Longrightarrow> len \<le> length s \<Longrightarrow> nlit_from s len lit 0 = (if take len s = lit then 1 else 0)"
proof (induction lit arbitrary: s len)
  case Nil
  then show ?case by (cases len; cases s) (auto simp: nlit_from.simps [of _ _ "[]"])
next
  case (Cons y lit)
  have y: "y \<noteq> 0" "wf_cstr lit" using Cons.prems(1) by (auto simp: wf_cstr_def)
  show ?case
  proof (cases len)
    case 0
    then show ?thesis using y by (simp add: nlit_from.simps [of _ 0])
  next
    case (Suc n)
    then obtain x xs where s: "s = x # xs" using Cons.prems(2) by (cases s) auto
    then show ?thesis
      using Cons.IH [OF y(2), of n xs] Cons.prems(2) y Suc
      by (simp add: nlit_from.simps [of "x # xs"] nlit_Suc)
  qed
qed

section \<open>Properties\<close>

text \<open>
  On C strings (no inner NUL), \<^verbatim>\<open>kstrcmp\<close> is 0 exactly for equal strings, and negative
  exactly when the first is smaller in the lexicographic order of unsigned bytes, a proper
  prefix being smaller; null pointers come first.
\<close>

lemma kstrcmp_spec:
  assumes "wf_cstr a" and "wf_cstr b"
  shows "(kstrcmp (Some a) (Some b) = 0 \<longleftrightarrow> a = b) \<and>
    (kstrcmp (Some a) (Some b) <s 0 \<longleftrightarrow> str_less a b) \<and>
    kstrcmp None (Some b) = - 1 \<and> kstrcmp (Some a) None = 1"
proof -
  have "\<not> str_less a a" by (induction a) simp_all
  then show ?thesis
    using strcmp_sign [OF assms] by (auto simp: kstrcmp_def word_sless_alt)
qed

end
