(* ===== verification/Vfs.thy ===== *)
theory Vfs
  imports KString Buddy_Spec
begin

text \<open>
  The virtual file system of \<^verbatim>\<open>kernel/vfs.c\<close>. The structures of \<^verbatim>\<open>vfs.h\<close> are records in typed
  heaps, one per structure, keyed by address (0 is NULL); objects the VFS allocates come from
  the page allocator. The operation tables a file system supplies are an argument: a table
  address leads to functions on the whole state, absent where the pointer is NULL. A function
  is \<open>None\<close> where the code does not return (a list walk on a cycle, an allocator that halts).
\<close>

section \<open>Structures\<close>

type_synonym addr = u64

record vinode =
  ino :: u64
  imode :: u32
  irefcnt :: u32
  isb :: addr
  iops :: addr
  fops :: addr
  ipriv :: addr

record vdentry =
  drefcnt :: u32
  dname :: cstr
  dname_len :: u16
  dinode :: addr
  dparent :: addr
  dis_mountpoint :: u8
  dpriv :: addr

record vsuper =
  sbflags :: u32
  sbrefcnt :: u32
  sbtype :: addr
  sbroot :: addr
  sbpriv :: addr

record vmount =
  mflags :: u32
  mrefcnt :: u32
  msb :: addr
  mmountpoint :: addr
  mroot :: addr
  mnext :: addr

record vfile =
  frefcnt :: u32
  fflags :: u32
  fpos :: u64
  finode :: addr
  ffops :: addr
  fpriv :: addr

record vfstype =
  tname :: "cstr option"
  tmount :: addr
  tunmount :: addr
  tnext :: addr

record vstat =
  st_ino :: u64
  st_mode :: u32
  st_nlink :: u32
  st_uid :: u32
  st_gid :: u32
  st_size :: u64
  st_blocks :: u64
  st_atime :: u64
  st_mtime :: u64
  st_ctime :: u64

record vfs =
  vk :: kmem
  inodes :: "addr \<Rightarrow> vinode"
  dents :: "addr \<Rightarrow> vdentry"
  supers :: "addr \<Rightarrow> vsuper"
  mounts :: "addr \<Rightarrow> vmount"
  files :: "addr \<Rightarrow> vfile"
  fstypes :: "addr \<Rightarrow> vfstype"
  g_fs_types :: addr
  g_mounts :: addr
  g_root_mnt :: addr
  g_root_dent :: addr

text \<open>The operation tables. \<^verbatim>\<open>read\<close> and \<^verbatim>\<open>write\<close> are always called with the address of the
  file's own position, which they update in the state.\<close>

record 's viops =
  op_lookup :: "('s \<Rightarrow> addr \<Rightarrow> addr \<Rightarrow> (i32 \<times> 's) option) option"
  op_create :: "('s \<Rightarrow> addr \<Rightarrow> addr \<Rightarrow> u32 \<Rightarrow> (i32 \<times> 's) option) option"
  op_mkdir :: "('s \<Rightarrow> addr \<Rightarrow> addr \<Rightarrow> u32 \<Rightarrow> (i32 \<times> 's) option) option"
  op_unlink :: "('s \<Rightarrow> addr \<Rightarrow> addr \<Rightarrow> (i32 \<times> 's) option) option"
  op_getattr :: "('s \<Rightarrow> addr \<Rightarrow> (i32 \<times> vstat \<times> 's) option) option"

record 's vfops =
  op_open :: "('s \<Rightarrow> addr \<Rightarrow> addr \<Rightarrow> (i32 \<times> 's) option) option"
  op_close :: "('s \<Rightarrow> addr \<Rightarrow> (i32 \<times> 's) option) option"
  op_read :: "('s \<Rightarrow> addr \<Rightarrow> addr \<Rightarrow> u64 \<Rightarrow> (i64 \<times> 's) option) option"
  op_write :: "('s \<Rightarrow> addr \<Rightarrow> addr \<Rightarrow> u64 \<Rightarrow> (i64 \<times> 's) option) option"
  op_llseek :: "('s \<Rightarrow> addr \<Rightarrow> u64 \<Rightarrow> i32 \<Rightarrow> (u64 \<times> 's) option) option"

record 's vtables =
  iops_of :: "addr \<Rightarrow> 's viops"
  fops_of :: "addr \<Rightarrow> 's vfops"
  mount_of :: "addr \<Rightarrow> 's \<Rightarrow> addr \<Rightarrow> addr \<Rightarrow> cstr option \<Rightarrow> (i32 \<times> 's) option"
  unmount_of :: "addr \<Rightarrow> 's \<Rightarrow> addr \<Rightarrow> 's option"

abbreviation (input) VFS_OK :: "'a::len word" where "VFS_OK \<equiv> 0"
abbreviation (input) VFS_EINVAL :: "'a::len word" where "VFS_EINVAL \<equiv> - 22"
abbreviation (input) VFS_ENOENT :: "'a::len word" where "VFS_ENOENT \<equiv> - 2"
abbreviation (input) VFS_ENOTDIR :: "'a::len word" where "VFS_ENOTDIR \<equiv> - 20"
abbreviation (input) VFS_EEXIST :: "'a::len word" where "VFS_EEXIST \<equiv> - 17"
abbreviation (input) VFS_ENOSYS :: "'a::len word" where "VFS_ENOSYS \<equiv> - 38"
abbreviation (input) VFS_ENOMEM :: "'a::len word" where "VFS_ENOMEM \<equiv> - 12"
abbreviation (input) VFS_EBUSY :: "'a::len word" where "VFS_EBUSY \<equiv> - 16"
abbreviation (input) VFS_S_IFMT :: u32 where "VFS_S_IFMT \<equiv> 0xF000"
abbreviation (input) VFS_S_IFREG :: u32 where "VFS_S_IFREG \<equiv> 0x8000"
abbreviation (input) VFS_S_IFDIR :: u32 where "VFS_S_IFDIR \<equiv> 0x4000"
abbreviation (input) VFS_S_IFCHR :: u32 where "VFS_S_IFCHR \<equiv> 0x2000"
abbreviation (input) VFS_O_CREAT :: u32 where "VFS_O_CREAT \<equiv> 0x100"
abbreviation (input) VFS_SEEK_SET :: i32 where "VFS_SEEK_SET \<equiv> 0"
abbreviation (input) VFS_SEEK_CUR :: i32 where "VFS_SEEK_CUR \<equiv> 1"
abbreviation (input) VFS_SEEK_END :: i32 where "VFS_SEEK_END \<equiv> 2"

definition upd_inode :: "addr \<Rightarrow> (vinode \<Rightarrow> vinode) \<Rightarrow> 'x vfs_scheme \<Rightarrow> 'x vfs_scheme" where
  "upd_inode a f s = s\<lparr>inodes := (inodes s)(a := f (inodes s a))\<rparr>"

definition upd_dent :: "addr \<Rightarrow> (vdentry \<Rightarrow> vdentry) \<Rightarrow> 'x vfs_scheme \<Rightarrow> 'x vfs_scheme" where
  "upd_dent a f s = s\<lparr>dents := (dents s)(a := f (dents s a))\<rparr>"

definition upd_super :: "addr \<Rightarrow> (vsuper \<Rightarrow> vsuper) \<Rightarrow> 'x vfs_scheme \<Rightarrow> 'x vfs_scheme" where
  "upd_super a f s = s\<lparr>supers := (supers s)(a := f (supers s a))\<rparr>"

definition upd_mount :: "addr \<Rightarrow> (vmount \<Rightarrow> vmount) \<Rightarrow> 'x vfs_scheme \<Rightarrow> 'x vfs_scheme" where
  "upd_mount a f s = s\<lparr>mounts := (mounts s)(a := f (mounts s a))\<rparr>"

definition upd_file :: "addr \<Rightarrow> (vfile \<Rightarrow> vfile) \<Rightarrow> 'x vfs_scheme \<Rightarrow> 'x vfs_scheme" where
  "upd_file a f s = s\<lparr>files := (files s)(a := f (files s a))\<rparr>"

definition upd_fstype :: "addr \<Rightarrow> (vfstype \<Rightarrow> vfstype) \<Rightarrow> 'x vfs_scheme \<Rightarrow> 'x vfs_scheme" where
  "upd_fstype a f s = s\<lparr>fstypes := (fstypes s)(a := f (fstypes s a))\<rparr>"

definition page_alloc1 :: "'x vfs_scheme \<Rightarrow> (addr \<times> 'x vfs_scheme) option" where
  "page_alloc1 s = do { (p, k) \<leftarrow> kalloc (vk s) 1; Some (p, s\<lparr>vk := k\<rparr>) }"

definition page_free1 :: "'x vfs_scheme \<Rightarrow> addr \<Rightarrow> 'x vfs_scheme option" where
  "page_free1 s p = do { k \<leftarrow> kfree (vk s) p 1; Some (s\<lparr>vk := k\<rparr>) }"

definition zero_super :: vsuper where
  "zero_super = \<lparr>sbflags = 0, sbrefcnt = 0, sbtype = 0, sbroot = 0, sbpriv = 0\<rparr>"

definition zero_mount :: vmount where
  "zero_mount = \<lparr>mflags = 0, mrefcnt = 0, msb = 0, mmountpoint = 0, mroot = 0, mnext = 0\<rparr>"

definition zero_file :: vfile where
  "zero_file = \<lparr>frefcnt = 0, fflags = 0, fpos = 0, finode = 0, ffops = 0, fpriv = 0\<rparr>"

section \<open>Reference counts\<close>

definition vfs_inode_get :: "addr \<Rightarrow> 'x vfs_scheme \<Rightarrow> 'x vfs_scheme" where
  "vfs_inode_get i s = (if i \<noteq> 0 then upd_inode i (\<lambda>n. n\<lparr>irefcnt := irefcnt n + 1\<rparr>) s else s)"

definition vfs_inode_put :: "addr \<Rightarrow> 'x vfs_scheme \<Rightarrow> 'x vfs_scheme" where
  "vfs_inode_put i s = (if i = 0 then s else upd_inode i (\<lambda>n. n\<lparr>irefcnt := irefcnt n - 1\<rparr>) s)"

definition vfs_dentry_get :: "addr \<Rightarrow> 'x vfs_scheme \<Rightarrow> 'x vfs_scheme" where
  "vfs_dentry_get d s = (if d \<noteq> 0 then upd_dent d (\<lambda>e. e\<lparr>drefcnt := drefcnt e + 1\<rparr>) s else s)"

definition vfs_dentry_put :: "addr \<Rightarrow> 'x vfs_scheme \<Rightarrow> 'x vfs_scheme option" where
  "vfs_dentry_put d s =
     (if d = 0 then Some s
      else let s1 = upd_dent d (\<lambda>e. e\<lparr>drefcnt := drefcnt e - 1\<rparr>) s in
        if drefcnt (dents s1 d) = 0 \<and> dparent (dents s1 d) = 0 then
          page_free1 (if dinode (dents s1 d) \<noteq> 0 then vfs_inode_put (dinode (dents s1 d)) s1 else s1) d
        else Some s1)"

definition vfs_file_get :: "addr \<Rightarrow> 'x vfs_scheme \<Rightarrow> 'x vfs_scheme" where
  "vfs_file_get f s = (if f \<noteq> 0 then upd_file f (\<lambda>e. e\<lparr>frefcnt := frefcnt e + 1\<rparr>) s else s)"

definition vfs_file_put :: "addr \<Rightarrow> 'x vfs_scheme \<Rightarrow> 'x vfs_scheme option" where
  "vfs_file_put f s =
     (if f = 0 then Some s
      else let s1 = upd_file f (\<lambda>e. e\<lparr>frefcnt := frefcnt e - 1\<rparr>) s in
        if frefcnt (files s1 f) = 0 then
          page_free1 (if finode (files s1 f) \<noteq> 0 then vfs_inode_put (finode (files s1 f)) s1 else s1) f
        else Some s1)"

definition vfs_init :: "'x vfs_scheme \<Rightarrow> 'x vfs_scheme" where
  "vfs_init s = s\<lparr>g_fs_types := 0, g_mounts := 0, g_root_mnt := 0, g_root_dent := 0\<rparr>"

definition vfs_set_root :: "addr \<Rightarrow> addr \<Rightarrow> 'x vfs_scheme \<Rightarrow> i32 \<times> 'x vfs_scheme" where
  "vfs_set_root mnt root s =
     (if mnt = 0 \<or> root = 0 then (VFS_EINVAL, s)
      else (VFS_OK, s\<lparr>g_root_mnt := mnt, g_root_dent := root\<rparr>))"

section \<open>The registry of file systems\<close>

partial_function (option) find_fs_from :: "'x vfs_scheme \<Rightarrow> cstr option \<Rightarrow> addr \<Rightarrow> addr option" where
  "find_fs_from s name it =
     (if it = 0 then Some 0
      else if tname (fstypes s it) \<noteq> None \<and> name \<noteq> None \<and>
              kstrcmp (tname (fstypes s it)) name = 0 then Some it
      else find_fs_from s name (tnext (fstypes s it)))"

definition vfs_find_fs :: "'x vfs_scheme \<Rightarrow> cstr option \<Rightarrow> addr option" where
  "vfs_find_fs s name = find_fs_from s name (g_fs_types s)"

definition vfs_register_fs :: "addr \<Rightarrow> 'x vfs_scheme \<Rightarrow> (i32 \<times> 'x vfs_scheme) option" where
  "vfs_register_fs t s =
     (if t = 0 \<or> tname (fstypes s t) = None \<or> tmount (fstypes s t) = 0 then Some (VFS_EINVAL, s)
      else do {
        found \<leftarrow> vfs_find_fs s (tname (fstypes s t));
        if found \<noteq> 0 then Some (VFS_EEXIST, s)
        else Some (VFS_OK, (upd_fstype t (\<lambda>e. e\<lparr>tnext := g_fs_types s\<rparr>) s)\<lparr>g_fs_types := t\<rparr>)
      })"

partial_function (option) fs_mounted_from :: "'x vfs_scheme \<Rightarrow> addr \<Rightarrow> addr \<Rightarrow> bool option" where
  "fs_mounted_from s t m =
     (if m = 0 then Some False
      else if msb (mounts s m) \<noteq> 0 \<and> sbtype (supers s (msb (mounts s m))) = t then Some True
      else fs_mounted_from s t (mnext (mounts s m)))"

text \<open>\<open>prev = 0\<close> is the list head, another \<open>prev\<close> the \<^verbatim>\<open>next\<close> field of that element.\<close>

partial_function (option) fs_unlink_from ::
  "'x vfs_scheme \<Rightarrow> addr \<Rightarrow> addr \<Rightarrow> (i32 \<times> 'x vfs_scheme) option" where
  "fs_unlink_from s t prev =
     (let cur = (if prev = 0 then g_fs_types s else tnext (fstypes s prev)) in
      if cur = 0 then Some (VFS_ENOENT, s)
      else if cur = t then
        let nxt = tnext (fstypes s t);
            s1 = (if prev = 0 then s\<lparr>g_fs_types := nxt\<rparr>
                  else upd_fstype prev (\<lambda>e. e\<lparr>tnext := nxt\<rparr>) s)
        in Some (VFS_OK, upd_fstype t (\<lambda>e. e\<lparr>tnext := 0\<rparr>) s1)
      else fs_unlink_from s t cur)"

definition vfs_unregister_fs :: "addr \<Rightarrow> 'x vfs_scheme \<Rightarrow> (i32 \<times> 'x vfs_scheme) option" where
  "vfs_unregister_fs t s =
     (if t = 0 then Some (VFS_EINVAL, s)
      else do {
        busy \<leftarrow> fs_mounted_from s t (g_mounts s);
        if busy then Some (VFS_EBUSY, s) else fs_unlink_from s t 0
      })"

section \<open>Path walking\<close>

definition vfs_is_dir :: "'x vfs_scheme \<Rightarrow> addr \<Rightarrow> bool" where
  "vfs_is_dir s i \<longleftrightarrow> i \<noteq> 0 \<and> imode (inodes s i) AND VFS_S_IFMT = VFS_S_IFDIR"

partial_function (option) find_mp_from :: "'x vfs_scheme \<Rightarrow> addr \<Rightarrow> addr \<Rightarrow> addr option" where
  "find_mp_from s mp m =
     (if m = 0 then Some 0 else if mmountpoint (mounts s m) = mp then Some m
      else find_mp_from s mp (mnext (mounts s m)))"

definition vfs_find_mount_by_mountpoint :: "'x vfs_scheme \<Rightarrow> addr \<Rightarrow> addr option" where
  "vfs_find_mount_by_mountpoint s mp = find_mp_from s mp (g_mounts s)"

partial_function (option) find_mi_from :: "'x vfs_scheme \<Rightarrow> addr \<Rightarrow> addr \<Rightarrow> addr option" where
  "find_mi_from s i m =
     (if m = 0 then Some 0
      else let d = mmountpoint (mounts s m); j = dinode (dents s d) in
        if d \<noteq> 0 \<and> j \<noteq> 0 \<and> ino (inodes s j) = ino (inodes s i) \<and>
           isb (inodes s j) = isb (inodes s i) then Some m
        else find_mi_from s i (mnext (mounts s m)))"

definition vfs_find_mount_by_inode :: "'x vfs_scheme \<Rightarrow> addr \<Rightarrow> addr option" where
  "vfs_find_mount_by_inode s i = (if i = 0 then Some 0 else find_mi_from s i (g_mounts s))"

text \<open>A name is given with its length, at most the bytes there are.\<close>

definition vfs_tmp_dentry :: "cstr \<Rightarrow> addr \<Rightarrow> 'x vfs_scheme \<Rightarrow> (addr \<times> 'x vfs_scheme) option" where
  "vfs_tmp_dentry name parent s =
     (if 256 \<le> length name then Some (0, s)
      else do {
        (d, s1) \<leftarrow> page_alloc1 s;
        if d = 0 then Some (0, s1)
        else Some (d, upd_dent d (\<lambda>_. \<lparr>drefcnt = 1, dname = name,
               dname_len = word_of_nat (length name), dinode = 0, dparent = parent,
               dis_mountpoint = 0, dpriv = 0\<rparr>) s1)
      })"

abbreviation (input) slash :: u8 where "slash \<equiv> 47"
abbreviation (input) dot :: u8 where "dot \<equiv> 46"

fun skip_slashes :: "cstr \<Rightarrow> cstr" where
  "skip_slashes [] = []"
| "skip_slashes (c # s) = (if c = slash then skip_slashes s else c # s)"

fun until_slash :: "cstr \<Rightarrow> cstr \<times> cstr" where
  "until_slash [] = ([], [])"
| "until_slash (c # s) =
     (if c \<noteq> slash then (let (a, b) = until_slash s in (c # a, b)) else ([], c # s))"

text \<open>A pointer into the path is the rest of the path from there; the component is the bytes
  \<^verbatim>\<open>out_s\<close> and \<^verbatim>\<open>out_len\<close> describe.\<close>

definition vfs_next_component :: "cstr \<Rightarrow> cstr \<times> cstr" where
  "vfs_next_component p =
     (let s = skip_slashes p in
      if s = [] then ([], s)
      else let (cname, s') = until_slash s in (cname, skip_slashes s'))"

fun comp_loop :: "cstr \<Rightarrow> cstr \<Rightarrow> nat \<Rightarrow> nat \<Rightarrow> bool" where
  "comp_loop s lit i 0 = True"
| "comp_loop s lit i (Suc k) = (if ch s i \<noteq> ch lit i then False else comp_loop s lit (i + 1) k)"

definition vfs_comp_eq :: "cstr \<Rightarrow> cstr \<Rightarrow> bool" where
  "vfs_comp_eq cname lit =
     (if kstrlen (Some lit) \<noteq> word_of_nat (length cname) then False
      else comp_loop cname lit 0 (length cname))"

text \<open>\<open>vfs_lookup_child\<close> returns the status, the possibly changed mount and directory, and the
  child.\<close>

definition vfs_lookup_child :: "'x vfs_scheme vtables \<Rightarrow> addr \<Rightarrow> addr \<Rightarrow> cstr \<Rightarrow> 'x vfs_scheme \<Rightarrow>
    ((i32 \<times> addr \<times> addr \<times> addr) \<times> 'x vfs_scheme) option" where
  "vfs_lookup_child T mnt dir_dent name s =
     (let dir_ino = dinode (dents s dir_dent) in
      if \<not> vfs_is_dir s dir_ino then Some ((VFS_ENOTDIR, mnt, dir_dent, 0), s)
      else case (if iops (inodes s dir_ino) = 0 then None
                 else op_lookup (iops_of T (iops (inodes s dir_ino)))) of
        None \<Rightarrow> Some ((VFS_ENOSYS, mnt, dir_dent, 0), s)
      | Some look \<Rightarrow> do {
          (child, s1) \<leftarrow> vfs_tmp_dentry name dir_dent s;
          if child = 0 then Some ((VFS_ENOMEM, mnt, dir_dent, 0), s1)
          else do {
            (rc, s2) \<leftarrow> look s1 dir_ino child;
            if rc <s 0 then do { s3 \<leftarrow> vfs_dentry_put child s2; Some ((rc, mnt, dir_dent, 0), s3) }
            else if dinode (dents s2 child) = 0
            then do { s3 \<leftarrow> vfs_dentry_put child s2; Some ((VFS_ENOENT, mnt, dir_dent, 0), s3) }
            else do {
              sub \<leftarrow> vfs_find_mount_by_inode s2 (dinode (dents s2 child));
              if sub \<noteq> 0 \<and> mroot (mounts s2 sub) \<noteq> 0 then do {
                s3 \<leftarrow> vfs_dentry_put child s2;
                Some ((VFS_OK, sub, mroot (mounts s2 sub), mroot (mounts s2 sub)), s3)
              } else Some ((VFS_OK, mnt, dir_dent, child), s2)
            }
          }
        })"

definition dotdot :: "'x vfs_scheme \<Rightarrow> addr \<Rightarrow> addr \<Rightarrow> addr" where
  "dotdot s mnt cur =
     (if cur = mroot (mounts s mnt) \<and> mmountpoint (mounts s mnt) \<noteq> 0 then mmountpoint (mounts s mnt)
      else if dparent (dents s cur) \<noteq> 0 then dparent (dents s cur) else cur)"

text \<open>Where a walk starts: the root, or the file system mounted over it.\<close>

definition walk_start :: "'x vfs_scheme \<Rightarrow> (addr \<times> addr) option" where
  "walk_start s =
     (if dis_mountpoint (dents s (g_root_dent s)) \<noteq> 0 then do {
        overlay \<leftarrow> vfs_find_mount_by_mountpoint s (g_root_dent s);
        Some (if overlay \<noteq> 0 then (overlay, mroot (mounts s overlay)) else (g_root_mnt s, g_root_dent s))
      } else Some (g_root_mnt s, g_root_dent s))"

partial_function (option) lookup_loop :: "'x vfs_scheme vtables \<Rightarrow> addr \<Rightarrow> addr \<Rightarrow> cstr \<Rightarrow>
    'x vfs_scheme \<Rightarrow> ((i32 \<times> addr \<times> addr) \<times> 'x vfs_scheme) option" where
  "lookup_loop T mnt cur p s =
     (let (cname, p1) = vfs_next_component p in
      if cname = [] then Some ((VFS_OK, mnt, cur), s)
      else if vfs_comp_eq cname [dot] then lookup_loop T mnt cur p1 s
      else if vfs_comp_eq cname [dot, dot] then lookup_loop T mnt (dotdot s mnt cur) p1 s
      else do {
        ((rc, mnt1, cur1, child), s1) \<leftarrow> vfs_lookup_child T mnt cur cname s;
        if rc <s 0 then Some ((rc, 0, 0), s1)
        else do {
          s2 \<leftarrow> (if cur1 \<noteq> g_root_dent s1 \<and> cur1 \<noteq> mroot (mounts s1 mnt1)
                then vfs_dentry_put cur1 s1 else Some s1);
          lookup_loop T mnt1 child p1 s2
        }
      })"

definition vfs_lookup :: "'x vfs_scheme vtables \<Rightarrow> cstr option \<Rightarrow> 'x vfs_scheme \<Rightarrow>
    ((i32 \<times> addr \<times> addr) \<times> 'x vfs_scheme) option" where
  "vfs_lookup T path s =
     (case path of None \<Rightarrow> Some ((VFS_EINVAL, 0, 0), s)
      | Some p \<Rightarrow>
          if g_root_mnt s = 0 \<or> g_root_dent s = 0 then Some ((VFS_EINVAL, 0, 0), s)
          else do { (mnt, cur) \<leftarrow> walk_start s; lookup_loop T mnt cur (skip_slashes p) s })"

partial_function (option) parent_loop :: "'x vfs_scheme vtables \<Rightarrow> addr \<Rightarrow> addr \<Rightarrow> cstr \<Rightarrow>
    'x vfs_scheme \<Rightarrow> ((i32 \<times> addr \<times> addr \<times> cstr) \<times> 'x vfs_scheme) option" where
  "parent_loop T mnt cur p s =
     (let (cname, p1) = vfs_next_component p in
      if cname = [] then Some ((VFS_OK, mnt, cur, []), s)
      else if fst (vfs_next_component p1) = [] then Some ((VFS_OK, mnt, cur, cname), s)
      else if vfs_comp_eq cname [dot] then parent_loop T mnt cur p1 s
      else if vfs_comp_eq cname [dot, dot] then parent_loop T mnt (dotdot s mnt cur) p1 s
      else do {
        ((rc, mnt1, cur1, child), s1) \<leftarrow> vfs_lookup_child T mnt cur cname s;
        if rc <s 0 then Some ((rc, 0, 0, []), s1)
        else do {
          s2 \<leftarrow> (if cur1 \<noteq> g_root_dent s1 \<and> cur1 \<noteq> mroot (mounts s1 mnt1)
                then vfs_dentry_put cur1 s1 else Some s1);
          parent_loop T mnt1 child p1 s2
        }
      })"

definition vfs_lookup_parent :: "'x vfs_scheme vtables \<Rightarrow> cstr option \<Rightarrow> 'x vfs_scheme \<Rightarrow>
    ((i32 \<times> addr \<times> addr \<times> cstr) \<times> 'x vfs_scheme) option" where
  "vfs_lookup_parent T path s =
     (case path of None \<Rightarrow> Some ((VFS_EINVAL, 0, 0, []), s)
      | Some p \<Rightarrow>
          if g_root_mnt s = 0 \<or> g_root_dent s = 0 then Some ((VFS_EINVAL, 0, 0, []), s)
          else do { (mnt, cur) \<leftarrow> walk_start s; parent_loop T mnt cur (skip_slashes p) s })"

section \<open>Mounting\<close>

definition vfs_mount :: "'x vfs_scheme vtables \<Rightarrow> cstr option \<Rightarrow> addr \<Rightarrow> cstr option \<Rightarrow> u32 \<Rightarrow>
    cstr option \<Rightarrow> 'x vfs_scheme \<Rightarrow> (i32 \<times> 'x vfs_scheme) option" where
  "vfs_mount T type_name device target_path mount_flags opts s =
     (if type_name = None \<or> target_path = None then Some (VFS_EINVAL, s)
      else do {
        type \<leftarrow> vfs_find_fs s type_name;
        if type = 0 then Some (VFS_ENOENT, s)
        else do {
          let is_root_mount = (the target_path = [slash] \<and> g_root_mnt s = 0);
          ((rc, mp_dent), s0) \<leftarrow>
            (if is_root_mount then Some ((VFS_OK, 0), s)
             else do {
               ((rc, _, d), s1) \<leftarrow> vfs_lookup T target_path s;
               Some ((if rc <s 0 then rc
                      else if d = 0 \<or> dinode (dents s1 d) = 0 then VFS_EINVAL
                      else if \<not> vfs_is_dir s1 (dinode (dents s1 d)) then VFS_ENOTDIR
                      else VFS_OK, d), s1)
             });
          if rc <s 0 then Some (rc, s0)
          else do {
            (sb, s1) \<leftarrow> page_alloc1 s0;
            if sb = 0 then Some (VFS_ENOMEM, s1)
            else do {
              let s2 = upd_super sb (\<lambda>_. zero_super\<lparr>sbrefcnt := 1, sbflags := mount_flags,
                         sbtype := type\<rparr>) s1;
              (rc, s3) \<leftarrow> mount_of T (tmount (fstypes s2 type)) s2 sb device opts;
              if rc <s 0 then do { s4 \<leftarrow> page_free1 s3 sb; Some (rc, s4) }
              else if sbroot (supers s3 sb) = 0 \<or> dinode (dents s3 (sbroot (supers s3 sb))) = 0
              then do {
                s4 \<leftarrow> (if tunmount (fstypes s3 type) \<noteq> 0
                      then unmount_of T (tunmount (fstypes s3 type)) s3 sb else Some s3);
                s5 \<leftarrow> page_free1 s4 sb;
                Some (VFS_EINVAL, s5)
              }
              else do {
                (mnt, s4) \<leftarrow> page_alloc1 s3;
                if mnt = 0 then do {
                  s5 \<leftarrow> (if tunmount (fstypes s4 type) \<noteq> 0
                        then unmount_of T (tunmount (fstypes s4 type)) s4 sb else Some s4);
                  s6 \<leftarrow> page_free1 s5 sb;
                  Some (VFS_ENOMEM, s6)
                }
                else do {
                  let s5 = upd_mount mnt (\<lambda>_. zero_mount\<lparr>mrefcnt := 1, mflags := mount_flags,
                             msb := sb, mroot := sbroot (supers s4 sb)\<rparr>) s4;
                  let s6 = (if is_root_mount
                    then s5\<lparr>g_root_mnt := mnt, g_root_dent := mroot (mounts s5 mnt)\<rparr>
                    else upd_dent mp_dent (\<lambda>d. d\<lparr>dis_mountpoint := 1\<rparr>)
                           (upd_mount mnt (\<lambda>m. m\<lparr>mmountpoint := mp_dent\<rparr>) s5));
                  Some (VFS_OK, (upd_mount mnt (\<lambda>m. m\<lparr>mnext := g_mounts s6\<rparr>) s6)\<lparr>g_mounts := mnt\<rparr>)
                }
              }
            }
          }
        }
      })"

partial_function (option) umount_from :: "'x vfs_scheme vtables \<Rightarrow> addr \<Rightarrow> addr \<Rightarrow>
    'x vfs_scheme \<Rightarrow> (i32 \<times> 'x vfs_scheme) option" where
  "umount_from T mp prev s =
     (let mnt = (if prev = 0 then g_mounts s else mnext (mounts s prev)) in
      if mnt = 0 then Some (VFS_ENOENT, s)
      else if mmountpoint (mounts s mnt) = mp then
        (if mrefcnt (mounts s mnt) \<noteq> 1 then Some (VFS_EBUSY, s)
         else
           let s1 = upd_dent mp (\<lambda>d. d\<lparr>dis_mountpoint := 0\<rparr>) s;
               nxt = mnext (mounts s1 mnt);
               s2 = (if prev = 0 then s1\<lparr>g_mounts := nxt\<rparr>
                     else upd_mount prev (\<lambda>m. m\<lparr>mnext := nxt\<rparr>) s1);
               sb = msb (mounts s2 mnt)
           in do {
             s4 \<leftarrow> (if sb \<noteq> 0 then do {
                      let t = sbtype (supers s2 sb);
                      s3 \<leftarrow> (if t \<noteq> 0 \<and> tunmount (fstypes s2 t) \<noteq> 0
                            then unmount_of T (tunmount (fstypes s2 t)) s2 sb else Some s2);
                      page_free1 s3 sb
                    } else Some s2);
             s5 \<leftarrow> page_free1 s4 mnt;
             Some (VFS_OK, s5)
           })
      else umount_from T mp mnt s)"

definition vfs_umount :: "'x vfs_scheme vtables \<Rightarrow> cstr option \<Rightarrow> 'x vfs_scheme \<Rightarrow>
    (i32 \<times> 'x vfs_scheme) option" where
  "vfs_umount T target_path s =
     (if target_path = None then Some (VFS_EINVAL, s)
      else do {
        ((rc, _, d), s1) \<leftarrow> vfs_lookup T target_path s;
        if rc <s 0 then Some (rc, s1) else umount_from T d 0 s1
      })"

section \<open>Files\<close>

text \<open>The entry of an operation table, if the table pointer is not NULL.\<close>

definition iop :: "'x vfs_scheme vtables \<Rightarrow> ('x vfs_scheme viops \<Rightarrow> 'f option) \<Rightarrow> 'x vfs_scheme \<Rightarrow>
    addr \<Rightarrow> 'f option" where
  "iop T sel s i = (if iops (inodes s i) = 0 then None else sel (iops_of T (iops (inodes s i))))"

definition fop :: "'x vfs_scheme vtables \<Rightarrow> ('x vfs_scheme vfops \<Rightarrow> 'f option) \<Rightarrow> 'x vfs_scheme \<Rightarrow>
    addr \<Rightarrow> 'f option" where
  "fop T sel s f = (if ffops (files s f) = 0 then None else sel (fops_of T (ffops (files s f))))"

text \<open>A temporary dentry that a path resolution returned is released.\<close>

definition drop_temp :: "addr \<Rightarrow> addr \<Rightarrow> 'x vfs_scheme \<Rightarrow> 'x vfs_scheme option" where
  "drop_temp mnt d s =
     (if d \<noteq> g_root_dent s \<and> mnt \<noteq> 0 \<and> d \<noteq> mroot (mounts s mnt) then vfs_dentry_put d s else Some s)"

text \<open>The two ways to find the inode: status, inode, state.\<close>

definition open_create :: "'x vfs_scheme vtables \<Rightarrow> cstr option \<Rightarrow> u32 \<Rightarrow> 'x vfs_scheme \<Rightarrow>
    ((i32 \<times> addr) \<times> 'x vfs_scheme) option" where
  "open_create T path mode s = do {
     ((rc, _, pdir, leaf), s1) \<leftarrow> vfs_lookup_parent T path s;
     let di = dinode (dents s1 pdir);
     if rc <s 0 then Some ((rc, 0), s1)
     else if leaf = [] then Some ((VFS_EINVAL, 0), s1)
     else if di = 0 \<or> \<not> vfs_is_dir s1 di then Some ((VFS_ENOTDIR, 0), s1)
     else case iop T op_create s1 di of None \<Rightarrow> Some ((VFS_ENOSYS, 0), s1)
     | Some create \<Rightarrow> do {
         (child, s2) \<leftarrow> vfs_tmp_dentry leaf pdir s1;
         if child = 0 then Some ((VFS_ENOMEM, 0), s2)
         else do {
           (rc, s3) \<leftarrow> create s2 di child mode;
           let i = dinode (dents s3 child);
           if rc <s 0 then do { s4 \<leftarrow> vfs_dentry_put child s3; Some ((rc, 0), s4) }
           else if i = 0 then do { s4 \<leftarrow> vfs_dentry_put child s3; Some ((VFS_EINVAL, 0), s4) }
           else do { s4 \<leftarrow> vfs_dentry_put child (vfs_inode_get i s3); Some ((VFS_OK, i), s4) }
         }
       }
   }"

definition open_existing :: "'x vfs_scheme vtables \<Rightarrow> cstr option \<Rightarrow> 'x vfs_scheme \<Rightarrow>
    ((i32 \<times> addr) \<times> 'x vfs_scheme) option" where
  "open_existing T path s = do {
     ((rc, mnt, d), s1) \<leftarrow> vfs_lookup T path s;
     if rc <s 0 then Some ((rc, 0), s1)
     else if d = 0 \<or> dinode (dents s1 d) = 0 then Some ((VFS_ENOENT, 0), s1)
     else do {
       s2 \<leftarrow> drop_temp mnt d (vfs_inode_get (dinode (dents s1 d)) s1);
       Some ((VFS_OK, dinode (dents s1 d)), s2)
     }
   }"

definition vfs_open :: "'x vfs_scheme vtables \<Rightarrow> cstr option \<Rightarrow> u32 \<Rightarrow> u32 \<Rightarrow> 'x vfs_scheme \<Rightarrow>
    ((i32 \<times> addr) \<times> 'x vfs_scheme) option" where
  "vfs_open T path flags mode s =
     (if path = None then Some ((VFS_EINVAL, 0), s)
      else do {
        ((rc, i), s1) \<leftarrow> (if flags AND VFS_O_CREAT \<noteq> 0 then open_create T path mode s
                         else open_existing T path s);
        if rc <s 0 then Some ((rc, 0), s1)
        else do {
          (f, s2) \<leftarrow> page_alloc1 s1;
          if f = 0 then Some ((VFS_ENOMEM, 0), vfs_inode_put i s2)
          else do {
            let s3 = upd_file f (\<lambda>_. zero_file\<lparr>frefcnt := 1, fflags := flags, finode := i,
                       ffops := fops (inodes s2 i), fpos := 0\<rparr>) s2;
            case fop T op_open s3 f of None \<Rightarrow> Some ((VFS_OK, f), s3)
            | Some opn \<Rightarrow> do {
                (rc, s4) \<leftarrow> opn s3 i f;
                if rc <s 0 then do { s5 \<leftarrow> vfs_file_put f s4; Some ((rc, 0), s5) }
                else Some ((VFS_OK, f), s4)
              }
          }
        }
      })"

definition vfs_close :: "'x vfs_scheme vtables \<Rightarrow> addr \<Rightarrow> 'x vfs_scheme \<Rightarrow>
    (i32 \<times> 'x vfs_scheme) option" where
  "vfs_close T f s =
     (if f = 0 then Some (VFS_EINVAL, s)
      else do {
        (rc, s1) \<leftarrow> (case fop T op_close s f of None \<Rightarrow> Some (VFS_OK, s) | Some cl \<Rightarrow> cl s f);
        if rc <s 0 then Some (rc, s1)
        else do { s2 \<leftarrow> vfs_file_put f s1; Some (VFS_OK, s2) }
      })"

definition vfs_read :: "'x vfs_scheme vtables \<Rightarrow> addr \<Rightarrow> addr \<Rightarrow> u64 \<Rightarrow> 'x vfs_scheme \<Rightarrow>
    (i64 \<times> 'x vfs_scheme) option" where
  "vfs_read T f buf cnt s =
     (if f = 0 \<or> buf = 0 then Some (VFS_EINVAL, s)
      else case fop T op_read s f of None \<Rightarrow> Some (VFS_ENOSYS, s) | Some rd \<Rightarrow> rd s f buf cnt)"

definition vfs_write :: "'x vfs_scheme vtables \<Rightarrow> addr \<Rightarrow> addr \<Rightarrow> u64 \<Rightarrow> 'x vfs_scheme \<Rightarrow>
    (i64 \<times> 'x vfs_scheme) option" where
  "vfs_write T f buf cnt s =
     (if f = 0 \<or> buf = 0 then Some (VFS_EINVAL, s)
      else case fop T op_write s f of None \<Rightarrow> Some (VFS_ENOSYS, s) | Some wr \<Rightarrow> wr s f buf cnt)"

definition vfs_seek :: "'x vfs_scheme vtables \<Rightarrow> addr \<Rightarrow> u64 \<Rightarrow> i32 \<Rightarrow> 'x vfs_scheme \<Rightarrow>
    (u64 \<times> 'x vfs_scheme) option" where
  "vfs_seek T f off whence s =
     (if f = 0 then Some (VFS_EINVAL, s)
      else case fop T op_llseek s f of Some sk \<Rightarrow> sk s f off whence
      | None \<Rightarrow>
          (case (if finode (files s f) = 0 then None else iop T op_getattr s (finode (files s f))) of
             None \<Rightarrow> Some (VFS_ENOSYS, s)
           | Some getattr \<Rightarrow> do {
               (rc, st, s1) \<leftarrow> getattr s (finode (files s f));
               if rc <s 0 then Some (VFS_EINVAL, s1)
               else
                 let r = (if whence = VFS_SEEK_SET then Some off
                          else if whence = VFS_SEEK_CUR then Some (fpos (files s1 f) + off)
                          else if whence = VFS_SEEK_END then Some (st_size st + off)
                          else None)
                 in case r of None \<Rightarrow> Some (VFS_EINVAL, s1)
                    | Some newpos \<Rightarrow> Some (newpos, upd_file f (\<lambda>e. e\<lparr>fpos := newpos\<rparr>) s1)
             }))"

definition vfs_fstat :: "'x vfs_scheme vtables \<Rightarrow> addr \<Rightarrow> 'x vfs_scheme \<Rightarrow>
    ((i32 \<times> vstat option) \<times> 'x vfs_scheme) option" where
  "vfs_fstat T f s =
     (if f = 0 then Some ((VFS_EINVAL, None), s)
      else case (if finode (files s f) = 0 then None else iop T op_getattr s (finode (files s f))) of
        None \<Rightarrow> Some ((VFS_ENOSYS, None), s)
      | Some getattr \<Rightarrow> do {
          (rc, st, s1) \<leftarrow> getattr s (finode (files s f)); Some ((rc, Some st), s1) })"

definition vfs_stat :: "'x vfs_scheme vtables \<Rightarrow> cstr option \<Rightarrow> 'x vfs_scheme \<Rightarrow>
    ((i32 \<times> vstat option) \<times> 'x vfs_scheme) option" where
  "vfs_stat T path s =
     (if path = None then Some ((VFS_EINVAL, None), s)
      else do {
        ((rc, mnt, d), s1) \<leftarrow> vfs_lookup T path s;
        if rc <s 0 then Some ((rc, None), s1)
        else if d = 0 \<or> dinode (dents s1 d) = 0 then Some ((VFS_ENOENT, None), s1)
        else case iop T op_getattr s1 (dinode (dents s1 d)) of
          None \<Rightarrow> Some ((VFS_ENOSYS, None), s1)
        | Some getattr \<Rightarrow> do {
            (rc, st, s2) \<leftarrow> getattr s1 (dinode (dents s1 d));
            s3 \<leftarrow> drop_temp mnt d s2;
            Some ((rc, Some st), s3)
          }
      })"

definition vfs_mkdir :: "'x vfs_scheme vtables \<Rightarrow> cstr option \<Rightarrow> u32 \<Rightarrow> 'x vfs_scheme \<Rightarrow>
    (i32 \<times> 'x vfs_scheme) option" where
  "vfs_mkdir T path mode s =
     (if path = None then Some (VFS_EINVAL, s)
      else do {
        ((rc, _, pdir, leaf), s1) \<leftarrow> vfs_lookup_parent T path s;
        let di = dinode (dents s1 pdir);
        if rc <s 0 then Some (rc, s1)
        else if leaf = [] then Some (VFS_EINVAL, s1)
        else if di = 0 \<or> \<not> vfs_is_dir s1 di then Some (VFS_ENOTDIR, s1)
        else case iop T op_mkdir s1 di of None \<Rightarrow> Some (VFS_ENOSYS, s1)
        | Some mkdir \<Rightarrow> do {
            (child, s2) \<leftarrow> vfs_tmp_dentry leaf pdir s1;
            if child = 0 then Some (VFS_ENOMEM, s2)
            else do {
              (rc, s3) \<leftarrow> mkdir s2 di child mode;
              s4 \<leftarrow> vfs_dentry_put child s3;
              Some (rc, s4)
            }
          }
      })"

definition vfs_unlink :: "'x vfs_scheme vtables \<Rightarrow> cstr option \<Rightarrow> 'x vfs_scheme \<Rightarrow>
    (i32 \<times> 'x vfs_scheme) option" where
  "vfs_unlink T path s =
     (if path = None then Some (VFS_EINVAL, s)
      else do {
        ((rc, _, pdir, leaf), s1) \<leftarrow> vfs_lookup_parent T path s;
        let di = dinode (dents s1 pdir);
        if rc <s 0 then Some (rc, s1)
        else if leaf = [] then Some (VFS_EINVAL, s1)
        else if di = 0 \<or> \<not> vfs_is_dir s1 di then Some (VFS_ENOTDIR, s1)
        else case iop T op_unlink s1 di of None \<Rightarrow> Some (VFS_ENOSYS, s1)
        | Some unlink \<Rightarrow> do {
            (child, s2) \<leftarrow> vfs_tmp_dentry leaf pdir s1;
            if child = 0 then Some (VFS_ENOMEM, s2)
            else do {
              (lrc, s3) \<leftarrow> (case iop T op_lookup s2 di of None \<Rightarrow> Some (VFS_OK, s2)
                            | Some look \<Rightarrow> look s2 di child);
              if lrc <s 0 then do { s4 \<leftarrow> vfs_dentry_put child s3; Some (lrc, s4) }
              else do {
                (rc, s4) \<leftarrow> unlink s3 di child;
                s5 \<leftarrow> vfs_dentry_put child s4;
                Some (rc, s5)
              }
            }
          }
      })"

end
