(* ===== verification/Vfs_Spec.thy ===== *)
theory Vfs_Spec
  imports Vfs
begin

text \<open>
  What path walking and the file-system registry compute. A path is its list of components;
  resolution follows them through a directory tree with a stack of ancestors, as \<^verbatim>\<open>.\<close> and
  \<^verbatim>\<open>..\<close> require. The locale \<open>dir_tree\<close> is the contract a file system's \<^verbatim>\<open>lookup\<close> offers.
\<close>

section \<open>Components\<close>

lemma skip_slashes_eq: "skip_slashes s = dropWhile (\<lambda>c. c = slash) s"
  by (induction s) simp_all

lemma until_slash_eq: "until_slash s = (takeWhile (\<lambda>c. c \<noteq> slash) s, dropWhile (\<lambda>c. c \<noteq> slash) s)"
  by (induction s) (simp_all add: split_beta)

lemma next_component_eq:
  "vfs_next_component p =
     (let s = dropWhile (\<lambda>c. c = slash) p
      in (takeWhile (\<lambda>c. c \<noteq> slash) s, dropWhile (\<lambda>c. c = slash) (dropWhile (\<lambda>c. c \<noteq> slash) s)))"
proof (cases "dropWhile (\<lambda>c. c = slash) p")
  case Nil
  then show ?thesis unfolding vfs_next_component_def skip_slashes_eq Let_def Nil by simp
next
  case (Cons c s)
  then show ?thesis
    unfolding vfs_next_component_def skip_slashes_eq until_slash_eq Let_def Cons by simp
qed

lemma next_component_skip: "vfs_next_component (skip_slashes p) = vfs_next_component p"
  by (simp add: next_component_eq skip_slashes_eq)

lemma next_component_rest: "vfs_next_component p = (c, p1) \<Longrightarrow> skip_slashes p1 = p1"
  by (auto simp: next_component_eq skip_slashes_eq Let_def)

lemma next_component_shorter:
  assumes "vfs_next_component p = (c, p1)" "c \<noteq> []"
  shows "length p1 < length p"
proof -
  let ?s = "dropWhile (\<lambda>c. c = slash) p"
  have c: "c = takeWhile (\<lambda>c. c \<noteq> slash) ?s"
    and p1: "p1 = dropWhile (\<lambda>c. c = slash) (dropWhile (\<lambda>c. c \<noteq> slash) ?s)"
    using assms(1) by (auto simp: next_component_eq Let_def)
  have "length c + length (dropWhile (\<lambda>c. c \<noteq> slash) ?s) = length ?s"
    unfolding c by (metis length_append takeWhile_dropWhile_id)
  moreover have "length p1 \<le> length (dropWhile (\<lambda>c. c \<noteq> slash) ?s)"
    unfolding p1 by (rule length_dropWhile_le)
  moreover have "length ?s \<le> length p" by (rule length_dropWhile_le)
  ultimately show ?thesis using assms(2) by (cases c) simp_all
qed

text \<open>The components a loop over \<open>vfs_next_component\<close> sees.\<close>

function components :: "cstr \<Rightarrow> cstr list" where
  "components p = (let (c, p1) = vfs_next_component p in if c = [] then [] else c # components p1)"
  by pat_completeness auto
termination
  by (relation "measure length") (auto dest: next_component_shorter [OF sym])

declare components.simps [simp del]

text \<open>The reference: cut at every slash, drop the empty pieces.\<close>

fun split_at_slash :: "cstr \<Rightarrow> cstr list" where
  "split_at_slash [] = [[]]"
| "split_at_slash (c # s) =
     (if c = slash then [] # split_at_slash s
      else case split_at_slash s of [] \<Rightarrow> [[c]] | w # ws \<Rightarrow> (c # w) # ws)"

definition path_names :: "cstr \<Rightarrow> cstr list" where
  "path_names p = filter (\<lambda>w. w \<noteq> []) (split_at_slash p)"

lemma split_ne: "split_at_slash s \<noteq> []"
  by (cases s) (auto split: list.splits)

lemma split_word:
  "slash \<notin> set w \<Longrightarrow> split_at_slash (w @ s) = (w @ hd (split_at_slash s)) # tl (split_at_slash s)"
proof (induction w)
  case Nil
  then show ?case using split_ne [of s] by simp
qed (auto split: list.splits)

lemma path_names_slash [simp]: "path_names (slash # s) = path_names s"
  by (simp add: path_names_def)

lemma path_names_skip: "path_names (dropWhile (\<lambda>c. c = slash) s) = path_names s"
  by (induction s) auto

lemma path_names_word:
  assumes "w \<noteq> []" "slash \<notin> set w" "s = [] \<or> hd s = slash"
  shows "path_names (w @ s) = w # path_names s"
proof (cases s)
  case Nil
  then show ?thesis using assms split_word [OF assms(2), of "[]"] by (simp add: path_names_def)
next
  case (Cons c t)
  then show ?thesis using assms split_word [OF assms(2), of s] by (simp add: path_names_def)
qed

lemma components_eq: "components p = path_names p"
proof (induction p rule: length_induct)
  case (1 p)
  let ?s = "dropWhile (\<lambda>c. c = slash) p"
  let ?w = "takeWhile (\<lambda>c. c \<noteq> slash) ?s" and ?r = "dropWhile (\<lambda>c. c \<noteq> slash) ?s"
  have n: "vfs_next_component p = (?w, dropWhile (\<lambda>c. c = slash) ?r)"
    by (simp add: next_component_eq Let_def)
  show ?case
  proof (cases "?w = []")
    case True
    have "?s = []"
    proof (rule ccontr)
      assume "?s \<noteq> []"
      then have "hd ?s \<noteq> slash" by (rule hd_dropWhile)
      then show False using True \<open>?s \<noteq> []\<close> by (cases ?s) auto
    qed
    then have "path_names p = path_names []" using path_names_skip [of p] by metis
    then show ?thesis using n True by (subst components.simps) (simp add: path_names_def)
  next
    case False
    have "components p = ?w # components (dropWhile (\<lambda>c. c = slash) ?r)"
      using n False by (subst components.simps) simp
    also have "\<dots> = ?w # path_names ?r"
      using 1 next_component_shorter [OF n False] path_names_skip [of ?r] by simp
    also have "\<dots> = path_names (?w @ ?r)"
    proof (rule path_names_word [OF False, symmetric])
      show "slash \<notin> set ?w" by (auto dest: set_takeWhileD)
      show "?r = [] \<or> hd ?r = slash" using hd_dropWhile [of "\<lambda>c. c \<noteq> slash" ?s] by auto
    qed
    also have "\<dots> = path_names p" using path_names_skip [of p] by simp
    finally show ?thesis .
  qed
qed

lemma components_skip [simp]: "components (skip_slashes p) = components p"
  by (simp add: components_eq skip_slashes_eq path_names_skip)

lemma comp_loop_eq:
  "length a = length b \<Longrightarrow> i + k = length a \<Longrightarrow> comp_loop a b i k \<longleftrightarrow> drop i a = drop i b"
proof (induction k arbitrary: i)
  case (Suc k)
  then have "i < length a" by simp
  then have "drop i a = a ! i # drop (Suc i) a" "drop i b = b ! i # drop (Suc i) b"
    using Suc.prems(1) by (simp_all add: Cons_nth_drop_Suc)
  then show ?case using Suc by (simp add: ch_def)
qed simp

lemma vfs_comp_eq_iff:
  assumes "wf_cstr lit" "length c < 2 ^ 63"
  shows "vfs_comp_eq c lit \<longleftrightarrow> c = lit"
proof -
  have "kstrlen (Some lit) = word_of_nat (length c) \<longleftrightarrow> length lit = length c"
  proof -
    have "unat (kstrlen (Some lit)) = length lit" by (rule kstrlen_eq [OF assms(1)])
    moreover have "unat (word_of_nat (length c) :: u64) = length c"
      using assms(2) by (intro unat_of_nat_id) simp
    ultimately show ?thesis by (subst word_unat_eq_iff) (simp only:)
  qed
  note len = this
  show ?thesis
  proof (cases "length lit = length c")
    case True
    then have "comp_loop c lit 0 (length c) \<longleftrightarrow> c = lit"
      using comp_loop_eq [of c lit 0 "length c"] by simp
    then show ?thesis unfolding vfs_comp_eq_def using len True by (simp only: if_False simp_thms)
  next
    case False
    then show ?thesis unfolding vfs_comp_eq_def using len by auto
  qed
qed

section \<open>Properties of path parsing\<close>

text \<open>
  The component loop of the path walkers sees exactly the non-empty pieces of the path
  between slashes, in order: repeated, leading and trailing slashes do not matter.
\<close>

lemma components_spec:
  "components p = path_names p \<and> components (p @ [slash]) = components p \<and>
   components (slash # p) = components p \<and> list_all (\<lambda>c. c \<noteq> [] \<and> slash \<notin> set c) (components p)"
proof -
  have s: "split_at_slash (p @ [slash]) = split_at_slash p @ [[]]"
  proof (induction p)
    case (Cons c p)
    then show ?case using split_ne [of p] by (cases "split_at_slash p") simp_all
  qed simp
  have "slash \<notin> set c" if "c \<in> set (split_at_slash p)" for c
    using that
  proof (induction p arbitrary: c)
    case (Cons d p)
    then show ?case by (cases "split_at_slash p") (auto split: if_splits)
  qed simp
  then show ?thesis using s by (auto simp: components_eq path_names_def list_all_iff)
qed

section \<open>Resolution\<close>

text \<open>Resolution over an abstract tree: the stack holds the nodes from the current directory
  up to the root.\<close>

fun resolve :: "('n \<Rightarrow> bool) \<Rightarrow> ('n \<Rightarrow> cstr \<Rightarrow> 'n option) \<Rightarrow> 'n list \<Rightarrow> cstr list \<Rightarrow>
    i32 + 'n list" where
  "resolve isdir kid stk [] = Inr stk"
| "resolve isdir kid stk (c # cs) =
     (if c = [dot] then resolve isdir kid stk cs
      else if c = [dot, dot] then resolve isdir kid (if tl stk = [] then stk else tl stk) cs
      else if \<not> isdir (hd stk) then Inl VFS_ENOTDIR
      else case kid (hd stk) c of None \<Rightarrow> Inl VFS_ENOENT
         | Some i \<Rightarrow> resolve isdir kid (i # stk) cs)"

text \<open>The dentries that realise a stack: linked by \<^verbatim>\<open>parent\<close>, their inodes standing for the
  nodes, none of them in a free page.\<close>

fun dstack :: "(vinode \<Rightarrow> 'n) \<Rightarrow> 'x vfs_scheme \<Rightarrow> nat multiset \<Rightarrow> addr \<Rightarrow> 'n list \<Rightarrow> bool" where
  "dstack node s F d [] = False"
| "dstack node s F d (n # ns) \<longleftrightarrow> d \<noteq> 0 \<and> page_of d \<notin># F \<and> dinode (dents s d) \<noteq> 0 \<and>
     page_of (dinode (dents s d)) \<notin># F \<and> node (inodes s (dinode (dents s d))) = n \<and>
     (if ns = [] then d = g_root_dent s \<and> dparent (dents s d) = 0
      else d \<noteq> g_root_dent s \<and> dparent (dents s d) \<noteq> 0 \<and>
        dstack node s F (dparent (dents s d)) ns)"

text \<open>One file system, mounted as the root.\<close>

definition one_mount :: "'x vfs_scheme \<Rightarrow> bool" where
  "one_mount s \<longleftrightarrow> g_root_mnt s \<noteq> 0 \<and> g_root_dent s \<noteq> 0 \<and> g_mounts s = g_root_mnt s \<and>
     mroot (mounts s (g_root_mnt s)) = g_root_dent s \<and>
     mmountpoint (mounts s (g_root_mnt s)) = 0 \<and> mnext (mounts s (g_root_mnt s)) = 0"

text \<open>A walk changes dentries, the allocator, and inodes in pages that were free.\<close>

definition same_ns :: "'x vfs_scheme \<Rightarrow> 'x vfs_scheme \<Rightarrow> bool" where
  "same_ns s t \<longleftrightarrow> mounts t = mounts s \<and> g_root_mnt t = g_root_mnt s \<and>
     g_root_dent t = g_root_dent s \<and> g_mounts t = g_mounts s \<and> supers t = supers s \<and>
     files t = files s \<and> fstypes t = fstypes s \<and> g_fs_types t = g_fs_types s"

definition inodes_kept :: "nat multiset \<Rightarrow> 'x vfs_scheme \<Rightarrow> 'x vfs_scheme \<Rightarrow> bool" where
  "inodes_kept F s t \<longleftrightarrow> (\<forall>i. page_of i \<notin># F \<longrightarrow> inodes t i = inodes s i)"

lemma same_ns_refl [simp]: "same_ns s s"
  by (simp add: same_ns_def)

lemma same_ns_trans: "same_ns a b \<Longrightarrow> same_ns b c \<Longrightarrow> same_ns a c"
  by (simp add: same_ns_def)

lemma same_ns_upd [simp]: "same_ns s (upd_dent d f s)" "same_ns s (s\<lparr>vk := k\<rparr>)"
  "same_ns s (upd_inode i g s)"
  by (simp_all add: same_ns_def upd_dent_def upd_inode_def)

lemma inodes_kept_refl [simp]: "inodes_kept F s s" "inodes_kept F s (upd_dent d f s)"
  "inodes_kept F s (s\<lparr>vk := k\<rparr>)"
  by (simp_all add: inodes_kept_def upd_dent_def)

lemma inodes_kept_trans:
  "inodes_kept F a b \<Longrightarrow> inodes_kept G b c \<Longrightarrow> set_mset G \<subseteq> set_mset F \<Longrightarrow> inodes_kept F a c"
  by (auto simp: inodes_kept_def)

lemma dents_upd: "dents (upd_dent d f s) = (dents s)(d := f (dents s d))"
  by (simp add: upd_dent_def)

lemma same_ns_one: "same_ns s t \<Longrightarrow> one_mount s \<Longrightarrow> one_mount t"
  by (simp add: same_ns_def one_mount_def)

lemma no_submount: "one_mount s \<Longrightarrow> vfs_find_mount_by_inode s i = Some 0"
  by (simp add: one_mount_def vfs_find_mount_by_inode_def find_mi_from.simps [of s i] Let_def)

lemma dstack_cong:
  assumes "dstack node s F d ns" "g_root_dent t = g_root_dent s" "set_mset G \<subseteq> set_mset F"
    "\<And>e. page_of e \<notin># F \<Longrightarrow>
      dinode (dents t e) = dinode (dents s e) \<and> dparent (dents t e) = dparent (dents s e)"
    "inodes_kept F s t"
  shows "dstack node t G d ns"
  using assms(1)
proof (induction ns arbitrary: d)
  case (Cons n ns)
  then have d: "page_of d \<notin># F" "page_of (dinode (dents s d)) \<notin># F" by simp_all
  have e: "dinode (dents t d) = dinode (dents s d)" "dparent (dents t d) = dparent (dents s d)"
    using assms(4) [OF d(1)] by simp_all
  have "inodes t (dinode (dents s d)) = inodes s (dinode (dents s d))"
    using assms(5) d(2) by (simp add: inodes_kept_def)
  moreover have "page_of d \<notin># G" "page_of (dinode (dents s d)) \<notin># G" using d assms(3) by blast+
  ultimately show ?case using Cons e assms(2) by auto
qed simp

lemma dstack_upd:
  assumes "dstack node s F d ns" "\<And>e. dinode (f e) = dinode e" "\<And>e. dparent (f e) = dparent e"
  shows "dstack node (upd_dent x f s) F d ns"
  by (rule dstack_cong [OF assms(1)]) (simp_all add: upd_dent_def assms(2,3) inodes_kept_def)

lemma root_of_stack: "dstack node s F d ns \<Longrightarrow> page_of (g_root_dent s) \<notin># F"
proof (induction ns arbitrary: d)
  case (Cons n ns)
  then show ?case by (cases "ns = []") auto
qed simp

text \<open>Putting a dentry with a parent never frees it.\<close>

lemma dentry_put_child:
  "d \<noteq> 0 \<Longrightarrow> dparent (dents s d) \<noteq> 0 \<Longrightarrow>
     vfs_dentry_put d s = Some (upd_dent d (\<lambda>e. e\<lparr>drefcnt := drefcnt e - 1\<rparr>) s)"
  by (simp add: vfs_dentry_put_def upd_dent_def Let_def)

definition tmp_dentry :: "cstr \<Rightarrow> addr \<Rightarrow> vdentry" where
  "tmp_dentry name par = \<lparr>drefcnt = 1, dname = name, dname_len = word_of_nat (length name),
     dinode = 0, dparent = par, dis_mountpoint = 0, dpriv = 0\<rparr>"

lemma tmp_dentry_ok:
  assumes "buddy_ok (vk s) F" "F \<noteq> {#}" "length name < 256"
  shows "\<exists>d k F'. vfs_tmp_dentry name par s =
      Some (d, upd_dent d (\<lambda>_. tmp_dentry name par) (s\<lparr>vk := k\<rparr>)) \<and>
    d \<noteq> 0 \<and> buddy_ok k F' \<and> F = F' + {# page_of d #}"
proof -
  obtain d k F' where "kalloc (vk s) 1 = Some (d, k)" "d \<noteq> 0" "buddy_ok k F'"
    "F = F' + {# page_of d #}"
    using kalloc_page [OF assms(1,2)] by blast
  then show ?thesis using assms(3)
    by (intro exI [of _ d] exI [of _ k] exI [of _ F'])
      (simp add: vfs_tmp_dentry_def page_alloc1_def tmp_dentry_def)
qed

text \<open>
  The contract of a directory tree. An inode stands for a node; \<open>kid\<close> gives the entry of a
  directory node. A \<^verbatim>\<open>lookup\<close> on a fresh dentry takes at most \<open>cost\<close> pages, fills the dentry's
  inode with one for the child (or reports \<^verbatim>\<open>VFS_ENOENT\<close>), and disturbs no other dentry, no
  inode outside the free pages, and nothing of the name space.
\<close>

definition lookup_law :: "(vinode \<Rightarrow> 'n) \<Rightarrow> ('n \<Rightarrow> cstr \<Rightarrow> 'n option) \<Rightarrow> ('x vfs_scheme \<Rightarrow> bool) \<Rightarrow>
    nat \<Rightarrow> 'x vfs_scheme \<Rightarrow> nat multiset \<Rightarrow> addr \<Rightarrow> addr \<Rightarrow> (i32 \<times> 'x vfs_scheme) option \<Rightarrow> bool" where
  "lookup_law node kid ok cost s F di d r \<longleftrightarrow> (\<exists>rc t F' i. r = Some (rc, t) \<and> ok t \<and> same_ns s t \<and>
     inodes_kept F s t \<and> buddy_ok (vk t) F' \<and> F' \<subseteq># F \<and> size F \<le> size F' + cost \<and>
     dents t = (dents s)(d := (dents s d)\<lparr>dinode := i\<rparr>) \<and>
     (case kid (node (inodes s di)) (dname (dents s d)) of
        None \<Rightarrow> rc = VFS_ENOENT
      | Some m \<Rightarrow> rc = VFS_OK \<and> i \<noteq> 0 \<and> page_of i \<notin># F' \<and> node (inodes t i) = m))"

locale dir_tree =
  fixes T :: "'x vfs_scheme vtables"
    and node :: "vinode \<Rightarrow> 'n"
    and isdir :: "'n \<Rightarrow> bool"
    and kid :: "'n \<Rightarrow> cstr \<Rightarrow> 'n option"
    and ok :: "'x vfs_scheme \<Rightarrow> bool"
    and cost :: nat
  assumes isdir: "isdir (node v) \<longleftrightarrow> imode v AND VFS_S_IFMT = VFS_S_IFDIR"
    and look: "ok s \<Longrightarrow> vfs_is_dir s di \<Longrightarrow> \<exists>look. iop T op_lookup s di = Some look \<and>
      (\<forall>t F d name par. ok t \<longrightarrow> iops (inodes t di) = iops (inodes s di) \<longrightarrow>
         page_of di \<notin># F \<longrightarrow> page_of d \<notin># F \<longrightarrow> buddy_ok (vk t) F \<longrightarrow> cost \<le> size F \<longrightarrow>
         dents t d = tmp_dentry name par \<longrightarrow> length name < 256 \<longrightarrow>
         lookup_law node kid ok cost t F di d (look t di d))"
    and ok_dent: "ok s \<Longrightarrow> ok (upd_dent d f s)"
    and ok_alloc: "ok s \<Longrightarrow> ok (s\<lparr>vk := k\<rparr>)"
begin

lemma lookup_child_ok:
  assumes "ok s" "buddy_ok (vk s) F" "cost < size F" "one_mount s" "dstack node s F cur (n # ns)"
    "length name < 256"
  shows "\<exists>t. same_ns s t \<and> inodes_kept F s t \<and> ok t \<and>
    (if \<not> isdir n then vfs_lookup_child T mnt cur name s = Some ((VFS_ENOTDIR, mnt, cur, 0), t)
     else case kid n name of
       None \<Rightarrow> vfs_lookup_child T mnt cur name s = Some ((VFS_ENOENT, mnt, cur, 0), t)
     | Some m \<Rightarrow> \<exists>d F'. vfs_lookup_child T mnt cur name s = Some ((VFS_OK, mnt, cur, d), t) \<and>
         buddy_ok (vk t) F' \<and> F' \<subseteq># F \<and> size F \<le> size F' + Suc cost \<and>
         dstack node t F' cur (n # ns) \<and> dstack node t F' d (m # n # ns))"
proof -
  define di where "di = dinode (dents s cur)"
  have cur: "cur \<noteq> 0" "page_of cur \<notin># F" "di \<noteq> 0" "page_of di \<notin># F" "node (inodes s di) = n"
    using assms(5) by (simp_all add: di_def)
  have dir: "vfs_is_dir s di \<longleftrightarrow> isdir n"
    using cur isdir [of "inodes s di"] by (simp add: vfs_is_dir_def)
  show ?thesis
  proof (cases "isdir n")
    case False
    then show ?thesis
      using assms(1) dir by (intro exI [of _ s]) (simp add: vfs_lookup_child_def Let_def di_def)
  next
    case True
    then have dird: "vfs_is_dir s di" using dir by simp
    obtain lk where lk: "iop T op_lookup s di = Some lk"
      "\<And>t F d name par. ok t \<Longrightarrow> iops (inodes t di) = iops (inodes s di) \<Longrightarrow>
         page_of di \<notin># F \<Longrightarrow> page_of d \<notin># F \<Longrightarrow> buddy_ok (vk t) F \<Longrightarrow> cost \<le> size F \<Longrightarrow>
         dents t d = tmp_dentry name par \<Longrightarrow> length name < 256 \<Longrightarrow>
         lookup_law node kid ok cost t F di d (lk t di d)"
      using look [OF assms(1) dird] by blast
    have F0: "F \<noteq> {#}" using assms(3) by auto
    obtain d k F1 where d: "vfs_tmp_dentry name cur s =
        Some (d, upd_dent d (\<lambda>_. tmp_dentry name cur) (s\<lparr>vk := k\<rparr>))"
      "d \<noteq> 0" "buddy_ok k F1" "F = F1 + {# page_of d #}"
      using tmp_dentry_ok [OF assms(2) F0 assms(6)] by blast
    define t1 where "t1 = upd_dent d (\<lambda>_. tmp_dentry name cur) (s\<lparr>vk := k\<rparr>)"
    have ok1: "ok t1" unfolding t1_def by (intro ok_dent ok_alloc assms(1))
    have ns1: "same_ns s t1" unfolding t1_def
      by (rule same_ns_trans [OF same_ns_upd(2) same_ns_upd(1)])
    have in1: "inodes t1 = inodes s" "vk t1 = k" by (simp_all add: t1_def upd_dent_def)
    have d1: "dents t1 = (dents s)(d := tmp_dentry name cur)" by (simp add: t1_def upd_dent_def)
    have dF: "page_of d \<in># F" using d(4) by simp
    have dcur: "d \<noteq> cur" using dF cur(2) by auto
    have "once (F1 + {# page_of d #})"
      using assms(2) d(4) by (auto simp: buddy_ok_def buddy_rel_def)
    then have dF1: "page_of d \<notin># F1" using once_disjoint [of F1 "{# page_of d #}"] by auto
    have diF1: "page_of di \<notin># F1" using cur(4) d(4) by auto
    have law: "lookup_law node kid ok cost t1 F1 di d (lk t1 di d)"
      using lk(2) [OF ok1 _ diF1 dF1 _ _ _ assms(6)] in1 d(3,4) assms(3) d1 by simp
    obtain rc t F' j where l: "lk t1 di d = Some (rc, t)" "ok t" "same_ns t1 t"
      "inodes_kept F1 t1 t" "buddy_ok (vk t) F'" "F' \<subseteq># F1" "size F1 \<le> size F' + cost"
      "dents t = (dents t1)(d := (dents t1 d)\<lparr>dinode := j\<rparr>)"
      "case kid n name of None \<Rightarrow> rc = VFS_ENOENT
       | Some m \<Rightarrow> rc = VFS_OK \<and> j \<noteq> 0 \<and> page_of j \<notin># F' \<and> node (inodes t j) = m"
      using law d1 in1 cur(5) unfolding lookup_law_def by (auto simp: tmp_dentry_def)
    have td: "dents t = (dents s)(d := (tmp_dentry name cur)\<lparr>dinode := j\<rparr>)"
      using l(8) d1 by simp
    have nst: "same_ns s t" by (rule same_ns_trans [OF ns1 l(3)])
    have ik: "inodes_kept F s t"
      using l(4) in1 d(4) by (auto simp: inodes_kept_def)
    have nm: "vfs_find_mount_by_inode t x = Some 0" for x
      by (rule no_submount [OF same_ns_one [OF nst assms(4)]])
    have io: "(if iops (inodes s di) = 0 then None else op_lookup (iops_of T (iops (inodes s di)))) = Some lk"
      using lk(1) by (simp add: iop_def)
    have body: "vfs_lookup_child T mnt cur name s =
        (if rc <s 0 then do { t' \<leftarrow> vfs_dentry_put d t; Some ((rc, mnt, cur, 0), t') }
         else if j = 0 then do { t' \<leftarrow> vfs_dentry_put d t; Some ((VFS_ENOENT, mnt, cur, 0), t') }
         else Some ((VFS_OK, mnt, cur, d), t))"
      unfolding vfs_lookup_child_def Let_def di_def [symmetric] io
      using dird d(1,2) l(1) td nm by (simp add: t1_def [symmetric])
    have put: "vfs_dentry_put d t = Some (upd_dent d (\<lambda>e. e\<lparr>drefcnt := drefcnt e - 1\<rparr>) t)"
      using d(2) td cur(1) by (intro dentry_put_child) (simp_all add: tmp_dentry_def)
    show ?thesis
    proof (cases "kid n name")
      case None
      then have "vfs_lookup_child T mnt cur name s =
          Some ((VFS_ENOENT, mnt, cur, 0), upd_dent d (\<lambda>e. e\<lparr>drefcnt := drefcnt e - 1\<rparr>) t)"
        using body put l(9) by (simp add: word_sless_alt)
      moreover have "inodes_kept F s (upd_dent d f t)" for f
        using ik by (simp add: inodes_kept_def upd_dent_def)
      ultimately show ?thesis
        using True None ok_dent [OF l(2)] same_ns_trans [OF nst same_ns_upd(1)]
        by (intro exI [of _ "upd_dent d (\<lambda>e. e\<lparr>drefcnt := drefcnt e - 1\<rparr>) t"]) simp
    next
      case (Some m)
      have j: "rc = VFS_OK" "j \<noteq> 0" "page_of j \<notin># F'" "node (inodes t j) = m"
        using l(9) Some by simp_all
      have root: "g_root_dent t = g_root_dent s" using nst by (simp add: same_ns_def)
      have F'F: "F' \<subseteq># F" unfolding d(4) by (rule subset_mset.order_trans [OF l(6) mset_subset_eq_add_left])
      then have sub: "set_mset F' \<subseteq> set_mset F" by (rule set_mset_mono)
      have stk: "dstack node t F' cur (n # ns)"
      proof (rule dstack_cong [OF assms(5) root sub _ ik])
        fix e assume "page_of e \<notin># F"
        then have "e \<noteq> d" using dF by auto
        then show "dinode (dents t e) = dinode (dents s e) \<and> dparent (dents t e) = dparent (dents s e)"
          by (simp add: td)
      qed
      have "page_of d \<notin># F'" using dF1 l(6) by (meson mset_subset_eqD)
      moreover have "d \<noteq> g_root_dent s" using root_of_stack [OF assms(5)] dF by auto
      ultimately have "dstack node t F' d (m # n # ns)"
        using stk d(2) cur(1) root j
        by (subst dstack.simps(2)) (simp add: td tmp_dentry_def del: dstack.simps)
      moreover have "vfs_lookup_child T mnt cur name s = Some ((VFS_OK, mnt, cur, d), t)"
        using body j by (simp add: word_sless_alt)
      moreover have "size F \<le> size F' + Suc cost" using l(7) d(4) by simp
      ultimately show ?thesis
        using True Some l(2,5) nst ik F'F stk
        by (intro exI [of _ t]) (auto intro!: exI [of _ d] exI [of _ F'])
    qed
  qed
qed

end

lemma components_Cons:
  "components p = c # cs \<Longrightarrow> \<exists>p1. vfs_next_component p = (c, p1) \<and> components p1 = cs \<and> c \<noteq> []"
  by (subst (asm) components.simps) (auto simp: Let_def split: prod.splits if_splits)

lemma components_Nil: "components p = [] \<Longrightarrow> fst (vfs_next_component p) = []"
  by (subst (asm) components.simps) (auto simp: Let_def split: prod.splits if_splits)

lemma dot_names: "length c < 256 \<Longrightarrow> vfs_comp_eq c [dot] \<longleftrightarrow> c = [dot]"
  "length c < 256 \<Longrightarrow> vfs_comp_eq c [dot, dot] \<longleftrightarrow> c = [dot, dot]"
  by (rule vfs_comp_eq_iff; simp add: wf_cstr_def)+

lemma dotdot_stack:
  assumes "one_mount s" "dstack node s F cur stk"
  shows "dstack node s F (dotdot s (g_root_mnt s) cur) (if tl stk = [] then stk else tl stk)"
  using assms by (cases stk) (auto simp: dotdot_def one_mount_def)

text \<open>Releasing the previous directory, as the walkers do after each step.\<close>

lemma release_prev:
  assumes "one_mount s" "dstack node s F cur stk" "stk \<noteq> []"
  shows "\<exists>f. (if cur \<noteq> g_root_dent s \<and> cur \<noteq> mroot (mounts s (g_root_mnt s))
      then vfs_dentry_put cur s else Some s) = Some (f s) \<and>
    (f = (\<lambda>s. s) \<or> f = upd_dent cur (\<lambda>e. e\<lparr>drefcnt := drefcnt e - 1\<rparr>))"
proof (cases "cur = g_root_dent s")
  case False
  then obtain i j r where stk: "stk = i # j # r"
    using assms(2,3) by (cases stk; cases "tl stk") (auto split: if_splits)
  then have "vfs_dentry_put cur s = Some (upd_dent cur (\<lambda>e. e\<lparr>drefcnt := drefcnt e - 1\<rparr>) s)"
    using assms(2) by (intro dentry_put_child) simp_all
  then show ?thesis using False assms(1) by (auto simp: one_mount_def)
qed (auto simp: assms)

context dir_tree begin

lemma lookup_loop_ok:
  assumes "ok s" "buddy_ok (vk s) F" "one_mount s" "dstack node s F cur stk"
    "length (components p) * Suc cost \<le> size F" "\<forall>c \<in> set (components p). length c < 256"
  shows "\<exists>t. same_ns s t \<and> inodes_kept F s t \<and> ok t \<and>
    (case resolve isdir kid stk (components p) of
       Inl e \<Rightarrow> lookup_loop T (g_root_mnt s) cur p s = Some ((e, 0, 0), t)
     | Inr stk' \<Rightarrow> \<exists>d F'. lookup_loop T (g_root_mnt s) cur p s = Some ((VFS_OK, g_root_mnt s, d), t) \<and>
         buddy_ok (vk t) F' \<and> dstack node t F' d stk')"
  using assms
proof (induction "components p" arbitrary: p cur stk s F)
  case Nil
  then have "lookup_loop T (g_root_mnt s) cur p s = Some ((VFS_OK, g_root_mnt s, cur), s)"
    using components_Nil [of p] by (subst lookup_loop.simps) (simp add: split_beta)
  then show ?case using Nil by (intro exI [of _ s]) auto
next
  case (Cons c cs)
  obtain p1 where p1: "vfs_next_component p = (c, p1)" "components p1 = cs" "c \<noteq> []"
    using components_Cons [OF Cons.hyps(2) [symmetric]] by blast
  have comps: "components p = c # components p1" using Cons.hyps(2) p1(2) by simp
  have len: "length c < 256" and rest: "length (components p1) * Suc cost \<le> size F"
    "\<forall>c \<in> set (components p1). length c < 256"
    and sz: "length (components p1) * Suc cost + Suc cost \<le> size F"
    using Cons.prems(5,6) unfolding comps by simp_all
  note eq = dot_names [OF len]
  consider (dot) "c = [dot]" | (dotdot) "c = [dot, dot]" | (name) "c \<noteq> [dot]" "c \<noteq> [dot, dot]" by blast
  then show ?case
  proof cases
    case dot
    have l: "lookup_loop T (g_root_mnt s) cur p s = lookup_loop T (g_root_mnt s) cur p1 s"
      using p1 eq dot by (subst lookup_loop.simps) simp
    have r: "resolve isdir kid stk (components p) = resolve isdir kid stk (components p1)"
      using comps dot by simp
    show ?thesis
      unfolding l r by (rule Cons.hyps(1) [OF p1(2) [symmetric] Cons.prems(1-4) rest])
  next
    case dotdot
    let ?d = "dotdot s (g_root_mnt s) cur" and ?stk = "if tl stk = [] then stk else tl stk"
    have l: "lookup_loop T (g_root_mnt s) cur p s = lookup_loop T (g_root_mnt s) ?d p1 s"
      using p1 eq dotdot by (subst lookup_loop.simps) simp
    have r: "resolve isdir kid stk (components p) = resolve isdir kid ?stk (components p1)"
      using comps dotdot by simp
    show ?thesis
      unfolding l r by (rule Cons.hyps(1) [OF p1(2) [symmetric] Cons.prems(1-3)
          dotdot_stack [OF Cons.prems(3,4)] rest])
  next
    case name
    obtain n ns where stk: "stk = n # ns" using Cons.prems(4) by (cases stk) auto
    have cF: "cost < size F" using sz by simp
    obtain t where t: "same_ns s t" "inodes_kept F s t" "ok t"
      and r: "if \<not> isdir n
        then vfs_lookup_child T (g_root_mnt s) cur c s = Some ((VFS_ENOTDIR, g_root_mnt s, cur, 0), t)
        else case kid n c of
          None \<Rightarrow> vfs_lookup_child T (g_root_mnt s) cur c s = Some ((VFS_ENOENT, g_root_mnt s, cur, 0), t)
        | Some m \<Rightarrow> \<exists>d F'. vfs_lookup_child T (g_root_mnt s) cur c s = Some ((VFS_OK, g_root_mnt s, cur, d), t) \<and>
            buddy_ok (vk t) F' \<and> F' \<subseteq># F \<and> size F \<le> size F' + Suc cost \<and>
            dstack node t F' cur (n # ns) \<and> dstack node t F' d (m # n # ns)"
      using lookup_child_ok [OF Cons.prems(1,2) cF Cons.prems(3) Cons.prems(4) [unfolded stk] len] by blast
    have step: "lookup_loop T (g_root_mnt s) cur p s = do {
        ((rc, mnt1, cur1, child), s1) \<leftarrow> vfs_lookup_child T (g_root_mnt s) cur c s;
        if rc <s 0 then Some ((rc, 0, 0), s1)
        else do {
          s2 \<leftarrow> (if cur1 \<noteq> g_root_dent s1 \<and> cur1 \<noteq> mroot (mounts s1 mnt1)
                then vfs_dentry_put cur1 s1 else Some s1);
          lookup_loop T mnt1 child p1 s2
        }
      }"
      using p1 eq name by (subst lookup_loop.simps) (simp only: Let_def split if_False)
    show ?thesis
    proof (cases "isdir n \<and> kid n c \<noteq> None")
      case False
      then show ?thesis
        using r t step comps name stk by (intro exI [of _ t]) (auto simp: word_sless_alt)
    next
      case True
      then obtain m where m: "kid n c = Some m" by auto
      obtain d F' where d: "vfs_lookup_child T (g_root_mnt s) cur c s = Some ((VFS_OK, g_root_mnt s, cur, d), t)"
        "buddy_ok (vk t) F'" "F' \<subseteq># F" "size F \<le> size F' + Suc cost"
        "dstack node t F' cur (n # ns)" "dstack node t F' d (m # n # ns)"
        using r True m by auto
      have one: "one_mount t" "g_root_mnt t = g_root_mnt s"
        using same_ns_one [OF t(1) Cons.prems(3)] t(1) by (simp_all add: same_ns_def)
      obtain f where f: "(if cur \<noteq> g_root_dent t \<and> cur \<noteq> mroot (mounts t (g_root_mnt t))
          then vfs_dentry_put cur t else Some t) = Some (f t)"
        "f = (\<lambda>s. s) \<or> f = upd_dent cur (\<lambda>e. e\<lparr>drefcnt := drefcnt e - 1\<rparr>)"
        using release_prev [OF one(1) d(5) list.distinct(2)] by (elim exE conjE) (rule that)
      let ?u = "upd_dent cur (\<lambda>e. e\<lparr>drefcnt := drefcnt e - 1\<rparr>) t"
      have du: "dstack node ?u F' d (m # n # ns)" by (rule dstack_upd [OF d(6)]) simp_all
      have vu: "vk ?u = vk t" "inodes ?u = inodes t" by (simp_all add: upd_dent_def)
      have "f t = t \<or> f t = ?u" using f(2) by auto
      then have ft: "ok (f t)" "same_ns t (f t)" "dstack node (f t) F' d (m # n # ns)" "vk (f t) = vk t"
        "inodes (f t) = inodes t"
        using t(3) d(6) ok_dent [OF t(3)] du vu by (auto simp del: dstack.simps)
      have sf: "same_ns s (f t)" by (rule same_ns_trans [OF t(1) ft(2)])
      have lp: "lookup_loop T (g_root_mnt s) cur p s = lookup_loop T (g_root_mnt (f t)) d p1 (f t)"
        using step d(1) f(1) one(2) sf by (simp add: same_ns_def)
      have sz': "length (components p1) * Suc cost \<le> size F'" using sz d(4) by simp
      have b: "buddy_ok (vk (f t)) F'" using d(2) ft(4) by simp
      have rs: "resolve isdir kid stk (components p) = resolve isdir kid (m # n # ns) (components p1)"
        using comps name stk True m by simp
      obtain u where u: "same_ns (f t) u" "inodes_kept F' (f t) u" "ok u"
        "case resolve isdir kid (m # n # ns) (components p1) of
           Inl e \<Rightarrow> lookup_loop T (g_root_mnt (f t)) d p1 (f t) = Some ((e, 0, 0), u)
         | Inr stk' \<Rightarrow> \<exists>d' F'. lookup_loop T (g_root_mnt (f t)) d p1 (f t) = Some ((VFS_OK, g_root_mnt (f t), d'), u) \<and>
             buddy_ok (vk u) F' \<and> dstack node u F' d' stk'"
        using Cons.hyps(1) [OF p1(2) [symmetric] ft(1) b same_ns_one [OF sf Cons.prems(3)] ft(3) sz' rest(2)]
        by blast
      have gm: "g_root_mnt (f t) = g_root_mnt s" using sf by (simp add: same_ns_def)
      have ik: "inodes_kept F s u"
        using t(2) u(2) ft(5) d(3) by (auto simp: inodes_kept_def dest: mset_subset_eqD)
      show ?thesis
        using u(3,4) ik same_ns_trans [OF sf u(1)] unfolding rs lp gm by blast
    qed
  qed
qed

lemma lookup_ok:
  assumes "ok s" "buddy_ok (vk s) F" "one_mount s" "dstack node s F (g_root_dent s) [r]"
    "dis_mountpoint (dents s (g_root_dent s)) = 0"
    "length (components p) * Suc cost \<le> size F" "\<forall>c \<in> set (components p). length c < 256"
  shows "\<exists>t. same_ns s t \<and> inodes_kept F s t \<and>
    (case resolve isdir kid [r] (components p) of
       Inl e \<Rightarrow> vfs_lookup T (Some p) s = Some ((e, 0, 0), t)
     | Inr stk' \<Rightarrow> \<exists>d. vfs_lookup T (Some p) s = Some ((VFS_OK, g_root_mnt s, d), t) \<and>
         node (inodes t (dinode (dents t d))) = hd stk')"
proof -
  have e: "vfs_lookup T (Some p) s = lookup_loop T (g_root_mnt s) (g_root_dent s) (skip_slashes p) s"
    using assms(3,5) by (simp add: vfs_lookup_def walk_start_def one_mount_def)
  obtain t where t: "same_ns s t" "inodes_kept F s t"
    "case resolve isdir kid [r] (components p) of
       Inl e \<Rightarrow> vfs_lookup T (Some p) s = Some ((e, 0, 0), t)
     | Inr stk' \<Rightarrow> \<exists>d F'. vfs_lookup T (Some p) s = Some ((VFS_OK, g_root_mnt s, d), t) \<and>
         buddy_ok (vk t) F' \<and> dstack node t F' d stk'"
    using lookup_loop_ok [OF assms(1-4), of "skip_slashes p"] assms(6,7) unfolding e by auto
  have "node (inodes t (dinode (dents t d))) = hd stk'" if "dstack node t F' d stk'" for F' d stk'
    using that by (cases stk') simp_all
  then show ?thesis
    using t by (intro exI [of _ t]) (auto split: sum.splits)
qed

end

end
