(* ===== verification/Initfs.thy ===== *)
theory Initfs
  imports Vfs_Spec
begin

text \<open>
  The in-memory root file system of \<^verbatim>\<open>kernel/initfs.c\<close>: a table of eight directory names. Its
  inodes and root dentry live in pages of the allocator; \<open>ia\<close> is the address of the inode
  operation table. The file system meets the contract \<open>dir_tree\<close>, so a path is resolved over
  it as theory \<^verbatim>\<open>Vfs_Spec\<close> shows.
\<close>

section \<open>Model\<close>

record initfs_dir =
  id_name :: cstr
  id_name_len :: u16
  id_in_use :: u8
  id_ino :: u32

record initfs = vfs +
  g_dirs :: "initfs_dir list"
  g_next_ino :: u32

abbreviation (input) INITFS_MAX_DIRS :: nat where "INITFS_MAX_DIRS \<equiv> 8"

definition initfs_inode :: "addr \<Rightarrow> addr \<Rightarrow> u32 \<Rightarrow> vinode" where
  "initfs_inode ia sb n = \<lparr>ino = ucast n, imode = VFS_S_IFDIR OR 0x1ED, irefcnt = 1, isb = sb,
     iops = ia, fops = 0, ipriv = 0\<rparr>"

definition initfs_make_dir :: "addr \<Rightarrow> addr \<Rightarrow> u32 \<Rightarrow> 'x vfs_scheme \<Rightarrow>
    (addr \<times> 'x vfs_scheme) option" where
  "initfs_make_dir ia sb n s = do {
     (v, s1) \<leftarrow> page_alloc1 s;
     if v = 0 then Some (0, s1) else Some (v, upd_inode v (\<lambda>_. initfs_inode ia sb n) s1)
   }"

definition dir_matches :: "initfs_dir \<Rightarrow> cstr \<Rightarrow> u16 \<Rightarrow> bool" where
  "dir_matches d name len \<longleftrightarrow> id_in_use d \<noteq> 0 \<and> id_name_len d = len \<and>
     kstrcmp (Some (id_name d)) (Some name) = 0"

fun find_dir :: "initfs_dir list \<Rightarrow> cstr \<Rightarrow> u16 \<Rightarrow> initfs_dir option" where
  "find_dir [] name len = None"
| "find_dir (d # ds) name len = (if dir_matches d name len then Some d else find_dir ds name len)"

definition initfs_lookup :: "addr \<Rightarrow> 'x initfs_scheme \<Rightarrow> addr \<Rightarrow> addr \<Rightarrow>
    (i32 \<times> 'x initfs_scheme) option" where
  "initfs_lookup ia s dir child =
     (case find_dir (g_dirs s) (dname (dents s child)) (dname_len (dents s child)) of
        None \<Rightarrow> Some (VFS_ENOENT, s)
      | Some d \<Rightarrow> do {
          (v, s1) \<leftarrow> initfs_make_dir ia (isb (inodes s dir)) (id_ino d) s;
          Some (if v \<noteq> 0 then VFS_OK else VFS_ENOMEM, upd_dent child (\<lambda>e. e\<lparr>dinode := v\<rparr>) s1)
        })"

fun free_slot :: "initfs_dir list \<Rightarrow> nat \<Rightarrow> nat option" where
  "free_slot [] i = None"
| "free_slot (d # ds) i = (if id_in_use d = 0 then Some i else free_slot ds (i + 1))"

text \<open>The copy of the name into the 64-byte field has no bounds check; a longer name writes
  past the field, for which there is no result.\<close>

definition initfs_mkdir :: "addr \<Rightarrow> 'x initfs_scheme \<Rightarrow> addr \<Rightarrow> addr \<Rightarrow> u32 \<Rightarrow>
    (i32 \<times> 'x initfs_scheme) option" where
  "initfs_mkdir ia s dir child mode =
     (let name = dname (dents s child); len = dname_len (dents s child) in
      if find_dir (g_dirs s) name len \<noteq> None then Some (VFS_EEXIST, s)
      else case free_slot (g_dirs s) 0 of None \<Rightarrow> Some (VFS_ENOMEM, s)
      | Some i \<Rightarrow>
          if 64 \<le> len then None
          else do {
            let n = g_next_ino s;
            let s1 = s\<lparr>g_dirs := (g_dirs s)[i := \<lparr>id_name = take (unat len) name,
                        id_name_len = len, id_in_use = 1, id_ino = n\<rparr>], g_next_ino := n + 1\<rparr>;
            (v, s2) \<leftarrow> initfs_make_dir ia (isb (inodes s1 dir)) n s1;
            Some (if v \<noteq> 0 then VFS_OK else VFS_ENOMEM, upd_dent child (\<lambda>e. e\<lparr>dinode := v\<rparr>) s2)
          })"

text \<open>Fields \<^verbatim>\<open>getattr\<close> does not set keep the caller's values, here given as 0.\<close>

definition initfs_getattr :: "'x vfs_scheme \<Rightarrow> addr \<Rightarrow> (i32 \<times> vstat \<times> 'x vfs_scheme) option" where
  "initfs_getattr s v = Some (VFS_OK, \<lparr>st_ino = ino (inodes s v), st_mode = imode (inodes s v),
     st_nlink = 2, st_uid = 0, st_gid = 0, st_size = 0, st_blocks = 0, st_atime = 0,
     st_mtime = 0, st_ctime = 0\<rparr>, s)"

definition initfs_dir_iops :: "addr \<Rightarrow> 'x initfs_scheme viops" where
  "initfs_dir_iops ia = \<lparr>op_lookup = Some (initfs_lookup ia), op_create = None,
     op_mkdir = Some (initfs_mkdir ia), op_unlink = None, op_getattr = Some initfs_getattr\<rparr>"

definition root_dentry :: "addr \<Rightarrow> vdentry" where
  "root_dentry i = \<lparr>drefcnt = 1, dname = [slash], dname_len = 1, dinode = i, dparent = 0,
     dis_mountpoint = 0, dpriv = 0\<rparr>"

definition initfs_mount_fs :: "addr \<Rightarrow> 'x vfs_scheme \<Rightarrow> addr \<Rightarrow> addr \<Rightarrow> cstr option \<Rightarrow>
    (i32 \<times> 'x vfs_scheme) option" where
  "initfs_mount_fs ia s sb dev opts = do {
     (root_ino, s1) \<leftarrow> initfs_make_dir ia sb 1 s;
     if root_ino = 0 then Some (VFS_ENOMEM, s1)
     else do {
       (root_dent, s2) \<leftarrow> page_alloc1 s1;
       if root_dent = 0 then do { s3 \<leftarrow> page_free1 s2 root_ino; Some (VFS_ENOMEM, s3) }
       else Some (VFS_OK, upd_super sb (\<lambda>b. b\<lparr>sbroot := root_dent\<rparr>)
              (upd_dent root_dent (\<lambda>_. root_dentry root_ino) s2))
     }
   }"

definition initfs_fs_type :: "addr \<Rightarrow> vfstype" where
  "initfs_fs_type ma = \<lparr>tname = Some [105, 110, 105, 116, 102, 115], tmount = ma, tunmount = 0,
     tnext = 0\<rparr>"

text \<open>\<open>ta\<close> is the address of the static type object, \<open>ma\<close> that of the mount function.\<close>

definition initfs_init :: "addr \<Rightarrow> 'x vfs_scheme \<Rightarrow> (i32 \<times> 'x vfs_scheme) option" where
  "initfs_init ta s = vfs_register_fs ta s"

text \<open>The operation tables of a kernel whose only file system is this one.\<close>

definition initfs_tables :: "addr \<Rightarrow> 'x initfs_scheme vtables" where
  "initfs_tables ia = \<lparr>iops_of = (\<lambda>_. initfs_dir_iops ia),
     fops_of = (\<lambda>_. \<lparr>op_open = None, op_close = None, op_read = None, op_write = None,
       op_llseek = None\<rparr>),
     mount_of = (\<lambda>_. initfs_mount_fs ia), unmount_of = (\<lambda>_ s _. Some s)\<rparr>"

section \<open>The directory tree\<close>

text \<open>A node is an inode number with a mode; every directory has the same entries.\<close>

definition initfs_node :: "vinode \<Rightarrow> u64 \<times> u32" where
  "initfs_node v = (ino v, imode v)"

definition node_isdir :: "u64 \<times> u32 \<Rightarrow> bool" where
  "node_isdir n \<longleftrightarrow> snd n AND VFS_S_IFMT = VFS_S_IFDIR"

definition initfs_kid :: "initfs_dir list \<Rightarrow> u64 \<times> u32 \<Rightarrow> cstr \<Rightarrow> (u64 \<times> u32) option" where
  "initfs_kid dirs n name =
     map_option (\<lambda>d. (ucast (id_ino d), VFS_S_IFDIR OR 0x1ED))
       (find_dir dirs name (word_of_nat (length name)))"

definition initfs_ok :: "addr \<Rightarrow> initfs_dir list \<Rightarrow> 'x initfs_scheme \<Rightarrow> bool" where
  "initfs_ok ia dirs s \<longleftrightarrow> ia \<noteq> 0 \<and> g_dirs s = dirs \<and> (\<forall>i. vfs_is_dir s i \<longrightarrow> iops (inodes s i) = ia)"

lemma initfs_ok_upd:
  "initfs_ok ia dirs s \<Longrightarrow> initfs_ok ia dirs (upd_dent d f s)"
  "initfs_ok ia dirs s \<Longrightarrow> initfs_ok ia dirs (s\<lparr>vk := k\<rparr>)"
  "initfs_ok ia dirs s \<Longrightarrow> initfs_ok ia dirs (upd_inode i (\<lambda>_. initfs_inode ia sb n) s)"
  by (auto simp: initfs_ok_def upd_dent_def upd_inode_def vfs_is_dir_def initfs_inode_def)

lemma make_dir_ok:
  assumes "buddy_ok (vk s) F" "F \<noteq> {#}"
  shows "\<exists>v k F'. initfs_make_dir ia sb n s =
      Some (v, upd_inode v (\<lambda>_. initfs_inode ia sb n) (s\<lparr>vk := k\<rparr>)) \<and> v \<noteq> 0 \<and>
    buddy_ok k F' \<and> F = F' + {# page_of v #}"
proof -
  obtain v k F' where "kalloc (vk s) 1 = Some (v, k)" "v \<noteq> 0" "buddy_ok k F'"
    "F = F' + {# page_of v #}"
    using kalloc_page [OF assms] by blast
  then show ?thesis
    by (intro exI [of _ v] exI [of _ k] exI [of _ F'])
      (simp add: initfs_make_dir_def page_alloc1_def)
qed

lemma initfs_lookup_law:
  assumes "initfs_ok ia dirs t" "page_of di \<notin># F" "buddy_ok (vk t) F" "1 \<le> size F"
    "dents t d = tmp_dentry name par"
  shows "lookup_law initfs_node (initfs_kid dirs) (initfs_ok ia dirs) 1 t F di d
    (initfs_lookup ia t di d)"
proof -
  have dn: "dname (dents t d) = name" "dname_len (dents t d) = word_of_nat (length name)"
    "dinode (dents t d) = 0"
    using assms(5) by (simp_all add: tmp_dentry_def)
  have gd: "g_dirs t = dirs" using assms(1) by (simp add: initfs_ok_def)
  show ?thesis
  proof (cases "find_dir dirs name (word_of_nat (length name))")
    case None
    have "(dents t d)\<lparr>dinode := 0\<rparr> = dents t d" using dn(3) by (cases "dents t d") simp
    then have "dents t = (dents t)(d := (dents t d)\<lparr>dinode := 0\<rparr>)" by simp
    then show ?thesis
      using None assms(1,3) unfolding lookup_law_def
      by (intro exI [of _ "VFS_ENOENT"] exI [of _ t] exI [of _ F] exI [of _ 0])
        (simp add: initfs_lookup_def dn gd initfs_kid_def)
  next
    case (Some e)
    have F0: "F \<noteq> {#}" using assms(4) by auto
    obtain v k F' where m: "initfs_make_dir ia (isb (inodes t di)) (id_ino e) t =
        Some (v, upd_inode v (\<lambda>_. initfs_inode ia (isb (inodes t di)) (id_ino e)) (t\<lparr>vk := k\<rparr>))"
      "v \<noteq> 0" "buddy_ok k F'" "F = F' + {# page_of v #}"
      using make_dir_ok [OF assms(3) F0] by blast
    let ?i = "initfs_inode ia (isb (inodes t di)) (id_ino e)"
    let ?t = "upd_dent d (\<lambda>x. x\<lparr>dinode := v\<rparr>) (upd_inode v (\<lambda>_. ?i) (t\<lparr>vk := k\<rparr>))"
    have l: "initfs_lookup ia t di d = Some (VFS_OK, ?t)"
      using m(1,2) Some by (simp add: initfs_lookup_def dn gd)
    have "once (F' + {# page_of v #})"
      using assms(3) m(4) by (auto simp: buddy_ok_def buddy_rel_def)
    then have vF': "page_of v \<notin># F'" using once_disjoint [of F' "{# page_of v #}"] by auto
    have ik: "inodes_kept F t ?t"
      using m(4) by (auto simp: inodes_kept_def upd_dent_def upd_inode_def)
    have "initfs_ok ia dirs ?t" by (intro initfs_ok_upd assms(1))
    moreover have "same_ns t ?t"
      by (rule same_ns_trans [OF same_ns_upd(2) same_ns_trans [OF same_ns_upd(3) same_ns_upd(1)]])
    moreover have "initfs_node (inodes ?t v) = (ucast (id_ino e), VFS_S_IFDIR OR 0x1ED)"
      by (simp add: upd_dent_def upd_inode_def initfs_node_def initfs_inode_def)
    moreover have "vk ?t = k" by (simp add: upd_dent_def upd_inode_def)
    moreover have "dents ?t = (dents t)(d := (dents t d)\<lparr>dinode := v\<rparr>)"
      by (simp add: upd_dent_def upd_inode_def)
    ultimately show ?thesis
      using l ik m(2,3,4) vF' Some unfolding lookup_law_def
      by (intro exI [of _ "VFS_OK"] exI [of _ ?t] exI [of _ F'] exI [of _ v])
        (simp add: initfs_kid_def dn)
  qed
qed

interpretation ifs: dir_tree "initfs_tables ia" initfs_node node_isdir "initfs_kid dirs"
  "initfs_ok ia dirs" 1
proof
  show "node_isdir (initfs_node v) \<longleftrightarrow> imode v AND VFS_S_IFMT = VFS_S_IFDIR" for v
    by (simp add: node_isdir_def initfs_node_def)
next
  fix s di assume s: "initfs_ok ia dirs s" "vfs_is_dir s di"
  then have "iops (inodes s di) = ia" "ia \<noteq> 0" by (simp_all add: initfs_ok_def)
  then have "iop (initfs_tables ia) op_lookup s di = Some (initfs_lookup ia)"
    by (simp add: iop_def initfs_tables_def initfs_dir_iops_def)
  then show "\<exists>look. iop (initfs_tables ia) op_lookup s di = Some look \<and>
      (\<forall>t F d name par. initfs_ok ia dirs t \<longrightarrow> iops (inodes t di) = iops (inodes s di) \<longrightarrow>
         page_of di \<notin># F \<longrightarrow> page_of d \<notin># F \<longrightarrow> buddy_ok (vk t) F \<longrightarrow> 1 \<le> size F \<longrightarrow>
         dents t d = tmp_dentry name par \<longrightarrow> length name < 256 \<longrightarrow>
         lookup_law initfs_node (initfs_kid dirs) (initfs_ok ia dirs) 1 t F di d (look t di d))"
    using initfs_lookup_law by blast
qed (simp_all add: initfs_ok_upd)

section \<open>Properties\<close>

text \<open>The initial name space: initfs is the root mount, node \<open>r\<close> its root directory.\<close>

definition initfs_root :: "addr \<Rightarrow> initfs_dir list \<Rightarrow> 'x initfs_scheme \<Rightarrow> nat multiset \<Rightarrow>
    u64 \<times> u32 \<Rightarrow> bool" where
  "initfs_root ia dirs s F r \<longleftrightarrow> initfs_ok ia dirs s \<and> buddy_ok (vk s) F \<and> one_mount s \<and>
     dstack initfs_node s F (g_root_dent s) [r] \<and> dis_mountpoint (dents s (g_root_dent s)) = 0"

lemma fresh_page:
  assumes "buddy_ok (vk s) F" "F \<noteq> {#}"
  shows "\<exists>p k F'. page_alloc1 s = Some (p, s\<lparr>vk := k\<rparr>) \<and> p \<noteq> 0 \<and> buddy_ok k F' \<and>
    F = F' + {# page_of p #} \<and> page_of p \<notin># F'"
proof -
  obtain p k F' where k: "kalloc (vk s) 1 = Some (p, k)" "p \<noteq> 0" "buddy_ok k F'"
    "F = F' + {# page_of p #}"
    using kalloc_page [OF assms] by blast
  have "once (F' + {# page_of p #})"
    using assms(1) k(4) by (auto simp: buddy_ok_def buddy_rel_def)
  then have "page_of p \<notin># F'" using once_disjoint [of F' "{# page_of p #}"] by auto
  then show ?thesis using k
    by (intro exI [of _ p] exI [of _ k] exI [of _ F']) (simp add: page_alloc1_def)
qed

lemma mount_root_ok:
  fixes s :: "'x initfs_scheme"
  assumes "initfs_ok ia dirs s" "buddy_ok (vk s) F" "4 \<le> size F"
    "g_root_mnt s = 0" "g_mounts s = 0" "vfs_find_fs s (Some name) = Some t" "t \<noteq> 0"
  shows "\<exists>u F'. vfs_mount (initfs_tables ia) (Some name) dev (Some [slash]) fl opts s =
      Some (VFS_OK, u) \<and> initfs_root ia dirs u F' (1, VFS_S_IFDIR OR 0x1ED) \<and> size F \<le> size F' + 4"
proof -
  have F0: "F \<noteq> {#}" using assms(3) by auto
  obtain sb k1 F1 where 1: "page_alloc1 s = Some (sb, s\<lparr>vk := k1\<rparr>)" "sb \<noteq> 0" "buddy_ok k1 F1"
    "F = F1 + {# page_of sb #}"
    using fresh_page [OF assms(2) F0] by blast
  define s2 where "s2 = upd_super sb (\<lambda>_. zero_super\<lparr>sbrefcnt := 1, sbflags := fl, sbtype := t\<rparr>)
    (s\<lparr>vk := k1\<rparr>)"
  have v2: "vk s2 = k1" by (simp add: s2_def upd_super_def)
  have "F1 \<noteq> {#}" using assms(3) 1(4) by auto
  then obtain v k2 F2 where 2: "page_alloc1 s2 = Some (v, s2\<lparr>vk := k2\<rparr>)" "v \<noteq> 0" "buddy_ok k2 F2"
    "F1 = F2 + {# page_of v #}" "page_of v \<notin># F2"
    using fresh_page [of s2 F1] 1(3) v2 by auto
  define s3 where "s3 = upd_inode v (\<lambda>_. initfs_inode ia sb 1) (s2\<lparr>vk := k2\<rparr>)"
  have v3: "vk s3 = k2" by (simp add: s3_def upd_inode_def)
  have "F2 \<noteq> {#}" using assms(3) 1(4) 2(4) by auto
  then obtain r k3 F3 where 3: "page_alloc1 s3 = Some (r, s3\<lparr>vk := k3\<rparr>)" "r \<noteq> 0" "buddy_ok k3 F3"
    "F2 = F3 + {# page_of r #}" "page_of r \<notin># F3"
    using fresh_page [of s3 F2] 2(3) v3 by auto
  define s4 where "s4 = upd_super sb (\<lambda>b. b\<lparr>sbroot := r\<rparr>)
    (upd_dent r (\<lambda>_. root_dentry v) (s3\<lparr>vk := k3\<rparr>))"
  have v4: "vk s4 = k3" by (simp add: s4_def upd_super_def upd_dent_def)
  have "F3 \<noteq> {#}" using assms(3) 1(4) 2(4) 3(4) by auto
  then obtain m k4 F4 where 4: "page_alloc1 s4 = Some (m, s4\<lparr>vk := k4\<rparr>)" "m \<noteq> 0" "buddy_ok k4 F4"
    "F3 = F4 + {# page_of m #}" "page_of m \<notin># F4"
    using fresh_page [of s4 F3] 3(3) v4 by auto
  define s5 where "s5 = upd_mount m (\<lambda>_. zero_mount\<lparr>mrefcnt := 1, mflags := fl, msb := sb,
    mroot := r\<rparr>) (s4\<lparr>vk := k4\<rparr>)"
  define u where "u = (upd_mount m (\<lambda>x. x\<lparr>mnext := 0\<rparr>) (s5\<lparr>g_root_mnt := m, g_root_dent := r\<rparr>))
    \<lparr>g_mounts := m\<rparr>"
  have mk: "initfs_make_dir ia sb 1 s2 = Some (v, s3)"
    using 2(1,2) by (simp add: initfs_make_dir_def s3_def)
  have mf: "initfs_mount_fs ia s2 sb dev opts = Some (VFS_OK, s4)"
    using mk 2(2) 3(1,2) by (simp add: initfs_mount_fs_def s4_def)
  have roots: "sbroot (supers s4 sb) = r" "dinode (dents s4 r) = v"
    by (simp_all add: s4_def upd_super_def upd_dent_def root_dentry_def)
  have "vfs_mount (initfs_tables ia) (Some name) dev (Some [slash]) fl opts s = Some (VFS_OK, u)"
    unfolding vfs_mount_def
    using assms(4,6,7) 1(1,2) mf roots 3(2) 2(2) 4(1,2)
    by (simp add: s2_def [symmetric] initfs_tables_def Let_def)
      (simp add: u_def s5_def upd_mount_def s4_def s3_def s2_def upd_dent_def upd_inode_def
        upd_super_def assms(5))
  moreover have "initfs_root ia dirs u F4 (1, VFS_S_IFDIR OR 0x1ED)"
    unfolding initfs_root_def
  proof (intro conjI)
    show "initfs_ok ia dirs u"
      using assms(1) by (auto simp: initfs_ok_def u_def s5_def s4_def s3_def s2_def upd_mount_def
          upd_dent_def upd_inode_def upd_super_def vfs_is_dir_def initfs_inode_def)
    show "buddy_ok (vk u) F4" using 4(3) by (simp add: u_def s5_def upd_mount_def)
    show "one_mount u"
      using 4(2) 3(2) by (simp add: one_mount_def u_def s5_def upd_mount_def zero_mount_def)
    have "page_of r \<notin># F4" "page_of v \<notin># F4" using 2(4,5) 3(4,5) 4(4) by auto
    then show "dstack initfs_node u F4 (g_root_dent u) [(1, VFS_S_IFDIR OR 0x1ED)]"
      using 3(2) 2(2) by (simp add: u_def s5_def s4_def s3_def upd_mount_def upd_dent_def
          upd_super_def upd_inode_def root_dentry_def initfs_node_def initfs_inode_def)
    show "dis_mountpoint (dents u (g_root_dent u)) = 0"
      by (simp add: u_def s5_def s4_def upd_mount_def upd_dent_def upd_super_def root_dentry_def)
  qed
  moreover have "size F \<le> size F4 + 4" using 1(4) 2(4) 3(4) 4(4) by simp
  ultimately show ?thesis by blast
qed

text \<open>Ten free pages after booting with a small memory map.\<close>

lemma ten_pages:
  "\<exists>k F. buddy_ok k F \<and> size F = 10"
proof -
  have hh: "khhdm fresh_kmem = hhdm0" by (simp add: fresh_kmem_def kinit_def)
  have w: "window_ok (khhdm fresh_kmem) 0xb000" by (simp add: hh hhdm0_def window_ok_def)
  have lo: "(unat (khhdm fresh_kmem) + unat (0x1000 :: u64) + 4095) div 4096 = 0xffff800000001"
    and hi: "(unat (khhdm fresh_kmem) + unat (0xb000 :: u64)) div 4096 = 0xffff80000000b"
    by (simp_all add: hh hhdm0_def)
  have on: "once ({#} + mset [0xffff800000001 ..< 0xffff80000000b])"
    by (simp only: once_def mset_upt) (simp add: count_mset_set')
  have le: "(0x1000 :: u64) \<le> 0xb000" by (simp add: word_le_nat_alt)
  obtain st where "buddy_ok st (mset [0xffff800000001 ..< 0xffff80000000b])"
    using freerange_rel [OF buddy_ok_fresh w le, unfolded lo hi, OF on] by auto
  then show ?thesis
    by (intro exI [of _ st] exI [of _ "mset [0xffff800000001 ..< 0xffff80000000b]"]) simp
qed

text \<open>A boot-time VFS: the initfs type registered, the directories \<^verbatim>\<open>dev\<close> and \<^verbatim>\<open>mnt\<close>.\<close>

definition boot_dirs :: "initfs_dir list" where
  "boot_dirs = [\<lparr>id_name = [100, 101, 118], id_name_len = 3, id_in_use = 1, id_ino = 2\<rparr>,
     \<lparr>id_name = [109, 110, 116], id_name_len = 3, id_in_use = 1, id_ino = 3\<rparr>]"

definition boot_vfs :: "kmem \<Rightarrow> initfs" where
  "boot_vfs k = \<lparr>vk = k,
     inodes = (\<lambda>_. \<lparr>ino = 0, imode = 0, irefcnt = 0, isb = 0, iops = 0, fops = 0, ipriv = 0\<rparr>),
     dents = (\<lambda>_. root_dentry 0), supers = (\<lambda>_. zero_super), mounts = (\<lambda>_. zero_mount),
     files = (\<lambda>_. zero_file), fstypes = (\<lambda>_. initfs_fs_type 0x100), g_fs_types = 0x200,
     g_mounts = 0, g_root_mnt = 0, g_root_dent = 0, g_dirs = boot_dirs, g_next_ino = 4\<rparr>"

abbreviation initfs_name :: cstr where "initfs_name \<equiv> [105, 110, 105, 116, 102, 115]"

lemma boot_vfs_ok:
  "initfs_ok 0x300 boot_dirs (boot_vfs k)" "g_root_mnt (boot_vfs k) = 0" "g_mounts (boot_vfs k) = 0"
  "vk (boot_vfs k) = k" "vfs_find_fs (boot_vfs k) (Some initfs_name) = Some 0x200"
proof -
  show "vfs_find_fs (boot_vfs k) (Some initfs_name) = Some 0x200"
    unfolding vfs_find_fs_def
    by (subst find_fs_from.simps) (simp add: boot_vfs_def initfs_fs_type_def kstrcmp_def)
qed (simp_all add: boot_vfs_def initfs_ok_def vfs_is_dir_def)

text \<open>
  Mounting initfs on \<^verbatim>\<open>/\<close> in an empty name space, with four pages free, succeeds and sets
  up the root: the mount list holds the one mount, whose root dentry carries a directory inode
  with number 1, and the allocator's invariant holds.
\<close>

lemma mount_root_initfs:
  fixes s :: "'x initfs_scheme"
  assumes "initfs_ok ia dirs s" and "buddy_ok (vk s) F" and "4 \<le> size F"
    and "g_root_mnt s = 0" and "g_mounts s = 0"
    and "vfs_find_fs s (Some name) = Some t" and "t \<noteq> 0"
  shows "\<exists>u F'. vfs_mount (initfs_tables ia) (Some name) dev (Some [slash]) fl opts s =
      Some (VFS_OK, u) \<and> initfs_root ia dirs u F' (1, VFS_S_IFDIR OR 0x1ED) \<and> size F \<le> size F' + 4"
  by (rule mount_root_ok [OF assms])

text \<open>
  C3: \<^verbatim>\<open>vfs_lookup\<close> over the mounted initfs computes path resolution: for a path whose
  components fit a dentry name, with two free pages per component, it returns and gives the
  node that the abstract resolution (with \<^verbatim>\<open>.\<close> and \<^verbatim>\<open>..\<close>, the root being its own parent)
  reaches from the root, or that resolution's error; existing inodes are untouched.
\<close>

theorem vfs_lookup_resolves:
  assumes "initfs_root ia dirs s F r" and "length (path_names p) * 2 \<le> size F"
    and "\<forall>c \<in> set (path_names p). length c < 256"
  shows "\<exists>t. inodes_kept F s t \<and>
    (case resolve node_isdir (initfs_kid dirs) [r] (path_names p) of
       Inl e \<Rightarrow> vfs_lookup (initfs_tables ia) (Some p) s = Some ((e, 0, 0), t)
     | Inr stk \<Rightarrow> \<exists>d. vfs_lookup (initfs_tables ia) (Some p) s =
           Some ((VFS_OK, g_root_mnt s, d), t) \<and>
         initfs_node (inodes t (dinode (dents t d))) = hd stk)"
proof -
  have i: "initfs_ok ia dirs s" "buddy_ok (vk s) F" "one_mount s"
    "dstack initfs_node s F (g_root_dent s) [r]" "dis_mountpoint (dents s (g_root_dent s)) = 0"
    using assms(1) unfolding initfs_root_def by blast+
  have b: "length (components p) * Suc 1 \<le> size F" "\<forall>c \<in> set (components p). length c < 256"
    using assms(2,3) by (simp_all add: components_eq)
  from ifs.lookup_ok [OF i b] show ?thesis unfolding components_eq by blast
qed

theorem vfs_lookup_resolves_witness:
  "\<exists>(s :: initfs) t d. vfs_lookup (initfs_tables 0x300) (Some [47, 100, 101, 118, 47, 46, 46, 47, 47, 109, 110, 116]) s
      = Some ((VFS_OK, g_root_mnt s, d), t) \<and> ino (inodes t (dinode (dents t d))) = 3"
proof -
  obtain k F where k: "buddy_ok k F" "size F = 10" using ten_pages by blast
  then have b: "buddy_ok (vk (boot_vfs k)) F" "4 \<le> size F" using boot_vfs_ok(4) by simp_all
  obtain u :: initfs and F' where u: "initfs_root 0x300 boot_dirs u F' (1, VFS_S_IFDIR OR 0x1ED)" "size F \<le> size F' + 4"
    using mount_root_ok [OF boot_vfs_ok(1) b boot_vfs_ok(2,3,5), of 0 0 None] by auto
  let ?p = "[47, 100, 101, 118, 47, 46, 46, 47, 47, 109, 110, 116] :: cstr"
  have pn: "path_names ?p = [[100, 101, 118], [46, 46], [109, 110, 116]]"
    by (simp add: path_names_def)
  have m: "find_dir boot_dirs [100, 101, 118] 3 = Some (boot_dirs ! 0)"
    "find_dir boot_dirs [109, 110, 116] 3 = Some (boot_dirs ! 1)"
    using strcmp_sign [of "[100, 101, 118]" "[109, 110, 116]"]
    by (simp_all add: boot_dirs_def dir_matches_def kstrcmp_def wf_cstr_def)
  have "resolve node_isdir (initfs_kid boot_dirs) [(1, VFS_S_IFDIR OR 0x1ED)] (path_names ?p) =
      Inr [(3, VFS_S_IFDIR OR 0x1ED), (1, VFS_S_IFDIR OR 0x1ED)]"
    unfolding pn by (simp add: initfs_kid_def m node_isdir_def) (simp add: boot_dirs_def)
  moreover have "length (path_names ?p) * 2 \<le> size F'" using u(2) k(2) unfolding pn by simp
  moreover have "\<forall>c \<in> set (path_names ?p). length c < 256" unfolding pn by simp
  ultimately show ?thesis
    using vfs_lookup_resolves [OF u(1), of ?p] by (auto simp: initfs_node_def)
qed

lemma free_slot_bound: "free_slot ds i = Some j \<Longrightarrow> i \<le> j \<and> j < i + length ds \<and> id_in_use (ds ! (j - i)) = 0"
proof (induction ds arbitrary: i)
  case (Cons d ds)
  show ?case
  proof (cases "id_in_use d = 0")
    case False
    then have "Suc i \<le> j \<and> j < Suc i + length ds \<and> id_in_use (ds ! (j - Suc i)) = 0"
      using Cons by (intro Cons.IH) simp
    then show ?thesis by (auto simp: nth_Cons')
  qed (use Cons.prems in simp)
qed simp

lemma find_dir_update:
  assumes "find_dir ds name len = None" "i < length ds" "dir_matches d name len"
  shows "find_dir (ds[i := d]) name len = Some d"
  using assms
proof (induction ds arbitrary: i)
  case (Cons e ds)
  then show ?case by (cases i) (auto split: if_splits)
qed simp

lemma find_dir_update_other:
  assumes "i < length ds" "\<not> dir_matches (ds ! i) name len" "\<not> dir_matches d name len"
  shows "find_dir (ds[i := d]) name len = find_dir ds name len"
  using assms
proof (induction ds arbitrary: i)
  case (Cons e ds)
  then show ?case by (cases i) auto
qed simp

text \<open>
  \<^verbatim>\<open>mkdir\<close> on initfs, for a name of fewer than 64 bytes and with a page free: an existing
  name gives \<^verbatim>\<open>VFS_EEXIST\<close> and a full table \<^verbatim>\<open>VFS_ENOMEM\<close>, both changing nothing; otherwise
  the name is found afterwards with the next inode number, every other name as before, and the
  dentry gets an inode. A name of 64 bytes or more reaches the unchecked copy.
\<close>

lemma initfs_mkdir_spec:
  assumes "buddy_ok (vk s) F" and "F \<noteq> {#}" and "dents s d = tmp_dentry name par"
    and "length name < 256"
  shows "(find_dir (g_dirs s) name (word_of_nat (length name)) \<noteq> None \<longrightarrow>
      initfs_mkdir ia s di d mode = Some (VFS_EEXIST, s)) \<and>
    (find_dir (g_dirs s) name (word_of_nat (length name)) = None \<and> free_slot (g_dirs s) 0 = None \<longrightarrow>
      initfs_mkdir ia s di d mode = Some (VFS_ENOMEM, s)) \<and>
    (find_dir (g_dirs s) name (word_of_nat (length name)) = None \<and> free_slot (g_dirs s) 0 \<noteq> None \<longrightarrow>
      (if 64 \<le> length name then initfs_mkdir ia s di d mode = None
       else \<exists>t. initfs_mkdir ia s di d mode = Some (VFS_OK, t) \<and> dinode (dents t d) \<noteq> 0 \<and>
         map_option id_ino (find_dir (g_dirs t) name (word_of_nat (length name))) = Some (g_next_ino s) \<and>
         (\<forall>w. wf_cstr w \<and> wf_cstr name \<and> w \<noteq> name \<longrightarrow>
           find_dir (g_dirs t) w (word_of_nat (length w)) = find_dir (g_dirs s) w (word_of_nat (length w)))))"
proof -
  have dn: "dname (dents s d) = name" "dname_len (dents s d) = word_of_nat (length name)"
    using assms(3) by (simp_all add: tmp_dentry_def)
  have ul: "unat (word_of_nat (length name) :: u16) = length name"
    using assms(4) by (intro unat_of_nat_id) simp
  have l64: "64 \<le> (word_of_nat (length name) :: u16) \<longleftrightarrow> 64 \<le> length name"
    using ul by (simp add: word_le_nat_alt)
  have "\<exists>t. initfs_mkdir ia s di d mode = Some (VFS_OK, t) \<and> dinode (dents t d) \<noteq> 0 \<and>
      map_option id_ino (find_dir (g_dirs t) name (word_of_nat (length name))) = Some (g_next_ino s) \<and>
      (\<forall>w. wf_cstr w \<and> wf_cstr name \<and> w \<noteq> name \<longrightarrow>
        find_dir (g_dirs t) w (word_of_nat (length w)) = find_dir (g_dirs s) w (word_of_nat (length w)))"
    if none: "find_dir (g_dirs s) name (word_of_nat (length name)) = None"
      and i: "free_slot (g_dirs s) 0 = Some i" and short: "length name < 64" for i
  proof -
    define e where "e = \<lparr>id_name = name, id_name_len = (word_of_nat (length name) :: u16),
      id_in_use = (1 :: u8), id_ino = g_next_ino s\<rparr>"
    define s1 where "s1 = s\<lparr>g_dirs := (g_dirs s)[i := e], g_next_ino := g_next_ino s + 1\<rparr>"
    have ib: "i < length (g_dirs s)" "id_in_use (g_dirs s ! i) = 0"
      using free_slot_bound [OF i] by simp_all
    obtain v k where m: "initfs_make_dir ia (isb (inodes s1 di)) (g_next_ino s) s1 =
        Some (v, upd_inode v (\<lambda>_. initfs_inode ia (isb (inodes s1 di)) (g_next_ino s)) (s1\<lparr>vk := k\<rparr>))"
      "v \<noteq> 0"
      using make_dir_ok [of s1 F ia "isb (inodes s1 di)" "g_next_ino s"] assms(1,2)
      by (auto simp: s1_def)
    let ?t = "upd_dent d (\<lambda>x. x\<lparr>dinode := v\<rparr>)
      (upd_inode v (\<lambda>_. initfs_inode ia (isb (inodes s1 di)) (g_next_ino s)) (s1\<lparr>vk := k\<rparr>))"
    have in1: "inodes s1 = inodes s" by (simp add: s1_def)
    have gt: "g_dirs ?t = (g_dirs s)[i := e]" by (simp add: upd_dent_def upd_inode_def s1_def)
    have "initfs_mkdir ia s di d mode = Some (VFS_OK, ?t)"
      using none i short m l64 ul
      by (simp add: initfs_mkdir_def Let_def dn s1_def [symmetric] e_def [symmetric] in1)
    moreover have "dir_matches e name (word_of_nat (length name))"
      by (simp add: dir_matches_def e_def kstrcmp_def)
    then have "find_dir (g_dirs ?t) name (word_of_nat (length name)) = Some e"
      unfolding gt by (rule find_dir_update [OF none ib(1)])
    moreover have "find_dir (g_dirs ?t) w (word_of_nat (length w)) =
        find_dir (g_dirs s) w (word_of_nat (length w))" if "wf_cstr w" "wf_cstr name" "w \<noteq> name" for w
      unfolding gt using ib that strcmp_sign [OF that(2,1)]
      by (intro find_dir_update_other) (auto simp: dir_matches_def e_def kstrcmp_def)
    ultimately show ?thesis
      using m(2) by (intro exI [of _ ?t]) (simp add: e_def upd_dent_def)
  qed
  then show ?thesis using l64
    by (auto simp: initfs_mkdir_def Let_def dn)
qed

end
