(* ===== verification/Pipe.thy ===== *)
theory Pipe
  imports Initfs
begin

text \<open>
  Pipes: \<^verbatim>\<open>kernel/pipe.c\<close>. The transfer functions run under the pipe's lock and give up the
  CPU with \<^verbatim>\<open>yield()\<close> while they wait; what other processes do to the pipe in the meantime is
  the argument \<open>yld\<close>, so the functions are verified for every environment. The interleaving of
  the critical sections of any number of readers and writers is the step relation
  \<open>pipe_step\<close>.
\<close>

section \<open>Model\<close>

record pipe =
  plock :: spinlock
  pbuf :: "u8 list"
  read_pos :: u32
  write_pos :: u32
  pcount :: u32
  read_open :: i32
  write_open :: i32

text \<open>A running process sees the pipe, its CPU, and an environment.\<close>

record 'e pipe_sys =
  pp :: pipe
  pcpu :: cpu
  penv :: 'e

abbreviation (input) PIPE_BUF :: u32 where "PIPE_BUF \<equiv> 4096"
abbreviation (input) PIPE_READ_END :: u64 where "PIPE_READ_END \<equiv> 1"
abbreviation (input) PIPE_WRITE_END :: u64 where "PIPE_WRITE_END \<equiv> 2"

definition plock_acquire :: "nat \<Rightarrow> 'e pipe_sys \<Rightarrow> 'e pipe_sys option" where
  "plock_acquire me s = do {
     (c, l) \<leftarrow> acquire me (pcpu s) (plock (pp s));
     Some (s\<lparr>pcpu := c, pp := (pp s)\<lparr>plock := l\<rparr>\<rparr>) }"

definition plock_release :: "nat \<Rightarrow> 'e pipe_sys \<Rightarrow> 'e pipe_sys option" where
  "plock_release me s = do {
     (c, l) \<leftarrow> release me (pcpu s) (plock (pp s));
     Some (s\<lparr>pcpu := c, pp := (pp s)\<lparr>plock := l\<rparr>\<rparr>) }"

text \<open>The bodies of the critical sections: one byte out, one byte in.\<close>

definition pipe_get :: "pipe \<Rightarrow> u8 \<times> pipe" where
  "pipe_get p = (pbuf p ! unat (read_pos p mod PIPE_BUF),
     p\<lparr>read_pos := read_pos p + 1, pcount := pcount p - 1\<rparr>)"

definition pipe_put :: "pipe \<Rightarrow> u8 \<Rightarrow> pipe" where
  "pipe_put p c = p\<lparr>pbuf := (pbuf p)[unat (write_pos p mod PIPE_BUF) := c],
     write_pos := write_pos p + 1, pcount := pcount p + 1\<rparr>"

text \<open>The inner wait loops: \<open>Some (False, s)\<close> when the other end is closed, with the lock
  released.\<close>

partial_function (option) read_wait ::
  "nat \<Rightarrow> ('e pipe_sys \<Rightarrow> 'e pipe_sys option) \<Rightarrow> 'e pipe_sys \<Rightarrow> (bool \<times> 'e pipe_sys) option" where
  "read_wait me yld s =
     (if pcount (pp s) = 0 then
        if write_open (pp s) = 0 then do { s1 \<leftarrow> plock_release me s; Some (False, s1) }
        else do {
          s1 \<leftarrow> plock_release me s;
          s2 \<leftarrow> yld s1;
          s3 \<leftarrow> plock_acquire me s2;
          read_wait me yld s3
        }
      else Some (True, s))"

partial_function (option) write_wait ::
  "nat \<Rightarrow> ('e pipe_sys \<Rightarrow> 'e pipe_sys option) \<Rightarrow> 'e pipe_sys \<Rightarrow> (bool \<times> 'e pipe_sys) option" where
  "write_wait me yld s =
     (if pcount (pp s) = PIPE_BUF then
        if read_open (pp s) = 0 then do { s1 \<leftarrow> plock_release me s; Some (False, s1) }
        else do {
          s1 \<leftarrow> plock_release me s;
          s2 \<leftarrow> yld s1;
          s3 \<leftarrow> plock_acquire me s2;
          write_wait me yld s3
        }
      else Some (True, s))"

text \<open>\<open>dst\<close> collects the bytes stored through \<^verbatim>\<open>dst[n++]\<close>; the result is the count returned.\<close>

partial_function (option) pipe_read_loop :: "nat \<Rightarrow> ('e pipe_sys \<Rightarrow> 'e pipe_sys option) \<Rightarrow>
    u64 \<Rightarrow> u64 \<Rightarrow> u8 list \<Rightarrow> 'e pipe_sys \<Rightarrow> (i64 \<times> u8 list \<times> 'e pipe_sys) option" where
  "pipe_read_loop me yld n len dst s =
     (if n < len then do {
        s1 \<leftarrow> plock_acquire me s;
        (go, s2) \<leftarrow> read_wait me yld s1;
        if \<not> go then Some (n, dst, s2)
        else do {
          let (c, p) = pipe_get (pp s2);
          s3 \<leftarrow> plock_release me (s2\<lparr>pp := p\<rparr>);
          pipe_read_loop me yld (n + 1) len (dst @ [c]) s3
        }
      } else Some (n, dst, s))"

definition pipe_read :: "nat \<Rightarrow> ('e pipe_sys \<Rightarrow> 'e pipe_sys option) \<Rightarrow> u64 \<Rightarrow> 'e pipe_sys \<Rightarrow>
    (i64 \<times> u8 list \<times> 'e pipe_sys) option" where
  "pipe_read me yld len s = pipe_read_loop me yld 0 len [] s"

partial_function (option) pipe_write_loop :: "nat \<Rightarrow> ('e pipe_sys \<Rightarrow> 'e pipe_sys option) \<Rightarrow>
    u8 list \<Rightarrow> u64 \<Rightarrow> u64 \<Rightarrow> 'e pipe_sys \<Rightarrow> (i64 \<times> 'e pipe_sys) option" where
  "pipe_write_loop me yld src i len s =
     (if i < len then do {
        s1 \<leftarrow> plock_acquire me s;
        (go, s2) \<leftarrow> write_wait me yld s1;
        if \<not> go then Some (- 1, s2)
        else do {
          s3 \<leftarrow> plock_release me (s2\<lparr>pp := pipe_put (pp s2) (src ! unat i)\<rparr>);
          pipe_write_loop me yld src (i + 1) len s3
        }
      } else Some (len, s))"

definition pipe_write :: "nat \<Rightarrow> ('e pipe_sys \<Rightarrow> 'e pipe_sys option) \<Rightarrow> u8 list \<Rightarrow> u64 \<Rightarrow>
    'e pipe_sys \<Rightarrow> (i64 \<times> 'e pipe_sys) option" where
  "pipe_write me yld src len s = pipe_write_loop me yld src 0 len s"

text \<open>Closing an end; the flag says that the pipe is dead and its page is to be freed.\<close>

definition pipe_close :: "nat \<Rightarrow> u64 \<Rightarrow> 'e pipe_sys \<Rightarrow> (bool \<times> 'e pipe_sys) option" where
  "pipe_close me end_tag s = do {
     s1 \<leftarrow> plock_acquire me s;
     let p = (if end_tag = PIPE_WRITE_END then (pp s1)\<lparr>write_open := write_open (pp s1) - 1\<rparr>
              else (pp s1)\<lparr>read_open := read_open (pp s1) - 1\<rparr>);
     let dead = (read_open p = 0 \<and> write_open p = 0);
     s2 \<leftarrow> plock_release me (s1\<lparr>pp := p\<rparr>);
     Some (dead, s2)
   }"

text \<open>Creation, over the state so far extended by a heap of pipes.\<close>

record vfs_pipes = initfs +
  pipes :: "addr \<Rightarrow> pipe"

definition new_pipe :: pipe where
  "new_pipe = \<lparr>plock = initlock ''pipe'', pbuf = replicate 4096 0, read_pos = 0, write_pos = 0,
     pcount = 0, read_open = 1, write_open = 1\<rparr>"

definition pipe_inode :: "addr \<Rightarrow> addr \<Rightarrow> u64 \<Rightarrow> vinode" where
  "pipe_inode p ops end_tag = \<lparr>ino = end_tag, imode = 0, irefcnt = 1, isb = 0, iops = 0,
     fops = ops, ipriv = p\<rparr>"

text \<open>As in the source, the file's own \<^verbatim>\<open>fops\<close> stays NULL.\<close>

definition make_pipe_end :: "addr \<Rightarrow> addr \<Rightarrow> u64 \<Rightarrow> 'x vfs_scheme \<Rightarrow>
    (addr \<times> 'x vfs_scheme) option" where
  "make_pipe_end p ops end_tag s = do {
     (i, s1) \<leftarrow> page_alloc1 s;
     if i = 0 then Some (0, s1)
     else do {
       let s2 = upd_inode i (\<lambda>_. pipe_inode p ops end_tag) s1;
       (f, s3) \<leftarrow> page_alloc1 s2;
       if f = 0 then do { s4 \<leftarrow> page_free1 s3 i; Some (0, s4) }
       else Some (f, upd_file f (\<lambda>_. zero_file\<lparr>finode := i, frefcnt := 1\<rparr>) s3)
     }
   }"

definition free_end :: "addr \<Rightarrow> 'x vfs_scheme \<Rightarrow> 'x vfs_scheme option" where
  "free_end f s =
     (if f \<noteq> 0 then do { s1 \<leftarrow> page_free1 s (finode (files s f)); page_free1 s1 f } else Some s)"

definition pipe_create :: "addr \<Rightarrow> addr \<Rightarrow> 'x vfs_pipes_scheme \<Rightarrow>
    ((i32 \<times> addr \<times> addr) \<times> 'x vfs_pipes_scheme) option" where
  "pipe_create read_ops write_ops s = do {
     (p, s1) \<leftarrow> page_alloc1 s;
     if p = 0 then Some ((- 1, 0, 0), s1)
     else do {
       let s2 = s1\<lparr>pipes := (pipes s1)(p := new_pipe)\<rparr>;
       (r, s3) \<leftarrow> make_pipe_end p read_ops PIPE_READ_END s2;
       (w, s4) \<leftarrow> make_pipe_end p write_ops PIPE_WRITE_END s3;
       if r = 0 \<or> w = 0 then do {
         s5 \<leftarrow> free_end r s4;
         s6 \<leftarrow> free_end w s5;
         s7 \<leftarrow> page_free1 s6 p;
         Some ((- 1, 0, 0), s7)
       } else Some ((0, r, w), s4)
     }
   }"

section \<open>The byte queue\<close>

definition wf_pipe :: "pipe \<Rightarrow> bool" where
  "wf_pipe p \<longleftrightarrow> length (pbuf p) = 4096 \<and> pcount p \<le> 4096 \<and> write_pos p = read_pos p + pcount p"

definition pipe_list :: "pipe \<Rightarrow> u8 list" where
  "pipe_list p = map (\<lambda>i. pbuf p ! ((unat (read_pos p) + i) mod 4096)) [0..<unat (pcount p)]"

lemma length_pipe_list [simp]: "length (pipe_list p) = unat (pcount p)"
  by (simp add: pipe_list_def)

lemma pipe_list_empty: "pipe_list p = [] \<longleftrightarrow> pcount p = 0"
  by (simp add: pipe_list_def unat_eq_0)

text \<open>The 32-bit positions may wrap: the buffer size divides \<open>2\<^sup>32\<close>.\<close>

lemma pos_add: "(unat (r + c :: u32) + i) mod 4096 = (unat r + unat c + i) mod 4096"
proof -
  have "unat (r + c) mod 4096 = (unat r + unat c) mod 4096"
    by (simp add: unat_word_ariths mod_mod_cancel)
  then show ?thesis by (metis mod_add_left_eq)
qed

lemma pos_mod: "unat (r mod 4096 :: u32) = unat r mod 4096"
  by (simp add: unat_mod)

lemma pipe_get_ok:
  assumes "wf_pipe p" "pcount p \<noteq> 0"
  shows "wf_pipe (snd (pipe_get p))"
    and "pipe_list p = fst (pipe_get p) # pipe_list (snd (pipe_get p))"
proof -
  have n: "0 < unat (pcount p)" "unat (pcount p - 1) = unat (pcount p) - 1"
    using assms(2) by (simp_all add: unat_gt_0 unat_minus_one)
  then have le: "pcount p - 1 \<le> 4096"
    using assms(1) le_diff_conv by (simp add: wf_pipe_def word_le_nat_alt)
  then show "wf_pipe (snd (pipe_get p))"
    using assms(1) by (simp add: wf_pipe_def pipe_get_def)
  obtain k where k: "unat (pcount p) = Suc k" using n(1) by (cases "unat (pcount p)") auto
  have u: "[0..<Suc k] = 0 # map Suc [0..<k]" by (simp only: map_Suc_upt upt_conv_Cons [OF zero_less_Suc])
  have sh: "(unat (read_pos p + 1) + i) mod 4096 = (unat (read_pos p) + Suc i) mod 4096" for i
    using pos_add [of "read_pos p" 1 i] by simp
  have "pipe_list (snd (pipe_get p)) =
      map (\<lambda>i. pbuf p ! ((unat (read_pos p) + Suc i) mod 4096)) [0..<k]"
    unfolding pipe_list_def pipe_get_def using n(2) k sh by simp
  moreover have "fst (pipe_get p) = pbuf p ! (unat (read_pos p) mod 4096)"
    by (simp add: pipe_get_def pos_mod)
  ultimately show "pipe_list p = fst (pipe_get p) # pipe_list (snd (pipe_get p))"
    unfolding pipe_list_def [of p] k u by (simp only: list.map map_map o_def add_0_right)
qed

lemma pipe_put_ok:
  assumes "wf_pipe p" "pcount p \<noteq> 4096"
  shows "wf_pipe (pipe_put p c)" and "pipe_list (pipe_put p c) = pipe_list p @ [c]"
proof -
  let ?n = "unat (pcount p)" and ?r = "unat (read_pos p)"
  have le: "?n \<le> 4096" using assms(1) by (simp add: wf_pipe_def word_le_nat_alt)
  moreover have "?n \<noteq> 4096" using assms(2) word_unat_eq_iff [of "pcount p" 4096] by simp
  ultimately have n: "?n < 4096" by simp
  then have s: "unat (pcount p + 1) = Suc ?n" by (simp add: unat_word_ariths)
  show "wf_pipe (pipe_put p c)"
    using assms(1) n s by (simp add: wf_pipe_def pipe_put_def word_le_nat_alt)
  have w: "unat (write_pos p mod 4096) = (?r + ?n) mod 4096"
    using assms(1) pos_add [of "read_pos p" "pcount p" 0] by (simp add: wf_pipe_def pos_mod)
  have len: "length (pbuf p) = 4096" using assms(1) by (simp add: wf_pipe_def)
  have other: "(?r + i) mod 4096 \<noteq> (?r + ?n) mod 4096" if "i < ?n" for i
  proof -
    have "((?r + i) mod 4096 + (?n - i)) mod 4096 \<noteq> (?r + i) mod 4096"
      using that n by (intro circ_index_neq) simp_all
    moreover have "((?r + i) mod 4096 + (?n - i)) mod 4096 = (?r + ?n) mod 4096"
      using that mod_add_left_eq [of "?r + i" 4096 "?n - i"] by (simp only: add.assoc) simp
    ultimately show ?thesis by metis
  qed
  have "(pbuf p)[(?r + ?n) mod 4096 := c] ! ((?r + i) mod 4096) = pbuf p ! ((?r + i) mod 4096)"
    if "i < ?n" for i
    by (rule nth_list_update_neq) (rule not_sym [OF other [OF that]])
  then have "map (\<lambda>i. (pbuf p)[(?r + ?n) mod 4096 := c] ! ((?r + i) mod 4096)) [0..<?n] = pipe_list p"
    unfolding pipe_list_def by (intro map_cong) auto
  moreover have "(pbuf p)[(?r + ?n) mod 4096 := c] ! ((?r + ?n) mod 4096) = c"
    using len by simp
  ultimately show "pipe_list (pipe_put p c) = pipe_list p @ [c]"
    using s w by (simp add: pipe_list_def pipe_put_def)
qed

section \<open>Transfers\<close>

definition pipe_unlocked :: "'e pipe_sys \<Rightarrow> bool" where
  "pipe_unlocked s \<longleftrightarrow> locked (plock (pp s)) = 0 \<and> lcpu (plock (pp s)) = None \<and>
     unat (ncli (pcpu s)) + 2 < 256 \<and> (ncli (pcpu s) = 0 \<or> \<not> iflag (pcpu s))"

text \<open>A critical section: the lock is taken, the body runs, the lock is given back.\<close>

lemma section_ok:
  assumes "pipe_unlocked s"
  shows "\<exists>s1. plock_acquire me s = Some s1 \<and> penv s1 = penv s \<and>
    (\<exists>l. pp s1 = (pp s)\<lparr>plock := l\<rparr> \<and>
      (\<forall>p. plock p = l \<longrightarrow> (\<exists>s2. plock_release me (s1\<lparr>pp := p\<rparr>) = Some s2 \<and> penv s2 = penv s \<and>
        pp s2 = p\<lparr>plock := plock (pp s)\<rparr> \<and> pipe_unlocked s2)))"
proof -
  let ?l = "plock (pp s)" and ?c = "pcpu s"
  have f: "locked ?l = 0" "lcpu ?l = None" "unat (ncli ?c) + 2 < 256" "ncli ?c = 0 \<or> \<not> iflag ?c"
    using assms by (simp_all add: pipe_unlocked_def)
  note ar = acquire_release_id [OF f, of me]
  show ?thesis
    using f ar by (auto simp: plock_acquire_def plock_release_def pipe_unlocked_def)
qed

lemma pipe_get_lock [simp]:
  "pipe_get (p\<lparr>plock := l\<rparr>) = (fst (pipe_get p), (snd (pipe_get p))\<lparr>plock := l\<rparr>)"
  "plock (snd (pipe_get p)) = plock p" "write_open (snd (pipe_get p)) = write_open p"
  "read_open (snd (pipe_get p)) = read_open p"
  by (simp_all add: pipe_get_def)

lemma pipe_put_lock [simp]:
  "pipe_put (p\<lparr>plock := l\<rparr>) c = (pipe_put p c)\<lparr>plock := l\<rparr>" "plock (pipe_put p c) = plock p"
  "write_open (pipe_put p c) = write_open p" "read_open (pipe_put p c) = read_open p"
  by (simp_all add: pipe_put_def)

lemma pipe_plock [simp]:
  "pipe_list (p\<lparr>plock := l\<rparr>) = pipe_list p" "wf_pipe (p\<lparr>plock := l\<rparr>) = wf_pipe p"
  by (simp_all add: pipe_list_def wf_pipe_def)

lemma read_one:
  assumes "pipe_unlocked s" "wf_pipe (pp s)" "n < len" "pcount (pp s) \<noteq> 0"
  shows "\<exists>s'. pipe_read_loop me yld n len dst s =
      pipe_read_loop me yld (n + 1) len (dst @ [hd (pipe_list (pp s))]) s' \<and>
    pipe_unlocked s' \<and> wf_pipe (pp s') \<and> pipe_list (pp s') = tl (pipe_list (pp s)) \<and>
    write_open (pp s') = write_open (pp s) \<and> read_open (pp s') = read_open (pp s)"
proof -
  obtain s1 l where 1: "plock_acquire me s = Some s1" "pp s1 = (pp s)\<lparr>plock := l\<rparr>"
    "\<And>p. plock p = l \<Longrightarrow> \<exists>s2. plock_release me (s1\<lparr>pp := p\<rparr>) = Some s2 \<and>
        pp s2 = p\<lparr>plock := plock (pp s)\<rparr> \<and> pipe_unlocked s2"
    using section_ok [OF assms(1), of me] by blast
  let ?p = "(snd (pipe_get (pp s)))\<lparr>plock := l\<rparr>"
  obtain s2 where 2: "plock_release me (s1\<lparr>pp := ?p\<rparr>) = Some s2"
    "pp s2 = ?p\<lparr>plock := plock (pp s)\<rparr>" "pipe_unlocked s2"
    using 1(3) [of ?p] by auto
  have w: "read_wait me yld s1 = Some (True, s1)"
    using assms(4) 1(2) by (subst read_wait.simps) simp
  note g = pipe_get_ok [OF assms(2,4)]
  have "pipe_read_loop me yld n len dst s =
      pipe_read_loop me yld (n + 1) len (dst @ [fst (pipe_get (pp s))]) s2"
    using assms(3) 1(1,2) w 2(1) by (subst pipe_read_loop.simps) (simp add: Let_def)
  then show ?thesis using 2(2,3) g by (intro exI [of _ s2]) simp
qed

lemma pipe_read_ok:
  assumes "pipe_unlocked s" "wf_pipe (pp s)" "n \<le> len"
    "unat len - unat n \<le> unat (pcount (pp s)) \<or> write_open (pp s) = 0"
  shows "\<exists>s'. pipe_read_loop me yld n len dst s =
      Some (n + word_of_nat (min (unat len - unat n) (unat (pcount (pp s)))),
        dst @ take (unat len - unat n) (pipe_list (pp s)), s') \<and>
    pipe_unlocked s' \<and> wf_pipe (pp s') \<and>
    pipe_list (pp s') = drop (unat len - unat n) (pipe_list (pp s))"
  using assms
proof (induction "unat len - unat n" arbitrary: n dst s)
  case 0
  then have "\<not> n < len" by (simp add: word_less_nat_alt)
  then have "pipe_read_loop me yld n len dst s = Some (n, dst, s)"
    by (subst pipe_read_loop.simps) simp
  then show ?case using 0 by (intro exI [of _ s]) simp
next
  case (Suc k)
  then have lt: "n < len" by (simp add: word_less_nat_alt)
  show ?case
  proof (cases "pcount (pp s) = 0")
    case True
    then have closed: "write_open (pp s) = 0" and nil: "pipe_list (pp s) = []"
      using Suc.hyps(2) Suc.prems(4) pipe_list_empty by auto
    obtain s1 l where 1: "plock_acquire me s = Some s1" "pp s1 = (pp s)\<lparr>plock := l\<rparr>"
      "\<And>p. plock p = l \<Longrightarrow> \<exists>s2. plock_release me (s1\<lparr>pp := p\<rparr>) = Some s2 \<and>
          pp s2 = p\<lparr>plock := plock (pp s)\<rparr> \<and> pipe_unlocked s2"
      using section_ok [OF Suc.prems(1), of me] by blast
    obtain s2 where 2: "plock_release me s1 = Some s2" "pp s2 = (pp s1)\<lparr>plock := plock (pp s)\<rparr>"
      "pipe_unlocked s2"
    proof -
      have "plock (pp s1) = l" using 1(2) by simp
      from 1(3) [OF this] that show thesis by auto
    qed
    have "read_wait me yld s1 = Some (False, s2)"
      using True closed 1(2) 2(1) by (subst read_wait.simps) simp
    then have "pipe_read_loop me yld n len dst s = Some (n, dst, s2)"
      using lt 1(1) by (subst pipe_read_loop.simps) simp
    then show ?thesis using True nil 2(2,3) 1(2) Suc.prems(2) by (intro exI [of _ s2]) simp
  next
    case False
    obtain s' where 1: "pipe_read_loop me yld n len dst s =
        pipe_read_loop me yld (n + 1) len (dst @ [hd (pipe_list (pp s))]) s'"
      "pipe_unlocked s'" "wf_pipe (pp s')" "pipe_list (pp s') = tl (pipe_list (pp s))"
      "write_open (pp s') = write_open (pp s)"
      using read_one [OF Suc.prems(1,2) lt False] by blast
    have n1: "unat (n + 1) = Suc (unat n)" by (rule unat_Suc_less [OF lt])
    have k: "k = unat len - unat (n + 1)" using Suc.hyps(2) n1 by simp
    have le: "n + 1 \<le> len" using lt n1 by (simp add: word_le_nat_alt word_less_nat_alt)
    have c: "unat (pcount (pp s')) = unat (pcount (pp s)) - 1" "0 < unat (pcount (pp s))"
      using 1(4) False by (metis length_pipe_list length_tl) (simp add: unat_gt_0 False)
    have pre: "unat len - unat (n + 1) \<le> unat (pcount (pp s')) \<or> write_open (pp s') = 0"
      using Suc.prems(4) Suc.hyps(2) n1 c 1(5) by auto
    obtain t where t: "pipe_read_loop me yld (n + 1) len (dst @ [hd (pipe_list (pp s))]) s' =
        Some (n + 1 + word_of_nat (min (unat len - unat (n + 1)) (unat (pcount (pp s')))),
          (dst @ [hd (pipe_list (pp s))]) @ take (unat len - unat (n + 1)) (pipe_list (pp s')), t)"
      "pipe_unlocked t" "wf_pipe (pp t)"
      "pipe_list (pp t) = drop (unat len - unat (n + 1)) (pipe_list (pp s'))"
      using Suc.hyps(1) [OF k 1(2,3) le pre] by blast
    obtain x xs where xs: "pipe_list (pp s) = x # xs"
      using False pipe_list_empty by (cases "pipe_list (pp s)") auto
    have l: "unat len - unat n = Suc (unat len - unat (n + 1))" using Suc.hyps(2) n1 by simp
    have m: "min (unat len - unat n) (unat (pcount (pp s))) =
        Suc (min (unat len - unat (n + 1)) (unat (pcount (pp s'))))"
    proof -
      have "unat (pcount (pp s)) = Suc (unat (pcount (pp s')))" using c by linarith
      then show ?thesis unfolding l by (simp only: min_Suc_Suc)
    qed
    show ?thesis
      unfolding 1(1) t(1) m unfolding l using t(2-4) xs 1(4) by (intro exI [of _ t]) (simp add: add.assoc)
  qed
qed

lemma pipe_write_ok:
  assumes "pipe_unlocked s" "wf_pipe (pp s)" "i \<le> len" "unat len \<le> length src"
    "unat (pcount (pp s)) + (unat len - unat i) \<le> 4096"
  shows "\<exists>s'. pipe_write_loop me yld src i len s = Some (len, s') \<and> pipe_unlocked s' \<and>
    wf_pipe (pp s') \<and> pipe_list (pp s') = pipe_list (pp s) @ take (unat len - unat i) (drop (unat i) src)"
  using assms
proof (induction "unat len - unat i" arbitrary: i s)
  case 0
  then have "\<not> i < len" by (simp add: word_less_nat_alt)
  then have "pipe_write_loop me yld src i len s = Some (len, s)"
    by (subst pipe_write_loop.simps) simp
  then show ?case using 0 by (intro exI [of _ s]) simp
next
  case (Suc k)
  then have lt: "i < len" by (simp add: word_less_nat_alt)
  have full: "pcount (pp s) \<noteq> 4096" using Suc.prems(5) Suc.hyps(2) by auto
  obtain s1 l where 1: "plock_acquire me s = Some s1" "pp s1 = (pp s)\<lparr>plock := l\<rparr>"
    "\<And>p. plock p = l \<Longrightarrow> \<exists>s2. plock_release me (s1\<lparr>pp := p\<rparr>) = Some s2 \<and>
        pp s2 = p\<lparr>plock := plock (pp s)\<rparr> \<and> pipe_unlocked s2"
    using section_ok [OF Suc.prems(1), of me] by blast
  let ?p = "(pipe_put (pp s) (src ! unat i))\<lparr>plock := l\<rparr>"
  obtain s2 where 2: "plock_release me (s1\<lparr>pp := ?p\<rparr>) = Some s2"
    "pp s2 = ?p\<lparr>plock := plock (pp s)\<rparr>" "pipe_unlocked s2"
    using 1(3) [of ?p] by auto
  have w: "write_wait me yld s1 = Some (True, s1)"
    using full 1(2) by (subst write_wait.simps) simp
  note g = pipe_put_ok [OF Suc.prems(2) full, of "src ! unat i"]
  have step: "pipe_write_loop me yld src i len s = pipe_write_loop me yld src (i + 1) len s2"
    using lt 1(1,2) w 2(1) by (subst pipe_write_loop.simps) simp
  have i1: "unat (i + 1) = Suc (unat i)" by (rule unat_Suc_less [OF lt])
  have k: "k = unat len - unat (i + 1)" using Suc.hyps(2) i1 by simp
  have le: "i + 1 \<le> len" using lt i1 by (simp add: word_le_nat_alt word_less_nat_alt)
  have wf: "wf_pipe (pp s2)" and pl: "pipe_list (pp s2) = pipe_list (pp s) @ [src ! unat i]"
    using 2(2) g by simp_all
  have "unat (pcount (pp s2)) = Suc (unat (pcount (pp s)))"
    using pl by (metis length_append_singleton length_pipe_list)
  then have cnt: "unat (pcount (pp s2)) + (unat len - unat (i + 1)) \<le> 4096"
    using Suc.prems(5) Suc.hyps(2) i1 by simp
  obtain t where t: "pipe_write_loop me yld src (i + 1) len s2 = Some (len, t)" "pipe_unlocked t"
    "wf_pipe (pp t)"
    "pipe_list (pp t) = pipe_list (pp s2) @ take (unat len - unat (i + 1)) (drop (unat (i + 1)) src)"
    using Suc.hyps(1) [OF k 2(3) wf le Suc.prems(4) cnt] by blast
  have "take (Suc k) (drop (unat i) src) = src ! unat i # take k (drop (Suc (unat i)) src)"
    using Suc.prems(4) Suc.hyps(2) by (intro take_drop_Suc) simp
  then show ?case
    unfolding step using t pl Suc.hyps(2) k i1 by (intro exI [of _ t]) simp
qed

section \<open>Interleavings\<close>

text \<open>The critical sections of readers and writers in any order, with the histories of the
  bytes written and read.\<close>

record pipe_hist =
  ph :: pipe
  wlog :: "u8 list"
  rlog :: "u8 list"

inductive pipe_step :: "pipe_hist \<Rightarrow> pipe_hist \<Rightarrow> bool" where
  put: "pcount (ph s) \<noteq> 4096 \<Longrightarrow>
    pipe_step s (s\<lparr>ph := pipe_put (ph s) c, wlog := wlog s @ [c]\<rparr>)"
| get: "pcount (ph s) \<noteq> 0 \<Longrightarrow>
    pipe_step s (s\<lparr>ph := snd (pipe_get (ph s)), rlog := rlog s @ [fst (pipe_get (ph s))]\<rparr>)"
| close_write: "pipe_step s (s\<lparr>ph := (ph s)\<lparr>write_open := write_open (ph s) - 1\<rparr>\<rparr>)"
| close_read: "pipe_step s (s\<lparr>ph := (ph s)\<lparr>read_open := read_open (ph s) - 1\<rparr>\<rparr>)"

inductive pipe_run :: "pipe_hist \<Rightarrow> bool" where
  start: "pipe_run \<lparr>ph = new_pipe, wlog = [], rlog = []\<rparr>"
| step: "pipe_run s \<Longrightarrow> pipe_step s t \<Longrightarrow> pipe_run t"

lemma pipe_run_inv: "pipe_run s \<Longrightarrow> wf_pipe (ph s) \<and> wlog s = rlog s @ pipe_list (ph s)"
proof (induction rule: pipe_run.induct)
  case start
  then show ?case by (simp add: wf_pipe_def new_pipe_def pipe_list_def)
next
  case (step s t)
  from step.hyps(2) step.IH show ?case
  proof cases
    case (put c)
    then show ?thesis using step.IH pipe_put_ok [of "ph s" c] by simp
  next
    case get
    then show ?thesis using step.IH pipe_get_ok [of "ph s"] by simp
  qed (use step.IH in \<open>simp_all add: wf_pipe_def pipe_list_def\<close>)
qed

section \<open>Properties\<close>



text \<open>
  \<^verbatim>\<open>pipe_read\<close> returns without waiting whenever enough bytes are there or the writer has
  closed; it returns the number of bytes it stored, which are the oldest ones, as many as asked
  for or all there are (end of file), and it leaves the rest and gives the lock back.
\<close>

lemma pipe_read_spec:
  assumes "pipe_unlocked s" and "wf_pipe (pp s)"
    and "unat len \<le> unat (pcount (pp s)) \<or> write_open (pp s) = 0"
  shows "\<exists>s'. pipe_read me yld len s =
      Some (word_of_nat (min (unat len) (unat (pcount (pp s)))), take (unat len) (pipe_list (pp s)), s') \<and>
    pipe_unlocked s' \<and> wf_pipe (pp s') \<and> pipe_list (pp s') = drop (unat len) (pipe_list (pp s))"
  using pipe_read_ok [OF assms(1,2), of 0 len me yld "[]"] assms(3) by (simp add: pipe_read_def)

definition idle_pipe :: "unit pipe_sys" where
  "idle_pipe = \<lparr>pp = new_pipe\<lparr>write_open := 0\<rparr>, pcpu = boot_cpu, penv = ()\<rparr>"

lemma idle_pipe_ok: "pipe_unlocked idle_pipe" "wf_pipe (pp idle_pipe)"
  by (simp_all add: pipe_unlocked_def idle_pipe_def new_pipe_def initlock_def boot_cpu_def wf_pipe_def)

text \<open>
  \<^verbatim>\<open>pipe_write\<close> of bytes that fit into the free part of the buffer returns their number
  without waiting, appends exactly those bytes in order, and gives the lock back.
\<close>

lemma pipe_write_spec:
  assumes "pipe_unlocked s" and "wf_pipe (pp s)" and "unat len \<le> length src"
    and "unat (pcount (pp s)) + unat len \<le> 4096"
  shows "\<exists>s'. pipe_write me yld src len s = Some (len, s') \<and> pipe_unlocked s' \<and> wf_pipe (pp s') \<and>
    pipe_list (pp s') = pipe_list (pp s) @ take (unat len) src"
  using pipe_write_ok [OF assms(1,2), of 0 len src me yld] assms(3,4) by (simp add: pipe_write_def)

text \<open>
  The file a pipe end is given has no operations: \<^verbatim>\<open>make_pipe_end\<close> stores the table in the
  inode only, so \<^verbatim>\<open>vfs_read\<close> and \<^verbatim>\<open>vfs_write\<close> on it answer \<^verbatim>\<open>VFS_ENOSYS\<close>, whatever the table
  holds.
\<close>

lemma pipe_end_has_no_ops:
  assumes "make_pipe_end p ops tag s = Some (f, t)" and "f \<noteq> 0" and "buf \<noteq> 0"
  shows "vfs_read T f buf cnt t = Some (VFS_ENOSYS, t) \<and>
    vfs_write T f buf cnt t = Some (VFS_ENOSYS, t) \<and> fops (inodes t (finode (files t f))) = ops"
  using assms
  by (auto simp: make_pipe_end_def page_alloc1_def zero_file_def upd_file_def upd_inode_def
      vfs_read_def vfs_write_def fop_def pipe_inode_def Let_def split: Option.bind_splits if_splits)

end
