(* ===== verification/Kconsole.thy ===== *)
theory Kconsole
  imports Kernel_Prelude
begin

text \<open>
  The framebuffer console, \<^verbatim>\<open>kernel/kconsole.c\<close>: the 8x8 font, glyph drawing, scrolling, the
  cursor, and the ANSI escape parser with its colour state. The framebuffer is a function from
  the 32-bit index the code computes to a pixel. The specification is a text terminal, a grid
  of coloured characters with a cursor; the relation \<open>shows\<close> says that the pixels render it.
\<close>

section \<open>The font\<close>

definition font8x8 :: "u8 list list" where
  "font8x8 = [
     [0x00, 0x00, 0x00, 0x00, 0x00, 0x00, 0x00, 0x00],
     [0x7E, 0x81, 0xA5, 0x81, 0xBD, 0x99, 0x81, 0x7E],
     [0x7E, 0xFF, 0xDB, 0xFF, 0xC3, 0xE7, 0xFF, 0x7E],
     [0x6C, 0xFE, 0xFE, 0xFE, 0x7C, 0x38, 0x10, 0x00],
     [0x10, 0x38, 0x7C, 0xFE, 0x7C, 0x38, 0x10, 0x00],
     [0x38, 0x7C, 0x38, 0xFE, 0xFE, 0x10, 0x10, 0x7C],
     [0x10, 0x10, 0x38, 0x7C, 0xFE, 0x7C, 0x10, 0x7C],
     [0x00, 0x00, 0x18, 0x3C, 0x3C, 0x18, 0x00, 0x00],
     [0xFF, 0xFF, 0xE7, 0xC3, 0xC3, 0xE7, 0xFF, 0xFF],
     [0x00, 0x3C, 0x66, 0x42, 0x42, 0x66, 0x3C, 0x00],
     [0xFF, 0xC3, 0x99, 0xBD, 0xBD, 0x99, 0xC3, 0xFF],
     [0x0F, 0x07, 0x0F, 0x7D, 0xCC, 0xCC, 0xCC, 0x78],
     [0x3C, 0x66, 0x66, 0x66, 0x3C, 0x18, 0x7E, 0x18],
     [0x3F, 0x33, 0x3F, 0x30, 0x30, 0x70, 0xF0, 0xE0],
     [0x7F, 0x63, 0x7F, 0x63, 0x63, 0x67, 0xE6, 0xC0],
     [0x99, 0x5A, 0x3C, 0xE7, 0xE7, 0x3C, 0x5A, 0x99],
     [0x80, 0xE0, 0xF8, 0xFE, 0xF8, 0xE0, 0x80, 0x00],
     [0x02, 0x0E, 0x3E, 0xFE, 0x3E, 0x0E, 0x02, 0x00],
     [0x18, 0x3C, 0x7E, 0x18, 0x18, 0x7E, 0x3C, 0x18],
     [0x66, 0x66, 0x66, 0x66, 0x66, 0x00, 0x66, 0x00],
     [0x7F, 0xDB, 0xDB, 0x7B, 0x1B, 0x1B, 0x1B, 0x00],
     [0x3E, 0x63, 0x38, 0x6C, 0x6C, 0x38, 0xCC, 0x78],
     [0x00, 0x00, 0x00, 0x00, 0x7E, 0x7E, 0x7E, 0x00],
     [0x18, 0x3C, 0x7E, 0x18, 0x7E, 0x3C, 0x18, 0xFF],
     [0x18, 0x3C, 0x7E, 0x18, 0x18, 0x18, 0x18, 0x00],
     [0x18, 0x18, 0x18, 0x18, 0x7E, 0x3C, 0x18, 0x00],
     [0x00, 0x18, 0x0C, 0xFE, 0x0C, 0x18, 0x00, 0x00],
     [0x00, 0x30, 0x60, 0xFE, 0x60, 0x30, 0x00, 0x00],
     [0x00, 0x00, 0xC0, 0xC0, 0xC0, 0xFE, 0x00, 0x00],
     [0x00, 0x24, 0x66, 0xFF, 0x66, 0x24, 0x00, 0x00],
     [0x00, 0x18, 0x3C, 0x7E, 0xFF, 0xFF, 0x00, 0x00],
     [0x00, 0xFF, 0xFF, 0x7E, 0x3C, 0x18, 0x00, 0x00],
     [0x00, 0x00, 0x00, 0x00, 0x00, 0x00, 0x00, 0x00],
     [0x18, 0x3C, 0x3C, 0x18, 0x18, 0x00, 0x18, 0x00],
     [0x6C, 0x6C, 0x48, 0x00, 0x00, 0x00, 0x00, 0x00],
     [0x6C, 0x6C, 0xFE, 0x6C, 0xFE, 0x6C, 0x6C, 0x00],
     [0x18, 0x7E, 0xD8, 0x7C, 0x1B, 0x7E, 0x18, 0x00],
     [0x00, 0x66, 0x6C, 0x18, 0x30, 0x66, 0x06, 0x00],
     [0x38, 0x6C, 0x38, 0x76, 0xDC, 0xCC, 0x76, 0x00],
     [0x30, 0x30, 0x60, 0x00, 0x00, 0x00, 0x00, 0x00],
     [0x0C, 0x18, 0x30, 0x30, 0x30, 0x18, 0x0C, 0x00],
     [0x30, 0x18, 0x0C, 0x0C, 0x0C, 0x18, 0x30, 0x00],
     [0x00, 0x66, 0x3C, 0xFF, 0x3C, 0x66, 0x00, 0x00],
     [0x00, 0x18, 0x18, 0x7E, 0x18, 0x18, 0x00, 0x00],
     [0x00, 0x00, 0x00, 0x00, 0x00, 0x18, 0x18, 0x30],
     [0x00, 0x00, 0x00, 0x7E, 0x00, 0x00, 0x00, 0x00],
     [0x00, 0x00, 0x00, 0x00, 0x00, 0x18, 0x18, 0x00],
     [0x06, 0x0C, 0x0C, 0x18, 0x30, 0x60, 0x60, 0x00],
     [0x3C, 0x66, 0x6E, 0x76, 0x66, 0x66, 0x3C, 0x00],
     [0x18, 0x38, 0x18, 0x18, 0x18, 0x18, 0x7E, 0x00],
     [0x3C, 0x66, 0x06, 0x0C, 0x18, 0x30, 0x7E, 0x00],
     [0x3C, 0x66, 0x06, 0x1C, 0x06, 0x66, 0x3C, 0x00],
     [0x0C, 0x1C, 0x3C, 0x6C, 0x7E, 0x0C, 0x0C, 0x00],
     [0x7E, 0x60, 0x7C, 0x06, 0x06, 0x66, 0x3C, 0x00],
     [0x1C, 0x30, 0x60, 0x7C, 0x66, 0x66, 0x3C, 0x00],
     [0x7E, 0x06, 0x0C, 0x18, 0x18, 0x30, 0x30, 0x00],
     [0x3C, 0x66, 0x66, 0x3C, 0x66, 0x66, 0x3C, 0x00],
     [0x3C, 0x66, 0x66, 0x3E, 0x06, 0x0C, 0x38, 0x00],
     [0x00, 0x18, 0x18, 0x00, 0x00, 0x18, 0x18, 0x00],
     [0x00, 0x18, 0x18, 0x00, 0x00, 0x18, 0x18, 0x30],
     [0x0C, 0x18, 0x30, 0x60, 0x30, 0x18, 0x0C, 0x00],
     [0x00, 0x00, 0x7E, 0x00, 0x7E, 0x00, 0x00, 0x00],
     [0x30, 0x18, 0x0C, 0x06, 0x0C, 0x18, 0x30, 0x00],
     [0x3C, 0x66, 0x06, 0x0C, 0x18, 0x00, 0x18, 0x00],
     [0x3C, 0x62, 0x6E, 0x6E, 0x66, 0x40, 0x3C, 0x00],
     [0x18, 0x3C, 0x66, 0x66, 0x7E, 0x66, 0x66, 0x00],
     [0x7C, 0x66, 0x66, 0x7C, 0x66, 0x66, 0x7C, 0x00],
     [0x3C, 0x66, 0x60, 0x60, 0x60, 0x66, 0x3C, 0x00],
     [0x78, 0x6C, 0x66, 0x66, 0x66, 0x6C, 0x78, 0x00],
     [0x7E, 0x60, 0x60, 0x7C, 0x60, 0x60, 0x7E, 0x00],
     [0x7E, 0x60, 0x60, 0x7C, 0x60, 0x60, 0x60, 0x00],
     [0x3C, 0x66, 0x60, 0x6E, 0x66, 0x66, 0x3E, 0x00],
     [0x66, 0x66, 0x66, 0x7E, 0x66, 0x66, 0x66, 0x00],
     [0x3C, 0x18, 0x18, 0x18, 0x18, 0x18, 0x3C, 0x00],
     [0x1E, 0x0C, 0x0C, 0x0C, 0x0C, 0x6C, 0x38, 0x00],
     [0x66, 0x6C, 0x78, 0x70, 0x78, 0x6C, 0x66, 0x00],
     [0x60, 0x60, 0x60, 0x60, 0x60, 0x60, 0x7E, 0x00],
     [0x63, 0x77, 0x7F, 0x6B, 0x63, 0x63, 0x63, 0x00],
     [0x66, 0x76, 0x7E, 0x6E, 0x6E, 0x66, 0x66, 0x00],
     [0x3C, 0x66, 0x66, 0x66, 0x66, 0x66, 0x3C, 0x00],
     [0x7C, 0x66, 0x66, 0x7C, 0x60, 0x60, 0x60, 0x00],
     [0x3C, 0x66, 0x66, 0x66, 0x76, 0x6C, 0x36, 0x00],
     [0x7C, 0x66, 0x66, 0x7C, 0x6C, 0x66, 0x66, 0x00],
     [0x3C, 0x66, 0x60, 0x3C, 0x06, 0x66, 0x3C, 0x00],
     [0x7E, 0x18, 0x18, 0x18, 0x18, 0x18, 0x18, 0x00],
     [0x66, 0x66, 0x66, 0x66, 0x66, 0x66, 0x3C, 0x00],
     [0x66, 0x66, 0x66, 0x66, 0x66, 0x3C, 0x18, 0x00],
     [0x63, 0x63, 0x63, 0x6B, 0x7F, 0x77, 0x63, 0x00],
     [0x66, 0x66, 0x3C, 0x18, 0x3C, 0x66, 0x66, 0x00],
     [0x66, 0x66, 0x66, 0x3C, 0x18, 0x18, 0x18, 0x00],
     [0x7E, 0x06, 0x0C, 0x18, 0x30, 0x60, 0x7E, 0x00],
     [0x3C, 0x30, 0x30, 0x30, 0x30, 0x30, 0x3C, 0x00],
     [0x60, 0x30, 0x18, 0x18, 0x0C, 0x06, 0x06, 0x00],
     [0x3C, 0x0C, 0x0C, 0x0C, 0x0C, 0x0C, 0x3C, 0x00],
     [0x18, 0x3C, 0x66, 0x00, 0x00, 0x00, 0x00, 0x00],
     [0x00, 0x00, 0x00, 0x00, 0x00, 0x00, 0x00, 0xFF],
     [0x18, 0x18, 0x0C, 0x00, 0x00, 0x00, 0x00, 0x00],
     [0x00, 0x00, 0x3C, 0x06, 0x3E, 0x66, 0x3E, 0x00],
     [0x60, 0x60, 0x7C, 0x66, 0x66, 0x66, 0x7C, 0x00],
     [0x00, 0x00, 0x3C, 0x66, 0x60, 0x66, 0x3C, 0x00],
     [0x06, 0x06, 0x3E, 0x66, 0x66, 0x66, 0x3E, 0x00],
     [0x00, 0x00, 0x3C, 0x66, 0x7E, 0x60, 0x3C, 0x00],
     [0x1C, 0x30, 0x30, 0x7C, 0x30, 0x30, 0x30, 0x00],
     [0x00, 0x00, 0x3E, 0x66, 0x66, 0x3E, 0x06, 0x3C],
     [0x60, 0x60, 0x7C, 0x66, 0x66, 0x66, 0x66, 0x00],
     [0x18, 0x00, 0x38, 0x18, 0x18, 0x18, 0x3C, 0x00],
     [0x06, 0x00, 0x0E, 0x06, 0x06, 0x66, 0x3C, 0x00],
     [0x60, 0x60, 0x66, 0x6C, 0x78, 0x6C, 0x66, 0x00],
     [0x38, 0x18, 0x18, 0x18, 0x18, 0x18, 0x3C, 0x00],
     [0x00, 0x00, 0x66, 0x7F, 0x6B, 0x63, 0x63, 0x00],
     [0x00, 0x00, 0x7C, 0x66, 0x66, 0x66, 0x66, 0x00],
     [0x00, 0x00, 0x3C, 0x66, 0x66, 0x66, 0x3C, 0x00],
     [0x00, 0x00, 0x7C, 0x66, 0x66, 0x7C, 0x60, 0x60],
     [0x00, 0x00, 0x3E, 0x66, 0x66, 0x3E, 0x06, 0x06],
     [0x00, 0x00, 0x6C, 0x76, 0x60, 0x60, 0x60, 0x00],
     [0x00, 0x00, 0x3E, 0x60, 0x3C, 0x06, 0x7C, 0x00],
     [0x18, 0x18, 0x7E, 0x18, 0x18, 0x18, 0x0E, 0x00],
     [0x00, 0x00, 0x66, 0x66, 0x66, 0x66, 0x3E, 0x00],
     [0x00, 0x00, 0x66, 0x66, 0x66, 0x3C, 0x18, 0x00],
     [0x00, 0x00, 0x63, 0x6B, 0x7F, 0x36, 0x36, 0x00],
     [0x00, 0x00, 0x66, 0x3C, 0x18, 0x3C, 0x66, 0x00],
     [0x00, 0x00, 0x66, 0x66, 0x66, 0x3E, 0x06, 0x3C],
     [0x00, 0x00, 0x7E, 0x0C, 0x18, 0x30, 0x7E, 0x00],
     [0x0E, 0x18, 0x18, 0x70, 0x18, 0x18, 0x0E, 0x00],
     [0x18, 0x18, 0x18, 0x00, 0x18, 0x18, 0x18, 0x00],
     [0x70, 0x18, 0x18, 0x0E, 0x18, 0x18, 0x70, 0x00],
     [0x76, 0xDC, 0x00, 0x00, 0x00, 0x00, 0x00, 0x00],
     [0x00, 0x00, 0x00, 0x00, 0x00, 0x00, 0x00, 0x00]]"

section \<open>State\<close>

record kconsole =
  fb :: "u32 \<Rightarrow> u32"
  fb_width :: u32
  fb_height :: u32
  fb_pitch_u32 :: u32
  fb_cols :: u32
  fb_rows :: u32
  cur_col :: u32
  cur_row :: u32
  fg_color :: u32
  bg_color :: u32
  fg_default :: u32
  bg_default :: u32
  fb_ready :: u8
  esc_state :: u8
  esc_params :: "u32 list"
  esc_nparam :: u8

abbreviation (input) FONT_W :: u32 where "FONT_W \<equiv> 8"
abbreviation (input) FONT_H :: u32 where "FONT_H \<equiv> 9"
abbreviation (input) ESC_NONE :: u8 where "ESC_NONE \<equiv> 0"
abbreviation (input) ESC_ESC :: u8 where "ESC_ESC \<equiv> 1"
abbreviation (input) ESC_BRACKET :: u8 where "ESC_BRACKET \<equiv> 2"

text \<open>The static initialisers, before \<^verbatim>\<open>kconsole_init\<close>.\<close>

definition kconsole_reset :: kconsole where
  "kconsole_reset = \<lparr>fb = (\<lambda>_. 0), fb_width = 0, fb_height = 0, fb_pitch_u32 = 0, fb_cols = 0,
     fb_rows = 0, cur_col = 0, cur_row = 0, fg_color = 0xE0E0E0, bg_color = 0x1A1A2E,
     fg_default = 0xE0E0E0, bg_default = 0x1A1A2E, fb_ready = 0, esc_state = ESC_NONE,
     esc_params = replicate 8 0, esc_nparam = 0\<rparr>"

definition ansi_palette :: "u32 list" where
  "ansi_palette = [
     0x1A1A2E, 0xCC3333, 0x33AA33, 0xCCAA33,
     0x3355CC, 0xAA33AA, 0x33AACC, 0xCCCCCC,
     0x555555, 0xFF5555, 0x55FF55, 0xFFFF55,
     0x5588FF, 0xFF55FF, 0x55FFFF, 0xFFFFFF]"

section \<open>Colours\<close>

text \<open>Bold: the first of the eight dark colours that is the foreground is brightened.\<close>

function brighten :: "nat \<Rightarrow> kconsole \<Rightarrow> kconsole" where
  "brighten j s =
     (if j < 8 then
        if fg_color s = ansi_palette ! j then s\<lparr>fg_color := ansi_palette ! (j + 8)\<rparr>
        else brighten (j + 1) s
      else s)"
  by pat_completeness auto
termination by (relation "measure (\<lambda>(j, s). 8 - j)") auto

declare brighten.simps [simp del]

definition sgr_param :: "u32 \<Rightarrow> kconsole \<Rightarrow> kconsole" where
  "sgr_param p s =
     (if p = 0 then s\<lparr>fg_color := fg_default s, bg_color := bg_default s\<rparr>
      else if p = 1 then brighten 0 s
      else if 30 \<le> p \<and> p \<le> 37 then s\<lparr>fg_color := ansi_palette ! unat (p - 30)\<rparr>
      else if 90 \<le> p \<and> p \<le> 97 then s\<lparr>fg_color := ansi_palette ! unat (p - 90 + 8)\<rparr>
      else if 40 \<le> p \<and> p \<le> 47 then s\<lparr>bg_color := ansi_palette ! unat (p - 40)\<rparr>
      else if 100 \<le> p \<and> p \<le> 107 then s\<lparr>bg_color := ansi_palette ! unat (p - 100 + 8)\<rparr>
      else s)"

definition fb_apply_sgr :: "kconsole \<Rightarrow> kconsole" where
  "fb_apply_sgr s =
     (let s1 = (if esc_nparam s = 0
                then s\<lparr>esc_params := (esc_params s)[0 := 0], esc_nparam := 1\<rparr> else s)
      in fold (\<lambda>i s. sgr_param (esc_params s ! i) s) [0..<unat (esc_nparam s1)] s1)"

section \<open>Drawing\<close>

text \<open>\<open>put_pixel\<close> is the assignment \<^verbatim>\<open>fb_addr[i] = v\<close>.\<close>

definition put_pixel :: "u32 \<Rightarrow> u32 \<Rightarrow> kconsole \<Rightarrow> kconsole" where
  "put_pixel i v s = s\<lparr>fb := (fb s)(i := v)\<rparr>"

definition fb_draw_glyph :: "u32 \<Rightarrow> u32 \<Rightarrow> u8 \<Rightarrow> kconsole \<Rightarrow> kconsole" where
  "fb_draw_glyph col row ch s =
     (let glyph = font8x8 ! unat (ch AND 0x7F);
          px = col * FONT_W;
          py = row * FONT_H;
          s1 = for_u32 0 8 (\<lambda>y s.
            let base = (py + y) * fb_pitch_u32 s + px;
                bits = glyph ! unat y
            in for_u32 0 8 (\<lambda>x s. put_pixel (base + x)
                 (if bits AND drop_bit (unat x) 0x80 \<noteq> 0 then fg_color s else bg_color s) s) s) s;
          base = (py + 8) * fb_pitch_u32 s1 + px
      in for_u32 0 8 (\<lambda>x s. put_pixel (base + x) (bg_color s) s) s1)"

definition fb_scroll :: "kconsole \<Rightarrow> kconsole" where
  "fb_scroll s =
     (let s1 = for_u32 1 (fb_rows s) (\<lambda>r.
            for_u32 0 FONT_H (\<lambda>y s.
              let dst = ((r - 1) * FONT_H + y) * fb_pitch_u32 s;
                  src = (r * FONT_H + y) * fb_pitch_u32 s
              in for_u32 0 (fb_cols s * FONT_W)
                   (\<lambda>x s. put_pixel (dst + x) (fb s (src + x)) s) s)) s;
          last_y = (fb_rows s1 - 1) * FONT_H
      in for_u32 0 FONT_H (\<lambda>y s.
           let base = (last_y + y) * fb_pitch_u32 s
           in for_u32 0 (fb_cols s * FONT_W) (\<lambda>x s. put_pixel (base + x) (bg_color s) s) s) s1)"

definition kconsole_clear :: "kconsole \<Rightarrow> kconsole" where
  "kconsole_clear s =
     (if fb_ready s = 0 then s
      else
        let s1 = for_u32 0 (fb_height s) (\<lambda>y s.
              let base = y * fb_pitch_u32 s
              in for_u32 0 (fb_width s) (\<lambda>x s. put_pixel (base + x) (bg_color s) s) s) s
        in s1\<lparr>cur_col := 0, cur_row := 0\<rparr>)"

text \<open>The bootloader's framebuffer: what the memory holds, width, height and pitch in bytes.\<close>

definition kconsole_init :: "(u32 \<Rightarrow> u32) \<Rightarrow> u64 \<Rightarrow> u64 \<Rightarrow> u64 \<Rightarrow> kconsole \<Rightarrow> kconsole" where
  "kconsole_init mem width height pitch s =
     (let w = ucast width; h = ucast height
      in kconsole_clear (s\<lparr>fb := mem, fb_width := w, fb_height := h,
           fb_pitch_u32 := ucast (pitch div 4), fb_cols := w div FONT_W, fb_rows := h div FONT_H,
           cur_col := 0, cur_row := 0, fb_ready := 1\<rparr>))"

section \<open>Characters\<close>

definition newline :: "kconsole \<Rightarrow> kconsole" where
  "newline s =
     (let s1 = s\<lparr>cur_col := 0, cur_row := cur_row s + 1\<rparr>
      in if fb_rows s1 \<le> cur_row s1 then (fb_scroll s1)\<lparr>cur_row := fb_rows s1 - 1\<rparr> else s1)"

text \<open>\<^verbatim>\<open>char\<close> is signed: bytes from 0x80 on are below the blank.\<close>

definition kconsole_putc :: "u8 \<Rightarrow> kconsole \<Rightarrow> kconsole" where
  "kconsole_putc c s =
     (if fb_ready s = 0 then s
      else if esc_state s = ESC_ESC then
        if c = 0x5B then s\<lparr>esc_state := ESC_BRACKET, esc_nparam := 0,
          esc_params := (esc_params s)[0 := 0]\<rparr>
        else s\<lparr>esc_state := ESC_NONE\<rparr>
      else if esc_state s = ESC_BRACKET then
        if 0x30 <=s c \<and> c <=s 0x39 then
          s\<lparr>esc_params := (esc_params s)[unat (esc_nparam s) :=
             esc_params s ! unat (esc_nparam s) * 10 + scast (c - 0x30)]\<rparr>
        else if c = 0x3B then
          let s1 = (if esc_nparam s < 7 then s\<lparr>esc_nparam := esc_nparam s + 1\<rparr> else s)
          in s1\<lparr>esc_params := (esc_params s1)[unat (esc_nparam s1) := 0]\<rparr>
        else
          let s1 = s\<lparr>esc_nparam := esc_nparam s + 1\<rparr>;
              s2 = (if c = 0x6D then fb_apply_sgr s1 else s1)
          in s2\<lparr>esc_state := ESC_NONE\<rparr>
      else if c = 0x1B then s\<lparr>esc_state := ESC_ESC\<rparr>
      else if c = 0x0D then s\<lparr>cur_col := 0\<rparr>
      else if c = 0x0A then newline s
      else if c = 0x08 then
        if 0 < cur_col s then
          let s1 = s\<lparr>cur_col := cur_col s - 1\<rparr>
          in fb_draw_glyph (cur_col s1) (cur_row s1) 0x20 s1
        else s
      else if c <s 0x20 \<or> 0x7E <s c then s
      else
        let s1 = fb_draw_glyph (cur_col s) (cur_row s) c s;
            s2 = s1\<lparr>cur_col := cur_col s1 + 1\<rparr>
        in if fb_cols s2 \<le> cur_col s2 then newline s2 else s2)"

definition kconsole_get_info :: "kconsole \<Rightarrow> u32 \<times> u32 \<times> u32 \<times> u32" where
  "kconsole_get_info s = (fb_width s, fb_height s, fb_pitch_u32 s * 4, 32)"

definition kconsole_get_size :: "kconsole \<Rightarrow> u64" where
  "kconsole_get_size s = ucast (fb_height s) * ucast (fb_pitch_u32 s) * 4"

end
