(* ===== verification/Kconsole_Spec.thy ===== *)
theory Kconsole_Spec
  imports Kconsole Digits
begin

text \<open>
  The console against its specification: every drawing loop is a set of painted pixels
  (\<open>paints\<close>), the pixels render a grid of coloured characters (\<open>shows\<close>), and
  \<^verbatim>\<open>kconsole_putc\<close> is a step of a text terminal on that grid.
\<close>

section \<open>Pixels\<close>

definition pix :: "kconsole \<Rightarrow> nat \<Rightarrow> nat \<Rightarrow> u32" where
  "pix s Y X = fb s (word_of_nat (Y * unat (fb_pitch_u32 s) + X))"

definition geom_ok :: "kconsole \<Rightarrow> bool" where
  "geom_ok s \<longleftrightarrow> unat (fb_width s) \<le> unat (fb_pitch_u32 s) \<and>
     unat (fb_height s) * unat (fb_pitch_u32 s) \<le> 2 ^ 32 \<and>
     fb_cols s = fb_width s div 8 \<and> fb_rows s = fb_height s div 9 \<and>
     0 < fb_cols s \<and> 0 < fb_rows s"

text \<open>What a drawing operation did: only pixels changed, those of the partial picture \<open>p\<close>,
  and nothing behind the last line of the framebuffer.\<close>

definition paints :: "kconsole \<Rightarrow> kconsole \<Rightarrow> (nat \<Rightarrow> nat \<Rightarrow> u32 option) \<Rightarrow> bool" where
  "paints s s' p \<longleftrightarrow> s' = s\<lparr>fb := fb s'\<rparr> \<and>
     (\<forall>Y < unat (fb_height s). \<forall>X < unat (fb_pitch_u32 s).
        pix s' Y X = (case p Y X of Some v \<Rightarrow> v | None \<Rightarrow> pix s Y X)) \<and>
     (\<forall>i. unat (fb_height s) * unat (fb_pitch_u32 s) \<le> unat i \<longrightarrow> fb s' i = fb s i)"

lemma paintsD:
  assumes "paints s s' p"
  shows "s' = s\<lparr>fb := fb s'\<rparr>"
    and "Y < unat (fb_height s) \<Longrightarrow> X < unat (fb_pitch_u32 s) \<Longrightarrow>
      pix s' Y X = (case p Y X of Some v \<Rightarrow> v | None \<Rightarrow> pix s Y X)"
    and "unat (fb_height s) * unat (fb_pitch_u32 s) \<le> unat i \<Longrightarrow> fb s' i = fb s i"
  using assms by (auto simp: paints_def)

lemma paints_fields:
  assumes "paints s s' p"
  shows "fb_height s' = fb_height s" "fb_width s' = fb_width s" "fb_pitch_u32 s' = fb_pitch_u32 s"
    "fb_cols s' = fb_cols s" "fb_rows s' = fb_rows s" "fg_color s' = fg_color s"
    "bg_color s' = bg_color s" "geom_ok s' = geom_ok s" "cur_row s' = cur_row s"
    "cur_col s' = cur_col s" "esc_state s' = esc_state s" "esc_nparam s' = esc_nparam s"
    "esc_params s' = esc_params s" "fb_ready s' = fb_ready s"
proof -
  have e: "s' = s\<lparr>fb := fb s'\<rparr>" by (rule paintsD(1) [OF assms])
  show "fb_height s' = fb_height s" "fb_width s' = fb_width s" "fb_pitch_u32 s' = fb_pitch_u32 s"
    "fb_cols s' = fb_cols s" "fb_rows s' = fb_rows s" "fg_color s' = fg_color s"
    "bg_color s' = bg_color s" "geom_ok s' = geom_ok s" "cur_row s' = cur_row s"
    "cur_col s' = cur_col s" "esc_state s' = esc_state s" "esc_nparam s' = esc_nparam s"
    "esc_params s' = esc_params s" "fb_ready s' = fb_ready s"
    by (subst e; simp add: geom_ok_def)+
qed

lemma paints_refl: "paints s s (\<lambda>_ _. None)"
  by (simp add: paints_def)

lemma paints_trans:
  assumes "paints s s1 p" "paints s1 s2 q"
    and "\<And>Y X. Y < unat (fb_height s) \<Longrightarrow> X < unat (fb_pitch_u32 s) \<Longrightarrow>
      r Y X = (case q Y X of Some v \<Rightarrow> Some v | None \<Rightarrow> p Y X)"
  shows "paints s s2 r"
  unfolding paints_def
proof (intro conjI allI impI)
  show "s2 = s\<lparr>fb := fb s2\<rparr>"
    using paintsD(1) [OF assms(1)] paintsD(1) [OF assms(2)]
    by (metis kconsole.surjective kconsole.update_convs(1))
  note f = paints_fields [OF assms(1)]
  fix Y X assume yx: "Y < unat (fb_height s)" "X < unat (fb_pitch_u32 s)"
  show "pix s2 Y X = (case r Y X of None \<Rightarrow> pix s Y X | Some v \<Rightarrow> v)"
    using paintsD(2) [OF assms(1) yx] paintsD(2) [OF assms(2), of Y X] yx f assms(3) [OF yx]
    by (auto split: option.splits)
next
  fix i :: u32 assume "unat (fb_height s) * unat (fb_pitch_u32 s) \<le> unat i"
  then show "fb s2 i = fb s i"
    using paintsD(3) [OF assms(1)] paintsD(3) [OF assms(2), of i] paints_fields [OF assms(1)] by simp
qed

text \<open>One horizontal run of pixels.\<close>

definition hline :: "u32 \<Rightarrow> nat \<Rightarrow> (nat \<Rightarrow> u32) \<Rightarrow> kconsole \<Rightarrow> kconsole" where
  "hline b n v s = s\<lparr>fb := \<lambda>i. if unat (i - b) < n then v (unat (i - b)) else fb s i\<rparr>"

lemma hline_step:
  assumes "n < 2 ^ 32"
  shows "put_pixel (b + word_of_nat n) (v n) (hline b n v s) = hline b (Suc n) v s"
proof -
  have "i = b + word_of_nat n \<longleftrightarrow> unat (i - b) = n" for i
  proof
    assume "unat (i - b) = n"
    then have "i - b = word_of_nat n" by (metis of_nat_unat ucast_id)
    then show "i = b + word_of_nat n" by (simp add: algebra_simps)
  qed (use assms in \<open>simp add: unat_of_nat_id\<close>)
  then show ?thesis
    by (auto simp: put_pixel_def hline_def fun_eq_iff less_Suc_eq)
qed

lemma hline_loop:
  assumes "\<And>k. k < unat n \<Longrightarrow> f (word_of_nat k) (hline b k v s) = v k"
  shows "for_u32 0 n (\<lambda>x s. put_pixel (b + x) (f x s) s) s = hline b (unat n) v s"
proof -
  have "hline b 0 v s = s" by (simp add: hline_def)
  then show ?thesis
    using for_u32_inv [of 0 n "\<lambda>k t. t = hline b k v s" s "\<lambda>x s. put_pixel (b + x) (f x s) s"]
      assms hline_step order_less_trans [OF _ unat_lt [of n]] by (simp add: word_le_nat_alt)
qed

lemma hline_const:
  assumes "\<And>m. c (s\<lparr>fb := m\<rparr>) = v"
  shows "for_u32 0 n (\<lambda>x s. put_pixel (b + x) (c s) s) s = hline b (unat n) (\<lambda>_. v) s"
  by (rule hline_loop) (simp add: hline_def assms)

lemma pix_index:
  fixes H P :: nat
  assumes "X < P" "Y < H" "H * P \<le> 2 ^ 32"
  shows "unat (word_of_nat (Y * P + X) :: u32) = Y * P + X" "Y * P + X < H * P"
proof -
  have "Y * P + X < Suc Y * P" using assms(1) by simp
  also have "\<dots> \<le> H * P" using assms(2) by (intro mult_le_mono1) simp
  finally show "Y * P + X < H * P" .
  then show "unat (word_of_nat (Y * P + X) :: u32) = Y * P + X"
    using assms(3) by (intro unat_of_nat_id) simp
qed

lemma run_index:
  fixes H P :: nat
  assumes "X < P" "Y < H" "y < H" "x + n \<le> P" "H * P \<le> 2 ^ 32"
  shows "unat (word_of_nat (Y * P + X) - word_of_nat (y * P + x) :: u32) < n \<longleftrightarrow>
      Y = y \<and> x \<le> X \<and> X < x + n"
    and "Y = y \<Longrightarrow> x \<le> X \<Longrightarrow>
      unat (word_of_nat (Y * P + X) - word_of_nat (y * P + x) :: u32) = X - x"
proof -
  let ?i = "word_of_nat (Y * P + X) :: u32" and ?b = "word_of_nat (y * P + x) :: u32"
  note i = pix_index [OF assms(1,2,5)]
  show "unat (?i - ?b) < n \<longleftrightarrow> Y = y \<and> x \<le> X \<and> X < x + n"
  proof (cases "n = 0")
    case False
    then have xP: "x < P" using assms(4) by simp
    note b = pix_index [OF xP assms(3,5)]
    have yn: "y * P + x + n \<le> Suc y * P" using assms(4) by simp
    have yH: "Suc y * P \<le> 2 ^ 32"
      using assms(3,5) mult_le_mono1 [of "Suc y" H P] by simp
    show ?thesis
    proof (cases "?b \<le> ?i")
      case True
      then have d: "unat (?i - ?b) = Y * P + X - (y * P + x)"
        using i(1) b(1) by (simp add: unat_sub)
      have le: "y * P + x \<le> Y * P + X" using True i(1) b(1) by (simp add: word_le_nat_alt)
      have "Y = y" if "Y * P + X < y * P + x + n"
      proof (rule ccontr)
        assume "Y \<noteq> y"
        then consider "Suc y \<le> Y" | "Suc Y \<le> y" by linarith
        then show False
        proof cases
          case 1
          then have "Suc y * P \<le> Y * P" by (rule mult_le_mono1)
          then show False using that yn by linarith
        next
          case 2
          then have "Suc Y * P \<le> y * P" by (rule mult_le_mono1)
          then show False using le assms(1) by simp
        qed
      qed
      moreover have "Y * P + X - (y * P + x) < n \<longleftrightarrow> Y * P + X < y * P + x + n"
        using le by linarith
      ultimately show ?thesis unfolding d using le by auto
    next
      case False
      then have lt: "Y * P + X < y * P + x" using i(1) b(1) by (simp add: word_le_nat_alt)
      have "unat (?i - ?b) = 2 ^ 32 + (Y * P + X) - (y * P + x)"
        using False i(1) b(1) by (simp add: unat_sub_if' not_le word_le_nat_alt)
      then have "\<not> unat (?i - ?b) < n" using yn yH lt by linarith
      then show ?thesis using lt by auto
    qed
  qed simp
  assume "Y = y" "x \<le> X"
  then have "?i - ?b = word_of_nat (X - x)" by (simp add: of_nat_diff)
  moreover have "X - x < 2 ^ 32"
  proof -
    have "X \<le> Y * P + X" by simp
    then show ?thesis using i(2) assms(5) by linarith
  qed
  ultimately show "unat (?i - ?b) = X - x" by (simp add: unat_of_nat_id)
qed

lemma hline_paints:
  assumes "geom_ok s" "y < unat (fb_height s)" "x + n \<le> unat (fb_pitch_u32 s)"
    and "b = word_of_nat (y * unat (fb_pitch_u32 s) + x)"
  shows "paints s (hline b n v s)
    (\<lambda>Y X. if Y = y \<and> x \<le> X \<and> X < x + n then Some (v (X - x)) else None)"
proof -
  let ?P = "unat (fb_pitch_u32 s)" and ?H = "unat (fb_height s)"
  have g: "?H * ?P \<le> 2 ^ 32" using assms(1) by (simp add: geom_ok_def)
  have "fb (hline b n v s) i = fb s i" if i: "?H * ?P \<le> unat i" for i :: u32
  proof -
    have "\<not> unat (i - b) < n"
    proof
      assume lt: "unat (i - b) < n"
      then have "x < ?P" using assms(3) by simp
      note b = pix_index [OF this assms(2) g]
      have "y * ?P + x + n \<le> ?H * ?P"
        using assms(2,3) mult_le_mono1 [of "Suc y" ?H ?P] by simp
      moreover have "unat (i - b) = unat i - unat b"
        using b i assms(4) by (intro unat_sub) (simp add: word_le_nat_alt)
      ultimately show False using lt i b assms(4) by simp
    qed
    then show ?thesis by (simp add: hline_def)
  qed
  moreover have "pix (hline b n v s) Y X =
      (if Y = y \<and> x \<le> X \<and> X < x + n then v (X - x) else pix s Y X)"
    if "Y < ?H" "X < ?P" for Y X
    using run_index [OF that(2,1) assms(2,3) g] assms(4) by (auto simp: hline_def pix_def)
  ultimately show ?thesis unfolding paints_def by (simp add: hline_def)
qed


section \<open>Drawing\<close>

type_synonym tcell = "u8 \<times> u32 \<times> u32"

text \<open>The picture of a character cell: eight glyph rows and a blank one.\<close>

definition cell_pix :: "tcell \<Rightarrow> nat \<Rightarrow> nat \<Rightarrow> u32" where
  "cell_pix = (\<lambda>(c, f, b) y x.
     if y < 8 \<and> (font8x8 ! unat (c AND 0x7F)) ! y AND drop_bit x 0x80 \<noteq> 0 then f else b)"

lemma geom_rows:
  assumes "geom_ok s"
  shows "unat (fb_rows s) * 9 \<le> unat (fb_height s)" "0 < unat (fb_rows s)"
    "unat (fb_cols s) * 8 \<le> unat (fb_pitch_u32 s)" "0 < unat (fb_cols s)"
proof -
  show "unat (fb_rows s) * 9 \<le> unat (fb_height s)"
    using assms by (simp add: geom_ok_def unat_div)
  have "unat (fb_cols s) * 8 \<le> unat (fb_width s)"
    using assms by (simp add: geom_ok_def unat_div)
  then show "unat (fb_cols s) * 8 \<le> unat (fb_pitch_u32 s)"
    using assms by (simp add: geom_ok_def)
  have "fb_rows s \<noteq> 0" "fb_cols s \<noteq> 0" using assms by (simp_all only: geom_ok_def) auto
  then show "0 < unat (fb_rows s)" "0 < unat (fb_cols s)" by (simp_all add: unat_gt_0)
qed

lemma paints_line:
  assumes "paints s t p" "geom_ok s" "y < unat (fb_height s)" "x + n \<le> unat (fb_pitch_u32 s)"
    and "b = word_of_nat (y * unat (fb_pitch_u32 s) + x)"
    and "\<And>Y X. r Y X = (if Y = y \<and> x \<le> X \<and> X < x + n then Some (v (X - x)) else p Y X)"
  shows "paints s (hline b n v t) r"
proof -
  have "paints t (hline b n v t)
      (\<lambda>Y X. if Y = y \<and> x \<le> X \<and> X < x + n then Some (v (X - x)) else None)"
    using assms paints_fields [OF assms(1)] by (intro hline_paints) simp_all
  from paints_trans [OF assms(1) this] show ?thesis using assms(6) by simp
qed

lemma draw_glyph_paints:
  assumes "geom_ok s" "row < fb_rows s" "col < fb_cols s"
  shows "paints s (fb_draw_glyph col row ch s)
    (\<lambda>Y X. if unat row * 9 \<le> Y \<and> Y < unat row * 9 + 9 \<and> unat col * 8 \<le> X \<and> X < unat col * 8 + 8
      then Some (cell_pix (ch, fg_color s, bg_color s) (Y - unat row * 9) (X - unat col * 8)) else None)"
proof -
  let ?P = "unat (fb_pitch_u32 s)"
  define px where "px = unat col * 8"
  define py where "py = unat row * 9"
  let ?c = "cell_pix (ch, fg_color s, bg_color s)"
  define p where "p k = (\<lambda>Y X. if py \<le> Y \<and> Y < py + k \<and> px \<le> X \<and> X < px + 8
      then Some (?c (Y - py) (X - px)) else None)" for k
  have r: "unat row < unat (fb_rows s)" "unat col < unat (fb_cols s)"
    using assms(2,3) by (simp_all add: word_less_nat_alt)
  then have H: "py + 9 \<le> unat (fb_height s)" and W: "px + 8 \<le> ?P"
    using geom_rows [OF assms(1)] by (simp_all add: px_def py_def)
  have b: "(row * FONT_H + word_of_nat k) * fb_pitch_u32 s + col * FONT_W =
      word_of_nat ((py + k) * ?P + px)" for k
    by (simp add: px_def py_def)
  let ?g = "\<lambda>y x (s :: kconsole). if (font8x8 ! unat (ch AND 0x7F)) ! unat (y :: u32) AND
      drop_bit (unat (x :: u32)) 0x80 \<noteq> 0 then fg_color s else bg_color s"
  let ?line = "\<lambda>y t. for_u32 0 8 (\<lambda>x s. put_pixel (((row * FONT_H + y) * fb_pitch_u32 t +
      col * FONT_W) + x) (?g y x s) s) t"
  have step: "paints s (?line (word_of_nat k) t) (p (Suc k))"
    if k: "k < 8" and t: "paints s t (p k)" for k t
  proof -
    note f = paints_fields [OF t]
    have "?line (word_of_nat k) t = hline (word_of_nat ((py + k) * ?P + px)) (unat (8 :: u32)) (?c k) t"
      unfolding f(3) b
      by (rule hline_loop) (use k f in \<open>simp add: hline_def cell_pix_def unat_of_nat_id\<close>)
    moreover have "paints s (hline (word_of_nat ((py + k) * ?P + px)) 8 (?c k) t) (p (Suc k))"
      by (rule paints_line [OF t assms(1) _ W refl]) (use k H in \<open>auto simp: p_def less_Suc_eq\<close>)
    ultimately show ?thesis by simp
  qed
  have "p 0 = (\<lambda>_ _. None)" by (auto simp: p_def fun_eq_iff)
  then have "paints s s (p 0)" using paints_refl by simp
  then have 1: "paints s (for_u32 0 8 ?line s) (p 8)"
    using for_u32_inv [of 0 8 "\<lambda>k t. paints s t (p k)" s ?line] step by simp
  define t1 where "t1 = for_u32 0 8 ?line s"
  note f = paints_fields [OF 1 [folded t1_def]]
  have b8: "(row * FONT_H + 8) * fb_pitch_u32 s + col * FONT_W = word_of_nat ((py + 8) * ?P + px)"
    using b [of 8] by simp
  have "fb_draw_glyph col row ch s = for_u32 0 8 (\<lambda>x s. put_pixel
      ((row * FONT_H + 8) * fb_pitch_u32 t1 + col * FONT_W + x) (bg_color s) s) t1"
    unfolding fb_draw_glyph_def Let_def t1_def ..
  also have "\<dots> = hline (word_of_nat ((py + 8) * ?P + px)) (unat (8 :: u32)) (\<lambda>_. bg_color s) t1"
    unfolding f(3) b8 by (rule hline_const) (simp add: f)
  finally have e: "fb_draw_glyph col row ch s =
      hline (word_of_nat ((py + 8) * ?P + px)) 8 (\<lambda>_. bg_color s) (for_u32 0 8 ?line s)"
    by (simp add: t1_def)
  have "paints s (fb_draw_glyph col row ch s) (p 9)"
    unfolding e
    by (rule paints_line [OF 1 assms(1) _ W refl])
      (use H in \<open>auto simp: p_def cell_pix_def less_Suc_eq\<close>)
  then show ?thesis unfolding p_def px_def py_def .
qed

lemma fill_lines:
  assumes "geom_ok s" "paints s t p" "L + unat n \<le> unat (fb_height s)"
    and "\<And>m. w (s\<lparr>fb := m\<rparr>) = W" "unat W \<le> unat (fb_pitch_u32 s)" "lw = word_of_nat L"
  shows "paints s (for_u32 0 n (\<lambda>y t. for_u32 0 (w t)
      (\<lambda>x u. put_pixel ((lw + y) * fb_pitch_u32 t + x) (bg_color u) u) t) t)
    (\<lambda>Y X. if L \<le> Y \<and> Y < L + unat n \<and> X < unat W then Some (bg_color s) else p Y X)"
proof -
  let ?P = "unat (fb_pitch_u32 s)"
  define q where "q k = (\<lambda>Y X. if L \<le> Y \<and> Y < L + k \<and> X < unat W then Some (bg_color s)
    else p Y X)" for k
  let ?line = "\<lambda>y t. for_u32 0 (w t)
      (\<lambda>x u. put_pixel ((lw + y) * fb_pitch_u32 t + x) (bg_color u) u) t"
  have step: "paints s (?line (word_of_nat k) t) (q (Suc k))"
    if k: "k < unat n" and t: "paints s t (q k)" for k t
  proof -
    note f = paints_fields [OF t]
    have "w t = W" by (subst paintsD(1) [OF t]) (rule assms(4))
    moreover have "(lw + word_of_nat k) * fb_pitch_u32 s = word_of_nat ((L + k) * ?P + 0)"
      using assms(6) by simp
    ultimately have "?line (word_of_nat k) t =
        hline (word_of_nat ((L + k) * ?P + 0)) (unat W) (\<lambda>_. bg_color s) t"
      using f by (simp only: f(3)) (intro hline_loop, simp add: hline_def)
    moreover have "paints s (hline (word_of_nat ((L + k) * ?P + 0)) (unat W) (\<lambda>_. bg_color s) t)
        (q (Suc k))"
      by (rule paints_line [OF t assms(1) _ _ refl])
        (use k assms(3,5) in \<open>auto simp: q_def less_Suc_eq\<close>)
    ultimately show ?thesis by simp
  qed
  have "q 0 = p" by (auto simp: q_def fun_eq_iff)
  then have "paints s (for_u32 0 n ?line t) (q (unat n))"
    using for_u32_inv [of 0 n "\<lambda>k t. paints s t (q k)" t ?line] step assms(2)
    by (simp add: word_le_nat_alt)
  then show ?thesis by (simp add: q_def)
qed

lemma copy_line:
  assumes "geom_ok s" "l + 9 < unat (fb_height s)" "unat W \<le> unat (fb_pitch_u32 s)"
    and "dst = word_of_nat (l * unat (fb_pitch_u32 s))"
    and "src = word_of_nat ((l + 9) * unat (fb_pitch_u32 s))"
  shows "for_u32 0 W (\<lambda>x s. put_pixel (dst + x) (fb s (src + x)) s) s =
    hline dst (unat W) (\<lambda>x. pix s (l + 9) x) s"
proof (rule hline_loop)
  fix k assume k: "k < unat W"
  let ?h = "hline dst k (\<lambda>x. pix s (l + 9) x) s"
  have "paints s ?h (\<lambda>Y X. if Y = l \<and> 0 \<le> X \<and> X < 0 + k then Some (pix s (l + 9) (X - 0)) else None)"
    by (rule hline_paints) (use assms k in simp_all)
  from paintsD(2) [OF this, of "l + 9" k] have "pix ?h (l + 9) k = pix s (l + 9) k"
    using assms k by simp
  moreover have "fb ?h (src + word_of_nat k) = pix ?h (l + 9) k"
    using assms(5) by (simp add: pix_def hline_def)
  ultimately show "fb ?h (src + word_of_nat k) = pix s (l + 9) k" by simp
qed

lemma scroll_paints:
  assumes "geom_ok s"
  shows "paints s (fb_scroll s) (\<lambda>Y X.
    if Y < unat (fb_rows s) * 9 \<and> X < unat (fb_cols s) * 8 then
      Some (if Y + 9 < unat (fb_rows s) * 9 then pix s (Y + 9) X else bg_color s) else None)"
proof -
  let ?P = "unat (fb_pitch_u32 s)" and ?R = "unat (fb_rows s)"
  define W where "W = fb_cols s * FONT_W"
  note g = geom_rows [OF assms]
  have W: "unat W = unat (fb_cols s) * 8" "unat W \<le> ?P"
  proof -
    have "unat (fb_cols s) * 8 < 2 ^ 32" using g(3) unat_lt [of "fb_pitch_u32 s"] by simp
    then show "unat W = unat (fb_cols s) * 8" by (simp add: W_def unat_word_ariths)
    then show "unat W \<le> ?P" using g(3) by simp
  qed
  define p where "p l = (\<lambda>Y X. if Y < l \<and> X < unat W then Some (pix s (Y + 9) X) else None)" for l
  let ?line = "\<lambda>r y t. for_u32 0 (fb_cols t * FONT_W)
      (\<lambda>x u. put_pixel (((r - 1) * FONT_H + y) * fb_pitch_u32 t + x)
        (fb u ((r * FONT_H + y) * fb_pitch_u32 t + x)) u) t"
  have line: "paints s (?line (word_of_nat k) (word_of_nat y) t) (p (Suc ((k - 1) * 9 + y)))"
    if k: "1 \<le> k" "k < ?R" "y < 9" and t: "paints s t (p ((k - 1) * 9 + y))" for k y t
  proof -
    let ?l = "(k - 1) * 9 + y"
    note f = paints_fields [OF t]
    have l9: "k * 9 + y = ?l + 9" using k(1) by (simp add: diff_mult_distrib)
    have lH: "?l + 9 < unat (fb_height s)"
    proof -
      have "k * 9 + y < Suc k * 9" using k(3) by simp
      also have "\<dots> \<le> ?R * 9" using k(2) by (intro mult_le_mono1) simp
      finally show ?thesis using g(1) unfolding l9 by linarith
    qed
    have k1: "word_of_nat k - 1 = (word_of_nat (k - 1) :: u32)" using k(1) by (simp add: of_nat_diff)
    have dst: "((word_of_nat k - 1) * FONT_H + word_of_nat y) * fb_pitch_u32 s = word_of_nat (?l * ?P)"
      unfolding k1 by simp
    have src: "(word_of_nat k * FONT_H + word_of_nat y) * fb_pitch_u32 s =
        word_of_nat ((?l + 9) * ?P)"
      unfolding l9 [symmetric] by simp
    have "?line (word_of_nat k) (word_of_nat y) t =
        hline (word_of_nat (?l * ?P)) (unat W) (\<lambda>x. pix t (?l + 9) x) t"
      unfolding f(3,4) dst src W_def [symmetric]
      by (rule copy_line) (use f assms lH W in simp_all)
    moreover have "paints s (hline (word_of_nat (?l * ?P)) (unat W) (\<lambda>x. pix t (?l + 9) x) t)
        (p (Suc ?l))"
    proof (rule paints_trans [OF t])
      show "paints t (hline (word_of_nat (?l * ?P)) (unat W) (\<lambda>x. pix t (?l + 9) x) t)
          (\<lambda>Y X. if Y = ?l \<and> 0 \<le> X \<and> X < 0 + unat W then Some (pix t (?l + 9) (X - 0)) else None)"
        by (rule hline_paints) (use f assms lH W in simp_all)
      fix Y X assume "Y < unat (fb_height s)" "X < ?P"
      then show "p (Suc ?l) Y X = (case if Y = ?l \<and> 0 \<le> X \<and> X < 0 + unat W
            then Some (pix t (?l + 9) (X - 0)) else None of None \<Rightarrow> p ?l Y X | Some v \<Rightarrow> Some v)"
        using paintsD(2) [OF t, of "?l + 9" X] lH by (auto simp: p_def less_Suc_eq)
    qed
    ultimately show ?thesis by simp
  qed
  have row: "paints s (for_u32 0 FONT_H (?line (word_of_nat k)) t) (p (k * 9))"
    if k: "1 \<le> k" "k < ?R" and t: "paints s t (p ((k - 1) * 9))" for k t
  proof -
    have "paints s (for_u32 0 FONT_H (?line (word_of_nat k)) t) (p ((k - 1) * 9 + unat FONT_H))"
      by (rule for_u32_inv [where I = "\<lambda>y t. paints s t (p ((k - 1) * 9 + y))"])
        (use k t line in simp_all)
    moreover have "(k - 1) * 9 + unat FONT_H = k * 9" using k(1) by (simp add: diff_mult_distrib)
    ultimately show ?thesis by simp
  qed
  have "1 \<le> fb_rows s" using g(2) by (simp add: word_le_nat_alt)
  moreover have "p 0 = (\<lambda>_ _. None)" by (auto simp: p_def fun_eq_iff)
  ultimately have 1: "paints s (for_u32 1 (fb_rows s) (\<lambda>r. for_u32 0 FONT_H (?line r)) s)
      (p ((?R - 1) * 9))"
    by (intro for_u32_inv [where I = "\<lambda>k t. paints s t (p ((k - 1) * 9))"])
      (use paints_refl row in simp_all)
  let ?t = "for_u32 1 (fb_rows s) (\<lambda>r. for_u32 0 FONT_H (?line r)) s"
  have lw: "(fb_rows s - 1) * FONT_H = word_of_nat ((?R - 1) * 9)" using g(2) by (simp add: of_nat_diff)
  have R9: "(?R - 1) * 9 + unat FONT_H = ?R * 9" using g(2) by (simp add: diff_mult_distrib)
  have "paints s (fb_scroll s) (\<lambda>Y X. if (?R - 1) * 9 \<le> Y \<and> Y < (?R - 1) * 9 + unat FONT_H \<and>
      X < unat W then Some (bg_color s) else p ((?R - 1) * 9) Y X)"
    unfolding fb_scroll_def Let_def paints_fields(5) [OF 1] lw
    by (rule fill_lines [OF assms 1]) (use g R9 W in \<open>simp_all add: W_def\<close>)
  then show ?thesis
    unfolding R9 W(1) p_def
    by (rule back_subst [of "paints s (fb_scroll s)"]) (use g(2) in \<open>auto simp: fun_eq_iff\<close>)
qed

section \<open>The terminal\<close>

text \<open>The specification: a grid of cells and a cursor.\<close>

record tty =
  tcells :: "nat \<Rightarrow> nat \<Rightarrow> tcell"
  trow :: nat
  tcol :: nat

definition tty_newline :: "nat \<Rightarrow> u32 \<Rightarrow> u32 \<Rightarrow> tty \<Rightarrow> tty" where
  "tty_newline rows f b t =
     (if Suc (trow t) < rows then t\<lparr>tcol := 0, trow := Suc (trow t)\<rparr>
      else t\<lparr>tcol := 0, tcells := \<lambda>r c. if Suc r < rows then tcells t (Suc r) c else (0x20, f, b)\<rparr>)"

definition tty_put :: "tcell \<Rightarrow> tty \<Rightarrow> tty" where
  "tty_put x t = t\<lparr>tcells := (tcells t)(trow t := (tcells t (trow t))(tcol t := x))\<rparr>"

definition tty_char :: "nat \<Rightarrow> nat \<Rightarrow> u32 \<Rightarrow> u32 \<Rightarrow> u8 \<Rightarrow> tty \<Rightarrow> tty" where
  "tty_char rows cols f b c t =
     (if c = 0x0D then t\<lparr>tcol := 0\<rparr>
      else if c = 0x0A then tty_newline rows f b t
      else if c = 0x08 then
        (if tcol t = 0 then t else tty_put (0x20, f, b) (t\<lparr>tcol := tcol t - 1\<rparr>))
      else if 0x20 \<le> unat c \<and> unat c \<le> 0x7E then
        (let t1 = tty_put (c, f, b) t
         in if Suc (tcol t) < cols then t1\<lparr>tcol := Suc (tcol t)\<rparr> else tty_newline rows f b t1)
      else t)"

definition shows_cells :: "kconsole \<Rightarrow> (nat \<Rightarrow> nat \<Rightarrow> tcell) \<Rightarrow> bool" where
  "shows_cells s cs \<longleftrightarrow> (\<forall>r < unat (fb_rows s). \<forall>c < unat (fb_cols s). \<forall>y < 9. \<forall>x < 8.
     pix s (r * 9 + y) (c * 8 + x) = cell_pix (cs r c) y x)"

definition shows_text :: "kconsole \<Rightarrow> tty \<Rightarrow> bool" where
  "shows_text s t \<longleftrightarrow> shows_cells s (tcells t) \<and>
     trow t = unat (cur_row s) \<and> tcol t = unat (cur_col s)"

definition kcon_ok :: "kconsole \<Rightarrow> bool" where
  "kcon_ok s \<longleftrightarrow> geom_ok s \<and> fb_ready s \<noteq> 0 \<and> cur_col s < fb_cols s \<and> cur_row s < fb_rows s \<and>
     length (esc_params s) = 8 \<and> esc_state s \<le> ESC_BRACKET \<and> (esc_state s = ESC_BRACKET \<longrightarrow> esc_nparam s \<le> 7)"

lemma cell_in_frame:
  assumes "geom_ok s" "r < unat (fb_rows s)" "c < unat (fb_cols s)" "y < 9" "x < 8"
  shows "r * 9 + y < unat (fb_height s)" "c * 8 + x < unat (fb_pitch_u32 s)"
    "r * 9 + y < unat (fb_rows s) * 9" "c * 8 + x < unat (fb_cols s) * 8"
proof -
  have "r * 9 + y < Suc r * 9" "c * 8 + x < Suc c * 8" using assms(4,5) by simp_all
  moreover have "Suc r * 9 \<le> unat (fb_rows s) * 9" "Suc c * 8 \<le> unat (fb_cols s) * 8"
    using assms(2,3) by (intro mult_le_mono1; simp)+
  ultimately show "r * 9 + y < unat (fb_rows s) * 9" "c * 8 + x < unat (fb_cols s) * 8"
    by linarith+
  then show "r * 9 + y < unat (fb_height s)" "c * 8 + x < unat (fb_pitch_u32 s)"
    using geom_rows [OF assms(1)] by linarith+
qed

lemma block_iff:
  fixes y k r n :: nat
  assumes "y < k"
  shows "n * k \<le> r * k + y \<and> r * k + y < n * k + k \<longleftrightarrow> r = n"
proof -
  have "Suc r * k \<le> n * k" if "r < n" using that by (intro mult_le_mono1) simp
  moreover have "Suc n * k \<le> r * k" if "n < r" using that by (intro mult_le_mono1) simp
  ultimately show ?thesis using assms by (cases r n rule: linorder_cases) auto
qed

lemma draw_glyph_cells:
  assumes "geom_ok s" "row < fb_rows s" "col < fb_cols s" "shows_cells s cs"
  shows "shows_cells (fb_draw_glyph col row ch s)
    (cs(unat row := (cs (unat row))(unat col := (ch, fg_color s, bg_color s))))"
  unfolding shows_cells_def
proof (intro allI impI)
  note p = draw_glyph_paints [OF assms(1-3), of ch]
  fix r c y x :: nat
  assume rc: "r < unat (fb_rows (fb_draw_glyph col row ch s))"
    "c < unat (fb_cols (fb_draw_glyph col row ch s))" "y < 9" "x < 8"
  then have rc': "r < unat (fb_rows s)" "c < unat (fb_cols s)" using paints_fields [OF p] by simp_all
  have "unat row * 9 \<le> r * 9 + y \<and> r * 9 + y < unat row * 9 + 9 \<longleftrightarrow> r = unat row"
    "unat col * 8 \<le> c * 8 + x \<and> c * 8 + x < unat col * 8 + 8 \<longleftrightarrow> c = unat col"
    using block_iff [OF rc(3)] block_iff [OF rc(4)] by blast+
  then show "pix (fb_draw_glyph col row ch s) (r * 9 + y) (c * 8 + x) =
      cell_pix ((cs(unat row := (cs (unat row))(unat col := (ch, fg_color s, bg_color s)))) r c) y x"
    using paintsD(2) [OF p cell_in_frame(1,2) [OF assms(1) rc' rc(3,4)]] assms(4) rc' rc(3,4)
    by (auto simp: shows_cells_def)
qed

lemma blank_cell: "cell_pix (0x20, f, b) y x = b"
proof -
  have "y < 8 \<Longrightarrow> (font8x8 ! 32) ! y = 0"
    by (cases "y = 0 \<or> y = 1 \<or> y = 2 \<or> y = 3 \<or> y = 4 \<or> y = 5 \<or> y = 6 \<or> y = 7")
      (auto simp: font8x8_def)
  then show ?thesis by (auto simp: cell_pix_def)
qed

lemma scroll_cells:
  assumes "geom_ok s" "shows_cells s cs"
  shows "shows_cells (fb_scroll s)
    (\<lambda>r c. if Suc r < unat (fb_rows s) then cs (Suc r) c else (0x20, fg_color s, bg_color s))"
  unfolding shows_cells_def
proof (intro allI impI)
  note p = scroll_paints [OF assms(1)]
  fix r c y x :: nat
  assume rc: "r < unat (fb_rows (fb_scroll s))" "c < unat (fb_cols (fb_scroll s))" "y < 9" "x < 8"
  then have rc': "r < unat (fb_rows s)" "c < unat (fb_cols s)" using paints_fields [OF p] by simp_all
  note here = paintsD(2) [OF p cell_in_frame(1,2) [OF assms(1) rc' rc(3,4)]]
    cell_in_frame(3,4) [OF assms(1) rc' rc(3,4)]
  show "pix (fb_scroll s) (r * 9 + y) (c * 8 + x) = cell_pix (if Suc r < unat (fb_rows s)
      then cs (Suc r) c else (0x20, fg_color s, bg_color s)) y x"
  proof (cases "Suc r < unat (fb_rows s)")
    case True
    then have "r * 9 + y + 9 < unat (fb_rows s) * 9"
      using cell_in_frame(3) [OF assms(1) True rc'(2) rc(3,4)] by simp
    moreover have "pix s (r * 9 + y + 9) (c * 8 + x) = cell_pix (cs (Suc r) c) y x"
    proof -
      have "r * 9 + y + 9 = Suc r * 9 + y" by simp
      then show ?thesis using assms(2) True rc'(2) rc(3,4) by (simp only: shows_cells_def)
    qed
    ultimately show ?thesis using here True by simp
  next
    case False
    then have "Suc r = unat (fb_rows s)" using rc'(1) by simp
    then have "\<not> r * 9 + y + 9 < unat (fb_rows s) * 9" by (metis mult_Suc not_add_less1 add.commute add.assoc)
    then show ?thesis using here False blank_cell by simp
  qed
qed

section \<open>Characters\<close>

lemma shows_cells_upd [simp]:
  "shows_cells (s\<lparr>cur_col := a\<rparr>) cs = shows_cells s cs"
  "shows_cells (s\<lparr>cur_row := b\<rparr>) cs = shows_cells s cs"
  by (simp_all add: shows_cells_def pix_def)

lemma geom_upd [simp]:
  "geom_ok (s\<lparr>cur_col := a\<rparr>) = geom_ok s" "geom_ok (s\<lparr>cur_row := b\<rparr>) = geom_ok s"
  "geom_ok (s\<lparr>esc_state := e\<rparr>) = geom_ok s"
  by (simp_all add: geom_ok_def)

text \<open>What every character leaves alone, apart from the escape state and the colours.\<close>

definition draws_only :: "kconsole \<Rightarrow> kconsole \<Rightarrow> bool" where
  "draws_only s s' \<longleftrightarrow> s' = s\<lparr>fb := fb s', cur_col := cur_col s', cur_row := cur_row s'\<rparr> \<and>
     (\<forall>i. unat (fb_height s) * unat (fb_pitch_u32 s) \<le> unat i \<longrightarrow> fb s' i = fb s i)"

lemma draws_onlyI:
  assumes "paints s t p"
  shows "draws_only s (t\<lparr>cur_col := a, cur_row := b\<rparr>)" "draws_only s (t\<lparr>cur_col := a\<rparr>)"
    "draws_only s (t\<lparr>cur_row := b\<rparr>)" "draws_only s t"
proof -
  obtain m where m: "t = s\<lparr>fb := m\<rparr>" using paintsD(1) [OF assms] by blast
  have "\<forall>i. unat (fb_height s) * unat (fb_pitch_u32 s) \<le> unat i \<longrightarrow> m i = fb s i"
    using paintsD(3) [OF assms] m by simp
  then show "draws_only s (t\<lparr>cur_col := a, cur_row := b\<rparr>)" "draws_only s (t\<lparr>cur_col := a\<rparr>)"
    "draws_only s (t\<lparr>cur_row := b\<rparr>)" "draws_only s t"
    unfolding m by (simp_all add: draws_only_def)
qed

lemma draws_only_fields:
  assumes "draws_only s t"
  shows "geom_ok t = geom_ok s" "fb_ready t = fb_ready s" "fb_cols t = fb_cols s"
    "fb_rows t = fb_rows s" "fg_color t = fg_color s" "bg_color t = bg_color s"
    "esc_state t = esc_state s" "esc_params t = esc_params s" "esc_nparam t = esc_nparam s"
    "fb_height t = fb_height s" "fb_pitch_u32 t = fb_pitch_u32 s" "fg_default t = fg_default s"
    "bg_default t = bg_default s"
proof -
  have e: "t = s\<lparr>fb := fb t, cur_col := cur_col t, cur_row := cur_row t\<rparr>"
    using assms by (simp add: draws_only_def)
  show "geom_ok t = geom_ok s" "fb_ready t = fb_ready s" "fb_cols t = fb_cols s"
    "fb_rows t = fb_rows s" "fg_color t = fg_color s" "bg_color t = bg_color s"
    "esc_state t = esc_state s" "esc_params t = esc_params s" "esc_nparam t = esc_nparam s"
    "fb_height t = fb_height s" "fb_pitch_u32 t = fb_pitch_u32 s" "fg_default t = fg_default s"
    "bg_default t = bg_default s"
    by (subst e; simp add: geom_ok_def)+
qed

lemma draws_only_trans:
  assumes "draws_only s t" "draws_only t u"
  shows "draws_only s u"
proof -
  have "u = t\<lparr>fb := fb u, cur_col := cur_col u, cur_row := cur_row u\<rparr>"
    using assms(2) by (simp add: draws_only_def)
  also have "t = s\<lparr>fb := fb t, cur_col := cur_col t, cur_row := cur_row t\<rparr>"
    using assms(1) by (simp add: draws_only_def)
  finally have "u = s\<lparr>fb := fb u, cur_col := cur_col u, cur_row := cur_row u\<rparr>" by simp
  then show ?thesis
    using assms draws_only_fields [OF assms(1)] by (simp add: draws_only_def)
qed

lemma newline_ok:
  assumes "geom_ok s" "cur_row s < fb_rows s" "shows_cells s cs"
    and t: "tcells t = cs" "trow t = unat (cur_row s)"
  shows "shows_text (newline s) (tty_newline (unat (fb_rows s)) (fg_color s) (bg_color s) t)"
    and "draws_only s (newline s)" and "cur_col (newline s) = 0"
    and "cur_row (newline s) < fb_rows s"
proof -
  let ?s1 = "s\<lparr>cur_col := 0, cur_row := cur_row s + 1\<rparr>"
  have r1: "unat (cur_row s + 1) = Suc (unat (cur_row s))" by (rule unat_Suc_less [OF assms(2)])
  have g: "geom_ok ?s1" "shows_cells ?s1 cs" using assms(1,3) by simp_all
  note p = scroll_paints [OF g(1)]
  note f = paints_fields [OF p]
  have sc: "shows_cells (fb_scroll ?s1) (\<lambda>r c. if Suc r < unat (fb_rows s) then cs (Suc r) c
      else (0x20, fg_color s, bg_color s))"
    using scroll_cells [OF g] by (simp cong: if_cong)
  have d1: "draws_only s ?s1" using draws_onlyI(1) [OF paints_refl] .
  have "(shows_text (newline s) (tty_newline (unat (fb_rows s)) (fg_color s) (bg_color s) t) \<and>
      draws_only s (newline s)) \<and> cur_col (newline s) = 0 \<and> cur_row (newline s) < fb_rows s"
  proof (cases "fb_rows s \<le> cur_row s + 1")
    case True
    then have R: "Suc (unat (cur_row s)) = unat (fb_rows s)" "fb_rows s - 1 = cur_row s"
      using r1 assms(2) by (simp_all add: word_le_nat_alt word_less_nat_alt word_unat_eq_iff
          unat_sub_if_size word_size)
    have n: "newline s = (fb_scroll ?s1)\<lparr>cur_row := cur_row s\<rparr>"
      using True R(2) by (simp add: newline_def Let_def)
    have "draws_only ?s1 ((fb_scroll ?s1)\<lparr>cur_row := cur_row s\<rparr>)" by (rule draws_onlyI(3) [OF p])
    then show ?thesis
      unfolding n using sc [folded t(1)] t R assms(2) f draws_only_trans [OF d1]
      by (simp add: shows_text_def tty_newline_def)
  next
    case False
    then have n: "newline s = ?s1" by (simp add: newline_def Let_def)
    have "Suc (unat (cur_row s)) < unat (fb_rows s)"
      using False r1 by (simp add: word_le_nat_alt)
    then show ?thesis unfolding n using g(2) d1 t r1 False by (simp add: shows_text_def tty_newline_def)
  qed
  then show "shows_text (newline s) (tty_newline (unat (fb_rows s)) (fg_color s) (bg_color s) t)"
    "draws_only s (newline s)" "cur_col (newline s) = 0" "cur_row (newline s) < fb_rows s" by blast+
qed

lemma sint_byte:
  fixes c :: u8
  shows "sint c = (if uint c < 128 then uint c else uint c - 256)"
proof -
  have lt: "uint c < 256" "0 \<le> uint c" using uint_bounded [of c] by simp_all
  have "sint c = take_bit 8 (uint c) - 2 ^ 8 * of_bool (bit (uint c) 7)"
    by (simp add: sint_uint signed_take_bit_eq_take_bit_minus)
  moreover have "bit (uint c) 7 \<longleftrightarrow> \<not> uint c < 128"
  proof (cases "uint c < 128")
    case False
    then have "uint c div 128 = 1" using lt by (intro int_div_pos_eq [of _ _ _ "uint c - 128"]) simp_all
    then show ?thesis using False by (simp add: bit_iff_odd)
  qed (use lt in \<open>simp add: bit_iff_odd\<close>)
  moreover have "take_bit 8 (uint c) = uint c" using lt by (simp add: take_bit_int_eq_self)
  ultimately show ?thesis using lt by simp
qed

lemma sless_byte:
  fixes c :: u8
  shows "\<not> (c <s 0x20 \<or> 0x7E <s c) \<longleftrightarrow> 0x20 \<le> unat c \<and> unat c \<le> 0x7E"
    and "0x30 <=s c \<and> c <=s 0x39 \<longleftrightarrow> 0x30 \<le> unat c \<and> unat c \<le> 0x39"
proof -
  define n where "n = unat c"
  have u: "uint c = int n" unfolding n_def by simp
  show "\<not> (c <s 0x20 \<or> 0x7E <s c) \<longleftrightarrow> 0x20 \<le> unat c \<and> unat c \<le> 0x7E"
    "0x30 <=s c \<and> c <=s 0x39 \<longleftrightarrow> 0x30 \<le> unat c \<and> unat c \<le> 0x39"
    unfolding n_def [symmetric] using unat_lt [of c, folded n_def]
    by (auto simp: word_sless_alt word_sle_eq sint_byte u)
qed


lemma text_putc_ok:
  assumes "kcon_ok s" "shows_text s t" "esc_state s = ESC_NONE" "c \<noteq> 0x1B"
  shows "shows_text (kconsole_putc c s)
      (tty_char (unat (fb_rows s)) (unat (fb_cols s)) (fg_color s) (bg_color s) c t) \<and>
    draws_only s (kconsole_putc c s) \<and>
    cur_col (kconsole_putc c s) < fb_cols s \<and> cur_row (kconsole_putc c s) < fb_rows s"
proof -
  have g: "geom_ok s" "cur_col s < fb_cols s" "cur_row s < fb_rows s" "fb_ready s \<noteq> 0"
    using assms(1) by (simp_all add: kcon_ok_def)
  have c0: "0 < fb_cols s" using g(1) unfolding geom_ok_def by blast
  have st: "shows_cells s (tcells t)" "trow t = unat (cur_row s)" "tcol t = unat (cur_col s)"
    using assms(2) by (simp_all add: shows_text_def)
  note self = draws_onlyI(4) [OF paints_refl]
  consider "c = 0x0D" | "c = 0x0A" | "c = 0x08" |
    "c \<notin> {0x0D, 0x0A, 0x08}" "0x20 \<le> unat c \<and> unat c \<le> 0x7E" |
    "c \<notin> {0x0D, 0x0A, 0x08}" "\<not> (0x20 \<le> unat c \<and> unat c \<le> 0x7E)" by blast
  then show ?thesis
  proof cases
    case 1
    then show ?thesis
      using st g assms(3) draws_onlyI(2) [OF paints_refl [of s], of 0] c0
      by (simp add: kconsole_putc_def tty_char_def shows_text_def)
  next
    case 2
    then have "kconsole_putc c s = newline s" using g assms(3) by (simp add: kconsole_putc_def)
    then show ?thesis
      using newline_ok [OF g(1,3) st(1) refl st(2)] 2 c0
      by (simp add: tty_char_def)
  next
    case 3
    show ?thesis
    proof (cases "cur_col s = 0")
      case True
      then show ?thesis
        using 3 st g assms(3) self by (simp add: kconsole_putc_def tty_char_def shows_text_def)
    next
      case False
      let ?s1 = "s\<lparr>cur_col := cur_col s - 1\<rparr>"
      have c1: "unat (cur_col s - 1) = unat (cur_col s) - 1" "0 < unat (cur_col s)"
        using False by (simp_all add: unat_minus_one unat_gt_0)
      have s1: "geom_ok ?s1" "cur_row ?s1 < fb_rows ?s1" "cur_col ?s1 < fb_cols ?s1"
        "shows_cells ?s1 (tcells t)"
        using g st(1) c1 by (simp_all add: word_less_nat_alt)
      note p = draw_glyph_paints [OF s1(1-3), of "0x20"]
      have k: "kconsole_putc c s = fb_draw_glyph (cur_col ?s1) (cur_row ?s1) 0x20 ?s1"
        using 3 False g(4) assms(3) by (simp add: kconsole_putc_def Let_def word_neq_0_conv)
      show ?thesis
        unfolding k
        using draw_glyph_cells [OF s1, of "0x20"] paints_fields [OF p] 3 st c1 g
          draws_only_trans [OF draws_onlyI(2) [OF paints_refl] draws_onlyI(4) [OF p]] s1(3)
        by (simp add: tty_char_def tty_put_def shows_text_def)
    qed
  next
    case 4
    note p = draw_glyph_paints [OF g(1,3,2), of c]
    let ?s1 = "fb_draw_glyph (cur_col s) (cur_row s) c s"
    let ?s2 = "?s1\<lparr>cur_col := cur_col s + 1\<rparr>"
    note f = paints_fields [OF p]
    have c1: "unat (cur_col s + 1) = Suc (unat (cur_col s))" by (rule unat_Suc_less [OF g(2)])
    let ?t1 = "tty_put (c, fg_color s, bg_color s) t"
    have cells: "shows_cells ?s2 (tcells ?t1)"
      using draw_glyph_cells [OF g(1,3,2) st(1), of c] st by (simp add: tty_put_def)
    have k: "kconsole_putc c s = (if fb_cols s \<le> cur_col s + 1 then newline ?s2 else ?s2)"
      using 4 sless_byte(1) [of c] g(4) assms(3,4) f by (simp add: kconsole_putc_def Let_def)
    have d: "draws_only s ?s2" by (rule draws_onlyI(2) [OF p])
    show ?thesis
    proof (cases "fb_cols s \<le> cur_col s + 1")
      case True
      have n: "geom_ok ?s2" "cur_row ?s2 < fb_rows ?s2" "trow ?t1 = unat (cur_row ?s2)"
        using g f st(2) by (simp_all add: tty_put_def)
      note nl = newline_ok [OF n(1,2) cells refl n(3)]
      show ?thesis
        unfolding k using True nl draws_only_trans [OF d nl(2)] f 4 st(3) c1
          c0
        by (simp add: tty_char_def Let_def word_le_nat_alt)
    next
      case False
      then have "cur_col s + 1 < fb_cols s" "Suc (unat (cur_col s)) < unat (fb_cols s)"
        using c1 by (simp_all add: word_le_nat_alt word_less_nat_alt)
      then show ?thesis
        unfolding k using False cells d f g 4 st c1
        by (simp add: tty_char_def Let_def shows_text_def tty_put_def)
    qed
  next
    case 5
    then have "kconsole_putc c s = s"
      using sless_byte(1) [of c] g(4) assms(3,4) by (auto simp: kconsole_putc_def)
    then show ?thesis using 5 self g assms(2) by (auto simp: tty_char_def)
  qed
qed

lemma kcon_ok_draws:
  assumes "kcon_ok s" "draws_only s t" "cur_col t < fb_cols s" "cur_row t < fb_rows s"
  shows "kcon_ok t"
  using assms draws_only_fields [OF assms(2)] by (simp add: kcon_ok_def)

section \<open>Escape sequences\<close>

text \<open>The specification of the colour codes.\<close>

definition sgr_colour :: "u32 \<Rightarrow> u32 \<Rightarrow> nat \<Rightarrow> u32 \<times> u32 \<Rightarrow> u32 \<times> u32" where
  "sgr_colour df db p = (\<lambda>(f, b).
     if p = 0 then (df, db)
     else if p = 1 then
       (case find (\<lambda>j. ansi_palette ! j = f) [0..<8] of
          None \<Rightarrow> (f, b) | Some j \<Rightarrow> (ansi_palette ! (j + 8), b))
     else if 30 \<le> p \<and> p \<le> 37 then (ansi_palette ! (p - 30), b)
     else if 90 \<le> p \<and> p \<le> 97 then (ansi_palette ! (p - 82), b)
     else if 40 \<le> p \<and> p \<le> 47 then (f, ansi_palette ! (p - 40))
     else if 100 \<le> p \<and> p \<le> 107 then (f, ansi_palette ! (p - 92))
     else (f, b))"

fun sgr_text :: "nat list \<Rightarrow> u8 list" where
  "sgr_text [] = []"
| "sgr_text [p] = numeral_text 10 p"
| "sgr_text (p # q # ps) = numeral_text 10 p @ [0x3B] @ sgr_text (q # ps)"

definition colours :: "kconsole \<Rightarrow> u32 \<times> u32" where
  "colours s = (fg_color s, bg_color s)"

definition set_colours :: "u32 \<times> u32 \<Rightarrow> kconsole \<Rightarrow> kconsole" where
  "set_colours c s = s\<lparr>fg_color := fst c, bg_color := snd c\<rparr>"

lemma set_colours_id [simp]: "set_colours (colours s) s = s"
  by (simp add: set_colours_def colours_def)

lemma brighten_eq:
  "j \<le> 8 \<Longrightarrow> brighten j s = (case find (\<lambda>j. ansi_palette ! j = fg_color s) [j..<8] of
     None \<Rightarrow> s | Some i \<Rightarrow> s\<lparr>fg_color := ansi_palette ! (i + 8)\<rparr>)"
proof (induction "8 - j" arbitrary: j)
  case 0
  then show ?case by (subst brighten.simps) simp
next
  case (Suc n)
  then have "j < 8" by simp
  then show ?case
    using Suc.hyps(1) [of "Suc j"] Suc.hyps(2) upt_conv_Cons [of j 8]
    by (subst brighten.simps) auto
qed

lemma sgr_param_eq:
  assumes "p < 2 ^ 32"
  shows "sgr_param (word_of_nat p) s =
    set_colours (sgr_colour (fg_default s) (bg_default s) p (colours s)) s"
proof -
  have p: "unat (word_of_nat p :: u32) = p" using assms by (simp add: unat_of_nat_id)
  have z: "word_of_nat p = (0 :: u32) \<longleftrightarrow> p = 0" "word_of_nat p = (1 :: u32) \<longleftrightarrow> p = 1"
    by (simp_all add: word_unat_eq_iff p)
  have r: "unat lo \<le> p \<and> p \<le> unat hi \<longleftrightarrow> lo \<le> word_of_nat p \<and> word_of_nat p \<le> hi"
    for lo hi :: u32
    by (simp add: word_le_nat_alt p)
  have sub: "unat (word_of_nat p - k :: u32) = p - unat k" if "unat k \<le> p" for k
    using that p by (simp add: unat_sub word_le_nat_alt)
  have a8: "unat (word_of_nat p - k + 8 :: u32) = p - unat k + 8"
    if "unat k \<le> p" "p \<le> 200" for k
    using that sub [OF that(1)] by (simp add: unat_word_ariths)
  have q: "30 \<le> (word_of_nat p :: u32) \<and> word_of_nat p \<le> (37 :: u32) \<longleftrightarrow> 30 \<le> p \<and> p \<le> 37"
    "90 \<le> (word_of_nat p :: u32) \<and> word_of_nat p \<le> (97 :: u32) \<longleftrightarrow> 90 \<le> p \<and> p \<le> 97"
    "40 \<le> (word_of_nat p :: u32) \<and> word_of_nat p \<le> (47 :: u32) \<longleftrightarrow> 40 \<le> p \<and> p \<le> 47"
    "100 \<le> (word_of_nat p :: u32) \<and> word_of_nat p \<le> (107 :: u32) \<longleftrightarrow> 100 \<le> p \<and> p \<le> 107"
    using r [of 30 37] r [of 90 97] r [of 40 47] r [of 100 107] by simp_all
  have e: "sgr_param (word_of_nat p) s =
     (if p = 0 then s\<lparr>fg_color := fg_default s, bg_color := bg_default s\<rparr>
      else if p = 1 then brighten 0 s
      else if 30 \<le> p \<and> p \<le> 37 then s\<lparr>fg_color := ansi_palette ! unat (word_of_nat p - 30 :: u32)\<rparr>
      else if 90 \<le> p \<and> p \<le> 97 then s\<lparr>fg_color := ansi_palette ! unat (word_of_nat p - 90 + 8 :: u32)\<rparr>
      else if 40 \<le> p \<and> p \<le> 47 then s\<lparr>bg_color := ansi_palette ! unat (word_of_nat p - 40 :: u32)\<rparr>
      else if 100 \<le> p \<and> p \<le> 107 then
        s\<lparr>bg_color := ansi_palette ! unat (word_of_nat p - 100 + 8 :: u32)\<rparr>
      else s)"
    unfolding sgr_param_def z q ..
  note ds = sgr_colour_def colours_def set_colours_def
  consider "p = 0" | "p = 1" | "30 \<le> p \<and> p \<le> 37" | "90 \<le> p \<and> p \<le> 97" | "40 \<le> p \<and> p \<le> 47" |
    "100 \<le> p \<and> p \<le> 107" | "p \<notin> {0, 1}" "\<not> (30 \<le> p \<and> p \<le> 37)" "\<not> (90 \<le> p \<and> p \<le> 97)"
      "\<not> (40 \<le> p \<and> p \<le> 47)" "\<not> (100 \<le> p \<and> p \<le> 107)" by blast
  then show ?thesis
  proof cases
    case 1
    then show ?thesis unfolding e by (simp add: ds)
  next
    case 2
    then show ?thesis unfolding e by (simp add: ds brighten_eq del: upt_rec_numeral split: option.splits)
  next
    case 3
    then show ?thesis using sub [of 30] unfolding e by (simp add: ds)
  next
    case 4
    then show ?thesis using a8 [of 90] unfolding e by (simp add: ds)
  next
    case 5
    then show ?thesis using sub [of 40] unfolding e by (simp add: ds)
  next
    case 6
    then show ?thesis using a8 [of 100] unfolding e by (simp add: ds)
  next
    case 7
    then have n: "p \<noteq> 0" "p \<noteq> 1" by simp_all
    have "sgr_param (word_of_nat p) s = s" unfolding e by (simp only: n 7(2-5) if_False)
    moreover have "sgr_colour (fg_default s) (bg_default s) p (colours s) = colours s"
      unfolding sgr_colour_def colours_def prod.case by (simp only: n 7(2-5) if_False)
    ultimately show ?thesis by simp
  qed
qed

lemma apply_sgr_eq:
  assumes "unat (esc_nparam s) = length ps" "ps \<noteq> []" "list_all (\<lambda>p. p < 2 ^ 32) ps"
    and "\<And>i. i < length ps \<Longrightarrow> esc_params s ! i = word_of_nat (ps ! i)"
  shows "fb_apply_sgr s =
    set_colours (fold (sgr_colour (fg_default s) (bg_default s)) ps (colours s)) s"
proof -
  let ?c = "\<lambda>n. fold (sgr_colour (fg_default s) (bg_default s)) (take n ps) (colours s)"
  have "fold (\<lambda>i s. sgr_param (esc_params s ! i) s) [0..<n] s = set_colours (?c n) s"
    if "n \<le> length ps" for n
    using that
  proof (induction n)
    case (Suc n)
    have lt: "ps ! n < 2 ^ 32" using assms(3) Suc.prems by (simp add: list_all_length)
    have "sgr_param (esc_params s ! n) (set_colours (?c n) s) =
        set_colours (sgr_colour (fg_default s) (bg_default s) (ps ! n) (?c n)) s"
      using assms(4) [of n] Suc.prems sgr_param_eq [OF lt, of "set_colours (?c n) s"]
      by (simp add: set_colours_def colours_def)
    moreover have "?c (Suc n) = sgr_colour (fg_default s) (bg_default s) (ps ! n) (?c n)"
      using Suc.prems by (simp add: take_Suc_conv_app_nth)
    ultimately show ?case using Suc by (simp add: set_colours_def)
  qed simp
  moreover have "esc_nparam s \<noteq> 0" using assms(1,2) by (metis length_0_conv unat_0)
  ultimately show ?thesis using assms(1) by (simp add: fb_apply_sgr_def)
qed

text \<open>Parsing the parameters.\<close>

lemma digit_scast:
  assumes "d < 10"
  shows "scast (digit_char d - 0x30) = (word_of_nat d :: u32)"
proof -
  have "digit_char d - 0x30 = word_of_nat d" using assms by (simp add: digit_char_def)
  moreover have "uint (word_of_nat d :: u8) = int d"
    using assms by (simp add: unsigned_of_nat take_bit_nat_eq_self)
  then have "sint (word_of_nat d :: u8) = int d" using assms by (simp add: sint_byte)
  ultimately show ?thesis by (simp add: signed_def)
qed

lemma digit_step:
  assumes "fb_ready s \<noteq> 0" "esc_state s = ESC_BRACKET" "d < 10"
  shows "kconsole_putc (digit_char d) s = s\<lparr>esc_params := (esc_params s)[unat (esc_nparam s) :=
    esc_params s ! unat (esc_nparam s) * 10 + word_of_nat d]\<rparr>"
proof -
  have u: "unat (digit_char d) = 48 + d"
    using assms(3) by (simp add: digit_char_def unat_of_nat_id flip: of_nat_add)
  then have "0x30 <=s digit_char d \<and> digit_char d <=s 0x39"
    unfolding sless_byte(2) using assms(3) by simp
  then show ?thesis using assms(1,2) digit_scast [OF assms(3)] by (simp add: kconsole_putc_def)
qed

lemma digits_feed:
  assumes "fb_ready s \<noteq> 0" "esc_state s = ESC_BRACKET" "unat (esc_nparam s) < length (esc_params s)"
    and "\<And>d. d \<in> set ds \<Longrightarrow> d < 10"
  shows "fold kconsole_putc (map digit_char ds) s = s\<lparr>esc_params := (esc_params s)[unat (esc_nparam s) :=
    fold (\<lambda>d a. a * 10 + word_of_nat d) ds (esc_params s ! unat (esc_nparam s))]\<rparr>"
  using assms
proof (induction ds arbitrary: s)
  case (Cons d ds)
  have 1: "kconsole_putc (digit_char d) s = s\<lparr>esc_params := (esc_params s)[unat (esc_nparam s) :=
      esc_params s ! unat (esc_nparam s) * 10 + word_of_nat d]\<rparr>"
    using Cons.prems by (intro digit_step) simp_all
  show ?case using Cons.IH Cons.prems by (simp add: 1)
qed simp

lemma word_value:
  "fold (\<lambda>d a. a * 10 + word_of_nat d) ds (word_of_nat v :: u32) =
    word_of_nat (fold (\<lambda>d a. a * 10 + d) ds v)"
proof (induction ds arbitrary: v)
  case (Cons d ds)
  have "word_of_nat v * 10 + word_of_nat d = (word_of_nat (v * 10 + d) :: u32)" by simp
  then show ?case by (simp only: fold_simps Cons.IH)
qed simp

lemma numeral_feed:
  assumes "fb_ready s \<noteq> 0" "esc_state s = ESC_BRACKET" "unat (esc_nparam s) < length (esc_params s)"
    and "esc_params s ! unat (esc_nparam s) = 0"
  shows "fold kconsole_putc (numeral_text 10 p) s =
    s\<lparr>esc_params := (esc_params s)[unat (esc_nparam s) := word_of_nat p]\<rparr>"
proof -
  have "fold (\<lambda>d a. a * 10 + word_of_nat d) (digits 10 p) (0 :: u32) = word_of_nat p"
    using word_value [of "digits 10 p" 0] digits_value [of 10 p] by (simp add: value_of_def)
  then show ?thesis
    using digits_feed [OF assms(1-3), of "digits 10 p"] digits_bound [of 10 _ p] assms(4)
    by (simp add: numeral_text_def)
qed

lemma params_feed:
  assumes "fb_ready s \<noteq> 0" "esc_state s = ESC_BRACKET" "length (esc_params s) = 8"
    and "ps \<noteq> []" "unat (esc_nparam s) + length ps \<le> 8"
    and "esc_params s ! unat (esc_nparam s) = 0"
  shows "\<exists>X n. fold kconsole_putc (sgr_text ps) s = s\<lparr>esc_params := X, esc_nparam := n\<rparr> \<and>
    length X = 8 \<and> Suc (unat n) = unat (esc_nparam s) + length ps \<and>
    (\<forall>i < unat (esc_nparam s). X ! i = esc_params s ! i) \<and>
    (\<forall>i < length ps. X ! (unat (esc_nparam s) + i) = word_of_nat (ps ! i))"
  using assms
proof (induction ps arbitrary: s rule: sgr_text.induct)
  case (2 p)
  then have "fold kconsole_putc (sgr_text [p]) s =
      s\<lparr>esc_params := (esc_params s)[unat (esc_nparam s) := word_of_nat p], esc_nparam := esc_nparam s\<rparr>"
    using numeral_feed [of s p] by simp
  then show ?case using 2(3,5) by (intro exI conjI) (assumption | simp)+
next
  case (3 p q ps)
  let ?k = "unat (esc_nparam s)"
  let ?s1 = "s\<lparr>esc_params := (esc_params s)[?k := word_of_nat p]\<rparr>"
  let ?s2 = "s\<lparr>esc_params := (esc_params s)[?k := word_of_nat p, Suc ?k := 0],
    esc_nparam := esc_nparam s + 1\<rparr>"
  have k7: "?k < 7" using 3(6) by simp
  then have lt: "esc_nparam s < 7" by (simp add: word_less_nat_alt)
  have k1: "unat (esc_nparam s + 1) = Suc ?k" by (rule unat_Suc_less [OF lt])
  have "fold kconsole_putc (numeral_text 10 p) s = ?s1"
    using 3(2-7) k7 by (intro numeral_feed) simp_all
  moreover have "kconsole_putc 0x3B ?s1 = ?s2"
    using 3(2,3) lt k1 sless_byte(2) [of "0x3B"] by (simp add: kconsole_putc_def Let_def)
  ultimately have s2: "fold kconsole_putc (sgr_text (p # q # ps)) s =
      fold kconsole_putc (sgr_text (q # ps)) ?s2" by simp
  obtain X n where X: "fold kconsole_putc (sgr_text (q # ps)) ?s2 = ?s2\<lparr>esc_params := X, esc_nparam := n\<rparr>"
    "length X = 8" "Suc (unat n) = Suc ?k + length (q # ps)"
    "\<forall>i < Suc ?k. X ! i = esc_params ?s2 ! i"
    "\<forall>i < length (q # ps). X ! (Suc ?k + i) = word_of_nat ((q # ps) ! i)"
    using 3(1) [of ?s2] 3(2-7) k7 k1 by auto
  have "X ! (?k + i) = word_of_nat ((p # q # ps) ! i)" if "i < length (p # q # ps)" for i
    using X(4,5) that k7 3(4) by (cases i) auto
  then show ?case
    unfolding s2 X(1) using X(2,3,4) k7 3(4) by (intro exI [of _ X] exI [of _ n]) auto
qed simp

lemma sgr_only: "\<exists>f b. sgr_param p s = s\<lparr>fg_color := f, bg_color := b\<rparr>"
proof -
  have "sgr_param p s = set_colours (sgr_colour (fg_default s) (bg_default s) (unat p) (colours s)) s"
    using sgr_param_eq [of "unat p" s] unat_lt [of p] by simp
  then show ?thesis by (auto simp: set_colours_def)
qed

lemma fold_sgr_only:
  "\<exists>f b. fold (\<lambda>i s. sgr_param (esc_params s ! i) s) is s = s\<lparr>fg_color := f, bg_color := b\<rparr>"
proof (induction "is" arbitrary: s)
  case Nil
  have "s = s\<lparr>fg_color := fg_color s, bg_color := bg_color s\<rparr>" by simp
  then show ?case by (metis fold_simps(1))
next
  case (Cons i "is")
  obtain f b where 1: "sgr_param (esc_params s ! i) s = s\<lparr>fg_color := f, bg_color := b\<rparr>"
    using sgr_only by blast
  obtain f' b' where "fold (\<lambda>i s. sgr_param (esc_params s ! i) s) is (s\<lparr>fg_color := f, bg_color := b\<rparr>) =
      (s\<lparr>fg_color := f, bg_color := b\<rparr>)\<lparr>fg_color := f', bg_color := b'\<rparr>"
    using Cons.IH by blast
  then have "fold (\<lambda>i s. sgr_param (esc_params s ! i) s) (i # is) s =
      s\<lparr>fg_color := f', bg_color := b'\<rparr>"
    using 1 by simp
  then show ?case by blast
qed

text \<open>Bytes of an escape sequence change the parser's state and the colours only.\<close>

definition esc_step :: "u32 list \<Rightarrow> u8 \<Rightarrow> u8 \<Rightarrow> u32 \<times> u32 \<Rightarrow> kconsole \<Rightarrow> kconsole" where
  "esc_step a n st fbg s = s\<lparr>esc_params := a, esc_nparam := n, esc_state := st,
     fg_color := fst fbg, bg_color := snd fbg\<rparr>"

definition esc_only :: "kconsole \<Rightarrow> kconsole \<Rightarrow> bool" where
  "esc_only s s' \<longleftrightarrow> (\<exists>a n st f b. s' =
      s\<lparr>esc_params := a, esc_nparam := n, esc_state := st, fg_color := f, bg_color := b\<rparr> \<and>
    length a = 8 \<and> st \<le> ESC_BRACKET \<and> (st = ESC_BRACKET \<longrightarrow> n \<le> 7))"

lemma esc_stepI:
  "length a = 8 \<Longrightarrow> st \<le> ESC_BRACKET \<Longrightarrow> (st = ESC_BRACKET \<Longrightarrow> n \<le> 7) \<Longrightarrow>
   esc_only s (esc_step a n st fbg s)"
  unfolding esc_step_def esc_only_def by blast

lemma esc_putc:
  assumes "kcon_ok s" "\<not> (esc_state s = ESC_NONE \<and> c \<noteq> 0x1B)"
  shows "esc_only s (kconsole_putc c s)"
proof -
  have k: "fb_ready s \<noteq> 0" "length (esc_params s) = 8" "esc_state s \<le> ESC_BRACKET"
    "esc_state s = ESC_BRACKET \<Longrightarrow> esc_nparam s \<le> 7"
    using assms(1) by (simp_all add: kcon_ok_def)
  have "unat (esc_state s) \<le> 2" using k(3) by (simp add: word_le_nat_alt)
  then have "unat (esc_state s) = 0 \<or> unat (esc_state s) = 1 \<or> unat (esc_state s) = 2" by linarith
  then consider "esc_state s = ESC_NONE" "c = 0x1B" | "esc_state s = ESC_ESC" |
    "esc_state s = ESC_BRACKET"
    using assms(2) by (auto simp: word_unat_eq_iff)
  then show ?thesis
  proof cases
    case 1
    have e: "kconsole_putc c s = esc_step (esc_params s) (esc_nparam s) ESC_ESC (colours s) s"
      using 1 k(1) by (simp add: kconsole_putc_def esc_step_def colours_def)
    show ?thesis unfolding e by (rule esc_stepI) (simp_all add: k)
  next
    case 2
    have e: "kconsole_putc c s = (if c = 0x5B
        then esc_step ((esc_params s)[0 := 0]) 0 ESC_BRACKET (colours s) s
        else esc_step (esc_params s) (esc_nparam s) ESC_NONE (colours s) s)"
      using 2 k(1) by (simp add: kconsole_putc_def esc_step_def colours_def)
    show ?thesis unfolding e using k(2) by (auto intro!: esc_stepI)
  next
    case 3
    note n7 = k(4) [OF 3]
    show ?thesis
    proof (cases "(0x30 <=s c \<and> c <=s 0x39) \<or> c = 0x3B")
      case True
      have l: "esc_nparam s < 7 \<Longrightarrow> esc_nparam s + 1 \<le> 7"
        using unat_Suc_less [of "esc_nparam s" 7] by (simp add: word_le_nat_alt word_less_nat_alt)
      let ?k = "unat (esc_nparam s)"
      show ?thesis
      proof (cases "0x30 <=s c \<and> c <=s 0x39")
        case True
        then have e: "kconsole_putc c s = esc_step ((esc_params s)[?k :=
            esc_params s ! ?k * 10 + scast (c - 0x30)]) (esc_nparam s) ESC_BRACKET (colours s) s"
          using 3 k(1) by (simp add: kconsole_putc_def esc_step_def colours_def)
        show ?thesis unfolding e by (rule esc_stepI) (simp_all add: k(2) n7)
      next
        case False
        define m where "m = (if esc_nparam s < 7 then esc_nparam s + 1 else esc_nparam s)"
        have e: "kconsole_putc c s =
            esc_step ((esc_params s)[unat m := 0]) m ESC_BRACKET (colours s) s"
        proof -
          have c: "c = 0x3B" using True False by blast
          have nd: "\<not> (0x30 <=s (0x3B :: u8) \<and> (0x3B :: u8) <=s 0x39)" unfolding sless_byte(2) by simp
          have "kconsole_putc c s =
              (if esc_nparam s < 7 then s\<lparr>esc_nparam := esc_nparam s + 1\<rparr> else s)
                \<lparr>esc_params := (esc_params s)[unat m := 0]\<rparr>"
            unfolding kconsole_putc_def c if_not_P [OF nd] using 3 k(1)
            by (cases "esc_nparam s < 7") (simp_all add: m_def)
          then show ?thesis
            by (cases "esc_nparam s < 7") (simp_all add: m_def esc_step_def colours_def 3)
        qed
        show ?thesis unfolding e by (rule esc_stepI) (use l n7 k(2) in \<open>simp_all add: m_def\<close>)
      qed
    next
      case False
      then have nd: "\<not> (0x30 <=s c \<and> c <=s 0x39)" and nc: "c \<noteq> 0x3B" by blast+
      let ?s1 = "s\<lparr>esc_nparam := esc_nparam s + 1\<rparr>"
      have "esc_nparam s < 8" using n7 by (simp add: word_le_nat_alt word_less_nat_alt)
      then have "unat (esc_nparam s + 1) \<noteq> 0" by (simp only: unat_Suc_less)
      then have "esc_nparam s + 1 \<noteq> 0" by (intro notI) simp
      then have "fb_apply_sgr ?s1 =
          fold (\<lambda>i s. sgr_param (esc_params s ! i) s) [0..<unat (esc_nparam s + 1)] ?s1"
        by (simp add: fb_apply_sgr_def)
      moreover obtain f b where "fold (\<lambda>i s. sgr_param (esc_params s ! i) s)
          [0..<unat (esc_nparam s + 1)] ?s1 = ?s1\<lparr>fg_color := f, bg_color := b\<rparr>"
        using fold_sgr_only by blast
      ultimately have "fb_apply_sgr ?s1 = ?s1\<lparr>fg_color := f, bg_color := b\<rparr>" by (rule trans)
      then have e: "kconsole_putc c s = (if c = 0x6D
          then esc_step (esc_params s) (esc_nparam s + 1) ESC_NONE (f, b) s
          else esc_step (esc_params s) (esc_nparam s + 1) ESC_NONE (colours s) s)"
        using 3 k(1) unfolding kconsole_putc_def if_not_P [OF nd] if_not_P [OF nc]
        by (cases "c = 0x6D") (simp_all add: kconsole_putc_def esc_step_def colours_def Let_def)
      show ?thesis unfolding e using k(2) by (cases "c = 0x6D") (auto intro!: esc_stepI)
    qed
  qed
qed

section \<open>Starting\<close>

lemma clear_paints:
  assumes "geom_ok s" "fb_ready s \<noteq> 0"
  shows "\<exists>t. kconsole_clear s = t\<lparr>cur_col := 0, cur_row := 0\<rparr> \<and> paints s t
    (\<lambda>Y X. if Y < unat (fb_height s) \<and> X < unat (fb_width s) then Some (bg_color s) else None)"
proof -
  let ?t = "for_u32 0 (fb_height s) (\<lambda>y t. for_u32 0 (fb_width t)
      (\<lambda>x u. put_pixel ((0 + y) * fb_pitch_u32 t + x) (bg_color u) u) t) s"
  have "paints s ?t (\<lambda>Y X. if 0 \<le> Y \<and> Y < 0 + unat (fb_height s) \<and> X < unat (fb_width s)
      then Some (bg_color s) else None)"
    by (rule fill_lines [OF assms(1) paints_refl]) (use assms(1) in \<open>simp_all add: geom_ok_def\<close>)
  then show ?thesis
    using assms(2) by (intro exI [of _ ?t]) (simp add: kconsole_clear_def Let_def)
qed

lemma init_ok:
  assumes "8 \<le> unat w" "unat w \<le> unat p div 4" "9 \<le> unat h" "unat h < 2 ^ 32"
    and "unat p div 4 < 2 ^ 32" "unat h * (unat p div 4) \<le> 2 ^ 32"
    and "length (esc_params s) = 8" "esc_state s = ESC_NONE"
  shows "kcon_ok (kconsole_init mem w h p s)"
    and "shows_text (kconsole_init mem w h p s)
      \<lparr>tcells = (\<lambda>_ _. (0x20, fg_color s, bg_color s)), trow = 0, tcol = 0\<rparr>"
    and "esc_state (kconsole_init mem w h p s) = ESC_NONE"
    and "colours (kconsole_init mem w h p s) = colours s"
    and "unat (fb_cols (kconsole_init mem w h p s)) = unat w div 8"
    and "unat (fb_rows (kconsole_init mem w h p s)) = unat h div 9"
proof -
  let ?s = "s\<lparr>fb := mem, fb_width := ucast w, fb_height := ucast h, fb_pitch_u32 := ucast (p div 4),
      fb_cols := ucast w div FONT_W, fb_rows := ucast h div FONT_H, cur_col := 0, cur_row := 0,
      fb_ready := 1\<rparr>"
  have u: "unat (ucast x :: u32) = unat x" if "unat x < 2 ^ 32" for x :: u64
    using that by (simp add: unsigned_ucast_eq take_bit_nat_eq_self)
  have w: "unat (ucast w :: u32) = unat w" using assms(2,5) by (intro u) simp
  have p: "unat (ucast (p div 4) :: u32) = unat p div 4"
    using u [of "p div 4"] assms(5) by (simp add: unat_div)
  have h: "unat (ucast h :: u32) = unat h" using assms(4) by (rule u)
  have cr: "unat (ucast w div 8 :: u32) = unat w div 8" "unat (ucast h div 9 :: u32) = unat h div 9"
    by (simp_all add: unat_div w h)
  have pos: "0 < (ucast w div 8 :: u32)" "0 < (ucast h div 9 :: u32)"
    using cr assms(1,3) by (simp_all only: word_less_nat_alt) (simp_all add: div_greater_zero_iff)
  have g: "geom_ok ?s" unfolding geom_ok_def using pos w h p assms by simp
  obtain t where t: "kconsole_clear ?s = t\<lparr>cur_col := 0, cur_row := 0\<rparr>"
    "paints ?s t (\<lambda>Y X. if Y < unat (fb_height ?s) \<and> X < unat (fb_width ?s) then Some (bg_color ?s)
      else None)"
    using clear_paints [OF g] by auto
  have i: "kconsole_init mem w h p s = t\<lparr>cur_col := 0, cur_row := 0\<rparr>"
    unfolding kconsole_init_def Let_def using t(1) by simp
  note f = paints_fields [OF t(2)]
  show "kcon_ok (kconsole_init mem w h p s)" "esc_state (kconsole_init mem w h p s) = ESC_NONE"
    "colours (kconsole_init mem w h p s) = colours s"
    "unat (fb_cols (kconsole_init mem w h p s)) = unat w div 8"
    "unat (fb_rows (kconsole_init mem w h p s)) = unat h div 9"
    unfolding i using f g pos cr assms(7,8) by (simp_all add: kcon_ok_def colours_def)
  have W: "unat (fb_cols ?s) * 8 \<le> unat (fb_width ?s)" using cr w by simp
  have "shows_cells t (\<lambda>_ _. (0x20, fg_color s, bg_color s))"
    unfolding shows_cells_def blank_cell
  proof (intro allI impI)
    fix r c y x :: nat assume "r < unat (fb_rows t)" "c < unat (fb_cols t)" "y < 9" "x < 8"
    then have rc: "r < unat (fb_rows ?s)" "c < unat (fb_cols ?s)" "y < 9" "x < 8"
      unfolding f(4,5) .
    have "c * 8 + x < unat (fb_width ?s)" using cell_in_frame(4) [OF g rc] W by linarith
    then show "pix t (r * 9 + y) (c * 8 + x) = bg_color s"
      using paintsD(2) [OF t(2) cell_in_frame(1,2) [OF g rc]] cell_in_frame(1) [OF g rc] by simp
  qed
  then show "shows_text (kconsole_init mem w h p s)
      \<lparr>tcells = (\<lambda>_ _. (0x20, fg_color s, bg_color s)), trow = 0, tcol = 0\<rparr>"
    unfolding i by (simp add: shows_text_def)
qed

text \<open>A console of two lines and two columns.\<close>

definition small_con :: kconsole where
  "small_con = kconsole_init (\<lambda>_. 0) 16 18 64 kconsole_reset"

lemma small_con_ok:
  "kcon_ok small_con" "esc_state small_con = ESC_NONE"
  "shows_text small_con \<lparr>tcells = (\<lambda>_ _. (0x20, 0xE0E0E0, 0x1A1A2E)), trow = 0, tcol = 0\<rparr>"
  "colours small_con = (0xE0E0E0, 0x1A1A2E)"
  "unat (fb_cols small_con) = 2" "unat (fb_rows small_con) = 2"
proof -
  have a: "8 \<le> unat (16 :: u64)" "unat (16 :: u64) \<le> unat (64 :: u64) div 4" "9 \<le> unat (18 :: u64)"
    "unat (18 :: u64) < 2 ^ 32" "unat (64 :: u64) div 4 < 2 ^ 32"
    "unat (18 :: u64) * (unat (64 :: u64) div 4) \<le> 2 ^ 32"
    "length (esc_params kconsole_reset) = 8" "esc_state kconsole_reset = ESC_NONE"
    by (simp_all add: kconsole_reset_def)
  note i = init_ok [OF a, of "\<lambda>_. 0", folded small_con_def]
  show "kcon_ok small_con" "esc_state small_con = ESC_NONE"
    "shows_text small_con \<lparr>tcells = (\<lambda>_ _. (0x20, 0xE0E0E0, 0x1A1A2E)), trow = 0, tcol = 0\<rparr>"
    "colours small_con = (0xE0E0E0, 0x1A1A2E)"
    "unat (fb_cols small_con) = 2" "unat (fb_rows small_con) = 2"
    using i by (simp_all add: kconsole_reset_def colours_def)
qed

lemma sgr_feed:
  assumes "kcon_ok s" and "esc_state s = ESC_NONE" and "ps \<noteq> []" and "length ps \<le> 8"
    and "list_all (\<lambda>p. p < 2 ^ 32) ps"
  shows "\<exists>a n. length a = 8 \<and> fold kconsole_putc ([0x1B, 0x5B] @ sgr_text ps @ [0x6D]) s =
    set_colours (fold (sgr_colour (fg_default s) (bg_default s)) ps (colours s))
      (s\<lparr>esc_params := a, esc_nparam := n\<rparr>)"
proof -
  have k: "fb_ready s \<noteq> 0" "length (esc_params s) = 8" using assms(1) by (simp_all add: kcon_ok_def)
  let ?s1 = "s\<lparr>esc_state := ESC_BRACKET, esc_nparam := 0, esc_params := (esc_params s)[0 := 0]\<rparr>"
  have 1: "fold kconsole_putc [0x1B, 0x5B] s = ?s1"
    using k assms(2) by (simp add: kconsole_putc_def)
  obtain a n where a: "fold kconsole_putc (sgr_text ps) ?s1 = ?s1\<lparr>esc_params := a, esc_nparam := n\<rparr>"
    "length a = 8" "Suc (unat n) = length ps" "\<forall>i < length ps. a ! i = word_of_nat (ps ! i)"
    using params_feed [of ?s1 ps] k assms(3,4) by auto
  let ?s2 = "?s1\<lparr>esc_params := a, esc_nparam := n + 1\<rparr>"
  have "n < 8" using a(3) assms(4) by (simp add: word_less_nat_alt)
  then have n1: "unat (n + 1) = length ps" using unat_Suc_less a(3) by metis
  have "fb_apply_sgr ?s2 =
      set_colours (fold (sgr_colour (fg_default s) (bg_default s)) ps (colours s)) ?s2"
    using apply_sgr_eq [of ?s2 ps] n1 a(4) assms(3,5) by (simp add: colours_def)
  then have "kconsole_putc 0x6D (?s1\<lparr>esc_params := a, esc_nparam := n\<rparr>) =
      (set_colours (fold (sgr_colour (fg_default s) (bg_default s)) ps (colours s)) ?s2)
        \<lparr>esc_state := ESC_NONE\<rparr>"
    using k(1) sless_byte(2) [of "0x6D"] by (simp add: kconsole_putc_def Let_def)
  then have "fold kconsole_putc ([0x1B, 0x5B] @ sgr_text ps @ [0x6D]) s =
      set_colours (fold (sgr_colour (fg_default s) (bg_default s)) ps (colours s))
        (s\<lparr>esc_params := a, esc_nparam := n + 1\<rparr>)"
    using 1 a(1) assms(2) by (simp add: set_colours_def)
  then show ?thesis using a(2) by blast
qed

section \<open>Properties\<close>

text \<open>
  C5: the console is a text terminal. Whenever its pixels render a grid of coloured characters
  and no escape sequence is pending, every other byte takes it to a state whose pixels render
  the grid after the corresponding terminal operation: printing with wrap-around, carriage
  return, line feed with scrolling, backspace, and nothing for unprintable bytes.
\<close>

theorem kconsole_putc_terminal:
  assumes "kcon_ok s" and "shows_text s t" and "esc_state s = ESC_NONE" and "c \<noteq> 0x1B"
  shows "shows_text (kconsole_putc c s)
      (tty_char (unat (fb_rows s)) (unat (fb_cols s)) (fg_color s) (bg_color s) c t) \<and>
    kcon_ok (kconsole_putc c s) \<and> colours (kconsole_putc c s) = colours s \<and>
    esc_state (kconsole_putc c s) = ESC_NONE"
proof -
  note p = text_putc_ok [OF assms]
  then show ?thesis
    using kcon_ok_draws [OF assms(1)] draws_only_fields [of s "kconsole_putc c s"] assms(3)
    by (simp add: colours_def)
qed


theorem kconsole_putc_terminal_witness:
  "\<exists>s t. kcon_ok s \<and> esc_state s = ESC_NONE \<and> shows_text s t \<and>
     tcells t 0 0 = (0x41, 0xE0E0E0, 0x1A1A2E) \<and> tcol t = 1"
proof -
  have "(0x41 :: u8) \<noteq> 0x1B" by simp
  from kconsole_putc_terminal [OF small_con_ok(1,3,2) this] small_con_ok(4) show ?thesis
    by (intro exI [of _ "kconsole_putc 0x41 small_con"]
        exI [of _ "tty_char 2 2 0xE0E0E0 0x1A1A2E 0x41
          \<lparr>tcells = (\<lambda>_ _. (0x20, 0xE0E0E0, 0x1A1A2E)), trow = 0, tcol = 0\<rparr>"])
      (simp add: tty_char_def tty_put_def small_con_ok(5,6) colours_def)
qed

text \<open>
  C31: memory safety of the console. From a state whose pixels render a text, every byte leads to
  one again, whatever escape sequence is pending: the cursor stays on the grid, the parameter
  index inside its array of eight, and no pixel behind the last line of the framebuffer is
  written.
\<close>

theorem kconsole_putc_safe:
  assumes "kcon_ok s" and "shows_text s t"
  shows "kcon_ok (kconsole_putc c s) \<and> (\<exists>t'. shows_text (kconsole_putc c s) t') \<and>
    (\<forall>i. unat (fb_height s) * unat (fb_pitch_u32 s) \<le> unat i \<longrightarrow> fb (kconsole_putc c s) i = fb s i)"
proof (cases "esc_state s = ESC_NONE \<and> c \<noteq> 0x1B")
  case True
  then have n: "esc_state s = ESC_NONE" "c \<noteq> 0x1B" by simp_all
  note p = text_putc_ok [OF assms n]
  then show ?thesis using kcon_ok_draws [OF assms(1)] unfolding draws_only_def by blast
next
  case False
  then obtain a n st f b where "kconsole_putc c s =
      s\<lparr>esc_params := a, esc_nparam := n, esc_state := st, fg_color := f, bg_color := b\<rparr>"
    "length a = 8" "st \<le> ESC_BRACKET" "st = ESC_BRACKET \<longrightarrow> n \<le> 7"
    using esc_putc [OF assms(1)] unfolding esc_only_def by blast
  then show ?thesis
    using assms by (auto simp: kcon_ok_def geom_ok_def shows_text_def shows_cells_def pix_def)
qed

theorem kconsole_putc_safe_witness:
  "\<exists>s. kcon_ok (kconsole_putc 0x1B s) \<and> esc_state (kconsole_putc 0x1B s) = ESC_ESC"
  using kconsole_putc_safe [OF small_con_ok(1,3), of "0x1B"] small_con_ok(1,2)
  by (intro exI [of _ small_con]) (simp add: kconsole_putc_def kcon_ok_def)

text \<open>
  The colour sequence \<^verbatim>\<open>ESC [ p1 ; ... ; pn m\<close> with up to eight decimal parameters parses to
  exactly those numbers: it changes nothing but the two colours, by the codes in order, and the
  parser's own state.
\<close>

lemma ansi_sgr_spec:
  assumes "kcon_ok s" and "esc_state s = ESC_NONE" and "ps \<noteq> []" and "length ps \<le> 8"
    and "list_all (\<lambda>p. p < 2 ^ 32) ps"
  shows "\<exists>a n. fold kconsole_putc ([0x1B, 0x5B] @ sgr_text ps @ [0x6D]) s =
    set_colours (fold (sgr_colour (fg_default s) (bg_default s)) ps (colours s))
      (s\<lparr>esc_params := a, esc_nparam := n\<rparr>)"
  using sgr_feed [OF assms] by blast

text \<open>
  \<^verbatim>\<open>kconsole_init\<close> on a framebuffer with room for a cell and at most \<open>2\<^sup>32\<close> pixels gives
  a ready console whose pixels render the blank screen with the cursor in the corner.
\<close>

lemma kconsole_init_blank:
  assumes "8 \<le> unat w" and "unat w \<le> unat p div 4" and "9 \<le> unat h" and "unat h < 2 ^ 32"
    and "unat p div 4 < 2 ^ 32" and "unat h * (unat p div 4) \<le> 2 ^ 32"
  shows "kcon_ok (kconsole_init mem w h p kconsole_reset) \<and>
    shows_text (kconsole_init mem w h p kconsole_reset)
      \<lparr>tcells = (\<lambda>_ _. (0x20, 0xE0E0E0, 0x1A1A2E)), trow = 0, tcol = 0\<rparr>"
proof -
  have "length (esc_params kconsole_reset) = 8" "esc_state kconsole_reset = ESC_NONE"
    by (simp_all add: kconsole_reset_def)
  from init_ok(1,2) [OF assms this] show ?thesis by (simp add: kconsole_reset_def)
qed

end
