(* ===== verification/Print.thy ===== *)
theory Print
  imports Kconsole KString Digits "HOL-Library.Monad_Syntax"
begin

text \<open>
  Formatted output, \<^verbatim>\<open>kernel/print.c\<close>. The state is what \<^verbatim>\<open>putc\<close> reaches: the bytes the
  serial transmitter has accepted and the framebuffer console. Variadic arguments are a list;
  taking one that is missing or of the wrong kind is undefined in C and \<open>None\<close> here, and so
  is reading the format string behind its terminator.
\<close>

section \<open>Characters and numbers\<close>

record outs =
  tserial :: "u8 list"
  tcon :: kconsole

definition putc :: "u8 \<Rightarrow> outs \<Rightarrow> outs" where
  "putc c t =
     (let t1 = t\<lparr>tserial := tserial t @ [c]\<rparr>
      in t1\<lparr>tcon := kconsole_putc c (tcon t1)\<rparr>)"

fun puts :: "cstr \<Rightarrow> outs \<Rightarrow> outs" where
  "puts [] t = t"
| "puts (c # s) t = puts s (putc c t)"

text \<open>The digit loops write a buffer from index \<open>i\<close> on; the result is the buffer and the
  final index.\<close>

function dec_loop :: "u8 list \<Rightarrow> nat \<Rightarrow> u64 \<Rightarrow> u8 list \<times> nat" where
  "dec_loop buf i n =
     (if 0 < n then dec_loop (buf[i := 0x30 + ucast (n mod 10)]) (i + 1) (n div 10) else (buf, i))"
  by pat_completeness auto
termination
  by (relation "measure (\<lambda>(buf, i, n). unat n)") (auto simp: unat_div word_less_nat_alt)

function hex_loop :: "u8 list \<Rightarrow> nat \<Rightarrow> u64 \<Rightarrow> u8 list \<times> nat" where
  "hex_loop buf i n =
     (if 0 < n then
        let nib = ucast (n AND 0xF) :: u8
        in hex_loop (buf[i := if nib < 10 then 0x30 + nib else 0x61 + nib - 10]) (i + 1) (drop_bit 4 n)
      else (buf, i))"
  by pat_completeness auto
termination
  by (relation "measure (\<lambda>(buf, i, n). unat n)")
    (auto simp: drop_bit_eq_div unat_div word_less_nat_alt)

declare dec_loop.simps [simp del] hex_loop.simps [simp del]

text \<open>\<^verbatim>\<open>while (--i >= 0) putc(buf[i]);\<close>\<close>

fun put_down :: "u8 list \<Rightarrow> nat \<Rightarrow> outs \<Rightarrow> outs" where
  "put_down buf 0 t = t"
| "put_down buf (Suc i) t = put_down buf i (putc (buf ! i) t)"

text \<open>\<^verbatim>\<open>for (int i = 0; i < len; i++) putc(buf[i]);\<close> from index \<open>i\<close> on.\<close>

function put_up :: "u8 list \<Rightarrow> nat \<Rightarrow> nat \<Rightarrow> outs \<Rightarrow> outs" where
  "put_up buf i n t = (if i < n then put_up buf (i + 1) n (putc (buf ! i) t) else t)"
  by pat_completeness auto
termination by (relation "measure (\<lambda>(buf, i, n, t). n - i)") auto

declare put_up.simps [simp del]

definition putdec :: "u64 \<Rightarrow> outs \<Rightarrow> outs" where
  "putdec n t =
     (if n = 0 then putc 0x30 t
      else let (buf, i) = dec_loop (replicate 20 0) 0 n in put_down buf i t)"

fun puthex_n :: "u64 \<Rightarrow> nat \<Rightarrow> outs \<Rightarrow> outs" where
  "puthex_n n 0 t = t"
| "puthex_n n (Suc i) t =
     (let nibble = ucast (drop_bit (i * 4) n AND 0xF) :: u8
      in puthex_n n i (putc (if nibble < 10 then 0x30 + nibble else 0x61 + nibble - 10) t))"

definition puthex8 :: "u8 \<Rightarrow> outs \<Rightarrow> outs" where "puthex8 n = puthex_n (ucast n) 2"
definition puthex16 :: "u16 \<Rightarrow> outs \<Rightarrow> outs" where "puthex16 n = puthex_n (ucast n) 4"
definition puthex32 :: "u32 \<Rightarrow> outs \<Rightarrow> outs" where "puthex32 n = puthex_n (ucast n) 8"
definition puthex64 :: "u64 \<Rightarrow> outs \<Rightarrow> outs" where "puthex64 n = puthex_n n 16"

fun hex_width :: "u64 \<Rightarrow> nat \<Rightarrow> nat" where
  "hex_width n 0 = 0"
| "hex_width n (Suc d) =
     (if 0 < d \<and> drop_bit (d * 4) n AND 0xF = 0 then hex_width n d else Suc d)"

definition puthex :: "u64 \<Rightarrow> outs \<Rightarrow> outs" where
  "puthex n t = (if n = 0 then putc 0x30 t else puthex_n n (hex_width n 16) t)"

lemma sint_i32: "- 2147483648 \<le> k \<Longrightarrow> k < 2147483648 \<Longrightarrow> sint (word_of_int k :: i32) = k"
  by (simp add: sint_sbintrunc' signed_take_bit_int_eq_self)

lemma sint_pred: "0 <s (c :: i32) \<Longrightarrow> sint (c - 1) = sint c - 1"
  using sint_i32 [of "sint c - 1"] sint_lt [of c] by (simp add: word_sless_alt)

function pad :: "i32 \<Rightarrow> u8 \<Rightarrow> outs \<Rightarrow> outs" where
  "pad count c t = (if 0 <s count then pad (count - 1) c (putc c t) else t)"
  by pat_completeness auto
termination
proof (relation "measure (\<lambda>(count, c, t). nat (sint count))", simp)
  fix count :: i32 and c :: u8 and t :: outs
  assume "0 <s count"
  then show "((count - 1, c, putc c t), count, c, t) \<in> measure (\<lambda>(count, c, t). nat (sint count))"
    using sint_pred [of count] by (simp add: word_sless_alt)
qed

declare pad.simps [simp del]

text \<open>\<^verbatim>\<open>buf[j]\<close> and \<^verbatim>\<open>buf[i-1-j]\<close> change places while \<open>j < i / 2\<close>.\<close>

function rev_loop :: "u8 list \<Rightarrow> nat \<Rightarrow> nat \<Rightarrow> u8 list" where
  "rev_loop buf i j =
     (if j < i div 2 then
        let t = buf ! j in rev_loop (buf[j := buf ! (i - 1 - j), i - 1 - j := t]) i (j + 1)
      else buf)"
  by pat_completeness auto
termination by (relation "measure (\<lambda>(buf, i, j). i div 2 - j)") auto

declare rev_loop.simps [simp del]

definition fmt_dec :: "u8 list \<Rightarrow> u64 \<Rightarrow> u8 list \<times> nat" where
  "fmt_dec buf n =
     (if n = 0 then (buf[0 := 0x30], 1)
      else let (b, i) = dec_loop buf 0 n in (rev_loop b i 0, i))"

definition fmt_hex :: "u8 list \<Rightarrow> u64 \<Rightarrow> u8 list \<times> nat" where
  "fmt_hex buf n =
     (if n = 0 then (buf[0 := 0x30], 1)
      else let (b, i) = hex_loop buf 0 n in (rev_loop b i 0, i))"

section \<open>Formatted output\<close>

datatype varg = Num u64 | Str "cstr option"

text \<open>The parse loops return the rest of the format string.\<close>

fun flag_loop :: "cstr \<Rightarrow> bool \<Rightarrow> bool \<Rightarrow> bool \<Rightarrow> cstr \<times> bool \<times> bool \<times> bool" where
  "flag_loop [] l z m = ([], l, z, m)"
| "flag_loop (c # s) l z m =
     (if c = 0x2D \<or> c = 0x30 \<or> c = 0x5E
      then flag_loop s (l \<or> c = 0x2D) (z \<or> c = 0x30) (m \<or> c = 0x5E)
      else (c # s, l, z, m))"

fun width_loop :: "cstr \<Rightarrow> i32 \<Rightarrow> cstr \<times> i32" where
  "width_loop [] w = ([], w)"
| "width_loop (c # s) w =
     (if 0x30 <=s c \<and> c <=s 0x39 then width_loop s (w * 10 + scast (c - 0x30)) else (c # s, w))"

fun str_len :: "cstr \<Rightarrow> i32" where
  "str_len [] = 0"
| "str_len (c # s) = str_len s + 1"

abbreviation (input) null_text :: cstr where
  "null_text \<equiv> [0x28, 0x6E, 0x75, 0x6C, 0x6C, 0x29]"

definition conv_d :: "bool \<Rightarrow> bool \<Rightarrow> i32 \<Rightarrow> i64 \<Rightarrow> outs \<Rightarrow> outs" where
  "conv_d left_align zero_pad width n t =
     (let neg = n <s 0;
          m = (if neg then - n else n);
          (buf, len) = fmt_dec (replicate 24 0) m;
          total = word_of_nat len + (if neg then 1 else 0);
          t1 = (if \<not> left_align \<and> \<not> zero_pad then pad (width - total) 0x20 t else t);
          t2 = (if neg then putc 0x2D t1 else t1);
          t3 = (if \<not> left_align \<and> zero_pad then pad (width - total) 0x30 t2 else t2);
          t4 = put_up buf 0 len t3
      in if left_align then pad (width - total) 0x20 t4 else t4)"

text \<open>\<^verbatim>\<open>%u\<close> and \<^verbatim>\<open>%x\<close> differ in the formatter only.\<close>

definition conv_u :: "(u8 list \<Rightarrow> u64 \<Rightarrow> u8 list \<times> nat) \<Rightarrow> bool \<Rightarrow> u8 \<Rightarrow> i32 \<Rightarrow> u64 \<Rightarrow> outs \<Rightarrow> outs" where
  "conv_u fmt left_align padchar width n t =
     (let (buf, len) = fmt (replicate 24 0) n;
          t1 = (if \<not> left_align then pad (width - word_of_nat len) padchar t else t);
          t2 = put_up buf 0 len t1
      in if left_align then pad (width - word_of_nat len) 0x20 t2 else t2)"

definition conv_X :: "bool \<Rightarrow> u8 \<Rightarrow> i32 \<Rightarrow> u64 \<Rightarrow> outs \<Rightarrow> outs" where
  "conv_X left_align padchar width n t =
     (let (buf, len) = fmt_hex (replicate 24 0) n;
          total = word_of_nat len + 2;
          t1 = (if \<not> left_align then pad (width - total) padchar t else t);
          t2 = put_up buf 0 len (puts [0x30, 0x78] t1)
      in if left_align then pad (width - total) 0x20 t2 else t2)"

definition conv_s :: "bool \<Rightarrow> bool \<Rightarrow> i32 \<Rightarrow> cstr option \<Rightarrow> outs \<Rightarrow> outs" where
  "conv_s left_align center width sp t =
     (let s = (case sp of None \<Rightarrow> null_text | Some s \<Rightarrow> s);
          padding0 = width - str_len s;
          padding = (if padding0 <s 0 then 0 else padding0)
      in if center then
           let left_pad = padding div 2
           in pad (padding - left_pad) 0x20 (puts s (pad left_pad 0x20 t))
         else
           let t1 = puts s (if \<not> left_align then pad padding 0x20 t else t)
           in if left_align then pad padding 0x20 t1 else t1)"

definition conv_c :: "bool \<Rightarrow> i32 \<Rightarrow> u64 \<Rightarrow> outs \<Rightarrow> outs" where
  "conv_c left_align width n t =
     (let t1 = putc (ucast n) (if \<not> left_align then pad (width - 1) 0x20 t else t)
      in if left_align then pad (width - 1) 0x20 t1 else t1)"

text \<open>The switch on the conversion character.\<close>

definition vconv :: "u8 \<Rightarrow> bool \<Rightarrow> bool \<Rightarrow> bool \<Rightarrow> i32 \<Rightarrow> varg list \<Rightarrow> outs \<Rightarrow>
    (varg list \<times> outs) option" where
  "vconv c left_align zero_pad center width args t =
     (let padchar = (if zero_pad then 0x30 else 0x20) in
      if c = 0x64 \<or> c = 0x69 then
        (case args of Num n # as \<Rightarrow> Some (as, conv_d left_align zero_pad width n t) | _ \<Rightarrow> None)
      else if c = 0x75 then
        (case args of Num n # as \<Rightarrow> Some (as, conv_u fmt_dec left_align padchar width n t) | _ \<Rightarrow> None)
      else if c = 0x78 then
        (case args of Num n # as \<Rightarrow> Some (as, conv_u fmt_hex left_align padchar width n t) | _ \<Rightarrow> None)
      else if c = 0x58 then
        (case args of Num n # as \<Rightarrow> Some (as, conv_X left_align padchar width n t) | _ \<Rightarrow> None)
      else if c = 0x70 then
        (case args of Num n # as \<Rightarrow> Some (as, puthex64 n (puts [0x30, 0x78] t)) | _ \<Rightarrow> None)
      else if c = 0x73 then
        (case args of Str s # as \<Rightarrow> Some (as, conv_s left_align center width s t) | _ \<Rightarrow> None)
      else if c = 0x63 then
        (case args of Num n # as \<Rightarrow> Some (as, conv_c left_align width n t) | _ \<Rightarrow> None)
      else if c = 0x25 then Some (args, putc 0x25 t)
      else Some (args, putc c (putc 0x25 t)))"

lemma flag_loop_shorter: "length (fst (flag_loop s l z m)) \<le> length s"
proof (induction s arbitrary: l z m)
  case (Cons c s)
  then show ?case by (simp add: le_SucI)
qed simp

lemma width_loop_shorter: "length (fst (width_loop s w)) \<le> length s"
proof (induction s arbitrary: w)
  case (Cons c s)
  then show ?case by (simp add: le_SucI)
qed simp

lemma flag_shorter: "(s', r) = flag_loop s l z m \<Longrightarrow> length s' \<le> length s"
  using flag_loop_shorter [of s l z m] by (metis fst_conv)

lemma width_shorter: "(s', r) = width_loop s w \<Longrightarrow> length s' \<le> length s"
  using width_loop_shorter [of s w] by (metis fst_conv)

text \<open>A directive cut off by the end of the string makes \<^verbatim>\<open>fmt++\<close> step over the terminator.\<close>

function do_vprintf :: "cstr \<Rightarrow> varg list \<Rightarrow> outs \<Rightarrow> outs option" where
  "do_vprintf [] args t = Some t"
| "do_vprintf (c # s) args t =
     (if c \<noteq> 0x25 then do_vprintf s args (putc c t)
      else case flag_loop s False False False of (s1, left_align, zero, center) \<Rightarrow>
        let zero_pad = (zero \<and> \<not> (left_align \<or> center)) in
        case width_loop s1 0 of (s2, width) \<Rightarrow>
          case s2 of [] \<Rightarrow> None
          | k # s3 \<Rightarrow>
            case vconv k left_align zero_pad center width args t of None \<Rightarrow> None
            | Some (args1, t1) \<Rightarrow> do_vprintf s3 args1 t1)"
  by pat_completeness auto
termination
proof (relation "measure (\<lambda>(s, args, t). length s)", goal_cases)
  case 3
  then show ?case by (auto dest!: flag_shorter width_shorter)
qed simp_all

declare do_vprintf.simps [simp del]

definition printf :: "cstr \<Rightarrow> varg list \<Rightarrow> outs \<Rightarrow> outs option" where
  "printf fmt args t = do_vprintf fmt args t"

section \<open>The kernel log\<close>

text \<open>\<^verbatim>\<open>"\r\n  [ %s ] "\<close> and its coloured variants.\<close>

definition klog_fmt :: "cstr \<Rightarrow> cstr \<Rightarrow> cstr" where
  "klog_fmt before after =
     [0x0D, 0x0A, 0x20, 0x20, 0x5B, 0x20] @ before @ [0x25, 0x73] @ after @ [0x20, 0x5D, 0x20]"

abbreviation (input) green :: cstr where "green \<equiv> [0x1B, 0x5B, 0x33, 0x32, 0x6D]"
abbreviation (input) red :: cstr where "red \<equiv> [0x1B, 0x5B, 0x33, 0x31, 0x6D]"
abbreviation (input) plain :: cstr where "plain \<equiv> [0x1B, 0x5B, 0x30, 0x6D]"

definition klog :: "cstr \<Rightarrow> cstr \<Rightarrow> varg list \<Rightarrow> outs \<Rightarrow> outs option" where
  "klog tag fmt args t = do {
     t1 \<leftarrow> printf (klog_fmt [] []) [Str (Some tag)] t;
     do_vprintf fmt args t1 }"

definition klog_ok :: "cstr \<Rightarrow> cstr \<Rightarrow> varg list \<Rightarrow> outs \<Rightarrow> outs option" where
  "klog_ok tag fmt args t = do {
     t1 \<leftarrow> printf (klog_fmt green plain) [Str (Some tag)] t;
     do_vprintf fmt args t1 }"

definition klog_fail :: "cstr \<Rightarrow> cstr \<Rightarrow> varg list \<Rightarrow> outs \<Rightarrow> outs option" where
  "klog_fail tag fmt args t = do {
     t1 \<leftarrow> printf (klog_fmt red plain) [Str (Some tag)] t;
     do_vprintf fmt args t1 }"

end
