(* ===== verification/Print_Spec.thy ===== *)
theory Print_Spec
  imports Print Kconsole_Spec
begin

text \<open>
  The printers against positional numerals, and the formatter against a rendering of parsed
  format strings: \<open>fmt_text\<close> writes a list of directives down, \<open>render\<close> says what it prints.
\<close>

section \<open>Numbers\<close>

lemma digits_step: "2 \<le> b \<Longrightarrow> b \<le> n \<Longrightarrow> digits b n = digits b (n div b) @ [n mod b]"
  by (subst digits.simps) simp

lemma digits_one: "n < b \<Longrightarrow> digits b n = [n]"
  by (subst digits.simps) simp

lemma numeral_step: "2 \<le> b \<Longrightarrow> b \<le> n \<Longrightarrow>
    numeral_text b n = numeral_text b (n div b) @ [digit_char (n mod b)]"
  by (simp add: numeral_text_def digits_step)

lemma numeral_one: "n < b \<Longrightarrow> numeral_text b n = [digit_char n]"
  by (simp add: numeral_text_def digits_one)

lemma length_numeral: "2 \<le> b \<Longrightarrow> n < b ^ k \<Longrightarrow> 0 < k \<Longrightarrow> length (numeral_text b n) \<le> k"
  by (simp add: numeral_text_def length_digits)

lemma ucast_small:
  fixes n :: u64
  assumes "unat n < 256"
  shows "(ucast n :: u8) = word_of_nat (unat n)"
  by (simp add: word_unat_eq_iff unsigned_ucast_eq unsigned_of_nat)

lemma numeral_lower: "2 \<le> b \<Longrightarrow> n < b ^ length (numeral_text b n)"
proof (induction b n rule: digits.induct)
  case (1 b n)
  show ?case
  proof (cases "n < b")
    case True
    then show ?thesis by (simp add: numeral_one)
  next
    case False
    then have "n div b < b ^ length (numeral_text b (n div b))" using 1 by simp
    then have "n < b ^ length (numeral_text b (n div b)) * b"
      using 1(2) by (simp add: div_less_iff_less_mult)
    then show ?thesis using False 1(2) by (simp add: numeral_step mult.commute)
  qed
qed

lemma dec_char: "0x30 + ucast (n mod 10 :: u64) = digit_char (unat n mod 10)"
proof -
  have u: "unat (n mod 10) = unat n mod 10" by (simp add: unat_mod)
  have "(ucast (n mod 10) :: u8) = word_of_nat (unat n mod 10)"
    using ucast_small [of "n mod 10"] by (simp add: u)
  then show ?thesis by (simp add: digit_char_def)
qed

definition hex_char :: "u8 \<Rightarrow> u8" where
  "hex_char nib = (if nib < 10 then 0x30 + nib else 0x61 + nib - 10)"

lemma and_15: "unat (n AND 0xF :: u64) = unat n mod 16"
proof -
  have "(0xF :: u64) = mask 4" by (simp add: mask_eq_exp_minus_1)
  then have "n AND 0xF = take_bit 4 n" by (simp add: take_bit_eq_mask)
  then show ?thesis by (simp add: take_bit_eq_mod unat_mod)
qed

lemma hex_char_eq: "hex_char (ucast (n AND 0xF :: u64)) = digit_char (unat n mod 16)"
proof -
  have u: "(ucast (n AND 0xF) :: u8) = word_of_nat (unat n mod 16)"
    using ucast_small [of "n AND 0xF"] by (simp add: and_15)
  have "(word_of_nat (unat n mod 16) :: u8) < 10 \<longleftrightarrow> unat n mod 16 < 10"
    by (simp add: word_less_nat_alt unat_of_nat_id)
  then show ?thesis by (simp add: hex_char_def digit_char_def u)
qed

text \<open>Both digit loops store the numeral backwards behind the first \<open>i\<close> bytes.\<close>

definition stored :: "u8 list \<times> nat \<Rightarrow> u8 list \<Rightarrow> nat \<Rightarrow> u8 list \<Rightarrow> bool" where
  "stored r buf i ds \<longleftrightarrow> length (fst r) = length buf \<and> snd r = i + length ds \<and>
     take (snd r) (fst r) = take i buf @ rev ds"

lemma stored_step:
  assumes "stored r (buf[i := c]) (i + 1) ds" "i < length buf"
  shows "stored r buf i (ds @ [c])"
proof -
  have "take (i + 1) (buf[i := c]) = take i buf @ [c]"
    using assms(2) by (simp add: take_Suc_conv_app_nth)
  then show ?thesis using assms by (auto simp: stored_def)
qed

lemma stored_one: "i < length buf \<Longrightarrow> stored (buf[i := c], i + 1) buf i [c]"
  using stored_step [of "(buf[i := c], i + 1)" buf i c "[]"] by (simp add: stored_def)

lemma numeral_ne: "0 < length (numeral_text b n)"
  by (simp add: numeral_text_def)

lemma dec_loop_ok:
  "0 < n \<Longrightarrow> i + length (numeral_text 10 (unat n)) \<le> length buf \<Longrightarrow>
   stored (dec_loop buf i n) buf i (numeral_text 10 (unat n))"
proof (induction buf i n rule: dec_loop.induct)
  case (1 buf i n)
  have i: "i < length buf" using 1(3) numeral_ne [of 10 "unat n"] by linarith
  let ?c = "digit_char (unat n mod 10)"
  have step: "dec_loop buf i n = dec_loop (buf[i := ?c]) (i + 1) (n div 10)"
    using 1(2) by (subst dec_loop.simps) (simp only: dec_char if_True)
  have d: "unat (n div 10) = unat n div 10" by (simp add: unat_div)
  show ?case
  proof (cases "unat n < 10")
    case True
    then have z: "n div 10 = 0" using d by (simp add: word_unat_eq_iff)
    have "dec_loop (buf[i := ?c]) (i + 1) 0 = (buf[i := ?c], i + 1)" by (subst dec_loop.simps) simp
    then show ?thesis
      unfolding step z using True stored_one [OF i, of ?c] by (simp add: numeral_one)
  next
    case False
    then have nz: "0 < n div 10" using d by (simp add: word_less_nat_alt div_greater_zero_iff)
    have nt: "numeral_text 10 (unat n) = numeral_text 10 (unat (n div 10)) @ [?c]"
      using False by (simp add: numeral_step d)
    have "stored (dec_loop (buf[i := ?c]) (i + 1) (n div 10)) (buf[i := ?c]) (i + 1)
        (numeral_text 10 (unat (n div 10)))"
      using 1(1) [OF 1(2) nz] 1(3) nt by (simp add: dec_char)
    then show ?thesis unfolding step nt by (rule stored_step [OF _ i])
  qed
qed

lemma hex_loop_ok:
  "0 < n \<Longrightarrow> i + length (numeral_text 16 (unat n)) \<le> length buf \<Longrightarrow>
   stored (hex_loop buf i n) buf i (numeral_text 16 (unat n))"
proof (induction buf i n rule: hex_loop.induct)
  case (1 buf i n)
  have i: "i < length buf" using 1(3) numeral_ne [of 16 "unat n"] by linarith
  let ?c = "digit_char (unat n mod 16)"
  have step: "hex_loop buf i n = hex_loop (buf[i := ?c]) (i + 1) (drop_bit 4 n)"
    using 1(2) by (subst hex_loop.simps) (simp only: Let_def hex_char_def [symmetric] hex_char_eq if_True)
  have d: "unat (drop_bit 4 n) = unat n div 16" by (simp add: drop_bit_eq_div unat_div)
  show ?case
  proof (cases "unat n < 16")
    case True
    then have z: "drop_bit 4 n = 0" using d by (simp add: word_unat_eq_iff)
    have "hex_loop (buf[i := ?c]) (i + 1) 0 = (buf[i := ?c], i + 1)" by (subst hex_loop.simps) simp
    then show ?thesis
      unfolding step z using True stored_one [OF i, of ?c] by (simp add: numeral_one)
  next
    case False
    then have nz: "0 < drop_bit 4 n" using d by (simp add: word_less_nat_alt div_greater_zero_iff)
    have nt: "numeral_text 16 (unat n) = numeral_text 16 (unat (drop_bit 4 n)) @ [?c]"
      using False by (simp add: numeral_step d)
    have "stored (hex_loop (buf[i := ?c]) (i + 1) (drop_bit 4 n)) (buf[i := ?c]) (i + 1)
        (numeral_text 16 (unat (drop_bit 4 n)))"
      using 1(1) [OF 1(2) refl nz] 1(3) nt
      by (simp add: hex_char_def [symmetric] hex_char_eq)
    then show ?thesis unfolding step nt by (rule stored_step [OF _ i])
  qed
qed

text \<open>The swapping loop reverses the first \<open>i\<close> bytes.\<close>

lemma rev_loop_nth:
  "i \<le> length buf \<Longrightarrow> j \<le> i div 2 \<Longrightarrow> length (rev_loop buf i j) = length buf \<and>
   (\<forall>p < i. rev_loop buf i j ! p = (if p < j \<or> i - j \<le> p then buf ! p else buf ! (i - 1 - p)))"
proof (induction buf i j rule: rev_loop.induct)
  case (1 buf i j)
  show ?case
  proof (cases "j < i div 2")
    case True
    let ?b = "buf[j := buf ! (i - 1 - j), i - 1 - j := buf ! j]"
    have r: "rev_loop buf i j = rev_loop ?b i (j + 1)"
      using True by (subst rev_loop.simps) (simp add: Let_def)
    have IH: "length (rev_loop ?b i (j + 1)) = length ?b"
      "\<And>p. p < i \<Longrightarrow> rev_loop ?b i (j + 1) ! p =
        (if p < j + 1 \<or> i - (j + 1) \<le> p then ?b ! p else ?b ! (i - 1 - p))"
      using 1(1) [OF True refl] 1(2) True by simp_all
    have j: "j < i - 1 - j" "i - 1 - j < length buf" using True 1(2) by linarith+
    show ?thesis
      unfolding r
    proof (intro conjI allI impI)
      fix p assume p: "p < i"
      consider "p < j \<or> i - j \<le> p" | "p = j" | "p = i - 1 - j" | "j < p" "p < i - 1 - j"
        using p j by linarith
      then show "rev_loop ?b i (j + 1) ! p =
          (if p < j \<or> i - j \<le> p then buf ! p else buf ! (i - 1 - p))"
      proof cases
        case 1
        then have "p \<noteq> j" "p \<noteq> i - 1 - j" using p j by linarith+
        then show ?thesis using 1 IH(2) [OF p] by auto
      next
        case 2
        then have "\<not> i - j \<le> p" using j by linarith
        then show ?thesis using 2 IH(2) [OF p] j by simp
      next
        case 3
        then have "i - 1 - p = j" "\<not> i - j \<le> p" "\<not> p < j" using j p by linarith+
        then show ?thesis using 3 IH(2) [OF p] j by simp
      next
        case 4
        then have "i - 1 - p \<noteq> j" "i - 1 - p \<noteq> i - 1 - j" "\<not> i - j \<le> p" "\<not> p < j"
          using p j by linarith+
        then show ?thesis using 4 IH(2) [OF p] by simp
      qed
    qed (use IH(1) in simp)
  next
    case False
    then have r: "rev_loop buf i j = buf" by (subst rev_loop.simps) simp
    have "p < j \<or> i - j \<le> p \<or> buf ! p = buf ! (i - 1 - p)" if "p < i" for p
    proof -
      have "p < j \<or> i - j \<le> p \<or> i - 1 - p = p" using False 1(3) that by linarith
      then show ?thesis by metis
    qed
    then show ?thesis unfolding r by auto
  qed
qed

lemma rev_loop_take:
  assumes "i \<le> length buf"
  shows "take i (rev_loop buf i 0) = rev (take i buf)"
proof (rule nth_equalityI)
  show "length (take i (rev_loop buf i 0)) = length (rev (take i buf))"
    using rev_loop_nth [OF assms, of 0] by simp
  fix p assume "p < length (take i (rev_loop buf i 0))"
  then have p: "p < i" by simp
  then show "take i (rev_loop buf i 0) ! p = rev (take i buf) ! p"
    using rev_loop_nth [OF assms, of 0] assms by (simp add: rev_nth)
qed

lemma fmt_ok:
  assumes "numeral_text 10 (unat n) = d" "length d \<le> length buf"
  shows "take (snd (fmt_dec buf n)) (fst (fmt_dec buf n)) = d \<and> snd (fmt_dec buf n) = length d \<and>
    length (fst (fmt_dec buf n)) = length buf"
proof (cases "n = 0")
  case True
  then have d: "d = [0x30]" using assms(1) by (simp add: numeral_one digit_char_def)
  then show ?thesis using True assms(2) by (cases buf) (simp_all add: fmt_dec_def)
next
  case False
  then have "0 < n" by (simp add: word_neq_0_conv)
  then have st: "stored (dec_loop buf 0 n) buf 0 d" using dec_loop_ok [of n 0 buf] assms by simp
  then have "length d \<le> length (fst (dec_loop buf 0 n))" "take (length d) (fst (dec_loop buf 0 n)) = rev d"
    using assms(2) by (auto simp: stored_def)
  then show ?thesis
    using False st rev_loop_take [of "length d" "fst (dec_loop buf 0 n)"]
      rev_loop_nth [of "length d" "fst (dec_loop buf 0 n)" 0]
    by (simp add: fmt_dec_def stored_def split_beta)
qed

lemma fmt_hex_ok:
  assumes "numeral_text 16 (unat n) = d" "length d \<le> length buf"
  shows "take (snd (fmt_hex buf n)) (fst (fmt_hex buf n)) = d \<and> snd (fmt_hex buf n) = length d \<and>
    length (fst (fmt_hex buf n)) = length buf"
proof (cases "n = 0")
  case True
  then have d: "d = [0x30]" using assms(1) by (simp add: numeral_one digit_char_def)
  then show ?thesis using True assms(2) by (cases buf) (simp_all add: fmt_hex_def)
next
  case False
  then have "0 < n" by (simp add: word_neq_0_conv)
  then have st: "stored (hex_loop buf 0 n) buf 0 d" using hex_loop_ok [of n 0 buf] assms by simp
  then have "length d \<le> length (fst (hex_loop buf 0 n))" "take (length d) (fst (hex_loop buf 0 n)) = rev d"
    using assms(2) by (auto simp: stored_def)
  then show ?thesis
    using False st rev_loop_take [of "length d" "fst (hex_loop buf 0 n)"]
      rev_loop_nth [of "length d" "fst (hex_loop buf 0 n)" 0]
    by (simp add: fmt_hex_def stored_def split_beta)
qed

lemma length_dec: "length (numeral_text 10 (unat (n :: u64))) \<le> 20"
  using unat_lt [of n] by (intro length_numeral) simp_all

lemma length_hex: "length (numeral_text 16 (unat (n :: u64))) \<le> 16"
  using unat_lt [of n] by (intro length_numeral) simp_all

section \<open>Output\<close>

definition emit :: "u8 list \<Rightarrow> outs \<Rightarrow> outs" where
  "emit cs t = fold putc cs t"

lemma emit_simps [simp]: "emit [] t = t" "emit [c] t = putc c t" "emit (a @ b) t = emit b (emit a t)"
  by (simp_all add: emit_def)

lemma emit_Cons [simp]: "emit (c # cs) t = emit cs (putc c t)"
  by (simp add: emit_def)

lemma puts_emit: "puts s t = emit s t"
  by (induction s arbitrary: t) (simp_all add: emit_Cons)

lemma put_down_emit: "i \<le> length buf \<Longrightarrow> put_down buf i t = emit (rev (take i buf)) t"
  by (induction i arbitrary: t) (simp_all add: take_Suc_conv_app_nth emit_Cons)

lemma put_up_emit: "i \<le> n \<Longrightarrow> n \<le> length buf \<Longrightarrow>
    put_up buf i n t = emit (take (n - i) (drop i buf)) t"
proof (induction buf i n t rule: put_up.induct)
  case (1 buf i n t)
  show ?case
  proof (cases "i < n")
    case True
    then have "take (n - i) (drop i buf) = buf ! i # take (n - Suc i) (drop (Suc i) buf)"
      using 1(3) by (metis Suc_diff_Suc take_drop_Suc less_le_trans)
    moreover have "put_up buf i n t = put_up buf (i + 1) n (putc (buf ! i) t)"
      using True by (subst put_up.simps) simp
    ultimately show ?thesis using 1(1) [OF True] 1(3) True by (simp add: emit_Cons)
  next
    case False
    then show ?thesis using 1(2) by (subst put_up.simps) simp
  qed
qed

lemma pad_emit: "pad count c t = emit (replicate (nat (sint count)) c) t"
proof (induction count c t rule: pad.induct)
  case (1 count c t)
  show ?case
  proof (cases "0 <s count")
    case True
    then have p: "0 < sint count" by (simp add: word_sless_alt)
    then have "nat (sint count) = Suc (nat (sint (count - 1)))" using sint_pred [OF True] by simp
    moreover have "pad count c t = pad (count - 1) c (putc c t)"
      using True by (subst pad.simps) simp
    ultimately show ?thesis using 1(1) [OF True] by (simp add: emit_Cons)
  next
    case False
    then have "sint count \<le> 0" by (simp add: word_sless_alt)
    then show ?thesis using False by (subst pad.simps) simp
  qed
qed

section \<open>Directives\<close>

datatype conv = Dec | Uns | Hex | HexP | Ptr | Text | Char

text \<open>A literal character, \<^verbatim>\<open>%%\<close>, or a conversion with the flags \<^verbatim>\<open>-\<close>, \<^verbatim>\<open>0\<close>, \<^verbatim>\<open>^\<close> and a
  width, 0 for none.\<close>

datatype piece = Lit u8 | Percent | Conv bool bool bool nat conv

fun conv_char :: "conv \<Rightarrow> u8" where
  "conv_char Dec = 0x64"
| "conv_char Uns = 0x75"
| "conv_char Hex = 0x78"
| "conv_char HexP = 0x58"
| "conv_char Ptr = 0x70"
| "conv_char Text = 0x73"
| "conv_char Char = 0x63"

definition flag_text :: "bool \<Rightarrow> bool \<Rightarrow> bool \<Rightarrow> cstr" where
  "flag_text l z m = (if l then [0x2D] else []) @ (if z then [0x30] else []) @ (if m then [0x5E] else [])"

fun piece_text :: "piece \<Rightarrow> cstr" where
  "piece_text (Lit c) = [c]"
| "piece_text Percent = [0x25, 0x25]"
| "piece_text (Conv l z m w k) =
     [0x25] @ flag_text l z m @ (if w = 0 then [] else numeral_text 10 w) @ [conv_char k]"

definition fmt_text :: "piece list \<Rightarrow> cstr" where
  "fmt_text ps = concat (map piece_text ps)"

fun piece_ok :: "piece \<Rightarrow> bool" where
  "piece_ok (Lit c) \<longleftrightarrow> c \<noteq> 0x25"
| "piece_ok Percent \<longleftrightarrow> True"
| "piece_ok (Conv l z m w k) \<longleftrightarrow> w < 2 ^ 30"

text \<open>A field of at least \<open>w\<close> characters.\<close>

definition field :: "bool \<Rightarrow> bool \<Rightarrow> nat \<Rightarrow> u8 list \<Rightarrow> u8 list \<Rightarrow> u8 list" where
  "field left zero w sign body =
     (let p = w - (length sign + length body)
      in if left then sign @ body @ replicate p 0x20
         else if zero then sign @ replicate p 0x30 @ body
         else replicate p 0x20 @ sign @ body)"

fun render_conv :: "bool \<Rightarrow> bool \<Rightarrow> bool \<Rightarrow> nat \<Rightarrow> conv \<Rightarrow> varg \<Rightarrow> u8 list option" where
  "render_conv l z m w Dec (Num n) =
     Some (field l z w (if n <s 0 then [0x2D] else []) (numeral_text 10 (nat \<bar>sint n\<bar>)))"
| "render_conv l z m w Uns (Num n) = Some (field l z w [] (numeral_text 10 (unat n)))"
| "render_conv l z m w Hex (Num n) = Some (field l z w [] (numeral_text 16 (unat n)))"
| "render_conv l z m w HexP (Num n) = Some (field l z w [] ([0x30, 0x78] @ numeral_text 16 (unat n)))"
| "render_conv l z m w Ptr (Num n) =
     Some ([0x30, 0x78] @ field False True 16 [] (numeral_text 16 (unat n)))"
| "render_conv l z m w Text (Str s) =
     (let s = (case s of None \<Rightarrow> null_text | Some s \<Rightarrow> s);
          p = w - length s
      in Some (if m then replicate (p div 2) 0x20 @ s @ replicate (p - p div 2) 0x20
               else field l False w [] s))"
| "render_conv l z m w Char (Num n) = Some (field l False w [] [ucast n])"
| "render_conv l z m w _ _ = None"

text \<open>The whole format string; \<open>None\<close> when the arguments do not fit.\<close>

fun render :: "piece list \<Rightarrow> varg list \<Rightarrow> u8 list option" where
  "render [] args = Some []"
| "render (Lit c # ps) args = map_option (\<lambda>r. c # r) (render ps args)"
| "render (Percent # ps) args = map_option (\<lambda>r. 0x25 # r) (render ps args)"
| "render (Conv l z m w k # ps) args =
     (case args of [] \<Rightarrow> None
      | a # as \<Rightarrow> do {
          f \<leftarrow> render_conv l (z \<and> \<not> (l \<or> m)) m w k a;
          r \<leftarrow> render ps as;
          Some (f @ r) })"

section \<open>The conversions\<close>

fun arg_ok :: "varg \<Rightarrow> bool" where
  "arg_ok (Num n) \<longleftrightarrow> True"
| "arg_ok (Str None) \<longleftrightarrow> True"
| "arg_ok (Str (Some s)) \<longleftrightarrow> length s < 2 ^ 30"

lemma pad_width:
  assumes "w < 2 ^ 30" "k < 2 ^ 30 + 24"
  shows "nat (sint (word_of_nat w - word_of_nat k :: i32)) = w - k"
proof -
  have "word_of_nat w - word_of_nat k = (word_of_int (int w - int k) :: i32)" by simp
  moreover have "sint (word_of_int (int w - int k) :: i32) = int w - int k"
    using assms by (intro sint_i32) simp_all
  ultimately show ?thesis by simp
qed

lemma pad_field: "w < 2 ^ 30 \<Longrightarrow> k < 2 ^ 30 + 24 \<Longrightarrow>
    pad (word_of_nat w - word_of_nat k) c t = emit (replicate (w - k) c) t"
  by (simp add: pad_emit pad_width)

lemma abs_arg: "unat (if n <s 0 then - n else n) = nat \<bar>sint n\<bar>" for n :: i64
proof (cases "n <s 0")
  case True
  then have neg: "sint n < 0" by (simp add: word_sless_alt)
  define k where "k = - sint n"
  have k: "0 < k" "k \<le> 9223372036854775808" using neg sint_ge [of n] by (simp_all add: k_def)
  have "(word_of_int k :: u64) = - n" by (simp add: k_def)
  moreover have "uint (word_of_int k :: u64) = k" using k by (simp add: uint_word_of_int)
  ultimately have "uint (- n) = - sint n" by (simp add: k_def)
  then show ?thesis using True neg by (simp add: unat_eq_nat_uint)
next
  case False
  then have pos: "0 \<le> sint n" by (simp add: word_sless_alt)
  define k where "k = sint n"
  have k: "0 \<le> k" "k < 9223372036854775808" using pos sint_lt [of n] by (simp_all add: k_def)
  have "(word_of_int k :: u64) = n" by (simp add: k_def)
  moreover have "uint (word_of_int k :: u64) = k" using k by (simp add: uint_word_of_int)
  ultimately have "uint n = sint n" by (simp add: k_def)
  then show ?thesis using False pos by (simp add: unat_eq_nat_uint)
qed

lemma put_fmt:
  assumes "take len buf = d" "len = length d" "length buf = 24"
  shows "put_up buf 0 len t = emit d t"
proof -
  have "len \<le> length buf" using assms(1,2) by (metis length_take min.cobounded1)
  then show ?thesis using put_up_emit [of 0 len buf t] assms(1) by simp
qed

lemma conv_d_ok:
  assumes "w < 2 ^ 30"
  shows "conv_d l (z \<and> \<not> (l \<or> m)) (word_of_nat w) n t =
    emit (field l (z \<and> \<not> (l \<or> m)) w (if n <s 0 then [0x2D] else []) (numeral_text 10 (nat \<bar>sint n\<bar>))) t"
proof -
  let ?n = "if n <s 0 then - n else n"
  let ?d = "numeral_text 10 (nat \<bar>sint n\<bar>)"
  have d: "numeral_text 10 (unat ?n) = ?d" unfolding abs_arg ..
  have len: "length ?d \<le> 20" unfolding d [symmetric] by (rule length_dec)
  obtain buf k where b: "fmt_dec (replicate 24 0) ?n = (buf, k)" by fastforce
  have f: "take k buf = ?d" "k = length ?d" "length buf = 24"
    using fmt_ok [OF d, of "replicate 24 0"] len b by auto
  let ?s = "if n <s 0 then [0x2D :: u8] else []"
  have tot: "word_of_nat k + (if n <s 0 then 1 else 0) = (word_of_nat (length ?s + length ?d) :: i32)"
    using f(2) by simp
  have lt: "length ?s + length ?d < 2 ^ 30 + 24" using len by simp
  show ?thesis
    unfolding conv_d_def Let_def b split_conv tot pad_field [OF assms lt] put_fmt [OF f]
    by (cases "n <s 0"; cases l; cases z; cases m) (simp_all add: field_def Let_def)
qed

lemma conv_u_ok:
  assumes "w < 2 ^ 30" "padchar = (if zp then 0x30 else 0x20)"
    and "take (snd (fmt (replicate 24 0) n)) (fst (fmt (replicate 24 0) n)) = d \<and>
      snd (fmt (replicate 24 0) n) = length d \<and> length (fst (fmt (replicate 24 0) n)) = 24"
    and "length d \<le> 24"
  shows "conv_u fmt l padchar (word_of_nat w) n t = emit (field l zp w [] d) t"
proof -
  obtain buf k where b: "fmt (replicate 24 0) n = (buf, k)" by fastforce
  have f: "take k buf = d" "k = length d" "length buf = 24" using assms(3) b by auto
  have lt: "length d < 2 ^ 30 + 24" using assms(4) by simp
  show ?thesis
    unfolding conv_u_def Let_def b split_conv pad_field [OF assms(1) lt [folded f(2)]] put_fmt [OF f] assms(2)
    by (cases l; cases zp) (simp_all add: field_def Let_def f(2))
qed

lemma conv_X_ok:
  assumes "w < 2 ^ 30" "padchar = (if zp then 0x30 else 0x20)"
  shows "conv_X l padchar (word_of_nat w) n t =
    emit (field l zp w [] ([0x30, 0x78] @ numeral_text 16 (unat n))) t"
proof -
  let ?d = "numeral_text 16 (unat n)"
  obtain buf k where b: "fmt_hex (replicate 24 0) n = (buf, k)" by fastforce
  have len: "length ?d \<le> 16" by (rule length_hex)
  have f: "take k buf = ?d" "k = length ?d" "length buf = 24"
    using fmt_hex_ok [OF refl, of n "replicate 24 0"] len b by auto
  have tot: "word_of_nat k + 2 = (word_of_nat (length ?d + 2) :: i32)" using f(2) by simp
  have lt: "length ?d + 2 < 2 ^ 30 + 24" using len by simp
  show ?thesis
    unfolding conv_X_def Let_def b split_conv tot pad_field [OF assms(1) lt] put_fmt [OF f] assms(2) puts_emit
    by (cases l; cases zp) (simp_all add: field_def Let_def)
qed

lemma str_len_eq: "str_len s = word_of_nat (length s)"
  by (induction s) simp_all

lemma conv_s_ok:
  assumes "w < 2 ^ 30" "length s < 2 ^ 30" "s = (case sp of None \<Rightarrow> null_text | Some s \<Rightarrow> s)"
  shows "conv_s l m (word_of_nat w) sp t =
    emit (if m then replicate ((w - length s) div 2) 0x20 @ s @
        replicate (w - length s - (w - length s) div 2) 0x20
      else field l False w [] s) t"
proof -
  let ?p = "w - length s"
  let ?q = "word_of_nat w - word_of_nat (length s) :: i32"
  have p0: "?q = word_of_int (int w - int (length s))" by simp
  have si: "sint ?q = int w - int (length s)"
    unfolding p0 using assms(1,2) by (intro sint_i32) simp_all
  have pad0: "(if ?q <s 0 then 0 else ?q) = word_of_nat ?p"
  proof (cases "?q <s 0")
    case True
    then have "w < length s" using si by (simp add: word_sless_alt)
    then show ?thesis using True by simp
  next
    case False
    then have "length s \<le> w" using si by (simp add: word_sless_alt)
    then show ?thesis using False by (simp add: of_nat_diff)
  qed
  have lt: "?p < 2 ^ 30" using assms(1) by simp
  have half: "(word_of_nat ?p :: i32) div 2 = word_of_nat (?p div 2)"
    using lt by (simp add: word_unat_eq_iff unat_div unat_of_nat_id)
  have padn: "pad (word_of_nat k) c u = emit (replicate k c) u" if "k < 2 ^ 30" for k c u
    using pad_field [OF that, of 0 c u] by simp
  have right: "pad (word_of_nat ?p - word_of_nat (?p div 2)) 0x20 u = emit (replicate (?p - ?p div 2) 0x20) u"
    for u using lt by (intro pad_field) simp_all
  have hlt: "?p div 2 < 2 ^ 30" using lt by simp
  show ?thesis
    unfolding conv_s_def Let_def assms(3) [symmetric] str_len_eq pad0 half right padn [OF lt]
      padn [OF hlt] puts_emit
    by (cases m; cases l) (simp_all add: field_def Let_def)
qed

lemma conv_c_ok:
  assumes "w < 2 ^ 30"
  shows "conv_c l (word_of_nat w) n t = emit (field l False w [] [ucast n]) t"
proof -
  have "pad (word_of_nat w - 1) 0x20 u = emit (replicate (w - 1) 0x20) u" for u
    using pad_field [OF assms, of 1 "0x20" u] by simp
  then show ?thesis by (cases l) (simp_all add: conv_c_def field_def Let_def emit_Cons)
qed

lemma drop_nibbles: "unat (drop_bit (i * 4) (n :: u64)) = unat n div 16 ^ i"
proof -
  have "unat (drop_bit (i * 4) n) = drop_bit (i * 4) (unat n)"
    using unat_lt [of n] by (simp add: unsigned_drop_bit_eq take_bit_nat_eq_self)
  moreover have "(2 :: nat) ^ (i * 4) = 16 ^ i" by (simp add: power_mult mult.commute [of i])
  ultimately show ?thesis by (simp only: drop_bit_eq_div)
qed

lemma nibble: "hex_char (ucast (drop_bit (i * 4) n AND 0xF :: u64)) = digit_char (unat n div 16 ^ i mod 16)"
  by (simp add: hex_char_eq drop_nibbles)

lemma puthex_n_emit:
  "puthex_n n d t = emit (map (\<lambda>i. digit_char (unat n div 16 ^ i mod 16)) (rev [0..<d])) t"
proof (induction d arbitrary: t)
  case (Suc d)
  have "puthex_n n (Suc d) t = puthex_n n d (putc (digit_char (unat n div 16 ^ d mod 16)) t)"
    unfolding puthex_n.simps Let_def hex_char_def [symmetric] nibble ..
  then show ?case using Suc by (simp add: emit_Cons)
qed simp

text \<open>Printing a fixed number of nibbles is printing the numeral with leading zeros.\<close>

lemma nibbles_numeral:
  "n < 16 ^ d \<Longrightarrow> 0 < d \<Longrightarrow> map (\<lambda>i. digit_char (n div 16 ^ i mod 16)) (rev [0..<d]) =
    replicate (d - length (numeral_text 16 n)) 0x30 @ numeral_text 16 n"
proof (induction d arbitrary: n)
  case (Suc d)
  have up: "[0..<Suc d] = 0 # map Suc [0..<d]" by (simp only: map_Suc_upt upt_conv_Cons [OF zero_less_Suc])
  have split: "map (\<lambda>i. digit_char (n div 16 ^ i mod 16)) (rev [0..<Suc d]) =
      map (\<lambda>i. digit_char (n div 16 div 16 ^ i mod 16)) (rev [0..<d]) @ [digit_char (n mod 16)]"
    unfolding up by (simp add: rev_map o_def div_mult2_eq)
  show ?case
  proof (cases "d = 0")
    case True
    then show ?thesis using Suc.prems by (simp add: numeral_one)
  next
    case False
    have lt: "n div 16 < 16 ^ d" using Suc.prems(1) by (simp add: less_mult_imp_div_less mult.commute)
    note IH = Suc.IH [OF lt] False
    show ?thesis
    proof (cases "n < 16")
      case True
      obtain e where e: "d = Suc e" using False by (cases d) auto
      show ?thesis
        unfolding split using IH True
        by (simp add: numeral_one e digit_char_def replicate_append_same)
    next
      case False
      then show ?thesis unfolding split using IH by (simp add: numeral_step)
    qed
  qed
qed simp

lemma puthex64_ok: "puthex64 n t = emit (field False True 16 [] (numeral_text 16 (unat n))) t"
  using nibbles_numeral [of "unat n" 16] unat_lt [of n]
  by (simp add: puthex64_def puthex_n_emit field_def)

section \<open>Format strings\<close>

definition is_flag :: "u8 \<Rightarrow> bool" where
  "is_flag c \<longleftrightarrow> c = 0x2D \<or> c = 0x30 \<or> c = 0x5E"

lemma flags_parsed:
  assumes "s \<noteq> []" "\<not> is_flag (hd s)"
  shows "flag_loop (flag_text l z m @ s) False False False = (s, l, z, m)"
proof -
  obtain c r where s: "s = c # r" "c \<noteq> 0x2D" "c \<noteq> 0x30" "c \<noteq> 0x5E"
    using assms by (cases s) (auto simp: is_flag_def)
  show ?thesis by (cases l; cases z; cases m) (simp_all add: flag_text_def s)
qed

lemma digits_hd: "0 < n \<Longrightarrow> 2 \<le> b \<Longrightarrow> 0 < hd (digits b n)"
proof (induction b n rule: digits.induct)
  case (1 b n)
  show ?case
  proof (cases "n < b")
    case True
    then show ?thesis using 1(2) by (simp add: digits_one)
  next
    case False
    then have "0 < n div b" using 1(3) by (simp add: div_greater_zero_iff)
    then show ?thesis using 1 False by (simp add: digits_step)
  qed
qed

lemma digit_char_u: "d < 10 \<Longrightarrow> unat (digit_char d) = 48 + d"
  by (simp add: digit_char_def unat_of_nat_id flip: of_nat_add)

lemma width_digits:
  assumes "\<And>d. d \<in> set ds \<Longrightarrow> d < 10"
  shows "width_loop (map digit_char ds @ s) (word_of_nat v) =
    width_loop s (word_of_nat (fold (\<lambda>d a. a * 10 + d) ds v))"
  using assms
proof (induction ds arbitrary: v)
  case (Cons d ds)
  have u: "unat (digit_char d) = 48 + d" using Cons.prems by (simp add: digit_char_u)
  then have ok: "0x30 <=s digit_char d \<and> digit_char d <=s 0x39"
    unfolding sless_byte(2) using Cons.prems [of d] by simp
  have e: "word_of_nat v * 10 + scast (digit_char d - 0x30) = (word_of_nat (v * 10 + d) :: i32)"
    using digit_scast [of d] Cons.prems [of d] by simp
  show ?case using Cons.IH [of "v * 10 + d"] Cons.prems ok by (simp add: e)
qed simp

lemma width_parsed:
  assumes "s = c # r" "\<not> (0x30 \<le> unat c \<and> unat c \<le> 0x39)"
  shows "width_loop ((if w = 0 then [] else numeral_text 10 w) @ s) 0 = (s, word_of_nat w)"
proof -
  have stop: "width_loop s v = (s, v)" for v
    unfolding assms(1) using sless_byte(2) [of c] assms(2) by auto
  have "width_loop (numeral_text 10 w @ s) (word_of_nat 0) = width_loop s (word_of_nat w)"
    unfolding numeral_text_def
    using width_digits [of "digits 10 w" s 0] digits_bound [of 10 _ w] digits_value [of 10 w]
    by (simp add: value_of_def)
  then show ?thesis using stop by auto
qed

lemma conv_char_u: "\<not> (0x30 \<le> unat (conv_char k) \<and> unat (conv_char k) \<le> 0x39)"
    "\<not> is_flag (conv_char k)"
  by (cases k; simp add: is_flag_def)+

lemma numeral_no_flag:
  assumes "0 < w"
  shows "\<not> is_flag (hd (numeral_text 10 w))"
proof -
  let ?d = "hd (digits 10 w)"
  have d: "0 < ?d" "?d < 10"
    using digits_hd [OF assms, of 10] digits_bound [of 10 ?d w] by simp_all
  have "hd (numeral_text 10 w) = digit_char ?d" by (simp add: numeral_text_def hd_map)
  moreover have "unat (digit_char ?d) \<noteq> 0x2D \<and> unat (digit_char ?d) \<noteq> 0x30 \<and> unat (digit_char ?d) \<noteq> 0x5E"
    using d by (simp add: digit_char_u)
  ultimately show ?thesis by (auto simp: is_flag_def)
qed

lemma fmt_dec24:
  "take (snd (fmt_dec (replicate 24 0) n)) (fst (fmt_dec (replicate 24 0) n)) = numeral_text 10 (unat n) \<and>
    snd (fmt_dec (replicate 24 0) n) = length (numeral_text 10 (unat n)) \<and>
    length (fst (fmt_dec (replicate 24 0) n)) = 24"
  "length (numeral_text 10 (unat n)) \<le> 24"
  using fmt_ok [OF refl, of n "replicate 24 0"] length_dec [of n] by auto

lemma fmt_hex24:
  "take (snd (fmt_hex (replicate 24 0) n)) (fst (fmt_hex (replicate 24 0) n)) = numeral_text 16 (unat n) \<and>
    snd (fmt_hex (replicate 24 0) n) = length (numeral_text 16 (unat n)) \<and>
    length (fst (fmt_hex (replicate 24 0) n)) = 24"
  "length (numeral_text 16 (unat n)) \<le> 24"
  using fmt_hex_ok [OF refl, of n "replicate 24 0"] length_hex [of n] by auto

lemma conv_ux_ok:
  assumes "w < 2 ^ 30"
  shows "conv_u fmt_dec l (if zp then 0x30 else 0x20) (word_of_nat w) n t =
      emit (field l zp w [] (numeral_text 10 (unat n))) t"
    and "conv_u fmt_hex l (if zp then 0x30 else 0x20) (word_of_nat w) n t =
      emit (field l zp w [] (numeral_text 16 (unat n))) t"
  using conv_u_ok [where fmt = fmt_dec, OF assms refl fmt_dec24]
    conv_u_ok [where fmt = fmt_hex, OF assms refl fmt_hex24] by simp_all

lemma vconv_ok:
  assumes "w < 2 ^ 30" "arg_ok a" "render_conv l (z \<and> \<not> (l \<or> m)) m w k a = Some f"
  shows "vconv (conv_char k) l (z \<and> \<not> (l \<or> m)) m (word_of_nat w) (a # as) t = Some (as, emit f t)"
proof (cases k)
  case Dec
  then show ?thesis using assms conv_d_ok by (cases a) (auto simp: vconv_def Let_def)
next
  case Uns
  then show ?thesis
    using assms conv_ux_ok [OF assms(1)] by (cases a) (auto simp: vconv_def Let_def)
next
  case Hex
  then show ?thesis
    using assms conv_ux_ok [OF assms(1)] by (cases a) (auto simp: vconv_def Let_def)
next
  case HexP
  then show ?thesis using assms conv_X_ok [OF assms(1) refl] by (cases a) (auto simp: vconv_def Let_def)
next
  case Ptr
  then show ?thesis using assms puthex64_ok by (cases a) (auto simp: vconv_def Let_def puts_emit)
next
  case Text
  then obtain sp where a: "a = Str sp" using assms(3) by (cases a) auto
  let ?s = "case sp of None \<Rightarrow> null_text | Some s \<Rightarrow> s"
  have len: "length ?s < 2 ^ 30" using assms(2) a by (cases sp) auto
  show ?thesis using conv_s_ok [OF assms(1) len refl] assms(3) Text a by (auto simp: vconv_def Let_def)
next
  case Char
  then show ?thesis using assms conv_c_ok by (cases a) (auto simp: vconv_def Let_def)
qed

lemma vprintf_ok:
  "list_all piece_ok ps \<Longrightarrow> list_all arg_ok args \<Longrightarrow> render ps args = Some out \<Longrightarrow>
   do_vprintf (fmt_text ps) args t = Some (emit out t)"
proof (induction ps args arbitrary: out t rule: render.induct)
  case (1 args)
  then show ?case by (simp add: fmt_text_def do_vprintf.simps)
next
  case (2 c ps args)
  then obtain r where r: "render ps args = Some r" "out = c # r" by auto
  have "do_vprintf (fmt_text (Lit c # ps)) args t = do_vprintf (fmt_text ps) args (putc c t)"
    using 2(2) by (simp add: fmt_text_def do_vprintf.simps)
  then show ?case using 2 r by simp
next
  case (3 ps args)
  then obtain r where r: "render ps args = Some r" "out = 0x25 # r" by auto
  have "do_vprintf (fmt_text (Percent # ps)) args t = do_vprintf (fmt_text ps) args (putc 0x25 t)"
    by (simp add: fmt_text_def do_vprintf.simps(2) sless_byte(2) vconv_def)
  then show ?case using 3 r by simp
next
  case (4 l z m w k ps args)
  obtain a as where args: "args = a # as" using 4(4) by (cases args) auto
  obtain f r where fr: "render_conv l (z \<and> \<not> (l \<or> m)) m w k a = Some f" "render ps as = Some r"
    "out = f @ r"
    using 4(4) by (auto simp: args split: Option.bind_splits)
  let ?rest = "conv_char k # fmt_text ps"
  let ?num = "if w = 0 then [] else numeral_text 10 w"
  have t: "fmt_text (Conv l z m w k # ps) = 0x25 # flag_text l z m @ ?num @ ?rest"
    by (simp add: fmt_text_def)
  have "flag_loop (flag_text l z m @ ?num @ ?rest) False False False = (?num @ ?rest, l, z, m)"
    using conv_char_u(2) [of k] numeral_no_flag [of w] numeral_ne [of 10 w]
    by (intro flags_parsed) (auto simp: hd_append)
  moreover have "width_loop (?num @ ?rest) 0 = (?rest, word_of_nat w)"
    by (rule width_parsed [OF refl conv_char_u(1)])
  moreover have "vconv (conv_char k) l (z \<and> \<not> (l \<or> m)) m (word_of_nat w) (a # as) t =
      Some (as, emit f t)"
    using 4(2,3) fr(1) by (intro vconv_ok) (simp_all add: args)
  ultimately have "do_vprintf (fmt_text (Conv l z m w k # ps)) args t =
      do_vprintf (fmt_text ps) as (emit f t)"
    unfolding t args by (simp add: do_vprintf.simps(2) Let_def)
  moreover have "do_vprintf (fmt_text ps) as (emit f t) = Some (emit r (emit f t))"
    using 4 fr by (simp add: args)
  ultimately show ?case by (simp add: fr(3))
qed


lemma hex_width_ok: "0 < n \<Longrightarrow> unat n < 16 ^ D \<Longrightarrow> hex_width n D = length (numeral_text 16 (unat n))"
proof (induction D)
  case 0
  then show ?case by (simp add: word_less_nat_alt)
next
  case (Suc d)
  have nib: "drop_bit (d * 4) n AND 0xF = 0 \<longleftrightarrow> unat n div 16 ^ d mod 16 = 0"
  proof -
    have "unat (drop_bit (d * 4) n) = unat n div 16 ^ d" by (rule drop_nibbles)
    then show ?thesis using and_15 [of "drop_bit (d * 4) n"] by (simp add: word_unat_eq_iff)
  qed
  have q: "unat n div 16 ^ d < 16" using Suc.prems(2) by (simp add: less_mult_imp_div_less)
  show ?case
  proof (cases "0 < d \<and> unat n div 16 ^ d = 0")
    case True
    then have "unat n < 16 ^ d" by (simp add: div_eq_0_iff)
    then show ?thesis using Suc.IH Suc.prems(1) True nib by simp
  next
    case False
    then have "hex_width n (Suc d) = Suc d" using nib q by auto
    moreover have "length (numeral_text 16 (unat n)) = Suc d"
    proof (cases "d = 0")
      case True
      then show ?thesis using Suc.prems(2) by (simp add: numeral_one)
    next
      case d: False
      then have ge: "16 ^ d \<le> unat n" using False by (simp add: div_eq_0_iff)
      have "length (numeral_text 16 (unat n)) \<le> Suc d"
        using Suc.prems(2) by (intro length_numeral) simp_all
      moreover have "\<not> length (numeral_text 16 (unat n)) \<le> d"
      proof
        assume "length (numeral_text 16 (unat n)) \<le> d"
        then have "16 ^ length (numeral_text 16 (unat n)) \<le> (16 :: nat) ^ d"
          by (intro power_increasing) simp_all
        moreover have "unat n < 16 ^ length (numeral_text 16 (unat n))" by (rule numeral_lower) simp
        ultimately show False using ge by linarith
      qed
      ultimately show ?thesis by simp
    qed
    ultimately show ?thesis by simp
  qed
qed

lemma putdec_ok: "putdec n t = emit (numeral_text 10 (unat n)) t"
proof (cases "n = 0")
  case True
  then show ?thesis by (simp add: putdec_def numeral_one digit_char_def)
next
  case False
  then have "0 < n" by (simp add: word_neq_0_conv)
  then have st: "stored (dec_loop (replicate 20 0) 0 n) (replicate 20 0) 0 (numeral_text 10 (unat n))"
    using dec_loop_ok [of n 0 "replicate 20 0"] length_dec [of n] by simp
  obtain b i where d: "dec_loop (replicate 20 0) 0 n = (b, i)" by fastforce
  have "take i b = rev (numeral_text 10 (unat n))" "i \<le> length b"
    using st length_dec [of n] by (auto simp: stored_def d)
  then show ?thesis using False by (simp add: putdec_def d put_down_emit)
qed

lemma puthex_ok: "puthex n t = emit (numeral_text 16 (unat n)) t"
proof (cases "n = 0")
  case True
  then show ?thesis by (simp add: puthex_def numeral_one digit_char_def)
next
  case False
  then have n: "0 < n" by (simp add: word_neq_0_conv)
  have lt: "unat n < 16 ^ 16" using unat_lt [of n] by simp
  let ?k = "length (numeral_text 16 (unat n))"
  have w: "hex_width n 16 = ?k" by (rule hex_width_ok [OF n lt])
  have "unat n < 16 ^ ?k" by (rule numeral_lower) simp
  then have "map (\<lambda>i. digit_char (unat n div 16 ^ i mod 16)) (rev [0..<?k]) = numeral_text 16 (unat n)"
    using nibbles_numeral [of "unat n" ?k] numeral_ne [of 16 "unat n"] by simp
  then show ?thesis using False by (simp add: puthex_def w puthex_n_emit)
qed

section \<open>The log on the console\<close>

lemma emit_serial: "tserial (emit cs t) = tserial t @ cs"
  by (induction cs arbitrary: t) (simp_all add: putc_def Let_def)

lemma emit_con: "tcon (emit cs t) = fold kconsole_putc cs (tcon t)"
  by (induction cs arbitrary: t) (simp_all add: putc_def Let_def)

text \<open>A console between two escape sequences.\<close>

definition con_idle :: "kconsole \<Rightarrow> bool" where
  "con_idle s \<longleftrightarrow> kcon_ok s \<and> (\<exists>x. shows_text s x) \<and> esc_state s = ESC_NONE"

definition defaults :: "kconsole \<Rightarrow> u32 \<times> u32" where
  "defaults s = (fg_default s, bg_default s)"

lemma text_idle:
  "con_idle s \<Longrightarrow> 0x1B \<notin> set cs \<Longrightarrow> con_idle (fold kconsole_putc cs s) \<and>
   colours (fold kconsole_putc cs s) = colours s \<and> defaults (fold kconsole_putc cs s) = defaults s"
proof (induction cs arbitrary: s)
  case (Cons c cs)
  then obtain x where s: "kcon_ok s" "shows_text s x" "esc_state s = ESC_NONE" "c \<noteq> 0x1B"
    by (auto simp: con_idle_def)
  note p = text_putc_ok [OF s]
  let ?s = "kconsole_putc c s"
  have d: "draws_only s ?s" using p by blast
  have "con_idle ?s"
    using p kcon_ok_draws [OF s(1) d] draws_only_fields [OF d] s(3) by (auto simp: con_idle_def)
  moreover have "colours ?s = colours s" "defaults ?s = defaults s"
    using draws_only_fields [OF d] by (simp_all add: colours_def defaults_def)
  ultimately show ?case using Cons.IH [of ?s] Cons.prems(2) by simp
qed simp

lemma sgr_idle:
  assumes "con_idle s" "p < 2 ^ 32"
  shows "con_idle (fold kconsole_putc ([0x1B, 0x5B] @ numeral_text 10 p @ [0x6D]) s)"
    and "colours (fold kconsole_putc ([0x1B, 0x5B] @ numeral_text 10 p @ [0x6D]) s) =
      sgr_colour (fg_default s) (bg_default s) p (colours s)"
    and "defaults (fold kconsole_putc ([0x1B, 0x5B] @ numeral_text 10 p @ [0x6D]) s) = defaults s"
proof -
  have k: "kcon_ok s" "esc_state s = ESC_NONE" using assms(1) by (simp_all add: con_idle_def)
  obtain a n where f: "length a = 8" "fold kconsole_putc ([0x1B, 0x5B] @ sgr_text [p] @ [0x6D]) s =
    set_colours (fold (sgr_colour (fg_default s) (bg_default s)) [p] (colours s))
      (s\<lparr>esc_params := a, esc_nparam := n\<rparr>)"
    using sgr_feed [OF k, of "[p]"] assms(2) by auto
  let ?c = "sgr_colour (fg_default s) (bg_default s) p (colours s)"
  have e: "fold kconsole_putc ([0x1B, 0x5B] @ numeral_text 10 p @ [0x6D]) s =
      set_colours ?c (s\<lparr>esc_params := a, esc_nparam := n\<rparr>)"
    using f(2) by simp
  show "con_idle (fold kconsole_putc ([0x1B, 0x5B] @ numeral_text 10 p @ [0x6D]) s)"
    "colours (fold kconsole_putc ([0x1B, 0x5B] @ numeral_text 10 p @ [0x6D]) s) = ?c"
    "defaults (fold kconsole_putc ([0x1B, 0x5B] @ numeral_text 10 p @ [0x6D]) s) = defaults s"
    unfolding e using f(1) assms(1)
    by (auto simp: con_idle_def kcon_ok_def geom_ok_def set_colours_def shows_text_def
        shows_cells_def pix_def colours_def defaults_def)
qed

lemma fmt_Cons: "fmt_text (p # ps) = piece_text p @ fmt_text ps" "fmt_text [] = []"
  by (simp_all add: fmt_text_def)

lemma fmt_lits: "fmt_text (map Lit cs @ ps) = cs @ fmt_text ps"
  by (induction cs) (simp_all add: fmt_text_def)

lemma render_lits: "render (map Lit cs @ ps) args = map_option (\<lambda>r. cs @ r) (render ps args)"
  by (induction cs) (simp_all add: option.map_comp o_def option.map_ident)

lemma ok_lits: "0x25 \<notin> set cs \<Longrightarrow> list_all piece_ok (map Lit cs)"
  by (induction cs) auto

lemma klog_prefix:
  assumes "0x25 \<notin> set before" "0x25 \<notin> set after" "length tag < 2 ^ 30"
  shows "printf (klog_fmt before after) [Str (Some tag)] t = Some (emit
    ([0x0D, 0x0A, 0x20, 0x20, 0x5B, 0x20] @ before @ tag @ after @ [0x20, 0x5D, 0x20]) t)"
proof -
  let ?a = "[0x0D, 0x0A, 0x20, 0x20, 0x5B, 0x20] @ before" and ?b = "after @ [0x20, 0x5D, 0x20]"
  let ?ps = "map Lit ?a @ Conv False False False 0 Text # map Lit ?b @ []"
  have "klog_fmt before after = fmt_text ?ps"
    unfolding fmt_lits fmt_Cons by (simp add: klog_fmt_def flag_text_def)
  moreover have "list_all piece_ok ?ps"
    using ok_lits [of ?a] ok_lits [of ?b] assms(1,2) by simp
  moreover have "render ?ps [Str (Some tag)] = Some (?a @ tag @ ?b)"
    unfolding render_lits render.simps by (simp add: render_lits field_def del: map_append)
  ultimately show ?thesis
    using vprintf_ok [of ?ps "[Str (Some tag)]" "?a @ tag @ ?b" t] assms(3)
    unfolding printf_def by (simp only:) simp
qed


section \<open>Properties\<close>

text \<open>
  C6: \<^verbatim>\<open>printf\<close> renders its format: for every list of directives with widths below \<open>2\<^sup>30\<close>
  written down as a format string, and arguments of the right kinds, it returns after sending
  exactly the rendered text, each conversion a field of at least its width (flags \<^verbatim>\<open>-\<close>, \<^verbatim>\<open>0\<close> and
  \<^verbatim>\<open>^\<close>), to the serial line and to the console. In the rendering of a zero-padded \<^verbatim>\<open>%X\<close> the
  zeros precede the \<^verbatim>\<open>0x\<close>, as in the code.
\<close>

theorem printf_renders:
  assumes "list_all piece_ok ps" and "list_all arg_ok args" and "render ps args = Some out"
  shows "\<exists>t'. printf (fmt_text ps) args t = Some t' \<and> tserial t' = tserial t @ out \<and>
    tcon t' = fold kconsole_putc out (tcon t)"
  using vprintf_ok [OF assms, of t] by (simp add: printf_def emit_serial emit_con)

definition idle_out :: outs where
  "idle_out = \<lparr>tserial = [], tcon = small_con\<rparr>"

theorem printf_renders_witness:
  "\<exists>t'. printf [0x61, 0x25, 0x30, 0x35, 0x64, 0x25, 0x58] [Num (- 42), Num 0x1F] idle_out = Some t' \<and>
     tserial t' = [0x61, 0x2D, 0x30, 0x30, 0x34, 0x32, 0x30, 0x78, 0x31, 0x66]"
proof -
  have d: "numeral_text 10 5 = [0x35]" "numeral_text 10 42 = [0x34, 0x32]"
    "numeral_text 16 31 = [0x31, 0x66]"
    by (simp_all add: numeral_text_def digits.simps digit_char_def)
  have rep: "replicate 2 (0x30 :: u8) = [0x30, 0x30]" by (simp add: numeral_2_eq_2)
  have neg: "(- 42 :: u64) <s 0" "nat \<bar>sint (- 42 :: u64)\<bar> = 42"
    by (simp_all add: word_sless_alt)
  let ?ps = "[Lit 0x61, Conv False True False 5 Dec, Conv False False False 0 HexP]"
  have r: "render ?ps [Num (- 42), Num 0x1F] =
      Some [0x61, 0x2D, 0x30, 0x30, 0x34, 0x32, 0x30, 0x78, 0x31, 0x66]"
    using neg by (simp add: d field_def rep)
  have "list_all piece_ok ?ps" "list_all arg_ok [Num (- 42), Num 0x1F]" by simp_all
  from printf_renders [OF this r, of idle_out] show ?thesis
    by (auto simp: fmt_text_def flag_text_def d idle_out_def)
qed

text \<open>
  The number printers write positional numerals without leading zeros: \<^verbatim>\<open>putdec\<close> and
  \<^verbatim>\<open>puthex\<close> send the numeral of the value in base 10 and 16, which reads back as the value, and
  the formatters store it in at most 20 of the 24 bytes of their buffer.
\<close>

lemma number_printers_spec:
  "putdec n t = emit (numeral_text 10 (unat n)) t \<and> puthex n t = emit (numeral_text 16 (unat n)) t \<and>
   (\<forall>b. value_of b (digits b (unat n)) = unat n) \<and>
   snd (fmt_dec (replicate 24 0) n) \<le> 20 \<and> snd (fmt_hex (replicate 24 0) n) \<le> 16"
  using putdec_ok puthex_ok digits_value fmt_dec24 [of n] fmt_hex24 [of n] length_dec [of n]
    length_hex [of n] by auto

text \<open>
  A format string that ends in the middle of a directive has no result: after text without
  a percent sign, a final \<^verbatim>\<open>%\<close>, with or without flags, makes \<^verbatim>\<open>do_vprintf\<close> step over the
  terminator and read on.
\<close>

lemma printf_cut_off:
  assumes "0x25 \<notin> set cs"
  shows "printf (cs @ 0x25 # flag_text l z m) args t = None"
  using assms
proof (induction cs arbitrary: t)
  case Nil
  have "flag_loop (flag_text l z m) False False False = ([], l, z, m)"
    by (cases l; cases z; cases m) (simp_all add: flag_text_def)
  then show ?case by (simp add: printf_def do_vprintf.simps(2) Let_def)
next
  case (Cons c cs)
  then show ?case by (simp add: printf_def do_vprintf.simps(2))
qed

text \<open>
  A success line of the log, on both devices: with a tag and a message that contain no
  escape character, \<^verbatim>\<open>klog_ok\<close> sends the line with the tag in green, and leaves the console
  between escape sequences, well-formed, and in its default colours, whatever colours were
  set before.
\<close>

lemma klog_ok_restores_colours:
  assumes "con_idle (tcon t)" and "0x1B \<notin> set tag" and "length tag < 2 ^ 30"
    and "list_all piece_ok ps" and "list_all arg_ok args" and "render ps args = Some out"
    and "0x1B \<notin> set out"
  shows "\<exists>t'. klog_ok tag (fmt_text ps) args t = Some t' \<and>
    tserial t' = tserial t @ [0x0D, 0x0A, 0x20, 0x20, 0x5B, 0x20] @ green @ tag @ plain @
      [0x20, 0x5D, 0x20] @ out \<and>
    con_idle (tcon t') \<and> colours (tcon t') = defaults (tcon t')"
proof -
  let ?line = "[0x0D, 0x0A, 0x20, 0x20, 0x5B, 0x20] @ green @ tag @ plain @ [0x20, 0x5D, 0x20] @ out"
  have "klog_ok tag (fmt_text ps) args t = Some (emit ?line t)"
    using klog_prefix [of green plain tag t] assms(3) vprintf_ok [OF assms(4-6)]
    by (simp add: klog_ok_def)
  moreover have "con_idle (tcon (emit ?line t)) \<and> colours (tcon (emit ?line t)) = defaults (tcon (emit ?line t))"
  proof -
    have n: "numeral_text 10 32 = [0x33, 0x32]" "numeral_text 10 0 = [0x30]"
      by (simp_all add: numeral_text_def digits.simps digit_char_def)
    define s1 where "s1 = fold kconsole_putc [0x0D, 0x0A, 0x20, 0x20, 0x5B, 0x20] (tcon t)"
    define s2 where "s2 = fold kconsole_putc ([0x1B, 0x5B] @ numeral_text 10 32 @ [0x6D]) s1"
    define s3 where "s3 = fold kconsole_putc tag s2"
    define s4 where "s4 = fold kconsole_putc ([0x1B, 0x5B] @ numeral_text 10 0 @ [0x6D]) s3"
    define s5 where "s5 = fold kconsole_putc ([0x20, 0x5D, 0x20] @ out) s4"
    have 1: "con_idle s1" unfolding s1_def by (rule conjunct1 [OF text_idle [OF assms(1)]]) simp
    have 2: "con_idle s2" unfolding s2_def using sgr_idle(1) [OF 1] by simp
    have 3: "con_idle s3" unfolding s3_def using text_idle [OF 2 assms(2)] by simp
    have 4: "con_idle s4" "colours s4 = defaults s4"
      unfolding s4_def using sgr_idle [OF 3, of 0] by (simp_all add: sgr_colour_def defaults_def split_beta)
    have "con_idle s5" "colours s5 = defaults s5"
      unfolding s5_def using text_idle [OF 4(1), of "[0x20, 0x5D, 0x20] @ out"] assms(7) 4(2) by simp_all
    moreover have "tcon (emit ?line t) = s5"
      unfolding emit_con s5_def s4_def s3_def s2_def s1_def n by simp
    ultimately show ?thesis by simp
  qed
  ultimately show ?thesis using emit_serial [of ?line t] by blast
qed

end
