(* ===== verification/Ps2.thy ===== *)
theory Ps2
  imports Ring KString
begin

text \<open>
  The PS/2 keyboard and mouse driver, \<^verbatim>\<open>kernel/ps2.c\<close>: scancodes to runes with the modifier
  state, runes to UTF-8 in the keyboard ring, three-byte mouse packets to text events in the
  mouse ring, and the read and write operations of the three devices. The controller is a
  parameter: \<open>inb p d\<close> is what reading port \<open>p\<close> of the device state \<open>d\<close> gives. The sequence of
  port writes of \<^verbatim>\<open>ps2_init\<close> is in the theory of the drivers that wait for a port.
\<close>

section \<open>State\<close>

record ps2 =
  kbd_ring_buf :: ring_t
  mouse_ring_buf :: ring_t
  mouse_x :: i32
  mouse_y :: i32
  mouse_buttons :: u8
  mouse_enabled :: u8
  kbd_modifiers :: u8
  e0 :: u8
  mouse_buf :: "u8 list"
  mouse_idx :: u8

abbreviation (input) KBD_MOD_SHIFT :: u8 where "KBD_MOD_SHIFT \<equiv> 0x01"
abbreviation (input) KBD_MOD_CTRL :: u8 where "KBD_MOD_CTRL \<equiv> 0x04"
abbreviation (input) KBD_MOD_ALT :: u8 where "KBD_MOD_ALT \<equiv> 0x08"
abbreviation (input) KBD_MOD_CAPS :: u8 where "KBD_MOD_CAPS \<equiv> 0x40"
abbreviation (input) KBD_BUF_LEN :: u32 where "KBD_BUF_LEN \<equiv> 1024"
abbreviation (input) MOUSE_BUF_LEN :: u32 where "MOUSE_BUF_LEN \<equiv> 256"

definition ps2_boot :: ps2 where
  "ps2_boot = \<lparr>kbd_ring_buf = ring_init (replicate 1024 0) KBD_BUF_LEN,
     mouse_ring_buf = ring_init (replicate 256 0) MOUSE_BUF_LEN, mouse_x = 0, mouse_y = 0,
     mouse_buttons = 0, mouse_enabled = 1, kbd_modifiers = 0, e0 = 0, mouse_buf = [0, 0, 0],
     mouse_idx = 0\<rparr>"

section \<open>Keyboard\<close>

text \<open>Designated initialisers; the other elements are 0.\<close>

definition table_at :: "('k \<times> 'b::zero) list \<Rightarrow> 'k \<Rightarrow> 'b" where
  "table_at tbl i = (case map_of tbl i of None \<Rightarrow> 0 | Some v \<Rightarrow> v)"

definition modifier_scancodes :: "(u8 \<times> u8) list" where
  "modifier_scancodes = [
     (0x2A, KBD_MOD_SHIFT), (0x36, KBD_MOD_SHIFT), (0x1D, KBD_MOD_CTRL), (0x9D, KBD_MOD_CTRL), (0x38, KBD_MOD_ALT), (0xB8, KBD_MOD_ALT),
     (0x3A, KBD_MOD_CAPS)]"

definition scancode_to_rune :: "(u8 \<times> u32) list" where
  "scancode_to_rune = [
     (0x02, 0x31), (0x03, 0x32), (0x04, 0x33), (0x05, 0x34), (0x06, 0x35), (0x07, 0x36),
     (0x08, 0x37), (0x09, 0x38), (0x0A, 0x39), (0x0B, 0x30), (0x0C, 0x2D), (0x0D, 0x3D),
     (0x10, 0x71), (0x11, 0x77), (0x12, 0x65), (0x13, 0x72), (0x14, 0x74), (0x15, 0x79),
     (0x16, 0x75), (0x17, 0x69), (0x18, 0x6F), (0x19, 0x70), (0x1A, 0x5B), (0x1B, 0x5D),
     (0x1E, 0x61), (0x1F, 0x73), (0x20, 0x64), (0x21, 0x66), (0x22, 0x67), (0x23, 0x68),
     (0x24, 0x6A), (0x25, 0x6B), (0x26, 0x6C), (0x27, 0x3B), (0x28, 0x27), (0x29, 0x60),
     (0x2C, 0x7A), (0x2D, 0x78), (0x2E, 0x63), (0x2F, 0x76), (0x30, 0x62), (0x31, 0x6E),
     (0x32, 0x6D), (0x33, 0x2C), (0x34, 0x2E), (0x35, 0x2F), (0x39, 0x20), (0x0E, 0x08),
     (0x0F, 0x09), (0x1C, 0x0A)]"

definition scancode_to_rune_shift :: "(u8 \<times> u32) list" where
  "scancode_to_rune_shift = [
     (0x02, 0x21), (0x03, 0x40), (0x04, 0x23), (0x05, 0x24), (0x06, 0x25), (0x07, 0x5E),
     (0x08, 0x26), (0x09, 0x2A), (0x0A, 0x28), (0x0B, 0x29), (0x0C, 0x5F), (0x0D, 0x2B),
     (0x10, 0x51), (0x11, 0x57), (0x12, 0x45), (0x13, 0x52), (0x14, 0x54), (0x15, 0x59),
     (0x16, 0x55), (0x17, 0x49), (0x18, 0x4F), (0x19, 0x50), (0x1A, 0x7B), (0x1B, 0x7D),
     (0x1E, 0x41), (0x1F, 0x53), (0x20, 0x44), (0x21, 0x46), (0x22, 0x47), (0x23, 0x48),
     (0x24, 0x4A), (0x25, 0x4B), (0x26, 0x4C), (0x27, 0x3A), (0x28, 0x22), (0x29, 0x7E),
     (0x2C, 0x5A), (0x2D, 0x58), (0x2E, 0x43), (0x2F, 0x56), (0x30, 0x42), (0x31, 0x4E),
     (0x32, 0x4D), (0x33, 0x3C), (0x34, 0x3E), (0x35, 0x3F)]"

text \<open>The bytes \<^verbatim>\<open>kbd_put_rune\<close> collects in \<^verbatim>\<open>buf\<close>.\<close>

definition rune_bytes :: "u32 \<Rightarrow> u8 list" where
  "rune_bytes rune =
     (if rune < 0x80 then [ucast rune]
      else if rune < 0x800 then
        [ucast (0xC0 OR drop_bit 6 rune), ucast (0x80 OR (rune AND 0x3F))]
      else if rune < 0x10000 then
        [ucast (0xE0 OR drop_bit 12 rune), ucast (0x80 OR (drop_bit 6 rune AND 0x3F)),
         ucast (0x80 OR (rune AND 0x3F))]
      else
        [ucast (0xF0 OR drop_bit 18 rune), ucast (0x80 OR (drop_bit 12 rune AND 0x3F)),
         ucast (0x80 OR (drop_bit 6 rune AND 0x3F)), ucast (0x80 OR (rune AND 0x3F))])"

definition kbd_put_rune :: "u32 \<Rightarrow> ps2 \<Rightarrow> ps2" where
  "kbd_put_rune rune s =
     (let buf = rune_bytes rune
      in s\<lparr>kbd_ring_buf := ring_write (kbd_ring_buf s) buf (word_of_nat (length buf))\<rparr>)"

definition is_alpha_rune :: "u32 \<Rightarrow> bool" where
  "is_alpha_rune r \<longleftrightarrow> (0x61 \<le> r \<and> r \<le> 0x7A) \<or> (0x41 \<le> r \<and> r \<le> 0x5A)"

definition set_mod :: "bool \<Rightarrow> u8 \<Rightarrow> ps2 \<Rightarrow> ps2" where
  "set_mod release m s =
     (if release then s\<lparr>kbd_modifiers := kbd_modifiers s AND NOT m\<rparr>
      else s\<lparr>kbd_modifiers := kbd_modifiers s OR m\<rparr>)"

text \<open>The rune of a key under the modifiers, 0 for none.\<close>

definition key_rune :: "u8 \<Rightarrow> u8 \<Rightarrow> u32" where
  "key_rune mods key =
     (let base = table_at scancode_to_rune key;
          shifted = table_at scancode_to_rune_shift key;
          shift = (mods AND KBD_MOD_SHIFT \<noteq> 0);
          caps = (mods AND KBD_MOD_CAPS \<noteq> 0)
      in if is_alpha_rune base then
           if shift \<noteq> caps then if shifted \<noteq> 0 then shifted else base else base
         else if shift \<and> shifted \<noteq> 0 then shifted else base)"

definition kbd_handle_scancode :: "u8 \<Rightarrow> ps2 \<Rightarrow> ps2" where
  "kbd_handle_scancode scancode s =
     (if scancode = 0xE0 then s\<lparr>e0 := 1\<rparr>
      else
        let key = scancode AND 0x7F;
            release = (scancode AND 0x80 \<noteq> 0)
        in if e0 s \<noteq> 0 then
             let s1 = s\<lparr>e0 := 0\<rparr>
             in if key = 0x1D then set_mod release KBD_MOD_CTRL s1
                else if key = 0x38 then set_mod release KBD_MOD_ALT s1
                else s1
           else if key = 0x3A then
             if \<not> release then s\<lparr>kbd_modifiers := kbd_modifiers s XOR KBD_MOD_CAPS\<rparr> else s
           else if table_at modifier_scancodes key \<noteq> 0 then
             set_mod release (table_at modifier_scancodes key) s
           else if release then s
           else
             let rune = key_rune (kbd_modifiers s) key
             in if rune \<noteq> 0 then kbd_put_rune rune s else s)"

text \<open>\<open>n\<close> more rounds of the polling loop.\<close>

fun kbd_poll :: "(u16 \<Rightarrow> 'd \<Rightarrow> u8 \<times> 'd) \<Rightarrow> nat \<Rightarrow> 'd \<Rightarrow> ps2 \<Rightarrow> 'd \<times> ps2" where
  "kbd_poll inb 0 d s = (d, s)"
| "kbd_poll inb (Suc n) d s =
     (let (st, d1) = inb 0x64 d
      in if st AND 0x01 = 0 then (d1, s)
         else if st AND 0x20 \<noteq> 0 then (d1, s)
         else let (sc, d2) = inb 0x60 d1 in kbd_poll inb n d2 (kbd_handle_scancode sc s))"

definition kbd_interrupt :: "(u16 \<Rightarrow> 'd \<Rightarrow> u8 \<times> 'd) \<Rightarrow> 'd \<Rightarrow> ps2 \<Rightarrow> 'd \<times> ps2" where
  "kbd_interrupt inb d s = kbd_poll inb 64 d s"

section \<open>Mouse\<close>

text \<open>The decimal digits of a positive value, least significant first.\<close>

function puti_digits :: "i32 \<Rightarrow> u8 list" where
  "puti_digits val = (if 0 <s val then (0x30 + ucast (val mod 10)) # puti_digits (val div 10) else [])"
  by pat_completeness auto
termination
proof (relation "measure unat", simp)
  fix val :: i32 assume "0 <s val"
  then have "val \<noteq> 0" by (auto simp: word_sless_alt)
  then show "(val div 10, val) \<in> measure unat" by (simp add: unat_div word_unat_eq_iff)
qed

declare puti_digits.simps [simp del]

definition puti :: "i32 \<Rightarrow> cstr" where
  "puti val =
     (let neg = val <s 0;
          v = (if neg then - val else val)
      in if v = 0 then [0x30] else (if neg then [0x2D] else []) @ rev (puti_digits v))"

text \<open>A movement byte with its overflow and sign bits.\<close>

definition mouse_delta :: "u8 \<Rightarrow> u8 \<Rightarrow> u8 \<Rightarrow> u8 \<Rightarrow> i32" where
  "mouse_delta flags overflow sign b =
     (if flags AND overflow \<noteq> 0 then 0
      else if flags AND sign \<noteq> 0 then scast b OR 0xFFFFFF00 else scast b)"

definition mouse_event :: "i32 \<Rightarrow> i32 \<Rightarrow> u8 \<Rightarrow> u8 list" where
  "mouse_event dx dy buttons =
     [0x6D, 0x20] @ puti dx @ [0x20] @ puti dy @ [0x20] @ puti (ucast buttons) @ [0x0A]"

definition mouse_packet :: "ps2 \<Rightarrow> ps2" where
  "mouse_packet s =
     (let f = mouse_buf s ! 0;
          dx = mouse_delta f 0x40 0x10 (mouse_buf s ! 1);
          dy = - mouse_delta f 0x80 0x20 (mouse_buf s ! 2);
          buttons = f AND 0x07
      in if mouse_enabled s \<noteq> 0 then
           let s1 = s\<lparr>mouse_x := mouse_x s + dx, mouse_y := mouse_y s + dy,
                 mouse_buttons := buttons\<rparr>;
               ev = mouse_event dx dy buttons
           in s1\<lparr>mouse_ring_buf := ring_write (mouse_ring_buf s1) ev (word_of_nat (length ev))\<rparr>
         else s)"

definition mouse_byte :: "u8 \<Rightarrow> ps2 \<Rightarrow> ps2" where
  "mouse_byte data s =
     (if mouse_idx s = 0 \<and> data AND 0x08 = 0 then s
      else
        let s1 = s\<lparr>mouse_buf := (mouse_buf s)[unat (mouse_idx s) := data],
              mouse_idx := mouse_idx s + 1\<rparr>
        in if mouse_idx s1 = 3 then
             let s2 = s1\<lparr>mouse_idx := 0\<rparr>
             in if mouse_buf s2 ! 0 AND 0x08 = 0 then s2 else mouse_packet s2
           else s1)"

fun mouse_poll :: "(u16 \<Rightarrow> 'd \<Rightarrow> u8 \<times> 'd) \<Rightarrow> nat \<Rightarrow> 'd \<Rightarrow> ps2 \<Rightarrow> 'd \<times> ps2" where
  "mouse_poll inb 0 d s = (d, s)"
| "mouse_poll inb (Suc n) d s =
     (let (st, d1) = inb 0x64 d
      in if st AND 0x01 = 0 then (d1, s)
         else if st AND 0x20 = 0 then (d1, s)
         else let (data, d2) = inb 0x60 d1 in mouse_poll inb n d2 (mouse_byte data s))"

definition mouse_interrupt :: "(u16 \<Rightarrow> 'd \<Rightarrow> u8 \<times> 'd) \<Rightarrow> 'd \<Rightarrow> ps2 \<Rightarrow> 'd \<times> ps2" where
  "mouse_interrupt inb d s = mouse_poll inb 64 d s"

section \<open>The devices\<close>

definition mouse_get_pos :: "ps2 \<Rightarrow> i32 \<times> i32" where
  "mouse_get_pos s = (mouse_x s, mouse_y s)"

text \<open>\<^verbatim>\<open>u32 n = count\<close> truncates before the comparison.\<close>

definition kbd_read :: "u64 \<Rightarrow> ps2 \<Rightarrow> i64 \<times> u8 list \<times> ps2" where
  "kbd_read count s =
     (let n = ucast count :: u32;
          n1 = (if KBD_BUF_LEN < n then KBD_BUF_LEN else n);
          (out, r) = ring_read (kbd_ring_buf s) n1
      in (word_of_nat (length out), out, s\<lparr>kbd_ring_buf := r\<rparr>))"

definition mouse_read :: "u64 \<Rightarrow> ps2 \<Rightarrow> i64 \<times> u8 list \<times> ps2" where
  "mouse_read count s =
     (let n = (if count < 256 then ucast count else MOUSE_BUF_LEN);
          (out, r) = ring_read (mouse_ring_buf s) n
      in (word_of_nat (length out), out, s\<lparr>mouse_ring_buf := r\<rparr>))"

definition mousectl_read :: "u64 \<Rightarrow> ps2 \<Rightarrow> i64 \<times> u8 list" where
  "mousectl_read count s =
     (let tmp = puti (mouse_x s) @ [0x20] @ puti (mouse_y s) @ [0x20] @ puti (ucast (mouse_buttons s)) @
            [0x0A];
          len = word_of_nat (length tmp) :: u32;
          len1 = (if count < ucast len then ucast count else len)
      in (ucast len1, take (unat len1) tmp))"

definition mousectl_write :: "u8 list \<Rightarrow> u64 \<Rightarrow> ps2 \<Rightarrow> i64 \<times> ps2" where
  "mousectl_write cmd count s =
     (count,
      if 3 \<le> count then
        if cmd ! 0 = 0x65 \<and> cmd ! 1 = 0x6E \<and> cmd ! 2 = 0x61 then s\<lparr>mouse_enabled := 1\<rparr>
        else if cmd ! 0 = 0x64 \<and> cmd ! 1 = 0x69 \<and> cmd ! 2 = 0x73 then s\<lparr>mouse_enabled := 0\<rparr>
        else s
      else s)"

end
