(* ===== verification/Ps2_Spec.thy ===== *)
theory Ps2_Spec
  imports Ps2 Digits
begin

text \<open>
  The keyboard and mouse driver against its specification: UTF-8 decoding inverts the encoder,
  the modifier bits follow the make and break events of the scancode stream, a three-byte
  packet is one mouse movement.
\<close>

section \<open>UTF-8\<close>

definition cont :: "nat \<Rightarrow> bool" where
  "cont b \<longleftrightarrow> 128 \<le> b \<and> b < 192"

fun utf8_decode :: "nat list \<Rightarrow> nat option" where
  "utf8_decode [a] = (if a < 128 then Some a else None)"
| "utf8_decode [a, b] =
     (if 192 \<le> a \<and> a < 224 \<and> cont b then Some ((a - 192) * 64 + (b - 128)) else None)"
| "utf8_decode [a, b, c] =
     (if 224 \<le> a \<and> a < 240 \<and> cont b \<and> cont c
      then Some (((a - 224) * 64 + (b - 128)) * 64 + (c - 128)) else None)"
| "utf8_decode [a, b, c, d] =
     (if 240 \<le> a \<and> a < 248 \<and> cont b \<and> cont c \<and> cont d
      then Some ((((a - 240) * 64 + (b - 128)) * 64 + (c - 128)) * 64 + (d - 128)) else None)"
| "utf8_decode _ = None"

lemma low_six: "unat (r AND 0x3F :: u32) = unat r mod 64"
proof -
  have "(0x3F :: u32) = mask 6" by (simp add: mask_eq_exp_minus_1)
  then have "r AND 0x3F = take_bit 6 r" by (simp add: take_bit_eq_mask)
  then show ?thesis by (simp add: take_bit_eq_mod unat_mod)
qed

lemma shift_six: "unat (drop_bit 6 r :: u32) = unat r div 64"
  "unat (drop_bit 12 r :: u32) = unat r div 4096" "unat (drop_bit 18 r :: u32) = unat r div 262144"
  by (simp_all add: drop_bit_eq_div unat_div)

lemma byte_cast: "unat (r :: u32) < 256 \<Longrightarrow> unat (ucast r :: u8) = unat r"
  by (simp add: unsigned_ucast_eq take_bit_nat_eq_self)

lemma cont_byte: "unat (ucast (0x80 OR (r AND 0x3F) :: u32) :: u8) = 128 + unat r mod 64"
proof -
  have "0x80 OR (r AND 0x3F) = 0x80 + (r AND 0x3F)"
    by (rule or_high [where k = 6]) (simp_all add: low_six)
  then have "unat (0x80 OR (r AND 0x3F)) = 128 + unat r mod 64"
    by (simp add: unat_add_lt low_six)
  then show ?thesis by (simp add: byte_cast)
qed

lemma lead_byte:
  fixes c x :: u32
  assumes "unat x < 2 ^ k" "take_bit k c = 0" "unat c + 2 ^ k \<le> 256"
  shows "unat (ucast (c OR x) :: u8) = unat c + unat x"
proof -
  have lt: "unat c + unat x < 256" using assms(1,3) by linarith
  then have "unat (c OR x) = unat c + unat x"
    using or_high [OF assms(1,2)] by (simp add: unat_add_lt)
  then show ?thesis using lt by (simp add: byte_cast)
qed

lemma regroup: "n div 64 * 64 + n mod 64 = (n :: nat)"
  by simp

lemma utf8_ok:
  assumes "unat rune < 0x200000"
  shows "utf8_decode (map unat (rune_bytes rune)) = Some (unat rune)"
proof -
  let ?r = "unat rune"
  consider "?r < 0x80" | "0x80 \<le> ?r" "?r < 0x800" | "0x800 \<le> ?r" "?r < 0x10000" |
    "0x10000 \<le> ?r" by linarith
  then show ?thesis
  proof cases
    case 1
    then show ?thesis by (simp add: rune_bytes_def word_less_nat_alt byte_cast)
  next
    case 2
    have "unat (ucast (0xC0 OR drop_bit 6 rune) :: u8) = 192 + ?r div 64"
      using 2 lead_byte [of "drop_bit 6 rune" 5 "0xC0"] shift_six(1) [of rune] by (simp add: take_bit_eq_mod)
    then show ?thesis
      using 2 by (simp add: rune_bytes_def word_less_nat_alt cont_byte cont_def)
  next
    case 3
    have "unat (ucast (0xE0 OR drop_bit 12 rune) :: u8) = 224 + ?r div 4096"
      using 3 lead_byte [of "drop_bit 12 rune" 4 "0xE0"] shift_six(2) [of rune] by (simp add: take_bit_eq_mod)
    moreover have "?r div 4096 * 64 + ?r div 64 mod 64 = ?r div 64" 
      using regroup [of "?r div 64"] by (simp add: div_mult2_eq [symmetric])
    ultimately show ?thesis
      using 3 by (simp add: rune_bytes_def word_less_nat_alt cont_byte cont_def shift_six)
  next
    case 4
    have "unat (ucast (0xF0 OR drop_bit 18 rune) :: u8) = 240 + ?r div 262144"
      using 4 assms lead_byte [of "drop_bit 18 rune" 3 "0xF0"] shift_six(3) [of rune] by (simp add: take_bit_eq_mod)
    moreover have "?r div 262144 * 64 + ?r div 4096 mod 64 = ?r div 4096"
      "?r div 4096 * 64 + ?r div 64 mod 64 = ?r div 64"
      using regroup [of "?r div 4096"] regroup [of "?r div 64"]
      by (simp_all add: div_mult2_eq [symmetric])
    moreover have "?r div 262144 < 8" using assms by (intro less_mult_imp_div_less) simp
    ultimately show ?thesis
      using 4 assms by (simp add: rune_bytes_def word_less_nat_alt cont_byte cont_def shift_six)
  qed
qed

section \<open>Modifiers\<close>

text \<open>The events of a scancode stream: extended or not, key, release.\<close>

fun events :: "bool \<Rightarrow> u8 list \<Rightarrow> (bool \<times> u8 \<times> bool) list" where
  "events ext [] = []"
| "events ext (b # bs) =
     (if b = 0xE0 then events True bs
      else (ext, b AND 0x7F, b AND 0x80 \<noteq> 0) # events False bs)"

text \<open>The modifier keys held, and caps lock: shift, ctrl, alt, caps.\<close>

type_synonym mods = "bool \<times> bool \<times> bool \<times> bool"

fun mods_step :: "bool \<times> u8 \<times> bool \<Rightarrow> mods \<Rightarrow> mods" where
  "mods_step (ext, key, release) (sh, ct, al, ca) =
     (if key = 0x1D then (sh, \<not> release, al, ca)
      else if key = 0x38 then (sh, ct, \<not> release, ca)
      else if \<not> ext \<and> (key = 0x2A \<or> key = 0x36) then (\<not> release, ct, al, ca)
      else if \<not> ext \<and> key = 0x3A \<and> \<not> release then (sh, ct, al, \<not> ca)
      else (sh, ct, al, ca))"

definition mods_of :: "u8 \<Rightarrow> mods" where
  "mods_of m = (bit m 0, bit m 2, bit m 3, bit m 6)"

definition mods_mask :: u8 where
  "mods_mask = 0x4D"

lemma and_bit: "m AND 0x01 \<noteq> 0 \<longleftrightarrow> bit m 0" "m AND 0x04 \<noteq> 0 \<longleftrightarrow> bit m 2"
  "m AND 0x08 \<noteq> 0 \<longleftrightarrow> bit m 3" "m AND 0x40 \<noteq> 0 \<longleftrightarrow> bit m 6" for m :: u8
proof -
  have e: "m AND push_bit n 1 \<noteq> 0 \<longleftrightarrow> bit m n" if "n < 8" for n
    using that by (metis and_exp_eq_0_iff_not_bit push_bit_of_1)
  show "m AND 0x01 \<noteq> 0 \<longleftrightarrow> bit m 0" "m AND 0x04 \<noteq> 0 \<longleftrightarrow> bit m 2"
    "m AND 0x08 \<noteq> 0 \<longleftrightarrow> bit m 3" "m AND 0x40 \<noteq> 0 \<longleftrightarrow> bit m 6"
    using e [of 0] e [of 2] e [of 3] e [of 6] by simp_all
qed

lemma mod_codes:
  "table_at modifier_scancodes key = (if key = 0x2A \<or> key = 0x36 then 0x01 else
     if key = 0x1D \<or> key = 0x9D then 0x04 else if key = 0x38 \<or> key = 0xB8 then 0x08
     else if key = 0x3A then 0x40 else 0)"
  by (simp add: table_at_def modifier_scancodes_def)

lemma put_rune_mods [simp]: "kbd_modifiers (kbd_put_rune r s) = kbd_modifiers s" "e0 (kbd_put_rune r s) = e0 s"
  by (simp_all add: kbd_put_rune_def Let_def)

lemma mods_set:
  "mods_of (m OR 0x01) = (True, snd (mods_of m))"
  "mods_of (m AND NOT 0x01) = (False, snd (mods_of m))"
  "mods_of (m OR 0x04) = (fst (mods_of m), True, snd (snd (mods_of m)))"
  "mods_of (m AND NOT 0x04) = (fst (mods_of m), False, snd (snd (mods_of m)))"
  "mods_of (m OR 0x08) = (fst (mods_of m), fst (snd (mods_of m)), True, snd (snd (snd (mods_of m))))"
  "mods_of (m AND NOT 0x08) = (fst (mods_of m), fst (snd (mods_of m)), False, snd (snd (snd (mods_of m))))"
  "mods_of (m XOR 0x40) = (fst (mods_of m), fst (snd (mods_of m)), fst (snd (snd (mods_of m))),
     \<not> snd (snd (snd (mods_of m))))"
  by (simp_all add: mods_of_def bit_simps)

lemma set_mod_fields:
  "kbd_modifiers (set_mod r x t) = (if r then kbd_modifiers t AND NOT x else kbd_modifiers t OR x)"
  "e0 (set_mod r x t) = e0 t"
  by (simp_all add: set_mod_def)

lemma set_mod_mods:
  "mods_of (kbd_modifiers (set_mod r 0x01 t)) = (\<not> r, snd (mods_of (kbd_modifiers t)))"
  "mods_of (kbd_modifiers (set_mod r 0x04 t)) =
    (fst (mods_of (kbd_modifiers t)), \<not> r, snd (snd (mods_of (kbd_modifiers t))))"
  "mods_of (kbd_modifiers (set_mod r 0x08 t)) = (fst (mods_of (kbd_modifiers t)),
    fst (snd (mods_of (kbd_modifiers t))), \<not> r, snd (snd (snd (mods_of (kbd_modifiers t)))))"
  unfolding set_mod_fields by (cases r; simp only: if_True if_False mods_set simp_thms)+

lemma key_low: "b AND 0x7F \<noteq> 0x9D" "b AND 0x7F \<noteq> 0xB8" for b :: u8
proof -
  have "\<not> bit (b AND 0x7F) 7" by (simp add: bit_and_iff)
  moreover have "bit (0x9D :: u8) 7" "bit (0xB8 :: u8) 7" by simp_all
  ultimately show "b AND 0x7F \<noteq> 0x9D" "b AND 0x7F \<noteq> 0xB8" by metis+
qed

lemma scancode_mods:
  assumes "b \<noteq> 0xE0"
  shows "mods_of (kbd_modifiers (kbd_handle_scancode b s)) =
      mods_step (e0 s \<noteq> 0, b AND 0x7F, b AND 0x80 \<noteq> 0) (mods_of (kbd_modifiers s))"
    and "e0 (kbd_handle_scancode b s) = 0"
proof -
  obtain sh ct al ca where m: "mods_of (kbd_modifiers s) = (sh, ct, al, ca)" by (metis prod_cases4)
  note set1 = set_mod_mods set_mod_fields(2)
  note k = kbd_handle_scancode_def assms m mod_codes key_low set1 mods_set Let_def
  consider "e0 s \<noteq> 0" | "e0 s = 0" "b AND 0x7F = 0x1D" | "e0 s = 0" "b AND 0x7F = 0x38" |
    "e0 s = 0" "b AND 0x7F = 0x2A \<or> b AND 0x7F = 0x36" | "e0 s = 0" "b AND 0x7F = 0x3A" |
    "e0 s = 0" "b AND 0x7F \<noteq> 0x1D" "b AND 0x7F \<noteq> 0x38" "b AND 0x7F \<noteq> 0x2A" "b AND 0x7F \<noteq> 0x36"
      "b AND 0x7F \<noteq> 0x3A" by blast
  then have "mods_of (kbd_modifiers (kbd_handle_scancode b s)) =
      mods_step (e0 s \<noteq> 0, b AND 0x7F, b AND 0x80 \<noteq> 0) (mods_of (kbd_modifiers s)) \<and>
    e0 (kbd_handle_scancode b s) = 0"
  proof cases
    case 1
    then show ?thesis by (simp add: k)
  next
    case 4
    then show ?thesis by (elim disjE) (simp_all add: k)
  qed (simp_all add: k)
  then show "mods_of (kbd_modifiers (kbd_handle_scancode b s)) =
      mods_step (e0 s \<noteq> 0, b AND 0x7F, b AND 0x80 \<noteq> 0) (mods_of (kbd_modifiers s))"
    "e0 (kbd_handle_scancode b s) = 0" by blast+
qed

lemma stream_mods:
  "mods_of (kbd_modifiers (fold kbd_handle_scancode bs s)) =
    fold mods_step (events (e0 s \<noteq> 0) bs) (mods_of (kbd_modifiers s))"
proof (induction bs arbitrary: s)
  case (Cons b bs)
  show ?case
  proof (cases "b = 0xE0")
    case True
    then have "kbd_handle_scancode b s = s\<lparr>e0 := 1\<rparr>" by (simp add: kbd_handle_scancode_def)
    then show ?thesis using True Cons.IH [of "s\<lparr>e0 := 1\<rparr>"] by simp
  next
    case False
    then show ?thesis
      using Cons.IH [of "kbd_handle_scancode b s"] scancode_mods [OF False, of s] by simp
  qed
qed simp

section \<open>Typing\<close>

lemma key_rune_letter:
  assumes "is_alpha_rune (table_at scancode_to_rune key)"
  shows "key_rune mods key = (if bit mods 0 \<noteq> bit mods 6
    then table_at scancode_to_rune key - 0x20 else table_at scancode_to_rune key)"
proof -
  have "list_all (\<lambda>(k, r). is_alpha_rune r \<longrightarrow> table_at scancode_to_rune_shift k = r - 0x20 \<and> r - 0x20 \<noteq> 0)
      scancode_to_rune"
    by (simp add: scancode_to_rune_def is_alpha_rune_def table_at_def scancode_to_rune_shift_def)
  moreover obtain r where "map_of scancode_to_rune key = Some r" "table_at scancode_to_rune key = r"
    using assms by (cases "map_of scancode_to_rune key") (auto simp: table_at_def is_alpha_rune_def)
  then have "(key, r) \<in> set scancode_to_rune" "table_at scancode_to_rune key = r"
    by (simp_all add: map_of_SomeD)
  ultimately have "table_at scancode_to_rune_shift key = table_at scancode_to_rune key - 0x20"
    "table_at scancode_to_rune key - 0x20 \<noteq> 0"
    using assms by (auto simp: list_all_iff)
  then show ?thesis using assms by (simp add: key_rune_def Let_def and_bit)
qed


section \<open>Mouse packets\<close>

lemma sint_byte8:
  fixes b :: u8
  shows "sint b = (if unat b < 128 then int (unat b) else int (unat b) - 256)"
proof -
  define n where "n = unat b"
  have n: "uint b = int n" "n < 256" using unat_lt [of b] by (simp_all add: n_def)
  have "sint b = take_bit 8 (uint b) - 2 ^ 8 * of_bool (bit (uint b) 7)"
    by (simp add: sint_uint signed_take_bit_eq_take_bit_minus)
  moreover have "bit (uint b) 7 \<longleftrightarrow> \<not> n < 128"
  proof (cases "n < 128")
    case False
    then have "n div 128 = 1" using n(2) by (intro div_nat_eqI) simp_all
    then have "int n div 128 = 1" by (metis of_nat_1 of_nat_numeral zdiv_int)
    then show ?thesis using False by (simp add: n(1) bit_iff_odd)
  qed (simp add: n(1) bit_iff_odd)
  moreover have "take_bit 8 (uint b) = int n" using n by (simp add: take_bit_int_eq_self)
  ultimately show ?thesis unfolding n_def [symmetric] by simp
qed

lemma delta_word:
  fixes b :: u8
  shows "scast b OR (0xFFFFFF00 :: i32) = word_of_int (int (unat b) - 256)"
proof -
  define B where "B = (ucast b :: u32)"
  have uB: "unat B = unat b" using unat_lt [of b] by (simp add: B_def unsigned_ucast_eq take_bit_nat_eq_self)
  have or: "0xFFFFFF00 OR B = 0xFFFFFF00 + B"
    by (rule or_high [where k = 8]) (use uB unat_lt [of b] in \<open>simp_all add: take_bit_eq_mod\<close>)
  have B: "B = word_of_int (int (unat b))" by (simp add: B_def)
  have "scast b = (word_of_int (sint b) :: u32)" by simp
  then have "scast b = (if unat b < 128 then B else 0xFFFFFF00 + B)"
    by (simp add: sint_byte8 B)
  then have "scast b OR 0xFFFFFF00 = 0xFFFFFF00 OR B"
    by (simp add: or [symmetric] or.commute or.left_commute)
  also have "\<dots> = word_of_int (int (unat b) - 256)" unfolding or by (simp add: B)
  finally show ?thesis .
qed

lemma sint_small: "- 2147483648 \<le> k \<Longrightarrow> k < 2147483648 \<Longrightarrow> sint (word_of_int k :: i32) = k"
  by (simp add: signed_of_int signed_take_bit_int_eq_self)

lemma byte_range:
  fixes b :: u8
  shows "0 \<le> int (unat b)" "int (unat b) < 256"
proof -
  have "unat b < 256" using unat_lt [of b] by simp
  then show "0 \<le> int (unat b)" "int (unat b) < 256" by linarith+
qed

lemma delta_value:
  assumes "f AND ov = 0"
  shows "sint (mouse_delta f ov sg b) =
    (if f AND sg \<noteq> 0 then int (unat b) - 256
     else if unat b < 128 then int (unat b) else int (unat b) - 256)"
proof -
  have "sint (word_of_int (int (unat b) - 256) :: i32) = int (unat b) - 256"
    using byte_range [of b] by (intro sint_small) linarith+
  moreover have "sint (scast b :: i32) = sint b"
  proof -
    have "scast b = (word_of_int (sint b) :: i32)" by simp
    moreover have "sint (word_of_int (sint b) :: i32) = sint b"
    proof (rule sint_small)
      have "- 128 \<le> sint b \<and> sint b < 256"
        using byte_range [of b] unfolding sint_byte8 [of b] by presburger
      then show "- 2147483648 \<le> sint b" "sint b < 2147483648" by linarith+
    qed
    ultimately show ?thesis by metis
  qed
  ultimately show ?thesis using assms by (simp add: mouse_delta_def delta_word sint_byte8)
qed

definition ps2_ok :: "ps2 \<Rightarrow> bool" where
  "ps2_ok s \<longleftrightarrow> wf_ring (kbd_ring_buf s) \<and> rcap (kbd_ring_buf s) = 1024 \<and>
     wf_ring (mouse_ring_buf s) \<and> rcap (mouse_ring_buf s) = 256 \<and>
     length (mouse_buf s) = 3 \<and> mouse_idx s < 3 \<and>
     (mouse_idx s \<noteq> 0 \<longrightarrow> mouse_buf s ! 0 AND 0x08 \<noteq> 0)"

lemma ps2_boot_ok: "ps2_ok ps2_boot"
  by (simp add: ps2_ok_def ps2_boot_def ring_init_def wf_ring_def)

lemma length_rune: "length (rune_bytes r) \<le> 4"
  by (simp add: rune_bytes_def)

lemma put_rune_list:
  assumes "ps2_ok s"
  shows "ring_list (kbd_ring_buf (kbd_put_rune r s)) =
      last_n 1024 (ring_list (kbd_ring_buf s) @ rune_bytes r)"
    and "ps2_ok (kbd_put_rune r s)"
proof -
  let ?n = "word_of_nat (length (rune_bytes r)) :: u32"
  have n: "unat ?n = length (rune_bytes r)" using length_rune [of r] by (intro unat_of_nat_id) simp
  note w = ring_write_refines [of "kbd_ring_buf s" ?n "rune_bytes r"]
  show "ring_list (kbd_ring_buf (kbd_put_rune r s)) =
      last_n 1024 (ring_list (kbd_ring_buf s) @ rune_bytes r)"
    "ps2_ok (kbd_put_rune r s)"
    using w assms n by (simp_all add: kbd_put_rune_def Let_def ps2_ok_def)
qed

lemma set_mod_ok: "ps2_ok (set_mod r m s) = ps2_ok s" "ps2_ok (s\<lparr>e0 := x\<rparr>) = ps2_ok s"
  "ps2_ok (s\<lparr>kbd_modifiers := y\<rparr>) = ps2_ok s"
  by (simp_all add: set_mod_def ps2_ok_def)

lemma scancode_ok: "ps2_ok s \<Longrightarrow> ps2_ok (kbd_handle_scancode b s)"
  using put_rune_list(2) by (auto simp: kbd_handle_scancode_def Let_def set_mod_ok)

lemma kbd_poll_ok: "ps2_ok s \<Longrightarrow> ps2_ok (snd (kbd_poll inb n d s))"
  by (induction n arbitrary: d s) (auto simp: split_beta scancode_ok)

lemma packet_ok:
  assumes "ps2_ok s" "length (mouse_event dx dy bt) < 2 ^ 32"
  shows "ring_list (ring_write (mouse_ring_buf s) (mouse_event dx dy bt)
      (word_of_nat (length (mouse_event dx dy bt)))) =
    last_n 256 (ring_list (mouse_ring_buf s) @ mouse_event dx dy bt)"
    and "wf_ring (ring_write (mouse_ring_buf s) (mouse_event dx dy bt)
      (word_of_nat (length (mouse_event dx dy bt))))"
    and "rcap (ring_write (mouse_ring_buf s) (mouse_event dx dy bt)
      (word_of_nat (length (mouse_event dx dy bt)))) = 256"
  using ring_write_refines [of "mouse_ring_buf s" "word_of_nat (length (mouse_event dx dy bt))"
      "mouse_event dx dy bt"] assms
  by (simp_all add: ps2_ok_def unat_of_nat_id)

lemma puti_digits_length:
  "0 < unat v \<Longrightarrow> unat v < 10 ^ k \<Longrightarrow> length (puti_digits v) \<le> k"
proof (induction k arbitrary: v)
  case (Suc k)
  show ?case
  proof (cases "0 <s v")
    case True
    have d: "unat (v div 10) = unat v div 10" by (simp add: unat_div)
    have "length (puti_digits (v div 10)) \<le> k"
    proof (cases "unat v div 10 = 0")
      case True
      then have "v div 10 = 0" by (simp add: word_unat_eq_iff d)
      then show ?thesis by (simp add: puti_digits.simps [of 0])
    next
      case False
      then show ?thesis using Suc.prems by (intro Suc.IH) (simp_all add: d)
    qed
    then show ?thesis using True by (simp add: puti_digits.simps [of v])
  qed (simp add: puti_digits.simps [of v])
qed simp

lemma puti_length: "length (puti v) \<le> 11"
proof -
  have "length (puti_digits w) \<le> 10" if "w \<noteq> 0" for w :: i32
    using that unat_lt [of w] by (intro puti_digits_length) (simp_all add: unat_gt_0)
  then have "length (puti_digits w) \<le> 11" "Suc (length (puti_digits w)) \<le> 11" if "w \<noteq> 0" for w :: i32
    using that le_trans [of "length (puti_digits w)" 10 11] by force+
  then show ?thesis by (simp add: puti_def Let_def)
qed

lemma mouse_event_length: "length (mouse_event dx dy bt) \<le> 39"
  using puti_length [of dx] puti_length [of dy] puti_length [of "ucast bt"]
  by (simp add: mouse_event_def)

lemma event_short: "length (mouse_event dx dy bt) < 2 ^ 32"
  by (rule le_less_trans [OF mouse_event_length]) simp

lemma mouse_byte_ok:
  assumes "ps2_ok s"
  shows "ps2_ok (mouse_byte b s)"
proof -
  have idx: "mouse_idx s = 0 \<or> mouse_idx s = 1 \<or> mouse_idx s = 2"
  proof -
    have "unat (mouse_idx s) < 3" using assms by (simp add: ps2_ok_def word_less_nat_alt)
    then have "unat (mouse_idx s) = 0 \<or> unat (mouse_idx s) = 1 \<or> unat (mouse_idx s) = 2" by linarith
    then show ?thesis by (simp add: word_unat_eq_iff)
  qed
  have pk: "ps2_ok (mouse_packet t)" if "ps2_ok t" for t
    using that packet_ok(2,3) [OF that event_short]
    by (simp add: mouse_packet_def Let_def ps2_ok_def)
  show ?thesis
  proof (cases "mouse_idx s = 2")
    case True
    have "ps2_ok (s\<lparr>mouse_buf := (mouse_buf s)[2 := b], mouse_idx := 0\<rparr>)"
      using assms by (simp add: ps2_ok_def)
    then show ?thesis using True pk by (simp add: mouse_byte_def Let_def)
  next
    case False
    then show ?thesis using assms idx
      by (auto simp: mouse_byte_def Let_def ps2_ok_def)
  qed
qed

lemma mouse_poll_ok: "ps2_ok s \<Longrightarrow> ps2_ok (snd (mouse_poll inb n d s))"
  by (induction n arbitrary: d s) (auto simp: split_beta mouse_byte_ok)

section \<open>Event text\<close>

lemma spos: "0 <s v \<Longrightarrow> sint v = int (unat v)" "0 <s v \<Longrightarrow> unat v < 2147483648" for v :: i32
proof -
  assume "0 <s v"
  then have p: "0 < sint v" by (simp add: word_sless_alt)
  have "sint v < 2147483648" using sint_lt [of v] by simp
  moreover have "take_bit 32 (sint v) = sint v" using p calculation by (simp add: take_bit_int_eq_self)
  then have "uint v = sint v" using uint_sint [of v] by simp
  ultimately have "int (unat v) = sint v" "int (unat v) < 2147483648" by simp_all
  then show "sint v = int (unat v)" "unat v < 2147483648" by linarith+
qed

lemma small_spos: "unat v < 2147483648 \<Longrightarrow> (0 <s v \<longleftrightarrow> 0 < unat v)" for v :: i32
proof -
  assume "unat v < 2147483648"
  then have "sint (word_of_int (int (unat v)) :: i32) = int (unat v)" by (intro sint_small) linarith+
  then have "sint v = int (unat v)" by simp
  then show ?thesis by (simp only: word_sless_alt sint_0 of_nat_0_less_iff)
qed

lemma digit_byte: "0x30 + ucast (v mod 10 :: i32) = digit_char (unat v mod 10)"
proof -
  have "unat (v mod 10) = unat v mod 10" by (simp add: unat_mod)
  then have "unat (ucast (v mod 10) :: u8) = unat (word_of_nat (unat v mod 10) :: u8)"
    by (simp add: unsigned_ucast_eq unsigned_of_nat)
  then have "(ucast (v mod 10) :: u8) = word_of_nat (unat v mod 10)" by (simp only: word_unat_eq_iff)
  then show ?thesis by (simp add: digit_char_def)
qed

lemma puti_digits_text:
  "0 <s v \<Longrightarrow> rev (puti_digits v) = numeral_text 10 (unat v)"
proof (induction v rule: puti_digits.induct)
  case (1 v)
  have d: "unat (v div 10) = unat v div 10" by (simp add: unat_div)
  have sp: "0 <s v div 10 \<longleftrightarrow> 0 < unat v div 10"
    using small_spos [of "v div 10"] spos(2) [OF 1(2)] by (simp only: d)
  show ?case
  proof (cases "unat v < 10")
    case True
    then have "\<not> 0 <s v div 10" unfolding sp by simp
    then have "puti_digits (v div 10) = []" by (simp add: puti_digits.simps [of "v div 10"])
    then show ?thesis
      using True 1(2) digit_byte [of v] digits.simps [of 10 "unat v"]
      by (simp add: puti_digits.simps [of v] numeral_text_def)
  next
    case False
    then have "0 <s v div 10" unfolding sp by simp
    then have "rev (puti_digits (v div 10)) = numeral_text 10 (unat v div 10)" using 1 d by simp
    then show ?thesis
      using False 1(2) digit_byte [of v] digits.simps [of 10 "unat v"]
      by (simp add: puti_digits.simps [of v] numeral_text_def)
  qed
qed

text \<open>The decimal text of an integer, and the text of an event.\<close>

definition int_text :: "int \<Rightarrow> u8 list" where
  "int_text k = (if k < 0 then 0x2D # numeral_text 10 (nat (- k)) else numeral_text 10 (nat k))"

lemma puti_text:
  assumes "- 2147483648 < sint v"
  shows "puti v = int_text (sint v)"
proof (cases "sint v = 0")
  case True
  then have "word_of_int (sint v) = (0 :: i32)" by simp
  then have "v = 0" by simp
  then show ?thesis
    by (simp add: puti_def int_text_def numeral_text_def digits.simps [of 10 0] digit_char_def)
next
  case nz: False
  show ?thesis
  proof (cases "sint v < 0")
    case True
    have "sint v < 2147483648" using sint_lt [of v] by simp
    have "sint (word_of_int (- sint v) :: i32) = - sint v" using assms True by (intro sint_small) linarith+
    then have n: "sint (- v) = - sint v" by simp
    then have "0 <s - v" "v <s 0" "- v \<noteq> 0" using True by (auto simp: word_sless_alt)
    then show ?thesis using True puti_digits_text [of "- v"] spos(1) [of "- v"] n
      by (simp add: puti_def int_text_def Let_def)
  next
    case False
    then have "0 <s v" "\<not> v <s 0" "v \<noteq> 0" using nz by (auto simp: word_sless_alt)
    then show ?thesis using False puti_digits_text [of v] spos(1) [of v]
      by (simp add: puti_def int_text_def Let_def)
  qed
qed

section \<open>Keys and packets\<close>

lemma letter_facts:
  assumes "is_alpha_rune (table_at scancode_to_rune key)"
  shows "key \<noteq> 0x3A" "key \<noteq> 0x60" "table_at modifier_scancodes key = 0" "key < 0x80"
    "table_at scancode_to_rune key - 0x20 \<noteq> 0" "table_at scancode_to_rune key \<noteq> 0"
    "table_at scancode_to_rune key < 0x80" "table_at scancode_to_rune key - 0x20 < 0x80"
proof -
  have "list_all (\<lambda>(k, r). is_alpha_rune r \<longrightarrow> k \<noteq> 0x3A \<and> k \<noteq> 0x60 \<and>
      table_at modifier_scancodes k = 0 \<and> k < 0x80 \<and> r - 0x20 \<noteq> 0 \<and> r \<noteq> 0 \<and> r < 0x80 \<and> r - 0x20 < 0x80)
      scancode_to_rune"
    by (simp add: scancode_to_rune_def is_alpha_rune_def mod_codes)
  moreover obtain r where r: "map_of scancode_to_rune key = Some r" "table_at scancode_to_rune key = r"
    using assms by (cases "map_of scancode_to_rune key") (auto simp: table_at_def is_alpha_rune_def)
  then have "(key, r) \<in> set scancode_to_rune" by (simp add: map_of_SomeD)
  ultimately show "key \<noteq> 0x3A" "key \<noteq> 0x60" "table_at modifier_scancodes key = 0" "key < 0x80"
    "table_at scancode_to_rune key - 0x20 \<noteq> 0" "table_at scancode_to_rune key \<noteq> 0"
    "table_at scancode_to_rune key < 0x80" "table_at scancode_to_rune key - 0x20 < 0x80"
    using assms r(2) by (auto simp: list_all_iff)
qed

lemma key_split:
  fixes key :: u8
  assumes "key < 0x80"
  shows "key AND 0x7F = key" "key AND 0x80 = 0" "(key OR 0x80) AND 0x7F = key"
    "(key OR 0x80) AND 0x80 = 0x80"
proof -
  have "(0x7F :: u8) = mask 7" by (simp add: mask_eq_exp_minus_1)
  moreover have "take_bit 7 key = key"
    using assms by (simp add: word_unat_eq_iff unsigned_take_bit_eq take_bit_nat_eq_self word_less_nat_alt)
  ultimately show k: "key AND 0x7F = key" by (simp add: take_bit_eq_mask)
  show "key AND 0x80 = 0" by (subst k [symmetric]) (simp add: and.assoc)
  show "(key OR 0x80) AND 0x7F = key" by (simp add: bit.conj_disj_distrib2 k)
  show "(key OR 0x80) AND 0x80 = 0x80" by (rule bit_eqI) (auto simp: bit_simps)
qed

lemma letter_typed:
  assumes "ps2_ok s" "e0 s = 0" "key < 0x80" "is_alpha_rune (table_at scancode_to_rune key)"
  shows "ring_list (kbd_ring_buf (kbd_handle_scancode key s)) =
      last_n 1024 (ring_list (kbd_ring_buf s) @
        [ucast (if bit (kbd_modifiers s) 0 \<noteq> bit (kbd_modifiers s) 6
                then table_at scancode_to_rune key - 0x20 else table_at scancode_to_rune key)])"
    and "kbd_handle_scancode (key OR 0x80) s = s"
proof -
  let ?r = "key_rune (kbd_modifiers s) key"
  note f = letter_facts [OF assms(4)]
  note k = key_split [OF assms(3)]
  have r: "?r = (if bit (kbd_modifiers s) 0 \<noteq> bit (kbd_modifiers s) 6
      then table_at scancode_to_rune key - 0x20 else table_at scancode_to_rune key)"
    by (rule key_rune_letter [OF assms(4)])
  have n: "?r \<noteq> 0" "?r < 0x80" unfolding r using f(5-8) by (simp_all only: split: if_split) blast+
  have "key \<noteq> 0xE0" using assms(3) by auto
  then have "kbd_handle_scancode key s = kbd_put_rune ?r s"
    using n(1) f assms(2) by (simp add: kbd_handle_scancode_def Let_def k)
  moreover have "rune_bytes ?r = [ucast ?r]" using n(2) by (simp add: rune_bytes_def)
  ultimately show "ring_list (kbd_ring_buf (kbd_handle_scancode key s)) =
      last_n 1024 (ring_list (kbd_ring_buf s) @
        [ucast (if bit (kbd_modifiers s) 0 \<noteq> bit (kbd_modifiers s) 6
                then table_at scancode_to_rune key - 0x20 else table_at scancode_to_rune key)])"
    using put_rune_list(1) [OF assms(1)] r by simp
  have "key OR 0x80 \<noteq> 0xE0"
  proof
    assume "key OR 0x80 = 0xE0"
    then have "(0xE0 AND 0x7F :: u8) = key" using k(3) by simp
    then show False using f(2) by simp
  qed
  then show "kbd_handle_scancode (key OR 0x80) s = s"
    using f assms(2) by (simp add: kbd_handle_scancode_def Let_def k)
qed

definition moved :: "bool \<Rightarrow> u8 \<Rightarrow> int" where
  "moved neg b = (if neg \<or> 128 \<le> unat b then int (unat b) - 256 else int (unat b))"

lemma int_delta:
  assumes "f AND ov = 0"
  shows "mouse_delta f ov sg b = word_of_int (moved (f AND sg \<noteq> 0) b)"
proof -
  have "word_of_int (sint (mouse_delta f ov sg b)) = mouse_delta f ov sg b" by simp
  moreover have "sint (mouse_delta f ov sg b) = moved (f AND sg \<noteq> 0) b"
    unfolding delta_value [OF assms] moved_def by simp
  ultimately show ?thesis by simp
qed

lemma moved_range: "- 256 \<le> moved neg b" "moved neg b < 128"
proof -
  have "moved neg b = int (unat b) - 256 \<or> moved neg b = int (unat b) \<and> int (unat b) < 128"
  proof (cases "neg \<or> 128 \<le> unat b")
    case False
    then have "int (unat b) < 128" "moved neg b = int (unat b)" by (linarith, simp only: moved_def if_False)
    then show ?thesis by blast
  qed (simp only: moved_def if_True simp_thms)
  then show "- 256 \<le> moved neg b" "moved neg b < 128" using byte_range [of b] by linarith+
qed

lemma moved_text:
  "puti (word_of_int (moved neg b)) = int_text (moved neg b)"
  "puti (- word_of_int (moved neg b)) = int_text (- moved neg b)"
proof -
  have s: "sint (word_of_int (moved neg b) :: i32) = moved neg b"
    "sint (word_of_int (- moved neg b) :: i32) = - moved neg b"
    using moved_range [of neg b] by (intro sint_small; linarith)+
  show "puti (word_of_int (moved neg b)) = int_text (moved neg b)"
    using puti_text [of "word_of_int (moved neg b)"] s moved_range [of neg b] by simp
  show "puti (- word_of_int (moved neg b)) = int_text (- moved neg b)"
    using puti_text [of "word_of_int (- moved neg b)"] s moved_range [of neg b] by simp
qed

lemma buttons_text: "puti (ucast (f AND 0x07 :: u8)) = [digit_char (unat (f AND 0x07))]"
proof -
  let ?b = "f AND 0x07"
  have "?b \<le> 7" by (rule word_and_le1)
  then have b: "unat ?b \<le> 7" by (simp add: word_le_nat_alt)
  have u: "unat (ucast ?b :: i32) = unat ?b"
    using unat_lt [of ?b] by (simp add: unsigned_ucast_eq take_bit_nat_eq_self)
  have "sint (word_of_int (int (unat ?b)) :: i32) = int (unat ?b)" using b by (intro sint_small) linarith+
  then have s: "sint (ucast ?b :: i32) = int (unat ?b)" by simp
  have "puti (ucast ?b) = int_text (int (unat ?b))" unfolding s [symmetric] by (rule puti_text) (use s in linarith)
  then show ?thesis using b by (simp add: int_text_def numeral_text_def digits.simps [of 10 "unat ?b"])
qed

lemma packet_moves:
  fixes f x y :: u8
  assumes "ps2_ok s" "mouse_idx s = 0" "mouse_enabled s \<noteq> 0" "f AND 0x08 \<noteq> 0" "f AND 0x40 = 0" "f AND 0x80 = 0"
  defines "dx \<equiv> moved (f AND 0x10 \<noteq> 0) x" and "dy \<equiv> - moved (f AND 0x20 \<noteq> 0) y"
  defines "t \<equiv> fold mouse_byte [f, x, y] s"
  shows "mouse_x t = mouse_x s + word_of_int dx" "mouse_y t = mouse_y s + word_of_int dy"
    "mouse_buttons t = f AND 0x07" "mouse_idx t = 0"
    "ring_list (mouse_ring_buf t) = last_n 256 (ring_list (mouse_ring_buf s) @
       [0x6D, 0x20] @ int_text dx @ [0x20] @ int_text dy @ [0x20, digit_char (unat (f AND 0x07)), 0x0A])"
proof -
  obtain a b c where buf: "mouse_buf s = [a, b, c]"
    using assms(1) by (auto simp: ps2_ok_def numeral_3_eq_3 length_Suc_conv)
  let ?s = "s\<lparr>mouse_buf := [f, x, y], mouse_idx := 0\<rparr>"
  have t: "t = mouse_packet ?s"
    using assms(2,4) by (simp add: t_def mouse_byte_def Let_def buf)
  have m: "mouse_delta f 0x40 0x10 x = word_of_int dx" "- mouse_delta f 0x80 0x20 y = word_of_int dy"
    by (simp_all add: int_delta [OF assms(5)] int_delta [OF assms(6)] dx_def dy_def)
  have ev: "mouse_event (word_of_int dx) (word_of_int dy) (f AND 0x07) =
      [0x6D, 0x20] @ int_text dx @ [0x20] @ int_text dy @ [0x20, digit_char (unat (f AND 0x07)), 0x0A]"
    by (simp add: mouse_event_def buttons_text moved_text dx_def dy_def)
  show "mouse_x t = mouse_x s + word_of_int dx" "mouse_y t = mouse_y s + word_of_int dy"
    "mouse_buttons t = f AND 0x07" "mouse_idx t = 0"
    unfolding t mouse_packet_def using assms(3) by (simp_all add: Let_def m [simplified])
  show "ring_list (mouse_ring_buf t) = last_n 256 (ring_list (mouse_ring_buf s) @
       [0x6D, 0x20] @ int_text dx @ [0x20] @ int_text dy @ [0x20, digit_char (unat (f AND 0x07)), 0x0A])"
    using packet_ok(1) [OF assms(1) event_short, of "word_of_int dx" "word_of_int dy" "f AND 0x07"] assms(3)
    unfolding t mouse_packet_def ev by (simp add: Let_def m ev)
qed

section \<open>The properties\<close>

text \<open>
  The UTF-8 encoder of the keyboard is inverted by the decoder for every rune of up to 21
  bits, and what it produces is at most four bytes.
\<close>

lemma rune_bytes_roundtrip:
  "unat rune < 0x200000 \<Longrightarrow>
   utf8_decode (map unat (rune_bytes rune)) = Some (unat rune) \<and> length (rune_bytes rune) \<le> 4"
  using utf8_ok length_rune by blast

text \<open>
  C7: after any stream of scancode bytes the modifier bits are those of the abstract keyboard
  that follows the make and break events of the stream, with extended codes taken apart; left
  and right shift share one bit, caps lock toggles on each press.
\<close>

theorem kbd_modifiers_follow_events:
  "mods_of (kbd_modifiers (fold kbd_handle_scancode bs s)) =
    fold mods_step (events (e0 s \<noteq> 0) bs) (mods_of (kbd_modifiers s))"
  by (rule stream_mods)

text \<open>
  Pressing a letter key appends one byte to the keyboard queue, the oldest byte being
  dropped when it is full: the capital letter exactly when one of shift and caps lock is on.
  Releasing the key types nothing.
\<close>

lemma kbd_letter_typed:
  assumes "ps2_ok s" "e0 s = 0" "key < 0x80" "is_alpha_rune (table_at scancode_to_rune key)"
  shows "ring_list (kbd_ring_buf (kbd_handle_scancode key s)) =
      last_n 1024 (ring_list (kbd_ring_buf s) @
        [ucast (if bit (kbd_modifiers s) 0 \<noteq> bit (kbd_modifiers s) 6
                then table_at scancode_to_rune key - 0x20 else table_at scancode_to_rune key)]) \<and>
    kbd_handle_scancode (key OR 0x80) s = s"
  using letter_typed assms by blast

text \<open>A controller that always has the byte 0x1E of the keyboard.\<close>

definition stuck_port :: "u16 \<Rightarrow> unit \<Rightarrow> u8 \<times> unit" where
  "stuck_port p d = (if p = 0x60 then 0x1E else 0x01, d)"

definition typing :: ps2 where
  "typing = ps2_boot\<lparr>kbd_modifiers := 0x01\<rparr>"

lemma typing_ok: "ps2_ok typing" "e0 typing = 0" "mouse_idx typing = 0" "mouse_enabled typing \<noteq> 0"
proof -
  show "ps2_ok typing" unfolding typing_def set_mod_ok(3) by (rule ps2_boot_ok)
qed (simp_all add: typing_def ps2_boot_def)



text \<open>
  C37: whatever the controller's ports answer, both interrupt handlers return after at most 64
  rounds with the two rings well-formed, three bytes in the packet buffer and the packet index
  inside it, and an unfinished packet starts with its sync bit.
\<close>

theorem ps2_interrupts_keep_invariant:
  "ps2_ok s \<Longrightarrow> ps2_ok (snd (kbd_interrupt inb d s)) \<and> ps2_ok (snd (mouse_interrupt inb d s))"
  unfolding kbd_interrupt_def mouse_interrupt_def by (intro conjI kbd_poll_ok mouse_poll_ok)

theorem ps2_interrupts_keep_invariant_witness:
  "ps2_ok (snd (kbd_interrupt stuck_port () typing)) \<and>
   ps2_ok (snd (mouse_interrupt stuck_port () typing))"
  by (rule ps2_interrupts_keep_invariant [OF typing_ok(1)])

end
