(* ===== verification/Blk.thy ===== *)
theory Blk
  imports Pipe
begin

text \<open>
  The block layer of \<^verbatim>\<open>kernel/blk.c\<close>: the device table, and synchronous requests. A device pointer
  is the number of its slot in the static table plus one, 0 is NULL. A request lives in the
  caller's stack frame; the frame's address is an argument. The driver below (the function
  behind \<^verbatim>\<open>ops.submit\<close>) and the interrupt that ends a \<^verbatim>\<open>hlt\<close> are functions on the whole state.
\<close>

section \<open>State\<close>

record blk_request =
  rq_lba :: u64
  rq_count :: u32
  rq_buf :: addr
  rq_write :: u8
  rq_done :: u8
  rq_status :: i32

record blk_device =
  bname :: "u8 list"
  sector_size :: u32
  bsubmit :: addr
  bpriv :: addr
  current_req :: addr

text \<open>The state of the layer extends that of the VFS and the pipes, which file systems on a device need
  as well.\<close>

record blks = vfs_pipes +
  breqs :: "addr \<Rightarrow> blk_request"
  blk_devices :: "blk_device list"
  blk_device_count :: u32

record 's blk_env =
  submit_of :: "addr \<Rightarrow> 's \<Rightarrow> addr \<Rightarrow> addr \<Rightarrow> (i32 \<times> 's) option"
  irq :: "'s \<Rightarrow> 's option"
  frame :: addr

abbreviation (input) BLK_MAX_DEVICES :: nat where "BLK_MAX_DEVICES \<equiv> 8"
abbreviation (input) BLK_NAME_LEN :: nat where "BLK_NAME_LEN \<equiv> 16"

definition no_device :: blk_device where
  "no_device = \<lparr>bname = replicate BLK_NAME_LEN 0, sector_size = 0, bsubmit = 0, bpriv = 0,
     current_req = 0\<rparr>"

definition dev_at :: "'x blks_scheme \<Rightarrow> addr \<Rightarrow> blk_device" where
  "dev_at s p = blk_devices s ! (unat p - 1)"

definition upd_dev :: "addr \<Rightarrow> (blk_device \<Rightarrow> blk_device) \<Rightarrow> 'x blks_scheme \<Rightarrow> 'x blks_scheme" where
  "upd_dev p f s = s\<lparr>blk_devices := (blk_devices s)[unat p - 1 := f (dev_at s p)]\<rparr>"

definition upd_req :: "addr \<Rightarrow> (blk_request \<Rightarrow> blk_request) \<Rightarrow> 'x blks_scheme \<Rightarrow> 'x blks_scheme" where
  "upd_req r f s = s\<lparr>breqs := (breqs s)(r := f (breqs s r))\<rparr>"

section \<open>The device table\<close>

text \<open>\<open>copy_name name i k a\<close> is the loop from index \<open>i\<close> on, with \<open>k\<close> rounds to the bound.\<close>

fun copy_name :: "cstr \<Rightarrow> nat \<Rightarrow> nat \<Rightarrow> u8 list \<Rightarrow> u8 list" where
  "copy_name name i 0 a = a"
| "copy_name name i (Suc k) a =
     (if ch name i \<noteq> 0 then copy_name name (i + 1) k (a[i := ch name i]) else a)"

definition blk_register :: "cstr \<Rightarrow> addr \<Rightarrow> u32 \<Rightarrow> addr \<Rightarrow> 'x blks_scheme \<Rightarrow> addr \<times> 'x blks_scheme" where
  "blk_register name ops sector priv s =
     (if word_of_nat BLK_MAX_DEVICES \<le> blk_device_count s then (0, s)
      else
        let i = unat (blk_device_count s);
            s1 = s\<lparr>blk_device_count := blk_device_count s + 1\<rparr>;
            p = word_of_nat (i + 1)
        in (p, upd_dev p (\<lambda>d. \<lparr>bname = copy_name name 0 (BLK_NAME_LEN - 1) (bname d),
               sector_size = sector, bsubmit = ops, bpriv = priv, current_req = 0\<rparr>) s1))"

text \<open>The comparison of the two names; running off the 16 bytes of the array has no result.\<close>

fun name_loop :: "u8 list \<Rightarrow> cstr \<Rightarrow> bool option" where
  "name_loop [] b = None"
| "name_loop (a # as) b =
     (if a = 0 \<and> ch b 0 = 0 then Some True
      else if a \<noteq> ch b 0 then Some False
      else name_loop as (tl b))"

fun get_from :: "blk_device list \<Rightarrow> cstr \<Rightarrow> addr \<Rightarrow> addr option" where
  "get_from [] name p = Some 0"
| "get_from (d # ds) name p = do {
     match \<leftarrow> name_loop (bname d) name;
     if match then Some p else get_from ds name (p + 1)
   }"

definition blk_get :: "cstr \<Rightarrow> 'x blks_scheme \<Rightarrow> addr option" where
  "blk_get name s = get_from (take (unat (blk_device_count s)) (blk_devices s)) name 1"

section \<open>Requests\<close>

text \<open>\<^verbatim>\<open>while (!req.done) hlt();\<close>\<close>

partial_function (option) blk_wait :: "('x blks_scheme \<Rightarrow> 'x blks_scheme option) \<Rightarrow> addr \<Rightarrow>
    'x blks_scheme \<Rightarrow> 'x blks_scheme option" where
  "blk_wait intr r s =
     (if rq_done (breqs s r) \<noteq> 0 then Some s else do { s1 \<leftarrow> intr s; blk_wait intr r s1 })"

definition blk_submit_sync :: "'x blks_scheme blk_env \<Rightarrow> addr \<Rightarrow> u64 \<Rightarrow> u32 \<Rightarrow> addr \<Rightarrow> u8 \<Rightarrow>
    'x blks_scheme \<Rightarrow> (i32 \<times> 'x blks_scheme) option" where
  "blk_submit_sync E dev lba cnt buf wr s =
     (if dev = 0 then Some (- 1, s)
      else do {
        let r = frame E;
        let s1 = upd_req r (\<lambda>_. \<lparr>rq_lba = lba, rq_count = cnt, rq_buf = buf, rq_write = wr,
                   rq_done = 0, rq_status = 0\<rparr>) s;
        let s2 = upd_dev dev (\<lambda>d. d\<lparr>current_req := r\<rparr>) s1;
        (rc, s3) \<leftarrow> submit_of E (bsubmit (dev_at s2 dev)) s2 dev r;
        if rc \<noteq> 0 then Some (- 1, upd_dev dev (\<lambda>d. d\<lparr>current_req := 0\<rparr>) s3)
        else do {
          s4 \<leftarrow> blk_wait (irq E) r s3;
          Some (rq_status (breqs s4 r), upd_dev dev (\<lambda>d. d\<lparr>current_req := 0\<rparr>) s4)
        }
      })"

definition blk_read :: "'x blks_scheme blk_env \<Rightarrow> addr \<Rightarrow> u64 \<Rightarrow> u32 \<Rightarrow> addr \<Rightarrow>
    'x blks_scheme \<Rightarrow> (i32 \<times> 'x blks_scheme) option" where
  "blk_read E dev lba cnt buf s = blk_submit_sync E dev lba cnt buf 0 s"

definition blk_write :: "'x blks_scheme blk_env \<Rightarrow> addr \<Rightarrow> u64 \<Rightarrow> u32 \<Rightarrow> addr \<Rightarrow>
    'x blks_scheme \<Rightarrow> (i32 \<times> 'x blks_scheme) option" where
  "blk_write E dev lba cnt buf s = blk_submit_sync E dev lba cnt buf 1 s"

definition blk_complete :: "addr \<Rightarrow> i32 \<Rightarrow> 'x blks_scheme \<Rightarrow> 'x blks_scheme" where
  "blk_complete dev status s =
     (let r = current_req (dev_at s dev)
      in if r = 0 then s else upd_req r (\<lambda>q. q\<lparr>rq_status := status, rq_done := 1\<rparr>) s)"

section \<open>The device table finds what was registered\<close>

definition blk_ok :: "'x blks_scheme \<Rightarrow> bool" where
  "blk_ok s \<longleftrightarrow> length (blk_devices s) = BLK_MAX_DEVICES \<and> unat (blk_device_count s) \<le> BLK_MAX_DEVICES \<and>
     (\<forall>i < BLK_MAX_DEVICES. length (bname (blk_devices s ! i)) = BLK_NAME_LEN \<and>
        bname (blk_devices s ! i) ! 15 = 0 \<and>
        (unat (blk_device_count s) \<le> i \<longrightarrow> bname (blk_devices s ! i) = replicate BLK_NAME_LEN 0))"

text \<open>The name a slot holds: the bytes before the first zero.\<close>

definition dev_name :: "blk_device \<Rightarrow> cstr" where
  "dev_name d = takeWhile (\<lambda>c. c \<noteq> 0) (bname d)"

lemma name_loop_eq:
  "0 \<in> set a \<Longrightarrow> 0 \<notin> set b \<Longrightarrow> name_loop a b = Some (takeWhile (\<lambda>c. c \<noteq> 0) a = b)"
proof (induction a arbitrary: b)
  case (Cons x a)
  show ?case
  proof (cases b)
    case Nil
    then show ?thesis by (simp add: ch_def)
  next
    case (Cons c b')
    then show ?thesis using Cons.IH [of b'] Cons.prems by (auto simp: ch_def)
  qed
qed simp

lemma copy_name_eq:
  "i + k \<le> 15 \<Longrightarrow> 0 \<notin> set name \<Longrightarrow> i \<le> length name \<Longrightarrow>
   copy_name name i k (take i name @ replicate (16 - i) 0) =
     take (i + k) name @ replicate (16 - length (take (i + k) name)) 0"
proof (induction k arbitrary: i)
  case (Suc k)
  show ?case
  proof (cases "i < length name")
    case True
    then have c: "ch name i = name ! i" "name ! i \<noteq> 0"
      using Suc.prems(2) by (auto simp: ch_def in_set_conv_nth)
    have "16 - i = Suc (16 - Suc i)" using Suc.prems(1) by linarith
    then have "(take i name @ replicate (16 - i) 0)[i := name ! i] =
        take (Suc i) name @ replicate (16 - Suc i) 0"
      using True by (simp add: list_update_append take_Suc_snoc)
    then show ?thesis using Suc.IH [of "i + 1"] Suc.prems True c by simp
  next
    case False
    then show ?thesis using Suc.prems by (simp add: ch_def)
  qed
qed (simp add: min_def)

lemma get_from_snoc:
  assumes "\<And>d. d \<in> set (ds @ [e]) \<Longrightarrow> 0 \<in> set (bname d)" "0 \<notin> set name"
  shows "get_from (ds @ [e]) name p = (if \<exists>d \<in> set ds. dev_name d = name then get_from ds name p
    else Some (if dev_name e = name then p + word_of_nat (length ds) else 0))"
  using assms(1)
proof (induction ds arbitrary: p)
  case Nil
  then show ?case using name_loop_eq [of "bname e" name] assms(2) by (simp add: dev_name_def)
next
  case (Cons d ds)
  then have "name_loop (bname d) name = Some (dev_name d = name)"
    using name_loop_eq [of "bname d" name] assms(2) by (simp add: dev_name_def)
  then show ?case using Cons by (simp add: add.assoc)
qed

lemma get_from_absent:
  assumes "\<And>d. d \<in> set ds \<Longrightarrow> 0 \<in> set (bname d)" "0 \<notin> set name" "\<forall>d \<in> set ds. dev_name d \<noteq> name"
  shows "get_from ds name p = Some 0"
  using assms(1,3)
proof (induction ds arbitrary: p)
  case (Cons d ds)
  then have "name_loop (bname d) name = Some (dev_name d = name)"
    using name_loop_eq [of "bname d" name] assms(2) by (simp add: dev_name_def)
  then show ?case using Cons by simp
qed simp

lemma ends_in_zero: "length a = 16 \<Longrightarrow> a ! 15 = 0 \<Longrightarrow> 0 \<in> set a"
  using nth_mem [of 15 a] by simp

lemma blk_ok_names:
  assumes "blk_ok s" "d \<in> set (blk_devices s)"
  shows "0 \<in> set (bname d)"
proof -
  obtain i where i: "i < 8" "d = blk_devices s ! i"
    using assms by (auto simp: blk_ok_def in_set_conv_nth)
  then have "length (bname d) = 16" "bname d ! 15 = 0" using assms(1) by (simp_all add: blk_ok_def)
  then show ?thesis by (rule ends_in_zero)
qed

text \<open>The names of the slots in use.\<close>

definition names_used :: "'x blks_scheme \<Rightarrow> cstr set" where
  "names_used s = dev_name ` set (take (unat (blk_device_count s)) (blk_devices s))"

text \<open>The new slot, and the table after it is taken.\<close>

definition new_device :: "cstr \<Rightarrow> addr \<Rightarrow> u32 \<Rightarrow> addr \<Rightarrow> blk_device" where
  "new_device name ops sec priv = \<lparr>bname = take 15 name @ replicate (16 - length (take 15 name)) 0,
     sector_size = sec, bsubmit = ops, bpriv = priv, current_req = 0\<rparr>"

lemma dev_name_new: "0 \<notin> set name \<Longrightarrow> dev_name (new_device name ops sec priv) = take 15 name"
  by (auto simp: dev_name_def new_device_def takeWhile_append dest: in_set_takeD)

lemma blk_register_eq:
  assumes "blk_ok s" "0 \<notin> set name" "unat (blk_device_count s) < 8"
  defines "c \<equiv> unat (blk_device_count s)"
  shows "blk_register name ops sec priv s = (word_of_nat (c + 1),
    s\<lparr>blk_device_count := blk_device_count s + 1,
      blk_devices := (blk_devices s)[c := new_device name ops sec priv]\<rparr>)"
proof -
  have "bname (blk_devices s ! c) = replicate 16 0" using assms(1,3) by (simp add: blk_ok_def c_def)
  then have "copy_name name 0 15 (bname (blk_devices s ! c)) =
      take 15 name @ replicate (16 - length (take 15 name)) 0"
    using copy_name_eq [of 0 15 name] assms(2) by simp
  moreover have "unat (word_of_nat (c + 1) :: addr) = c + 1"
    using assms(3) by (intro unat_of_nat_id) (simp add: c_def)
  then have "unat (word_of_nat (c + 1) :: addr) - 1 = c" by simp
  moreover have "\<not> 8 \<le> blk_device_count s" using assms(3) by (simp add: word_le_nat_alt)
  ultimately show ?thesis
    by (simp add: blk_register_def Let_def upd_dev_def dev_at_def new_device_def c_def [symmetric]
        del: of_nat_add of_nat_Suc)
qed

section \<open>The properties\<close>

text \<open>
  A device registered in a table that is not full gets the next slot and is found again
  under the first 15 bytes of its name; under a longer name it is not found. What was found
  before is found as before.
\<close>

lemma blk_register_get:
  assumes "blk_ok s" "0 \<notin> set name" "unat (blk_device_count s) < 8" "take 15 name \<notin> names_used s"
  shows "let (p, t) = blk_register name ops sec priv s in
    blk_ok t \<and> blk_get (take 15 name) t = Some p \<and> p \<noteq> 0 \<and>
    dev_at t p = new_device name ops sec priv \<and>
    (\<forall>n. 0 \<notin> set n \<and> n \<noteq> take 15 name \<longrightarrow> blk_get n t = blk_get n s)"
proof -
  let ?c = "unat (blk_device_count s)" and ?d = "new_device name ops sec priv"
  let ?t = "s\<lparr>blk_device_count := blk_device_count s + 1, blk_devices := (blk_devices s)[?c := ?d]\<rparr>"
  note r = blk_register_eq [OF assms(1-3), of ops sec priv]
  have len: "length (blk_devices s) = 8" using assms(1) by (simp add: blk_ok_def)
  have c1: "unat (blk_device_count s + 1) = ?c + 1"
    using assms(3) unat_add_lt [of "blk_device_count s" 1] by simp
  have p: "unat (word_of_nat (?c + 1) :: addr) = ?c + 1"
    using assms(3) by (intro unat_of_nat_id) simp
  then have p0: "(word_of_nat (?c + 1) :: addr) \<noteq> 0" by (metis Suc_eq_plus1 nat.distinct(1) unat_0)
  have nd: "length (bname ?d) = 16" "bname ?d ! 15 = 0" by (auto simp: new_device_def nth_append)
  then have z: "0 \<in> set (bname ?d)" by (rule ends_in_zero)
  have ok: "blk_ok ?t"
    using assms(1,3) c1 nd by (auto simp: blk_ok_def nth_list_update)
  have tk: "take (unat (blk_device_count ?t)) (blk_devices ?t) = take ?c (blk_devices s) @ [?d]"
    using assms(3) len by (simp add: c1 take_Suc_conv_app_nth)
  have mem: "0 \<in> set (bname d)" if "d \<in> set (take ?c (blk_devices s))" for d
    using blk_ok_names [OF assms(1)] that by (blast dest: in_set_takeD)
  then have mem': "0 \<in> set (bname d)" if "d \<in> set (take ?c (blk_devices s) @ [?d])" for d
    using that z by auto
  have snoc: "blk_get n ?t = (if n \<in> names_used s then blk_get n s
      else Some (if dev_name ?d = n then word_of_nat (?c + 1) else 0))" if "0 \<notin> set n" for n
  proof -
    have "get_from (take ?c (blk_devices s) @ [?d]) n 1 =
      (if \<exists>d \<in> set (take ?c (blk_devices s)). dev_name d = n then get_from (take ?c (blk_devices s)) n 1
       else Some (if dev_name ?d = n then 1 + word_of_nat (length (take ?c (blk_devices s))) else 0))"
      by (rule get_from_snoc [OF mem' that])
    moreover have "length (take ?c (blk_devices s)) = ?c" using assms(3) len by simp
    moreover have "(\<exists>d \<in> set (take ?c (blk_devices s)). dev_name d = n) \<longleftrightarrow> n \<in> names_used s"
      by (auto simp: names_used_def)
    ultimately show ?thesis unfolding blk_get_def tk by simp
  qed
  have abs: "blk_get n s = Some 0" if "0 \<notin> set n" "n \<notin> names_used s" for n
    unfolding blk_get_def by (rule get_from_absent [OF mem that(1)]) (use that(2) in \<open>auto simp: names_used_def\<close>)
  have t15: "0 \<notin> set (take 15 name)" using assms(2) by (auto dest: in_set_takeD)
  have "dev_at ?t (word_of_nat (?c + 1)) = ?d"
    using p assms(3) len by (simp add: dev_at_def del: of_nat_add of_nat_Suc)
  then show ?thesis
    unfolding r using ok snoc abs p0 t15 assms(4) dev_name_new [OF assms(2)]
    by (auto simp del: of_nat_add of_nat_Suc)
qed

definition zero_req :: blk_request where
  "zero_req = \<lparr>rq_lba = 0, rq_count = 0, rq_buf = 0, rq_write = 0, rq_done = 0, rq_status = 0\<rparr>"

definition boot_blks :: "kmem \<Rightarrow> blks" where
  "boot_blks k = \<lparr>vk = k,
     inodes = (\<lambda>_. \<lparr>ino = 0, imode = 0, irefcnt = 0, isb = 0, iops = 0, fops = 0, ipriv = 0\<rparr>),
     dents = (\<lambda>_. \<lparr>drefcnt = 0, dname = [], dname_len = 0, dinode = 0, dparent = 0,
       dis_mountpoint = 0, dpriv = 0\<rparr>),
     supers = (\<lambda>_. zero_super), mounts = (\<lambda>_. zero_mount), files = (\<lambda>_. zero_file),
     fstypes = (\<lambda>_. \<lparr>tname = None, tmount = 0, tunmount = 0, tnext = 0\<rparr>),
     g_fs_types = 0, g_mounts = 0, g_root_mnt = 0, g_root_dent = 0,
     g_dirs = boot_dirs, g_next_ino = 4, pipes = (\<lambda>_. new_pipe),
     breqs = (\<lambda>_. zero_req), blk_devices = replicate 8 no_device, blk_device_count = 0\<rparr>"

lemma boot_blks_ok: "blk_ok (boot_blks k)" "names_used (boot_blks k) = {}"
  "blk_device_count (boot_blks k) = 0"
  by (simp_all add: blk_ok_def boot_blks_def no_device_def names_used_def)

text \<open>\<open>n\<close> interrupts.\<close>

fun irqs :: "('s \<Rightarrow> 's option) \<Rightarrow> nat \<Rightarrow> 's \<Rightarrow> 's option" where
  "irqs f 0 s = Some s"
| "irqs f (Suc n) s = do { t \<leftarrow> f s; irqs f n t }"

lemma blk_wait_irqs:
  assumes "irqs f n s = Some t" "rq_done (breqs t r) \<noteq> 0"
    "\<And>m u. m < n \<Longrightarrow> irqs f m s = Some u \<Longrightarrow> rq_done (breqs u r) = 0"
  shows "blk_wait f r s = Some t"
  using assms
proof (induction n arbitrary: s)
  case 0
  then show ?case by (simp add: blk_wait.simps)
next
  case (Suc n)
  obtain u where u: "f s = Some u" "irqs f n u = Some t"
    using Suc.prems(1) by (cases "f s") auto
  have "rq_done (breqs s r) = 0" using Suc.prems(3) [of 0 s] by simp
  moreover have "blk_wait f r u = Some t"
  proof (rule Suc.IH [OF u(2) Suc.prems(2)])
    fix m v assume "m < n" "irqs f m u = Some v"
    then show "rq_done (breqs v r) = 0" using Suc.prems(3) [of "Suc m" v] u(1) by simp
  qed
  ultimately show ?case by (simp add: blk_wait.simps [of f r s] u(1))
qed

text \<open>The state in which the driver is called.\<close>

definition submitted :: "'x blks_scheme blk_env \<Rightarrow> addr \<Rightarrow> u64 \<Rightarrow> u32 \<Rightarrow> addr \<Rightarrow> u8 \<Rightarrow>
    'x blks_scheme \<Rightarrow> 'x blks_scheme" where
  "submitted E dev lba cnt buf wr s = upd_dev dev (\<lambda>d. d\<lparr>current_req := frame E\<rparr>)
     (upd_req (frame E) (\<lambda>_. \<lparr>rq_lba = lba, rq_count = cnt, rq_buf = buf, rq_write = wr,
        rq_done = 0, rq_status = 0\<rparr>) s)"


text \<open>A driver that only starts the device, whose first interrupt completes slot 1.\<close>

definition late_env :: "'x blks_scheme blk_env" where
  "late_env = \<lparr>submit_of = (\<lambda>_ s _ _. Some (0, s)), irq = (\<lambda>s. Some (blk_complete 1 7 s)), frame = 0x10\<rparr>"

lemma dev_at_upd [simp]:
  "unat p \<noteq> 0 \<Longrightarrow> unat p \<le> length (blk_devices s) \<Longrightarrow> dev_at (upd_dev p f s) p = f (dev_at s p)"
  by (simp add: dev_at_def upd_dev_def)

lemma dev_at_req [simp]: "dev_at (upd_req r f s) p = dev_at s p"
  by (simp add: dev_at_def upd_req_def)

lemma breqs_upd [simp]: "breqs (upd_dev p f s) = breqs s" "breqs (upd_req r g s) = (breqs s)(r := g (breqs s r))"
  by (simp_all add: upd_dev_def upd_req_def)


text \<open>
  A device has one pending request and no queue. When a second process submits a request
  to a busy device, the completion that follows reaches the second request, and the first one
  is not marked done by it nor by any later completion of that device.
\<close>

lemma blk_second_request_loses_first:
  assumes "dev \<noteq> 0" "unat dev \<le> length (blk_devices s)" "frame E1 \<noteq> frame E2" "frame E2 \<noteq> 0"
  shows "let s2 = submitted E2 dev lba2 c2 b2 w2 (submitted E1 dev lba1 c1 b1 w1 s)
    in rq_done (breqs (fold (blk_complete dev) sts s2) (frame E1)) = 0 \<and>
    (sts \<noteq> [] \<longrightarrow> rq_done (breqs (fold (blk_complete dev) sts s2) (frame E2)) = 1)"
proof -
  define s2 where "s2 = submitted E2 dev lba2 c2 b2 w2 (submitted E1 dev lba1 c1 b1 w1 s)"
  have u: "unat dev \<noteq> 0" using assms(1) by (simp add: word_unat_eq_iff)
  have len: "length (blk_devices (upd_req r f t)) = length (blk_devices t)"
    "length (blk_devices (upd_dev q g t)) = length (blk_devices t)" for r f q g and t :: "'a blks_scheme"
    by (simp_all add: upd_req_def upd_dev_def)
  have c: "current_req (dev_at s2 dev) = frame E2"
    using assms(2) u by (simp add: s2_def submitted_def len)
  have s2: "rq_done (breqs s2 (frame E1)) = 0"
    using assms(3) by (simp add: s2_def submitted_def)
  have "current_req (dev_at (fold (blk_complete dev) sts t) dev) = frame E2 \<and>
      rq_done (breqs (fold (blk_complete dev) sts t) (frame E1)) = rq_done (breqs t (frame E1)) \<and>
      (sts \<noteq> [] \<longrightarrow> rq_done (breqs (fold (blk_complete dev) sts t) (frame E2)) = 1)"
    if "current_req (dev_at t dev) = frame E2" for t :: "'a blks_scheme"
    using that
  proof (induction sts arbitrary: t)
    case (Cons x sts)
    have c: "current_req (dev_at (blk_complete dev x t) dev) = frame E2"
      using Cons.prems by (simp add: blk_complete_def Let_def)
    have d: "rq_done (breqs (blk_complete dev x t) (frame E1)) = rq_done (breqs t (frame E1))"
      "rq_done (breqs (blk_complete dev x t) (frame E2)) = 1"
      using Cons.prems assms(3,4) by (simp_all add: blk_complete_def Let_def)
    show ?case using Cons.IH [OF c] d by (cases sts) simp_all
  qed simp
  from this [OF c] s2 show ?thesis unfolding s2_def Let_def by simp
qed

lemma late_frame: "frame late_env = 0x10" "frame (late_env\<lparr>frame := 0x20\<rparr>) = 0x20"
  by (simp_all add: late_env_def)

end
