(* ===== verification/Ext2.thy ===== *)
theory Ext2
  imports Blk Paging
begin

text \<open>
  The read-only ext2 file system of \<^verbatim>\<open>kernel/ext2.c\<close>. Block buffers and the group descriptor
  table are pages of the byte memory, which the block device fills; on-disk structures are read
  there at their offsets. The objects the file system keeps behind \<^verbatim>\<open>priv\<close> pointers are records
  in typed heaps. \<open>None\<close> stands for what C leaves without a result: a division by zero, a shift by
  32 or more, a loop that does not end. What \<^verbatim>\<open>klog\<close> prints is not part of the state.
\<close>

section \<open>Structures\<close>

record ext2_priv =
  xdev :: addr
  block_size :: u32
  blocks_per_group :: u32
  inodes_per_group :: u32
  inode_size :: u32
  num_groups :: u32
  first_inode :: u32
  bgdt :: addr
  bgdt_pages :: u32

record ext2_inode =
  ei_mode :: u16
  ei_uid :: u16
  ei_size_low :: u32
  ei_atime :: u32
  ei_ctime :: u32
  ei_mtime :: u32
  ei_dtime :: u32
  ei_gid :: u16
  ei_links_count :: u16
  ei_blocks_count :: u32
  ei_flags :: u32
  ei_os1 :: u32
  ei_block :: "u32 list"
  ei_generation :: u32
  ei_file_acl :: u32
  ei_size_high :: u32
  ei_faddr :: u32
  ei_os2 :: "u8 list"

record vdirent =
  de_ino :: u64
  de_reclen :: u16
  de_type :: u8
  de_name :: cstr

record ext2s = blks +
  einodes :: "addr \<Rightarrow> ext2_inode"
  eprivs :: "addr \<Rightarrow> ext2_priv"

abbreviation (input) EXT2_SIGNATURE :: u16 where "EXT2_SIGNATURE \<equiv> 0xEF53"
abbreviation (input) EXT2_ROOT_INO :: u32 where "EXT2_ROOT_INO \<equiv> 2"

abbreviation bytes_of :: "'x vfs_scheme \<Rightarrow> mem" where
  "bytes_of s \<equiv> kbytes (vk s)"

definition set_bytes :: "mem \<Rightarrow> 'x vfs_scheme \<Rightarrow> 'x vfs_scheme" where
  "set_bytes m s = s\<lparr>vk := (vk s)\<lparr>kbytes := m\<rparr>\<rparr>"

text \<open>Unsigned division as the processor does it: division by zero does not return.\<close>

definition udiv :: "'a::len word \<Rightarrow> 'a word \<Rightarrow> 'a word option" where
  "udiv a b = (if b = 0 then None else Some (a div b))"

definition umod :: "'a::len word \<Rightarrow> 'a word \<Rightarrow> 'a word option" where
  "umod a b = (if b = 0 then None else Some (a mod b))"

definition alloc_pages :: "'x vfs_scheme \<Rightarrow> u64 \<Rightarrow> (addr \<times> 'x vfs_scheme) option" where
  "alloc_pages s n = do { (p, k) \<leftarrow> kalloc (vk s) n; Some (p, s\<lparr>vk := k\<rparr>) }"

definition free_pages_at :: "'x vfs_scheme \<Rightarrow> addr \<Rightarrow> u64 \<Rightarrow> 'x vfs_scheme option" where
  "free_pages_at s p n = do { k \<leftarrow> kfree (vk s) p n; Some (s\<lparr>vk := k\<rparr>) }"

text \<open>The object a 128-byte on-disk inode at \<open>a\<close> is copied to.\<close>

definition ld_inode :: "mem \<Rightarrow> addr \<Rightarrow> ext2_inode" where
  "ld_inode m a = \<lparr>ei_mode = ld16 m a, ei_uid = ld16 m (a + 2), ei_size_low = ld32 m (a + 4),
     ei_atime = ld32 m (a + 8), ei_ctime = ld32 m (a + 12), ei_mtime = ld32 m (a + 16),
     ei_dtime = ld32 m (a + 20), ei_gid = ld16 m (a + 24), ei_links_count = ld16 m (a + 26),
     ei_blocks_count = ld32 m (a + 28), ei_flags = ld32 m (a + 32), ei_os1 = ld32 m (a + 36),
     ei_block = map (\<lambda>i. ld32 m (a + 40 + 4 * word_of_nat i)) [0..<15],
     ei_generation = ld32 m (a + 100), ei_file_acl = ld32 m (a + 104),
     ei_size_high = ld32 m (a + 108), ei_faddr = ld32 m (a + 112),
     ei_os2 = map (\<lambda>i. m (a + 116 + word_of_nat i)) [0..<12]\<rparr>"

definition ei_size :: "ext2_inode \<Rightarrow> u64" where
  "ei_size ei = ucast (ei_size_low ei) OR push_bit 32 (ucast (ei_size_high ei))"

section \<open>Blocks and inodes\<close>

definition ext2_read_block :: "'x blks_scheme blk_env \<Rightarrow> ext2_priv \<Rightarrow> u32 \<Rightarrow> addr \<Rightarrow>
    'x blks_scheme \<Rightarrow> (i32 \<times> 'x blks_scheme) option" where
  "ext2_read_block E p blkno buf s = do {
     spb \<leftarrow> udiv (block_size p) (sector_size (dev_at s (xdev p)));
     blk_read E (xdev p) (ucast blkno * ucast spb) spb buf s
   }"

definition ext2_read_inode :: "'x blks_scheme blk_env \<Rightarrow> ext2_priv \<Rightarrow> u32 \<Rightarrow>
    'x blks_scheme \<Rightarrow> ((i32 \<times> ext2_inode option) \<times> 'x blks_scheme) option" where
  "ext2_read_inode E p n s =
     (if n = 0 then Some ((- 1, None), s)
      else do {
        grp \<leftarrow> udiv (n - 1) (inodes_per_group p);
        idx \<leftarrow> umod (n - 1) (inodes_per_group p);
        let itbl = ld32 (bytes_of s) (bgdt p + 32 * ucast grp + 8);
        let byte_off = idx * inode_size p;
        blk_off \<leftarrow> udiv byte_off (block_size p);
        off_in_blk \<leftarrow> umod byte_off (block_size p);
        (buf, s1) \<leftarrow> page_alloc1 s;
        if buf = 0 then Some ((- 1, None), s1)
        else do {
          (rc, s2) \<leftarrow> ext2_read_block E p (itbl + blk_off) buf s1;
          let dst = (if rc = 0 then Some (ld_inode (bytes_of s2) (buf + ucast off_in_blk)) else None);
          s3 \<leftarrow> page_free1 s2 buf;
          Some ((rc, dst), s3)
        }
      })"

text \<open>Entry \<open>idx\<close> of the indirect block \<open>blk\<close>, through a page taken for it. The status of the
  device is not looked at.\<close>

definition ind_entry :: "'x blks_scheme blk_env \<Rightarrow> ext2_priv \<Rightarrow> u32 \<Rightarrow> u32 \<Rightarrow>
    'x blks_scheme \<Rightarrow> (u32 \<times> 'x blks_scheme) option" where
  "ind_entry E p blk idx s = do {
     (buf, s1) \<leftarrow> page_alloc1 s;
     if buf = 0 then Some (0, s1)
     else do {
       (_, s2) \<leftarrow> ext2_read_block E p blk buf s1;
       let v = ld32 (bytes_of s2) (buf + 4 * ucast idx);
       s3 \<leftarrow> page_free1 s2 buf;
       Some (v, s3)
     }
   }"

definition block_double :: "'x blks_scheme blk_env \<Rightarrow> ext2_priv \<Rightarrow> u32 \<Rightarrow> u32 \<Rightarrow> u32 \<Rightarrow>
    'x blks_scheme \<Rightarrow> (u32 \<times> 'x blks_scheme) option" where
  "block_double E p root ptrs lbn s =
     (if root = 0 then Some (0, s)
      else do {
        i \<leftarrow> udiv lbn ptrs;
        (l1, s1) \<leftarrow> ind_entry E p root i s;
        if l1 = 0 then Some (0, s1)
        else do { j \<leftarrow> umod lbn ptrs; ind_entry E p l1 j s1 }
      })"

definition block_triple :: "'x blks_scheme blk_env \<Rightarrow> ext2_priv \<Rightarrow> u32 \<Rightarrow> u32 \<Rightarrow> u32 \<Rightarrow>
    'x blks_scheme \<Rightarrow> (u32 \<times> 'x blks_scheme) option" where
  "block_triple E p root ptrs lbn s =
     (if root = 0 then Some (0, s)
      else do {
        i \<leftarrow> udiv lbn (ptrs * ptrs);
        (l1, s1) \<leftarrow> ind_entry E p root i s;
        if l1 = 0 then Some (0, s1)
        else do {
          q \<leftarrow> udiv lbn ptrs;
          j \<leftarrow> umod q ptrs;
          (l2, s2) \<leftarrow> ind_entry E p l1 j s1;
          if l2 = 0 then Some (0, s2)
          else do { l \<leftarrow> umod lbn ptrs; ind_entry E p l2 l s2 }
        }
      })"

definition ext2_block_map :: "'x blks_scheme blk_env \<Rightarrow> ext2_priv \<Rightarrow> ext2_inode \<Rightarrow> u32 \<Rightarrow>
    'x blks_scheme \<Rightarrow> (u32 \<times> 'x blks_scheme) option" where
  "ext2_block_map E p ei lbn s =
     (let ptrs = block_size p div 4 in
      if lbn < 12 then Some (ei_block ei ! unat lbn, s)
      else let lbn1 = lbn - 12 in
        if lbn1 < ptrs then
          (if ei_block ei ! 12 = 0 then Some (0, s) else ind_entry E p (ei_block ei ! 12) lbn1 s)
        else let lbn2 = lbn1 - ptrs in
          if lbn2 < ptrs * ptrs then block_double E p (ei_block ei ! 13) ptrs lbn2 s
          else block_triple E p (ei_block ei ! 14) ptrs (lbn2 - ptrs * ptrs) s)"

definition ext2_vfs_mode :: "u16 \<Rightarrow> u32" where
  "ext2_vfs_mode m =
     (let t = m AND 0xF000;
          type = (if t = 0x8000 then VFS_S_IFREG
             else if t = 0x4000 then VFS_S_IFDIR
             else if t = 0xA000 then 0xA000
             else if t = 0x2000 then VFS_S_IFCHR
             else if t = 0x6000 then 0x6000
             else if t = 0x1000 then 0x1000
             else if t = 0xC000 then 0xC000
             else 0)
      in type OR ucast (m AND 0x0FFF))"

text \<open>\<open>ia\<close> and \<open>fa\<close> are the addresses of the two operation tables.\<close>

definition ext2_make_vfs_inode :: "addr \<Rightarrow> addr \<Rightarrow> addr \<Rightarrow> u32 \<Rightarrow> ext2_inode \<Rightarrow>
    'x ext2s_scheme \<Rightarrow> (addr \<times> 'x ext2s_scheme) option" where
  "ext2_make_vfs_inode ia fa sb n ei s = do {
     (copy, s1) \<leftarrow> page_alloc1 s;
     if copy = 0 then Some (0, s1)
     else do {
       let s2 = s1\<lparr>einodes := (einodes s1)(copy := ei)\<rparr>;
       (vino, s3) \<leftarrow> page_alloc1 s2;
       if vino = 0 then do { s4 \<leftarrow> page_free1 s3 copy; Some (0, s4) }
       else Some (vino, upd_inode vino (\<lambda>_. \<lparr>ino = ucast n, imode = ext2_vfs_mode (ei_mode ei),
              irefcnt = 1, isb = sb, iops = ia, fops = fa,
              ipriv = copy\<rparr>) s3)
     }
   }"

definition ext2_getattr :: "'x ext2s_scheme \<Rightarrow> addr \<Rightarrow> (i32 \<times> vstat \<times> 'x ext2s_scheme) option" where
  "ext2_getattr s vino =
     (let ei = einodes s (ipriv (inodes s vino))
      in Some (VFS_OK, \<lparr>st_ino = ino (inodes s vino), st_mode = imode (inodes s vino),
           st_nlink = ucast (ei_links_count ei), st_uid = ucast (ei_uid ei), st_gid = ucast (ei_gid ei),
           st_size = ei_size ei, st_blocks = ucast (ei_blocks_count ei), st_atime = ucast (ei_atime ei),
           st_mtime = ucast (ei_mtime ei), st_ctime = ucast (ei_ctime ei)\<rparr>, s))"

section \<open>Directories\<close>

text \<open>The fields of the directory entry at \<open>a\<close>.\<close>

definition d_inode :: "mem \<Rightarrow> addr \<Rightarrow> u32" where "d_inode m a = ld32 m a"
definition d_rec_len :: "mem \<Rightarrow> addr \<Rightarrow> u16" where "d_rec_len m a = ld16 m (a + 4)"
definition d_name_len :: "mem \<Rightarrow> addr \<Rightarrow> u8" where "d_name_len m a = m (a + 6)"
definition d_file_type :: "mem \<Rightarrow> addr \<Rightarrow> u8" where "d_file_type m a = m (a + 7)"

text \<open>\<open>k\<close> more rounds of the comparison of the name at \<open>a\<close> with \<open>name\<close>, from index \<open>i\<close> on.\<close>

fun name_match :: "mem \<Rightarrow> addr \<Rightarrow> cstr \<Rightarrow> nat \<Rightarrow> nat \<Rightarrow> bool" where
  "name_match m a name i 0 = True"
| "name_match m a name i (Suc k) =
     (if m (a + word_of_nat i) \<noteq> ch name i then False else name_match m a name (i + 1) k)"

text \<open>The cached block: \<open>Some\<close> the new buffer state, or \<open>None\<close> in the first component to leave the
  loop.\<close>

definition dir_block :: "'x blks_scheme blk_env \<Rightarrow> ext2_priv \<Rightarrow> ext2_inode \<Rightarrow> addr \<Rightarrow> u32 \<Rightarrow> u32 \<Rightarrow>
    'x blks_scheme \<Rightarrow> (bool \<times> 'x blks_scheme) option" where
  "dir_block E p ei buf cur_blk lbn s =
     (if lbn \<noteq> cur_blk then do {
        (phys, s1) \<leftarrow> ext2_block_map E p ei lbn s;
        if phys = 0 then Some (False, s1)
        else do { (rc, s2) \<leftarrow> ext2_read_block E p phys buf s1; Some (rc = 0, s2) }
      } else Some (True, s))"

partial_function (option) dir_search :: "'x ext2s_scheme blk_env \<Rightarrow> addr \<Rightarrow> addr \<Rightarrow> ext2_priv \<Rightarrow>
    ext2_inode \<Rightarrow> addr \<Rightarrow> addr \<Rightarrow> addr \<Rightarrow> u32 \<Rightarrow> u32 \<Rightarrow> 'x ext2s_scheme \<Rightarrow> (i32 \<times> 'x ext2s_scheme) option" where
  "dir_search E ia fa p dei dir child buf cur_blk offset s =
     (if offset < ei_size_low dei then do {
        lbn \<leftarrow> udiv offset (block_size p);
        off_blk \<leftarrow> umod offset (block_size p);
        (ok, s1) \<leftarrow> dir_block E p dei buf cur_blk lbn s;
        let m = bytes_of s1;
        let de = buf + ucast off_blk;
        if \<not> ok then Some (VFS_ENOENT, s1)
        else if d_rec_len m de < 8 then Some (VFS_ENOENT, s1)
        else if d_inode m de \<noteq> 0 \<and> ucast (d_name_len m de) = dname_len (dents s1 child) \<and>
           name_match m (de + 8) (dname (dents s1 child)) 0 (unat (d_name_len m de)) then do {
          ((rc, ei), s2) \<leftarrow> ext2_read_inode E p (d_inode m de) s1;
          if rc \<noteq> 0 then Some (- 1, s2)
          else do {
            (vino, s3) \<leftarrow> ext2_make_vfs_inode ia fa (isb (inodes s2 dir)) (d_inode m de) (the ei) s2;
            if vino = 0 then Some (VFS_ENOMEM, s3)
            else Some (VFS_OK, upd_dent child (\<lambda>d. d\<lparr>dinode := vino\<rparr>) s3)
          }
        }
        else dir_search E ia fa p dei dir child buf lbn (offset + ucast (d_rec_len m de)) s1
      } else Some (VFS_ENOENT, s))"

definition ext2_lookup :: "'x ext2s_scheme blk_env \<Rightarrow> addr \<Rightarrow> addr \<Rightarrow> 'x ext2s_scheme \<Rightarrow> addr \<Rightarrow> addr \<Rightarrow>
    (i32 \<times> 'x ext2s_scheme) option" where
  "ext2_lookup E ia fa s dir child = do {
     let dei = einodes s (ipriv (inodes s dir));
     let priv = eprivs s (sbpriv (supers s (isb (inodes s dir))));
     (buf, s1) \<leftarrow> page_alloc1 s;
     if buf = 0 then Some (VFS_ENOMEM, s1)
     else do {
       (result, s2) \<leftarrow> dir_search E ia fa priv dei dir child buf (NOT 0) 0 s1;
       s3 \<leftarrow> page_free1 s2 buf;
       Some (result, s3)
     }
   }"

section \<open>Files\<close>

definition ext2_open :: "'x ext2s_scheme \<Rightarrow> addr \<Rightarrow> addr \<Rightarrow> (i32 \<times> 'x ext2s_scheme) option" where
  "ext2_open s inode file = Some (VFS_OK, s)"

definition ext2_close :: "'x ext2s_scheme \<Rightarrow> addr \<Rightarrow> (i32 \<times> 'x ext2s_scheme) option" where
  "ext2_close s file = Some (VFS_OK, s)"

text \<open>The copy loop of \<^verbatim>\<open>ext2_read\<close> from file offset \<open>off\<close> on.\<close>

partial_function (option) read_loop :: "'x blks_scheme blk_env \<Rightarrow> ext2_priv \<Rightarrow> ext2_inode \<Rightarrow> addr \<Rightarrow>
    addr \<Rightarrow> u64 \<Rightarrow> u64 \<Rightarrow> u32 \<Rightarrow> u64 \<Rightarrow> 'x blks_scheme \<Rightarrow> (u64 \<times> 'x blks_scheme) option" where
  "read_loop E p ei out blk_buf off cnt cur_blk done s =
     (if done < cnt then do {
        q \<leftarrow> udiv (off + done) (ucast (block_size p));
        r \<leftarrow> umod (off + done) (ucast (block_size p));
        let lbn = (ucast q :: u32);
        let blk_off = (ucast r :: u32);
        let room = (ucast (block_size p - blk_off) :: u64);
        let chunk = (if cnt - done < room then cnt - done else room);
        (ok, s1) \<leftarrow> dir_block E p ei blk_buf cur_blk lbn s;
        if \<not> ok then Some (done, s1)
        else read_loop E p ei out blk_buf off cnt lbn (done + chunk)
               (set_bytes (memcpy (bytes_of s1) (out + done) (blk_buf + ucast blk_off) chunk) s1)
      } else Some (done, s))"

definition ext2_read :: "'x ext2s_scheme blk_env \<Rightarrow> 'x ext2s_scheme \<Rightarrow> addr \<Rightarrow> addr \<Rightarrow> u64 \<Rightarrow>
    (i64 \<times> 'x ext2s_scheme) option" where
  "ext2_read E s file buf cnt =
     (let inode = finode (files s file);
          ei = einodes s (ipriv (inodes s inode));
          priv = eprivs s (sbpriv (supers s (isb (inodes s inode))));
          size = ei_size ei;
          off = fpos (files s file)
      in if size \<le> off then Some (0, s)
      else do {
        let cnt1 = (if size < off + cnt then size - off else cnt);
        (blk_buf, s1) \<leftarrow> page_alloc1 s;
        if blk_buf = 0 then Some (VFS_ENOMEM, s1)
        else do {
          (done, s2) \<leftarrow> read_loop E priv ei buf blk_buf off cnt1 (NOT 0) 0 s1;
          s3 \<leftarrow> page_free1 s2 blk_buf;
          Some (done, upd_file file (\<lambda>f. f\<lparr>fpos := off + done\<rparr>) s3)
        }
      })"

partial_function (option) dir_next :: "'x ext2s_scheme blk_env \<Rightarrow> ext2_priv \<Rightarrow> ext2_inode \<Rightarrow> addr \<Rightarrow>
    addr \<Rightarrow> u32 \<Rightarrow> u32 \<Rightarrow> 'x ext2s_scheme \<Rightarrow> ((i32 \<times> vdirent option) \<times> 'x ext2s_scheme) option" where
  "dir_next E p ei file buf cur_blk offset s =
     (if offset < ei_size_low ei then do {
        lbn \<leftarrow> udiv offset (block_size p);
        off_blk \<leftarrow> umod offset (block_size p);
        (ok, s1) \<leftarrow> dir_block E p ei buf cur_blk lbn s;
        let m = bytes_of s1;
        let de = buf + ucast off_blk;
        if \<not> ok then Some ((VFS_ENOENT, None), s1)
        else if d_rec_len m de < 8 then Some ((VFS_ENOENT, None), s1)
        else
          let offset1 = offset + ucast (d_rec_len m de) in
          if d_inode m de = 0 then dir_next E p ei file buf lbn offset1 s1
          else Some ((VFS_OK, Some \<lparr>de_ino = ucast (d_inode m de), de_reclen = 272,
                 de_type = d_file_type m de,
                 de_name = map (\<lambda>i. m (de + 8 + word_of_nat i)) [0..<unat (d_name_len m de)]\<rparr>),
               upd_file file (\<lambda>f. f\<lparr>fpos := ucast offset1\<rparr>) s1)
      } else Some ((VFS_ENOENT, None), s))"

definition ext2_readdir :: "'x ext2s_scheme blk_env \<Rightarrow> 'x ext2s_scheme \<Rightarrow> addr \<Rightarrow>
    ((i32 \<times> vdirent option) \<times> 'x ext2s_scheme) option" where
  "ext2_readdir E s file =
     (let inode = finode (files s file);
          ei = einodes s (ipriv (inodes s inode));
          priv = eprivs s (sbpriv (supers s (isb (inodes s inode))));
          pos = (ucast (fpos (files s file)) :: u32)
      in if ei_size_low ei \<le> pos then Some ((VFS_ENOENT, None), s)
      else do {
        (buf, s1) \<leftarrow> page_alloc1 s;
        if buf = 0 then Some ((VFS_ENOMEM, None), s1)
        else do {
          (r, s2) \<leftarrow> dir_next E priv ei file buf (NOT 0) pos s1;
          s3 \<leftarrow> page_free1 s2 buf;
          Some (r, s3)
        }
      })"

definition no_iops :: "'s viops" where
  "no_iops = \<lparr>op_lookup = None, op_create = None, op_mkdir = None, op_unlink = None, op_getattr = None\<rparr>"

definition no_fops :: "'s vfops" where
  "no_fops = \<lparr>op_open = None, op_close = None, op_read = None, op_write = None, op_llseek = None\<rparr>"

definition ext2_inode_ops :: "'x ext2s_scheme blk_env \<Rightarrow> addr \<Rightarrow> addr \<Rightarrow> 'x ext2s_scheme viops" where
  "ext2_inode_ops E ia fa = no_iops\<lparr>op_lookup := Some (ext2_lookup E ia fa), op_getattr := Some ext2_getattr\<rparr>"

definition ext2_file_ops :: "'x ext2s_scheme blk_env \<Rightarrow> 'x ext2s_scheme vfops" where
  "ext2_file_ops E = no_fops\<lparr>op_open := Some ext2_open, op_close := Some ext2_close,
     op_read := Some (ext2_read E)\<rparr>"

section \<open>Mounting\<close>

text \<open>The private state as the superblock at \<open>raw\<close> describes it, without the group table.\<close>

definition read_super :: "mem \<Rightarrow> addr \<Rightarrow> addr \<Rightarrow> ext2_priv option" where
  "read_super m raw dev =
     (let logbs = ld32 m (raw + 24);
          per_group = ld32 m (raw + 32);
          dynamic = 1 \<le> ld32 m (raw + 76)
      in if 32 \<le> logbs then None
      else do {
        groups \<leftarrow> udiv (ld32 m (raw + 4) + per_group - 1) per_group;
        Some \<lparr>xdev = dev, block_size = push_bit (unat logbs) 1024, blocks_per_group = per_group,
          inodes_per_group = ld32 m (raw + 40),
          inode_size = (if dynamic then ucast (ld16 m (raw + 88)) else 128),
          num_groups = groups,
          first_inode = (if dynamic then ld32 m (raw + 84) else 11), bgdt = 0, bgdt_pages = 0\<rparr>
      })"

text \<open>The loop over the blocks of the group table, \<open>k\<close> rounds from block \<open>i\<close> on. False when
  no page is left.\<close>

fun load_bgdt :: "'x blks_scheme blk_env \<Rightarrow> ext2_priv \<Rightarrow> u32 \<Rightarrow> u32 \<Rightarrow> u32 \<Rightarrow> nat \<Rightarrow> 'x blks_scheme \<Rightarrow>
    (bool \<times> 'x blks_scheme) option" where
  "load_bgdt E p first bytes i 0 s = Some (True, s)"
| "load_bgdt E p first bytes i (Suc k) s = do {
     (tmp, s1) \<leftarrow> page_alloc1 s;
     if tmp = 0 then Some (False, s1)
     else do {
       (_, s2) \<leftarrow> ext2_read_block E p (first + i) tmp s1;
       let written = (ucast i * ucast (block_size p) :: u64);
       let copy0 = (ucast (block_size p) :: u64);
       let copy = (if ucast bytes < written + copy0 then ucast bytes - written else copy0);
       let s3 = set_bytes (memcpy (bytes_of s2) (bgdt p + written) tmp copy) s2;
       s4 \<leftarrow> page_free1 s3 tmp;
       load_bgdt E p first bytes (i + 1) k s4
     }
   }"

definition ext2_mount_root :: "'x ext2s_scheme blk_env \<Rightarrow> addr \<Rightarrow> addr \<Rightarrow> addr \<Rightarrow> addr \<Rightarrow> ext2_priv \<Rightarrow>
    'x ext2s_scheme \<Rightarrow> (i32 \<times> 'x ext2s_scheme) option" where
  "ext2_mount_root E ia fa sb priv p s = do {
     let undo = (\<lambda>t rc. do {
           t1 \<leftarrow> free_pages_at t (bgdt p) (ucast (bgdt_pages p));
           t2 \<leftarrow> page_free1 t1 priv;
           Some (rc, t2)
         });
     ((rc, ei), s1) \<leftarrow> ext2_read_inode E p EXT2_ROOT_INO s;
     if rc \<noteq> 0 then undo s1 (- 1)
     else do {
       (vino, s2) \<leftarrow> ext2_make_vfs_inode ia fa sb EXT2_ROOT_INO (the ei) s1;
       if vino = 0 then undo s2 VFS_ENOMEM
       else do {
         (dent, s3) \<leftarrow> page_alloc1 s2;
         if dent = 0 then do {
           s4 \<leftarrow> page_free1 s3 (ipriv (inodes s3 vino));
           s5 \<leftarrow> page_free1 s4 vino;
           undo s5 VFS_ENOMEM
         }
         else Some (VFS_OK, upd_super sb (\<lambda>b. b\<lparr>sbroot := dent\<rparr>)
                (upd_dent dent (\<lambda>_. \<lparr>drefcnt = 1, dname = [slash], dname_len = 1, dinode = vino,
                   dparent = 0, dis_mountpoint = 0, dpriv = 0\<rparr>) s3))
       }
     }
   }"

definition ext2_mount_fs :: "'x ext2s_scheme blk_env \<Rightarrow> addr \<Rightarrow> addr \<Rightarrow> 'x ext2s_scheme \<Rightarrow> addr \<Rightarrow> addr \<Rightarrow>
    cstr option \<Rightarrow> (i32 \<times> 'x ext2s_scheme) option" where
  "ext2_mount_fs E ia fa s sb dev opts =
     (if dev = 0 then Some (- 1, s)
      else do {
        lba \<leftarrow> udiv 1024 (sector_size (dev_at s dev));
        let sects = (if lba = 0 then 1 else lba);
        (raw, s1) \<leftarrow> page_alloc1 s;
        if raw = 0 then Some (VFS_ENOMEM, s1)
        else do {
          (rc, s2) \<leftarrow> blk_read E dev (ucast lba) sects raw s1;
          if rc \<noteq> 0 then do { s3 \<leftarrow> page_free1 s2 raw; Some (- 1, s3) }
          else if ld16 (bytes_of s2) (raw + 56) \<noteq> EXT2_SIGNATURE then
            do { s3 \<leftarrow> page_free1 s2 raw; Some (- 1, s3) }
          else do {
            (priv, s3) \<leftarrow> page_alloc1 s2;
            if priv = 0 then do { s4 \<leftarrow> page_free1 s3 raw; Some (VFS_ENOMEM, s4) }
            else do {
              p \<leftarrow> read_super (bytes_of s3) raw dev;
              let first = (if block_size p = 1024 then 2 else 1 :: u32);
              let bytes = num_groups p * 32;
              let pages0 = (bytes + 4096 - 1) div 4096;
              let pages = (if pages0 = 0 then 1 else pages0);
              (tbl, s4) \<leftarrow> alloc_pages s3 (ucast pages);
              if tbl = 0 then
                do { s5 \<leftarrow> page_free1 s4 raw; s6 \<leftarrow> page_free1 s5 priv; Some (VFS_ENOMEM, s6) }
              else do {
                let p1 = p\<lparr>bgdt := tbl, bgdt_pages := pages\<rparr>;
                let s5 = set_bytes (memset (bytes_of s4) tbl 0 (ucast pages * 4096))
                           (s4\<lparr>eprivs := (eprivs s4)(priv := p1)\<rparr>);
                blks \<leftarrow> udiv (bytes + block_size p - 1) (block_size p);
                (ok, s6) \<leftarrow> load_bgdt E p1 first bytes 0 (unat blks) s5;
                if \<not> ok then do {
                  s7 \<leftarrow> free_pages_at s6 tbl (ucast pages);
                  s8 \<leftarrow> page_free1 s7 raw;
                  s9 \<leftarrow> page_free1 s8 priv;
                  Some (VFS_ENOMEM, s9)
                }
                else do {
                  s7 \<leftarrow> page_free1 s6 raw;
                  ext2_mount_root E ia fa sb priv p1 (upd_super sb (\<lambda>b. b\<lparr>sbpriv := priv\<rparr>) s7)
                }
              }
            }
          }
        }
      })"

definition ext2_unmount :: "'x ext2s_scheme \<Rightarrow> addr \<Rightarrow> 'x ext2s_scheme option" where
  "ext2_unmount s sb =
     (if sb = 0 \<or> sbpriv (supers s sb) = 0 then Some s
      else do {
        let priv = sbpriv (supers s sb);
        s1 \<leftarrow> free_pages_at s (bgdt (eprivs s priv)) (ucast (bgdt_pages (eprivs s priv)));
        s2 \<leftarrow> page_free1 s1 priv;
        Some (upd_super sb (\<lambda>b. b\<lparr>sbpriv := 0\<rparr>) s2)
      })"

text \<open>\<open>ta\<close> is the address of the static type object, \<open>ma\<close> and \<open>ua\<close> those of the two functions.\<close>

definition ext2_fs_type :: "addr \<Rightarrow> addr \<Rightarrow> vfstype" where
  "ext2_fs_type ma ua = \<lparr>tname = Some [101, 120, 116, 50], tmount = ma, tunmount = ua, tnext = 0\<rparr>"

definition ext2_init :: "addr \<Rightarrow> 'x vfs_scheme \<Rightarrow> (i32 \<times> 'x vfs_scheme) option" where
  "ext2_init ta s = vfs_register_fs ta s"

end
