(* ===== verification/Ext2_Spec.thy ===== *)
theory Ext2_Spec
  imports Ext2
begin

text \<open>
  The ext2 file system over a device that answers from a disk image: the block map follows the
  pointer tree of the image, a read delivers the bytes of the file up to the first hole, and
  neither keeps a page. The last section has the directory operations.
\<close>

section \<open>Pages of the allocator\<close>

text \<open>A page is taken, its bytes and nothing else of the memory change, and it is given back.\<close>

definition borrowed :: "nat multiset \<Rightarrow> 'x vfs_scheme \<Rightarrow> addr \<Rightarrow> kmem \<Rightarrow> nat multiset \<Rightarrow> bool" where
  "borrowed F s b k F' \<longleftrightarrow> b \<noteq> 0 \<and> pg_aligned b \<and> buddy_ok k F' \<and> F = F' + {# page_of b #} \<and>
     page_of b \<notin># F' \<and> once F \<and> pg_frame F (bytes_of s) (kbytes k)"

lemma borrow_page:
  assumes "buddy_ok (vk s) F" "F \<noteq> {#}"
  shows "\<exists>b k F'. page_alloc1 s = Some (b, s\<lparr>vk := k\<rparr>) \<and> borrowed F s b k F'"
proof -
  obtain b k F' where b: "kalloc (vk s) 1 = Some (b, k)" "b \<noteq> 0" "pg_aligned b" "buddy_ok k F'"
    "F = F' + {# page_of b #}" "pg_frame F (bytes_of s) (kbytes k)"
    using kalloc_page [OF assms] by blast
  have once: "once (F' + {# page_of b #})"
    using assms(1) b(5) by (auto simp: buddy_ok_def buddy_rel_def)
  then have "page_of b \<notin># F'" using once_disjoint [of F' "{# page_of b #}"] by auto
  then show ?thesis using b once by (auto simp: borrowed_def page_alloc1_def)
qed

lemma borrowed_write:
  assumes "borrowed F s b k F'" "buddy_ok k1 F'" "pg_frame {# page_of b #} (kbytes k1) m"
  shows "buddy_ok (k1\<lparr>kbytes := m\<rparr>) F'"
  by (rule buddy_ok_frame [OF assms(2,3)]) (use assms(1) in \<open>auto simp: borrowed_def\<close>)

lemma borrowed_return:
  assumes "borrowed F s b k F'" "buddy_ok k1 F'" "pg_frame F m (kbytes k1)"
  shows "\<exists>k2. kfree k1 b 1 = Some k2 \<and> buddy_ok k2 F \<and> pg_frame F m (kbytes k2)"
proof -
  have b: "b \<noteq> 0" "pg_aligned b" "F = F' + {# page_of b #}" "once F"
    using assms(1) unfolding borrowed_def by blast+
  obtain k2 where "kfree k1 b 1 = Some k2" "buddy_ok k2 F" "pg_frame F (kbytes k1) (kbytes k2)"
    using kfree_page [OF assms(2), of b] b by auto
  then show ?thesis using pg_frame_trans [OF assms(3)] by blast
qed

section \<open>A device that answers from an image\<close>

type_synonym image = "nat \<Rightarrow> u8"

definition disk_read :: "image \<Rightarrow> nat \<Rightarrow> nat \<Rightarrow> addr \<Rightarrow> mem \<Rightarrow> mem" where
  "disk_read img pos n buf m = (\<lambda>a. if unat (a - buf) < n then img (pos + unat (a - buf)) else m a)"

text \<open>The driver completes a read of the pending request before it returns.\<close>

definition answer :: "image \<Rightarrow> 'x blks_scheme \<Rightarrow> addr \<Rightarrow> addr \<Rightarrow> (i32 \<times> 'x blks_scheme) option" where
  "answer img s dev r =
     (let q = breqs s r; ss = unat (sector_size (dev_at s dev))
      in Some (0, blk_complete dev 0 (set_bytes (disk_read img (unat (rq_lba q) * ss)
           (unat (rq_count q) * ss) (rq_buf q) (bytes_of s)) s)))"

definition image_disk :: "'x blks_scheme blk_env \<Rightarrow> image \<Rightarrow> addr \<Rightarrow> bool" where
  "image_disk E img drv \<longleftrightarrow> frame E \<noteq> 0 \<and>
     (\<forall>s dev. rq_write (breqs s (frame E)) = 0 \<longrightarrow> current_req (dev_at s dev) = frame E \<longrightarrow>
        submit_of E drv s dev (frame E) = answer img s dev (frame E))"

text \<open>Only the allocator and the request objects differ.\<close>

definition io_same :: "'x blks_scheme \<Rightarrow> 'x blks_scheme \<Rightarrow> bool" where
  "io_same s t \<longleftrightarrow> (\<exists>k q. t = s\<lparr>vk := k, breqs := q\<rparr>)"

lemma io_sameI: "io_same s (s\<lparr>vk := k, breqs := q\<rparr>)"
  by (auto simp: io_same_def)

lemma io_same_refl [simp]: "io_same s s"
  by (auto simp: io_same_def intro!: exI [of _ "vk s"] exI [of _ "breqs s"])

lemma io_same_vk [simp]: "io_same s (s\<lparr>vk := k\<rparr>)"
  by (auto simp: io_same_def intro!: exI [of _ k] exI [of _ "breqs s"])

lemma io_same_bytes [simp]: "io_same s (set_bytes m s)"
  by (simp add: set_bytes_def)

lemma io_same_trans: "io_same a b \<Longrightarrow> io_same b c \<Longrightarrow> io_same a c"
proof -
  assume "io_same a b" "io_same b c"
  then obtain k q l r where "b = a\<lparr>vk := k, breqs := q\<rparr>" "c = b\<lparr>vk := l, breqs := r\<rparr>"
    unfolding io_same_def by blast
  then have "c = a\<lparr>vk := l, breqs := r\<rparr>" by simp
  then show "io_same a c" unfolding io_same_def by blast
qed

lemma io_same_dev: "io_same s t \<Longrightarrow> blk_devices t = blk_devices s"
  "io_same s t \<Longrightarrow> dev_at t p = dev_at s p"
  by (auto simp: io_same_def dev_at_def)

text \<open>A registered device without a pending request that answers from an image, and what a read from it does.\<close>

definition disk_ready :: "'x blks_scheme blk_env \<Rightarrow> image \<Rightarrow> addr \<Rightarrow> 'x blks_scheme \<Rightarrow> bool" where
  "disk_ready E img dev s \<longleftrightarrow> dev \<noteq> 0 \<and> unat dev \<le> length (blk_devices s) \<and>
     current_req (dev_at s dev) = 0 \<and> image_disk E img (bsubmit (dev_at s dev)) \<and> sector_size (dev_at s dev) \<noteq> 0"

lemma blk_read_ok:
  assumes "disk_ready E img dev s"
  shows "\<exists>t. blk_read E dev lba n buf s = Some (0, t) \<and> io_same s t \<and>
    vk t = (vk s)\<lparr>kbytes := disk_read img (unat lba * unat (sector_size (dev_at s dev)))
      (unat n * unat (sector_size (dev_at s dev))) buf (bytes_of s)\<rparr>"
proof -
  let ?r = "frame E" and ?ss = "sector_size (dev_at s dev)"
  let ?img = "disk_read img (unat lba * unat ?ss) (unat n * unat ?ss) buf (bytes_of s)"
  note rd = assms [unfolded disk_ready_def]
  have u: "unat dev \<noteq> 0" using rd by (simp add: word_unat_eq_iff)
  define s2 where "s2 = submitted E dev lba n buf 0 s"
  have dl: "length (blk_devices (upd_req r f t)) = length (blk_devices t)" for r f and t :: "'a blks_scheme"
    by (simp add: upd_req_def)
  have cur: "current_req (dev_at s2 dev) = ?r" "sector_size (dev_at s2 dev) = ?ss"
    "bsubmit (dev_at s2 dev) = bsubmit (dev_at s dev)"
    using u rd by (simp_all add: s2_def submitted_def dl)
  have req: "breqs s2 ?r = \<lparr>rq_lba = lba, rq_count = n, rq_buf = buf,
      rq_write = 0, rq_done = 0, rq_status = 0\<rparr>"
    by (simp add: s2_def submitted_def)
  define s3 where "s3 = set_bytes ?img s2"
  have vk2: "vk s2 = vk s" by (simp add: s2_def submitted_def upd_dev_def upd_req_def)
  have sub: "submit_of E (bsubmit (dev_at s2 dev)) s2 dev ?r = Some (0, blk_complete dev 0 s3)"
  proof -
    have "submit_of E (bsubmit (dev_at s2 dev)) s2 dev ?r = answer img s2 dev ?r"
      using rd cur(1) req unfolding cur(3) image_disk_def by simp
    also have "\<dots> = Some (0, blk_complete dev 0 s3)"
      unfolding answer_def Let_def req cur(2) s3_def vk2 blk_request.simps ..
    finally show ?thesis .
  qed
  have d3: "dev_at s3 dev = dev_at s2 dev" by (simp add: s3_def set_bytes_def dev_at_def)
  define s4 where "s4 = upd_req ?r (\<lambda>q. q\<lparr>rq_status := 0, rq_done := 1\<rparr>) s3"
  have comp: "blk_complete dev 0 s3 = s4"
    using rd cur d3 by (simp add: blk_complete_def Let_def s4_def image_disk_def)
  have dn: "rq_done (breqs s4 ?r) = 1" "rq_status (breqs s4 ?r) = 0" by (simp_all add: s4_def)
  have w: "blk_wait (irq E) ?r s4 = Some s4" by (subst blk_wait.simps) (simp add: dn)
  define t where "t = upd_dev dev (\<lambda>d. d\<lparr>current_req := 0\<rparr>) s4"
  have r: "blk_read E dev lba n buf s = Some (0, t)"
    using rd sub comp w dn(2) unfolding s2_def submitted_def
    by (simp add: blk_read_def blk_submit_sync_def Let_def t_def)
  have "t = s\<lparr>vk := vk t, breqs := breqs t\<rparr>"
  proof -
    have "(blk_devices s)[unat dev - 1 := (dev_at s dev)\<lparr>current_req := 0\<rparr>] = blk_devices s"
    proof -
      have "(dev_at s dev)\<lparr>current_req := 0\<rparr> = dev_at s dev" using rd by (cases "dev_at s dev") simp
      then show ?thesis by (simp add: dev_at_def)
    qed
    moreover have "unat dev - Suc 0 < length (blk_devices s)" using u rd by linarith
    ultimately show ?thesis
      by (simp add: t_def s4_def s3_def s2_def submitted_def upd_dev_def upd_req_def set_bytes_def dev_at_def)
  qed
  then have "io_same s t" unfolding io_same_def by blast
  moreover have "vk t = (vk s)\<lparr>kbytes := ?img\<rparr>"
    by (simp add: t_def s4_def s3_def upd_dev_def upd_req_def set_bytes_def vk2)
  ultimately show ?thesis using r by blast
qed

definition ready :: "'x blks_scheme blk_env \<Rightarrow> image \<Rightarrow> ext2_priv \<Rightarrow> 'x blks_scheme \<Rightarrow> bool" where
  "ready E img p s \<longleftrightarrow> xdev p \<noteq> 0 \<and> unat (xdev p) \<le> length (blk_devices s) \<and>
     current_req (dev_at s (xdev p)) = 0 \<and> image_disk E img (bsubmit (dev_at s (xdev p))) \<and>
     sector_size (dev_at s (xdev p)) \<noteq> 0 \<and>
     unat (sector_size (dev_at s (xdev p))) dvd unat (block_size p) \<and>
     4 dvd unat (block_size p) \<and> 0 < unat (block_size p) \<and> unat (block_size p) \<le> 4096"

lemma ready_same: "io_same s t \<Longrightarrow> ready E img p t = ready E img p s"
  by (auto simp: ready_def io_same_dev)

abbreviation bs :: "ext2_priv \<Rightarrow> nat" where
  "bs p \<equiv> unat (block_size p)"

lemma read_block_ok:
  assumes "ready E img p s"
  shows "\<exists>t. ext2_read_block E p blkno buf s = Some (0, t) \<and> io_same s t \<and>
    vk t = (vk s)\<lparr>kbytes := disk_read img (unat blkno * bs p) (bs p) buf (bytes_of s)\<rparr>"
proof -
  let ?ss = "sector_size (dev_at s (xdev p))"
  let ?spb = "block_size p div ?ss"
  note rd = assms [unfolded ready_def]
  have spb: "unat ?spb = bs p div unat ?ss" by (simp add: unat_div)
  have "unat blkno * unat ?spb < 2 ^ 64"
    using unat_lt [of blkno] unat_lt [of ?spb] mult_strict_mono [of "unat blkno" "2 ^ 32" "unat ?spb" "2 ^ 32"]
    by simp
  then have lba: "unat (ucast blkno * ucast ?spb :: u64) = unat blkno * unat ?spb"
  proof -
    have "unat (ucast blkno :: u64) = unat blkno" "unat (ucast ?spb :: u64) = unat ?spb"
      using unat_lt [of blkno] unat_lt [of ?spb]
      by (simp_all add: unsigned_ucast_eq take_bit_nat_eq_self)
    then show ?thesis using \<open>unat blkno * unat ?spb < 2 ^ 64\<close> by (simp add: unat_word_ariths)
  qed
  have pos: "unat blkno * unat ?spb * unat ?ss = unat blkno * bs p" "unat ?spb * unat ?ss = bs p"
    using rd spb by (simp_all add: mult.assoc)
  have "disk_ready E img (xdev p) s" using rd by (simp add: disk_ready_def)
  from blk_read_ok [OF this, of "ucast blkno * ucast ?spb" ?spb buf] show ?thesis
    using rd unfolding lba pos by (auto simp: ext2_read_block_def udiv_def)
qed

section \<open>The block map\<close>

fun img_le :: "image \<Rightarrow> nat \<Rightarrow> nat \<Rightarrow> nat" where
  "img_le img i 0 = 0"
| "img_le img i (Suc n) = unat (img i) + 256 * img_le img (i + 1) n"

lemma disk_read_at:
  "i < n \<Longrightarrow> i < 2 ^ 64 \<Longrightarrow> disk_read img pos n buf m (buf + word_of_nat i) = img (pos + i)"
  by (simp add: disk_read_def unat_of_nat_id)

lemma ld_disk:
  "i + n \<le> len \<Longrightarrow> i + n < 2 ^ 64 \<Longrightarrow>
   ld_bytes (disk_read img pos len buf m) (buf + word_of_nat i) n = img_le img (pos + i) n"
proof (induction n arbitrary: i)
  case (Suc n)
  have "ld_bytes (disk_read img pos len buf m) (buf + word_of_nat (i + 1)) n = img_le img (pos + (i + 1)) n"
    by (rule Suc.IH) (use Suc.prems in simp_all)
  then show ?case using Suc.prems disk_read_at [of i len img pos buf m] by (simp add: ac_simps)
qed simp

lemma disk_read_frame: "pg_aligned b \<Longrightarrow> n \<le> 4096 \<Longrightarrow> pg_frame {# page_of b #} m (disk_read img pos n b m)"
proof -
  assume a: "pg_aligned b" "n \<le> 4096"
  have "disk_read img pos n b m x = m x" if "page_of x \<noteq> page_of b" for x
    using that page_bytes [OF a(1), of x] a(2) by (simp add: disk_read_def)
  then show "pg_frame {# page_of b #} m (disk_read img pos n b m)" by (simp add: pg_frame_def)
qed

text \<open>What an operation that takes and returns pages leaves as it was.\<close>

definition keeps :: "nat multiset \<Rightarrow> 'x blks_scheme \<Rightarrow> 'x blks_scheme \<Rightarrow> bool" where
  "keeps F s t \<longleftrightarrow> io_same s t \<and> buddy_ok (vk t) F \<and> pg_frame F (bytes_of s) (bytes_of t)"

lemma keeps_refl: "buddy_ok (vk s) F \<Longrightarrow> keeps F s s"
  by (simp add: keeps_def)

lemma keeps_trans: "keeps F a b \<Longrightarrow> keeps F b c \<Longrightarrow> keeps F a c"
proof -
  assume a: "keeps F a b" "keeps F b c"
  then have "io_same a c" using io_same_trans [of a b c] by (simp add: keeps_def)
  moreover have "pg_frame F (bytes_of a) (bytes_of c)"
    using a pg_frame_trans [of F "bytes_of a" "bytes_of b" "bytes_of c"] by (simp add: keeps_def)
  ultimately show "keeps F a c" using a(2) by (simp add: keeps_def)
qed

text \<open>Entry \<open>i\<close> of the pointer block \<open>blk\<close>, and the tree of depth \<open>d\<close> below \<open>blk\<close>.\<close>

definition ptr :: "image \<Rightarrow> ext2_priv \<Rightarrow> u32 \<Rightarrow> nat \<Rightarrow> u32" where
  "ptr img p blk i = word_of_nat (img_le img (unat blk * bs p + 4 * i) 4)"

fun deref :: "image \<Rightarrow> ext2_priv \<Rightarrow> nat \<Rightarrow> u32 \<Rightarrow> nat \<Rightarrow> u32" where
  "deref img p 0 blk i = blk"
| "deref img p (Suc d) blk i =
     (if blk = 0 then 0
      else deref img p d (ptr img p blk (i div (bs p div 4) ^ d)) (i mod (bs p div 4) ^ d))"

definition file_block :: "image \<Rightarrow> ext2_priv \<Rightarrow> ext2_inode \<Rightarrow> nat \<Rightarrow> u32" where
  "file_block img p ei n =
     (let P = bs p div 4 in
      if n < 12 then ei_block ei ! n
      else if n - 12 < P then deref img p 1 (ei_block ei ! 12) (n - 12)
      else if n - 12 - P < P ^ 2 then deref img p 2 (ei_block ei ! 13) (n - 12 - P)
      else deref img p 3 (ei_block ei ! 14) (n - 12 - P - P ^ 2))"

text \<open>Blocks the three levels of indirection reach.\<close>

definition mappable :: "ext2_priv \<Rightarrow> nat \<Rightarrow> bool" where
  "mappable p n \<longleftrightarrow> (let P = bs p div 4 in n < 12 + P + P ^ 2 + P ^ 3)"

lemma ind_entry_ok:
  assumes "ready E img p s" "buddy_ok (vk s) F" "F \<noteq> {#}" "unat idx < bs p div 4"
  shows "\<exists>t. ind_entry E p blk idx s = Some (ptr img p blk (unat idx), t) \<and> keeps F s t"
proof -
  obtain b k F' where al: "page_alloc1 s = Some (b, s\<lparr>vk := k\<rparr>)" and bo: "borrowed F s b k F'"
    using borrow_page [OF assms(2,3)] by blast
  have b: "b \<noteq> 0" "pg_aligned b" "buddy_ok k F'" "F = F' + {# page_of b #}"
    "pg_frame F (bytes_of s) (kbytes k)"
    using bo unfolding borrowed_def by blast+
  let ?s1 = "s\<lparr>vk := k\<rparr>"
  have rd: "ready E img p ?s1" using assms(1) ready_same [OF io_same_vk] by blast
  obtain t where t: "ext2_read_block E p blk b ?s1 = Some (0, t)" "io_same ?s1 t"
    "vk t = k\<lparr>kbytes := disk_read img (unat blk * bs p) (bs p) b (kbytes k)\<rparr>"
    using read_block_ok [OF rd, of blk b] by auto
  have le: "bs p \<le> 4096" using assms(1) by (simp add: ready_def)
  have fr: "pg_frame {# page_of b #} (kbytes k) (disk_read img (unat blk * bs p) (bs p) b (kbytes k))"
    by (rule disk_read_frame [OF b(2) le])
  have bt: "bytes_of t = disk_read img (unat blk * bs p) (bs p) b (kbytes k)" using t(3) by simp
  have "pg_frame F (bytes_of s) (bytes_of t)"
    unfolding bt by (rule pg_frame_trans [OF b(5) pg_frame_mono [OF fr]]) (simp add: b(4))
  then obtain k'' where k'': "kfree (vk t) b 1 = Some k''" "buddy_ok k'' F"
    "pg_frame F (bytes_of s) (kbytes k'')"
    using borrowed_return [OF bo, of "vk t"] borrowed_write [OF bo b(3) fr] t(3) by auto
  let ?u = "t\<lparr>vk := k''\<rparr>"
  have i: "4 * unat idx + 4 \<le> bs p" using assms(4) by linarith
  have "(4 * ucast idx :: addr) = word_of_nat (4 * unat idx)" by simp
  then have "ld32 (bytes_of t) (b + 4 * ucast idx) = ptr img p blk (unat idx)"
    unfolding bt ld32_def ptr_def
    using ld_disk [of "4 * unat idx" 4 "bs p"] i le by simp
  then have "ind_entry E p blk idx s = Some (ptr img p blk (unat idx), ?u)"
    using al b(1) t(1) k''(1) by (simp add: ind_entry_def page_free1_def)
  moreover have "keeps F s ?u"
    using k'' io_same_trans [OF io_same_trans [OF io_same_vk t(2)] io_same_vk] by (simp add: keeps_def)
  ultimately show ?thesis by blast
qed

lemma ready_keeps: "keeps F s t \<Longrightarrow> ready E img p t = ready E img p s"
  by (intro ready_same) (simp add: keeps_def)

lemma unat_mult_lt:
  fixes v w :: "'a::len word"
  shows "unat v * unat w < 2 ^ LENGTH('a) \<Longrightarrow> unat (v * w) = unat v * unat w"
  by (simp add: unat_word_ariths)

lemma deref_1 [simp]: "deref img p 1 blk i = (if blk = 0 then 0 else ptr img p blk i)"
  by (simp add: One_nat_def)

lemma deref_2: "deref img p 2 blk i =
    (if blk = 0 then 0 else deref img p 1 (ptr img p blk (i div (bs p div 4))) (i mod (bs p div 4)))"
  by (simp add: numeral_2_eq_2)

lemma deref_3: "deref img p 3 blk i =
    (if blk = 0 then 0 else deref img p 2 (ptr img p blk (i div (bs p div 4)\<^sup>2)) (i mod (bs p div 4)\<^sup>2))"
  using deref.simps(2) [of img p 2 blk i] by (simp only: numeral_3_eq_3 numeral_2_eq_2)

lemma div_digit: "i mod P\<^sup>2 div P = i div P mod P" "i mod P\<^sup>2 mod P = i mod (P :: nat)"
  by (simp_all add: power2_eq_square mod_mult2_eq) (metis add_diff_cancel_left' div_mult_self1_is_m div_mult_self4
    gr_zeroI mod_0 mod_by_0 mod_div_trivial mod_less_divisor mult_0 div_by_0 div_less add.right_neutral)

text \<open>The number of pointers in a block, as the code computes it.\<close>

lemma ptrs_props:
  assumes "ready E img p s"
  defines "P \<equiv> bs p div 4"
  shows "unat (block_size p div 4) = P" "0 < P" "P \<le> 1024"
    "unat (block_size p div 4 * (block_size p div 4)) = P ^ 2"
proof -
  show u: "unat (block_size p div 4) = P" by (simp add: unat_div P_def)
  have b: "4 dvd bs p" "0 < bs p" "bs p \<le> 4096" using assms(1) by (simp_all add: ready_def)
  show "0 < P" "P \<le> 1024" using b by (auto simp: P_def elim!: dvdE)
  then have "P * P \<le> 1024 * 1024" by (intro mult_le_mono)
  then have "unat (block_size p div 4) * unat (block_size p div 4) < 2 ^ LENGTH(32)" unfolding u by simp
  from unat_mult_lt [OF this] show "unat (block_size p div 4 * (block_size p div 4)) = P ^ 2"
    unfolding u power2_eq_square .
qed

lemma block_double_ok:
  assumes "ready E img p s" "buddy_ok (vk s) F" "F \<noteq> {#}" "unat lbn < (bs p div 4) ^ 2"
  shows "\<exists>t. block_double E p root (block_size p div 4) lbn s = Some (deref img p 2 root (unat lbn), t) \<and>
    keeps F s t"
proof (cases "root = 0")
  case True
  then show ?thesis using assms(2) by (simp add: block_double_def keeps_refl numeral_2_eq_2)
next
  case False
  let ?P = "bs p div 4" and ?w = "block_size p div 4"
  note P = ptrs_props [OF assms(1)]
  have w: "?w \<noteq> 0" using P(1,2) by (auto simp: word_unat_eq_iff)
  have i: "unat (lbn div ?w) = unat lbn div ?P" "unat (lbn mod ?w) = unat lbn mod ?P"
    using P(1) by (simp_all add: unat_div unat_mod)
  have ib: "unat lbn div ?P < ?P"
    using assms(4) by (simp add: less_mult_imp_div_less power2_eq_square)
  obtain t1 where t1: "ind_entry E p root (lbn div ?w) s = Some (ptr img p root (unat lbn div ?P), t1)"
    "keeps F s t1"
    using ind_entry_ok [OF assms(1-3), of "lbn div ?w" root] ib unfolding i by blast
  have d: "deref img p 2 root (unat lbn) =
      deref img p 1 (ptr img p root (unat lbn div ?P)) (unat lbn mod ?P)"
    using False by (simp add: numeral_2_eq_2)
  show ?thesis
  proof (cases "ptr img p root (unat lbn div ?P) = 0")
    case True
    then show ?thesis using False w t1 by (simp add: block_double_def udiv_def d)
  next
    case nz: False
    have r1: "ready E img p t1" "buddy_ok (vk t1) F"
      using assms(1) ready_keeps [OF t1(2)] t1(2) by (simp_all add: keeps_def)
    have "unat (lbn mod ?w) < ?P" unfolding i using P(2) by simp
    then obtain t2 where t2: "ind_entry E p (ptr img p root (unat lbn div ?P)) (lbn mod ?w) t1 =
        Some (ptr img p (ptr img p root (unat lbn div ?P)) (unat lbn mod ?P), t2)" "keeps F t1 t2"
      using ind_entry_ok [OF r1 assms(3), of "lbn mod ?w"] unfolding i by blast
    then show ?thesis
      using False nz w t1 keeps_trans [OF t1(2) t2(2)] by (simp add: block_double_def udiv_def umod_def d)
  qed
qed

lemma block_triple_ok:
  assumes "ready E img p s" "buddy_ok (vk s) F" "F \<noteq> {#}" "unat lbn < (bs p div 4) ^ 3"
  shows "\<exists>t. block_triple E p root (block_size p div 4) lbn s = Some (deref img p 3 root (unat lbn), t) \<and>
    keeps F s t"
proof (cases "root = 0")
  case True
  then show ?thesis using assms(2) by (simp add: block_triple_def keeps_refl numeral_3_eq_3)
next
  case False
  let ?P = "bs p div 4" and ?w = "block_size p div 4" and ?n = "unat lbn"
  note P = ptrs_props [OF assms(1)]
  have w: "?w \<noteq> 0" "?w * ?w \<noteq> 0" using P(1,2,4) by (auto simp: word_unat_eq_iff)
  have i: "unat (lbn div (?w * ?w)) = ?n div ?P ^ 2" "unat (lbn div ?w mod ?w) = ?n div ?P mod ?P"
    "unat (lbn mod ?w) = ?n mod ?P"
    using P(1,4) by (simp_all only: unat_div unat_mod)
  have ib: "?n div ?P ^ 2 < ?P" "?n div ?P mod ?P < ?P" "?n mod ?P < ?P"
    using assms(4) P(2) by (simp_all add: less_mult_imp_div_less power3_eq_cube power2_eq_square mult.assoc)
  let ?l1 = "ptr img p root (?n div ?P ^ 2)"
  let ?l2 = "ptr img p ?l1 (?n div ?P mod ?P)"
  obtain t1 where t1: "ind_entry E p root (lbn div (?w * ?w)) s = Some (?l1, t1)" "keeps F s t1"
    using ind_entry_ok [OF assms(1-3), of "lbn div (?w * ?w)" root] ib unfolding i by blast
  have d: "deref img p 3 root ?n = (if ?l1 = 0 then 0 else if ?l2 = 0 then 0 else ptr img p ?l2 (?n mod ?P))"
    unfolding deref_3 deref_2 deref_1 div_digit using False by simp
  show ?thesis
  proof (cases "?l1 = 0")
    case True
    then show ?thesis using False w t1 by (simp add: block_triple_def udiv_def d)
  next
    case nz: False
    have r1: "ready E img p t1" "buddy_ok (vk t1) F"
      using assms(1) ready_keeps [OF t1(2)] t1(2) by (simp_all add: keeps_def)
    obtain t2 where t2: "ind_entry E p ?l1 (lbn div ?w mod ?w) t1 = Some (?l2, t2)" "keeps F t1 t2"
      using ind_entry_ok [OF r1 assms(3), of "lbn div ?w mod ?w"] ib unfolding i by blast
    note k2 = keeps_trans [OF t1(2) t2(2)]
    show ?thesis
    proof (cases "?l2 = 0")
      case True
      then show ?thesis using False nz w t1 t2 k2 by (simp add: block_triple_def udiv_def umod_def d)
    next
      case nz2: False
      have r2: "ready E img p t2" "buddy_ok (vk t2) F"
        using r1(1) ready_keeps [OF t2(2)] t2(2) by (simp_all add: keeps_def)
      obtain t3 where "ind_entry E p ?l2 (lbn mod ?w) t2 = Some (ptr img p ?l2 (?n mod ?P), t3)" "keeps F t2 t3"
        using ind_entry_ok [OF r2 assms(3), of "lbn mod ?w"] ib unfolding i by blast
      then show ?thesis
        using False nz nz2 w t1 t2 keeps_trans [OF k2] by (simp add: block_triple_def udiv_def umod_def d)
    qed
  qed
qed

lemma block_map_ok:
  assumes "ready E img p s" "buddy_ok (vk s) F" "F \<noteq> {#}" "mappable p (unat lbn)"
  shows "\<exists>t. ext2_block_map E p ei lbn s = Some (file_block img p ei (unat lbn), t) \<and> keeps F s t"
proof -
  let ?P = "bs p div 4" and ?w = "block_size p div 4" and ?n = "unat lbn"
  note P = ptrs_props [OF assms(1)]
  note m = ext2_block_map_def file_block_def Let_def word_less_nat_alt
  consider "?n < 12" | "12 \<le> ?n" "?n - 12 < ?P" | "12 \<le> ?n" "?P \<le> ?n - 12" "?n - 12 - ?P < ?P ^ 2" |
    "12 \<le> ?n" "?P \<le> ?n - 12" "?P ^ 2 \<le> ?n - 12 - ?P" by linarith
  then show ?thesis
  proof cases
    case 1
    then show ?thesis using assms(2) by (simp add: m keeps_refl)
  next
    case 2
    have l: "unat (lbn - 12) = ?n - 12" using 2(1) by (simp add: unat_sub_le word_le_nat_alt)
    obtain t where "ind_entry E p (ei_block ei ! 12) (lbn - 12) s =
        Some (ptr img p (ei_block ei ! 12) (?n - 12), t)" "keeps F s t"
      using ind_entry_ok [OF assms(1-3), of "lbn - 12" "ei_block ei ! 12"] 2(2) unfolding l by blast
    then show ?thesis using 2 assms(2) P(1) by (auto simp: m l keeps_refl simp del: One_nat_def)
  next
    case 3
    have l: "unat (lbn - 12) = ?n - 12" using 3(1) by (simp add: unat_sub_le word_le_nat_alt)
    have l2: "unat (lbn - 12 - ?w) = ?n - 12 - ?P"
      using 3(2) l P(1) by (simp add: unat_sub_le word_le_nat_alt)
    show ?thesis
      using block_double_ok [OF assms(1-3), of "lbn - 12 - ?w" "ei_block ei ! 13"] 3 P(1,4) l l2 by (simp add: m)
  next
    case 4
    have l: "unat (lbn - 12) = ?n - 12" using 4(1) by (simp add: unat_sub_le word_le_nat_alt)
    have l2: "unat (lbn - 12 - ?w) = ?n - 12 - ?P"
      using 4(2) l P(1) by (simp add: unat_sub_le word_le_nat_alt)
    have l3: "unat (lbn - 12 - ?w - ?w * ?w) = ?n - 12 - ?P - ?P ^ 2"
      using 4(3) l2 P(4) by (simp add: unat_sub_le word_le_nat_alt)
    have "?n - 12 - ?P - ?P ^ 2 < ?P ^ 3" 
      using assms(4) 4 unfolding mappable_def Let_def by linarith
    then show ?thesis
      using block_triple_ok [OF assms(1-3), of "lbn - 12 - ?w - ?w * ?w" "ei_block ei ! 14"] 4 P(1,4) l l2 l3
      by (simp add: m)
  qed
qed

section \<open>The cached block\<close>

text \<open>The buffer \<open>b\<close> holds block \<open>cur\<close> of the file, or nothing yet.\<close>

definition cached :: "image \<Rightarrow> ext2_priv \<Rightarrow> ext2_inode \<Rightarrow> addr \<Rightarrow> u32 \<Rightarrow> mem \<Rightarrow> bool" where
  "cached img p ei b cur m \<longleftrightarrow> (cur \<noteq> NOT 0 \<longrightarrow> file_block img p ei (unat cur) \<noteq> 0 \<and>
     (\<forall>i < bs p. m (b + word_of_nat i) = img (unat (file_block img p ei (unat cur)) * bs p + i)))"

text \<open>While the buffer page is out, the free pages are \<open>F\<close>; the buffer may change.\<close>

definition busy :: "nat multiset \<Rightarrow> addr \<Rightarrow> 'x blks_scheme \<Rightarrow> 'x blks_scheme \<Rightarrow> bool" where
  "busy F b s t \<longleftrightarrow> io_same s t \<and> buddy_ok (vk t) F \<and>
     pg_frame (F + {# page_of b #}) (bytes_of s) (bytes_of t)"

lemma busyD: "busy F b s t \<Longrightarrow> io_same s t" "busy F b s t \<Longrightarrow> buddy_ok (vk t) F"
  "busy F b s t \<Longrightarrow> page_of a \<notin># F \<Longrightarrow> page_of a \<noteq> page_of b \<Longrightarrow> bytes_of t a = bytes_of s a"
  by (auto simp: busy_def pg_frame_def)

lemma busy_refl: "buddy_ok (vk s) F \<Longrightarrow> busy F b s s"
  by (simp add: busy_def)

lemma busy_trans: "busy F b s t \<Longrightarrow> busy F b t u \<Longrightarrow> busy F b s u"
proof -
  assume a: "busy F b s t" "busy F b t u"
  then have "io_same s u" using io_same_trans [of s t u] by (simp add: busy_def)
  moreover have "pg_frame (F + {# page_of b #}) (bytes_of s) (bytes_of u)"
    using a pg_frame_trans [of "F + {# page_of b #}" "bytes_of s" "bytes_of t" "bytes_of u"]
    unfolding busy_def by blast
  ultimately show "busy F b s u" using a(2) unfolding busy_def by blast
qed

lemma mappable_small:
  assumes "ready E img p s" "mappable p n"
  shows "n < 2 ^ 32 - 1" "(word_of_nat n :: u32) \<noteq> NOT 0" "unat (word_of_nat n :: u32) = n"
proof -
  define P where "P = bs p div 4"
  have P: "P \<le> 1024" using ptrs_props(3) [OF assms(1)] by (simp add: P_def)
  then have "P ^ 2 \<le> 1024 ^ 2" "P ^ 3 \<le> 1024 ^ 3" by (intro power_mono; simp)+
  then show n: "n < 2 ^ 32 - 1" using assms(2) P by (simp add: mappable_def Let_def P_def)
  then show u: "unat (word_of_nat n :: u32) = n" by (intro unat_of_nat_id) simp
  have "NOT 0 = (0xFFFFFFFF :: u32)" by simp
  then have "unat (NOT 0 :: u32) = 2 ^ 32 - 1" by (simp only:) simp
  then show "(word_of_nat n :: u32) \<noteq> NOT 0" using n u by (metis less_irrefl)
qed

lemma dir_block_ok:
  assumes "ready E img p s" "buddy_ok (vk s) F" "F \<noteq> {#}" "mappable p n"
    "pg_aligned b" "page_of b \<notin># F" "cached img p ei b cur (bytes_of s)"
  shows "\<exists>t. dir_block E p ei b cur (word_of_nat n) s = Some (file_block img p ei n \<noteq> 0, t) \<and>
    busy F b s t \<and> (file_block img p ei n \<noteq> 0 \<longrightarrow> cached img p ei b (word_of_nat n) (bytes_of t))"
proof -
  let ?n = "word_of_nat n :: u32"
  note sm = mappable_small [OF assms(1,4)]
  show ?thesis
  proof (cases "?n = cur")
    case True
    then have "file_block img p ei n \<noteq> 0" using assms(7) sm by (auto simp: cached_def)
    then show ?thesis using True assms(2,7) busy_refl by (auto simp: dir_block_def)
  next
    case False
    obtain t1 where t1: "ext2_block_map E p ei ?n s = Some (file_block img p ei n, t1)" "keeps F s t1"
      using block_map_ok [OF assms(1-3), of ?n ei] assms(4) unfolding sm(3) by blast
    have k1: "io_same s t1" "buddy_ok (vk t1) F" "pg_frame F (bytes_of s) (bytes_of t1)"
      using t1(2) by (simp_all add: keeps_def)
    have fr1: "pg_frame (F + {# page_of b #}) (bytes_of s) (bytes_of t1)"
      by (rule pg_frame_mono [OF k1(3)]) auto
    show ?thesis
    proof (cases "file_block img p ei n = 0")
      case True
      then show ?thesis using False t1(1) k1 fr1 by (auto simp: dir_block_def busy_def)
    next
      case nz: False
      have rd: "ready E img p t1" using assms(1) ready_keeps [OF t1(2)] by blast
      obtain t2 where t2: "ext2_read_block E p (file_block img p ei n) b t1 = Some (0, t2)" "io_same t1 t2"
        "vk t2 = (vk t1)\<lparr>kbytes := disk_read img (unat (file_block img p ei n) * bs p) (bs p) b (bytes_of t1)\<rparr>"
        using read_block_ok [OF rd] by blast
      have le: "bs p \<le> 4096" using assms(1) by (simp add: ready_def)
      have bt: "bytes_of t2 = disk_read img (unat (file_block img p ei n) * bs p) (bs p) b (bytes_of t1)"
        using t2(3) by simp
      have fr: "pg_frame {# page_of b #} (bytes_of t1) (bytes_of t2)"
        unfolding bt by (rule disk_read_frame [OF assms(5) le])
      have "buddy_ok (vk t2) F"
        unfolding t2(3) by (rule buddy_ok_frame [OF k1(2) fr [unfolded bt]]) (use assms(6) in auto)
      moreover have "pg_frame (F + {# page_of b #}) (bytes_of s) (bytes_of t2)"
        by (rule pg_frame_trans [OF fr1 pg_frame_mono [OF fr]]) simp
      ultimately have "busy F b s t2" using io_same_trans [OF k1(1) t2(2)] by (simp add: busy_def)
      moreover have "bytes_of t2 (b + word_of_nat i) = img (unat (file_block img p ei n) * bs p + i)"
        if "i < bs p" for i
        unfolding bt using disk_read_at [of i "bs p"] that le by simp
      then have "cached img p ei b ?n (bytes_of t2)" using nz by (simp add: cached_def sm(3))
      moreover have "dir_block E p ei b cur ?n s = Some (file_block img p ei n \<noteq> 0, t2)"
        using False nz t1(1) t2(1) by (simp add: dir_block_def)
      ultimately show ?thesis by blast
    qed
  qed
qed

section \<open>Reading a file\<close>

definition file_byte :: "image \<Rightarrow> ext2_priv \<Rightarrow> ext2_inode \<Rightarrow> nat \<Rightarrow> u8" where
  "file_byte img p ei i = img (unat (file_block img p ei (i div bs p)) * bs p + i mod bs p)"

text \<open>How many bytes from \<open>a\<close> on, up to \<open>e\<close>, lie before the first hole.\<close>

definition span :: "image \<Rightarrow> ext2_priv \<Rightarrow> ext2_inode \<Rightarrow> nat \<Rightarrow> nat \<Rightarrow> nat" where
  "span img p ei a e = length (takeWhile (\<lambda>i. file_block img p ei (i div bs p) \<noteq> 0) [a..<e])"

lemma span_empty [simp]: "span img p ei a a = 0"
  by (simp add: span_def)

lemma span_hole: "file_block img p ei (a div bs p) = 0 \<Longrightarrow> span img p ei a e = 0"
  by (cases "a < e") (simp_all add: span_def upt_rec [of a e])

lemma same_block:
  fixes a i B :: nat
  assumes "a \<le> i" "i < a + c" "c \<le> B - a mod B" "0 < B"
  shows "i div B = a div B" "i mod B = a mod B + (i - a)"
proof -
  define q r where "q = a div B" and "r = a mod B + (i - a)"
  have e: "i = q * B + r" using assms(1) by (simp add: q_def r_def)
  have r: "r < B" using assms unfolding r_def by linarith
  have "i div B = q" "i mod B = r" unfolding e using r by simp_all
  then show "i div B = a div B" "i mod B = a mod B + (i - a)" by (simp_all only: q_def r_def)
qed

lemma span_step:
  assumes "a + c \<le> e" "c \<le> bs p - a mod bs p" "0 < bs p" "file_block img p ei (a div bs p) \<noteq> 0"
  shows "span img p ei a e = c + span img p ei (a + c) e"
proof -
  let ?Q = "\<lambda>i. file_block img p ei (i div bs p) \<noteq> 0"
  have "[a..<e] = [a..<a + c] @ [a + c..<e]"
    using assms(1) upt_add_eq_append [of a "a + c" "e - (a + c)"] by simp
  moreover have "?Q i" if "i \<in> set [a..<a + c]" for i
    using same_block(1) [of a i c "bs p"] that assms(2-4) by simp
  then have "takeWhile ?Q ([a..<a + c] @ [a + c..<e]) = [a..<a + c] @ takeWhile ?Q [a + c..<e]"
    by (rule takeWhile_append2)
  ultimately show ?thesis by (simp add: span_def)
qed

lemma copy_out:
  assumes "buddy_ok k F" "\<And>a. unat (a - out) < unat (cnt :: u64) \<Longrightarrow> page_of a \<notin># F"
    "\<And>a. \<not> unat (a - out) < unat cnt \<Longrightarrow> m a = kbytes k a"
  shows "buddy_ok (k\<lparr>kbytes := m\<rparr>) F"
proof -
  define G where "G = mset (map (\<lambda>i. page_of (out + word_of_nat i)) [0..<unat cnt])"
  have in_G: "page_of a \<in># G" if "unat (a - out) < unat cnt" for a
  proof -
    have "a = out + word_of_nat (unat (a - out))" by simp
    then show ?thesis using that unfolding G_def set_mset_mset set_map by (intro image_eqI) auto
  qed
  show ?thesis
  proof (rule buddy_ok_frame [OF assms(1), of G])
    show "pg_frame G (kbytes k) m" using in_G assms(3) by (auto simp: pg_frame_def)
    show "p \<notin># G" if p: "p \<in># F" for p
    proof
      assume "p \<in># G"
      then obtain i where i: "i < unat cnt" "p = page_of (out + word_of_nat i)" by (auto simp: G_def)
      have "i < 2 ^ 64" using i(1) unat_lt [of cnt] by simp
      then have "unat (out + word_of_nat i - out) < unat cnt" using i(1) by (simp add: unat_of_nat_id)
      then show False using assms(2) [of "out + word_of_nat i"] p i(2) by blast
    qed
  qed
qed

text \<open>Offsets into the output window.\<close>

lemma window_shift:
  fixes a out d c n :: u64
  assumes "unat d + unat c \<le> unat n"
  shows "unat (a - (out + d)) < unat c \<longleftrightarrow> unat d \<le> unat (a - out) \<and> unat (a - out) < unat d + unat c"
    and "unat d \<le> unat (a - out) \<Longrightarrow> unat (a - (out + d)) = unat (a - out) - unat d"
proof -
  define x where "x = a - out"
  have e: "a - (out + d) = x - d" by (simp add: x_def algebra_simps)
  have lt: "unat d + unat c < 2 ^ 64" using assms unat_lt [of n] by simp
  have ge: "unat d \<le> unat x \<Longrightarrow> unat (x - d) = unat x - unat d" by (simp add: unat_sub_le word_le_nat_alt)
  then show "unat d \<le> unat (a - out) \<Longrightarrow> unat (a - (out + d)) = unat (a - out) - unat d"
    unfolding e x_def by simp
  show "unat (a - (out + d)) < unat c \<longleftrightarrow> unat d \<le> unat (a - out) \<and> unat (a - out) < unat d + unat c"
  proof (cases "unat d \<le> unat x")
    case True
    then show ?thesis unfolding e using ge by (auto simp: x_def)
  next
    case False
    have "unat (x - d) = 2 ^ 64 - unat (d - x)"
      using False by (intro unat_minus_sub) auto
    moreover have "unat (d - x) = unat d - unat x" using False by (simp add: unat_sub_le word_le_nat_alt)
    ultimately have "unat c \<le> unat (x - d)" using lt False by linarith
    then show ?thesis unfolding e using False by (simp add: x_def)
  qed
qed

text \<open>The state of the copy loop.\<close>

definition reading :: "'x blks_scheme blk_env \<Rightarrow> image \<Rightarrow> ext2_priv \<Rightarrow> ext2_inode \<Rightarrow> nat multiset \<Rightarrow>
    addr \<Rightarrow> addr \<Rightarrow> u64 \<Rightarrow> u64 \<Rightarrow> bool" where
  "reading E img p ei F b out off cnt \<longleftrightarrow> F \<noteq> {#} \<and> pg_aligned b \<and> page_of b \<notin># F \<and>
     unat off + unat cnt < 2 ^ 64 \<and>
     (\<forall>i. unat off \<le> i \<and> i < unat off + unat cnt \<longrightarrow> mappable p (i div bs p)) \<and>
     (\<forall>a. unat (a - out) < unat cnt \<longrightarrow> page_of a \<notin># F \<and> page_of a \<noteq> page_of b)"

lemma chunk_values:
  fixes off dn cnt :: u64
  assumes "ready E img p s" "unat off + unat cnt < 2 ^ 64" "dn < cnt" "mappable p ((unat off + unat dn) div bs p)"
  defines "N \<equiv> unat off + unat dn" and "w \<equiv> (ucast (block_size p) :: u64)"
  defines "r \<equiv> (ucast ((off + dn) mod w) :: u32)"
  defines "room \<equiv> (ucast (block_size p - r) :: u64)"
  shows "w \<noteq> 0" "(ucast ((off + dn) div w) :: u32) = word_of_nat (N div bs p)" "unat r = N mod bs p"
    "unat (ucast r :: u64) = N mod bs p" "unat room = bs p - N mod bs p"
proof -
  have b: "0 < bs p" "bs p \<le> 4096" using assms(1) by (simp_all add: ready_def)
  have uw: "unat w = bs p" using b by (simp add: w_def unsigned_ucast_eq take_bit_nat_eq_self)
  then show "w \<noteq> 0" using b by auto
  have uN: "unat (off + dn) = N" using assms(2,3) by (simp add: N_def unat_add_lt word_less_nat_alt)
  have q: "unat ((off + dn) div w) = N div bs p" "unat ((off + dn) mod w) = N mod bs p"
    by (simp_all only: unat_div unat_mod uN uw)
  show "(ucast ((off + dn) div w) :: u32) = word_of_nat (N div bs p)" unfolding q(1) [symmetric] by simp
  have m: "N mod bs p < bs p" using b by simp
  then have "N mod bs p < 4096" using b(2) by linarith
  then have m32: "N mod bs p < 2 ^ 32" "N mod bs p < 2 ^ 64" by simp_all
  then show r: "unat r = N mod bs p" using q(2) by (simp add: r_def unsigned_ucast_eq take_bit_nat_eq_self)
  then show "unat (ucast r :: u64) = N mod bs p" using m32 by (simp add: unsigned_ucast_eq take_bit_nat_eq_self)
  have "unat (block_size p - r) = bs p - N mod bs p" using r m by (simp add: unat_sub_le word_le_nat_alt)
  then show "unat room = bs p - N mod bs p" using b by (simp add: room_def unsigned_ucast_eq take_bit_nat_eq_self)
qed

text \<open>One round: the block is in the buffer, and its chunk is copied out.\<close>

lemma chunk_copied:
  assumes "ready E img p s" "busy F b s t" "cached img p ei b (word_of_nat (N div bs p)) (bytes_of t)"
    "reading E img p ei F b out off cnt" "unat dn + unat chunk \<le> unat cnt"
    "unat chunk \<le> bs p - N mod bs p" "unat r = N mod bs p" "N = unat off + unat dn" "unat dn < unat cnt"
  defines "u \<equiv> set_bytes (memcpy (bytes_of t) (out + dn) (b + r) chunk) t"
  shows "io_same s u" "buddy_ok (vk u) F" "cached img p ei b (word_of_nat (N div bs p)) (bytes_of u)"
    and "page_of a \<notin># F \<Longrightarrow> page_of a \<noteq> page_of b \<Longrightarrow> bytes_of u a =
      (if unat dn \<le> unat (a - out) \<and> unat (a - out) < unat dn + unat chunk
       then file_byte img p ei (unat off + unat (a - out)) else bytes_of s a)"
proof -
  have b4: "0 < bs p" "bs p \<le> 4096" using assms(1) by (simp_all add: ready_def)
  have rd: "pg_aligned b" "page_of b \<notin># F" using assms(4) by (simp_all add: reading_def)
  have win: "\<And>a. unat (a - out) < unat cnt \<Longrightarrow> page_of a \<notin># F \<and> page_of a \<noteq> page_of b"
    using assms(4) by (simp add: reading_def)
  have "mappable p (N div bs p)" using assms(4,8,9) by (simp add: reading_def)
  note sm = mappable_small [OF assms(1) this]
  note sh = window_shift [OF assms(5), where out = out]
  have ix: "page_of (b + r + j) = page_of b" if "unat j < unat chunk" for j
  proof -
    have "unat r + unat j < 4096" using that assms(6,7) b4 by linarith
    then have "b + r + j = b + word_of_nat (unat r + unat j)" "unat r + unat j < 4096" by simp_all
    then show ?thesis using page_index [OF rd(1)] by metis
  qed
  have far: "chunk \<le> b + r + j - (out + dn)" if "j < chunk" for j
  proof (rule ccontr)
    assume "\<not> ?thesis"
    then have "unat (b + r + j - (out + dn)) < unat chunk" by (simp add: word_le_nat_alt)
    then have "unat (b + r + j - out) < unat cnt" using sh(1) [of "b + r + j"] assms(5) by linarith
    then show False using win ix [of j] that by (simp add: word_less_nat_alt)
  qed
  have u: "bytes_of u a = (if unat dn \<le> unat (a - out) \<and> unat (a - out) < unat dn + unat chunk
      then bytes_of t (b + r + (a - (out + dn))) else bytes_of t a)" for a
    using memcpy_apply [OF far, of "bytes_of t" a] sh(1) [of a]
    by (simp add: u_def set_bytes_def word_less_nat_alt)
  show "io_same s u"
    unfolding u_def by (rule io_same_trans [OF busyD(1) [OF assms(2)] io_same_bytes])
  have "buddy_ok ((vk t)\<lparr>kbytes := bytes_of u\<rparr>) F"
  proof (rule copy_out [OF busyD(2) [OF assms(2)], of out cnt])
    fix a
    show "page_of a \<notin># F" if "unat (a - out) < unat cnt" using win [OF that] by blast
    show "bytes_of u a = bytes_of t a" if "\<not> unat (a - out) < unat cnt"
      using that assms(5) unfolding u by simp
  qed
  then show "buddy_ok (vk u) F" by (simp add: u_def set_bytes_def)
  have buf: "bytes_of u (b + word_of_nat i) = bytes_of t (b + word_of_nat i)" if "i < bs p" for i
  proof -
    have "page_of (b + word_of_nat i) = page_of b" using page_index [OF rd(1)] that b4 by simp
    then have "\<not> unat (b + word_of_nat i - out) < unat cnt" using win by blast
    then show ?thesis unfolding u using assms(5) by simp
  qed
  then show "cached img p ei b (word_of_nat (N div bs p)) (bytes_of u)"
    using assms(3) by (simp add: cached_def)
  assume a: "page_of a \<notin># F" "page_of a \<noteq> page_of b"
  show "bytes_of u a = (if unat dn \<le> unat (a - out) \<and> unat (a - out) < unat dn + unat chunk
      then file_byte img p ei (unat off + unat (a - out)) else bytes_of s a)"
  proof (cases "unat dn \<le> unat (a - out) \<and> unat (a - out) < unat dn + unat chunk")
    case True
    define i where "i = unat off + unat (a - out)"
    have i: "N \<le> i" "i < N + unat chunk" using True assms(8) by (simp_all add: i_def)
    note sb = same_block [OF i assms(6) b4(1)]
    have "unat (a - (out + dn)) = i - N" using sh(2) [of a] True assms(8) by (simp add: i_def)
    then have "r + (a - (out + dn)) = word_of_nat (N mod bs p + (i - N))"
      using assms(7) by (metis of_nat_add of_nat_unat ucast_id)
    then have e: "b + r + (a - (out + dn)) = b + word_of_nat (i mod bs p)"
      unfolding sb(2) by (simp add: add.assoc)
    have "bytes_of t (b + word_of_nat (i mod bs p)) = file_byte img p ei i"
      using assms(3) b4 unfolding file_byte_def cached_def sb(1) sm(3) using sm(2) by simp
    then show ?thesis unfolding u if_P [OF True] e i_def .
  next
    case False
    then show ?thesis unfolding u if_not_P [OF False] using busyD(3) [OF assms(2) a] by simp
  qed
qed

lemma read_loop_ok:
  assumes "ready E img p s" "buddy_ok (vk s) F" "reading E img p ei F b out off cnt"
    "cached img p ei b cur (bytes_of s)" "unat dn \<le> unat cnt"
  shows "\<exists>d t. read_loop E p ei out b off cnt cur dn s = Some (d, t) \<and>
    unat d = unat dn + span img p ei (unat off + unat dn) (unat off + unat cnt) \<and>
    io_same s t \<and> buddy_ok (vk t) F \<and>
    (\<forall>a. page_of a \<notin># F \<longrightarrow> page_of a \<noteq> page_of b \<longrightarrow> bytes_of t a =
      (if unat dn \<le> unat (a - out) \<and> unat (a - out) < unat d
       then file_byte img p ei (unat off + unat (a - out)) else bytes_of s a))"
  using assms
proof (induction "unat cnt - unat dn" arbitrary: dn cur s rule: less_induct)
  case less
  let ?N = "unat off + unat dn"
  show ?case
  proof (cases "dn < cnt")
    case False
    then have e: "unat dn = unat cnt" using less.prems(5) by (simp add: word_less_nat_alt)
    have "read_loop E p ei out b off cnt cur dn s = Some (dn, s)"
      using False by (subst read_loop.simps) simp
    then show ?thesis using less.prems(2) e by (intro exI [of _ dn] exI [of _ s]) simp
  next
    case True
    then have lt: "unat dn < unat cnt" by (simp add: word_less_nat_alt)
    note R = less.prems(3) [unfolded reading_def]
    have mp: "mappable p (?N div bs p)" using R lt by simp
    have "unat off + unat cnt < 2 ^ 64" using R by blast
    note v = chunk_values [OF less.prems(1) this True mp]
    define w where "w = (ucast (block_size p) :: u64)"
    define r where "r = (ucast ((off + dn) mod w) :: u32)"
    define room where "room = (ucast (block_size p - r) :: u64)"
    define chunk where "chunk = (if cnt - dn < room then cnt - dn else room)"
    note v = v [folded w_def r_def, folded r_def room_def]
    have b4: "0 < bs p" "?N mod bs p < bs p" using less.prems(1) by (simp_all add: ready_def)
    have cd: "unat (cnt - dn) = unat cnt - unat dn" using lt by (simp add: unat_sub_le word_le_nat_alt)
    have ch: "unat chunk \<le> bs p - ?N mod bs p" "unat dn + unat chunk \<le> unat cnt" "0 < unat chunk"
      using v(5) cd lt b4 by (auto simp: chunk_def word_less_nat_alt)
    obtain t where t: "dir_block E p ei b cur (word_of_nat (?N div bs p)) s =
        Some (file_block img p ei (?N div bs p) \<noteq> 0, t)" "busy F b s t"
      "file_block img p ei (?N div bs p) \<noteq> 0 \<Longrightarrow>
        cached img p ei b (word_of_nat (?N div bs p)) (bytes_of t)"
      using dir_block_ok [OF less.prems(1,2) _ mp _ _ less.prems(4)] R by blast
    define u where "u = set_bytes (memcpy (bytes_of t) (out + dn) (b + ucast r) chunk) t"
    have step: "read_loop E p ei out b off cnt cur dn s =
      (if file_block img p ei (?N div bs p) = 0 then Some (dn, t)
       else read_loop E p ei out b off cnt (word_of_nat (?N div bs p)) (dn + chunk) u)"
      using True v(1,2) t(1)
      by (subst read_loop.simps, cases "cnt - dn < room")
        (simp_all add: udiv_def umod_def Let_def w_def [symmetric] r_def [symmetric] room_def [symmetric]
          chunk_def u_def)
    show ?thesis
    proof (cases "file_block img p ei (?N div bs p) = 0")
      case True
      have "bytes_of t a = bytes_of s a" if "page_of a \<notin># F" "page_of a \<noteq> page_of b" for a
        using busyD(3) [OF t(2) that] .
      then show ?thesis
        using step True busyD(1,2) [OF t(2)] by (intro exI [of _ dn] exI [of _ t]) (simp add: span_hole)
    next
      case nz: False
      note cc = chunk_copied [OF less.prems(1) t(2) t(3) [OF nz] less.prems(3) ch(2,1) v(4) refl lt,
          folded u_def]
      have dn': "unat (dn + chunk) = unat dn + unat chunk"
        using ch(2) unat_lt [of cnt] by (intro unat_add_lt) simp
      have rd: "ready E img p u" using less.prems(1) ready_same [OF cc(1)] by blast
      have "unat cnt - unat (dn + chunk) < unat cnt - unat dn" "unat (dn + chunk) \<le> unat cnt"
        using ch lt dn' by simp_all
      note IH = less.hyps [OF this(1) rd cc(2) less.prems(3) cc(3) this(2)]
      obtain d x where x: "read_loop E p ei out b off cnt (word_of_nat (?N div bs p)) (dn + chunk) u = Some (d, x)"
        "unat d = unat (dn + chunk) + span img p ei (unat off + unat (dn + chunk)) (unat off + unat cnt)"
        "io_same u x" "buddy_ok (vk x) F"
        "\<And>a. page_of a \<notin># F \<Longrightarrow> page_of a \<noteq> page_of b \<Longrightarrow> bytes_of x a =
          (if unat (dn + chunk) \<le> unat (a - out) \<and> unat (a - out) < unat d
           then file_byte img p ei (unat off + unat (a - out)) else bytes_of u a)"
        using IH by (elim exE conjE) blast
      have sp: "span img p ei ?N (unat off + unat cnt) =
          unat chunk + span img p ei (?N + unat chunk) (unat off + unat cnt)"
        using ch(2) by (intro span_step ch(1) b4(1) nz) simp
      have ge: "unat dn + unat chunk \<le> unat d" using x(2) dn' by linarith
      have "bytes_of x a = (if unat dn \<le> unat (a - out) \<and> unat (a - out) < unat d
           then file_byte img p ei (unat off + unat (a - out)) else bytes_of s a)"
        if a: "page_of a \<notin># F" "page_of a \<noteq> page_of b" for a
        unfolding x(5) [OF a] cc(4) [OF a] dn' using ge by auto
      then show ?thesis
        using step nz x sp dn' io_same_trans [OF cc(1) x(3)]
        by (intro exI [of _ d] exI [of _ x]) (simp add: add.assoc)
    qed
  qed
qed

text \<open>The file system object and the inode behind an open file.\<close>

definition file_priv :: "'x ext2s_scheme \<Rightarrow> addr \<Rightarrow> ext2_priv" where
  "file_priv s f = eprivs s (sbpriv (supers s (isb (inodes s (finode (files s f))))))"

definition file_ei :: "'x ext2s_scheme \<Rightarrow> addr \<Rightarrow> ext2_inode" where
  "file_ei s f = einodes s (ipriv (inodes s (finode (files s f))))"

lemma ext2_read_ok:
  assumes "ready E img (file_priv s f) s" "buddy_ok (vk s) F" "2 \<le> size F"
    and "fpos (files s f) < ei_size (file_ei s f)"
    and "unat (fpos (files s f)) + unat cnt < 2 ^ 64"
    and "\<And>i. i < unat (ei_size (file_ei s f)) \<Longrightarrow> mappable (file_priv s f) (i div bs (file_priv s f))"
    and "\<And>a. unat (a - out) < unat cnt \<Longrightarrow> page_of a \<notin># F"
  defines "o1 \<equiv> unat (fpos (files s f))"
  defines "e1 \<equiv> min (o1 + unat cnt) (unat (ei_size (file_ei s f)))"
  shows "\<exists>d t. ext2_read E s f out cnt = Some (d, upd_file f (\<lambda>x. x\<lparr>fpos := fpos (files s f) + d\<rparr>) t) \<and>
    unat d = span img (file_priv s f) (file_ei s f) o1 e1 \<and> io_same s t \<and> buddy_ok (vk t) F \<and>
    (\<forall>a. page_of a \<notin># F \<longrightarrow> bytes_of t a = (if unat (a - out) < unat d
       then file_byte img (file_priv s f) (file_ei s f) (o1 + unat (a - out)) else bytes_of s a))"
proof -
  let ?p = "file_priv s f" and ?ei = "file_ei s f" and ?off = "fpos (files s f)"
  define c1 where "c1 = (if ei_size ?ei < ?off + cnt then ei_size ?ei - ?off else cnt)"
  have F: "F \<noteq> {#}" using assms(3) by auto
  have sz: "unat ?off < unat (ei_size ?ei)" using assms(4) by (simp add: word_less_nat_alt)
  have oc: "unat (?off + cnt) = unat ?off + unat cnt" using assms(5) by (simp add: unat_add_lt)
  have c1: "unat c1 = e1 - o1" "unat c1 \<le> unat cnt" "unat ?off + unat c1 = e1" "e1 \<le> unat (ei_size ?ei)"
    using sz oc by (auto simp: c1_def e1_def o1_def word_less_nat_alt unat_sub_le word_le_nat_alt)
  obtain b k F' where al: "page_alloc1 s = Some (b, s\<lparr>vk := k\<rparr>)" and bo: "borrowed F s b k F'"
    using borrow_page [OF assms(2) F] by blast
  have b: "b \<noteq> 0" "pg_aligned b" "buddy_ok k F'" "F = F' + {# page_of b #}" "page_of b \<notin># F'"
    "pg_frame F (bytes_of s) (kbytes k)"
    using bo unfolding borrowed_def by blast+
  have F': "F' \<noteq> {#}" using assms(3) b(4) by auto
  let ?s1 = "s\<lparr>vk := k\<rparr>"
  have rd: "ready E img ?p ?s1" using assms(1) ready_same [OF io_same_vk] by blast
  have mem: "page_of a \<notin># F' \<and> page_of a \<noteq> page_of b" if "unat (a - out) < unat c1" for a
    using assms(7) [of a] that c1(2) unfolding b(4) by simp
  have rg: "reading E img ?p ?ei F' b out ?off c1"
    unfolding reading_def using F' b(2,5) mem assms(6) c1 unat_lt [of "ei_size ?ei"] by auto
  have ca: "cached img ?p ?ei b (NOT 0) (bytes_of ?s1)" by (simp add: cached_def)
  obtain d t where t: "read_loop E ?p ?ei out b ?off c1 (NOT 0) 0 ?s1 = Some (d, t)"
    "unat d = span img ?p ?ei o1 e1" "io_same ?s1 t" "buddy_ok (vk t) F'"
    "\<And>a. page_of a \<notin># F' \<Longrightarrow> page_of a \<noteq> page_of b \<Longrightarrow> bytes_of t a =
      (if unat (a - out) < unat d then file_byte img ?p ?ei (o1 + unat (a - out)) else kbytes k a)"
    using read_loop_ok [OF rd _ rg ca, of 0] b(3) c1(3) by (auto simp: o1_def)
  obtain k2 where k2: "kfree (vk t) b 1 = Some k2" "buddy_ok k2 F" "pg_frame F (bytes_of t) (kbytes k2)"
    using borrowed_return [OF bo t(4) pg_frame_refl] by blast
  let ?u = "t\<lparr>vk := k2\<rparr>"
  have "ext2_read E s f out cnt = Some (d, upd_file f (\<lambda>x. x\<lparr>fpos := ?off + d\<rparr>) ?u)"
    using assms(4) al b(1) t(1) k2(1)
    by (cases "ei_size ?ei < ?off + cnt")
      (simp_all add: ext2_read_def Let_def file_priv_def [symmetric] file_ei_def [symmetric]
        c1_def page_free1_def flip: not_le)
  moreover have "io_same s ?u"
    by (rule io_same_trans [OF io_same_trans [OF io_same_vk t(3)] io_same_vk])
  moreover have "bytes_of ?u a = (if unat (a - out) < unat d
       then file_byte img ?p ?ei (o1 + unat (a - out)) else bytes_of s a)" if "page_of a \<notin># F" for a
  proof -
    have "page_of a \<notin># F'" "page_of a \<noteq> page_of b" using that b(4) by auto
    moreover have "kbytes k2 a = bytes_of t a" "kbytes k a = bytes_of s a"
      using that k2(3) b(6) by (simp_all add: pg_frame_def)
    ultimately show ?thesis using t(5) [of a] by simp
  qed
  ultimately show ?thesis using t(2) k2(2) by (intro exI [of _ d] exI [of _ ?u]) simp
qed

section \<open>The properties\<close>

text \<open>A machine with one 512-byte-sector disk that holds \<open>img\<close>, a mounted file system with
  1024-byte blocks, and a file of 10 bytes in block 5.\<close>

definition ram_disk :: "image \<Rightarrow> 'x blks_scheme blk_env" where
  "ram_disk img = \<lparr>submit_of = (\<lambda>_. answer img), irq = (\<lambda>_. None), frame = 0x10\<rparr>"

definition sample_priv :: ext2_priv where
  "sample_priv = \<lparr>xdev = 1, block_size = 1024, blocks_per_group = 8192, inodes_per_group = 16,
     inode_size = 128, num_groups = 1, first_inode = 11, bgdt = 0, bgdt_pages = 1\<rparr>"

definition sample_ei :: ext2_inode where
  "sample_ei = \<lparr>ei_mode = 0x81A4, ei_uid = 0, ei_size_low = 10, ei_atime = 0, ei_ctime = 0,
     ei_mtime = 0, ei_dtime = 0, ei_gid = 0, ei_links_count = 1, ei_blocks_count = 2, ei_flags = 0,
     ei_os1 = 0, ei_block = (replicate 15 0)[0 := 5, 12 := 7], ei_generation = 0, ei_file_acl = 0,
     ei_size_high = 0, ei_faddr = 0, ei_os2 = replicate 12 0\<rparr>"

definition sample_fs :: "kmem \<Rightarrow> ext2s" where
  "sample_fs k = blks.extend
     ((boot_blks k)\<lparr>blk_devices := (replicate 8 no_device)[0 := no_device\<lparr>sector_size := 512\<rparr>]\<rparr>)
     (ext2s.fields (\<lambda>_. sample_ei) (\<lambda>_. sample_priv))"

lemma sample_fs_simps [simp]:
  "vk (sample_fs k) = k" "file_priv (sample_fs k) f = sample_priv" "file_ei (sample_fs k) f = sample_ei"
  "fpos (files (sample_fs k) f) = 0" "dev_at (sample_fs k) 1 = no_device\<lparr>sector_size := 512\<rparr>"
  "length (blk_devices (sample_fs k)) = 8"
  by (simp_all add: sample_fs_def blks.defs ext2s.defs boot_blks_def file_priv_def file_ei_def zero_file_def
      dev_at_def)

lemma sample_ready: "ready (ram_disk img) img sample_priv (sample_fs k)"
proof -
  have "image_disk (ram_disk img) img a" for a
    by (simp add: image_disk_def ram_disk_def)
  then show ?thesis by (simp add: ready_def sample_priv_def no_device_def)
qed

lemma sample_size: "unat (ei_size sample_ei) = 10" "ei_size sample_ei = 10"
  by (simp_all add: ei_size_def sample_ei_def)

text \<open>
  C10: the block map follows the pointer tree on the disk: direct, singly, doubly and triply
  indirect blocks are found where the image says, a missing pointer on the way gives 0, and
  the pages taken for the pointer blocks are all given back.
\<close>

theorem ext2_block_map_follows_tree:
  assumes "ready E img p s" "buddy_ok (vk s) F" "F \<noteq> {#}" "mappable p (unat lbn)"
  shows "\<exists>t. ext2_block_map E p ei lbn s = Some (file_block img p ei (unat lbn), t) \<and>
    io_same s t \<and> buddy_ok (vk t) F \<and> pg_frame F (bytes_of s) (bytes_of t)"
  using block_map_ok [OF assms, of ei] by (simp add: keeps_def)

theorem ext2_block_map_follows_tree_witness:
  "\<exists>k t. ext2_block_map (ram_disk (\<lambda>i. word_of_nat (i div 4))) sample_priv sample_ei 14 (sample_fs k) =
     Some (0x02020202, t)"
proof -
  have four: "img_le f i 4 = unat (f i) + 256 * (unat (f (i + 1)) + 256 * (unat (f (i + 2)) + 256 * unat (f (i + 3))))"
    for f i
  proof -
    have 4: "(4 :: nat) = Suc (Suc (Suc (Suc 0)))" by simp
    have 3: "i + 1 + 1 = i + 2" "i + 2 + 1 = i + 3" by simp_all
    show ?thesis unfolding 4 img_le.simps 3 by simp
  qed
  have "ptr (\<lambda>i. word_of_nat (i div 4)) sample_priv 7 2 = 0x02020202"
    by (simp add: ptr_def four sample_priv_def)
  moreover have "file_block f sample_priv sample_ei 14 = ptr f sample_priv 7 2" for f
    by (simp add: file_block_def sample_priv_def sample_ei_def del: One_nat_def)
  ultimately have v: "file_block (\<lambda>i. word_of_nat (i div 4)) sample_priv sample_ei 14 = 0x02020202"
    by (simp only:)
  obtain k F where k: "buddy_ok k F" "size F = 3" using three_pages by blast
  have "F \<noteq> {#}" "mappable sample_priv (unat (14 :: u32))"
    using k(2) by (auto simp: mappable_def sample_priv_def)
  from ext2_block_map_follows_tree [OF sample_ready _ this, of k "\<lambda>i. word_of_nat (i div 4)" sample_ei] k(1)
  show ?thesis by (auto simp: v)
qed

text \<open>
  C9: reading an open ext2 file delivers the bytes of the file at its position, as far as the
  file, the request and the first hole go; the position moves by their number, memory outside
  the buffer and the free pages is unchanged, and no page is lost. A hole ends the read: what is
  behind it is never delivered.
\<close>

theorem ext2_read_delivers:
  assumes "ready E img (file_priv s f) s" "buddy_ok (vk s) F" "2 \<le> size F"
    and "fpos (files s f) < ei_size (file_ei s f)"
    and "unat (fpos (files s f)) + unat cnt < 2 ^ 64"
    and "\<forall>i < unat (ei_size (file_ei s f)). mappable (file_priv s f) (i div bs (file_priv s f))"
    and "\<forall>a. unat (a - out) < unat cnt \<longrightarrow> page_of a \<notin># F"
  shows "\<exists>d t. ext2_read E s f out cnt = Some (d, upd_file f (\<lambda>x. x\<lparr>fpos := fpos (files s f) + d\<rparr>) t) \<and>
    unat d = span img (file_priv s f) (file_ei s f) (unat (fpos (files s f)))
      (min (unat (fpos (files s f)) + unat cnt) (unat (ei_size (file_ei s f)))) \<and>
    io_same s t \<and> buddy_ok (vk t) F \<and>
    (\<forall>a. page_of a \<notin># F \<longrightarrow> bytes_of t a = (if unat (a - out) < unat d
       then file_byte img (file_priv s f) (file_ei s f) (unat (fpos (files s f)) + unat (a - out))
       else bytes_of s a))"
  using ext2_read_ok [OF assms(1-5), of out] assms(6,7) by blast

theorem ext2_read_delivers_witness:
  "\<exists>k t. ext2_read (ram_disk word_of_nat) (sample_fs k) 0 boot_pml4 4 = Some (4, t) \<and>
     bytes_of t (boot_pml4 + 2) = word_of_nat (5 * 1024 + 2)"
proof -
  obtain k F where k: "buddy_ok k F" "size F = 3" "page_of boot_pml4 \<notin># F" using three_pages by blast
  let ?s = "sample_fs k" and ?E = "ram_disk word_of_nat" and ?img = "word_of_nat :: image"
  have al: "pg_aligned boot_pml4" by (simp add: pg_aligned_def boot_pml4_def hhdm0_def)
  have win: "page_of a = page_of boot_pml4" if "unat (a - boot_pml4) < 4" for a
    using page_bytes [OF al, of a] that by simp
  have blk: "file_block ?img sample_priv sample_ei 0 = 5"
    by (simp add: file_block_def sample_ei_def)
  have sp: "span ?img sample_priv sample_ei 0 4 = 4"
  proof -
    have "span ?img sample_priv sample_ei 0 4 = 4 + span ?img sample_priv sample_ei (0 + 4) 4"
      by (rule span_step) (use blk in \<open>simp_all add: sample_priv_def\<close>)
    then show ?thesis by simp
  qed
  have rdy: "ready ?E ?img (file_priv ?s 0) ?s" using sample_ready by simp
  have "buddy_ok (vk ?s) F" "2 \<le> size F" "fpos (files ?s 0) < ei_size (file_ei ?s 0)"
    "unat (fpos (files ?s 0)) + unat (4 :: u64) < 2 ^ 64"
    using k by (simp_all add: sample_size)
  moreover have "\<forall>i < unat (ei_size (file_ei ?s 0)). mappable (file_priv ?s 0) (i div bs (file_priv ?s 0))"
  proof (intro allI impI)
    fix i assume "i < unat (ei_size (file_ei ?s 0))"
    then have "i div bs (file_priv ?s 0) = 0" by (simp add: sample_size sample_priv_def)
    then show "mappable (file_priv ?s 0) (i div bs (file_priv ?s 0))"
      by (simp add: mappable_def Let_def)
  qed
  moreover have "\<forall>a. unat (a - boot_pml4) < unat (4 :: u64) \<longrightarrow> page_of a \<notin># F"
  proof (intro allI impI)
    fix a assume "unat (a - boot_pml4) < unat (4 :: u64)"
    then have "page_of a = page_of boot_pml4" by (intro win) simp
    then show "page_of a \<notin># F" using k(3) by metis
  qed
  ultimately obtain d t where d0: "ext2_read ?E ?s 0 boot_pml4 4 =
      Some (d, upd_file 0 (\<lambda>x. x\<lparr>fpos := fpos (files ?s 0) + d\<rparr>) t)"
    "unat d = span ?img (file_priv ?s 0) (file_ei ?s 0) (unat (fpos (files ?s 0)))
      (min (unat (fpos (files ?s 0)) + unat (4 :: u64)) (unat (ei_size (file_ei ?s 0))))"
    "\<forall>a. page_of a \<notin># F \<longrightarrow> bytes_of t a = (if unat (a - boot_pml4) < unat d
       then file_byte ?img (file_priv ?s 0) (file_ei ?s 0) (unat (fpos (files ?s 0)) + unat (a - boot_pml4))
       else bytes_of ?s a)"
    using ext2_read_delivers [OF rdy, of F 4 boot_pml4] by blast
  have d: "ext2_read ?E ?s 0 boot_pml4 4 = Some (d, upd_file 0 (\<lambda>x. x\<lparr>fpos := 0 + d\<rparr>) t)" "unat d = 4"
    using d0(1,2) sp by (simp_all add: sample_size)
  have "d = 4" using d(2) by (simp add: word_unat_eq_iff)
  moreover have "bytes_of t (boot_pml4 + 2) = word_of_nat (5 * 1024 + 2)"
  proof -
    have "page_of (boot_pml4 + 2) \<notin># F" using win [of "boot_pml4 + 2"] k(3) by simp
    then have "bytes_of t (boot_pml4 + 2) = file_byte ?img sample_priv sample_ei 2"
      using d0(3) [rule_format, of "boot_pml4 + 2"] d(2)
      by (simp flip: numeral_2_eq_2)
    then show ?thesis using blk by (simp add: file_byte_def sample_priv_def)
  qed
  moreover have "bytes_of (upd_file f g t) = bytes_of t" for f g by (simp add: upd_file_def)
  ultimately show ?thesis using d(1) by (intro exI [of _ k] exI [of _ "upd_file 0 (\<lambda>x. x\<lparr>fpos := 0 + d\<rparr>) t"]) simp
qed

end
