(* ===== verification/Devfs.thy ===== *)
theory Devfs
  imports Ext2 Print Ps2
begin

text \<open>
  The device file system: \<^verbatim>\<open>kernel/devfs.c\<close>. The registry of device nodes, the directory, and
  the files \<^verbatim>\<open>null\<close>, \<^verbatim>\<open>zero\<close>, \<^verbatim>\<open>cons\<close>, \<^verbatim>\<open>fb\<close>, \<^verbatim>\<open>fbctl\<close> and those of block devices. The state adds the
  nodes to the state of the block layer and the file systems, the output (serial port and
  console), the keyboard and mouse driver, and the address of the framebuffer.
\<close>

section \<open>State\<close>

record devfs_node =
  n_name :: cstr
  n_name_len :: u16
  n_ino :: u64
  n_mode :: u32
  n_fops :: addr
  n_priv :: addr
  n_in_use :: u8

record devs = ext2s +
  g_nodes :: "devfs_node list"
  dev_next_ino :: u32
  dout :: outs
  dps2 :: ps2
  fb_addr :: addr

text \<open>The addresses of the static operation tables.\<close>

record dev_addrs =
  a_dir_iops :: addr
  a_node_iops :: addr
  a_dir_fops :: addr
  a_null :: addr
  a_zero :: addr
  a_blk :: addr
  a_cons :: addr
  a_fb :: addr
  a_fbctl :: addr

abbreviation (input) DEVFS_MAX_NODES :: nat where "DEVFS_MAX_NODES \<equiv> 64"
abbreviation (input) VFS_S_IFBLK :: u32 where "VFS_S_IFBLK \<equiv> 0x6000"

definition free_entry :: devfs_node where
  "free_entry = \<lparr>n_name = [], n_name_len = 0, n_ino = 0, n_mode = 0, n_fops = 0, n_priv = 0, n_in_use = 0\<rparr>"

section \<open>The registry\<close>

fun node_named :: "devfs_node list \<Rightarrow> cstr \<Rightarrow> nat \<Rightarrow> nat option" where
  "node_named [] name i = None"
| "node_named (n # ns) name i =
     (if n_in_use n \<noteq> 0 \<and> kstrcmp (Some (n_name n)) (Some name) = 0 then Some i
      else node_named ns name (i + 1))"

fun free_node :: "devfs_node list \<Rightarrow> nat \<Rightarrow> nat option" where
  "free_node [] i = None"
| "free_node (n # ns) i = (if n_in_use n = 0 then Some i else free_node ns (i + 1))"

definition devfs_register :: "cstr option \<Rightarrow> u32 \<Rightarrow> addr \<Rightarrow> addr \<Rightarrow> 'x devs_scheme \<Rightarrow> i32 \<times> 'x devs_scheme" where
  "devfs_register name mode fo priv s =
     (case name of None \<Rightarrow> (VFS_EINVAL, s)
      | Some nm \<Rightarrow>
          if fo = 0 then (VFS_EINVAL, s)
          else let nlen = kstrlen (Some nm) in
            if nlen = 0 \<or> 64 \<le> nlen then (VFS_EINVAL, s)
            else if node_named (g_nodes s) nm 0 \<noteq> None then (VFS_EEXIST, s)
            else case free_node (g_nodes s) 0 of None \<Rightarrow> (VFS_ENOMEM, s)
            | Some i \<Rightarrow>
                (VFS_OK, s\<lparr>g_nodes := (g_nodes s)[i := \<lparr>n_name = take (unat nlen) nm,
                   n_name_len = ucast nlen, n_ino = ucast (dev_next_ino s), n_mode = mode, n_fops = fo,
                   n_priv = priv, n_in_use = 1\<rparr>], dev_next_ino := dev_next_ino s + 1\<rparr>))"

definition devfs_unregister :: "cstr option \<Rightarrow> 'x devs_scheme \<Rightarrow> i32 \<times> 'x devs_scheme" where
  "devfs_unregister name s =
     (case name of None \<Rightarrow> (VFS_EINVAL, s)
      | Some nm \<Rightarrow>
          (case node_named (g_nodes s) nm 0 of None \<Rightarrow> (VFS_ENOENT, s)
           | Some i \<Rightarrow>
               (VFS_OK, s\<lparr>g_nodes := (g_nodes s)[i := (g_nodes s ! i)\<lparr>n_in_use := 0\<rparr>]\<rparr>)))"

text \<open>The comparison of \<open>k\<close> characters from index \<open>j\<close> on.\<close>

fun chars_match :: "cstr \<Rightarrow> cstr \<Rightarrow> nat \<Rightarrow> nat \<Rightarrow> bool" where
  "chars_match a b j 0 = True"
| "chars_match a b j (Suc k) = (if ch a j \<noteq> ch b j then False else chars_match a b (j + 1) k)"

fun find_node :: "devfs_node list \<Rightarrow> cstr \<Rightarrow> u16 \<Rightarrow> devfs_node option" where
  "find_node [] name len = None"
| "find_node (n # ns) name len =
     (if n_in_use n \<noteq> 0 \<and> n_name_len n = len \<and> chars_match (n_name n) name 0 (unat len) then Some n
      else find_node ns name len)"

definition devfs_find :: "cstr \<Rightarrow> u16 \<Rightarrow> 'x devs_scheme \<Rightarrow> devfs_node option" where
  "devfs_find name len s = find_node (g_nodes s) name len"

section \<open>Inodes and the directory\<close>

definition devfs_make_root :: "dev_addrs \<Rightarrow> addr \<Rightarrow> 'x vfs_scheme \<Rightarrow> (addr \<times> 'x vfs_scheme) option" where
  "devfs_make_root A sb s = do {
     (v, s1) \<leftarrow> page_alloc1 s;
     if v = 0 then Some (0, s1)
     else Some (v, upd_inode v (\<lambda>_. \<lparr>ino = 1, imode = VFS_S_IFDIR OR 0x1ED, irefcnt = 1, isb = sb,
            iops = a_dir_iops A, fops = a_dir_fops A, ipriv = 0\<rparr>) s1)
   }"

definition devfs_make_node_inode :: "dev_addrs \<Rightarrow> addr \<Rightarrow> devfs_node \<Rightarrow> 'x vfs_scheme \<Rightarrow>
    (addr \<times> 'x vfs_scheme) option" where
  "devfs_make_node_inode A sb n s = do {
     (v, s1) \<leftarrow> page_alloc1 s;
     if v = 0 then Some (0, s1)
     else Some (v, upd_inode v (\<lambda>_. \<lparr>ino = n_ino n, imode = n_mode n, irefcnt = 1, isb = sb,
            iops = a_node_iops A, fops = n_fops n, ipriv = n_priv n\<rparr>) s1)
   }"

definition devfs_dir_lookup :: "dev_addrs \<Rightarrow> 'x devs_scheme \<Rightarrow> addr \<Rightarrow> addr \<Rightarrow>
    (i32 \<times> 'x devs_scheme) option" where
  "devfs_dir_lookup A s dir child =
     (case devfs_find (dname (dents s child)) (dname_len (dents s child)) s of
        None \<Rightarrow> Some (VFS_ENOENT, s)
      | Some n \<Rightarrow> do {
          (v, s1) \<leftarrow> devfs_make_node_inode A (isb (inodes s dir)) n s;
          if v = 0 then Some (VFS_ENOMEM, s1)
          else Some (VFS_OK, upd_dent child (\<lambda>e. e\<lparr>dinode := v\<rparr>) s1)
        })"

text \<open>Fields \<^verbatim>\<open>getattr\<close> does not set keep the caller's values, here given as 0.\<close>

definition devfs_attr :: "u32 \<Rightarrow> 'x vfs_scheme \<Rightarrow> addr \<Rightarrow> (i32 \<times> vstat \<times> 'x vfs_scheme) option" where
  "devfs_attr links s v = Some (VFS_OK, \<lparr>st_ino = ino (inodes s v), st_mode = imode (inodes s v),
     st_nlink = links, st_uid = 0, st_gid = 0, st_size = 0, st_blocks = 0, st_atime = 0,
     st_mtime = 0, st_ctime = 0\<rparr>, s)"

definition devfs_dir_getattr :: "'x vfs_scheme \<Rightarrow> addr \<Rightarrow> (i32 \<times> vstat \<times> 'x vfs_scheme) option" where
  "devfs_dir_getattr = devfs_attr 2"

definition devfs_node_getattr :: "'x vfs_scheme \<Rightarrow> addr \<Rightarrow> (i32 \<times> vstat \<times> 'x vfs_scheme) option" where
  "devfs_node_getattr = devfs_attr 1"

definition devfs_dir_open :: "'x vfs_scheme \<Rightarrow> addr \<Rightarrow> addr \<Rightarrow> (i32 \<times> 'x vfs_scheme) option" where
  "devfs_dir_open s inode f = Some (VFS_OK, s)"

definition devfs_dir_close :: "'x vfs_scheme \<Rightarrow> addr \<Rightarrow> (i32 \<times> 'x vfs_scheme) option" where
  "devfs_dir_close s f = Some (VFS_OK, s)"

text \<open>The first node in use from index \<open>i\<close> on, with the index after it.\<close>

fun next_node :: "devfs_node list \<Rightarrow> nat \<Rightarrow> (nat \<times> devfs_node) option" where
  "next_node [] i = None"
| "next_node (n # ns) i = (if n_in_use n = 0 then next_node ns (i + 1) else Some (i + 1, n))"

definition dirent_type :: "u32 \<Rightarrow> u8" where
  "dirent_type mode =
     (let t = mode AND VFS_S_IFMT
      in if t = VFS_S_IFCHR then 3 else if t = VFS_S_IFBLK then 4
         else if t = VFS_S_IFREG then 1 else 0)"

definition devfs_readdir :: "'x devs_scheme \<Rightarrow> addr \<Rightarrow>
    ((i32 \<times> vdirent option) \<times> 'x devs_scheme) option" where
  "devfs_readdir s f =
     (let idx = unat (ucast (fpos (files s f)) :: u32)
      in case next_node (drop idx (g_nodes s)) idx of
           None \<Rightarrow> Some ((VFS_ENOENT, None), s)
         | Some (i, n) \<Rightarrow>
             Some ((VFS_OK, Some \<lparr>de_ino = n_ino n, de_reclen = 272, de_type = dirent_type (n_mode n),
                 de_name = take (unat (n_name_len n)) (n_name n)\<rparr>),
               upd_file f (\<lambda>e. e\<lparr>fpos := word_of_nat i\<rparr>) s))"

definition devfs_dir_iops :: "dev_addrs \<Rightarrow> 'x devs_scheme viops" where
  "devfs_dir_iops A = no_iops\<lparr>op_lookup := Some (devfs_dir_lookup A), op_getattr := Some devfs_dir_getattr\<rparr>"

definition devfs_node_iops :: "'x devs_scheme viops" where
  "devfs_node_iops = no_iops\<lparr>op_getattr := Some devfs_node_getattr\<rparr>"

definition devfs_dir_fops :: "'x devs_scheme vfops" where
  "devfs_dir_fops = no_fops\<lparr>op_open := Some devfs_dir_open, op_close := Some devfs_dir_close\<rparr>"

section \<open>Null and zero\<close>

text \<open>\<^verbatim>\<open>*off += n\<close>, where \<^verbatim>\<open>off\<close> is the file's own position.\<close>

definition advance :: "addr \<Rightarrow> u64 \<Rightarrow> 'x vfs_scheme \<Rightarrow> 'x vfs_scheme" where
  "advance f n = upd_file f (\<lambda>e. e\<lparr>fpos := fpos e + n\<rparr>)"

definition null_read :: "'x vfs_scheme \<Rightarrow> addr \<Rightarrow> addr \<Rightarrow> u64 \<Rightarrow> (i64 \<times> 'x vfs_scheme) option" where
  "null_read s f buf cnt = Some (0, s)"

definition null_write :: "'x vfs_scheme \<Rightarrow> addr \<Rightarrow> addr \<Rightarrow> u64 \<Rightarrow> (i64 \<times> 'x vfs_scheme) option" where
  "null_write s f buf cnt = Some (cnt, advance f cnt s)"

definition null_fops :: "'x vfs_scheme vfops" where
  "null_fops = no_fops\<lparr>op_read := Some null_read, op_write := Some null_write\<rparr>"

definition zero_read :: "'x vfs_scheme \<Rightarrow> addr \<Rightarrow> addr \<Rightarrow> u64 \<Rightarrow> (i64 \<times> 'x vfs_scheme) option" where
  "zero_read s f buf cnt = Some (cnt, advance f cnt (set_bytes (memset (bytes_of s) buf 0 cnt) s))"

definition zero_fops :: "'x vfs_scheme vfops" where
  "zero_fops = no_fops\<lparr>op_read := Some zero_read, op_write := Some null_write\<rparr>"

section \<open>Block devices as files\<close>

text \<open>First sector, number of sectors and pages for a transfer of \<open>cnt\<close> bytes at \<open>off\<close>.\<close>

definition sector_span :: "u64 \<Rightarrow> u64 \<Rightarrow> u32 \<Rightarrow> (u64 \<times> u64 \<times> u64) option" where
  "sector_span off cnt ss = do {
     start_sec \<leftarrow> udiv off (ucast ss);
     end_sec \<leftarrow> udiv (off + cnt + ucast ss - 1) (ucast ss);
     let nsecs = end_sec - start_sec;
     let buf_pages = (nsecs * ucast ss + PAGE_SIZE - 1) div PAGE_SIZE;
     Some (start_sec, nsecs, if buf_pages = 0 then 1 else buf_pages)
   }"

definition blkdev_read :: "'x devs_scheme blk_env \<Rightarrow> 'x devs_scheme \<Rightarrow> addr \<Rightarrow> addr \<Rightarrow> u64 \<Rightarrow>
    (i64 \<times> 'x devs_scheme) option" where
  "blkdev_read E s f buf cnt =
     (let dev = ipriv (inodes s (finode (files s f))); ss = sector_size (dev_at s dev) in do {
        (start_sec, nsecs, buf_pages) \<leftarrow> sector_span (fpos (files s f)) cnt ss;
        (tmp, s1) \<leftarrow> alloc_pages s buf_pages;
        if tmp = 0 then Some (VFS_ENOMEM, s1)
        else do {
          (rc, s2) \<leftarrow> blk_read E dev start_sec (ucast nsecs) tmp s1;
          if rc \<noteq> 0 then do { s3 \<leftarrow> free_pages_at s2 tmp buf_pages; Some (- 1, s3) }
          else do {
            let delta = fpos (files s2 f) - start_sec * ucast ss;
            let avail0 = nsecs * ucast ss - delta;
            let avail = (if cnt < avail0 then cnt else avail0);
            let s3 = set_bytes (memcpy (bytes_of s2) buf (tmp + delta) avail) s2;
            s4 \<leftarrow> free_pages_at s3 tmp buf_pages;
            Some (avail, advance f avail s4)
          }
        }
      })"

definition blkdev_write :: "'x devs_scheme blk_env \<Rightarrow> 'x devs_scheme \<Rightarrow> addr \<Rightarrow> addr \<Rightarrow> u64 \<Rightarrow>
    (i64 \<times> 'x devs_scheme) option" where
  "blkdev_write E s f buf cnt =
     (let dev = ipriv (inodes s (finode (files s f))); ss = sector_size (dev_at s dev) in do {
        (start_sec, nsecs, buf_pages) \<leftarrow> sector_span (fpos (files s f)) cnt ss;
        (tmp, s1) \<leftarrow> alloc_pages s buf_pages;
        if tmp = 0 then Some (VFS_ENOMEM, s1)
        else do {
          (_, s2) \<leftarrow> blk_read E dev start_sec (ucast nsecs) tmp s1;
          let delta = fpos (files s2 f) - start_sec * ucast ss;
          let s3 = set_bytes (memcpy (bytes_of s2) (tmp + delta) buf cnt) s2;
          (rc, s4) \<leftarrow> blk_write E dev start_sec (ucast nsecs) tmp s3;
          s5 \<leftarrow> free_pages_at s4 tmp buf_pages;
          if rc \<noteq> 0 then Some (- 1, s5) else Some (cnt, advance f cnt s5)
        }
      })"

definition blkdev_llseek :: "'x vfs_scheme \<Rightarrow> addr \<Rightarrow> u64 \<Rightarrow> i32 \<Rightarrow> (u64 \<times> 'x vfs_scheme) option" where
  "blkdev_llseek s f off whence =
     (if whence = VFS_SEEK_SET then Some (off, upd_file f (\<lambda>e. e\<lparr>fpos := off\<rparr>) s)
      else if whence = VFS_SEEK_CUR then Some (fpos (files s f) + off, advance f off s)
      else Some (VFS_EINVAL, s))"

definition blkdev_fops :: "'x devs_scheme blk_env \<Rightarrow> 'x devs_scheme vfops" where
  "blkdev_fops E = no_fops\<lparr>op_read := Some (blkdev_read E), op_write := Some (blkdev_write E),
     op_llseek := Some blkdev_llseek\<rparr>"

text \<open>\<open>dev\<close> is a device of the block layer's table; its name is the bytes before the first zero.\<close>

definition devfs_register_blk :: "dev_addrs \<Rightarrow> addr \<Rightarrow> 'x devs_scheme \<Rightarrow> i32 \<times> 'x devs_scheme" where
  "devfs_register_blk A dev s =
     (if dev = 0 then (VFS_EINVAL, s)
      else devfs_register (Some (dev_name (dev_at s dev))) (VFS_S_IFBLK OR 0x180) (a_blk A) dev s)"

section \<open>The console\<close>

definition cons_read :: "'x devs_scheme \<Rightarrow> addr \<Rightarrow> addr \<Rightarrow> u64 \<Rightarrow> (i64 \<times> 'x devs_scheme) option" where
  "cons_read s f buf cnt =
     (let n = ucast cnt :: u32;
          n1 = (if KBD_BUF_LEN < n then KBD_BUF_LEN else n);
          (out, r) = ring_read (kbd_ring_buf (dps2 s)) n1
      in Some (word_of_nat (length out),
           set_bytes (wr_bytes (bytes_of s) buf out) (s\<lparr>dps2 := (dps2 s)\<lparr>kbd_ring_buf := r\<rparr>\<rparr>)))"

fun put_bytes :: "mem \<Rightarrow> addr \<Rightarrow> u64 \<Rightarrow> nat \<Rightarrow> outs \<Rightarrow> outs" where
  "put_bytes m p i 0 t = t"
| "put_bytes m p i (Suc k) t = put_bytes m p (i + 1) k (putc (m (p + i)) t)"

definition cons_write :: "'x devs_scheme \<Rightarrow> addr \<Rightarrow> addr \<Rightarrow> u64 \<Rightarrow> (i64 \<times> 'x devs_scheme) option" where
  "cons_write s f buf cnt =
     Some (cnt, advance f cnt (s\<lparr>dout := put_bytes (bytes_of s) buf 0 (unat cnt) (dout s)\<rparr>))"

definition cons_fops :: "'x devs_scheme vfops" where
  "cons_fops = no_fops\<lparr>op_read := Some cons_read, op_write := Some cons_write\<rparr>"

section \<open>The framebuffer\<close>

text \<open>The bytes of the 32-bit pixels, least significant first, and the copies from and to them.\<close>

definition fb_byte :: "kconsole \<Rightarrow> u64 \<Rightarrow> u8" where
  "fb_byte c off = ucast (drop_bit (8 * unat (off mod 4)) (fb c (ucast (off div 4))))"

definition set_fb_byte :: "u64 \<Rightarrow> u8 \<Rightarrow> kconsole \<Rightarrow> kconsole" where
  "set_fb_byte off v c =
     (let i = ucast (off div 4) :: u32; k = 8 * unat (off mod 4)
      in c\<lparr>fb := (fb c)(i := (fb c i AND NOT (push_bit k 0xFF)) OR push_bit k (ucast v))\<rparr>)"

fun fb_to_mem :: "kconsole \<Rightarrow> u64 \<Rightarrow> mem \<Rightarrow> addr \<Rightarrow> u64 \<Rightarrow> nat \<Rightarrow> mem" where
  "fb_to_mem c off m d i 0 = m"
| "fb_to_mem c off m d i (Suc k) = fb_to_mem c off (m(d + i := fb_byte c (off + i))) d (i + 1) k"

fun mem_to_fb :: "mem \<Rightarrow> addr \<Rightarrow> u64 \<Rightarrow> u64 \<Rightarrow> nat \<Rightarrow> kconsole \<Rightarrow> kconsole" where
  "mem_to_fb m p off i 0 c = c"
| "mem_to_fb m p off i (Suc k) c = mem_to_fb m p off (i + 1) k (set_fb_byte (off + i) (m (p + i)) c)"

definition fb_clip :: "u64 \<Rightarrow> u64 \<Rightarrow> u64 \<Rightarrow> u64" where
  "fb_clip off cnt sz = (if sz < off + cnt then sz - off else cnt)"

definition fb_dev_read :: "'x devs_scheme \<Rightarrow> addr \<Rightarrow> addr \<Rightarrow> u64 \<Rightarrow> (i64 \<times> 'x devs_scheme) option" where
  "fb_dev_read s f buf cnt =
     (let off = fpos (files s f); con = tcon (dout s); sz = kconsole_get_size con in
      if fb_addr s = 0 \<or> sz \<le> off then Some (0, s)
      else let n = fb_clip off cnt sz
        in Some (n, advance f n (set_bytes (fb_to_mem con off (bytes_of s) buf 0 (unat n)) s)))"

definition fb_dev_write :: "'x devs_scheme \<Rightarrow> addr \<Rightarrow> addr \<Rightarrow> u64 \<Rightarrow> (i64 \<times> 'x devs_scheme) option" where
  "fb_dev_write s f buf cnt =
     (let off = fpos (files s f); con = tcon (dout s); sz = kconsole_get_size con in
      if fb_addr s = 0 \<or> sz \<le> off then Some (0, s)
      else let n = fb_clip off cnt sz
        in Some (n, advance f n
             (s\<lparr>dout := (dout s)\<lparr>tcon := mem_to_fb (bytes_of s) buf off 0 (unat n) con\<rparr>\<rparr>)))"

definition fb_dev_llseek :: "'x devs_scheme \<Rightarrow> addr \<Rightarrow> u64 \<Rightarrow> i32 \<Rightarrow> (u64 \<times> 'x devs_scheme) option" where
  "fb_dev_llseek s f off whence =
     (let sz = kconsole_get_size (tcon (dout s));
          pos = (if whence = VFS_SEEK_SET then Some off
                 else if whence = VFS_SEEK_CUR then Some (fpos (files s f) + off)
                 else if whence = VFS_SEEK_END then Some (sz + off) else None)
      in case pos of None \<Rightarrow> Some (VFS_EINVAL, s)
         | Some p \<Rightarrow>
             let newpos = (if sz < p then sz else p)
             in Some (newpos, upd_file f (\<lambda>e. e\<lparr>fpos := newpos\<rparr>) s))"

definition fb_fops :: "'x devs_scheme vfops" where
  "fb_fops = no_fops\<lparr>op_read := Some fb_dev_read, op_write := Some fb_dev_write,
     op_llseek := Some fb_dev_llseek\<rparr>"

text \<open>The text of \<^verbatim>\<open>fbctl\<close>, built in a buffer of 64 bytes with room for a terminator.\<close>

abbreviation (input) FBCTL_BUF_LEN :: nat where "FBCTL_BUF_LEN \<equiv> 64"

fun append_str :: "u8 list \<Rightarrow> cstr \<Rightarrow> u8 list" where
  "append_str t [] = t"
| "append_str t (c # s) = (if length t < FBCTL_BUF_LEN - 1 then append_str (t @ [c]) s else t)"

text \<open>The digits, least significant first.\<close>

function dec_rev :: "u32 \<Rightarrow> u8 list" where
  "dec_rev v = (if v = 0 then [] else (0x30 + ucast (v mod 10)) # dec_rev (v div 10))"
  by pat_completeness auto
termination
  by (relation "measure unat") (auto simp: unat_div unat_gt_0)

declare dec_rev.simps [simp del]

definition append_u32 :: "u8 list \<Rightarrow> u32 \<Rightarrow> u8 list" where
  "append_u32 t v = append_str t (rev (if v = 0 then [0x30] else dec_rev v))"

definition fbctl_text :: "kconsole \<Rightarrow> u8 list" where
  "fbctl_text c =
     (let (w, h, p, bpp) = kconsole_get_info c;
          t1 = append_u32 (append_str [] [119, 105, 100, 116, 104, 61]) w;
          t2 = append_u32 (append_str t1 [32, 104, 101, 105, 103, 104, 116, 61]) h;
          t3 = append_u32 (append_str t2 [32, 112, 105, 116, 99, 104, 61]) p;
          t4 = append_u32 (append_str t3 [32, 98, 112, 112, 61]) bpp
      in append_str t4 [10])"

definition fbctl_read :: "'x devs_scheme \<Rightarrow> addr \<Rightarrow> addr \<Rightarrow> u64 \<Rightarrow> (i64 \<times> 'x devs_scheme) option" where
  "fbctl_read s f buf cnt =
     (let tmp = fbctl_text (tcon (dout s)); len = word_of_nat (length tmp); off = fpos (files s f) in
      if len \<le> off then Some (0, s)
      else let avail0 = len - off; avail = (if cnt < avail0 then cnt else avail0)
        in Some (avail, advance f avail
             (set_bytes (wr_bytes (bytes_of s) buf (take (unat avail) (drop (unat off) tmp))) s)))"

definition fbctl_fops :: "'x devs_scheme vfops" where
  "fbctl_fops = no_fops\<lparr>op_read := Some fbctl_read\<rparr>"

definition devfs_register_fb :: "dev_addrs \<Rightarrow> 'x devs_scheme \<Rightarrow> 'x devs_scheme" where
  "devfs_register_fb A s =
     (let s1 = snd (devfs_register (Some [102, 98]) (VFS_S_IFCHR OR 0x1B0) (a_fb A) 0 s)
      in snd (devfs_register (Some [102, 98, 99, 116, 108]) (VFS_S_IFCHR OR 0x124) (a_fbctl A) 0 s1))"

section \<open>Mounting\<close>

definition devfs_mount_fs :: "dev_addrs \<Rightarrow> 'x vfs_scheme \<Rightarrow> addr \<Rightarrow> addr \<Rightarrow> cstr option \<Rightarrow>
    (i32 \<times> 'x vfs_scheme) option" where
  "devfs_mount_fs A s sb dev opts = do {
     (root_vino, s1) \<leftarrow> devfs_make_root A sb s;
     if root_vino = 0 then Some (VFS_ENOMEM, s1)
     else do {
       (root_dent, s2) \<leftarrow> page_alloc1 s1;
       if root_dent = 0 then do { s3 \<leftarrow> page_free1 s2 root_vino; Some (VFS_ENOMEM, s3) }
       else Some (VFS_OK, upd_super sb (\<lambda>b. b\<lparr>sbpriv := 0, sbroot := root_dent\<rparr>)
              (upd_dent root_dent (\<lambda>_. \<lparr>drefcnt = 1, dname = [slash], dname_len = 1,
                 dinode = root_vino, dparent = 0, dis_mountpoint = 0, dpriv = 0\<rparr>) s2))
     }
   }"

definition devfs_unmount :: "'x vfs_scheme \<Rightarrow> addr \<Rightarrow> 'x vfs_scheme option" where
  "devfs_unmount s sb = Some s"

definition devfs_fs_type :: "addr \<Rightarrow> addr \<Rightarrow> vfstype" where
  "devfs_fs_type ma ua = \<lparr>tname = Some [100, 101, 118, 102, 115], tmount = ma, tunmount = ua, tnext = 0\<rparr>"

text \<open>\<open>ta\<close> is the address of the static type object.\<close>

definition devfs_init :: "dev_addrs \<Rightarrow> addr \<Rightarrow> 'x devs_scheme \<Rightarrow> 'x devs_scheme option" where
  "devfs_init A ta s = do {
     (_, s1) \<leftarrow> vfs_register_fs ta s;
     let s2 = snd (devfs_register (Some [110, 117, 108, 108]) (VFS_S_IFCHR OR 0x1B6) (a_null A) 0 s1);
     let s3 = snd (devfs_register (Some [122, 101, 114, 111]) (VFS_S_IFCHR OR 0x1B6) (a_zero A) 0 s2);
     Some (snd (devfs_register (Some [99, 111, 110, 115]) (VFS_S_IFCHR OR 0x1B6) (a_cons A) 0 s3))
   }"

text \<open>The file operations behind the addresses of this file.\<close>

definition devfs_fops_of :: "'x devs_scheme blk_env \<Rightarrow> dev_addrs \<Rightarrow> (addr \<Rightarrow> 'x devs_scheme vfops) \<Rightarrow> addr \<Rightarrow>
    'x devs_scheme vfops" where
  "devfs_fops_of E A other a =
     (if a = a_dir_fops A then devfs_dir_fops else if a = a_null A then null_fops
      else if a = a_zero A then zero_fops else if a = a_blk A then blkdev_fops E
      else if a = a_cons A then cons_fops else if a = a_fb A then fb_fops
      else if a = a_fbctl A then fbctl_fops else other a)"

section \<open>The state before any device\<close>

text \<open>All static data as the loader leaves it, over the memory \<open>k\<close>.\<close>

definition boot_devs :: "kmem \<Rightarrow> devs" where
  "boot_devs k = \<lparr>vk = k, inodes = inodes (boot_blks k), dents = dents (boot_blks k),
     supers = (\<lambda>_. zero_super), mounts = (\<lambda>_. zero_mount), files = (\<lambda>_. zero_file),
     fstypes = fstypes (boot_blks k), g_fs_types = 0, g_mounts = 0, g_root_mnt = 0, g_root_dent = 0,
     g_dirs = boot_dirs, g_next_ino = 4, pipes = (\<lambda>_. new_pipe), breqs = (\<lambda>_. zero_req),
     blk_devices = replicate 8 no_device, blk_device_count = 0,
     einodes = (\<lambda>_. ld_inode (\<lambda>_. 0) 0), eprivs = (\<lambda>_. \<lparr>xdev = 0, block_size = 0, blocks_per_group = 0, inodes_per_group = 0,
       inode_size = 0, num_groups = 0, first_inode = 0, bgdt = 0, bgdt_pages = 0\<rparr>),
     g_nodes = replicate DEVFS_MAX_NODES free_entry, dev_next_ino = 2,
     dout = \<lparr>tserial = [], tcon = kconsole_reset\<rparr>, dps2 = ps2_boot, fb_addr = 0\<rparr>"

end
