(* ===== verification/Devfs_Spec.thy ===== *)
theory Devfs_Spec
  imports Devfs Ext2_Spec Print_Spec
begin

text \<open>
  What devfs guarantees: the registry is a finite map from names to nodes, the text of \<^verbatim>\<open>fbctl\<close> fits its
  buffer, and a read of a block device file delivers the bytes of the device at any offset.
\<close>

section \<open>The registry\<close>

definition named :: "cstr \<Rightarrow> devfs_node \<Rightarrow> bool" where
  "named x n \<longleftrightarrow> n_in_use n \<noteq> 0 \<and> n_name n = x"

definition node_ok :: "devfs_node \<Rightarrow> bool" where
  "node_ok n \<longleftrightarrow> wf_cstr (n_name n) \<and> length (n_name n) < 64 \<and> n_name_len n = word_of_nat (length (n_name n))"

text \<open>Nodes in use have proper names, no two the same.\<close>

definition reg_ok :: "'x devs_scheme \<Rightarrow> bool" where
  "reg_ok s \<longleftrightarrow> (\<forall>n \<in> set (g_nodes s). n_in_use n \<noteq> 0 \<longrightarrow> node_ok n) \<and>
     (\<forall>i < length (g_nodes s). \<forall>j < length (g_nodes s). \<forall>x.
        named x (g_nodes s ! i) \<longrightarrow> named x (g_nodes s ! j) \<longrightarrow> i = j)"

text \<open>The node that the directory's lookup finds for a name.\<close>

definition reg_map :: "'x devs_scheme \<Rightarrow> cstr \<Rightarrow> devfs_node option" where
  "reg_map s x = (if wf_cstr x \<and> length x < 64 then devfs_find x (word_of_nat (length x)) s else None)"

lemma chars_match_iff: "chars_match a b j k \<longleftrightarrow> (\<forall>i < k. ch a (j + i) = ch b (j + i))"
proof (induction k arbitrary: j)
  case (Suc k)
  then show ?case by (auto simp: less_Suc_eq_0_disj)
qed simp

lemma chars_match_eq:
  assumes "length a = length b"
  shows "chars_match a b 0 (length b) \<longleftrightarrow> a = b"
  using assms by (auto simp: chars_match_iff ch_def list_eq_iff_nth_eq)

lemma small_len: "n < 64 \<Longrightarrow> unat (word_of_nat n :: u16) = n" "n < 64 \<Longrightarrow> unat (word_of_nat n :: u64) = n"
  by (simp_all add: unat_of_nat_id)

lemma find_node_eq:
  assumes "\<forall>n \<in> set ns. n_in_use n \<noteq> 0 \<longrightarrow> node_ok n" "length x < 64"
  shows "find_node ns x (word_of_nat (length x)) = List.find (named x) ns"
  using assms(1)
proof (induction ns)
  case (Cons n ns)
  have "n_name_len n = word_of_nat (length x) \<and> chars_match (n_name n) x 0 (length x) \<longleftrightarrow> n_name n = x"
    if "n_in_use n \<noteq> 0"
  proof -
    have n: "length (n_name n) < 64" "n_name_len n = word_of_nat (length (n_name n))"
      using Cons.prems that by (simp_all add: node_ok_def)
    have "(word_of_nat (length (n_name n)) :: u16) = word_of_nat (length x) \<longleftrightarrow> length (n_name n) = length x"
      using small_len(1) [OF n(1)] small_len(1) [OF assms(2)] by metis
    then show ?thesis using chars_match_eq [of "n_name n" x] by (auto simp: n(2))
  qed
  then show ?case using Cons small_len(1) [OF assms(2)] by (auto simp: named_def)
qed simp

lemma reg_map_find:
  "reg_ok s \<Longrightarrow> reg_map s x = (if wf_cstr x \<and> length x < 64 then List.find (named x) (g_nodes s) else None)"
  by (simp add: reg_map_def devfs_find_def reg_ok_def find_node_eq)

lemma node_named_cases:
  assumes "\<forall>n \<in> set ns. n_in_use n \<noteq> 0 \<longrightarrow> node_ok n" "wf_cstr x"
  shows "(node_named ns x i = None \<and> List.find (named x) ns = None) \<or>
    (\<exists>j < length ns. node_named ns x i = Some (i + j) \<and> named x (ns ! j))"
  using assms(1)
proof (induction ns arbitrary: i)
  case (Cons n ns)
  have e: "n_in_use n \<noteq> 0 \<and> kstrcmp (Some (n_name n)) (Some x) = 0 \<longleftrightarrow> named x n"
    using Cons.prems kstrcmp_spec [OF _ assms(2), of "n_name n"] by (auto simp: named_def node_ok_def)
  show ?case
  proof (cases "named x n")
    case False
    have "\<forall>n \<in> set ns. n_in_use n \<noteq> 0 \<longrightarrow> node_ok n" using Cons.prems by simp
    from Cons.IH [OF this, of "i + 1"] show ?thesis
    proof (elim disjE exE conjE)
      fix j assume "j < length ns" "node_named ns x (i + 1) = Some (i + 1 + j)" "named x (ns ! j)"
      then show ?thesis using False e by (intro disjI2 exI [of _ "Suc j"]) auto
    qed (use False e in auto)
  qed (use e in auto)
qed simp

lemma free_node_cases:
  "(free_node ns i = None \<and> (\<forall>n \<in> set ns. n_in_use n \<noteq> 0)) \<or>
   (\<exists>j < length ns. free_node ns i = Some (i + j) \<and> n_in_use (ns ! j) = 0)"
proof (induction ns arbitrary: i)
  case (Cons n ns)
  show ?case
  proof (cases "n_in_use n = 0")
    case False
    from Cons.IH [of "i + 1"] show ?thesis
    proof (elim disjE exE conjE)
      fix j assume "j < length ns" "free_node ns (i + 1) = Some (i + 1 + j)" "n_in_use (ns ! j) = 0"
      then show ?thesis using False by (intro disjI2 exI [of _ "Suc j"]) simp
    qed (use False in simp)
  qed auto
qed simp

text \<open>The only node of a name is the one the search finds.\<close>

lemma find_unique:
  assumes "i < length ns" "P (ns ! i)" "\<And>j. j < length ns \<Longrightarrow> P (ns ! j) \<Longrightarrow> j = i"
  shows "List.find P ns = Some (ns ! i)"
proof (cases "List.find P ns")
  case None
  then show ?thesis using assms(1,2) by (auto simp: find_None_iff)
next
  case (Some y)
  then obtain j where "j < length ns" "P (ns ! j)" "y = ns ! j" by (auto simp: find_Some_iff)
  then show ?thesis using Some assms(3) by blast
qed

lemma find_update_other:
  assumes "\<not> P (ns ! i)" "\<not> P y"
  shows "List.find P (ns[i := y]) = List.find P ns"
  using assms
proof (induction ns arbitrary: i)
  case (Cons n ns)
  then show ?case by (cases i) auto
qed simp

text \<open>Writing one slot.\<close>

lemma reg_ok_update:
  assumes "reg_ok s" "i < length (g_nodes s)" "n_in_use n \<noteq> 0 \<Longrightarrow> node_ok n"
    "\<And>j. j < length (g_nodes s) \<Longrightarrow> j \<noteq> i \<Longrightarrow> n_in_use n \<noteq> 0 \<Longrightarrow> \<not> named (n_name n) (g_nodes s ! j)"
    "g_nodes t = (g_nodes s)[i := n]"
  shows "reg_ok t"
  unfolding reg_ok_def assms(5)
proof (intro conjI allI impI ballI)
  fix m assume "m \<in> set ((g_nodes s)[i := n])" "n_in_use m \<noteq> 0"
  then show "node_ok m" using assms(1,3) set_update_subset_insert [of "g_nodes s" i n] by (auto simp: reg_ok_def)
next
  fix j k x assume "j < length ((g_nodes s)[i := n])" "k < length ((g_nodes s)[i := n])"
    "named x ((g_nodes s)[i := n] ! j)" "named x ((g_nodes s)[i := n] ! k)"
  then show "j = k"
    using assms(1,4) unfolding reg_ok_def
    by (cases "j = i"; cases "k = i") (auto simp: named_def)
qed

lemma reg_map_update:
  assumes "reg_ok s" "reg_ok t" "i < length (g_nodes s)" "g_nodes t = (g_nodes s)[i := n]"
    "\<not> (\<exists>x. named x (g_nodes s ! i) \<and> x \<noteq> y)" "\<not> (\<exists>x. named x n \<and> x \<noteq> y)"
  shows "reg_map t = (reg_map s)(y := reg_map t y)"
proof
  fix x show "reg_map t x = ((reg_map s)(y := reg_map t y)) x"
    using assms find_update_other [of "named x" "g_nodes s" i n] by (auto simp: reg_map_find)
qed

lemma reg_map_at:
  assumes "reg_ok t" "i < length (g_nodes t)" "n_in_use (g_nodes t ! i) \<noteq> 0"
  shows "reg_map t (n_name (g_nodes t ! i)) = Some (g_nodes t ! i)"
proof -
  have "named (n_name (g_nodes t ! i)) (g_nodes t ! i)" using assms(3) by (simp add: named_def)
  then have "List.find (named (n_name (g_nodes t ! i))) (g_nodes t) = Some (g_nodes t ! i)"
    using assms(1,2) by (intro find_unique) (auto simp: reg_ok_def)
  moreover have "node_ok (g_nodes t ! i)" using assms by (simp add: reg_ok_def)
  ultimately show ?thesis using assms(1) by (simp add: reg_map_find node_ok_def)
qed

lemma unregister_named:
  assumes "reg_ok t" "wf_cstr x" "reg_map t x = Some n"
  shows "\<exists>u. devfs_unregister (Some x) t = (VFS_OK, u) \<and> reg_ok u \<and> reg_map u = (reg_map t)(x := None)"
proof -
  have ok: "\<forall>n \<in> set (g_nodes t). n_in_use n \<noteq> 0 \<longrightarrow> node_ok n" using assms(1) by (simp add: reg_ok_def)
  have "List.find (named x) (g_nodes t) \<noteq> None" using assms by (auto simp: reg_map_find split: if_splits)
  then obtain i where i: "i < length (g_nodes t)" "node_named (g_nodes t) x 0 = Some i" "named x (g_nodes t ! i)"
    using node_named_cases [OF ok assms(2), of 0] by auto
  define u where "u = t\<lparr>g_nodes := (g_nodes t)[i := (g_nodes t ! i)\<lparr>n_in_use := 0\<rparr>]\<rparr>"
  have u: "reg_ok u" by (rule reg_ok_update [OF assms(1) i(1)]) (simp_all add: u_def)
  have "reg_map u = (reg_map t)(x := reg_map u x)"
    by (rule reg_map_update [OF assms(1) u i(1)]) (use i(3) in \<open>auto simp: u_def named_def\<close>)
  moreover have "reg_map u x = None"
  proof -
    have "\<not> named x m" if m: "m \<in> set (g_nodes u)" for m
    proof
      assume n: "named x m"
      obtain j where j: "j < length (g_nodes t)" "m = g_nodes u ! j"
        using m by (auto simp: u_def in_set_conv_nth)
      then show False
        using n i(1,3) assms(1) by (cases "j = i") (auto simp: u_def named_def reg_ok_def)
    qed
    then show ?thesis using u by (auto simp: reg_map_find find_None_iff)
  qed
  moreover have "devfs_unregister (Some x) t = (VFS_OK, u)" using i(2) by (simp add: devfs_unregister_def u_def)
  ultimately show ?thesis using u by auto
qed

text \<open>
  C24: the registry of devices is a finite map. Registering a proper name answers \<^verbatim>\<open>VFS_EEXIST\<close> when
  the directory's lookup already finds it and \<^verbatim>\<open>VFS_ENOMEM\<close> when all slots are in use, both without a change;
  otherwise the lookup afterwards finds the new node, with the given mode, operations and device,
  under the name and every other name as before, and unregistering the name undoes it.
\<close>

theorem devfs_registry:
  assumes "reg_ok s" and "wf_cstr x" and "x \<noteq> []" and "length x < 64" and "fo \<noteq> 0"
  shows "\<exists>rc t. devfs_register (Some x) mode fo priv s = (rc, t) \<and>
    (if reg_map s x \<noteq> None then rc = VFS_EEXIST \<and> t = s
     else if \<forall>n \<in> set (g_nodes s). n_in_use n \<noteq> 0 then rc = VFS_ENOMEM \<and> t = s
     else rc = VFS_OK \<and> reg_ok t \<and>
       (\<exists>n u. reg_map t = (reg_map s)(x \<mapsto> n) \<and> n_mode n = mode \<and> n_fops n = fo \<and> n_priv n = priv \<and>
          devfs_unregister (Some x) t = (VFS_OK, u) \<and> reg_ok u \<and> reg_map u = reg_map s))"
proof -
  have ok: "\<forall>n \<in> set (g_nodes s). n_in_use n \<noteq> 0 \<longrightarrow> node_ok n" using assms(1) by (simp add: reg_ok_def)
  have len: "unat (kstrlen (Some x)) = length x" by (rule kstrlen_eq [OF assms(2)])
  have pos: "kstrlen (Some x) \<noteq> 0" "\<not> 64 \<le> kstrlen (Some x)"
    using len assms(3,4) by (auto simp: word_le_nat_alt)
  have find: "reg_map s x = List.find (named x) (g_nodes s)" using assms by (simp add: reg_map_find)
  from node_named_cases [OF ok assms(2), of 0] show ?thesis
  proof (elim disjE exE conjE)
    fix j assume "j < length (g_nodes s)" "node_named (g_nodes s) x 0 = Some (0 + j)" "named x (g_nodes s ! j)"
    moreover from this have "reg_map s x \<noteq> None" by (auto simp: find find_None_iff dest: nth_mem)
    ultimately show ?thesis using assms(5) pos by (simp add: devfs_register_def Let_def)
  next
    assume none: "node_named (g_nodes s) x 0 = None" "List.find (named x) (g_nodes s) = None"
    from free_node_cases [of "g_nodes s" 0] show ?thesis
    proof (elim disjE exE conjE)
      assume "free_node (g_nodes s) 0 = None" "\<forall>n \<in> set (g_nodes s). n_in_use n \<noteq> 0"
      then show ?thesis using none assms(5) pos by (simp add: devfs_register_def Let_def find)
    next
      fix i assume i: "i < length (g_nodes s)" "free_node (g_nodes s) 0 = Some (0 + i)" "n_in_use (g_nodes s ! i) = 0"
      define n where "n = \<lparr>n_name = x, n_name_len = word_of_nat (length x), n_ino = ucast (dev_next_ino s),
        n_mode = mode, n_fops = fo, n_priv = priv, n_in_use = 1\<rparr>"
      define t where "t = s\<lparr>g_nodes := (g_nodes s)[i := n], dev_next_ino := dev_next_ino s + 1\<rparr>"
      have l: "(ucast (kstrlen (Some x)) :: u16) = word_of_nat (length x)"
        using len by (metis of_nat_unat)
      have run: "devfs_register (Some x) mode fo priv s = (VFS_OK, t)"
        using none i(2) assms(5) pos len l by (simp add: devfs_register_def Let_def t_def n_def)
      have t: "reg_ok t"
        by (rule reg_ok_update [OF assms(1) i(1), of n])
          (use assms(2,4) none(2) in \<open>auto simp: t_def n_def node_ok_def find_None_iff\<close>)
      have "reg_map t = (reg_map s)(x := reg_map t x)"
        by (rule reg_map_update [OF assms(1) t i(1), of n]) (use i(3) in \<open>auto simp: t_def n_def named_def\<close>)
      moreover have at: "reg_map t x = Some n"
        using reg_map_at [OF t, of i] i(1) by (simp add: t_def n_def)
      ultimately have m: "reg_map t = (reg_map s)(x \<mapsto> n)" by simp
      obtain u where u: "devfs_unregister (Some x) t = (VFS_OK, u)" "reg_ok u" "reg_map u = (reg_map t)(x := None)"
        using unregister_named [OF t assms(2) at] by blast
      have "reg_map u = reg_map s" using u(3) m none(2) by (auto simp: find fun_upd_idem)
      moreover have "reg_map s x = None" "\<not> (\<forall>n \<in> set (g_nodes s). n_in_use n \<noteq> 0)"
        using none(2) i(1,3) by (auto simp: find)
      ultimately show ?thesis using run t m u(1,2)
        by (intro exI [of _ VFS_OK] exI [of _ t]) (auto simp: n_def)
    qed
  qed
qed

theorem devfs_registry_witness:
  "\<exists>t n. devfs_register (Some [110, 117, 108, 108]) 0x21B6 0x500 0 (boot_devs fresh_kmem) = (VFS_OK, t) \<and>
     reg_map t [110, 117, 108, 108] = Some n \<and> n_fops n = 0x500"
proof -
  let ?s = "boot_devs fresh_kmem" let ?x = "[110, 117, 108, 108] :: cstr"
  have r: "reg_ok ?s" by (simp add: reg_ok_def boot_devs_def named_def free_entry_def)
  have m: "(reg_map ?s ?x \<noteq> None) = False" using r
    by (auto simp: reg_map_find find_None_iff boot_devs_def named_def free_entry_def)
  have f: "(\<forall>n \<in> set (g_nodes ?s). n_in_use n \<noteq> 0) = False" by (auto simp: boot_devs_def free_entry_def)
  have x: "wf_cstr ?x" "?x \<noteq> []" "length ?x < 64" "(0x500 :: addr) \<noteq> 0" by (simp_all add: wf_cstr_def)
  obtain t n where "devfs_register (Some ?x) 0x21B6 0x500 0 ?s = (VFS_OK, t)" "reg_map t = (reg_map ?s)(?x \<mapsto> n)"
    "n_fops n = 0x500"
    using devfs_registry [OF r x, of "0x21B6" 0] unfolding m f if_False by blast
  then show ?thesis by (intro exI [of _ t] exI [of _ n]) simp
qed

section \<open>The text of fbctl\<close>

lemma append_str_fit:
  "length t + length x < FBCTL_BUF_LEN \<Longrightarrow> append_str t x = t @ x"
  by (induction x arbitrary: t) simp_all

lemma dec_rev_digits: "v \<noteq> 0 \<Longrightarrow> rev (dec_rev v) = numeral_text 10 (unat v)"
proof (induction v rule: dec_rev.induct)
  case (1 v)
  have d: "unat (v div 10) = unat v div 10" "unat (v mod 10) = unat v mod 10" by (simp_all add: unat_div unat_mod)
  have c: "0x30 + ucast (v mod 10) = digit_char (unat v mod 10)"
  proof -
    have "(ucast (v mod 10) :: u8) = word_of_nat (unat v mod 10)" by (metis of_nat_unat d(2))
    then show ?thesis by (simp add: digit_char_def)
  qed
  show ?case
  proof (cases "unat v < 10")
    case True
    then have "v div 10 = 0" using d(1) by (simp add: word_unat_eq_iff)
    then show ?thesis using True 1(2) c
      by (simp add: dec_rev.simps [of v] dec_rev.simps [of 0] numeral_one)
  next
    case False
    then have "v div 10 \<noteq> 0" using d(1) by (auto simp: word_unat_eq_iff)
    then show ?thesis using False 1 c numeral_step [of 10 "unat v"]
      by (simp add: dec_rev.simps [of v] d(1))
  qed
qed

lemma append_u32_text:
  assumes "length t + length (numeral_text 10 (unat v)) < FBCTL_BUF_LEN"
  shows "append_u32 t v = t @ numeral_text 10 (unat v)"
proof -
  have "(if v = 0 then [0x30] else dec_rev v) = rev (numeral_text 10 (unat v))"
    using dec_rev_digits [of v] by (auto simp: numeral_one digit_char_def rev_swap)
  then show ?thesis using assms by (simp add: append_u32_def append_str_fit)
qed

text \<open>
  The text of \<^verbatim>\<open>fbctl\<close> always fits. For every framebuffer the 64 byte buffer takes the whole line, never more
  than 59 bytes: the width, the height, the pitch in bytes and the depth 32 in decimal with their labels
  and a newline, so no field is ever cut.
\<close>

lemma fbctl_text_fits:
  "fbctl_text c = [119, 105, 100, 116, 104, 61] @ numeral_text 10 (unat (fb_width c)) @
     [32, 104, 101, 105, 103, 104, 116, 61] @ numeral_text 10 (unat (fb_height c)) @
     [32, 112, 105, 116, 99, 104, 61] @ numeral_text 10 (unat (fb_pitch_u32 c * 4)) @
     [32, 98, 112, 112, 61, 51, 50, 10] \<and> length (fbctl_text c) \<le> 59"
proof -
  have n: "length (numeral_text 10 (unat v)) \<le> 10" for v :: u32
    using unat_lt [of v] by (intro length_numeral) simp_all
  have b: "numeral_text 10 (unat (32 :: u32)) = [51, 50]" by (simp add: numeral_step numeral_one digit_char_def)
  define w h p where d: "w = numeral_text 10 (unat (fb_width c))" "h = numeral_text 10 (unat (fb_height c))"
    "p = numeral_text 10 (unat (fb_pitch_u32 c * 4))"
  have l: "length w \<le> 10" "length h \<le> 10" "length p \<le> 10" unfolding d by (rule n)+
  have 1: "append_str [] [119, 105, 100, 116, 104, 61] = [119, 105, 100, 116, 104, 61]" (is "_ = ?a") by simp
  have 2: "append_u32 ?a (fb_width c) = ?a @ w" unfolding d(1) by (rule append_u32_text) (use l(1) in \<open>simp add: d(1)\<close>)
  have 3: "append_str (?a @ w) [32, 104, 101, 105, 103, 104, 116, 61] =
      ?a @ w @ [32, 104, 101, 105, 103, 104, 116, 61]" (is "_ = ?b")
    by (subst append_str_fit) (use l in simp_all)
  have 4: "append_u32 ?b (fb_height c) = ?b @ h" unfolding d(2) by (rule append_u32_text) (use l(1,2) in \<open>simp add: d(2)\<close>)
  have 5: "append_str (?b @ h) [32, 112, 105, 116, 99, 104, 61] = ?b @ h @ [32, 112, 105, 116, 99, 104, 61]" (is "_ = ?c")
    by (subst append_str_fit) (use l in simp_all)
  have 6: "append_u32 ?c (fb_pitch_u32 c * 4) = ?c @ p" unfolding d(3) by (rule append_u32_text) (use l in \<open>simp add: d(3)\<close>)
  have 7: "append_str (?c @ p) [32, 98, 112, 112, 61] = ?c @ p @ [32, 98, 112, 112, 61]" (is "_ = ?d")
    by (subst append_str_fit) (use l in simp_all)
  have 8: "append_u32 ?d 32 = ?d @ [51, 50]" unfolding b [symmetric] by (rule append_u32_text) (use l b in simp)
  have 9: "append_str (?d @ [51, 50]) [10] = ?d @ [51, 50] @ [10]"
    by (subst append_str_fit) (use l in simp_all)
  have "fbctl_text c = ?d @ [51, 50] @ [10]"
    unfolding fbctl_text_def Let_def kconsole_get_info_def prod.case 1 2 3 4 5 6 7 8 9 ..
  then show ?thesis unfolding d [symmetric] using l by simp
qed

section \<open>Reading a block device\<close>

text \<open>The sectors that a transfer touches, in numbers.\<close>

lemma sector_bounds:
  fixes pos n ss :: nat
  assumes "0 < ss"
  defines "a \<equiv> pos div ss" and "e \<equiv> (pos + n + ss - 1) div ss"
  shows "a * ss \<le> pos" "a \<le> e" "(e - a) * ss \<le> n + 2 * ss" "pos - a * ss + n \<le> (e - a) * ss"
proof -
  obtain A where A: "A = a * ss" by blast
  obtain B where B: "B = e * ss" by blast
  obtain p where p: "p = pos mod ss" by blast
  obtain q where q: "q = (pos + n + ss - 1) mod ss" by blast
  have a: "A + p = pos" "p < ss" using assms(1) by (simp_all add: A p a_def)
  have e: "B + q = pos + n + ss - 1" "q < ss" using assms(1) by (simp_all add: B q e_def)
  show "a * ss \<le> pos" using a by (simp add: A [symmetric])
  show "a \<le> e" unfolding a_def e_def using assms(1) by (intro div_le_mono) linarith
  have d: "(e - a) * ss = B - A" by (simp add: diff_mult_distrib A B)
  show "(e - a) * ss \<le> n + 2 * ss" unfolding d using a e assms(1) by linarith
  show "pos - a * ss + n \<le> (e - a) * ss" unfolding d A [symmetric] using a e assms(1) by linarith
qed

lemma sector_span_ok:
  assumes "ss \<noteq> 0" "unat pos + unat n + unat ss < 2 ^ 63" "unat n + 2 * unat ss \<le> 2048 * 4096"
  shows "\<exists>a ns p. sector_span pos n ss = Some (a, ns, p) \<and> req_ok p \<and> unat a * unat ss \<le> unat pos \<and>
    unat pos - unat a * unat ss + unat n \<le> unat ns * unat ss \<and> unat ns * unat ss \<le> unat p * 4096 \<and>
    unat ns * unat ss \<le> 2 ^ 24 \<and> unat (ucast ns :: u32) = unat ns \<and>
    (unat n + 2 * unat ss \<le> 4096 \<longrightarrow> p = 1)"
proof -
  have S1: "unat (ucast ss :: u64) = unat ss"
    by (simp add: unsigned_ucast_eq take_bit_nat_eq_self unat_lt [THEN less_le_trans])
  have S3: "0 < unat ss" using assms(1) by (simp add: word_unat_eq_iff)
  have S2: "(ucast ss :: u64) \<noteq> 0" using S1 S3 by (metis less_irrefl unat_0)
  note S = S1 S2 S3
  define A N where "A = pos div ucast ss" and "N = (pos + n + ucast ss - 1) div ucast ss - A"
  have A: "unat A = unat pos div unat ss" by (simp add: A_def unat_div S(1))
  have "unat (pos + n + ucast ss - 1) = unat pos + unat n + unat ss - 1"
  proof -
    have u: "unat (pos + n + ucast ss) = unat pos + unat n + unat ss"
      using assms(2) S(1) by (simp add: unat_word_ariths)
    then have "pos + n + ucast ss \<noteq> 0" using S(3) by (auto simp: word_unat_eq_iff)
    then show ?thesis using u by (simp add: unat_minus_one)
  qed
  then have E: "unat ((pos + n + ucast ss - 1) div ucast ss) = (unat pos + unat n + unat ss - 1) div unat ss"
    by (simp add: unat_div S(1))
  let ?e = "unat ((pos + n + ucast ss - 1) div ucast ss)"
  have b: "unat A * unat ss \<le> unat pos" "unat A \<le> ?e" "(?e - unat A) * unat ss \<le> unat n + 2 * unat ss"
    "unat pos - unat A * unat ss + unat n \<le> (?e - unat A) * unat ss"
    unfolding A E by (rule sector_bounds [OF S(3)])+
  have N: "unat N = unat ((pos + n + ucast ss - 1) div ucast ss) - unat A"
    unfolding N_def by (rule unat_sub) (use b(2) in \<open>simp add: word_le_nat_alt\<close>)
  have nb: "unat N * unat ss \<le> unat n + 2 * unat ss" using b(3) by (simp add: N)
  have small: "unat N * unat ss \<le> 2 ^ 23" using nb assms(3) by simp
  have Nss: "unat (N * ucast ss) = unat N * unat ss"
    using small by (simp add: unat_word_ariths S(1))
  have "unat (N * ucast ss + PAGE_SIZE - 1) = unat N * unat ss + 4095"
    using small Nss by (simp add: unat_word_ariths)
  then have P0: "unat ((N * ucast ss + PAGE_SIZE - 1) div PAGE_SIZE) = (unat N * unat ss + 4095) div 4096"
    by (simp add: unat_div)
  define P where "P = (if (N * ucast ss + PAGE_SIZE - 1) div PAGE_SIZE = 0 then 1
    else (N * ucast ss + PAGE_SIZE - 1) div PAGE_SIZE)"
  have P: "unat P = max 1 ((unat N * unat ss + 4095) div 4096)"
    using P0 by (auto simp: P_def max_def word_unat_eq_iff)
  obtain X where X: "X = unat N * unat ss" by blast
  have q: "(X + 4095) div 4096 * 4096 + (X + 4095) mod 4096 = X + 4095" "(X + 4095) mod 4096 < 4096" by simp_all
  have "X \<le> 2048 * 4096" using nb assms(3) by (simp add: X)
  then have "(X + 4095) div 4096 < 2049" by (intro less_mult_imp_div_less) simp
  then have "req_ok P" by (simp add: req_ok_def P X [symmetric])
  moreover have "X \<le> unat P * 4096"
    unfolding P X [symmetric] using q max.cobounded2 [of "(X + 4095) div 4096" 1] by linarith
  then have "unat N * unat ss \<le> unat P * 4096" by (simp add: X)
  moreover have "unat (ucast N :: u32) = unat N"
  proof -
    have "unat N * 1 \<le> unat N * unat ss" by (rule mult_le_mono2) (use S(3) in linarith)
    from order_trans [OF this small] have "unat N \<le> 2 ^ 23" by simp
    then have "unat N < 2 ^ 32" by (rule le_less_trans) simp
    then show ?thesis by (simp add: unsigned_ucast_eq take_bit_nat_eq_self)
  qed
  moreover have "sector_span pos n ss = Some (A, N, P)"
    using S(2) by (simp add: sector_span_def udiv_def Let_def A_def N_def P_def)
  moreover have "P = 1" if "unat n + 2 * unat ss \<le> 4096"
  proof -
    have "X < 4097" using nb that by (simp add: X)
    then have "(X + 4095) div 4096 < 2" by (intro less_mult_imp_div_less) simp
    then have "unat P = 1" by (simp add: P X [symmetric])
    then show ?thesis by (simp add: word_unat_eq_iff)
  qed
  ultimately show ?thesis using b(1,4) small
    by (intro exI [of _ A] exI [of _ N] exI [of _ P]) (simp add: N)
qed

text \<open>What the driver leaves in a borrowed block.\<close>

lemma disk_ready_same: "io_same s t \<Longrightarrow> disk_ready E img dev t = disk_ready E img dev s"
  by (simp add: disk_ready_def io_same_dev)

lemma block_fits:
  assumes "req_ok p" "blk_aligned (req_order p) b" "n \<le> unat p * 4096" "unat (a - b) < n"
  shows "page_of a \<in># block_pages (req_order p) b"
proof -
  note r = req_order_props [OF assms(1)]
  have "unat (push_bit (req_order p) 4096 :: u64) = 2 ^ (12 + req_order p)"
    by (rule unat_page_shift) (use r(2) in simp)
  moreover have "unat p * 4096 \<le> 2 ^ (12 + req_order p)" using r(3) by (simp add: power_add)
  ultimately have "a - b < push_bit (req_order p) 4096"
    using assms(3,4) by (simp only: word_less_nat_alt)
  then show ?thesis using block_bytes [OF assms(2), of a] r(2) by simp
qed

text \<open>What reading through a borrowed block leaves of memory, and of the allocator.\<close>

lemma bounce_read:
  fixes b delta cnt buf :: u64
  assumes p: "req_ok p" "blk_aligned (req_order p) b" "once (F' + block_pages (req_order p) b)"
    and k: "buddy_ok k F'" and n: "n \<le> unat p * 4096" "unat delta + unat cnt \<le> n" "n \<le> 2 ^ 24"
    and win: "\<And>a. unat (a - buf) < unat cnt \<Longrightarrow> page_of a \<notin># F' + block_pages (req_order p) b"
    and M: "M = memcpy (disk_read img pos n b (kbytes k)) buf (b + delta) cnt"
  shows "buddy_ok (k\<lparr>kbytes := M\<rparr>) F'"
    and "page_of a \<notin># F' + block_pages (req_order p) b \<Longrightarrow>
      M a = (if unat (a - buf) < unat cnt then img (pos + unat delta + unat (a - buf)) else kbytes k a)"
proof -
  let ?B = "block_pages (req_order p) b" and ?R = "disk_read img pos n b (kbytes k)"
  have inb: "page_of x \<in># ?B" if "unat (x - b) < n" for x
    by (rule block_fits [OF p(1,2) n(1) that])
  have src: "unat (b + delta + j - b) = unat delta + unat j" if "unat j < unat cnt" for j
    using that n(2,3) by (simp add: unat_word_ariths)
  have cp: "M x = (if unat (x - buf) < unat cnt then ?R (b + delta + (x - buf)) else ?R x)" for x
  proof -
    have "cnt \<le> b + delta + j - buf" if "j < cnt" for j
    proof (rule ccontr)
      assume "\<not> ?thesis"
      then have "page_of (b + delta + j) \<notin># F' + ?B" by (intro win) (simp add: word_le_nat_alt)
      moreover have "page_of (b + delta + j) \<in># ?B"
        using src [of j] that n(2) by (intro inb) (simp add: word_less_nat_alt)
      ultimately show False by simp
    qed
    then show ?thesis unfolding M by (subst memcpy_apply) (simp_all add: word_less_nat_alt)
  qed
  have out: "?R x = kbytes k x" if "page_of x \<notin># ?B" for x
    using that inb [of x] by (auto simp: disk_read_def)
  show "M a = (if unat (a - buf) < unat cnt then img (pos + unat delta + unat (a - buf)) else kbytes k a)"
    if "page_of a \<notin># F' + ?B"
    using that cp [of a] src [of "a - buf"] n(2) out [of a] by (simp add: disk_read_def ac_simps)
  have dj: "page_of x \<notin># F'" if "page_of x \<in># ?B" for x using once_disjoint [OF p(3)] that by blast
  have "buddy_ok (k\<lparr>kbytes := ?R\<rparr>) F'"
  proof (rule buddy_ok_frame [OF k, of ?B])
    show "pg_frame ?B (kbytes k) ?R" using out by (simp add: pg_frame_def)
    show "\<And>q. q \<in># F' \<Longrightarrow> q \<notin># ?B" using once_disjoint [OF p(3)] by blast
  qed
  then have "buddy_ok (k\<lparr>kbytes := ?R\<rparr>\<lparr>kbytes := M\<rparr>) F'"
  proof (rule copy_out [of _ _ buf cnt])
    show "\<And>a. unat (a - buf) < unat cnt \<Longrightarrow> page_of a \<notin># F'" using win by simp
    show "\<And>a. \<not> unat (a - buf) < unat cnt \<Longrightarrow> M a = kbytes (k\<lparr>kbytes := ?R\<rparr>) a" using cp by simp
  qed
  then show "buddy_ok (k\<lparr>kbytes := M\<rparr>) F'" by simp
qed

text \<open>
  C25: reading a block device file at any position delivers the requested bytes of the disk,
  whole sectors or not, through pages that it borrows: the count is returned, the position
  moves by it, memory outside the free pages changes only in the user's buffer and every page
  is given back. Otherwise there were no pages for the sectors, the answer is -12 and memory
  and position are as before; that never happens to a request whose sectors fit one page
  while a page is free.
\<close>

theorem blkdev_read_delivers:
  assumes "dev = ipriv (inodes s (finode (files s f)))" "disk_ready E img dev s" "buddy_ok (vk s) F"
    and "ss = sector_size (dev_at s dev)" "pos = fpos (files s f)"
    and "unat pos + unat cnt + unat ss < 2 ^ 63" "unat cnt + 2 * unat ss \<le> 2048 * 4096"
    and "\<forall>a. unat (a - buf) < unat cnt \<longrightarrow> page_of a \<notin># F"
  shows "\<exists>r t. blkdev_read E s f buf cnt = Some (r, t) \<and> buddy_ok (vk t) F \<and>
    (r = VFS_ENOMEM \<and> (F = {#} \<or> 4096 < unat cnt + 2 * unat ss) \<and>
       bytes_of t = bytes_of s \<and> files t = files s \<or>
     r = cnt \<and> files t = (files s)(f := (files s f)\<lparr>fpos := pos + cnt\<rparr>) \<and>
       (\<forall>a. page_of a \<notin># F \<longrightarrow> bytes_of t a =
         (if unat (a - buf) < unat cnt then img (unat pos + unat (a - buf)) else bytes_of s a)))"
proof -
  have ss: "ss \<noteq> 0" using assms(2,4) by (simp add: disk_ready_def)
  obtain a ns p where span: "sector_span pos cnt ss = Some (a, ns, p)" "req_ok p" "unat a * unat ss \<le> unat pos"
    "unat pos - unat a * unat ss + unat cnt \<le> unat ns * unat ss" "unat ns * unat ss \<le> unat p * 4096"
    "unat ns * unat ss \<le> 2 ^ 24" "unat (ucast ns :: u32) = unat ns" "unat cnt + 2 * unat ss \<le> 4096 \<longrightarrow> p = 1"
    using sector_span_ok [OF ss assms(6,7)] by blast
  let ?B = "block_pages (req_order p)"
  obtain b k where al: "kalloc (vk s) p = Some (b, k)"
    and al': "b = 0 \<and> buddy_ok k F \<and> kbytes k = kbytes (vk s) \<or>
      b \<noteq> 0 \<and> blk_aligned (req_order p) b \<and>
        (\<exists>F'. buddy_ok k F' \<and> F = F' + ?B b \<and> pg_frame F (kbytes (vk s)) (kbytes k))"
    using pa.alloc_law [OF assms(3) span(2)] by blast
  show ?thesis
  proof (cases "b = 0")
    case True
    have "F = {#} \<or> 4096 < unat cnt + 2 * unat ss"
      using span(8) kalloc_page [OF assms(3)] al True by force
    then show ?thesis
      using al al' True span(1) assms(1,4,5)
      by (simp add: blkdev_read_def Let_def alloc_pages_def)
  next
    case False
    obtain F' where F': "blk_aligned (req_order p) b" "buddy_ok k F'" "F = F' + ?B b"
      "pg_frame F (bytes_of s) (kbytes k)" using al' False by blast
    have once: "once (F' + ?B b)" using pa.ok_once [OF assms(3)] F'(3) by simp
    let ?s1 = "s\<lparr>vk := k\<rparr>"
    have dr: "disk_ready E img dev ?s1" using assms(2) disk_ready_same [OF io_same_vk] by blast
    obtain t where t: "blk_read E dev a (ucast ns) b ?s1 = Some (0, t)" "io_same ?s1 t"
      "vk t = k\<lparr>kbytes := disk_read img (unat a * unat ss) (unat ns * unat ss) b (kbytes k)\<rparr>"
      using blk_read_ok [OF dr, of a "ucast ns" b] assms(4) span(7) by (auto simp: dev_at_def)
    have ft: "files t = files s" using t(2) by (auto simp: io_same_def)
    have us: "unat (ucast ss :: u64) = unat ss"
      by (simp add: unsigned_ucast_eq take_bit_nat_eq_self unat_lt [THEN less_le_trans])
    have as: "unat (a * ucast ss) = unat a * unat ss"
      using le_less_trans [OF span(3) unat_lt] by (simp add: unat_word_ariths us)
    define delta where "delta = pos - a * ucast ss"
    have d: "unat delta = unat pos - unat a * unat ss"
      unfolding delta_def using span(3) by (subst unat_sub) (simp_all add: word_le_nat_alt as)
    have ns: "unat (ns * ucast ss) = unat ns * unat ss"
      using span(6) by (simp add: unat_word_ariths us)
    have "unat (ns * ucast ss - delta) = unat ns * unat ss - unat delta"
      using span(4) d ns by (subst unat_sub) (simp_all add: word_le_nat_alt)
    then have av: "(if cnt < ns * ucast ss - delta then cnt else ns * ucast ss - delta) = cnt"
      using span(4) d by (auto simp add: word_less_nat_alt word_unat_eq_iff)
    define M where "M = memcpy (disk_read img (unat a * unat ss) (unat ns * unat ss) b (kbytes k)) buf (b + delta) cnt"
    have M: "buddy_ok (k\<lparr>kbytes := M\<rparr>) F'"
      "\<And>x. page_of x \<notin># F \<Longrightarrow> M x = (if unat (x - buf) < unat cnt
         then img (unat a * unat ss + unat delta + unat (x - buf)) else kbytes k x)"
      unfolding F'(3) using assms(8) span(4) d unfolding F'(3)
      by (intro bounce_read [OF span(2) F'(1) once F'(2) span(5) _ span(6) _ M_def]; simp)+
    obtain k2 where k2: "kfree (k\<lparr>kbytes := M\<rparr>) b p = Some k2" "buddy_ok k2 F" "pg_frame F M (kbytes k2)"
      using pa.free_law [OF M(1) span(2) F'(1) False once] F'(3) by auto
    let ?u = "t\<lparr>vk := k2\<rparr>"
    have "blkdev_read E s f buf cnt = Some (cnt, advance f cnt ?u)"
      using al False span(1) t(1) k2(1) av unfolding delta_def
      by (cases "cnt < ns * ucast ss - (pos - a * ucast ss)")
        (simp_all add: blkdev_read_def Let_def alloc_pages_def free_pages_at_def set_bytes_def t(3) ft
          assms(1,4,5) [symmetric] M_def delta_def)
    moreover have "files (advance f cnt ?u) = (files s)(f := (files s f)\<lparr>fpos := pos + cnt\<rparr>)"
      by (simp add: advance_def upd_file_def ft assms(5))
    moreover have "vk (advance f cnt ?u) = k2" by (simp add: advance_def upd_file_def)
    moreover have "kbytes k2 x = (if unat (x - buf) < unat cnt then img (unat pos + unat (x - buf)) else bytes_of s x)"
      if "page_of x \<notin># F" for x
      using that k2(3) F'(4) M(2) [OF that] span(3) d by (simp add: pg_frame_def)
    ultimately show ?thesis using k2(2) by (intro exI [of _ cnt] exI [of _ "advance f cnt ?u"]) simp
  qed
qed

text \<open>A disk of 512-byte sectors whose byte \<open>i\<close> is \<open>i\<close>, and a file at position 510 of it.\<close>

definition one_disk :: "kmem \<Rightarrow> devs" where
  "one_disk k = (boot_devs k)\<lparr>blk_devices := (replicate 8 no_device)[0 := no_device\<lparr>sector_size := 512\<rparr>],
     inodes := (\<lambda>_. inodes (boot_blks k) 0\<lparr>ipriv := 1\<rparr>), files := (\<lambda>_. zero_file\<lparr>fpos := 510\<rparr>)\<rparr>"

theorem blkdev_read_delivers_witness:
  "\<exists>k t. blkdev_read (ram_disk word_of_nat) (one_disk k) 0 boot_pml4 4 = Some (4, t) \<and>
     bytes_of t (boot_pml4 + 1) = 255 \<and> fpos (files t 0) = 514"
proof -
  obtain k F where k: "buddy_ok k F" "size F = 3" "page_of boot_pml4 \<notin># F" using three_pages by blast
  let ?s = "one_disk k" and ?img = "word_of_nat :: nat \<Rightarrow> u8"
  have dev: "dev_at ?s 1 = no_device\<lparr>sector_size := 512\<rparr>" by (simp add: one_disk_def boot_devs_def dev_at_def)
  have al: "pg_aligned boot_pml4" by (simp add: pg_aligned_def boot_pml4_def hhdm0_def)
  have win: "page_of a \<notin># F" if "unat (a - boot_pml4) < 4" for a
    using page_bytes [OF al, of a] that k(3) by simp
  have dr: "disk_ready (ram_disk ?img) ?img 1 ?s"
    by (simp add: disk_ready_def dev image_disk_def ram_disk_def) (simp add: one_disk_def boot_devs_def no_device_def)
  have st: "1 = ipriv (inodes ?s (finode (files ?s 0)))" "510 = fpos (files ?s 0)" "buddy_ok (vk ?s) F"
      "512 = sector_size (dev_at ?s 1)" and f0: "files ?s 0 = zero_file\<lparr>fpos := 510\<rparr>"
    using k(1) dev by (simp_all add: one_disk_def boot_devs_def)
  have sz: "unat (510 :: u64) + unat (4 :: u64) + unat (512 :: u32) < 2 ^ 63"
    "unat (4 :: u64) + 2 * unat (512 :: u32) \<le> 2048 * 4096" by simp_all
  have w4: "\<forall>a. unat (a - boot_pml4) < unat (4 :: u64) \<longrightarrow> page_of a \<notin># F" using win by simp
  have no: "\<not> (F = {#} \<or> 4096 < unat (4 :: u64) + 2 * unat (512 :: u32))" using k(2) by auto
  obtain t where t: "blkdev_read (ram_disk ?img) ?s 0 boot_pml4 4 = Some (4, t)"
      "files t = (files ?s)(0 := (files ?s 0)\<lparr>fpos := 510 + 4\<rparr>)"
      "\<forall>a. page_of a \<notin># F \<longrightarrow> bytes_of t a = (if unat (a - boot_pml4) < unat (4 :: u64)
         then ?img (unat (510 :: u64) + unat (a - boot_pml4)) else bytes_of ?s a)"
    using blkdev_read_delivers [OF st(1) dr st(3,4,2) sz w4] no by blast
  have "bytes_of t (boot_pml4 + 1) = 255"
    using t(3) win [of "boot_pml4 + 1"] by simp
  then show ?thesis using t(1,2) by (intro exI [of _ k] exI [of _ t]) simp
qed

end
