(* ===== verification/Proc.thy ===== *)
theory Proc
  imports Devfs
begin

text \<open>
  Processes: \<^verbatim>\<open>kernel/proc.c\<close>. The table of 64 processes with their file descriptors, the ELF
  loader, the initial user and kernel stacks, creation, fork and exec. Stacks, page tables
  and images are bytes of the memory. A process pointer is the number of its slot plus one, 0 is
  NULL; the addresses of \<^verbatim>\<open>trapret\<close> and \<^verbatim>\<open>forkret\<close> are arguments. What \<^verbatim>\<open>klog\<close> prints is not
  part of the state.
\<close>

section \<open>State\<close>

record trap_frame =
  t_r15 :: u64  t_r14 :: u64  t_r13 :: u64  t_r12 :: u64  t_r11 :: u64  t_r10 :: u64  t_r9 :: u64
  t_r8 :: u64  t_rbp :: u64  t_rdi :: u64  t_rsi :: u64  t_rdx :: u64  t_rcx :: u64  t_rbx :: u64
  t_rax :: u64  t_int_no :: u64  t_error_code :: u64
  t_rip :: u64  t_cs :: u64  t_rflags :: u64  t_rsp :: u64  t_ss :: u64

definition zero_tf :: trap_frame where
  "zero_tf = \<lparr>t_r15 = 0, t_r14 = 0, t_r13 = 0, t_r12 = 0, t_r11 = 0, t_r10 = 0, t_r9 = 0, t_r8 = 0,
     t_rbp = 0, t_rdi = 0, t_rsi = 0, t_rdx = 0, t_rcx = 0, t_rbx = 0, t_rax = 0, t_int_no = 0,
     t_error_code = 0, t_rip = 0, t_cs = 0, t_rflags = 0, t_rsp = 0, t_ss = 0\<rparr>"

text \<open>The words of a frame in memory order.\<close>

definition tf_words :: "trap_frame \<Rightarrow> u64 list" where
  "tf_words f = [t_r15 f, t_r14 f, t_r13 f, t_r12 f, t_r11 f, t_r10 f, t_r9 f, t_r8 f, t_rbp f,
     t_rdi f, t_rsi f, t_rdx f, t_rcx f, t_rbx f, t_rax f, t_int_no f, t_error_code f, t_rip f,
     t_cs f, t_rflags f, t_rsp f, t_ss f]"

record process =
  pid :: u32
  ppid :: u32
  pstate :: u32
  exit_code :: i32
  ppml4 :: addr
  kstack :: addr
  pcontext :: addr
  ptf :: trap_frame
  brk :: u64
  pname :: "u8 list"
  pfiles :: "addr list"

record procs = devs +
  proc_lock :: spinlock
  proc_table :: "process list"
  next_pid :: u32
  current_proc :: addr
  cr3 :: u64

abbreviation (input) MAX_PROCS :: nat where "MAX_PROCS \<equiv> 64"
abbreviation (input) MAX_FDS :: nat where "MAX_FDS \<equiv> 32"
abbreviation (input) KSTACK_SIZE :: u64 where "KSTACK_SIZE \<equiv> 8192"
abbreviation (input) USER_STACK_TOP :: u64 where "USER_STACK_TOP \<equiv> 0x7FFFFFF000"
abbreviation (input) USER_STACK_BASE :: u64 where "USER_STACK_BASE \<equiv> 0x7FFFFFE000"
abbreviation (input) USER_HEAP_BASE :: u64 where "USER_HEAP_BASE \<equiv> 0x40000000"
abbreviation (input) PROC_UNUSED :: u32 where "PROC_UNUSED \<equiv> 0"
abbreviation (input) PROC_EMBRYO :: u32 where "PROC_EMBRYO \<equiv> 1"
abbreviation (input) PROC_RUNNABLE :: u32 where "PROC_RUNNABLE \<equiv> 2"
abbreviation (input) PROC_RUNNING :: u32 where "PROC_RUNNING \<equiv> 3"
abbreviation (input) PROC_ZOMBIE :: u32 where "PROC_ZOMBIE \<equiv> 4"

definition proc_at :: "'x procs_scheme \<Rightarrow> addr \<Rightarrow> process" where
  "proc_at s p = proc_table s ! (unat p - 1)"

definition upd_proc :: "addr \<Rightarrow> (process \<Rightarrow> process) \<Rightarrow> 'x procs_scheme \<Rightarrow> 'x procs_scheme" where
  "upd_proc p f s = s\<lparr>proc_table := (proc_table s)[unat p - 1 := f (proc_at s p)]\<rparr>"

definition acquire_proc_lock :: "'x procs_scheme \<Rightarrow> 'x procs_scheme option" where
  "acquire_proc_lock s = do {
     (c, l) \<leftarrow> acquire (kme (vk s)) (kcpu (vk s)) (proc_lock s);
     Some (s\<lparr>vk := (vk s)\<lparr>kcpu := c\<rparr>, proc_lock := l\<rparr>) }"

definition release_proc_lock :: "'x procs_scheme \<Rightarrow> 'x procs_scheme option" where
  "release_proc_lock s = do {
     (c, l) \<leftarrow> release (kme (vk s)) (kcpu (vk s)) (proc_lock s);
     Some (s\<lparr>vk := (vk s)\<lparr>kcpu := c\<rparr>, proc_lock := l\<rparr>) }"

definition proc_init :: "'x procs_scheme \<Rightarrow> 'x procs_scheme" where
  "proc_init s = s\<lparr>proc_lock := initlock ''proc''\<rparr>"

text \<open>Calls into the allocator and the page tables.\<close>

definition with_vk :: "(kmem \<Rightarrow> ('r \<times> kmem) option) \<Rightarrow> 'x vfs_scheme \<Rightarrow> ('r \<times> 'x vfs_scheme) option" where
  "with_vk f s = do { (r, k) \<leftarrow> f (vk s); Some (r, s\<lparr>vk := k\<rparr>) }"

definition upd_vk :: "(kmem \<Rightarrow> kmem option) \<Rightarrow> 'x vfs_scheme \<Rightarrow> 'x vfs_scheme option" where
  "upd_vk f s = do { k \<leftarrow> f (vk s); Some (s\<lparr>vk := k\<rparr>) }"

section \<open>File descriptors\<close>

fun fd_slot :: "addr list \<Rightarrow> nat \<Rightarrow> nat option" where
  "fd_slot [] i = None"
| "fd_slot (f # fs) i = (if f = 0 then Some i else fd_slot fs (i + 1))"

definition fd_alloc :: "addr \<Rightarrow> addr \<Rightarrow> 'x procs_scheme \<Rightarrow> i32 \<times> 'x procs_scheme" where
  "fd_alloc p f s =
     (case fd_slot (pfiles (proc_at s p)) 0 of None \<Rightarrow> (- 1, s)
      | Some i \<Rightarrow> (word_of_nat i, upd_proc p (\<lambda>q. q\<lparr>pfiles := (pfiles q)[i := f]\<rparr>) s))"

definition fd_get :: "addr \<Rightarrow> i32 \<Rightarrow> 'x procs_scheme \<Rightarrow> addr" where
  "fd_get p fd s =
     (if fd <s 0 \<or> \<not> fd <s word_of_nat MAX_FDS then 0 else pfiles (proc_at s p) ! unat fd)"

fun close_from :: "'x procs_scheme vtables \<Rightarrow> addr \<Rightarrow> nat \<Rightarrow> nat \<Rightarrow> 'x procs_scheme \<Rightarrow>
    'x procs_scheme option" where
  "close_from T p i 0 s = Some s"
| "close_from T p i (Suc k) s =
     (if pfiles (proc_at s p) ! i \<noteq> 0 then do {
        (_, s1) \<leftarrow> vfs_close T (pfiles (proc_at s p) ! i) s;
        close_from T p (i + 1) k (upd_proc p (\<lambda>q. q\<lparr>pfiles := (pfiles q)[i := 0]\<rparr>) s1)
      } else close_from T p (i + 1) k s)"

definition proc_close_fds :: "'x procs_scheme vtables \<Rightarrow> addr \<Rightarrow> 'x procs_scheme \<Rightarrow> 'x procs_scheme option" where
  "proc_close_fds T p s = close_from T p 0 MAX_FDS s"

definition cons_path :: cstr where
  "cons_path = [47, 100, 101, 118, 47, 99, 111, 110, 115]"

definition set_fd :: "addr \<Rightarrow> nat \<Rightarrow> addr \<Rightarrow> 'x procs_scheme \<Rightarrow> 'x procs_scheme" where
  "set_fd p i f = upd_proc p (\<lambda>q. q\<lparr>pfiles := (pfiles q)[i := f]\<rparr>)"

definition proc_init_fds :: "'x procs_scheme vtables \<Rightarrow> addr \<Rightarrow> 'x procs_scheme \<Rightarrow> 'x procs_scheme option" where
  "proc_init_fds T p s = do {
     ((rc, f), s1) \<leftarrow> vfs_open T (Some cons_path) 1 0 s;
     let s2 = (if rc = VFS_OK then set_fd p 0 f s1 else s1);
     ((rc, f), s3) \<leftarrow> vfs_open T (Some cons_path) 2 0 s2;
     Some (if rc = VFS_OK then set_fd p 2 f (vfs_file_get f (set_fd p 1 f s3)) else s3)
   }"

section \<open>Slots of the process table\<close>

fun unused_slot :: "process list \<Rightarrow> nat \<Rightarrow> nat option" where
  "unused_slot [] i = None"
| "unused_slot (q # qs) i = (if pstate q = PROC_UNUSED then Some i else unused_slot qs (i + 1))"

definition proc_alloc :: "'x procs_scheme \<Rightarrow> (addr \<times> 'x procs_scheme) option" where
  "proc_alloc s = do {
     s1 \<leftarrow> acquire_proc_lock s;
     case unused_slot (proc_table s1) 0 of
       None \<Rightarrow> do { s2 \<leftarrow> release_proc_lock s1; Some (0, s2) }
     | Some i \<Rightarrow> do {
         let p = word_of_nat (i + 1);
         let s2 = upd_proc p (\<lambda>q. q\<lparr>pid := next_pid s1, pstate := PROC_EMBRYO\<rparr>)
                    (s1\<lparr>next_pid := next_pid s1 + 1\<rparr>);
         s3 \<leftarrow> release_proc_lock s2;
         (ks, s4) \<leftarrow> with_vk (\<lambda>k. kalloc k (KSTACK_SIZE div PAGE_SIZE)) s3;
         let s5 = upd_proc p (\<lambda>q. q\<lparr>kstack := ks\<rparr>) s4;
         if ks = 0 then Some (0, upd_proc p (\<lambda>q. q\<lparr>pstate := PROC_UNUSED\<rparr>) s5)
         else Some (p, s5\<lparr>vk := (vk s5)\<lparr>kbytes := memset (kbytes (vk s5)) ks 0 KSTACK_SIZE\<rparr>\<rparr>)
       }
   }"

definition forkret :: "'x procs_scheme \<Rightarrow> 'x procs_scheme option" where
  "forkret s = release_proc_lock s"

section \<open>The ELF loader\<close>

text \<open>The fields of the ELF header at \<open>b\<close> and of the program header at \<open>h\<close>.\<close>

definition e_magic :: "mem \<Rightarrow> addr \<Rightarrow> u32" where "e_magic m b = ld32 m b"
definition e_class :: "mem \<Rightarrow> addr \<Rightarrow> u8" where "e_class m b = m (b + 4)"
definition e_machine :: "mem \<Rightarrow> addr \<Rightarrow> u16" where "e_machine m b = ld16 m (b + 18)"
definition e_entry :: "mem \<Rightarrow> addr \<Rightarrow> u64" where "e_entry m b = ld64 m (b + 24)"
definition e_phoff :: "mem \<Rightarrow> addr \<Rightarrow> u64" where "e_phoff m b = ld64 m (b + 32)"
definition e_phnum :: "mem \<Rightarrow> addr \<Rightarrow> u16" where "e_phnum m b = ld16 m (b + 56)"
definition p_type :: "mem \<Rightarrow> addr \<Rightarrow> u32" where "p_type m h = ld32 m h"
definition p_flags :: "mem \<Rightarrow> addr \<Rightarrow> u32" where "p_flags m h = ld32 m (h + 4)"
definition p_offset :: "mem \<Rightarrow> addr \<Rightarrow> u64" where "p_offset m h = ld64 m (h + 8)"
definition p_vaddr :: "mem \<Rightarrow> addr \<Rightarrow> u64" where "p_vaddr m h = ld64 m (h + 16)"
definition p_filesz :: "mem \<Rightarrow> addr \<Rightarrow> u64" where "p_filesz m h = ld64 m (h + 32)"
definition p_memsz :: "mem \<Rightarrow> addr \<Rightarrow> u64" where "p_memsz m h = ld64 m (h + 40)"

text \<open>The part of the segment's file bytes that lies on the page \<open>va\<close>, copied to \<open>page\<close>.\<close>

definition copy_segment :: "mem \<Rightarrow> addr \<Rightarrow> addr \<Rightarrow> u64 \<Rightarrow> addr \<Rightarrow> mem" where
  "copy_segment m elf_buf h va page =
     (let seg_start = p_vaddr m h;
          seg_file_end = seg_start + p_filesz m h
      in if seg_start < va + PAGE_SIZE \<and> va < seg_file_end then
           let copy_start = (if seg_start < va then va else seg_start);
               copy_end = (if va + PAGE_SIZE < seg_file_end then va + PAGE_SIZE else seg_file_end);
               src_off = p_offset m h + (copy_start - seg_start);
               dst_off = copy_start - va
           in memcpy m (page + dst_off) (elf_buf + src_off) (copy_end - copy_start)
         else m)"

text \<open>The pages of one segment. False when no page is left.\<close>

partial_function (option) load_pages :: "addr \<Rightarrow> addr \<Rightarrow> addr \<Rightarrow> u64 \<Rightarrow> u64 \<Rightarrow> u64 \<Rightarrow> kmem \<Rightarrow>
    (bool \<times> kmem) option" where
  "load_pages pml4 elf_buf h va va_end flags k =
     (if va < va_end then do {
        (page, k1) \<leftarrow> kalloc k 1;
        if page = 0 then Some (False, k1)
        else do {
          let m = memset (kbytes k1) page 0 PAGE_SIZE;
          let k2 = k1\<lparr>kbytes := copy_segment m elf_buf h va page\<rparr>;
          k3 \<leftarrow> map_page_pml4 k2 pml4 va (VIRT_TO_PHYS k2 page) flags;
          load_pages pml4 elf_buf h (va + PAGE_SIZE) va_end flags k3
        }
      } else Some (True, k))"

definition load_segment :: "addr \<Rightarrow> addr \<Rightarrow> addr \<Rightarrow> kmem \<Rightarrow> (bool \<times> kmem) option" where
  "load_segment pml4 elf_buf h k =
     (let m = kbytes k in
      if p_type m h \<noteq> 1 then Some (True, k)
      else load_pages pml4 elf_buf h (p_vaddr m h AND NOT (PAGE_SIZE - 1))
             ((p_vaddr m h + p_memsz m h + PAGE_SIZE - 1) AND NOT (PAGE_SIZE - 1))
             (PTE_USER OR (if p_flags m h AND 2 \<noteq> 0 then PTE_WRITE else 0)) k)"

text \<open>\<open>n\<close> more program headers from number \<open>i\<close> on, and the pages of the user stack.\<close>

fun load_segments :: "addr \<Rightarrow> addr \<Rightarrow> addr \<Rightarrow> u16 \<Rightarrow> nat \<Rightarrow> kmem \<Rightarrow> (bool \<times> kmem) option" where
  "load_segments pml4 elf_buf phdr i 0 k = Some (True, k)"
| "load_segments pml4 elf_buf phdr i (Suc n) k = do {
     (ok, k1) \<leftarrow> load_segment pml4 elf_buf (phdr + 56 * ucast i) k;
     if ok then load_segments pml4 elf_buf phdr (i + 1) n k1 else Some (False, k1)
   }"

partial_function (option) map_stack :: "addr \<Rightarrow> u64 \<Rightarrow> kmem \<Rightarrow> (bool \<times> kmem) option" where
  "map_stack pml4 va k =
     (if va < USER_STACK_TOP + PAGE_SIZE then do {
        (stack, k1) \<leftarrow> kalloc k 1;
        if stack = 0 then Some (False, k1)
        else do {
          let k2 = k1\<lparr>kbytes := memset (kbytes k1) stack 0 PAGE_SIZE\<rparr>;
          k3 \<leftarrow> map_page_pml4 k2 pml4 va (VIRT_TO_PHYS k2 stack) (PTE_USER OR PTE_WRITE);
          map_stack pml4 (va + PAGE_SIZE) k3
        }
      } else Some (True, k))"

text \<open>The status, and the entry point where it is 0.\<close>

definition elf_load_segments :: "addr \<Rightarrow> addr \<Rightarrow> u64 \<Rightarrow> kmem \<Rightarrow> ((i32 \<times> u64) \<times> kmem) option" where
  "elf_load_segments pml4 elf_buf elf_size k =
     (let m = kbytes k in
      if e_magic m elf_buf \<noteq> 0x464C457F \<or> e_class m elf_buf \<noteq> 2 \<or> e_machine m elf_buf \<noteq> 62
      then Some ((- 1, 0), k)
      else do {
        (ok, k1) \<leftarrow> load_segments pml4 elf_buf (elf_buf + e_phoff m elf_buf) 0 (unat (e_phnum m elf_buf)) k;
        if \<not> ok then Some ((- 1, 0), k1)
        else do {
          (ok2, k2) \<leftarrow> map_stack pml4 USER_STACK_BASE k1;
          if \<not> ok2 then Some ((- 1, 0), k2)
          else Some ((0, e_entry (kbytes k2) elf_buf), k2)
        }
      })"

section \<open>The initial user stack\<close>

text \<open>The frame of the page at \<^verbatim>\<open>USER_STACK_BASE\<close>, found as the hardware would, or 0.\<close>

definition stack_frame :: "kmem \<Rightarrow> addr \<Rightarrow> u64 option" where
  "stack_frame k p4 =
     (let va = USER_STACK_BASE;
          e4 = pte_at k p4 (PML4_INDEX va);
          p3 = PHYS_TO_VIRT k (e4 AND PAGE_FRAME_MASK);
          e3 = pte_at k p3 (PDPT_INDEX va);
          p2 = PHYS_TO_VIRT k (e3 AND PAGE_FRAME_MASK);
          e2 = pte_at k p2 (PD_INDEX va);
          p1 = PHYS_TO_VIRT k (e2 AND PAGE_FRAME_MASK);
          e1 = pte_at k p1 (PT_INDEX va)
      in if \<not> present e4 then None else if \<not> present e3 then None
         else if \<not> present e2 then None else if \<not> present e1 then None
         else Some (e1 AND PAGE_FRAME_MASK))"

text \<open>The strings are written from the last to the first, each below the one before, and their user
  addresses noted in the buffer \<open>uvas\<close>; \<open>args\<close> is given with the last first.\<close>

fun push_strings :: "addr \<Rightarrow> addr \<Rightarrow> cstr list \<Rightarrow> addr \<Rightarrow> mem \<Rightarrow> addr \<times> mem" where
  "push_strings kpage uvas [] sp m = (sp, m)"
| "push_strings kpage uvas (a # as) sp m =
     (let sp1 = sp - word_of_nat (length a + 1);
          m1 = wr_bytes m sp1 (a @ [0])
      in push_strings kpage uvas as sp1
           (st64 m1 (uvas + 8 * word_of_nat (length as)) (USER_STACK_BASE + (sp1 - kpage))))"

text \<open>\<open>n\<close> pointers are pushed, from number \<open>n - 1\<close> down to 0.\<close>

fun push_ptrs :: "addr \<Rightarrow> nat \<Rightarrow> addr \<Rightarrow> mem \<Rightarrow> addr \<times> mem" where
  "push_ptrs uvas 0 sp m = (sp, m)"
| "push_ptrs uvas (Suc i) sp m =
     push_ptrs uvas i (sp - 8) (st64 m (sp - 8) (ld64 m (uvas + 8 * word_of_nat i)))"

definition setup_user_stack :: "addr \<Rightarrow> cstr list option \<Rightarrow> kmem \<Rightarrow> (u64 \<times> kmem) option" where
  "setup_user_stack pml4 argv k =
     (let args = (case argv of None \<Rightarrow> [] | Some a \<Rightarrow> a); argc = length args in
      case stack_frame k pml4 of None \<Rightarrow> Some (USER_STACK_TOP, k)
      | Some phys \<Rightarrow> do {
          let kpage = PHYS_TO_VIRT k phys;
          (uvas, k1) \<leftarrow> kalloc k 1;
          if uvas = 0 then Some (USER_STACK_TOP, k1)
          else do {
            let (str_ptr, m1) = push_strings kpage uvas (rev args) (kpage + PAGE_SIZE) (kbytes k1);
            let rsp = (USER_STACK_BASE + (str_ptr - kpage)) AND NOT 15;
            let sp0 = kpage + (rsp - USER_STACK_BASE);
            let m2 = st64 (st64 m1 (sp0 - 8) 0) (sp0 - 16) 0;
            let (sp1, m3) = push_ptrs uvas argc (sp0 - 16) m2;
            let sp2 = sp1 - 8;
            let m4 = st64 m3 sp2 (word_of_nat argc);
            k2 \<leftarrow> kfree (k1\<lparr>kbytes := m4\<rparr>) uvas 1;
            Some (USER_STACK_BASE + (sp2 - kpage), k2)
          }
        })"

section \<open>The initial kernel stack\<close>

abbreviation (input) USER_CS :: u64 where "USER_CS \<equiv> 0x43"
abbreviation (input) USER_DS :: u64 where "USER_DS \<equiv> 0x3B"

definition kstack_setup :: "addr \<Rightarrow> addr \<Rightarrow> addr \<Rightarrow> u64 \<Rightarrow> u64 \<Rightarrow> 'x procs_scheme \<Rightarrow> 'x procs_scheme" where
  "kstack_setup trapret forkret_addr p entry user_rsp s =
     (let q = proc_at s p;
          sp = kstack q + KSTACK_SIZE - 176;
          frame = (if t_rip (ptf q) \<noteq> 0 then ptf q
                   else zero_tf\<lparr>t_cs := USER_CS, t_ss := USER_DS, t_rip := entry, t_rsp := user_rsp,
                          t_rflags := 0x202\<rparr>);
          m1 = wr_words (kbytes (vk s)) sp (tf_words frame);
          m2 = st64 m1 (sp - 8) trapret;
          ctx = sp - 8 - 56;
          m3 = wr_words m2 ctx [0, 0, 0, 0, 0, 0, forkret_addr]
      in upd_proc p (\<lambda>q. q\<lparr>pcontext := ctx\<rparr>) (s\<lparr>vk := (vk s)\<lparr>kbytes := m3\<rparr>\<rparr>))"

section \<open>Creating a process\<close>

text \<open>The buffer with the file, or 0, and the pages it takes.\<close>

definition read_elf :: "'x procs_scheme vtables \<Rightarrow> cstr \<Rightarrow> 'x procs_scheme \<Rightarrow>
    ((addr \<times> u32) \<times> 'x procs_scheme) option" where
  "read_elf T path s = do {
     ((rc, f), s1) \<leftarrow> vfs_open T (Some path) 1 0 s;
     if rc \<noteq> VFS_OK then Some ((0, 0), s1)
     else do {
       ((rc, st), s2) \<leftarrow> vfs_fstat T f s1;
       if rc \<noteq> VFS_OK then do { (_, s3) \<leftarrow> vfs_close T f s2; Some ((0, 0), s3) }
       else do {
         let sz = st_size (the st);
         let npages = (ucast ((sz + PAGE_SIZE - 1) div PAGE_SIZE) :: u32);
         (buf, s3) \<leftarrow> with_vk (\<lambda>k. kalloc k (ucast npages)) s2;
         if buf = 0 then do { (_, s4) \<leftarrow> vfs_close T f s3; Some ((0, 0), s4) }
         else do {
           (n, s4) \<leftarrow> vfs_read T f buf sz s3;
           if n <s 0 then do {
             s5 \<leftarrow> upd_vk (\<lambda>k. kfree k buf (ucast npages)) s4;
             (_, s6) \<leftarrow> vfs_close T f s5;
             Some ((0, 0), s6)
           }
           else do { (_, s5) \<leftarrow> vfs_close T f s4; Some ((buf, npages), s5) }
         }
       }
     }
   }"

text \<open>The pointer after the last slash.\<close>

fun base_name :: "cstr \<Rightarrow> cstr \<Rightarrow> cstr" where
  "base_name name [] = name"
| "base_name name (c # s) = base_name (if c = 47 then s else name) s"

fun name_copy :: "cstr \<Rightarrow> nat \<Rightarrow> nat \<Rightarrow> u8 list \<Rightarrow> u8 list" where
  "name_copy name j 0 a = a[j := 0]"
| "name_copy name j (Suc k) a =
     (if ch name j \<noteq> 0 then name_copy name (j + 1) k (a[j := ch name j]) else a[j := 0])"

definition set_name :: "addr \<Rightarrow> cstr \<Rightarrow> 'x procs_scheme \<Rightarrow> 'x procs_scheme" where
  "set_name p path = upd_proc p (\<lambda>q. q\<lparr>pname := name_copy (base_name path path) 0 15 (pname q)\<rparr>)"

definition make_runnable :: "addr \<Rightarrow> 'x procs_scheme \<Rightarrow> 'x procs_scheme option" where
  "make_runnable p s = do {
     s1 \<leftarrow> acquire_proc_lock s;
     release_proc_lock (upd_proc p (\<lambda>q. q\<lparr>pstate := PROC_RUNNABLE\<rparr>) s1)
   }"

definition drop_elf :: "addr \<Rightarrow> u32 \<Rightarrow> 'x procs_scheme \<Rightarrow> 'x procs_scheme option" where
  "drop_elf buf n s = upd_vk (\<lambda>k. kfree k buf (ucast n)) s"

definition drop_pml4 :: "addr \<Rightarrow> 'x procs_scheme \<Rightarrow> 'x procs_scheme option" where
  "drop_pml4 pml4 s = do {
     s1 \<leftarrow> upd_vk (\<lambda>k. free_user_pml4 k pml4) s;
     upd_vk (\<lambda>k. kfree k pml4 1) s1
   }"

definition proc_create :: "'x procs_scheme vtables \<Rightarrow> addr \<Rightarrow> addr \<Rightarrow> cstr \<Rightarrow> 'x procs_scheme \<Rightarrow>
    (addr \<times> 'x procs_scheme) option" where
  "proc_create T trapret forkret_addr path s = do {
     ((elf, n), s1) \<leftarrow> read_elf T path s;
     if elf = 0 then Some (0, s1)
     else do {
       (p, s2) \<leftarrow> proc_alloc s1;
       if p = 0 then do { s3 \<leftarrow> drop_elf elf n s2; Some (0, s3) }
       else do {
         (pml4, s3) \<leftarrow> with_vk (\<lambda>k. create_user_pml4 k (cr3 s2)) s2;
         let s4 = upd_proc p (\<lambda>q. q\<lparr>ppml4 := pml4\<rparr>) s3;
         if pml4 = 0 then do {
           s5 \<leftarrow> drop_elf elf n s4;
           Some (0, upd_proc p (\<lambda>q. q\<lparr>pstate := PROC_UNUSED\<rparr>) s5)
         }
         else do {
           ((rc, entry), s5) \<leftarrow> with_vk (elf_load_segments pml4 elf (ucast n * PAGE_SIZE)) s4;
           if rc \<noteq> 0 then do {
             s6 \<leftarrow> drop_pml4 pml4 s5;
             s7 \<leftarrow> drop_elf elf n s6;
             Some (0, upd_proc p (\<lambda>q. q\<lparr>pstate := PROC_UNUSED\<rparr>) s7)
           }
           else do {
             s6 \<leftarrow> drop_elf elf n s5;
             let s7 = kstack_setup trapret forkret_addr p entry USER_STACK_TOP s6;
             let s8 = upd_proc p (\<lambda>q. q\<lparr>brk := USER_HEAP_BASE, ppid := 0\<rparr>) s7;
             s9 \<leftarrow> proc_init_fds T p s8;
             s10 \<leftarrow> make_runnable p (set_name p path s9);
             Some (p, s10)
           }
         }
       }
     }
   }"

section \<open>Fork\<close>

definition build_fork_tf :: "trap_frame \<Rightarrow> trap_frame" where
  "build_fork_tf src = zero_tf\<lparr>t_rsp := t_rsp src, t_rip := t_rip src, t_rcx := t_rip src,
     t_rflags := t_rflags src, t_r11 := t_rflags src, t_rbx := t_rbx src, t_rbp := t_rbp src,
     t_r12 := t_r12 src, t_r13 := t_r13 src, t_r14 := t_r14 src, t_r15 := t_r15 src,
     t_rdi := t_rdi src, t_rsi := t_rsi src, t_rdx := t_rdx src, t_r10 := t_r10 src, t_r8 := t_r8 src,
     t_r9 := t_r9 src, t_cs := USER_CS, t_ss := USER_DS, t_rax := 0\<rparr>"

fun share_fds :: "addr \<Rightarrow> addr list \<Rightarrow> nat \<Rightarrow> 'x procs_scheme \<Rightarrow> 'x procs_scheme" where
  "share_fds child [] i s = s"
| "share_fds child (f # fs) i s =
     share_fds child fs (i + 1) (if f \<noteq> 0 then set_fd child i f (vfs_file_get f s) else s)"

definition proc_fork :: "addr \<Rightarrow> addr \<Rightarrow> 'x procs_scheme \<Rightarrow> (i32 \<times> 'x procs_scheme) option" where
  "proc_fork trapret forkret_addr s =
     (let parent = current_proc s in
      if parent = 0 then Some (- 1, s)
      else do {
        (child, s1) \<leftarrow> proc_alloc s;
        if child = 0 then Some (- 1, s1)
        else do {
          (pml4, s2) \<leftarrow> with_vk (\<lambda>k. create_user_pml4 k (cr3 s1)) s1;
          let s3 = upd_proc child (\<lambda>q. q\<lparr>ppml4 := pml4\<rparr>) s2;
          if pml4 = 0 then Some (- 1, upd_proc child (\<lambda>q. q\<lparr>pstate := PROC_UNUSED\<rparr>) s3)
          else do {
            s4 \<leftarrow> upd_vk (\<lambda>k. copy_user_pml4 k pml4 (ppml4 (proc_at s3 parent))) s3;
            let s5 = upd_proc child (\<lambda>q. q\<lparr>ptf := build_fork_tf (ptf (proc_at s4 parent))\<rparr>) s4;
            let s6 = kstack_setup trapret forkret_addr child 0 0 s5;
            let s7 = share_fds child (pfiles (proc_at s6 parent)) 0 s6;
            let s8 = upd_proc child (\<lambda>q. q\<lparr>pname := pname (proc_at s7 parent),
                       ppid := pid (proc_at s7 parent), brk := brk (proc_at s7 parent)\<rparr>) s7;
            s9 \<leftarrow> make_runnable child s8;
            Some (pid (proc_at s9 child), s9)
          }
        }
      })"

section \<open>Exec\<close>

text \<open>The words of the kernel stack that the return to user mode reads, and the saved frame.\<close>

definition redirect_return :: "addr \<Rightarrow> u64 \<Rightarrow> u64 \<Rightarrow> 'x procs_scheme \<Rightarrow> 'x procs_scheme" where
  "redirect_return p entry user_rsp s =
     (let kstop = kstack (proc_at s p) + KSTACK_SIZE;
          m = st64 (st64 (st64 (kbytes (vk s)) (kstop - 8) user_rsp) (kstop - 16) entry) (kstop - 24) 0x202
      in upd_proc p (\<lambda>q. q\<lparr>ptf := (ptf q)\<lparr>t_rip := entry, t_rsp := user_rsp, t_rflags := 0x202,
           t_cs := USER_CS, t_ss := USER_DS\<rparr>\<rparr>) (s\<lparr>vk := (vk s)\<lparr>kbytes := m\<rparr>\<rparr>))"

text \<open>The path is a pointer into the user's address space. Its last use, for the name, comes after the
  switch to the new address space: \<open>reread\<close> is the string found there, \<open>None\<close> a page fault.\<close>

definition proc_exec :: "'x procs_scheme vtables \<Rightarrow> cstr \<Rightarrow> cstr list option \<Rightarrow>
    ('x procs_scheme \<Rightarrow> cstr option) \<Rightarrow> 'x procs_scheme \<Rightarrow> (i32 \<times> 'x procs_scheme) option" where
  "proc_exec T path argv reread s =
     (let p = current_proc s in
      if p = 0 then Some (- 1, s)
      else do {
        ((elf, n), s1) \<leftarrow> read_elf T path s;
        if elf = 0 then Some (- 1, s1)
        else do {
          (new_pml4, s2) \<leftarrow> with_vk (\<lambda>k. create_user_pml4 k (cr3 s1)) s1;
          if new_pml4 = 0 then do { s3 \<leftarrow> drop_elf elf n s2; Some (- 1, s3) }
          else do {
            ((rc, entry), s3) \<leftarrow> with_vk (elf_load_segments new_pml4 elf (ucast n * PAGE_SIZE)) s2;
            if rc \<noteq> 0 then do {
              s4 \<leftarrow> drop_pml4 new_pml4 s3;
              s5 \<leftarrow> drop_elf elf n s4;
              Some (- 1, s5)
            }
            else do {
              s4 \<leftarrow> drop_elf elf n s3;
              (user_rsp, s5) \<leftarrow> with_vk (setup_user_stack new_pml4 argv) s4;
              let s6 = redirect_return p entry user_rsp (upd_proc p (\<lambda>q. q\<lparr>brk := USER_HEAP_BASE\<rparr>) s5);
              let old_pml4 = ppml4 (proc_at s6 p);
              s7 \<leftarrow> drop_pml4 old_pml4 (upd_proc p (\<lambda>q. q\<lparr>ppml4 := new_pml4\<rparr>) s6);
              let s8 = s7\<lparr>cr3 := VIRT_TO_PHYS (vk s7) new_pml4\<rparr>;
              path2 \<leftarrow> reread s8;
              Some (0, set_name p path2 s8)
            }
          }
        }
      })"

section \<open>The state before any process\<close>

text \<open>All static data as the loader leaves it, over the memory \<open>k\<close>.\<close>

definition idle_proc :: process where
  "idle_proc = \<lparr>pid = 0, ppid = 0, pstate = PROC_UNUSED, exit_code = 0, ppml4 = 0, kstack = 0,
     pcontext = 0, ptf = zero_tf, brk = 0, pname = replicate 16 0, pfiles = replicate 32 0\<rparr>"

definition boot_procs :: "kmem \<Rightarrow> procs" where
  "boot_procs k = devs.extend (boot_devs k)
     (procs.fields (initlock ''proc'') (replicate MAX_PROCS idle_proc) 1 0 0)"

lemma boot_procs_simps [simp]:
  "vk (boot_procs k) = k" "proc_table (boot_procs k) = replicate MAX_PROCS idle_proc"
  "current_proc (boot_procs k) = 0" "files (boot_procs k) = (\<lambda>_. zero_file)"
  by (simp_all add: boot_procs_def devs.defs procs.defs boot_devs_def)

end
