(* ===== verification/Trap.thy ===== *)
theory Trap
  imports Proc
begin

text \<open>
  The paths between processes, interrupts and the kernel: \<^verbatim>\<open>swtch\<close> of \<^verbatim>\<open>kernel/swtch.asm\<close>, the interrupt
  stubs, \<^verbatim>\<open>isr_common\<close>, \<^verbatim>\<open>trapret\<close> and the dispatch of \<^verbatim>\<open>kernel/idt.c\<close> behind the
  interrupt table. Stacks are bytes of the memory. What the processor itself does at an
  interrupt, \<^verbatim>\<open>ret\<close> and \<^verbatim>\<open>iretq\<close> is what its manual says: \<open>hw_frame\<close>, and the reads of the
  return words. The instruction \<^verbatim>\<open>swapgs\<close> changes no state of the model.
\<close>

section \<open>Registers\<close>

record regs =
  rax :: u64  rbx :: u64  rcx :: u64  rdx :: u64  rsi :: u64  rdi :: u64  rbp :: u64  rsp :: u64
  r8 :: u64  r9 :: u64  r10 :: u64  r11 :: u64  r12 :: u64  r13 :: u64  r14 :: u64  r15 :: u64

text \<open>The \<open>i\<close>-th word of a stack whose top is at \<open>sp\<close>.\<close>

definition frame_word :: "mem \<Rightarrow> addr \<Rightarrow> nat \<Rightarrow> u64" where
  "frame_word m sp i = ld64 m (sp + 8 * word_of_nat i)"

section \<open>The context switch\<close>

text \<open>
  \<^verbatim>\<open>swtch(old, new)\<close>, called with the return address on top of the stack: six registers are pushed, the
  stack pointer is the old context, six registers are popped from the new one, and \<^verbatim>\<open>ret\<close> takes the
  next word. The result is the old context, the registers, the address execution goes on at, and the
  memory; storing the old context through \<^verbatim>\<open>old\<close> is left to the caller.
\<close>

definition swtch :: "regs \<Rightarrow> addr \<Rightarrow> mem \<Rightarrow> addr \<times> regs \<times> u64 \<times> mem" where
  "swtch r new m =
     (let old = rsp r - 48;
          m1 = wr_words m old [r15 r, r14 r, r13 r, r12 r, rbx r, rbp r]
      in (old,
          r\<lparr>r15 := frame_word m1 new 0, r14 := frame_word m1 new 1, r13 := frame_word m1 new 2,
            r12 := frame_word m1 new 3, rbx := frame_word m1 new 4, rbp := frame_word m1 new 5,
            rsp := new + 56\<rparr>,
          frame_word m1 new 6, m1))"

section \<open>Interrupt entry\<close>

text \<open>The interrupted program: its registers, and the ones the processor saves itself.\<close>

record machine =
  gprs :: regs
  m_rip :: u64
  m_cs :: u64
  m_rflags :: u64
  m_ss :: u64

text \<open>The words the processor pushes for vector \<open>v\<close> with error code \<open>ec\<close>, from the top upwards;
  \<open>pushes v\<close>: the processor pushes an error code for \<open>v\<close>.\<close>

definition hw_frame :: "(nat \<Rightarrow> bool) \<Rightarrow> nat \<Rightarrow> u64 \<Rightarrow> machine \<Rightarrow> u64 list" where
  "hw_frame pushes v ec c =
     (if pushes v then [ec] else []) @ [m_rip c, m_cs c, m_rflags c, rsp (gprs c), m_ss c]"

text \<open>The stubs: \<^verbatim>\<open>ISR_STUB_ERR\<close> pushes the number, \<^verbatim>\<open>ISR_STUB\<close> a zero first.\<close>

definition stub_err :: "nat \<Rightarrow> bool" where
  "stub_err v \<longleftrightarrow> v \<in> {8, 10, 11, 12, 13, 14, 17, 21, 30}"

definition isr_stub :: "nat \<Rightarrow> u64 list" where
  "isr_stub v = (if stub_err v then [word_of_nat v] else [word_of_nat v, 0])"

text \<open>The fifteen registers, from the top upwards: R15 is pushed last.\<close>

definition isr_pushes :: "regs \<Rightarrow> u64 list" where
  "isr_pushes r = [r15 r, r14 r, r13 r, r12 r, r11 r, r10 r, r9 r, r8 r, rbp r, rdi r, rsi r, rdx r,
     rcx r, rbx r, rax r]"

text \<open>The stack pointer given to the C handler, and the memory, for an interrupt that starts on the stack
  top \<open>sp\<close>.\<close>

definition isr_entry :: "(nat \<Rightarrow> bool) \<Rightarrow> nat \<Rightarrow> u64 \<Rightarrow> machine \<Rightarrow> addr \<Rightarrow> mem \<Rightarrow> addr \<times> mem" where
  "isr_entry pushes v ec c sp m =
     (let ws = isr_pushes (gprs c) @ isr_stub v @ hw_frame pushes v ec c;
          fp = sp - 8 * word_of_nat (length ws)
      in (fp, wr_words m fp ws))"

text \<open>The frame a C handler sees at its argument.\<close>

definition frame_at :: "mem \<Rightarrow> addr \<Rightarrow> trap_frame" where
  "frame_at m p = \<lparr>t_r15 = frame_word m p 0, t_r14 = frame_word m p 1, t_r13 = frame_word m p 2,
     t_r12 = frame_word m p 3, t_r11 = frame_word m p 4, t_r10 = frame_word m p 5, t_r9 = frame_word m p 6,
     t_r8 = frame_word m p 7, t_rbp = frame_word m p 8, t_rdi = frame_word m p 9, t_rsi = frame_word m p 10,
     t_rdx = frame_word m p 11, t_rcx = frame_word m p 12, t_rbx = frame_word m p 13,
     t_rax = frame_word m p 14, t_int_no = frame_word m p 15, t_error_code = frame_word m p 16,
     t_rip = frame_word m p 17, t_cs = frame_word m p 18, t_rflags = frame_word m p 19,
     t_rsp = frame_word m p 20, t_ss = frame_word m p 21\<rparr>"

section \<open>Return from an interrupt\<close>

text \<open>\<^verbatim>\<open>trapret\<close> with the stack pointer at \<open>sp\<close>: the pops, two words skipped, and \<^verbatim>\<open>iretq\<close>.\<close>

definition trapret :: "mem \<Rightarrow> addr \<Rightarrow> machine" where
  "trapret m sp =
     \<lparr>gprs = \<lparr>rax = frame_word m sp 14, rbx = frame_word m sp 13, rcx = frame_word m sp 12,
        rdx = frame_word m sp 11, rsi = frame_word m sp 10, rdi = frame_word m sp 9, rbp = frame_word m sp 8,
        rsp = frame_word m sp 20, r8 = frame_word m sp 7, r9 = frame_word m sp 6, r10 = frame_word m sp 5,
        r11 = frame_word m sp 4, r12 = frame_word m sp 3, r13 = frame_word m sp 2, r14 = frame_word m sp 1,
        r15 = frame_word m sp 0\<rparr>,
      m_rip = frame_word m sp 17, m_cs = frame_word m sp 18, m_rflags = frame_word m sp 19,
      m_ss = frame_word m sp 21\<rparr>"

section \<open>Dispatch\<close>

text \<open>What the handler of each vector does. A fault ends in \<^verbatim>\<open>panic\<close>, which does not return; NULL is no
  message.\<close>

datatype irq_action = Tick | Keyboard | Mouse | Ata nat | Ahci | Fault "string option"

definition vector_action :: "u64 \<Rightarrow> irq_action" where
  "vector_action v =
     (if v = 32 then Tick else if v = 33 then Keyboard else if v = 44 then Mouse
      else if v = 46 then Ata 0 else if v = 47 then Ata 1 else if v = 48 then Ahci
      else if v = 0 then Fault (Some ''DIVISION ERROR'') else if v = 1 then Fault (Some ''DEBUG?'')
      else if v = 2 then Fault (Some ''NMI'') else if v = 3 then Fault (Some ''BREAKPOINT'')
      else if v = 4 then Fault (Some ''OVERFLOW'') else if v = 5 then Fault (Some ''BOUND RANGE'')
      else if v = 6 then Fault (Some ''INVALID OPCODE'')
      else if v = 7 then Fault (Some ''DEVICE NOT AVAILABLE'')
      else if v = 8 then Fault (Some ''DOUBLE FAULT'')
      else if v = 9 then Fault (Some ''WHY ARE WE HERE?!?! COPROCESSOR'')
      else if v = 10 then Fault (Some ''INVALID TSS'')
      else if v = 11 then Fault (Some ''SEGMENT NOT PRESENT'')
      else if v = 12 then Fault (Some ''STACK-SEGMENT FAULT'')
      else if v = 13 then Fault (Some ''GENERAL PROTECTION FAULT'')
      else if v = 14 then Fault (Some ''PAGE FAULT'')
      else if v = 16 then Fault (Some ''x87 FPU EXCEPTION'')
      else if v = 17 then Fault (Some ''ALIGNMENT CHECK'')
      else if v = 18 then Fault (Some ''MACHINE CHECK'')
      else if v = 19 then Fault (Some ''SIMD FPU EXCEPTION'')
      else if v = 20 then Fault (Some ''VIRT EXCEPTION'')
      else if v = 21 then Fault (Some ''CONTROL PROTECTION EXCEPTION'')
      else if v = 28 then Fault (Some ''HYPERVISOR INJECTION'')
      else if v = 29 then Fault (Some ''VMM COMM EXCEPTION'')
      else if v = 30 then Fault (Some ''SECURITY EXCEPTION'')
      else Fault None)"

text \<open>The handlers as functions of the state, the acknowledgement of the interrupt controller among them.
  The timer acknowledges before it yields, the others after their work.\<close>

record 's irq_env =
  i_eoi :: "'s \<Rightarrow> 's"
  i_yield :: "'s \<Rightarrow> 's option"
  i_keyboard :: "'s \<Rightarrow> 's option"
  i_mouse :: "'s \<Rightarrow> 's option"
  i_ata :: "nat \<Rightarrow> 's \<Rightarrow> 's option"
  i_ahci :: "'s \<Rightarrow> 's option"

datatype 's irq_end = Handled 's | Panicked "string option" trap_frame 's

definition exception_handler :: "'s irq_env \<Rightarrow> trap_frame \<Rightarrow> 's \<Rightarrow> 's irq_end option" where
  "exception_handler E f s =
     (case vector_action (t_int_no f) of
        Tick \<Rightarrow> map_option Handled (i_yield E (i_eoi E s))
      | Keyboard \<Rightarrow> map_option (Handled \<circ> i_eoi E) (i_keyboard E s)
      | Mouse \<Rightarrow> map_option (Handled \<circ> i_eoi E) (i_mouse E s)
      | Ata n \<Rightarrow> map_option (Handled \<circ> i_eoi E) (i_ata E n s)
      | Ahci \<Rightarrow> map_option (Handled \<circ> i_eoi E) (i_ahci E s)
      | Fault msg \<Rightarrow> Some (Panicked msg f s))"

end
