(* ===== verification/Proc_Spec.thy ===== *)
theory Proc_Spec
  imports Trap_Spec
begin

text \<open>
  What the stacks and descriptors of a process contain: the argument block that \<^verbatim>\<open>exec\<close> builds on the
  user stack, and the file descriptor that \<^verbatim>\<open>fd_alloc\<close> hands out.
\<close>

section \<open>The argument block\<close>

definition c_string_at :: "mem \<Rightarrow> addr \<Rightarrow> cstr \<Rightarrow> bool" where
  "c_string_at m a cs \<longleftrightarrow> (\<forall>i \<le> length cs. m (a + word_of_nat i) = (cs @ [0]) ! i)"

text \<open>The bytes the strings take.\<close>

definition room :: "cstr list \<Rightarrow> nat" where
  "room as = sum_list (map (\<lambda>a. length a + 1) as)"

lemma room_simps [simp]: "room [] = 0" "room (a # as) = length a + 1 + room as"
  "room (as @ bs) = room as + room bs"
  by (simp_all add: room_def)

lemma room_rev [simp]: "room (rev as) = room as"
  by (induction as) simp_all

text \<open>What the program finds at \<open>sp\<close>: the number of arguments, the pointers to their strings, all in the
  page at \<open>kpage\<close> that is mapped at the base of the user stack, and two NULL pointers.\<close>

definition initial_stack :: "mem \<Rightarrow> addr \<Rightarrow> u64 \<Rightarrow> cstr list \<Rightarrow> bool" where
  "initial_stack m kpage sp args \<longleftrightarrow>
     (\<exists>b. sp = USER_STACK_BASE + word_of_nat b \<and> b + 8 * (length args + 3) \<le> 4096 \<and>
       frame_word m (kpage + word_of_nat b) 0 = word_of_nat (length args) \<and>
       (\<forall>i < length args. \<exists>q. q + length (args ! i) < 4096 \<and>
          frame_word m (kpage + word_of_nat b) (1 + i) = USER_STACK_BASE + word_of_nat q \<and>
          c_string_at m (kpage + word_of_nat q) (args ! i)) \<and>
       frame_word m (kpage + word_of_nat b) (1 + length args) = 0 \<and>
       frame_word m (kpage + word_of_nat b) (2 + length args) = 0)"

section \<open>Offsets in a page\<close>

lemma far_unat:
  fixes x a :: u64
  assumes "unat (x - a) < n" "n < 2 ^ 64"
  shows "unat (x - (a + word_of_nat n)) = 2 ^ 64 - (n - unat (x - a))"
proof -
  have n: "unat (word_of_nat n :: u64) = n" using assms(2) by (intro unat_of_nat_id) simp
  have "x - (a + word_of_nat n) = (x - a) - word_of_nat n" by simp
  then show ?thesis using assms n by (simp only: unat_sub_if') (simp add: word_le_nat_alt)
qed

text \<open>A stretch of \<open>l\<close> bytes at offset \<open>n\<close>, and an address outside it.\<close>

lemma outside_stretch:
  fixes x a :: u64
  assumes "unat (x - a) < n \<or> n + l \<le> unat (x - a)" "n + l \<le> 2 ^ 63"
  shows "l \<le> unat (x - (a + word_of_nat n))"
proof (cases "unat (x - a) < n")
  case True
  then have "unat (x - (a + word_of_nat n)) = 2 ^ 64 - (n - unat (x - a))"
    using assms(2) by (intro far_unat) simp_all
  then show ?thesis using assms(2) by simp
next
  case False
  then have "unat (x - (a + word_of_nat n)) = unat (x - a) - n" by (intro shift_unat) simp
  then show ?thesis using False assms by simp
qed

lemma other_page: "pg_aligned b \<Longrightarrow> page_of x \<noteq> page_of b \<Longrightarrow> 4096 \<le> unat (x - b)"
  using page_bytes [of b x] by linarith

text \<open>A word of the page at \<open>b\<close> does not see what happens outside the page.\<close>

lemma cell_in_page:
  assumes "pg_aligned b" "i < 512" "x - (b + 8 * word_of_nat i) < 8"
  shows "page_of x = page_of b"
proof -
  have i: "unat (8 * word_of_nat i :: u64) = 8 * i"
    using assms(2) unat_of_nat_id [of "8 * i", where 'a = 64] by simp
  have lt: "unat (x - (b + 8 * word_of_nat i)) < 8" using assms(3) by (simp add: word_less_nat_alt)
  have "unat ((x - (b + 8 * word_of_nat i)) + 8 * word_of_nat i) =
      unat (x - (b + 8 * word_of_nat i)) + 8 * i"
    using lt i assms(2) by (subst unat_add_lt) simp_all
  then have "unat (x - b) < 4096" using lt assms(2) by (simp add: algebra_simps)
  then show ?thesis using page_bytes [OF assms(1)] by blast
qed

lemma frame_word_page:
  assumes "pg_aligned b" "i < 512" "\<And>x. page_of x = page_of b \<Longrightarrow> m' x = m x"
  shows "frame_word m' b i = frame_word m b i"
  unfolding frame_word_def by (rule ld64_cong) (rule assms(3) [OF cell_in_page [OF assms(1,2)]])

lemma frame_word_st64:
  assumes "i < 512" "j < 512"
  shows "frame_word (st64 m (b + 8 * word_of_nat j) v) b i = (if i = j then v else frame_word m b i)"
proof (cases "i = j")
  case False
  have u: "(word_of_nat i :: u64) < 512" "(word_of_nat j :: u64) < 512" "(word_of_nat i :: u64) \<noteq> word_of_nat j"
    using assms False by (simp_all add: word_less_nat_alt unat_of_nat_id word_unat_eq_iff)
  show ?thesis
    using False entries_apart [OF u] entries_apart [OF u(2,1) u(3) [symmetric]]
    by (simp add: frame_word_def ld64_st64_other)
qed (simp add: frame_word_def)

lemma st64_far: "8 \<le> unat (x - a) \<Longrightarrow> st64 m a v x = m x"
  by (rule st64_other) (simp add: word_le_nat_alt)

lemma st64_page:
  "pg_aligned b \<Longrightarrow> i < 512 \<Longrightarrow> page_of x \<noteq> page_of b \<Longrightarrow> st64 m (b + 8 * word_of_nat i) v x = m x"
  using cell_in_page [of b i x] by (intro st64_other) (meson not_le)

section \<open>The strings\<close>

text \<open>The offset of string number \<open>j\<close> of those pushed from offset \<open>n\<close> downwards.\<close>

definition str_off :: "cstr list \<Rightarrow> nat \<Rightarrow> nat \<Rightarrow> nat" where
  "str_off as n j = n - room (take (Suc j) as)"

lemma c_string_cong:
  assumes "c_string_at m a cs" "\<And>x. unat (x - a) < length cs + 1 \<Longrightarrow> m' x = m x" "length cs < 2 ^ 63"
  shows "c_string_at m' a cs"
proof -
  have "m' (a + word_of_nat i) = m (a + word_of_nat i)" if "i \<le> length cs" for i
    by (rule assms(2)) (use that assms(3) in \<open>simp add: unat_of_nat_id\<close>)
  then show ?thesis using assms(1) by (simp add: c_string_at_def)
qed

lemma c_string_wr: "length cs < 2 ^ 62 \<Longrightarrow> c_string_at (wr_bytes m a (cs @ [0])) a cs"
  unfolding c_string_at_def
proof (intro allI impI)
  fix i assume l: "length cs < 2 ^ 62" and i: "i \<le> length cs"
  then have "unat (word_of_nat i :: u64) = i" by (intro unat_of_nat_id) simp
  then show "wr_bytes m a (cs @ [0]) (a + word_of_nat i) = (cs @ [0]) ! i"
    using l i wr_bytes_nth [of "cs @ [0]" "a + word_of_nat i" a m] by simp
qed

lemma push_strings_spec:
  assumes "pg_aligned kpage" "pg_aligned uvas" "page_of uvas \<noteq> page_of kpage"
    and "room as \<le> n" "n \<le> 4096" "length as \<le> 512"
  shows "\<exists>m'. push_strings kpage uvas as (kpage + word_of_nat n) m = (kpage + word_of_nat (n - room as), m') \<and>
    (\<forall>x. page_of x \<noteq> page_of uvas \<longrightarrow> unat (x - kpage) < n - room as \<or> n \<le> unat (x - kpage) \<longrightarrow> m' x = m x) \<and>
    (\<forall>i. length as \<le> i \<and> i < 512 \<longrightarrow> frame_word m' uvas i = frame_word m uvas i) \<and>
    (\<forall>j < length as. c_string_at m' (kpage + word_of_nat (str_off as n j)) (as ! j) \<and>
       frame_word m' uvas (length as - 1 - j) = USER_STACK_BASE + word_of_nat (str_off as n j))"
  using assms(4-6)
proof (induction as arbitrary: n m)
  case Nil
  then show ?case by simp
next
  case (Cons a as)
  define o1 where "o1 = n - (length a + 1)"
  have o1: "o1 + (length a + 1) = n" "room as \<le> o1" "o1 \<le> 4096" "o1 - room as = n - room (a # as)"
    using Cons.prems by (simp_all add: o1_def)
  define m1 where "m1 = wr_bytes m (kpage + word_of_nat o1) (a @ [0])"
  define m2 where "m2 = st64 m1 (uvas + 8 * word_of_nat (length as)) (USER_STACK_BASE + word_of_nat o1)"
  have la: "length as < 512" "length a < 4096" using Cons.prems by simp_all
  have sp: "kpage + word_of_nat n - word_of_nat (length (a @ [0])) = kpage + word_of_nat o1"
    unfolding o1(1) [symmetric] by simp
  have push: "push_strings kpage uvas (a # as) (kpage + word_of_nat n) m =
      push_strings kpage uvas as (kpage + word_of_nat o1) m2"
    unfolding push_strings.simps Let_def m2_def m1_def o1(1) [symmetric] by (simp add: algebra_simps)
  obtain m' where ih: "push_strings kpage uvas as (kpage + word_of_nat o1) m2 =
      (kpage + word_of_nat (o1 - room as), m')"
    "\<And>x. page_of x \<noteq> page_of uvas \<Longrightarrow> unat (x - kpage) < o1 - room as \<or> o1 \<le> unat (x - kpage) \<Longrightarrow> m' x = m2 x"
    "\<And>i. length as \<le> i \<Longrightarrow> i < 512 \<Longrightarrow> frame_word m' uvas i = frame_word m2 uvas i"
    "\<And>j. j < length as \<Longrightarrow> c_string_at m' (kpage + word_of_nat (str_off as o1 j)) (as ! j) \<and>
       frame_word m' uvas (length as - 1 - j) = USER_STACK_BASE + word_of_nat (str_off as o1 j)"
    using Cons.IH [of o1 m2] o1 la by (metis less_imp_le_nat)
  have m2: "m2 x = m1 x" if "page_of x \<noteq> page_of uvas" for x
    unfolding m2_def by (rule st64_page [OF assms(2) la(1) that])
  have m1: "m1 x = m x" if "unat (x - kpage) < o1 \<or> n \<le> unat (x - kpage)" for x
    unfolding m1_def using outside_stretch [of x kpage o1 "length a + 1"] that o1 Cons.prems(2)
    by (intro wr_bytes_other) simp
  have uv: "frame_word m2 uvas i = (if i = length as then USER_STACK_BASE + word_of_nat o1 else frame_word m uvas i)"
    if "i < 512" for i
  proof -
    have "frame_word m1 uvas i = frame_word m uvas i"
    proof (rule frame_word_page [OF assms(2) that])
      fix x assume "page_of x = page_of uvas"
      then have "4096 \<le> unat (x - kpage)" by (intro other_page) (use assms in simp_all)
      then show "m1 x = m x" using Cons.prems(2) by (intro m1) simp
    qed
    then show ?thesis using that la(1) by (simp add: m2_def frame_word_st64)
  qed
  have first: "c_string_at m' (kpage + word_of_nat o1) a"
  proof (rule c_string_cong)
    show "c_string_at m1 (kpage + word_of_nat o1) a" unfolding m1_def using la by (intro c_string_wr) simp
  next
    fix x assume x: "unat (x - (kpage + word_of_nat o1)) < length a + 1"
    then have "\<not> (unat (x - kpage) < o1 \<or> n \<le> unat (x - kpage))"
      using outside_stretch [of x kpage o1 "length a + 1"] o1 Cons.prems(2) by auto
    then have d: "o1 \<le> unat (x - kpage) \<and> unat (x - kpage) < n" by linarith
    then have "page_of x = page_of kpage"
      using page_bytes [OF assms(1), of x] Cons.prems(2) by simp
    then show "m' x = m1 x" using ih(2) [of x] m2 [of x] d assms(3) by simp
  qed (use la in simp)
  have off: "str_off (a # as) n 0 = o1" "str_off (a # as) n (Suc j) = str_off as o1 j" for j
    by (simp_all add: str_off_def o1_def)
  show ?case
  proof (intro exI [of _ m'] conjI allI impI)
    show "push_strings kpage uvas (a # as) (kpage + word_of_nat n) m =
        (kpage + word_of_nat (n - room (a # as)), m')" unfolding push ih(1) o1(4) ..
  next
    fix x assume x: "page_of x \<noteq> page_of uvas" "unat (x - kpage) < n - room (a # as) \<or> n \<le> unat (x - kpage)"
    then have "unat (x - kpage) < o1 - room as \<or> o1 \<le> unat (x - kpage)" using o1 by linarith
    moreover have "unat (x - kpage) < o1 \<or> n \<le> unat (x - kpage)" using x(2) o1(2,4) by linarith
    ultimately show "m' x = m x" using ih(2) [OF x(1)] m2 [OF x(1)] m1 [of x] by simp
  next
    fix i assume "length (a # as) \<le> i \<and> i < 512"
    then show "frame_word m' uvas i = frame_word m uvas i" using ih(3) [of i] uv [of i] by simp
  next
    fix j assume "j < length (a # as)"
    then show "c_string_at m' (kpage + word_of_nat (str_off (a # as) n j)) ((a # as) ! j)"
      using first ih(4) by (cases j) (simp_all add: off)
  next
    fix j assume "j < length (a # as)"
    then show "frame_word m' uvas (length (a # as) - 1 - j) = USER_STACK_BASE + word_of_nat (str_off (a # as) n j)"
      using ih(3) [of "length as"] uv [of "length as"] ih(4) la(1) by (cases j) (simp_all add: off)
  qed
qed

section \<open>The pointers\<close>

lemma push_ptrs_spec:
  assumes "pg_aligned uvas" "n \<le> 512"
    and "\<And>x. page_of x = page_of uvas \<Longrightarrow> 8 * n \<le> unat (x - b)"
  shows "\<exists>m'. push_ptrs uvas n (b + 8 * word_of_nat n) m = (b, m') \<and>
    row m' b (map (frame_word m uvas) [0..<n]) \<and> (\<forall>x. 8 * n \<le> unat (x - b) \<longrightarrow> m' x = m x)"
  using assms(2,3)
proof (induction n arbitrary: m)
  case 0
  then show ?case by (simp add: row_def)
next
  case (Suc n)
  define m1 where "m1 = st64 m (b + 8 * word_of_nat n) (frame_word m uvas n)"
  have push: "push_ptrs uvas (Suc n) (b + 8 * word_of_nat (Suc n)) m = push_ptrs uvas n (b + 8 * word_of_nat n) m1"
    by (simp add: m1_def frame_word_def algebra_simps)
  have far: "8 * n \<le> unat (x - b)" if "page_of x = page_of uvas" for x
    using Suc.prems(2) [OF that] by simp
  obtain m' where ih: "push_ptrs uvas n (b + 8 * word_of_nat n) m1 = (b, m')"
    "row m' b (map (frame_word m1 uvas) [0..<n])" "\<And>x. 8 * n \<le> unat (x - b) \<Longrightarrow> m' x = m1 x"
    using Suc.IH [OF _ far, of m1] Suc.prems(1) by auto
  have off: "unat (x - (b + 8 * word_of_nat n)) = unat (x - b) - 8 * n" if "8 * n \<le> unat (x - b)" for x
    using shift_unat [OF that] by simp
  have m1: "m1 x = m x" if "8 * Suc n \<le> unat (x - b)" for x
    unfolding m1_def using off [of x] that by (intro st64_other) (simp add: word_le_nat_alt)
  have same: "frame_word m1 uvas i = frame_word m uvas i" if "i < 512" for i
    by (rule frame_word_page [OF assms(1) that]) (rule m1 [OF Suc.prems(2)])
  have "frame_word m' b n = frame_word m uvas n"
  proof -
    have "m' x = m1 x" if "x - (b + 8 * word_of_nat n) < 8" for x
    proof (rule ih(3), rule ccontr)
      assume "\<not> 8 * n \<le> unat (x - b)"
      then have "unat (x - (b + word_of_nat (8 * n))) = 2 ^ 64 - (8 * n - unat (x - b))"
        using Suc.prems(1) by (intro far_unat) simp_all
      then show False using that Suc.prems(1) by (simp add: word_less_nat_alt)
    qed
    then have "ld64 m' (b + 8 * word_of_nat n) = ld64 m1 (b + 8 * word_of_nat n)" by (rule ld64_cong)
    then show ?thesis by (simp add: frame_word_def m1_def)
  qed
  moreover have "map (frame_word m1 uvas) [0..<n] = map (frame_word m uvas) [0..<n]"
    using same Suc.prems(1) by simp
  ultimately have "row m' b (map (frame_word m uvas) [0..<Suc n])"
    using ih(2) by (simp add: row_def nth_append less_Suc_eq)
  moreover have "m' x = m x" if "8 * Suc n \<le> unat (x - b)" for x
    using ih(3) [of x] m1 [OF that] that by simp
  ultimately show ?case using ih(1) push by auto
qed

section \<open>The whole block\<close>

definition args_fit :: "cstr list \<Rightarrow> bool" where
  "args_fit args \<longleftrightarrow> room args + 15 + 8 * (length args + 3) \<le> 4096"

text \<open>The offsets of the first free 16 bytes boundary under the strings, and of the argument count.\<close>

definition args_top :: "cstr list \<Rightarrow> nat" where
  "args_top args = (4096 - room args) div 16 * 16"

definition args_off :: "cstr list \<Rightarrow> nat" where
  "args_off args = args_top args - 8 * (length args + 3)"

lemma args_offsets:
  assumes "args_fit args"
  shows "args_off args + 8 * (length args + 3) = args_top args" "args_top args \<le> 4096 - room args"
    "length args \<le> 512" "room args \<le> 4096" "16 dvd args_top args"
proof -
  have f: "8 * (length args + 3) + 15 \<le> 4096 - room args" using assms unfolding args_fit_def by linarith
  have d: "args_top args + (4096 - room args) mod 16 = 4096 - room args" by (simp add: args_top_def)
  have m: "(4096 - room args) mod 16 < 16" by simp
  show "args_off args + 8 * (length args + 3) = args_top args"
    unfolding args_off_def using f d m by linarith
  show "args_top args \<le> 4096 - room args" using d by linarith
  show "length args \<le> 512"
    using assms le_add2 [of "8 * length args" "room args"] unfolding args_fit_def by simp
  show "room args \<le> 4096" using assms unfolding args_fit_def by linarith
qed (simp add: args_top_def)

text \<open>The cells below \<open>args_top\<close>, upwards from the count.\<close>

lemma args_row:
  assumes "pg_aligned kpage" "pg_aligned uvas" "page_of uvas \<noteq> page_of kpage" "args_fit args"
    and "sp0 = kpage + word_of_nat (args_top args)" "b = kpage + word_of_nat (args_off args)"
  shows "\<exists>m3. push_ptrs uvas (length args) (sp0 - 16) (st64 (st64 m (sp0 - 8) 0) (sp0 - 16) 0) = (b + 8, m3) \<and>
    row (st64 m3 b v) b ([v] @ map (frame_word m uvas) [0..<length args] @ [0, 0]) \<and>
    (\<forall>x. unat (x - kpage) < args_off args \<or> args_top args \<le> unat (x - kpage) \<longrightarrow> st64 m3 b v x = m x)"
proof -
  note o = args_offsets [OF assms(4)]
  let ?n = "length args"
  define c where "c = sp0 - 16"
  have c: "c = b + 8 + 8 * word_of_nat ?n" "c + 8 = sp0 - 8"
    unfolding c_def assms(5,6) o(1) [symmetric] by (simp_all add: algebra_simps)
  define m2 where "m2 = wr_words (wr_words m (c + 8) [0]) c [0]"
  have m2_st: "m2 = st64 (st64 m (sp0 - 8) 0) (sp0 - 16) 0" by (simp add: m2_def c(2) c_def)
  have z: "row m2 c ([0] @ [0])"
    unfolding m2_def by (intro row_front row_wr) (simp_all add: row_def frame_word_def)
  have below: "3 * 8 + 8 * ?n \<le> unat (x - b)"
    if "unat (x - kpage) < args_off args \<or> args_top args \<le> unat (x - kpage)" for x
  proof -
    have e: "args_off args + (3 * 8 + 8 * ?n) = args_top args" using o(1) by simp
    show ?thesis unfolding assms(6)
    proof (rule outside_stretch)
      show "args_off args + (3 * 8 + 8 * ?n) \<le> 2 ^ 63" unfolding e using o(2) by simp
    qed (use that e in simp)
  qed
  have cell: "8 \<le> unat (x - (b + word_of_nat k))" if "k + 8 \<le> 24 + 8 * ?n"
    "unat (x - kpage) < args_off args \<or> args_top args \<le> unat (x - kpage)" for x k
    using below [OF that(2)] that(1) shift_unat [of k x b] by simp
  have m2: "m2 x = m x" if "unat (x - kpage) < args_off args \<or> args_top args \<le> unat (x - kpage)" for x
    using cell [OF _ that, of "8 + 8 * ?n"] cell [OF _ that, of "16 + 8 * ?n"]
    by (simp add: m2_def c(1) st64_far algebra_simps)
  have out: "unat (x - kpage) < args_off args \<or> args_top args \<le> unat (x - kpage)"
    if "page_of x = page_of uvas" for x
    using other_page [OF assms(1), of x] that assms(3) o(2) by linarith
  have uv: "frame_word m2 uvas i = frame_word m uvas i" if "i < 512" for i
    by (rule frame_word_page [OF assms(2) that]) (rule m2 [OF out])
  have "8 * ?n \<le> unat (x - (b + 8))" if "page_of x = page_of uvas" for x
    using below [OF out [OF that]] shift_unat [of 8 x b] by simp
  then obtain m3 where m3: "push_ptrs uvas ?n c m2 = (b + 8, m3)"
    "row m3 (b + 8) (map (frame_word m2 uvas) [0..<?n])" "\<And>x. 8 * ?n \<le> unat (x - (b + 8)) \<Longrightarrow> m3 x = m2 x"
    using push_ptrs_spec [OF assms(2) o(3), of "b + 8" m2] unfolding c(1) by auto
  have "row m3 c [0, 0]"
  proof (rule row_cong)
    show "row m2 c [0, 0]" using z by simp
  next
    fix x assume "unat (x - c) < 8 * length [0, 0 :: u64]"
    then have x: "unat (x - c) < 16" by simp
    have "8 * ?n \<le> unat (x - (b + 8))"
    proof (rule ccontr)
      assume "\<not> 8 * ?n \<le> unat (x - (b + 8))"
      then have "unat (x - (b + 8 + word_of_nat (8 * ?n))) = 2 ^ 64 - (8 * ?n - unat (x - (b + 8)))"
        using o(3) by (intro far_unat) simp_all
      then show False using x o(3) by (simp add: c(1))
    qed
    then show "m3 x = m2 x" by (rule m3(3))
  qed simp
  moreover have ptrs: "map (frame_word m2 uvas) [0..<?n] = map (frame_word m uvas) [0..<?n]"
    using uv o(3) by simp
  ultimately have "row m3 (b + 8) (map (frame_word m uvas) [0..<?n] @ [0, 0])"
    using m3(2) unfolding ptrs by (simp add: row_append c(1))
  then have "row (wr_words m3 b [v]) b ([v] @ map (frame_word m uvas) [0..<?n] @ [0, 0])"
    by (intro row_front) (use o(3) in simp_all)
  moreover have "st64 m3 b v x = m x"
    if "unat (x - kpage) < args_off args \<or> args_top args \<le> unat (x - kpage)" for x
    using cell [OF _ that, of 0] below [OF that] shift_unat [of 8 x b] m3(3) [of x] m2 [OF that]
    by (simp add: st64_far)
  ultimately show ?thesis using m3(1) unfolding m2_st c_def [symmetric] by auto
qed

lemma align16_add: "(16 * k + n) div 16 * 16 = 16 * k + n div 16 * (16 :: nat)"
  by simp

lemma align16_odd:
  fixes x :: nat
  shows "x = 16 * k + y \<Longrightarrow> y + 8 * (l + 3) = t \<Longrightarrow> 16 dvd t \<Longrightarrow> 16 dvd x \<longleftrightarrow> odd l"
  by presburger

lemma unat_align16: "unat (w AND NOT 15 :: u64) = unat w div 16 * 16"
proof -
  have "NOT (15 :: u64) = NOT (mask 4)" by (simp add: mask_eq_exp_minus_1)
  moreover have "w AND NOT (mask 4) = push_bit 4 (drop_bit 4 w)" by (rule bit_eqI) (auto simp: bit_simps)
  moreover have "unat (drop_bit 4 w) = unat w div 16" by (simp add: drop_bit_eq_div unat_div)
  moreover have "unat w div 16 * 16 < 2 ^ 64"
    using unat_lt [of w] by (intro order_le_less_trans [OF div_times_less_eq_dividend]) simp
  ultimately show ?thesis by (simp add: push_bit_eq_mult unat_word_ariths)
qed

text \<open>Where the user address of an offset below the page's end is, rounded down to 16 bytes.\<close>

lemma stack_align:
  assumes "n \<le> 4096"
  shows "(USER_STACK_BASE + word_of_nat n) AND NOT 15 = USER_STACK_BASE + word_of_nat (n div 16 * 16)"
proof -
  have d: "n div 16 * 16 \<le> n" by simp
  have u: "unat (USER_STACK_BASE + word_of_nat k) = 0x7FFFFFE000 + k" if "k \<le> 4096" for k
    using that by (simp add: unat_word_ariths unat_of_nat_id)
  have "unat ((USER_STACK_BASE + word_of_nat n) AND NOT 15) = (0x7FFFFFE000 + n) div 16 * 16"
    unfolding unat_align16 using u [OF assms] by simp
  also have "\<dots> = 0x7FFFFFE000 + n div 16 * 16" using align16_add [of "0x7FFFFFE00" n] by simp
  also have "\<dots> = unat (USER_STACK_BASE + word_of_nat (n div 16 * 16) :: u64)"
    using assms d by (intro u [symmetric]) simp
  finally show ?thesis by (simp only: word_unat_eq_iff)
qed

lemma args_block:
  assumes "pg_aligned kpage" "pg_aligned uvas" "page_of uvas \<noteq> page_of kpage" "args_fit args"
    and "sp0 = kpage + word_of_nat (args_top args)" "b = kpage + word_of_nat (args_off args)"
  shows "\<exists>m1 m3. push_strings kpage uvas (rev args) (kpage + PAGE_SIZE) m =
      (kpage + word_of_nat (4096 - room args), m1) \<and>
    push_ptrs uvas (length args) (sp0 - 16) (st64 (st64 m1 (sp0 - 8) 0) (sp0 - 16) 0) = (b + 8, m3) \<and>
    initial_stack (st64 m3 b (word_of_nat (length args))) kpage (USER_STACK_BASE + word_of_nat (args_off args)) args \<and>
    pg_frame {# page_of uvas, page_of kpage #} m (st64 m3 b (word_of_nat (length args)))"
proof -
  note o = args_offsets [OF assms(4)]
  let ?n = "length args"
  obtain m1 where m1: "push_strings kpage uvas (rev args) (kpage + word_of_nat 4096) m =
      (kpage + word_of_nat (4096 - room args), m1)"
    "\<And>x. page_of x \<noteq> page_of uvas \<Longrightarrow> unat (x - kpage) < 4096 - room args \<or> 4096 \<le> unat (x - kpage) \<Longrightarrow> m1 x = m x"
    "\<And>j. j < ?n \<Longrightarrow> c_string_at m1 (kpage + word_of_nat (str_off (rev args) 4096 j)) (rev args ! j) \<and>
       frame_word m1 uvas (?n - 1 - j) = USER_STACK_BASE + word_of_nat (str_off (rev args) 4096 j)"
    using push_strings_spec [OF assms(1-3), of "rev args" 4096 m] o(3,4) by auto
  obtain m3 where m3: "push_ptrs uvas ?n (sp0 - 16) (st64 (st64 m1 (sp0 - 8) 0) (sp0 - 16) 0) = (b + 8, m3)"
    "row (st64 m3 b (word_of_nat ?n)) b ([word_of_nat ?n] @ map (frame_word m1 uvas) [0..<?n] @ [0, 0])"
    "\<And>x. unat (x - kpage) < args_off args \<or> args_top args \<le> unat (x - kpage) \<Longrightarrow>
       st64 m3 b (word_of_nat ?n) x = m1 x"
    using args_row [OF assms, of m1 "word_of_nat ?n"] by blast
  let ?m = "st64 m3 b (word_of_nat ?n)"
  have str: "\<exists>q. q + length (args ! i) < 4096 \<and> frame_word m1 uvas i = USER_STACK_BASE + word_of_nat q \<and>
      c_string_at ?m (kpage + word_of_nat q) (args ! i)" if i: "i < ?n" for i
  proof -
    let ?j = "?n - 1 - i" let ?q = "str_off (rev args) 4096 ?j"
    have j: "?j < ?n" "?n - 1 - ?j = i" "rev args ! ?j = args ! i" using i by (simp_all add: rev_nth)
    have "room (take (Suc ?j) (rev args)) + room (drop (Suc ?j) (rev args)) = room args"
      by (metis append_take_drop_id room_rev room_simps(3))
    moreover have "take (Suc ?j) (rev args) = take ?j (rev args) @ [args ! i]"
      using j i by (simp add: take_Suc_conv_app_nth)
    ultimately have r: "4096 - room args \<le> ?q" "?q + length (args ! i) < 4096"
      using o(4) by (simp_all add: str_off_def)
    have "c_string_at ?m (kpage + word_of_nat ?q) (args ! i)"
    proof (rule c_string_cong)
      show "c_string_at m1 (kpage + word_of_nat ?q) (args ! i)" using m1(3) [OF j(1)] j(3) by simp
    next
      fix x assume x: "unat (x - (kpage + word_of_nat ?q)) < length (args ! i) + 1"
      then have "\<not> (unat (x - kpage) < ?q \<or> ?q + (length (args ! i) + 1) \<le> unat (x - kpage))"
        using outside_stretch [of x kpage ?q "length (args ! i) + 1"] r(2) by auto
      then show "?m x = m1 x" using r(1) o(2) by (intro m3(3)) linarith
    qed (use r in simp)
    then show ?thesis using m1(3) [OF j(1)] r(2) unfolding j(2) by blast
  qed
  have w: "frame_word ?m b 0 = word_of_nat ?n" "frame_word ?m b (1 + ?n) = 0" "frame_word ?m b (2 + ?n) = 0"
    "\<And>i. i < ?n \<Longrightarrow> frame_word ?m b (1 + i) = frame_word m1 uvas i"
    using row_nth [OF m3(2), of 0] row_nth [OF m3(2), of "1 + ?n"] row_nth [OF m3(2), of "2 + ?n"]
      row_nth [OF m3(2), of "1 + i" for i]
    by (simp_all add: nth_append)
  have "initial_stack ?m kpage (USER_STACK_BASE + word_of_nat (args_off args)) args"
    unfolding initial_stack_def
  proof (rule exI [of _ "args_off args"], intro conjI allI impI)
    fix i assume i: "i < ?n"
    show "\<exists>q. q + length (args ! i) < 4096 \<and>
        frame_word ?m (kpage + word_of_nat (args_off args)) (1 + i) = USER_STACK_BASE + word_of_nat q \<and>
        c_string_at ?m (kpage + word_of_nat q) (args ! i)"
      unfolding assms(6) [symmetric] w(4) [OF i] by (rule str [OF i])
  qed (use w o in \<open>simp_all add: assms(6) [symmetric]\<close>)
  moreover have "pg_frame {# page_of uvas, page_of kpage #} m ?m"
  proof -
    have "?m x = m x" if "page_of x \<noteq> page_of uvas" "page_of x \<noteq> page_of kpage" for x
    proof -
      have x: "4096 \<le> unat (x - kpage)" by (rule other_page [OF assms(1) that(2)])
      then have "args_top args \<le> unat (x - kpage)" using o(2) by linarith
      then show ?thesis using x m3(3) [of x] m1(2) [OF that(1)] by simp
    qed
    then show ?thesis by (simp add: pg_frame_def)
  qed
  ultimately show ?thesis using m1(1) m3(1) by auto
qed

text \<open>Only the page at \<open>kpage\<close> matters.\<close>

lemma initial_stack_page:
  assumes "initial_stack m kpage sp args" "pg_aligned kpage" "\<And>x. page_of x = page_of kpage \<Longrightarrow> m' x = m x"
  shows "initial_stack m' kpage sp args"
proof -
  have near: "m' x = m x" if "unat (x - (kpage + word_of_nat n)) < l" "n + l \<le> 4096" for x n l
  proof (rule assms(3))
    have "\<not> (unat (x - kpage) < n \<or> n + l \<le> unat (x - kpage))"
      using outside_stretch [of x kpage n l] that by auto
    then have "unat (x - kpage) < 4096" using that(2) by linarith
    then show "page_of x = page_of kpage" using page_bytes [OF assms(2)] by blast
  qed
  have word: "frame_word m' (kpage + word_of_nat n) i = frame_word m (kpage + word_of_nat n) i"
    if "i < l" "n + 8 * l \<le> 4096" for n i l
    by (rule frame_word_cong [where n = l]) (use that near [of _ n "8 * l"] in simp_all)
  have str: "c_string_at m' (kpage + word_of_nat q) cs"
    if "c_string_at m (kpage + word_of_nat q) cs" "q + length cs < 4096" for q cs
    by (rule c_string_cong [OF that(1)]) (use that(2) near [of _ q "length cs + 1"] in simp_all)
  obtain n where n: "sp = USER_STACK_BASE + word_of_nat n" "n + 8 * (length args + 3) \<le> 4096"
    "frame_word m (kpage + word_of_nat n) 0 = word_of_nat (length args)"
    "\<And>i. i < length args \<Longrightarrow> \<exists>q. q + length (args ! i) < 4096 \<and>
       frame_word m (kpage + word_of_nat n) (1 + i) = USER_STACK_BASE + word_of_nat q \<and>
       c_string_at m (kpage + word_of_nat q) (args ! i)"
    "frame_word m (kpage + word_of_nat n) (1 + length args) = 0"
    "frame_word m (kpage + word_of_nat n) (2 + length args) = 0"
    using assms(1) unfolding initial_stack_def by auto
  have w: "frame_word m' (kpage + word_of_nat n) i = frame_word m (kpage + word_of_nat n) i"
    if "i < length args + 3" for i
    using word [OF that n(2)] .
  have "\<exists>q. q + length (args ! i) < 4096 \<and>
       frame_word m' (kpage + word_of_nat n) (1 + i) = USER_STACK_BASE + word_of_nat q \<and>
       c_string_at m' (kpage + word_of_nat q) (args ! i)" if "i < length args" for i
    using n(4) [OF that] w [of "1 + i"] that str by auto
  then show ?thesis unfolding initial_stack_def using n w by (intro exI [of _ n]) auto
qed


text \<open>A table that maps the user stack to itself.\<close>

definition loop_table :: addr where
  "loop_table = hhdm0 + 0x3000"

definition looped :: kmem where
  "looped = one_page\<lparr>kbytes := st64 (st64 (st64 (kbytes one_page) loop_table 0x3001)
     (loop_table + 0xFF0) 0x3001) (loop_table + 0xFF8) 0x3001\<rparr>"

lemma looped_ok: "buddy_ok looped {# page_of (hhdm0 + 0x1000) #}" "stack_frame looped loop_table = Some 0x3000"
  "PHYS_TO_VIRT looped 0x3000 = loop_table" "pg_aligned loop_table" "page_of loop_table \<noteq> page_of (hhdm0 + 0x1000)"
proof -
  show al: "pg_aligned loop_table" by (simp add: loop_table_def hhdm0_def pg_aligned_def)
  show ne: "page_of loop_table \<noteq> page_of (hhdm0 + 0x1000)" by (simp add: loop_table_def hhdm0_def page_of_def)
  have i: "st64 m (loop_table + 8 * word_of_nat i) v x = m x"
    if "i < 512" "page_of x \<noteq> page_of loop_table" for m i v x
    by (rule st64_page [OF al that])
  have f: "pg_frame {# page_of loop_table #} (kbytes one_page) (kbytes looped)"
    using i [of 0] i [of 510] i [of 511] by (simp add: looped_def pg_frame_def)
  show "buddy_ok looped {# page_of (hhdm0 + 0x1000) #}"
    using buddy_ok_frame [OF buddy_ok_one f] ne by (simp add: looped_def)
  have h: "khhdm looped = hhdm0"
    by (simp add: looped_def one_page_def buddy_enable_lock_def fresh_kmem_def kinit_def)
  show v: "PHYS_TO_VIRT looped 0x3000 = loop_table" by (simp add: PHYS_TO_VIRT_def h loop_table_def)
  have e: "ld64 (kbytes looped) loop_table = 0x3001" "ld64 (kbytes looped) (loop_table + 0xFF0) = 0x3001"
    "ld64 (kbytes looped) (loop_table + 0xFF8) = 0x3001"
    by (simp_all add: looped_def ld64_st64_other)
  show "stack_frame looped loop_table = Some 0x3000"
    by (simp add: stack_frame_def Let_def pte_at_def PML4_INDEX_def PDPT_INDEX_def PD_INDEX_def PT_INDEX_def
        e v present_def)
qed


end
