(* ===== verification/Sched.thy ===== *)
theory Sched
  imports Proc
begin

text \<open>
  The scheduler: \<^verbatim>\<open>scheduler\<close>, \<^verbatim>\<open>yield\<close> and \<^verbatim>\<open>forkret\<close> of \<^verbatim>\<open>kernel/proc.c\<close>, the end of \<^verbatim>\<open>sys_exit\<close>,
  and the other holders of \<^verbatim>\<open>proc_lock\<close>, as a step relation over any number of CPUs. A
  process table, the lock and the per-CPU words of \<^verbatim>\<open>struct cpu\<close> are the shared state; a CPU also has a
  place in the code. A stretch of code under the lock is one step where nothing it reads can be
  changed by code that runs without the lock.

  The place \<open>InLoop\<close> is the head of the scheduler's endless loop; \<open>Scanning i\<close> is inside the table loop with
  the lock held, about to look at slot \<open>i\<close>; \<open>Resumed i\<close> is just behind the \<^verbatim>\<open>swtch\<close> into the process
  of slot \<open>i\<close>, on its stack, with the lock still held (in \<^verbatim>\<open>forkret\<close>, or in \<^verbatim>\<open>yield\<close>); \<open>Running i\<close>
  is in that process, in user or kernel mode; \<open>Booting\<close> is in the boot code, before the scheduler.
  The scheduler's own context always waits behind the \<^verbatim>\<open>swtch\<close> of the slot it switched to, so the
  slot of \<open>Resumed\<close> and \<open>Running\<close> is also the position it returns to.
\<close>

section \<open>State\<close>

datatype place = Booting | InLoop | Scanning nat | Resumed nat | Running nat

record cpu_state =
  ccpu :: cpu
  cproc :: addr
  ccr3 :: u64
  crsp0 :: u64
  ckernel_rsp :: u64
  cplace :: place

record sched =
  slock :: spinlock
  stable :: "process list"
  snext_pid :: u32
  scpus :: "nat \<Rightarrow> cpu_state"

definition slot_ptr :: "nat \<Rightarrow> addr" where
  "slot_ptr i = word_of_nat (i + 1)"

definition set_state :: "nat \<Rightarrow> u32 \<Rightarrow> sched \<Rightarrow> sched" where
  "set_state i v s = s\<lparr>stable := (stable s)[i := (stable s ! i)\<lparr>pstate := v\<rparr>]\<rparr>"

definition upd_cpu :: "nat \<Rightarrow> (cpu_state \<Rightarrow> cpu_state) \<Rightarrow> sched \<Rightarrow> sched" where
  "upd_cpu c f s = s\<lparr>scpus := (scpus s)(c := f (scpus s c))\<rparr>"

definition sched_acquire :: "nat \<Rightarrow> sched \<Rightarrow> sched option" where
  "sched_acquire c s = do {
     (k, l) \<leftarrow> acquire c (ccpu (scpus s c)) (slock s);
     Some (upd_cpu c (\<lambda>u. u\<lparr>ccpu := k\<rparr>) (s\<lparr>slock := l\<rparr>)) }"

definition sched_release :: "nat \<Rightarrow> sched \<Rightarrow> sched option" where
  "sched_release c s = do {
     (k, l) \<leftarrow> release c (ccpu (scpus s c)) (slock s);
     Some (upd_cpu c (\<lambda>u. u\<lparr>ccpu := k\<rparr>) (s\<lparr>slock := l\<rparr>)) }"

definition at_place :: "nat \<Rightarrow> place \<Rightarrow> sched \<Rightarrow> sched" where
  "at_place c p = upd_cpu c (\<lambda>u. u\<lparr>cplace := p\<rparr>)"

section \<open>The scheduler's loop\<close>

text \<open>\<^verbatim>\<open>sti\<close> and the \<^verbatim>\<open>acquire\<close> before the table loop.\<close>

definition sched_enter :: "nat \<Rightarrow> sched \<Rightarrow> sched option" where
  "sched_enter c s = do {
     s1 \<leftarrow> sched_acquire c (upd_cpu c (\<lambda>u. u\<lparr>ccpu := (ccpu u)\<lparr>iflag := True\<rparr>\<rparr>) s);
     Some (at_place c (Scanning 0) s1)
   }"

text \<open>One round of the table loop; \<open>V\<close> is \<^verbatim>\<open>VIRT_TO_PHYS\<close>. After the last slot the lock is released.\<close>

definition dispatch :: "(addr \<Rightarrow> u64) \<Rightarrow> nat \<Rightarrow> nat \<Rightarrow> sched \<Rightarrow> sched" where
  "dispatch V c i s =
     (let p = stable s ! i; kstop = kstack p + KSTACK_SIZE
      in upd_cpu c (\<lambda>u. u\<lparr>cproc := slot_ptr i, ccr3 := V (ppml4 p), crsp0 := kstop, ckernel_rsp := kstop,
           cplace := Resumed i\<rparr>) (set_state i PROC_RUNNING s))"

definition sched_scan :: "(addr \<Rightarrow> u64) \<Rightarrow> nat \<Rightarrow> nat \<Rightarrow> sched \<Rightarrow> sched option" where
  "sched_scan V c i s =
     (if i < MAX_PROCS then
        if pstate (stable s ! i) \<noteq> PROC_RUNNABLE then Some (at_place c (Scanning (i + 1)) s)
        else Some (dispatch V c i s)
      else do { s1 \<leftarrow> sched_release c s; Some (at_place c InLoop s1) })"

text \<open>The release on the resumed process's stack: \<^verbatim>\<open>forkret\<close> the first time, else the end of \<^verbatim>\<open>yield\<close>.\<close>

definition sched_resume :: "nat \<Rightarrow> nat \<Rightarrow> sched \<Rightarrow> sched option" where
  "sched_resume c i s = do { s1 \<leftarrow> sched_release c s; Some (at_place c (Running i) s1) }"

text \<open>Back behind the \<^verbatim>\<open>swtch\<close> of slot \<open>i\<close>, in the scheduler.\<close>

definition switch_back :: "nat \<Rightarrow> nat \<Rightarrow> sched \<Rightarrow> sched" where
  "switch_back c i = upd_cpu c (\<lambda>u. u\<lparr>cproc := 0, cplace := Scanning (i + 1)\<rparr>)"

definition sched_yield :: "nat \<Rightarrow> nat \<Rightarrow> sched \<Rightarrow> sched option" where
  "sched_yield c i s =
     (if cproc (scpus s c) = 0 then Some s
      else do {
        s1 \<leftarrow> sched_acquire c s;
        Some (switch_back c i (set_state i PROC_RUNNABLE s1))
      })"

text \<open>The part of \<^verbatim>\<open>sys_exit\<close> under the lock, without the descriptors it closes and what it prints.\<close>

definition sched_exit :: "nat \<Rightarrow> nat \<Rightarrow> i32 \<Rightarrow> sched \<Rightarrow> sched option" where
  "sched_exit c i status s = do {
     s1 \<leftarrow> sched_acquire c s;
     let s2 = s1\<lparr>stable := (stable s1)[i := (stable s1 ! i)\<lparr>exit_code := status, pstate := PROC_ZOMBIE\<rparr>]\<rparr>;
     Some (switch_back c i s2)
   }"

section \<open>The other users of the lock\<close>

text \<open>The table part of \<^verbatim>\<open>proc_alloc\<close>, of \<^verbatim>\<open>make_runnable\<close>, and of a \<^verbatim>\<open>wait\<close> that reaps the zombie of slot \<open>i\<close>.\<close>

definition sched_alloc :: "nat \<Rightarrow> sched \<Rightarrow> sched option" where
  "sched_alloc c s = do {
     s1 \<leftarrow> sched_acquire c s;
     case unused_slot (stable s1) 0 of None \<Rightarrow> sched_release c s1
     | Some i \<Rightarrow> sched_release c (s1\<lparr>snext_pid := snext_pid s1 + 1,
         stable := (stable s1)[i := (stable s1 ! i)\<lparr>pid := snext_pid s1, pstate := PROC_EMBRYO\<rparr>]\<rparr>)
   }"

definition sched_ready :: "nat \<Rightarrow> nat \<Rightarrow> sched \<Rightarrow> sched option" where
  "sched_ready c j s = do {
     s1 \<leftarrow> sched_acquire c s;
     sched_release c (set_state j PROC_RUNNABLE s1)
   }"

definition sched_reap :: "nat \<Rightarrow> nat \<Rightarrow> sched \<Rightarrow> sched option" where
  "sched_reap c j s = do {
     s1 \<leftarrow> sched_acquire c s;
     sched_release c (s1\<lparr>stable := (stable s1)[j := (stable s1 ! j)\<lparr>ppml4 := 0, kstack := 0,
       pstate := PROC_UNUSED\<rparr>]\<rparr>)
   }"

section \<open>Steps\<close>

text \<open>
  \<open>in_kernel p\<close>: the CPU runs code that may call into the process table. \<open>embryo\<close> stands for what the
  creator of a process does with its slot before it is runnable, without the lock: it sets any
  field but the state, or gives the slot back. \<open>exec\<close> gives the running process a new address
  space and loads it. \<open>irq\<close> is any change of the CPU's own interrupt flag in process
  code outside the lock (system call entry, interrupts, the return to user mode).
\<close>

definition in_kernel :: "place \<Rightarrow> bool" where
  "in_kernel p \<longleftrightarrow> p = Booting \<or> (\<exists>i. p = Running i)"

inductive sched_step :: "(addr \<Rightarrow> u64) \<Rightarrow> sched \<Rightarrow> sched \<Rightarrow> bool" for V where
  start: "cplace (scpus s c) = Booting \<Longrightarrow> sched_step V s (at_place c InLoop s)"
| enter: "cplace (scpus s c) = InLoop \<Longrightarrow> sched_enter c s = Some t \<Longrightarrow> sched_step V s t"
| scan: "cplace (scpus s c) = Scanning i \<Longrightarrow> sched_scan V c i s = Some t \<Longrightarrow> sched_step V s t"
| resume: "cplace (scpus s c) = Resumed i \<Longrightarrow> sched_resume c i s = Some t \<Longrightarrow> sched_step V s t"
| yield: "cplace (scpus s c) = Running i \<Longrightarrow> sched_yield c i s = Some t \<Longrightarrow> sched_step V s t"
| exit: "cplace (scpus s c) = Running i \<Longrightarrow> sched_exit c i status s = Some t \<Longrightarrow> sched_step V s t"
| alloc: "in_kernel (cplace (scpus s c)) \<Longrightarrow> sched_alloc c s = Some t \<Longrightarrow> sched_step V s t"
| ready: "in_kernel (cplace (scpus s c)) \<Longrightarrow> j < MAX_PROCS \<Longrightarrow> pstate (stable s ! j) = PROC_EMBRYO \<Longrightarrow>
    sched_ready c j s = Some t \<Longrightarrow> sched_step V s t"
| reap: "in_kernel (cplace (scpus s c)) \<Longrightarrow> j < MAX_PROCS \<Longrightarrow> pstate (stable s ! j) = PROC_ZOMBIE \<Longrightarrow>
    sched_reap c j s = Some t \<Longrightarrow> sched_step V s t"
| embryo: "j < MAX_PROCS \<Longrightarrow> pstate (stable s ! j) = PROC_EMBRYO \<Longrightarrow>
    pstate q = PROC_EMBRYO \<or> pstate q = PROC_UNUSED \<Longrightarrow>
    sched_step V s (s\<lparr>stable := (stable s)[j := q]\<rparr>)"
| exec: "cplace (scpus s c) = Running i \<Longrightarrow>
    sched_step V s (upd_cpu c (\<lambda>u. u\<lparr>ccr3 := V new_pml4\<rparr>)
      (s\<lparr>stable := (stable s)[i := (stable s ! i)\<lparr>ppml4 := new_pml4\<rparr>]\<rparr>))"
| irq: "in_kernel (cplace (scpus s c)) \<Longrightarrow> ncli (ccpu (scpus s c)) = 0 \<Longrightarrow>
    sched_step V s (upd_cpu c (\<lambda>u. u\<lparr>ccpu := (ccpu u)\<lparr>iflag := b\<rparr>\<rparr>) s)"

text \<open>All CPUs boot, no slot is in use, the lock is free.\<close>

definition sched_init :: "process list \<Rightarrow> (nat \<Rightarrow> cpu_state) \<Rightarrow> sched \<Rightarrow> bool" where
  "sched_init tbl cs s \<longleftrightarrow> s = \<lparr>slock = initlock ''proc'', stable = tbl, snext_pid = 1, scpus = cs\<rparr> \<and>
     length tbl = MAX_PROCS \<and> (\<forall>q \<in> set tbl. pstate q = PROC_UNUSED) \<and>
     (\<forall>c. cplace (cs c) = Booting \<and> cproc (cs c) = 0 \<and> ncli (ccpu (cs c)) = 0)"

inductive sched_reach :: "(addr \<Rightarrow> u64) \<Rightarrow> process list \<Rightarrow> (nat \<Rightarrow> cpu_state) \<Rightarrow> sched \<Rightarrow> bool"
  for V tbl cs where
  init: "sched_init tbl cs s \<Longrightarrow> sched_reach V tbl cs s"
| step: "sched_reach V tbl cs s \<Longrightarrow> sched_step V s t \<Longrightarrow> sched_reach V tbl cs t"

end
