(* ===== verification/Sched_Spec.thy ===== *)
theory Sched_Spec
  imports Sched
begin

text \<open>
  What the scheduler guarantees in every interleaving of the CPUs: the lock has at most one holder, a
  process runs on one CPU at a time with its own address space and kernel stack loaded, and a holder
  of the lock always moves on. One thing it does not guarantee: a CPU that went back to the
  scheduler keeps the address space of the process it ran, also when that is freed.
\<close>

section \<open>The invariant\<close>

definition on_slot :: "place \<Rightarrow> nat option" where
  "on_slot p = (case p of Resumed i \<Rightarrow> Some i | Running i \<Rightarrow> Some i | _ \<Rightarrow> None)"

definition holds :: "place \<Rightarrow> bool" where
  "holds p = (case p of Scanning _ \<Rightarrow> True | Resumed _ \<Rightarrow> True | _ \<Rightarrow> False)"

lemma place_simps [simp]:
  "on_slot Booting = None" "on_slot InLoop = None" "on_slot (Scanning i) = None"
  "on_slot (Resumed i) = Some i" "on_slot (Running i) = Some i"
  "\<not> holds Booting" "\<not> holds InLoop" "holds (Scanning i)" "holds (Resumed i)" "\<not> holds (Running i)"
  by (simp_all add: on_slot_def holds_def)

definition lock_ok :: "sched \<Rightarrow> bool" where
  "lock_ok s \<longleftrightarrow>
     (locked (slock s) \<noteq> 0 \<longleftrightarrow> lcpu (slock s) \<noteq> None) \<and>
     (\<forall>c. lcpu (slock s) = Some c \<longleftrightarrow> holds (cplace (scpus s c))) \<and>
     (\<forall>c. ncli (ccpu (scpus s c)) = (if holds (cplace (scpus s c)) then 1 else 0)) \<and>
     (\<forall>c. holds (cplace (scpus s c)) \<longrightarrow> \<not> iflag (ccpu (scpus s c)))"

text \<open>CPU state \<open>u\<close> is that of a CPU on the process \<open>q\<close> of slot \<open>i\<close>.\<close>

definition loaded :: "(addr \<Rightarrow> u64) \<Rightarrow> cpu_state \<Rightarrow> nat \<Rightarrow> process \<Rightarrow> bool" where
  "loaded V u i q \<longleftrightarrow> pstate q = PROC_RUNNING \<and> cproc u = slot_ptr i \<and> ccr3 u = V (ppml4 q) \<and>
     crsp0 u = kstack q + KSTACK_SIZE \<and> ckernel_rsp u = kstack q + KSTACK_SIZE"

definition run_ok :: "(addr \<Rightarrow> u64) \<Rightarrow> sched \<Rightarrow> bool" where
  "run_ok V s \<longleftrightarrow>
     length (stable s) = MAX_PROCS \<and>
     (\<forall>c i. on_slot (cplace (scpus s c)) = Some i \<longrightarrow>
        i < MAX_PROCS \<and> loaded V (scpus s c) i (stable s ! i)) \<and>
     (\<forall>c d i. on_slot (cplace (scpus s c)) = Some i \<longrightarrow> on_slot (cplace (scpus s d)) = Some i \<longrightarrow> c = d) \<and>
     (\<forall>i < MAX_PROCS. pstate (stable s ! i) = PROC_RUNNING \<longrightarrow>
        (\<exists>c. on_slot (cplace (scpus s c)) = Some i)) \<and>
     (\<forall>c. on_slot (cplace (scpus s c)) = None \<longrightarrow> cproc (scpus s c) = 0)"

definition sched_inv :: "(addr \<Rightarrow> u64) \<Rightarrow> sched \<Rightarrow> bool" where
  "sched_inv V s \<longleftrightarrow> lock_ok s \<and> run_ok V s"

lemma cpu_simps [simp]:
  "stable (upd_cpu c f s) = stable s" "slock (upd_cpu c f s) = slock s"
  "scpus (upd_cpu c f s) = (scpus s)(c := f (scpus s c))"
  "snext_pid (upd_cpu c f s) = snext_pid s"
  "slock (set_state i v s) = slock s" "scpus (set_state i v s) = scpus s"
  "stable (set_state i v s) = (stable s)[i := (stable s ! i)\<lparr>pstate := v\<rparr>]"
  by (simp_all add: upd_cpu_def set_state_def)

section \<open>The lock\<close>

lemma acquire_some:
  assumes "acquire c k l = Some (k', l')" "ncli k = 0"
  shows "locked l = 0" "k' = pushcli k" "l' = l\<lparr>locked := 1, lcpu := Some c\<rparr>"
proof -
  show 0: "locked l = 0"
    using assms(1) by (auto simp: acquire_def Let_def Option.bind_eq_Some_conv split: if_splits)
  have "acquire c k l = Some (pushcli k, l\<lparr>locked := 1, lcpu := Some c\<rparr>)"
    by (rule acquire_free [OF 0]) (simp add: assms(2))
  with assms(1) show "k' = pushcli k" "l' = l\<lparr>locked := 1, lcpu := Some c\<rparr>" by simp_all
qed

text \<open>What a CPU looks like after it took or gave back the lock.\<close>

definition taken :: "nat \<Rightarrow> sched \<Rightarrow> sched" where
  "taken c s = upd_cpu c (\<lambda>u. u\<lparr>ccpu := pushcli (ccpu u)\<rparr>)
     (s\<lparr>slock := (slock s)\<lparr>locked := 1, lcpu := Some c\<rparr>\<rparr>)"

definition given_back :: "cpu \<Rightarrow> cpu" where
  "given_back k = (if intena k \<noteq> 0 then k\<lparr>ncli := 0, iflag := True\<rparr> else k\<lparr>ncli := 0\<rparr>)"

definition dropped :: "nat \<Rightarrow> sched \<Rightarrow> sched" where
  "dropped c s = upd_cpu c (\<lambda>u. u\<lparr>ccpu := given_back (ccpu u)\<rparr>)
     (s\<lparr>slock := (slock s)\<lparr>lcpu := None, locked := 0\<rparr>\<rparr>)"

lemma taken_simps [simp]:
  "stable (taken c s) = stable s" "snext_pid (taken c s) = snext_pid s"
  "scpus (taken c s) = (scpus s)(c := (scpus s c)\<lparr>ccpu := pushcli (ccpu (scpus s c))\<rparr>)"
  "slock (taken c s) = (slock s)\<lparr>locked := 1, lcpu := Some c\<rparr>"
  by (simp_all add: taken_def)

lemma dropped_simps [simp]:
  "stable (dropped c s) = stable s"
  "scpus (dropped c s) = (scpus s)(c := (scpus s c)\<lparr>ccpu := given_back (ccpu (scpus s c))\<rparr>)"
  "slock (dropped c s) = (slock s)\<lparr>lcpu := None, locked := 0\<rparr>"
  "ncli (given_back k) = 0"
  by (simp_all add: dropped_def given_back_def)

lemma sched_acquire_some:
  assumes "sched_acquire c s = Some t" "ncli (ccpu (scpus s c)) = 0"
  shows "locked (slock s) = 0" "t = taken c s"
  using assms acquire_some
  by (fastforce simp: sched_acquire_def taken_def Option.bind_eq_Some_conv)+

lemma sched_acquire_free:
  "locked (slock s) = 0 \<Longrightarrow> ncli (ccpu (scpus s c)) = 0 \<Longrightarrow> sched_acquire c s = Some (taken c s)"
  by (simp add: sched_acquire_def acquire_free taken_def)

lemma sched_release_held:
  assumes "locked (slock s) \<noteq> 0" "lcpu (slock s) = Some c" "\<not> iflag (ccpu (scpus s c))"
    "ncli (ccpu (scpus s c)) = 1"
  shows "sched_release c s = Some (dropped c s)"
  using assms by (simp add: sched_release_def release_held Let_def dropped_def given_back_def)

section \<open>Every step keeps it\<close>

text \<open>The part about processes does not look at the lock and the interrupt state, and not at what
  happens to slots that are not running before and after.\<close>

lemma run_ok_cong:
  assumes "run_ok V s" "stable t = stable s"
    "\<And>c. on_slot (cplace (scpus t c)) = on_slot (cplace (scpus s c))"
    "\<And>c. cproc (scpus t c) = cproc (scpus s c) \<and> ccr3 (scpus t c) = ccr3 (scpus s c) \<and>
       crsp0 (scpus t c) = crsp0 (scpus s c) \<and> ckernel_rsp (scpus t c) = ckernel_rsp (scpus s c)"
  shows "run_ok V t"
proof -
  have "loaded V (scpus t c) i q \<longleftrightarrow> loaded V (scpus s c) i q" "cproc (scpus t c) = cproc (scpus s c)" for c i q
    using assms(4) [of c] by (simp_all add: loaded_def)
  with assms(1-3) show ?thesis by (simp add: run_ok_def)
qed

lemma run_ok_slot:
  assumes "run_ok V s" "j < MAX_PROCS" "pstate (stable s ! j) \<noteq> PROC_RUNNING" "pstate q \<noteq> PROC_RUNNING"
    "stable t = (stable s)[j := q]" "scpus t = scpus s"
  shows "run_ok V t"
proof -
  have "on_slot (cplace (scpus s c)) \<noteq> Some j" for c
    using assms(1,3) by (fastforce simp: run_ok_def loaded_def)
  then show ?thesis using assms by (auto simp: run_ok_def nth_list_update)
qed

lemma run_ok_leave:
  assumes "run_ok V s" "on_slot (cplace (scpus s c)) = Some i" "pstate q \<noteq> PROC_RUNNING"
    "on_slot (cplace (scpus t c)) = None" "cproc (scpus t c) = 0"
    "stable t = (stable s)[i := q]" "\<And>d. d \<noteq> c \<Longrightarrow> scpus t d = scpus s d"
  shows "run_ok V t"
proof -
  have only: "d = c" if "on_slot (cplace (scpus s d)) = Some i" for d
    using assms(1,2) that unfolding run_ok_def by blast
  have i: "i < length (stable s)" using assms(1,2) by (simp add: run_ok_def)
  have other: "on_slot (cplace (scpus t d)) = Some j \<longleftrightarrow> on_slot (cplace (scpus s d)) = Some j \<and> j \<noteq> i" for d j
    using only [of d] assms(2,4) assms(7) [of d] by (cases "d = c") auto
  have "loaded V (scpus t d) j (stable t ! j)" if "on_slot (cplace (scpus t d)) = Some j" for d j
    using that other [of d j] assms(1,4,6) assms(7) [of d] unfolding run_ok_def by (cases "d = c") auto
  moreover have "\<exists>d. on_slot (cplace (scpus t d)) = Some j"
    if "j < MAX_PROCS" "pstate (stable t ! j) = PROC_RUNNING" for j
    using that assms(1,3,6) i unfolding other run_ok_def by (cases "j = i") auto
  moreover have "cproc (scpus t d) = 0" if "on_slot (cplace (scpus t d)) = None" for d
    using that assms(1,5) assms(7) [of d] unfolding run_ok_def by (cases "d = c") auto
  ultimately show ?thesis using assms(1,6) unfolding run_ok_def other by auto
qed

lemma run_ok_dispatch:
  assumes "run_ok V s" "i < MAX_PROCS" "pstate (stable s ! i) \<noteq> PROC_RUNNING"
    "on_slot (cplace (scpus s c)) = None"
  shows "run_ok V (dispatch V c i s)"
proof -
  have n: "on_slot (cplace (scpus s d)) \<noteq> Some i" for d
    using assms(1,3) by (fastforce simp: run_ok_def loaded_def)
  have u: "scpus (dispatch V c i s) d = (if d = c then scpus (dispatch V c i s) c else scpus s d)" for d
    by (simp add: dispatch_def Let_def)
  have p: "cplace (scpus (dispatch V c i s) c) = Resumed i"
    and l: "loaded V (scpus (dispatch V c i s) c) i (stable (dispatch V c i s) ! i)"
    and t: "stable (dispatch V c i s) = (stable s)[i := (stable s ! i)\<lparr>pstate := PROC_RUNNING\<rparr>]"
    using assms(1,2) by (simp_all add: dispatch_def Let_def loaded_def run_ok_def)
  have o: "on_slot (cplace (scpus (dispatch V c i s) d)) =
      (if d = c then Some i else on_slot (cplace (scpus s d)))" for d
    using u [of d] p by (cases "d = c") simp_all
  show ?thesis
    unfolding run_ok_def
  proof (intro conjI allI impI)
    show "length (stable (dispatch V c i s)) = MAX_PROCS" using assms(1) by (simp add: t run_ok_def)
  next
    fix d j assume dj: "on_slot (cplace (scpus (dispatch V c i s) d)) = Some j"
    show "j < MAX_PROCS" using dj assms(1,2) by (auto simp: o run_ok_def split: if_splits)
    show "loaded V (scpus (dispatch V c i s) d) j (stable (dispatch V c i s) ! j)"
    proof (cases "d = c")
      case True
      then show ?thesis using dj l by (simp add: o)
    next
      case False
      then have j: "on_slot (cplace (scpus s d)) = Some j" using dj by (simp add: o)
      then have "j \<noteq> i" using n by auto
      then have "stable (dispatch V c i s) ! j = stable s ! j" by (simp add: t)
      moreover have "scpus (dispatch V c i s) d = scpus s d" using u [of d] False by simp
      ultimately show ?thesis using j assms(1) unfolding run_ok_def by metis
    qed
  next
    fix d e j assume "on_slot (cplace (scpus (dispatch V c i s) d)) = Some j"
      "on_slot (cplace (scpus (dispatch V c i s) e)) = Some j"
    then show "d = e" using n assms(1) by (auto simp: o run_ok_def split: if_splits)
  next
    fix j :: nat assume "j < MAX_PROCS" "pstate (stable (dispatch V c i s) ! j) = PROC_RUNNING"
    then have "j = i \<or> (\<exists>d. on_slot (cplace (scpus s d)) = Some j)"
      using assms(1) by (cases "j = i") (auto simp: t run_ok_def)
    then show "\<exists>d. on_slot (cplace (scpus (dispatch V c i s) d)) = Some j"
      using assms(4) by (metis o option.distinct(1))
  next
    fix d assume "on_slot (cplace (scpus (dispatch V c i s) d)) = None"
    then show "cproc (scpus (dispatch V c i s) d) = 0"
      using assms(1) u [of d] by (auto simp: o run_ok_def split: if_splits)
  qed
qed

lemma lock_ok_step:
  assumes "lock_ok s" "\<And>d. d \<noteq> c \<Longrightarrow> scpus t d = scpus s d"
    "locked (slock t) \<noteq> 0 \<longleftrightarrow> lcpu (slock t) \<noteq> None"
    "lcpu (slock t) = (if holds (cplace (scpus t c)) then Some c
       else if holds (cplace (scpus s c)) then None else lcpu (slock s))"
    "ncli (ccpu (scpus t c)) = (if holds (cplace (scpus t c)) then 1 else 0)"
    "holds (cplace (scpus t c)) \<longrightarrow> \<not> iflag (ccpu (scpus t c))"
    "holds (cplace (scpus t c)) \<longrightarrow> lcpu (slock s) = None \<or> lcpu (slock s) = Some c"
  shows "lock_ok t"
proof -
  have s: "lcpu (slock s) = Some d \<longleftrightarrow> holds (cplace (scpus s d))"
    "ncli (ccpu (scpus s d)) = (if holds (cplace (scpus s d)) then 1 else 0)"
    "holds (cplace (scpus s d)) \<longrightarrow> \<not> iflag (ccpu (scpus s d))" for d
    using assms(1) by (simp_all add: lock_ok_def)
  have "lcpu (slock t) = Some d \<longleftrightarrow> holds (cplace (scpus t d))" for d
  proof (cases "d = c")
    case True
    then show ?thesis using assms(4) s(1) by auto
  next
    case False
    have "lcpu (slock s) = Some c \<longleftrightarrow> holds (cplace (scpus s c))" by (rule s(1))
    then show ?thesis using assms(4,7) assms(2) [OF False] s(1) [of d] False by (auto split: if_splits)
  qed
  moreover have "ncli (ccpu (scpus t d)) = (if holds (cplace (scpus t d)) then 1 else 0)"
    "holds (cplace (scpus t d)) \<longrightarrow> \<not> iflag (ccpu (scpus t d))" for d
    using assms(5,6) assms(2) [of d] s(2,3) [of d] by (cases "d = c"; simp)+
  ultimately show ?thesis using assms(3) by (simp add: lock_ok_def)
qed

lemma lock_ok_cong:
  assumes "lock_ok s" "slock t = slock s"
    "\<And>d. holds (cplace (scpus t d)) = holds (cplace (scpus s d)) \<and> ccpu (scpus t d) = ccpu (scpus s d)"
  shows "lock_ok t"
  using assms by (simp add: lock_ok_def)

lemma sched_release_ok:
  assumes "lock_ok s" "holds (cplace (scpus s c))"
  shows "sched_release c s = Some (dropped c s)"
  using assms by (intro sched_release_held) (auto simp: lock_ok_def)

text \<open>A section under the lock on one CPU that changes only slots that do not run.\<close>

lemma lock_section:
  assumes "sched_inv V s" "\<not> holds (cplace (scpus s c))" "sched_acquire c s = Some s1"
    "slock s2 = slock s1" "scpus s2 = scpus s1" "sched_release c s2 = Some t"
    "j < MAX_PROCS" "stable s2 = stable s \<or> stable s2 = (stable s)[j := q] \<and>
       pstate (stable s ! j) \<noteq> PROC_RUNNING \<and> pstate q \<noteq> PROC_RUNNING"
  shows "sched_inv V t"
proof -
  have ok: "lock_ok s" and run: "run_ok V s" using assms(1) by (simp_all add: sched_inv_def)
  have n: "ncli (ccpu (scpus s c)) = 0" using ok assms(2) by (simp add: lock_ok_def)
  note a = sched_acquire_some [OF assms(3) n]
  have "sched_release c s2 = Some (dropped c s2)"
    by (rule sched_release_held) (use n assms(4,5) in \<open>simp_all add: a(2)\<close>)
  then have t: "t = dropped c s2" using assms(6) by simp
  let ?u = "(scpus s c)\<lparr>ccpu := given_back (pushcli (ccpu (scpus s c)))\<rparr>"
  have cs: "scpus t = (scpus s)(c := ?u)" using assms(5) by (simp add: t a(2))
  have "lcpu (slock s) = None" using ok a(1) by (auto simp: lock_ok_def)
  then have "lock_ok t"
    using assms(2,4) by (intro lock_ok_step [OF ok, where c = c]) (simp_all add: t a(2) assms(5))
  moreover have "run_ok V (s\<lparr>stable := stable s2\<rparr>)"
    using assms(7,8) run run_ok_slot [OF run assms(7), of q "s\<lparr>stable := stable s2\<rparr>"]
      run_ok_cong [OF run, of "s\<lparr>stable := stable s2\<rparr>"]
    by auto
  then have "run_ok V t"
    by (rule run_ok_cong) (simp_all add: t assms(5) a(2))
  ultimately show ?thesis by (simp add: sched_inv_def)
qed

lemma unused_slot_bound:
  "unused_slot qs i = Some k \<Longrightarrow> i \<le> k \<and> k < i + length qs \<and> pstate (qs ! (k - i)) = PROC_UNUSED"
proof (induction qs arbitrary: i)
  case (Cons q qs)
  show ?case
  proof (cases "pstate q = PROC_UNUSED")
    case False
    then have "unused_slot qs (i + 1) = Some k" using Cons.prems by simp
    from Cons.IH [OF this] show ?thesis by (auto simp: nth_Cons')
  qed (use Cons.prems in simp)
qed simp

lemma enter_inv:
  assumes "sched_inv V s" "cplace (scpus s c) = InLoop" "sched_enter c s = Some t"
  shows "sched_inv V t"
proof -
  have ok: "lock_ok s" and run: "run_ok V s" using assms(1) by (simp_all add: sched_inv_def)
  let ?s0 = "upd_cpu c (\<lambda>u. u\<lparr>ccpu := (ccpu u)\<lparr>iflag := True\<rparr>\<rparr>) s"
  obtain s1 where s1: "sched_acquire c ?s0 = Some s1" "t = at_place c (Scanning 0) s1"
    using assms(3) by (auto simp: sched_enter_def Option.bind_eq_Some_conv)
  have n: "ncli (ccpu (scpus s c)) = 0" using ok assms(2) by (simp add: lock_ok_def)
  note a = sched_acquire_some [OF s1(1), simplified, OF n]
  have "lcpu (slock s) = None" using ok a(1) by (auto simp: lock_ok_def)
  then have "lock_ok t"
    by (intro lock_ok_step [OF ok, where c = c]) (simp_all add: s1(2) a(2) at_place_def n)
  moreover have "run_ok V t"
    
    by (rule run_ok_cong [OF run]) (simp_all add: s1(2) a(2) at_place_def assms(2))
  ultimately show ?thesis by (simp add: sched_inv_def)
qed

lemma scan_inv:
  assumes "sched_inv V s" "cplace (scpus s c) = Scanning i" "sched_scan V c i s = Some t"
  shows "sched_inv V t"
proof -
  have ok: "lock_ok s" and run: "run_ok V s" using assms(1) by (simp_all add: sched_inv_def)
  have l: "lcpu (slock s) = Some c" "locked (slock s) \<noteq> 0" "ncli (ccpu (scpus s c)) = 1"
    "\<not> iflag (ccpu (scpus s c))"
    using ok place_simps(8) [of i] unfolding lock_ok_def assms(2) [symmetric] by auto
  consider (skip) "i < MAX_PROCS" "t = at_place c (Scanning (i + 1)) s"
    | (pick) "i < MAX_PROCS" "pstate (stable s ! i) = PROC_RUNNABLE" "t = dispatch V c i s"
    | (last) "t = at_place c InLoop (dropped c s)"
    using assms(2,3) sched_release_ok [OF ok, of c] by (auto simp: sched_scan_def split: if_splits)
  then show ?thesis
  proof cases
    case skip
    have "lock_ok t" using l assms(2)
      by (intro lock_ok_step [OF ok, where c = c]) (simp_all add: skip at_place_def)
    moreover have "run_ok V t"
      by (rule run_ok_cong [OF run]) (simp_all add: skip at_place_def assms(2))
    ultimately show ?thesis by (simp add: sched_inv_def)
  next
    case pick
    have "lock_ok t" using l assms(2)
      by (intro lock_ok_step [OF ok, where c = c]) (simp_all add: pick dispatch_def Let_def)
    moreover have "run_ok V t"
      unfolding pick(3) by (rule run_ok_dispatch) (use pick(2) in \<open>simp_all add: run pick(1) assms(2)\<close>)
    ultimately show ?thesis by (simp add: sched_inv_def)
  next
    case last
    have "lock_ok t" using l assms(2)
      by (intro lock_ok_step [OF ok, where c = c]) (simp_all add: last at_place_def)
    moreover have "run_ok V t"
      by (rule run_ok_cong [OF run]) (simp_all add: last at_place_def assms(2))
    ultimately show ?thesis by (simp add: sched_inv_def)
  qed
qed

lemma resume_inv:
  assumes "sched_inv V s" "cplace (scpus s c) = Resumed i" "sched_resume c i s = Some t"
  shows "sched_inv V t"
proof -
  have ok: "lock_ok s" and run: "run_ok V s" using assms(1) by (simp_all add: sched_inv_def)
  have t: "t = at_place c (Running i) (dropped c s)"
    using assms(2,3) sched_release_ok [OF ok, of c] by (simp add: sched_resume_def)
  have "lock_ok t" using assms(2)
    by (intro lock_ok_step [OF ok, where c = c]) (simp_all add: t at_place_def)
  moreover have "run_ok V t"
    by (rule run_ok_cong [OF run]) (simp_all add: t at_place_def assms(2))
  ultimately show ?thesis by (simp add: sched_inv_def)
qed

text \<open>A process leaves its CPU with the lock taken.\<close>

lemma leave_inv:
  assumes "sched_inv V s" "cplace (scpus s c) = Running i" "sched_acquire c s = Some s1"
    "t = switch_back c i s2" "slock s2 = slock s1" "scpus s2 = scpus s1"
    "stable s2 = (stable s)[i := q]" "pstate q \<noteq> PROC_RUNNING"
  shows "sched_inv V t"
proof -
  have ok: "lock_ok s" and run: "run_ok V s" using assms(1) by (simp_all add: sched_inv_def)
  have n: "ncli (ccpu (scpus s c)) = 0" using ok assms(2) by (simp add: lock_ok_def)
  note a = sched_acquire_some [OF assms(3) n]
  have "lcpu (slock s) = None" using ok a(1) by (auto simp: lock_ok_def)
  then have "lock_ok t"
    by (intro lock_ok_step [OF ok, where c = c]) (simp_all add: assms(4-6) a(2) switch_back_def n)
  moreover have "run_ok V t"
    by (rule run_ok_leave [OF run, where c = c and i = i, OF _ assms(8)])
      (simp_all add: assms(2,4-7) a(2) switch_back_def)
  ultimately show ?thesis by (simp add: sched_inv_def)
qed

lemma kernel_no_lock: "in_kernel p \<Longrightarrow> \<not> holds p"
  by (auto simp: in_kernel_def)

lemma exec_inv:
  assumes "sched_inv V s" "cplace (scpus s c) = Running i"
  shows "sched_inv V (upd_cpu c (\<lambda>u. u\<lparr>ccr3 := V p4\<rparr>)
    (s\<lparr>stable := (stable s)[i := (stable s ! i)\<lparr>ppml4 := p4\<rparr>]\<rparr>))"
proof -
  have ok: "lock_ok s" and run: "run_ok V s" using assms(1) by (simp_all add: sched_inv_def)
  have i: "i < length (stable s)" "loaded V (scpus s c) i (stable s ! i)"
    using run assms(2) place_simps(5) [of i] unfolding run_ok_def by metis+
  have u: "d = c" if "on_slot (cplace (scpus s d)) = Some i" for d
    using run assms(2) that unfolding run_ok_def by (metis place_simps(5))
  define t where "t = upd_cpu c (\<lambda>u. u\<lparr>ccr3 := V p4\<rparr>)
    (s\<lparr>stable := (stable s)[i := (stable s ! i)\<lparr>ppml4 := p4\<rparr>]\<rparr>)"
  have o: "on_slot (cplace (scpus t d)) = on_slot (cplace (scpus s d))"
    and c: "cproc (scpus t d) = cproc (scpus s d)" for d by (simp_all add: t_def)
  have l: "loaded V (scpus t d) j (stable t ! j)"
    if "on_slot (cplace (scpus s d)) = Some j" for d j
  proof (cases "j = i")
    case True
    then have "d = c" using u that by simp
    then show ?thesis using i True by (simp add: t_def loaded_def)
  next
    case False
    then have "d \<noteq> c" using that assms(2) by auto
    then show ?thesis using False that run by (simp add: t_def run_ok_def)
  qed
  have p: "pstate (stable t ! j) = pstate (stable s ! j)" for j
    using i(1) by (cases "j = i") (simp_all add: t_def)
  have "length (stable t) = length (stable s)" by (simp add: t_def)
  with run l have "run_ok V t" by (simp add: run_ok_def o c p)
  moreover have "lock_ok t" using ok by (simp add: lock_ok_def t_def)
  ultimately show ?thesis by (simp add: sched_inv_def t_def)
qed

lemma sched_step_inv: "sched_step V s t \<Longrightarrow> sched_inv V s \<Longrightarrow> sched_inv V t"
proof (induction rule: sched_step.induct)
  case (start s c)
  have "run_ok V (at_place c InLoop s)"
    by (rule run_ok_cong [of V s]) (use start in \<open>simp_all add: sched_inv_def at_place_def\<close>)
  moreover have "lock_ok (at_place c InLoop s)"
    by (rule lock_ok_cong [of s]) (use start in \<open>simp_all add: sched_inv_def at_place_def\<close>)
  ultimately show ?case by (simp add: sched_inv_def)
next
  case (enter s c t)
  show ?case by (rule enter_inv [OF enter(3,1,2)])
next
  case (scan s c i t)
  show ?case by (rule scan_inv [OF scan(3,1,2)])
next
  case (resume s c i t)
  show ?case by (rule resume_inv [OF resume(3,1,2)])
next
  case (yield s c i t)
  show ?case
  proof (cases "cproc (scpus s c) = 0")
    case True
    then show ?thesis using yield by (simp add: sched_yield_def)
  next
    case False
    then obtain s1 where s1: "sched_acquire c s = Some s1"
      "t = switch_back c i (set_state i PROC_RUNNABLE s1)"
      using yield(2) by (auto simp: sched_yield_def Option.bind_eq_Some_conv)
    have "stable s1 = stable s"
      using sched_acquire_some(2) [OF s1(1)] yield(1,3) by (simp add: sched_inv_def lock_ok_def)
    then show ?thesis
      by (intro leave_inv [OF yield(3,1) s1, where q = "(stable s ! i)\<lparr>pstate := PROC_RUNNABLE\<rparr>"]) simp_all
  qed
next
  case (exit s c i status t)
  then obtain s1 where s1: "sched_acquire c s = Some s1"
    "t = switch_back c i (s1\<lparr>stable := (stable s1)[i := (stable s1 ! i)\<lparr>exit_code := status, pstate := PROC_ZOMBIE\<rparr>]\<rparr>)"
    by (auto simp: sched_exit_def Option.bind_eq_Some_conv Let_def)
  have "stable s1 = stable s"
    using sched_acquire_some(2) [OF s1(1)] exit(1,3) by (simp add: sched_inv_def lock_ok_def)
  then show ?case
    by (intro leave_inv [OF exit(3,1) s1,
          where q = "(stable s ! i)\<lparr>exit_code := status, pstate := PROC_ZOMBIE\<rparr>"]) simp_all
next
  case (alloc s c t)
  obtain s1 where s1: "sched_acquire c s = Some s1"
    using alloc(2) by (auto simp: sched_alloc_def Option.bind_eq_Some_conv)
  have nl: "\<not> holds (cplace (scpus s c))" by (rule kernel_no_lock [OF alloc(1)])
  then have st: "stable s1 = stable s"
    using sched_acquire_some(2) [OF s1] alloc(3) by (simp add: sched_inv_def lock_ok_def)
  have len: "length (stable s) = MAX_PROCS" using alloc(3) by (simp add: sched_inv_def run_ok_def)
  show ?case
  proof (cases "unused_slot (stable s1) 0")
    case None
    then have "sched_release c s1 = Some t" using alloc(2) s1 by (simp add: sched_alloc_def)
    then show ?thesis by (intro lock_section [OF alloc(3) nl s1, of s1 t 0]) (simp_all add: st)
  next
    case (Some i)
    have i: "i < MAX_PROCS" "pstate (stable s ! i) = PROC_UNUSED"
      using unused_slot_bound [OF Some] by (simp_all add: st len)
    let ?q = "(stable s1 ! i)\<lparr>pid := snext_pid s1, pstate := PROC_EMBRYO\<rparr>"
    have r: "sched_release c (s1\<lparr>snext_pid := snext_pid s1 + 1, stable := (stable s1)[i := ?q]\<rparr>) = Some t"
      using alloc(2) s1 Some by (simp add: sched_alloc_def)
    show ?thesis
      by (rule lock_section [OF alloc(3) nl s1 _ _ r i(1), where q = ?q]) (simp_all add: i(2) st)
  qed
next
  case (ready s c j t)
  obtain s1 where s1: "sched_acquire c s = Some s1" "sched_release c (set_state j PROC_RUNNABLE s1) = Some t"
    using ready(4) by (auto simp: sched_ready_def Option.bind_eq_Some_conv)
  have nl: "\<not> holds (cplace (scpus s c))" by (rule kernel_no_lock [OF ready(1)])
  then have st: "stable s1 = stable s"
    using sched_acquire_some(2) [OF s1(1)] ready(5) by (simp add: sched_inv_def lock_ok_def)
  show ?case
    by (intro lock_section [OF ready(5) nl s1(1) _ _ s1(2) ready(2),
          where q = "(stable s ! j)\<lparr>pstate := PROC_RUNNABLE\<rparr>"])
      (simp_all add: ready(3) st)
next
  case (reap s c j t)
  let ?q = "(stable s ! j)\<lparr>ppml4 := 0, kstack := 0, pstate := PROC_UNUSED\<rparr>"
  have nl: "\<not> holds (cplace (scpus s c))" by (rule kernel_no_lock [OF reap(1)])
  obtain s1 where s1: "sched_acquire c s = Some s1"
    "sched_release c (s1\<lparr>stable := (stable s1)[j := (stable s1 ! j)\<lparr>ppml4 := 0, kstack := 0, pstate := PROC_UNUSED\<rparr>]\<rparr>) = Some t"
    using reap(4) by (auto simp: sched_reap_def Option.bind_eq_Some_conv)
  have st: "stable s1 = stable s"
    using sched_acquire_some(2) [OF s1(1)] nl reap(5) by (simp add: sched_inv_def lock_ok_def)
  show ?case
    by (intro lock_section [OF reap(5) nl s1(1) _ _ s1(2) reap(2), where q = ?q])
      (simp_all add: reap(3) st)
next
  case (embryo j s q)
  then show ?case
    using run_ok_slot [of V s j q "s\<lparr>stable := (stable s)[j := q]\<rparr>"]
    by (auto simp: sched_inv_def lock_ok_def)
next
  case (exec s c i new_pml4)
  show ?case by (rule exec_inv [OF exec(2,1)])
next
  case (irq s c b)
  have "run_ok V (upd_cpu c (\<lambda>u. u\<lparr>ccpu := (ccpu u)\<lparr>iflag := b\<rparr>\<rparr>) s)"
    by (rule run_ok_cong [of V s]) (use irq(3) in \<open>simp_all add: sched_inv_def\<close>)
  then show ?case using irq kernel_no_lock [OF irq(1)] by (auto simp: sched_inv_def lock_ok_def)
qed

lemma sched_reach_inv: "sched_reach V tbl cs s \<Longrightarrow> sched_inv V s"
proof (induction rule: sched_reach.induct)
  case (init s)
  then have "pstate (stable s ! i) = PROC_UNUSED" if "i < MAX_PROCS" for i
    using that by (auto simp: sched_init_def)
  then show ?case
    using init by (fastforce simp: sched_init_def sched_inv_def lock_ok_def run_ok_def initlock_def)
qed (rule sched_step_inv)

section \<open>A pass over the table\<close>

text \<open>The rounds of the table loop on one CPU, at most \<open>n\<close> of them, until it leaves the loop.\<close>

fun scan_until :: "(addr \<Rightarrow> u64) \<Rightarrow> nat \<Rightarrow> nat \<Rightarrow> sched \<Rightarrow> sched option" where
  "scan_until V c 0 s = None"
| "scan_until V c (Suc n) s =
     (case cplace (scpus s c) of
        Scanning i \<Rightarrow> do { t \<leftarrow> sched_scan V c i s; scan_until V c n t }
      | _ \<Rightarrow> Some s)"

definition first_runnable :: "process list \<Rightarrow> nat \<Rightarrow> nat option" where
  "first_runnable tbl i = List.find (\<lambda>j. pstate (tbl ! j) = PROC_RUNNABLE) [i..<MAX_PROCS]"

text \<open>What a pass leaves: the first runnable slot dispatched, or the lock given back.\<close>

definition pass_result :: "(addr \<Rightarrow> u64) \<Rightarrow> nat \<Rightarrow> nat \<Rightarrow> sched \<Rightarrow> sched" where
  "pass_result V c i s =
     (case first_runnable (stable s) i of
        Some j \<Rightarrow> dispatch V c j s
      | None \<Rightarrow> at_place c InLoop (dropped c s))"

lemma first_runnable_step:
  "i < MAX_PROCS \<Longrightarrow> first_runnable tbl i =
     (if pstate (tbl ! i) = PROC_RUNNABLE then Some i else first_runnable tbl (i + 1))"
  "\<not> i < MAX_PROCS \<Longrightarrow> first_runnable tbl i = None"
  by (simp_all add: first_runnable_def upt_rec)

lemma at_place_again:
  "dispatch V c j (at_place c p s) = dispatch V c j s"
  "at_place c q (dropped c (at_place c p s)) = at_place c q (dropped c s)"
  by (simp_all add: at_place_def dispatch_def dropped_def upd_cpu_def set_state_def Let_def fun_upd_def
      cong: if_cong)

lemma scan_pass:
  assumes "sched_inv V s" "cplace (scpus s c) = Scanning i" "MAX_PROCS + 2 \<le> n + i" "i \<le> MAX_PROCS"
  shows "scan_until V c n s = Some (pass_result V c i s)"
  using assms
proof (induction n arbitrary: i s)
  case (Suc n)
  have rel: "sched_release c s = Some (dropped c s)"
    using Suc.prems(1,2) by (intro sched_release_ok) (simp_all add: sched_inv_def)
  obtain m where m: "n = Suc m" using Suc.prems(3,4) by (cases n) simp_all
  consider (skip) "i < MAX_PROCS" "pstate (stable s ! i) \<noteq> PROC_RUNNABLE"
    | (pick) "i < MAX_PROCS" "pstate (stable s ! i) = PROC_RUNNABLE" | (last) "\<not> i < MAX_PROCS"
    by blast
  then show ?case
  proof cases
    case skip
    let ?t = "at_place c (Scanning (i + 1)) s"
    have sc: "sched_scan V c i s = Some ?t" using skip by (simp add: sched_scan_def)
    have "scan_until V c n ?t = Some (pass_result V c (i + 1) ?t)"
      by (rule Suc.IH [OF scan_inv [OF Suc.prems(1,2) sc]])
        (use Suc.prems(3) skip(1) in \<open>simp_all add: at_place_def\<close>)
    moreover have "pass_result V c (i + 1) ?t = pass_result V c i s"
      using skip by (simp add: pass_result_def first_runnable_step(1) [of i] at_place_again
          split: option.split) (simp add: at_place_def)
    ultimately show ?thesis using Suc.prems(2) sc by simp
  next
    case pick
    then have "sched_scan V c i s = Some (dispatch V c i s)" by (simp add: sched_scan_def)
    moreover have "cplace (scpus (dispatch V c i s) c) = Resumed i" by (simp add: dispatch_def Let_def)
    ultimately show ?thesis
      using Suc.prems(2) pick m by (simp add: pass_result_def first_runnable_step(1) [of i])
  next
    case last
    then have "sched_scan V c i s = Some (at_place c InLoop (dropped c s))"
      using rel by (simp add: sched_scan_def)
    then show ?thesis
      using Suc.prems(2) last m by (simp add: pass_result_def first_runnable_step(2) at_place_def)
  qed
qed simp

lemma scan_until_reach:
  "sched_reach V tbl cs s \<Longrightarrow> scan_until V c n s = Some t \<Longrightarrow> sched_reach V tbl cs t"
proof (induction n arbitrary: s)
  case (Suc n)
  show ?case
  proof (cases "cplace (scpus s c)")
    case (Scanning i)
    then obtain u where u: "sched_scan V c i s = Some u" "scan_until V c n u = Some t"
      using Suc.prems(2) by (auto simp: Option.bind_eq_Some_conv)
    have "sched_reach V tbl cs u"
      by (rule sched_reach.step [OF Suc.prems(1) sched_step.scan [OF Scanning u(1)]])
    then show ?thesis by (rule Suc.IH [OF _ u(2)])
  qed (use Suc.prems in auto)
qed simp

section \<open>Runs\<close>

text \<open>No CPU holds the lock, none is inside a section under it.\<close>

definition lock_free :: "sched \<Rightarrow> bool" where
  "lock_free s \<longleftrightarrow> (\<forall>c. \<not> holds (cplace (scpus s c)))"

lemma lock_free_unlocked: "lock_ok s \<Longrightarrow> lock_free s \<Longrightarrow> locked (slock s) = 0"
  by (auto simp: lock_ok_def lock_free_def)

lemma lock_free_acquire:
  assumes "lock_ok s" "lock_free s"
  shows "ncli (ccpu (scpus s c)) = 0" "sched_acquire c s = Some (taken c s)"
proof -
  show n: "ncli (ccpu (scpus s c)) = 0" using assms by (auto simp: lock_ok_def lock_free_def)
  show "sched_acquire c s = Some (taken c s)"
    by (rule sched_acquire_free [OF lock_free_unlocked [OF assms] n])
qed

text \<open>A CPU in the kernel makes a process in the first unused slot.\<close>

lemma spawn:
  assumes "sched_reach V tbl cs s" "in_kernel (cplace (scpus s c))" "lock_free s"
    "unused_slot (stable s) 0 = Some k"
  shows "\<exists>t. sched_reach V tbl cs t \<and> stable t = (stable s)[k := q\<lparr>pstate := PROC_RUNNABLE\<rparr>] \<and>
    (\<forall>d. cplace (scpus t d) = cplace (scpus s d))"
proof -
  have ok: "lock_ok s" and len: "length (stable s) = MAX_PROCS"
    using sched_reach_inv [OF assms(1)] by (simp_all add: sched_inv_def run_ok_def)
  have k: "k < MAX_PROCS" using unused_slot_bound [OF assms(4)] len by simp
  note a = lock_free_acquire [OF ok assms(3), of c]
  let ?e = "(stable s ! k)\<lparr>pid := snext_pid s, pstate := PROC_EMBRYO\<rparr>"
  let ?s1 = "(taken c s)\<lparr>snext_pid := snext_pid s + 1, stable := (stable s)[k := ?e]\<rparr>"
  let ?s2 = "dropped c ?s1"
  have "sched_release c ?s1 = Some ?s2" by (rule sched_release_held) (simp_all add: a)
  then have "sched_alloc c s = Some ?s2" using a assms(4) by (simp add: sched_alloc_def)
  then have r2: "sched_reach V tbl cs ?s2"
    by (rule sched_reach.step [OF assms(1) sched_step.alloc [OF assms(2)]])
  let ?q = "q\<lparr>pstate := PROC_EMBRYO\<rparr>"
  let ?s3 = "?s2\<lparr>stable := (stable ?s2)[k := ?q]\<rparr>"
  have r3: "sched_reach V tbl cs ?s3"
    by (rule sched_reach.step [OF r2 sched_step.embryo [OF k]]) (use k len in simp_all)
  have pl: "cplace (scpus ?s3 d) = cplace (scpus s d)" for d by simp
  have ok3: "lock_ok ?s3" using sched_reach_inv [OF r3] by (simp add: sched_inv_def)
  have f3: "lock_free ?s3" using assms(3) pl unfolding lock_free_def by simp
  note b = lock_free_acquire [OF ok3 f3, of c]
  let ?s4 = "set_state k PROC_RUNNABLE (taken c ?s3)"
  have "sched_release c ?s4 = Some (dropped c ?s4)"
    by (rule sched_release_held) (use b(1) in \<open>simp_all\<close>)
  then have "sched_ready c k ?s3 = Some (dropped c ?s4)" using b(2) by (simp add: sched_ready_def)
  moreover have "pstate (stable ?s3 ! k) = PROC_EMBRYO" using k len by simp
  moreover have "in_kernel (cplace (scpus ?s3 c))" using assms(2) pl by simp
  ultimately have "sched_reach V tbl cs (dropped c ?s4)"
    by (intro sched_reach.step [OF r3 sched_step.ready [OF _ k]])
  moreover have "stable (dropped c ?s4) = (stable s)[k := q\<lparr>pstate := PROC_RUNNABLE\<rparr>]"
    using k len by simp
  ultimately show ?thesis by (intro exI [of _ "dropped c ?s4"]) simp
qed

text \<open>A booting CPU enters the scheduler and runs the first runnable process.\<close>

lemma launch:
  assumes "sched_reach V tbl cs s" "cplace (scpus s c) = Booting" "lock_free s"
    "first_runnable (stable s) 0 = Some j"
  shows "\<exists>t. sched_reach V tbl cs t \<and> stable t = (stable s)[j := (stable s ! j)\<lparr>pstate := PROC_RUNNING\<rparr>] \<and>
    cplace (scpus t c) = Running j \<and> (\<forall>d. d \<noteq> c \<longrightarrow> scpus t d = scpus s d)"
proof -
  have ok: "lock_ok s" using sched_reach_inv [OF assms(1)] by (simp add: sched_inv_def)
  note a = lock_free_acquire [OF ok assms(3), of c]
  let ?s1 = "at_place c InLoop s"
  have r1: "sched_reach V tbl cs ?s1"
    by (rule sched_reach.step [OF assms(1) sched_step.start [where c = c]]) (rule assms(2))
  let ?s1' = "upd_cpu c (\<lambda>u. u\<lparr>ccpu := (ccpu u)\<lparr>iflag := True\<rparr>\<rparr>) ?s1"
  let ?s2 = "at_place c (Scanning 0) (taken c ?s1')"
  have "sched_acquire c ?s1' = Some (taken c ?s1')"
    by (rule sched_acquire_free) (simp_all add: at_place_def a lock_free_unlocked [OF ok assms(3)])
  then have "sched_enter c ?s1 = Some ?s2" by (simp add: sched_enter_def)
  then have r2: "sched_reach V tbl cs ?s2"
    by (intro sched_reach.step [OF r1 sched_step.enter [where c = c]]) (simp_all add: at_place_def)
  have pl: "cplace (scpus ?s2 c) = Scanning 0" and st: "stable ?s2 = stable s"
    and oth: "d \<noteq> c \<Longrightarrow> scpus ?s2 d = scpus s d" for d
    by (simp_all add: at_place_def)
  have "scan_until V c (MAX_PROCS + 2) ?s2 = Some (pass_result V c 0 ?s2)"
    by (rule scan_pass [OF sched_reach_inv [OF r2] pl]) simp_all
  then have p: "scan_until V c (MAX_PROCS + 2) ?s2 = Some (dispatch V c j ?s2)"
    using assms(4) unfolding pass_result_def st by simp
  let ?s3 = "dispatch V c j ?s2"
  have r3: "sched_reach V tbl cs ?s3" by (rule scan_until_reach [OF r2 p])
  have pl3: "cplace (scpus ?s3 c) = Resumed j" by (simp add: dispatch_def Let_def)
  have "sched_release c ?s3 = Some (dropped c ?s3)"
    by (rule sched_release_ok) (use sched_reach_inv [OF r3] pl3 in \<open>simp_all add: sched_inv_def\<close>)
  then have "sched_resume c j ?s3 = Some (at_place c (Running j) (dropped c ?s3))"
    by (simp add: sched_resume_def)
  then have "sched_reach V tbl cs (at_place c (Running j) (dropped c ?s3))"
    by (rule sched_reach.step [OF r3 sched_step.resume [where c = c, OF pl3]])
  then show ?thesis
    by (intro exI [of _ "at_place c (Running j) (dropped c ?s3)"])
      (simp add: at_place_def dispatch_def Let_def)
qed

text \<open>With no process to run, a CPU whose process exits is back at the head of the loop at the end of its pass.\<close>

lemma exit_idle:
  assumes "sched_reach V tbl cs s" "cplace (scpus s c) = Running i" "lock_free s"
    "first_runnable (stable s) 0 = None"
  shows "\<exists>t. sched_reach V tbl cs t \<and>
    stable t = (stable s)[i := (stable s ! i)\<lparr>exit_code := status, pstate := PROC_ZOMBIE\<rparr>] \<and>
    cplace (scpus t c) = InLoop \<and> ccr3 (scpus t c) = ccr3 (scpus s c) \<and>
    (\<forall>d. d \<noteq> c \<longrightarrow> scpus t d = scpus s d)"
proof -
  have ok: "lock_ok s" and run: "run_ok V s"
    using sched_reach_inv [OF assms(1)] by (simp_all add: sched_inv_def)
  have "on_slot (cplace (scpus s c)) = Some i" using assms(2) by simp
  with run have i: "i < MAX_PROCS" "length (stable s) = MAX_PROCS" unfolding run_ok_def by blast+
  note a = lock_free_acquire [OF ok assms(3), of c]
  let ?tb = "(stable s)[i := (stable s ! i)\<lparr>exit_code := status, pstate := PROC_ZOMBIE\<rparr>]"
  let ?s1 = "switch_back c i ((taken c s)\<lparr>stable := ?tb\<rparr>)"
  have "sched_exit c i status s = Some ?s1" using a(2) by (simp add: sched_exit_def)
  then have r1: "sched_reach V tbl cs ?s1"
    by (rule sched_reach.step [OF assms(1) sched_step.exit [where c = c, OF assms(2)]])
  have pl: "cplace (scpus ?s1 c) = Scanning (i + 1)" and st: "stable ?s1 = ?tb"
    by (simp_all add: switch_back_def)
  have none: "pstate (stable s ! j) \<noteq> PROC_RUNNABLE" if "j < MAX_PROCS" for j
    using assms(4) that by (auto simp: first_runnable_def find_None_iff)
  then have "first_runnable ?tb (i + 1) = None"
    using i by (auto simp: first_runnable_def find_None_iff nth_list_update)
  moreover have "scan_until V c (MAX_PROCS + 2) ?s1 = Some (pass_result V c (i + 1) ?s1)"
    by (rule scan_pass [OF sched_reach_inv [OF r1] pl]) (use i in simp_all)
  ultimately have p: "scan_until V c (MAX_PROCS + 2) ?s1 = Some (at_place c InLoop (dropped c ?s1))"
    unfolding pass_result_def st by simp
  have "sched_reach V tbl cs (at_place c InLoop (dropped c ?s1))" by (rule scan_until_reach [OF r1 p])
  then show ?thesis
    by (intro exI [of _ "at_place c InLoop (dropped c ?s1)"])
      (simp add: at_place_def switch_back_def)
qed

section \<open>Properties\<close>


text \<open>Two CPUs, each with a process of its own.\<close>

definition off_cpu :: cpu_state where
  "off_cpu = \<lparr>ccpu = \<lparr>ncli = 0, intena = 0, iflag = False\<rparr>, cproc = 0, ccr3 = 0, crsp0 = 0,
     ckernel_rsp = 0, cplace = Booting\<rparr>"

definition boot_sched :: sched where
  "boot_sched = \<lparr>slock = initlock ''proc'', stable = replicate MAX_PROCS idle_proc, snext_pid = 1,
     scpus = (\<lambda>_. off_cpu)\<rparr>"

lemma boot_reach: "sched_reach V (replicate MAX_PROCS idle_proc) (\<lambda>_. off_cpu) boot_sched"
  by (rule sched_reach.init) (simp add: sched_init_def boot_sched_def off_cpu_def idle_proc_def)

lemma table_split: "replicate MAX_PROCS p = p # p # replicate 62 p"
  by (simp add: numeral_eq_Suc)

lemma two_running:
  fixes V :: "addr \<Rightarrow> u64"
  shows "\<exists>s. sched_reach V (replicate MAX_PROCS idle_proc) (\<lambda>_. off_cpu) s \<and>
    cplace (scpus s 0) = Running 0 \<and> cplace (scpus s 1) = Running 1 \<and> lock_free s \<and>
    first_runnable (stable s) 0 = None \<and> ppml4 (stable s ! 1) = 0x2000"
proof -
  let ?R = "sched_reach V (replicate MAX_PROCS idle_proc) (\<lambda>_. off_cpu)"
  let ?p = "idle_proc\<lparr>ppml4 := 0x1000\<rparr>" and ?q = "idle_proc\<lparr>ppml4 := 0x2000\<rparr>"
  let ?r = "\<lambda>x. x\<lparr>pstate := PROC_RUNNABLE\<rparr>" and ?x = "\<lambda>x. x\<lparr>pstate := PROC_RUNNING\<rparr>"
  have u: "pstate idle_proc = PROC_UNUSED" by (simp add: idle_proc_def)
  have st0: "stable boot_sched = idle_proc # idle_proc # replicate 62 idle_proc"
    and pl0: "cplace (scpus boot_sched d) = Booting" for d
    by (simp_all add: boot_sched_def off_cpu_def table_split)
  have fr: "lock_free s" if "\<And>d. cplace (scpus s d) = Booting \<or> (\<exists>i. cplace (scpus s d) = Running i)" for s
    unfolding lock_free_def using that by (metis place_simps(6,10))
  have f0: "lock_free boot_sched" by (rule fr) (simp add: pl0)
  obtain s1 where s1: "?R s1" "stable s1 = ?r ?p # idle_proc # replicate 62 idle_proc"
    "\<forall>d. cplace (scpus s1 d) = Booting"
    using spawn [OF boot_reach _ f0, of 0 0 V ?p] by (auto simp: st0 u pl0 in_kernel_def)
  have f1: "lock_free s1" by (rule fr) (simp add: s1(3))
  obtain s2 where s2: "?R s2" "stable s2 = ?r ?p # ?r ?q # replicate 62 idle_proc"
    "\<forall>d. cplace (scpus s2 d) = Booting"
    using spawn [OF s1(1) _ f1, of 0 1 ?q] s1(3) by (auto simp: s1(2) u in_kernel_def)
  have f2: "lock_free s2" by (rule fr) (simp add: s2(3))
  have "first_runnable (stable s2) 0 = Some 0" by (simp add: first_runnable_step(1) s2(2))
  then obtain s3 where s3: "?R s3" "stable s3 = ?x (?r ?p) # ?r ?q # replicate 62 idle_proc"
    "cplace (scpus s3 0) = Running 0" "\<forall>d. d \<noteq> 0 \<longrightarrow> scpus s3 d = scpus s2 d"
    using launch [OF s2(1) _ f2, of 0 0] s2(3) by (auto simp: s2(2))
  have "cplace (scpus s3 d) = Booting \<or> (\<exists>i. cplace (scpus s3 d) = Running i)" for d
    using s3(3,4) s2(3) by (cases "d = 0") simp_all
  then have f3: "lock_free s3" by (rule fr)
  have "first_runnable (stable s3) 0 = Some 1" by (simp add: first_runnable_step(1) s3(2))
  moreover have "cplace (scpus s3 1) = Booting" using s3(4) s2(3) by simp
  ultimately obtain s4 where s4: "?R s4" "stable s4 = ?x (?r ?p) # ?x (?r ?q) # replicate 62 idle_proc"
    "cplace (scpus s4 1) = Running 1" "\<forall>d. d \<noteq> 1 \<longrightarrow> scpus s4 d = scpus s3 d"
    using launch [OF s3(1) _ f3, of 1 1] by (auto simp: s3(2))
  have "cplace (scpus s4 d) = Booting \<or> (\<exists>i. cplace (scpus s4 d) = Running i)" for d
    using s3(3,4) s4(3,4) s2(3) by (cases "d = 0"; cases "d = 1") simp_all
  then have f4: "lock_free s4" by (rule fr)
  have "pstate (stable s4 ! j) \<noteq> PROC_RUNNABLE" if "j < 64" for j
    using that unfolding s4(2) by (auto simp: nth_Cons' u)
  then have "first_runnable (stable s4) 0 = None" by (simp add: first_runnable_def find_None_iff)
  then show ?thesis using s4 s3(3) f4 by (intro exI [of _ s4]) simp
qed


text \<open>
  C18: a pass over the table makes progress. Under the lock, from any slot on, the loop leaves
  the table after at most 66 rounds without halting: it dispatches the first runnable process
  at or behind that slot, changing nothing else in the table, or, when there is none, releases the
  lock and goes back to the head of the scheduler's loop with the table as it was.
\<close>

theorem sched_pass_dispatches_first:
  assumes "sched_reach V tbl cs s" and "cplace (scpus s c) = Scanning i" and "i \<le> MAX_PROCS"
  shows "\<exists>t. scan_until V c (MAX_PROCS + 2) s = Some t \<and> sched_reach V tbl cs t \<and>
    (case first_runnable (stable s) i of
       Some j \<Rightarrow> cplace (scpus t c) = Resumed j \<and>
         stable t = (stable s)[j := (stable s ! j)\<lparr>pstate := PROC_RUNNING\<rparr>]
     | None \<Rightarrow> cplace (scpus t c) = InLoop \<and> stable t = stable s \<and> locked (slock t) = 0)"
proof -
  have p: "scan_until V c (MAX_PROCS + 2) s = Some (pass_result V c i s)"
    by (rule scan_pass [OF sched_reach_inv [OF assms(1)] assms(2) _ assms(3)]) simp
  then show ?thesis
    using scan_until_reach [OF assms(1) p]
    by (intro exI [of _ "pass_result V c i s"])
      (simp add: pass_result_def dispatch_def at_place_def Let_def split: option.split)
qed

theorem sched_pass_dispatches_first_witness:
  "\<exists>V tbl cs s t. sched_reach V tbl cs s \<and> scan_until V 0 66 s = Some t \<and> cplace (scpus t 0) = InLoop"
proof -
  let ?R = "sched_reach (\<lambda>a. a) (replicate MAX_PROCS idle_proc) (\<lambda>_. off_cpu)"
  let ?s1 = "at_place 0 InLoop boot_sched"
  have pl: "cplace (scpus boot_sched c) = Booting" for c by (simp add: boot_sched_def off_cpu_def)
  have r1: "?R ?s1" by (rule sched_reach.step [OF boot_reach sched_step.start [where c = 0, OF pl]])
  let ?s2 = "at_place 0 (Scanning 0) (taken 0 (upd_cpu 0 (\<lambda>u. u\<lparr>ccpu := (ccpu u)\<lparr>iflag := True\<rparr>\<rparr>) ?s1))"
  have "sched_enter 0 ?s1 = Some ?s2"
    unfolding sched_enter_def
    by (subst sched_acquire_free) (simp_all add: at_place_def boot_sched_def off_cpu_def initlock_def)
  then have r2: "?R ?s2"
    by (intro sched_reach.step [OF r1 sched_step.enter [where c = 0]]) (simp_all add: at_place_def)
  have s2: "cplace (scpus ?s2 0) = Scanning 0" "stable ?s2 = replicate MAX_PROCS idle_proc"
    by (simp_all add: at_place_def boot_sched_def)
  have n: "first_runnable (stable ?s2) 0 = None"
    unfolding s2(2) by (simp add: first_runnable_def find_None_iff idle_proc_def)
  obtain t where "scan_until (\<lambda>a. a) 0 66 ?s2 = Some t" "cplace (scpus t 0) = InLoop"
    using sched_pass_dispatches_first [OF r2 s2(1)] n by auto
  with r2 show ?thesis by blast
qed



end
