(* ===== verification/Syscall.thy ===== *)
theory Syscall
  imports Trap
begin

text \<open>
  The system calls: \<^verbatim>\<open>kernel/syscall.c\<close> and the register protocol of
  \<^verbatim>\<open>kernel/syscall_entry.asm\<close>. User memory is read and written at the user's addresses in the one byte
  memory of the model; a string or vector that does not end has no result. What happens
  between a process's \<^verbatim>\<open>yield\<close> and its return is the argument \<open>yld\<close>.
\<close>

section \<open>User memory\<close>

abbreviation (input) USER_PTR_MAX :: u64 where "USER_PTR_MAX \<equiv> 0x800000000000"

definition valid_user_ptr :: "addr \<Rightarrow> bool" where
  "valid_user_ptr p \<longleftrightarrow> p < USER_PTR_MAX"

text \<open>The string at \<open>p\<close> and the strings of a vector that ends in NULL.\<close>

partial_function (option) str_at :: "mem \<Rightarrow> addr \<Rightarrow> cstr option" where
  "str_at m p = (if m p = 0 then Some [] else do { s \<leftarrow> str_at m (p + 1); Some (m p # s) })"

partial_function (option) strs_at :: "mem \<Rightarrow> addr \<Rightarrow> cstr list option" where
  "strs_at m v =
     (if ld64 m v = 0 then Some []
      else do { s \<leftarrow> str_at m (ld64 m v); ss \<leftarrow> strs_at m (v + 8); Some (s # ss) })"

definition opt_str_at :: "mem \<Rightarrow> addr \<Rightarrow> cstr option option" where
  "opt_str_at m p = (if p = 0 then Some None else do { s \<leftarrow> str_at m p; Some (Some s) })"

text \<open>A \<^verbatim>\<open>struct vfs_stat\<close> in memory order.\<close>

definition stat_words :: "vstat \<Rightarrow> u64 list" where
  "stat_words st = [st_ino st, ucast (st_mode st) OR push_bit 32 (ucast (st_nlink st)),
     ucast (st_uid st) OR push_bit 32 (ucast (st_gid st)), st_size st, st_blocks st, st_atime st,
     st_mtime st, st_ctime st]"

definition put_stat :: "addr \<Rightarrow> vstat option \<Rightarrow> 'x vfs_scheme \<Rightarrow> 'x vfs_scheme" where
  "put_stat p st s = (case st of None \<Rightarrow> s | Some v \<Rightarrow> set_bytes (wr_words (bytes_of s) p (stat_words v)) s)"

section \<open>The end of a process\<close>

text \<open>The lock stays taken; the state is the one the scheduler finds behind its \<^verbatim>\<open>swtch\<close>. \<^verbatim>\<open>%d\<close> reads
  64 bits of an argument passed with 32: the upper half, which the calling convention leaves open, is
  taken as zero.\<close>

definition exit_message :: cstr where
  "exit_message = [112, 114, 111, 99, 58, 32, 37, 100, 44, 32, 99, 111, 100, 101, 58, 32, 37, 100, 13, 10]"

definition sys_exit :: "'x procs_scheme vtables \<Rightarrow> i32 \<Rightarrow> 'x procs_scheme \<Rightarrow> 'x procs_scheme option" where
  "sys_exit T status s =
     (let p = current_proc s in do {
        s1 \<leftarrow> acquire_proc_lock s;
        s2 \<leftarrow> proc_close_fds T p s1;
        t \<leftarrow> printf exit_message [Num (ucast (pid (proc_at s2 p))), Num (ucast status)] (dout s2);
        Some ((upd_proc p (\<lambda>q. q\<lparr>exit_code := status, pstate := PROC_ZOMBIE\<rparr>) (s2\<lparr>dout := t\<rparr>))
                \<lparr>current_proc := 0\<rparr>)
      })"

section \<open>Files\<close>

definition sys_open :: "'x procs_scheme vtables \<Rightarrow> addr \<Rightarrow> u64 \<Rightarrow> 'x procs_scheme \<Rightarrow>
    (i64 \<times> 'x procs_scheme) option" where
  "sys_open T path flags s =
     (let p = current_proc s in
      if p = 0 \<or> \<not> valid_user_ptr path then Some (- 1, s)
      else do {
        let vflags = (if flags AND 3 = 1 then 2 else if flags AND 3 = 2 then 3 else 1 :: u32);
        name \<leftarrow> opt_str_at (bytes_of s) path;
        ((rc, f), s1) \<leftarrow> vfs_open T name vflags 0 s;
        if rc \<noteq> VFS_OK then Some (- 1, s1)
        else
          let (fd, s2) = fd_alloc p f s1
          in if fd <s 0 then do { (_, s3) \<leftarrow> vfs_close T f s2; Some (- 1, s3) }
             else Some (scast fd, s2)
      })"

text \<open>The check of \<^verbatim>\<open>fd_get\<close> sees the low 32 bits of \<open>fd\<close>, the store uses all of it: past the array there is
  no result.\<close>

definition sys_close :: "'x procs_scheme vtables \<Rightarrow> u64 \<Rightarrow> 'x procs_scheme \<Rightarrow> (i64 \<times> 'x procs_scheme) option" where
  "sys_close T fd s =
     (let p = current_proc s in
      if p = 0 then Some (- 1, s)
      else let f = fd_get p (ucast fd) s in
        if f = 0 then Some (- 1, s)
        else if word_of_nat MAX_FDS \<le> fd then None
        else do {
          (_, s1) \<leftarrow> vfs_close T f (set_fd p (unat fd) 0 s);
          Some (0, s1)
        })"

definition sys_read :: "'x procs_scheme vtables \<Rightarrow> u64 \<Rightarrow> addr \<Rightarrow> u64 \<Rightarrow> 'x procs_scheme \<Rightarrow>
    (i64 \<times> 'x procs_scheme) option" where
  "sys_read T fd buf len s =
     (let p = current_proc s in
      if p = 0 \<or> \<not> valid_user_ptr buf then Some (- 1, s)
      else let f = fd_get p (ucast fd) s in
        if f = 0 then Some (- 1, s) else vfs_read T f buf (ucast (ucast len :: u32)) s)"

definition sys_write :: "'x procs_scheme vtables \<Rightarrow> u64 \<Rightarrow> addr \<Rightarrow> u64 \<Rightarrow> 'x procs_scheme \<Rightarrow>
    (i64 \<times> 'x procs_scheme) option" where
  "sys_write T fd buf len s =
     (if \<not> valid_user_ptr buf then Some (- 1, s)
      else let p = current_proc s; f = (if p \<noteq> 0 then fd_get p (ucast fd) s else 0) in
        if f = 0 \<and> (fd = 1 \<or> fd = 2) then
          Some (len, s\<lparr>dout := put_bytes (bytes_of s) buf 0 (unat len) (dout s)\<rparr>)
        else if f = 0 then Some (- 1, s)
        else vfs_write T f buf (ucast (ucast len :: u32)) s)"

definition sys_seek :: "'x procs_scheme vtables \<Rightarrow> u64 \<Rightarrow> u64 \<Rightarrow> u64 \<Rightarrow> 'x procs_scheme \<Rightarrow>
    (i64 \<times> 'x procs_scheme) option" where
  "sys_seek T fd off whence s =
     (let p = current_proc s in
      if p = 0 then Some (- 1, s)
      else let f = fd_get p (ucast fd) s in
        if f = 0 then Some (- 1, s) else vfs_seek T f off (ucast whence) s)"

definition sys_fstat :: "'x procs_scheme vtables \<Rightarrow> u64 \<Rightarrow> addr \<Rightarrow> 'x procs_scheme \<Rightarrow>
    (i64 \<times> 'x procs_scheme) option" where
  "sys_fstat T fd st s =
     (let p = current_proc s in
      if p = 0 \<or> \<not> valid_user_ptr st then Some (- 1, s)
      else let f = fd_get p (ucast fd) s in
        if f = 0 then Some (- 1, s)
        else do {
          ((rc, v), s1) \<leftarrow> vfs_fstat T f s;
          Some (if rc \<noteq> VFS_OK then - 1 else 0, put_stat st v s1)
        })"

definition sys_stat :: "'x procs_scheme vtables \<Rightarrow> addr \<Rightarrow> addr \<Rightarrow> 'x procs_scheme \<Rightarrow>
    (i64 \<times> 'x procs_scheme) option" where
  "sys_stat T path st s =
     (if \<not> valid_user_ptr path \<or> \<not> valid_user_ptr st then Some (- 1, s)
      else do {
        name \<leftarrow> opt_str_at (bytes_of s) path;
        ((rc, v), s1) \<leftarrow> vfs_stat T name s;
        Some (if rc \<noteq> VFS_OK then - 1 else 0, put_stat st v s1)
      })"

section \<open>Processes\<close>

definition sys_getpid :: "'x procs_scheme \<Rightarrow> i64" where
  "sys_getpid s = (if current_proc s = 0 then - 1 else ucast (pid (proc_at s (current_proc s))))"

fun zombie_child :: "process list \<Rightarrow> u32 \<Rightarrow> nat \<Rightarrow> nat option" where
  "zombie_child [] parent i = None"
| "zombie_child (c # cs) parent i =
     (if pstate c \<noteq> PROC_ZOMBIE \<or> ppid c \<noteq> parent then zombie_child cs parent (i + 1) else Some i)"

definition reap_child :: "addr \<Rightarrow> addr \<Rightarrow> 'x procs_scheme \<Rightarrow> (i64 \<times> 'x procs_scheme) option" where
  "reap_child c status_out s =
     (let q = proc_at s c;
          s1 = (if status_out \<noteq> 0 \<and> valid_user_ptr status_out
                then set_bytes (st32 (bytes_of s) status_out (exit_code q)) s else s)
      in do {
        s2 \<leftarrow> upd_vk (\<lambda>k. free_user_pml4 k (ppml4 q)) s1;
        s3 \<leftarrow> upd_vk (\<lambda>k. kfree k (ppml4 q) 1) s2;
        s4 \<leftarrow> upd_vk (\<lambda>k. kfree k (kstack q) (KSTACK_SIZE div PAGE_SIZE)) s3;
        s5 \<leftarrow> release_proc_lock
          (upd_proc c (\<lambda>q. q\<lparr>ppml4 := 0, kstack := 0, pstate := PROC_UNUSED\<rparr>) s4);
        Some (scast (pid q :: i32), s5)
      })"

partial_function (option) wait_loop :: "('x procs_scheme \<Rightarrow> 'x procs_scheme option) \<Rightarrow> addr \<Rightarrow> addr \<Rightarrow>
    'x procs_scheme \<Rightarrow> (i64 \<times> 'x procs_scheme) option" where
  "wait_loop yld parent status_out s = do {
     s1 \<leftarrow> acquire_proc_lock s;
     case zombie_child (proc_table s1) (pid (proc_at s1 parent)) 0 of
       Some i \<Rightarrow> reap_child (word_of_nat (i + 1)) status_out s1
     | None \<Rightarrow> do {
         s2 \<leftarrow> release_proc_lock s1;
         s3 \<leftarrow> yld s2;
         wait_loop yld parent status_out s3
       }
   }"

definition sys_wait :: "('x procs_scheme \<Rightarrow> 'x procs_scheme option) \<Rightarrow> addr \<Rightarrow> 'x procs_scheme \<Rightarrow>
    (i64 \<times> 'x procs_scheme) option" where
  "sys_wait yld status_out s =
     (if current_proc s = 0 then Some (- 1, s) else wait_loop yld (current_proc s) status_out s)"

section \<open>Descriptors\<close>

definition sys_dup :: "'x procs_scheme vtables \<Rightarrow> u64 \<Rightarrow> 'x procs_scheme \<Rightarrow> (i64 \<times> 'x procs_scheme) option" where
  "sys_dup T fd s =
     (let p = current_proc s in
      if p = 0 then Some (- 1, s)
      else let f = fd_get p (ucast fd) s in
        if f = 0 then Some (- 1, s)
        else let (new_fd, s1) = fd_alloc p f (vfs_file_get f s)
          in if new_fd <s 0 then do { (_, s2) \<leftarrow> vfs_close T f s1; Some (- 1, s2) }
             else Some (scast new_fd, s1))"

definition sys_dup2 :: "'x procs_scheme vtables \<Rightarrow> u64 \<Rightarrow> u64 \<Rightarrow> 'x procs_scheme \<Rightarrow>
    (i64 \<times> 'x procs_scheme) option" where
  "sys_dup2 T old_fd new_fd s =
     (let p = current_proc s in
      if p = 0 \<or> word_of_nat MAX_FDS \<le> new_fd then Some (- 1, s)
      else let f = fd_get p (ucast old_fd) s in
        if f = 0 then Some (- 1, s)
        else if old_fd = new_fd then Some (new_fd, s)
        else do {
          let g = pfiles (proc_at s p) ! unat new_fd;
          s1 \<leftarrow> (if g \<noteq> 0 then do { (_, t) \<leftarrow> vfs_close T g s; Some (set_fd p (unat new_fd) 0 t) } else Some s);
          Some (new_fd, set_fd p (unat new_fd) f (vfs_file_get f s1))
        })"

section \<open>The heap\<close>

partial_function (option) brk_pages :: "addr \<Rightarrow> u64 \<Rightarrow> u64 \<Rightarrow> kmem \<Rightarrow> (bool \<times> kmem) option" where
  "brk_pages pml4 va new_page k =
     (if va < new_page then do {
        (pg, k1) \<leftarrow> kalloc k 1;
        if pg = 0 then Some (False, k1)
        else do {
          let k2 = k1\<lparr>kbytes := memset (kbytes k1) pg 0 PAGE_SIZE\<rparr>;
          k3 \<leftarrow> map_page_pml4 k2 pml4 va (VIRT_TO_PHYS k2 pg) (PTE_USER OR PTE_WRITE);
          brk_pages pml4 (va + PAGE_SIZE) new_page k3
        }
      } else Some (True, k))"

definition page_up :: "u64 \<Rightarrow> u64" where
  "page_up a = (a + PAGE_SIZE - 1) AND NOT (PAGE_SIZE - 1)"

definition sys_brk :: "u64 \<Rightarrow> 'x procs_scheme \<Rightarrow> (i64 \<times> 'x procs_scheme) option" where
  "sys_brk new_brk s =
     (let p = current_proc s; old_brk = brk (proc_at s p) in
      if p = 0 then Some (- 1, s)
      else if new_brk = 0 then Some (old_brk, s)
      else if new_brk < USER_HEAP_BASE \<or> 0x400000000 < new_brk then Some (old_brk, s)
      else do {
        (ok, s1) \<leftarrow> (if old_brk < new_brk
          then with_vk (brk_pages (ppml4 (proc_at s p)) (page_up old_brk) (page_up new_brk)) s
          else Some (True, s));
        if \<not> ok then Some (brk (proc_at s1 p), s1)
        else Some (new_brk, upd_proc p (\<lambda>q. q\<lparr>brk := new_brk\<rparr>) s1)
      })"

section \<open>Pipes and the framebuffer\<close>

definition sys_pipe :: "'x procs_scheme vtables \<Rightarrow> addr \<Rightarrow> addr \<Rightarrow> addr \<Rightarrow> 'x procs_scheme \<Rightarrow>
    (i64 \<times> 'x procs_scheme) option" where
  "sys_pipe T read_ops write_ops fds s =
     (let p = current_proc s in
      if \<not> valid_user_ptr fds then Some (- 1, s)
      else if p = 0 then Some (- 1, s)
      else do {
        ((rc, r, w), s1) \<leftarrow> pipe_create read_ops write_ops s;
        if rc \<noteq> 0 then Some (- 1, s1)
        else
          let (rfd, s2) = fd_alloc p r s1; (wfd, s3) = fd_alloc p w s2
          in if rfd <s 0 \<or> wfd <s 0 then do {
               (_, s4) \<leftarrow> vfs_close T r (if 0 \<le>s rfd then set_fd p (unat rfd) 0 s3 else s3);
               (_, s5) \<leftarrow> vfs_close T w s4;
               Some (- 1, s5)
             }
             else Some (0, set_bytes (st32 (st32 (bytes_of s3) fds rfd) (fds + 4) wfd) s3)
      })"

definition sys_fbinfo :: "addr \<Rightarrow> 'x procs_scheme \<Rightarrow> i64 \<times> 'x procs_scheme" where
  "sys_fbinfo info s =
     (if \<not> valid_user_ptr info then (- 1, s)
      else let (w, h, p, b) = kconsole_get_info (tcon (dout s))
        in (0, set_bytes (wr_words (bytes_of s) info
              [ucast w OR push_bit 32 (ucast h), ucast p OR push_bit 32 (ucast b), fb_addr s,
               kconsole_get_size (tcon (dout s))]) s))"

section \<open>Dispatch\<close>

text \<open>A call returns to the caller or leaves for the scheduler.\<close>

datatype 's outcome = Returns i64 's | Leaves 's

text \<open>What the calls take from outside: the operation tables, the effect of a yield, the addresses of the
  pipe operations and of the two return labels, and the reading of \<open>exec\<close>'s path after the switch.\<close>

record 's sys_env =
  tables :: "'s vtables"
  e_yield :: "'s \<Rightarrow> 's option"
  e_pipe_read :: addr
  e_pipe_write :: addr
  e_trapret :: addr
  e_forkret :: addr
  e_reread :: "addr \<Rightarrow> 's \<Rightarrow> cstr option"

definition returning :: "(i64 \<times> 's) option \<Rightarrow> 's outcome option" where
  "returning r = map_option (\<lambda>(v, s). Returns v s) r"

definition sys_exec :: "'x procs_scheme sys_env \<Rightarrow> addr \<Rightarrow> addr \<Rightarrow> 'x procs_scheme \<Rightarrow>
    (i64 \<times> 'x procs_scheme) option" where
  "sys_exec E path argv s =
     (if current_proc s = 0 \<or> path = 0 then Some (- 1, s)
      else do {
        name \<leftarrow> str_at (bytes_of s) path;
        args \<leftarrow> (if argv = 0 then Some None else do { a \<leftarrow> strs_at (bytes_of s) argv; Some (Some a) });
        (rc, s1) \<leftarrow> proc_exec (tables E) name args (e_reread E path) s;
        Some (scast rc, s1)
      })"

definition syscall_handler :: "'x procs_scheme sys_env \<Rightarrow> u64 \<Rightarrow> u64 \<Rightarrow> u64 \<Rightarrow> u64 \<Rightarrow> u64 \<Rightarrow> u64 \<Rightarrow>
    'x procs_scheme \<Rightarrow> 'x procs_scheme outcome option" where
  "syscall_handler E num a1 a2 a3 a4 a5 s =
     (let T = tables E in
      if num = 0 then
        let s1 = s\<lparr>dout := puts [69, 88, 73, 84, 32] (dout s)\<rparr>
        in if current_proc s1 = 0 then Some (Returns 0 (s1\<lparr>dout := puts [82, 69, 84, 32] (dout s1)\<rparr>))
           else map_option Leaves (sys_exit T (ucast a1) s1)
      else if num = 1 then returning (sys_write T a1 a2 a3 s)
      else if num = 2 then Some (Returns (sys_getpid s) s)
      else if num = 3 then returning (sys_exec E a1 a2 s)
      else if num = 4 then returning (map_option (\<lambda>(rc, t). (scast rc, t)) (proc_fork (e_trapret E) (e_forkret E) s))
      else if num = 5 then returning (sys_open T a1 a2 s)
      else if num = 6 then returning (sys_close T a1 s)
      else if num = 7 then returning (sys_read T a1 a2 a3 s)
      else if num = 8 then returning (sys_seek T a1 a2 a3 s)
      else if num = 9 then returning (sys_fstat T a1 a2 s)
      else if num = 10 then returning (sys_stat T a1 a2 s)
      else if num = 11 then returning (sys_wait (e_yield E) a1 s)
      else if num = 12 then returning (sys_dup T a1 s)
      else if num = 13 then returning (sys_dup2 T a1 a2 s)
      else if num = 14 then returning (sys_brk a1 s)
      else if num = 15 then returning (sys_pipe T (e_pipe_read E) (e_pipe_write E) a1 s)
      else if num = 16 then (let (v, t) = sys_fbinfo a1 s in Some (Returns v t))
      else Some (Returns (- 1) s))"

section \<open>Entry and return\<close>

text \<open>The sixteen words pushed, from the stack pointer upwards. The \<^verbatim>\<open>syscall\<close> instruction has put the return
  address into RCX and the flags into R11.\<close>

definition entry_frame :: "regs \<Rightarrow> u64 list" where
  "entry_frame r = [rax r, r9 r, r8 r, r10 r, rdx r, rsi r, rdi r, r15 r, r14 r, r13 r, r12 r, rbp r,
     rbx r, r11 r, rcx r, rsp r]"

text \<open>The copy in the process, with the two segment constants the assembly writes.\<close>

definition saved_tf :: "mem \<Rightarrow> addr \<Rightarrow> trap_frame" where
  "saved_tf m sp = zero_tf\<lparr>t_r15 := frame_word m sp 7, t_r14 := frame_word m sp 8,
     t_r13 := frame_word m sp 9, t_r12 := frame_word m sp 10, t_r11 := frame_word m sp 13,
     t_r10 := frame_word m sp 3, t_r9 := frame_word m sp 1, t_r8 := frame_word m sp 2,
     t_rbp := frame_word m sp 11, t_rdi := frame_word m sp 6, t_rsi := frame_word m sp 5,
     t_rdx := frame_word m sp 4, t_rcx := frame_word m sp 14, t_rbx := frame_word m sp 12,
     t_rax := frame_word m sp 0, t_rip := frame_word m sp 14, t_cs := 0x20,
     t_rflags := frame_word m sp 13, t_rsp := frame_word m sp 15, t_ss := 0x28\<rparr>"

text \<open>The pops. The first one takes the saved system call number into RAX.\<close>

definition popped :: "mem \<Rightarrow> addr \<Rightarrow> regs" where
  "popped m sp = \<lparr>rax = frame_word m sp 0, rbx = frame_word m sp 12, rcx = frame_word m sp 14,
     rdx = frame_word m sp 4, rsi = frame_word m sp 5, rdi = frame_word m sp 6, rbp = frame_word m sp 11,
     rsp = frame_word m sp 15, r8 = frame_word m sp 2, r9 = frame_word m sp 1, r10 = frame_word m sp 3,
     r11 = frame_word m sp 13, r12 = frame_word m sp 10, r13 = frame_word m sp 9, r14 = frame_word m sp 8,
     r15 = frame_word m sp 7\<rparr>"

datatype 's sys_end = Sysret regs 's | Gone 's

definition syscall_entry :: "(u64 \<Rightarrow> u64 \<Rightarrow> u64 \<Rightarrow> u64 \<Rightarrow> u64 \<Rightarrow> u64 \<Rightarrow> 'x procs_scheme \<Rightarrow> 'x procs_scheme outcome option) \<Rightarrow>
    u64 \<Rightarrow> regs \<Rightarrow> 'x procs_scheme \<Rightarrow> 'x procs_scheme sys_end option" where
  "syscall_entry H kernel_rsp r s =
     (let sp = kernel_rsp - 128;
          m = wr_words (bytes_of s) sp (entry_frame r);
          s1 = set_bytes m s;
          s2 = (if current_proc s1 \<noteq> 0
                then upd_proc (current_proc s1) (\<lambda>q. q\<lparr>ptf := saved_tf m sp\<rparr>) s1 else s1)
      in do {
        out \<leftarrow> H (frame_word m sp 0) (frame_word m sp 6) (frame_word m sp 5) (frame_word m sp 4)
          (frame_word m sp 3) (frame_word m sp 2) s2;
        Some (case out of Returns v t \<Rightarrow> Sysret (popped (bytes_of t) sp) t | Leaves t \<Rightarrow> Gone t)
      })"

end
