(* ===== verification/Ports.thy ===== *)
theory Ports
  imports Proc
begin

text \<open>
  The instructions of \<^verbatim>\<open>kernel/x86.h\<close> that reach devices, and accesses to memory-mapped
  registers. The state keeps the history of all accesses, newest first; a device is a parameter,
  a function from the history to the value that a read returns, and to the memory it has written.
  Messages to the log are here too.
\<close>

section \<open>Accesses\<close>

datatype io_event = Out8 u16 u8 | Out16 u16 u16 | Out32 u16 u32 | In8 u16 | In16 u16 | In32 u16 |
  Wr32 addr u32 | Rd32 addr

record io_env =
  in8 :: "io_event list \<Rightarrow> u16 \<Rightarrow> u8"
  in16 :: "io_event list \<Rightarrow> u16 \<Rightarrow> u16"
  in32 :: "io_event list \<Rightarrow> u16 \<Rightarrow> u32"
  rd32 :: "io_event list \<Rightarrow> addr \<Rightarrow> u32"
  dma :: "io_event list \<Rightarrow> mem \<Rightarrow> mem"

record ios = procs +
  io_trace :: "io_event list"

definition io_do :: "io_event \<Rightarrow> 'x ios_scheme \<Rightarrow> 'x ios_scheme" where
  "io_do e s = s\<lparr>io_trace := e # io_trace s\<rparr>"

definition outb :: "u16 \<Rightarrow> u8 \<Rightarrow> 'x ios_scheme \<Rightarrow> 'x ios_scheme" where
  "outb p v = io_do (Out8 p v)"

definition outw :: "u16 \<Rightarrow> u16 \<Rightarrow> 'x ios_scheme \<Rightarrow> 'x ios_scheme" where
  "outw p v = io_do (Out16 p v)"

definition outl :: "u16 \<Rightarrow> u32 \<Rightarrow> 'x ios_scheme \<Rightarrow> 'x ios_scheme" where
  "outl p v = io_do (Out32 p v)"

definition inb :: "io_env \<Rightarrow> u16 \<Rightarrow> 'x ios_scheme \<Rightarrow> u8 \<times> 'x ios_scheme" where
  "inb E p s = (in8 E (io_trace s) p, io_do (In8 p) s)"

definition inw :: "io_env \<Rightarrow> u16 \<Rightarrow> 'x ios_scheme \<Rightarrow> u16 \<times> 'x ios_scheme" where
  "inw E p s = (in16 E (io_trace s) p, io_do (In16 p) s)"

definition inl :: "io_env \<Rightarrow> u16 \<Rightarrow> 'x ios_scheme \<Rightarrow> u32 \<times> 'x ios_scheme" where
  "inl E p s = (in32 E (io_trace s) p, io_do (In32 p) s)"

text \<open>A load from and a store to a volatile register in memory.\<close>

definition mmio_read :: "io_env \<Rightarrow> addr \<Rightarrow> 'x ios_scheme \<Rightarrow> u32 \<times> 'x ios_scheme" where
  "mmio_read E a s = (rd32 E (io_trace s) a, io_do (Rd32 a) s)"

definition mmio_write :: "addr \<Rightarrow> u32 \<Rightarrow> 'x ios_scheme \<Rightarrow> 'x ios_scheme" where
  "mmio_write a v = io_do (Wr32 a v)"

text \<open>What devices have stored in memory by now.\<close>

definition dma_arrive :: "io_env \<Rightarrow> 'x ios_scheme \<Rightarrow> 'x ios_scheme" where
  "dma_arrive E s = set_bytes (dma E (io_trace s) (bytes_of s)) s"

section \<open>Messages\<close>

text \<open>The bytes of an ASCII literal.\<close>

definition ascii :: "string \<Rightarrow> cstr" where
  "ascii t = map of_char t"

text \<open>\<open>lg\<close> is one of \<^verbatim>\<open>klog\<close>, \<^verbatim>\<open>klog_ok\<close> and \<^verbatim>\<open>klog_fail\<close>.\<close>

definition log_args :: "(cstr \<Rightarrow> cstr \<Rightarrow> varg list \<Rightarrow> outs \<Rightarrow> outs option) \<Rightarrow> string \<Rightarrow> cstr \<Rightarrow> varg list \<Rightarrow>
    'x devs_scheme \<Rightarrow> 'x devs_scheme option" where
  "log_args lg tag msg args s = do { t \<leftarrow> lg (ascii tag) msg args (dout s); Some (s\<lparr>dout := t\<rparr>) }"

abbreviation log_with :: "(cstr \<Rightarrow> cstr \<Rightarrow> varg list \<Rightarrow> outs \<Rightarrow> outs option) \<Rightarrow> string \<Rightarrow> cstr \<Rightarrow>
    'x devs_scheme \<Rightarrow> 'x devs_scheme option" where
  "log_with lg tag msg \<equiv> log_args lg tag msg []"

end
