(* ===== verification/Acpi.thy ===== *)
theory Acpi
  imports Ports
begin

text \<open>
  The search for the interrupt controller table of \<^verbatim>\<open>kernel/acpi.c\<close>. The firmware tables are bytes of
  memory; the structures of \<^verbatim>\<open>kernel/acpi.h\<close> are read at the offsets the compiler gives them:
  \<^verbatim>\<open>struct RSDP\<close> and \<^verbatim>\<open>struct XSDP\<close> are packed with a pointer of eight bytes at 16, so \<^verbatim>\<open>xsdt\<close> is at 28;
  \<^verbatim>\<open>struct XSDT\<close> is not packed, so its pointers start at 40.
\<close>

record acpi_tables =
  rsdp :: addr
  xsdp :: addr
  rsdt :: addr
  xsdt :: addr
  madt :: addr

definition sig_eq :: "mem \<Rightarrow> addr \<Rightarrow> cstr \<Rightarrow> bool" where
  "sig_eq m p w \<longleftrightarrow> m p = w ! 0 \<and> m (p + 1) = w ! 1 \<and> m (p + 2) = w ! 2 \<and> m (p + 3) = w ! 3"

text \<open>The header of a table: the signature at 0 and the length at 4; its size is 36.\<close>

definition h_length :: "mem \<Rightarrow> addr \<Rightarrow> u32" where
  "h_length m p = ld32 m (p + 4)"

text \<open>\<open>n\<close> more entries, the next one \<open>i\<close>.\<close>

fun sdt_loop :: "mem \<Rightarrow> (u64 \<Rightarrow> addr) \<Rightarrow> nat \<Rightarrow> u64 \<Rightarrow> addr \<Rightarrow> addr" where
  "sdt_loop m entry 0 i found = found"
| "sdt_loop m entry (Suc n) i found =
     sdt_loop m entry n (i + 1) (if sig_eq m (entry i) (ascii ''APIC'') then entry i else found)"

definition xsdt_entry :: "kmem \<Rightarrow> addr \<Rightarrow> u64 \<Rightarrow> addr" where
  "xsdt_entry k t i = PHYS_TO_VIRT k (ld64 (kbytes k) (t + 40 + 8 * i))"

definition rsdt_entry :: "kmem \<Rightarrow> addr \<Rightarrow> u64 \<Rightarrow> addr" where
  "rsdt_entry k t i = PHYS_TO_VIRT k (ucast (ld32 (kbytes k) (t + 36 + 4 * i)))"

definition init_acpi :: "kmem \<Rightarrow> addr \<Rightarrow> acpi_tables \<Rightarrow> acpi_tables" where
  "init_acpi k p t =
     (let m = kbytes k; t1 = t\<lparr>rsdp := p\<rparr> in
      if 2 \<le> m (p + 15) then
        let phys = ld64 m (p + 28); x = PHYS_TO_VIRT k phys; t2 = t1\<lparr>xsdp := p, xsdt := x\<rparr> in
        if phys \<noteq> 0 then
          let num = (ucast (h_length m x) - 36) div 8 :: u64 in
          t2\<lparr>madt := sdt_loop m (xsdt_entry k x) (unat num) 0 (madt t2)\<rparr>
        else t2
      else
        let r = PHYS_TO_VIRT k (ld64 m (p + 16)); t2 = t1\<lparr>rsdt := r\<rparr>;
            num = ucast ((ucast (h_length m r) - 36) div 4 :: u64) :: u32 in
        t2\<lparr>madt := sdt_loop m (rsdt_entry k r) (unat num) 0 (madt t2)\<rparr>)"

end
