(* ===== verification/Apic.thy ===== *)
theory Apic
  imports Acpi
begin

text \<open>
  The interrupt controllers and timers of \<^verbatim>\<open>kernel/apic.c\<close>: the registers of the local and the
  I/O controller at their mapped addresses, the walks over the entries of the controller table,
  the redirection of device interrupts, and the command sequences of the old controller and
  the interval timer. Register accesses are events of the history.
\<close>

record apics = ios +
  acpi :: acpi_tables
  lapic_base :: addr
  ioapic_base :: addr

section \<open>Registers\<close>

abbreviation (input) LAPIC_ID :: u32 where "LAPIC_ID \<equiv> 0x20"
abbreviation (input) LAPIC_TPR :: u32 where "LAPIC_TPR \<equiv> 0x80"
abbreviation (input) LAPIC_EOI :: u32 where "LAPIC_EOI \<equiv> 0xB0"
abbreviation (input) LAPIC_SVR :: u32 where "LAPIC_SVR \<equiv> 0xF0"
abbreviation (input) LAPIC_TIMER :: u32 where "LAPIC_TIMER \<equiv> 0x320"
abbreviation (input) LAPIC_TIMER_INIT :: u32 where "LAPIC_TIMER_INIT \<equiv> 0x380"
abbreviation (input) LAPIC_TIMER_DIV :: u32 where "LAPIC_TIMER_DIV \<equiv> 0x3E0"
abbreviation (input) IOAPIC_REDTBL_MASKED :: u32 where "IOAPIC_REDTBL_MASKED \<equiv> 0x10000"

definition lapic_read :: "io_env \<Rightarrow> u32 \<Rightarrow> 'x apics_scheme \<Rightarrow> u32 \<times> 'x apics_scheme" where
  "lapic_read E reg s = mmio_read E (lapic_base s + 4 * ucast (reg div 4)) s"

definition lapic_write :: "u32 \<Rightarrow> u32 \<Rightarrow> 'x apics_scheme \<Rightarrow> 'x apics_scheme" where
  "lapic_write reg val s = mmio_write (lapic_base s + 4 * ucast (reg div 4)) val s"

definition ioapic_read :: "io_env \<Rightarrow> u32 \<Rightarrow> 'x apics_scheme \<Rightarrow> u32 \<times> 'x apics_scheme" where
  "ioapic_read E reg s = mmio_read E (ioapic_base s + 0x10) (mmio_write (ioapic_base s) reg s)"

definition ioapic_write :: "u32 \<Rightarrow> u32 \<Rightarrow> 'x apics_scheme \<Rightarrow> 'x apics_scheme" where
  "ioapic_write reg val s = mmio_write (ioapic_base s + 0x10) val (mmio_write (ioapic_base s) reg s)"

definition IOAPIC_REDTBL_LO :: "u32 \<Rightarrow> u32" where
  "IOAPIC_REDTBL_LO gsi = 0x10 + gsi * 2"

definition IOAPIC_REDTBL_HI :: "u32 \<Rightarrow> u32" where
  "IOAPIC_REDTBL_HI gsi = 0x10 + gsi * 2 + 1"

definition pic_disable :: "'x ios_scheme \<Rightarrow> 'x ios_scheme" where
  "pic_disable s = outb 0x21 0xFF (outb 0xA1 0xFF s)"

section \<open>The entries of the controller table\<close>

text \<open>The walks may not end; then they have no value.\<close>

partial_function (option) override_walk :: "kmem \<Rightarrow> addr \<Rightarrow> addr \<Rightarrow> addr \<Rightarrow> addr option" where
  "override_walk k p e base =
     (if p < e then
        let ty = kbytes k p; len = kbytes k (p + 1) in
        if len = 0 then Some base
        else override_walk k (p + ucast len) e
          (if ty = 5 then PHYS_TO_VIRT k (ld64 (kbytes k) (p + 4)) else base)
      else Some base)"

partial_function (option) ioapic_walk :: "mem \<Rightarrow> addr \<Rightarrow> addr \<Rightarrow> u32 option option" where
  "ioapic_walk m p e =
     (if p < e then
        if m p = 1 then Some (Some (ld32 m (p + 4)))
        else ioapic_walk m (p + ucast (m (p + 1))) e
      else Some None)"

partial_function (option) iso_walk :: "mem \<Rightarrow> addr \<Rightarrow> addr \<Rightarrow> u8 \<Rightarrow> u32 option" where
  "iso_walk m p e line =
     (if p < e then
        let ty = m p; len = m (p + 1) in
        if len = 0 then Some (ucast line)
        else if ty = 2 \<and> m (p + 3) = line then Some (ld32 m (p + 4))
        else iso_walk m (p + ucast len) e line
      else Some (ucast line))"

abbreviation (input) madt_first :: "addr \<Rightarrow> addr" where "madt_first t \<equiv> t + 44"

definition madt_end :: "mem \<Rightarrow> addr \<Rightarrow> addr" where
  "madt_end m t = t + ucast (h_length m t)"

section \<open>The local controller\<close>

definition lapic_enable :: "'x apics_scheme \<Rightarrow> 'x apics_scheme" where
  "lapic_enable s = lapic_write LAPIC_TPR 0 (lapic_write LAPIC_SVR (0x100 OR 0xFF) s)"

definition lapic_init :: "'x apics_scheme \<Rightarrow> 'x apics_scheme option" where
  "lapic_init s =
     (let t = madt (acpi s); m = bytes_of s; phys = ucast (ld32 m (t + 36)) :: u64 in
      if t = 0 then log_with klog_fail ''LAPIC'' (ascii ''no MADT found'') s
      else do {
        base \<leftarrow> override_walk (vk s) (madt_first t) (madt_end m t) (PHYS_TO_VIRT (vk s) phys);
        k \<leftarrow> map_mmio (vk s) (cr3 s) phys PAGE_SIZE;
        log_with klog_ok ''LAPIC'' (ascii ''initialized'') (lapic_enable (s\<lparr>lapic_base := base, vk := k\<rparr>))
      })"

definition lapic_eoi :: "'x apics_scheme \<Rightarrow> 'x apics_scheme" where
  "lapic_eoi = lapic_write LAPIC_EOI 0"

definition lapic_init_ap :: "'x apics_scheme \<Rightarrow> 'x apics_scheme" where
  "lapic_init_ap = lapic_enable"

definition lapic_id :: "io_env \<Rightarrow> 'x apics_scheme \<Rightarrow> u32 \<times> 'x apics_scheme" where
  "lapic_id E s = (let (v, s1) = lapic_read E LAPIC_ID s in (drop_bit 24 v, s1))"

section \<open>The I/O controller\<close>

fun mask_all :: "nat \<Rightarrow> u32 \<Rightarrow> 'x apics_scheme \<Rightarrow> 'x apics_scheme" where
  "mask_all 0 i s = s"
| "mask_all (Suc n) i s = mask_all n (i + 1)
     (ioapic_write (IOAPIC_REDTBL_HI i) 0 (ioapic_write (IOAPIC_REDTBL_LO i) IOAPIC_REDTBL_MASKED s))"

definition ioapic_init :: "io_env \<Rightarrow> 'x apics_scheme \<Rightarrow> 'x apics_scheme option" where
  "ioapic_init E s =
     (let t = madt (acpi s) in
      if t = 0 then log_with klog_fail ''IOAPIC'' (ascii ''no MADT found'') s
      else do {
        w \<leftarrow> ioapic_walk (bytes_of s) (madt_first t) (madt_end (bytes_of s) t);
        s1 \<leftarrow> (case w of None \<Rightarrow> Some s
           | Some a \<Rightarrow> do { k \<leftarrow> map_mmio (vk s) (cr3 s) (ucast a) PAGE_SIZE;
               Some (s\<lparr>vk := k, ioapic_base := PHYS_TO_VIRT k (ucast a)\<rparr>) });
        if ioapic_base s1 = 0 then log_with klog_fail ''IOAPIC'' (ascii ''not found in MADT'') s1
        else
          let (v, s2) = ioapic_read E 1 s1; max_redir = drop_bit 16 v AND 0xFF in
          log_with klog_ok ''IOAPIC'' (ascii ''initialized'') (mask_all (Suc (unat max_redir)) 0 s2)
      })"

definition irq_to_gsi :: "'x apics_scheme \<Rightarrow> u8 \<Rightarrow> u32 option" where
  "irq_to_gsi s line =
     (let t = madt (acpi s); m = bytes_of s in
      if t = 0 then Some (ucast line) else iso_walk m (madt_first t) (madt_end m t) line)"

definition ioapic_route_irq :: "u8 \<Rightarrow> u8 \<Rightarrow> u8 \<Rightarrow> 'x apics_scheme \<Rightarrow> 'x apics_scheme option" where
  "ioapic_route_irq line vector dest s = do {
     gsi \<leftarrow> irq_to_gsi s line;
     let hi = push_bit 24 (ucast dest);
     Some (ioapic_write (IOAPIC_REDTBL_LO gsi) (ucast vector) (ioapic_write (IOAPIC_REDTBL_HI gsi) hi s))
   }"

definition ioapic_mask_irq :: "io_env \<Rightarrow> u8 \<Rightarrow> 'x apics_scheme \<Rightarrow> 'x apics_scheme option" where
  "ioapic_mask_irq E line s = do {
     gsi \<leftarrow> irq_to_gsi s line;
     let (lo, s1) = ioapic_read E (IOAPIC_REDTBL_LO gsi) s;
     Some (ioapic_write (IOAPIC_REDTBL_LO gsi) (lo OR IOAPIC_REDTBL_MASKED) s1)
   }"

definition ioapic_unmask_irq :: "io_env \<Rightarrow> u8 \<Rightarrow> 'x apics_scheme \<Rightarrow> 'x apics_scheme option" where
  "ioapic_unmask_irq E line s = do {
     gsi \<leftarrow> irq_to_gsi s line;
     let (lo, s1) = ioapic_read E (IOAPIC_REDTBL_LO gsi) s;
     Some (ioapic_write (IOAPIC_REDTBL_LO gsi) (lo AND NOT IOAPIC_REDTBL_MASKED) s1)
   }"

section \<open>Timers\<close>

abbreviation (input) PIT_FREQ :: u32 where "PIT_FREQ \<equiv> 1193182"

text \<open>A division by zero does not return.\<close>

definition pit_init :: "u32 \<Rightarrow> 'x ios_scheme \<Rightarrow> 'x ios_scheme option" where
  "pit_init hz s = do {
     d \<leftarrow> udiv PIT_FREQ hz;
     let divisor = (ucast d :: u16);
     Some (outb 0x40 (ucast (drop_bit 8 divisor AND 0xFF)) (outb 0x40 (ucast (divisor AND 0xFF)) (outb 0x43 0x36 s)))
   }"

definition pit_stop :: "'x ios_scheme \<Rightarrow> 'x ios_scheme" where
  "pit_stop s = outb 0x40 0 (outb 0x40 0 (outb 0x43 0x30 s))"

definition lapic_timer_set :: "u32 \<Rightarrow> u32 \<Rightarrow> 'x apics_scheme \<Rightarrow> 'x apics_scheme" where
  "lapic_timer_set lvt initial_count s =
     lapic_write LAPIC_TIMER_INIT initial_count (lapic_write LAPIC_TIMER lvt (lapic_write LAPIC_TIMER_DIV 3 s))"

definition lapic_timer_init :: "u8 \<Rightarrow> u32 \<Rightarrow> 'x apics_scheme \<Rightarrow> 'x apics_scheme" where
  "lapic_timer_init vector = lapic_timer_set (ucast vector)"

definition lapic_timer_periodic :: "u8 \<Rightarrow> u32 \<Rightarrow> 'x apics_scheme \<Rightarrow> 'x apics_scheme" where
  "lapic_timer_periodic vector = lapic_timer_set (ucast vector OR 0x20000)"

definition lapic_timer_stop :: "'x apics_scheme \<Rightarrow> 'x apics_scheme" where
  "lapic_timer_stop s = lapic_write LAPIC_TIMER_INIT 0 (lapic_write LAPIC_TIMER 0x10000 s)"

end
