(* ===== verification/Serial.thy ===== *)
theory Serial
  imports Ports Ps2
begin

text \<open>
  Drivers that wait for a port: the serial transmitter of \<^verbatim>\<open>kernel/serial.c\<close>, and the controller
  commands with which \<^verbatim>\<open>ps2_init\<close> of \<^verbatim>\<open>kernel/ps2.c\<close> sets keyboard and mouse up. A wait may never end; then
  there is no result.
\<close>

section \<open>The serial port\<close>

abbreviation (input) PORT :: u16 where "PORT \<equiv> 0x3F8"
abbreviation (input) UART_IER :: u16 where "UART_IER \<equiv> 1"
abbreviation (input) UART_FCR :: u16 where "UART_FCR \<equiv> 2"
abbreviation (input) UART_LCR :: u16 where "UART_LCR \<equiv> 3"
abbreviation (input) UART_MCR :: u16 where "UART_MCR \<equiv> 4"
abbreviation (input) UART_LSR :: u16 where "UART_LSR \<equiv> 5"
abbreviation (input) UART_LSR_THRE :: u8 where "UART_LSR_THRE \<equiv> 0x20"

definition init_serial :: "'x ios_scheme \<Rightarrow> 'x ios_scheme" where
  "init_serial s =
     (let s1 = outb (PORT + UART_IER) 0x00 s;
          s2 = outb (PORT + UART_LCR) 0x80 s1;
          s3 = outb PORT 3 s2;
          s4 = outb (PORT + 1) 0x00 s3;
          s5 = outb (PORT + UART_LCR) 0x03 s4;
          s6 = outb (PORT + UART_FCR) 0xC7 s5;
          s7 = outb (PORT + UART_MCR) (0x01 OR 0x02 OR 0x08) s6;
          s8 = outb (PORT + UART_MCR) (0x01 OR 0x02 OR 0x08 OR 0x10) s7;
          s9 = outb PORT 0xAE s8
      in outb (PORT + UART_MCR) (0x01 OR 0x02 OR 0x08) s9)"

definition is_transmit_empty :: "io_env \<Rightarrow> 'x ios_scheme \<Rightarrow> u32 \<times> 'x ios_scheme" where
  "is_transmit_empty E s = (let (v, s1) = inb E (PORT + UART_LSR) s in (ucast (v AND UART_LSR_THRE), s1))"

partial_function (option) wait_transmit :: "io_env \<Rightarrow> 'x ios_scheme \<Rightarrow> 'x ios_scheme option" where
  "wait_transmit E s = (let (v, s1) = is_transmit_empty E s in if v = 0 then wait_transmit E s1 else Some s1)"

definition serial_putc :: "io_env \<Rightarrow> u8 \<Rightarrow> 'x ios_scheme \<Rightarrow> 'x ios_scheme option" where
  "serial_putc E c s = do { s1 \<leftarrow> wait_transmit E s; Some (outb PORT c s1) }"

text \<open>The index has 32 bits; the string ends where the list does.\<close>

partial_function (option) serial_puts_from :: "io_env \<Rightarrow> cstr \<Rightarrow> u32 \<Rightarrow> 'x ios_scheme \<Rightarrow> 'x ios_scheme option" where
  "serial_puts_from E str i s =
     (if unat i < length str then do { s1 \<leftarrow> serial_putc E (str ! unat i) s; serial_puts_from E str (i + 1) s1 }
      else Some s)"

definition serial_puts :: "io_env \<Rightarrow> cstr \<Rightarrow> 'x ios_scheme \<Rightarrow> 'x ios_scheme option" where
  "serial_puts E str = serial_puts_from E str 0"

section \<open>The keyboard controller\<close>

abbreviation (input) PS2_DATA_PORT :: u16 where "PS2_DATA_PORT \<equiv> 0x60"
abbreviation (input) PS2_STATUS_PORT :: u16 where "PS2_STATUS_PORT \<equiv> 0x64"
abbreviation (input) PS2_CMD_PORT :: u16 where "PS2_CMD_PORT \<equiv> 0x64"

partial_function (option) ps2_wait_write :: "io_env \<Rightarrow> 'x ios_scheme \<Rightarrow> 'x ios_scheme option" where
  "ps2_wait_write E s = (let (v, s1) = inb E PS2_STATUS_PORT s in if v AND 2 \<noteq> 0 then ps2_wait_write E s1 else Some s1)"

partial_function (option) ps2_wait_read :: "io_env \<Rightarrow> 'x ios_scheme \<Rightarrow> 'x ios_scheme option" where
  "ps2_wait_read E s = (let (v, s1) = inb E PS2_STATUS_PORT s in if v AND 1 = 0 then ps2_wait_read E s1 else Some s1)"

partial_function (option) ps2_flush :: "io_env \<Rightarrow> 'x ios_scheme \<Rightarrow> 'x ios_scheme option" where
  "ps2_flush E s =
     (let (v, s1) = inb E PS2_STATUS_PORT s in
      if v AND 1 \<noteq> 0 then ps2_flush E (snd (inb E PS2_DATA_PORT s1)) else Some s1)"

definition ps2_command :: "io_env \<Rightarrow> u8 \<Rightarrow> 'x ios_scheme \<Rightarrow> 'x ios_scheme option" where
  "ps2_command E c s = do { s1 \<leftarrow> ps2_wait_write E s; Some (outb PS2_CMD_PORT c s1) }"

definition ps2_send :: "io_env \<Rightarrow> u8 \<Rightarrow> 'x ios_scheme \<Rightarrow> 'x ios_scheme option" where
  "ps2_send E d s = do { s1 \<leftarrow> ps2_wait_write E s; Some (outb PS2_DATA_PORT d s1) }"

definition ps2_receive :: "io_env \<Rightarrow> 'x ios_scheme \<Rightarrow> (u8 \<times> 'x ios_scheme) option" where
  "ps2_receive E s = do { s1 \<leftarrow> ps2_wait_read E s; Some (inb E PS2_DATA_PORT s1) }"

text \<open>The addresses of the operation tables of keyboard, mouse and mouse control.\<close>

record ps2_addrs =
  a_kbd :: addr
  a_mouse :: addr
  a_mousectl :: addr

definition kbd_fops :: "'x devs_scheme vfops" where
  "kbd_fops = no_fops\<lparr>op_read := Some (\<lambda>s f buf cnt. let (r, out, d) = kbd_read cnt (dps2 s) in
     Some (r, set_bytes (wr_bytes (bytes_of s) buf out) (s\<lparr>dps2 := d\<rparr>)))\<rparr>"

definition mouse_fops :: "'x devs_scheme vfops" where
  "mouse_fops = no_fops\<lparr>op_read := Some (\<lambda>s f buf cnt. let (r, out, d) = mouse_read cnt (dps2 s) in
     Some (r, set_bytes (wr_bytes (bytes_of s) buf out) (s\<lparr>dps2 := d\<rparr>)))\<rparr>"

definition mousectl_fops :: "'x devs_scheme vfops" where
  "mousectl_fops = no_fops\<lparr>
     op_read := Some (\<lambda>s f buf cnt. let (r, out) = mousectl_read cnt (dps2 s) in
       Some (r, set_bytes (wr_bytes (bytes_of s) buf out) s)),
     op_write := Some (\<lambda>s f buf cnt.
       let (r, d) = mousectl_write [bytes_of s buf, bytes_of s (buf + 1), bytes_of s (buf + 2)] cnt (dps2 s) in
       Some (r, s\<lparr>dps2 := d\<rparr>))\<rparr>"

definition ps2_fops_of :: "ps2_addrs \<Rightarrow> addr \<Rightarrow> 'x devs_scheme vfops" where
  "ps2_fops_of A a = (if a = a_kbd A then kbd_fops else if a = a_mouse A then mouse_fops
     else if a = a_mousectl A then mousectl_fops else no_fops)"

section \<open>Setting keyboard and mouse up\<close>

definition ps2_rings :: "'x devs_scheme \<Rightarrow> 'x devs_scheme" where
  "ps2_rings s = s\<lparr>dps2 := (dps2 s)\<lparr>kbd_ring_buf := ring_init (rbuf (kbd_ring_buf ps2_boot)) KBD_BUF_LEN,
     mouse_ring_buf := ring_init (rbuf (mouse_ring_buf ps2_boot)) MOUSE_BUF_LEN\<rparr>\<rparr>"

definition ps2_config :: "io_env \<Rightarrow> 'x ios_scheme \<Rightarrow> 'x ios_scheme option" where
  "ps2_config E s = do {
     s1 \<leftarrow> ps2_command E 0xAD s;
     s2 \<leftarrow> ps2_command E 0xA7 s1;
     s3 \<leftarrow> ps2_flush E s2;
     s4 \<leftarrow> ps2_command E 0x20 s3;
     (config, s5) \<leftarrow> ps2_receive E s4;
     s6 \<leftarrow> ps2_command E 0x60 s5;
     s7 \<leftarrow> ps2_send E (config OR 0x01 OR 0x02) s6;
     s8 \<leftarrow> ps2_command E 0xAE s7;
     s9 \<leftarrow> log_with klog_ok ''KBD'' (ascii ''enabled'') s8;
     ps2_command E 0xA8 s9
   }"

definition ps2_devices :: "ps2_addrs \<Rightarrow> 'x devs_scheme \<Rightarrow> 'x devs_scheme" where
  "ps2_devices A s =
     (let s1 = snd (devfs_register (Some (ascii ''kbd'')) (VFS_S_IFCHR OR 0x124) (a_kbd A) 0 s);
          s2 = snd (devfs_register (Some (ascii ''mouse'')) (VFS_S_IFCHR OR 0x124) (a_mouse A) 0 s1)
      in snd (devfs_register (Some (ascii ''mousectl'')) (VFS_S_IFCHR OR 0x1B6) (a_mousectl A) 0 s2))"

definition mouse_setup :: "io_env \<Rightarrow> 'x ios_scheme \<Rightarrow> 'x ios_scheme option" where
  "mouse_setup E s = do {
     s1 \<leftarrow> ps2_command E 0xD4 s;
     s2 \<leftarrow> ps2_send E 0xFF s1;
     (_, s3) \<leftarrow> ps2_receive E s2;
     (_, s4) \<leftarrow> ps2_receive E s3;
     s5 \<leftarrow> ps2_command E 0xD4 s4;
     s6 \<leftarrow> ps2_send E 0xF4 s5;
     (_, s7) \<leftarrow> ps2_receive E s6;
     log_with klog_ok ''MOUSE'' (ascii ''enabled'') s7
   }"

definition ps2_init :: "io_env \<Rightarrow> ps2_addrs \<Rightarrow> 'x ios_scheme \<Rightarrow> 'x ios_scheme option" where
  "ps2_init E A s = do { s1 \<leftarrow> ps2_config E (ps2_rings s); mouse_setup E (ps2_devices A s1) }"

end
