(* ===== verification/Kernel.thy ===== *)
theory Kernel
  imports Syscall Apic Serial
begin

text \<open>
  The components put together as \<^verbatim>\<open>_start\<close> of \<^verbatim>\<open>kernel/main.c\<close> does: the memory map handed to the
  allocator, the operation tables of all file systems at their addresses, and the registration and mounting
  of initfs, ext2 and devfs.
\<close>

section \<open>Memory\<close>

text \<open>An entry of the boot loader's memory map.\<close>

record memmap_entry =
  mm_base :: u64
  mm_length :: u64
  mm_type :: u64

abbreviation (input) LIMINE_MEMMAP_USABLE :: u64 where "LIMINE_MEMMAP_USABLE \<equiv> 0"
abbreviation (input) LIMINE_MEMMAP_BAD_MEMORY :: u64 where "LIMINE_MEMMAP_BAD_MEMORY \<equiv> 4"

fun free_usable :: "memmap_entry list \<Rightarrow> u64 \<Rightarrow> kmem \<Rightarrow> (u64 \<times> kmem) option" where
  "free_usable [] available k = Some (available, k)"
| "free_usable (e # es) available k =
     (if mm_type e = LIMINE_MEMMAP_USABLE then do {
        k1 \<leftarrow> freerange k (mm_base e) (mm_base e + mm_length e);
        free_usable es (available + mm_length e) k1
      } else free_usable es available k)"

definition boot_memory :: "u64 \<Rightarrow> memmap_entry list \<Rightarrow> kmem \<Rightarrow> (u64 \<times> kmem) option" where
  "boot_memory hhdm entries k = do {
     (available, k1) \<leftarrow> free_usable entries 0 (kinit k hhdm);
     Some (available, buddy_enable_lock k1)
   }"

text \<open>The other regions are mapped for memory-mapped devices, in the page table \<open>root\<close>.\<close>

fun map_reserved :: "memmap_entry list \<Rightarrow> u64 \<Rightarrow> kmem \<Rightarrow> kmem option" where
  "map_reserved [] root k = Some k"
| "map_reserved (e # es) root k =
     (if mm_type e \<noteq> LIMINE_MEMMAP_USABLE \<and> mm_type e \<noteq> LIMINE_MEMMAP_BAD_MEMORY then do {
        k1 \<leftarrow> map_mmio k root (mm_base e) (mm_length e);
        map_reserved es root k1
      } else map_reserved es root k)"

section \<open>Processors\<close>

text \<open>
  The APIC ids of the slots of \<^verbatim>\<open>cpus\<close>, slot 0 being the boot processor's: the loader's list gives
  the others theirs while there are slots. A slot keeps only the low byte. Every processor of the list
  but the first is then started, and looks for its own slot.
\<close>

abbreviation (input) MAX_CPUS :: nat where "MAX_CPUS \<equiv> 16"

fun smp_slots :: "u32 \<Rightarrow> u32 list \<Rightarrow> u8 list \<Rightarrow> u8 list" where
  "smp_slots bsp [] slots = slots"
| "smp_slots bsp (l # ls) slots =
     (if length slots < MAX_CPUS
      then smp_slots bsp ls (if l = bsp then slots else slots @ [ucast l]) else slots)"

definition smp_started :: "u32 \<Rightarrow> u32 list \<Rightarrow> u32 list" where
  "smp_started bsp ls = filter (\<lambda>l. l \<noteq> bsp) ls"

fun slot_from :: "u32 \<Rightarrow> nat \<Rightarrow> u8 list \<Rightarrow> nat option" where
  "slot_from apic i [] = None"
| "slot_from apic i (l # ls) = (if ucast l = apic then Some i else slot_from apic (Suc i) ls)"

definition ap_slot :: "u32 \<Rightarrow> u8 list \<Rightarrow> nat option" where
  "ap_slot apic slots = slot_from apic 0 slots"

section \<open>The tables\<close>

text \<open>The addresses of the static operation tables, of the file system types and of their mount and unmount
  functions.\<close>

record kernel_addrs =
  dev_tab :: dev_addrs
  ps2_tab :: ps2_addrs
  initfs_tab :: addr
  ext2_itab :: addr
  ext2_ftab :: addr
  ext2_type :: addr
  initfs_type :: addr
  devfs_type :: addr
  ext2_mount :: addr
  ext2_umount :: addr
  initfs_mount :: addr
  devfs_mount :: addr
  devfs_umount :: addr

text \<open>Files opened through a path have one of these tables. Pipe ends have none.\<close>

definition kernel_tables :: "'x procs_scheme blk_env \<Rightarrow> kernel_addrs \<Rightarrow> 'x procs_scheme vtables" where
  "kernel_tables E A = \<lparr>
     iops_of = (\<lambda>a. if a = initfs_tab A then initfs_dir_iops (initfs_tab A)
       else if a = ext2_itab A then ext2_inode_ops E (ext2_itab A) (ext2_ftab A)
       else if a = a_dir_iops (dev_tab A) then devfs_dir_iops (dev_tab A) else devfs_node_iops),
     fops_of = devfs_fops_of E (dev_tab A) (\<lambda>a. if a = ext2_ftab A then ext2_file_ops E else ps2_fops_of (ps2_tab A) a),
     mount_of = (\<lambda>a. if a = ext2_mount A then ext2_mount_fs E (ext2_itab A) (ext2_ftab A)
       else if a = initfs_mount A then initfs_mount_fs (initfs_tab A) else devfs_mount_fs (dev_tab A)),
     unmount_of = (\<lambda>a. if a = ext2_umount A then ext2_unmount else devfs_unmount)\<rparr>"

section \<open>File systems\<close>

definition register_all :: "kernel_addrs \<Rightarrow> 'x devs_scheme \<Rightarrow> 'x devs_scheme option" where
  "register_all A s = do {
     (_, s1) \<leftarrow> ext2_init (ext2_type A) (vfs_init s);
     (_, s2) \<leftarrow> initfs_init (initfs_type A) s1;
     s3 \<leftarrow> devfs_init (dev_tab A) (devfs_type A) s2;
     log_with klog_ok ''VFS'' (ascii ''filesystems registered'') s3
   }"

text \<open>The disk that is mounted over the root, or 0.\<close>

definition root_device :: "'x blks_scheme \<Rightarrow> addr option" where
  "root_device s = do {
     d \<leftarrow> blk_get (ascii ''ahci0'') s;
     if d = 0 then blk_get (ascii ''ata0'') s else Some d
   }"

definition mount_disk :: "'x procs_scheme blk_env \<Rightarrow> kernel_addrs \<Rightarrow> 'x procs_scheme \<Rightarrow> 'x procs_scheme option" where
  "mount_disk E A s = do {
     d \<leftarrow> root_device s;
     if d = 0
     then log_with klog ''FS'' (ascii ''no block device '' @ [226, 128, 148] @ ascii '' running from initfs only'') s
     else do {
       (rc, s1) \<leftarrow> vfs_mount (kernel_tables E A) (Some (ascii ''ext2'')) d (Some (ascii ''/'')) 0 None s;
       if rc = VFS_OK then log_with klog_ok ''FS'' (ascii ''ext2 mounted at /'') s1
       else log_with klog_fail ''FS'' (ascii ''ext2 mount failed'') s1
     }
   }"

definition blk_names :: "cstr list" where
  "blk_names = map ascii [''ahci0'', ''ahci1'', ''ahci2'', ''ahci3'', ''ata0'', ''ata1'', ''ata2'', ''ata3'']"

fun register_disks :: "kernel_addrs \<Rightarrow> cstr list \<Rightarrow> 'x devs_scheme \<Rightarrow> 'x devs_scheme option" where
  "register_disks A [] s = Some s"
| "register_disks A (n # ns) s = do {
     d \<leftarrow> blk_get n s;
     register_disks A ns (if d \<noteq> 0 then snd (devfs_register_blk (dev_tab A) d s) else s)
   }"

definition mount_devfs :: "'x procs_scheme blk_env \<Rightarrow> kernel_addrs \<Rightarrow> 'x procs_scheme \<Rightarrow> 'x procs_scheme option" where
  "mount_devfs E A s = do {
     s1 \<leftarrow> register_disks A blk_names s;
     (rc, s2) \<leftarrow> vfs_mount (kernel_tables E A) (Some (ascii ''devfs'')) 0 (Some (ascii ''/dev'')) 0 None s1;
     if rc = VFS_OK then log_with klog_ok ''FS'' (ascii ''devfs mounted at /dev'') s2
     else log_with klog_fail ''FS'' (ascii ''devfs mount failed'') s2
   }"

definition boot_files :: "'x procs_scheme blk_env \<Rightarrow> kernel_addrs \<Rightarrow> 'x procs_scheme \<Rightarrow> 'x procs_scheme option" where
  "boot_files E A s = do {
     s1 \<leftarrow> register_all A s;
     (_, s2) \<leftarrow> vfs_mount (kernel_tables E A) (Some (ascii ''initfs'')) 0 (Some (ascii ''/'')) 0 None s1;
     (_, s3) \<leftarrow> vfs_mkdir (kernel_tables E A) (Some (ascii ''/dev'')) 0x1ED s2;
     s4 \<leftarrow> mount_disk E A s3;
     mount_devfs E A s4
   }"

end
