(* ===== verification/Syscall_Spec.thy ===== *)
theory Syscall_Spec
  imports Kernel Trap_Spec
begin

text \<open>
  What the system calls do with a process's descriptors, and what of their result reaches the
  process: the reference counts of open files stay exact under \<^verbatim>\<open>dup\<close>, \<^verbatim>\<open>dup2\<close> and \<^verbatim>\<open>close\<close>, a large
  descriptor number passes the check of \<^verbatim>\<open>close\<close>, and the entry stub returns the system
  call's number instead of its result.
\<close>

section \<open>References to files\<close>

definition refs :: "'x procs_scheme \<Rightarrow> addr \<Rightarrow> nat" where
  "refs s f = (\<Sum>q\<leftarrow>proc_table s. count_list (pfiles q) f)"

lemma count_list_update:
  "i < length xs \<Longrightarrow> count_list (xs[i := y]) f + of_bool (xs ! i = f) = count_list xs f + of_bool (y = f)"
proof (induction xs arbitrary: i)
  case (Cons x xs)
  then show ?case by (cases i) auto
qed simp

lemma sum_list_map_update:
  fixes h :: "'a \<Rightarrow> nat"
  shows "i < length xs \<Longrightarrow> sum_list (map h (xs[i := y])) + h (xs ! i) = sum_list (map h xs) + h y"
proof (induction xs arbitrary: i)
  case (Cons x xs)
  then show ?case by (cases i) auto
qed simp

lemma count_list_length: "count_list xs f \<le> length xs"
  by (induction xs) auto

text \<open>A process pointer to a slot of the table, and tables of descriptors of the right length.\<close>

definition slot_ok :: "addr \<Rightarrow> 'x procs_scheme \<Rightarrow> bool" where
  "slot_ok p s \<longleftrightarrow> p \<noteq> 0 \<and> unat p - 1 < length (proc_table s)"

definition table_ok :: "'x procs_scheme \<Rightarrow> bool" where
  "table_ok s \<longleftrightarrow> length (proc_table s) \<le> MAX_PROCS \<and> (\<forall>q \<in> set (proc_table s). length (pfiles q) = MAX_FDS)"

lemma proc_at_mem: "slot_ok p s \<Longrightarrow> proc_at s p \<in> set (proc_table s)"
  by (simp add: slot_ok_def proc_at_def)

lemma fds_length: "table_ok s \<Longrightarrow> slot_ok p s \<Longrightarrow> length (pfiles (proc_at s p)) = MAX_FDS"
  using proc_at_mem [of p s] by (auto simp: table_ok_def)

lemma refs_bound:
  assumes "table_ok s"
  shows "refs s f \<le> 2048"
proof -
  have le: "(\<Sum>q\<leftarrow>qs. count_list (pfiles q) f) \<le> 32 * length qs" if "\<forall>q \<in> set qs. length (pfiles q) = 32" for qs
    using that
  proof (induction qs)
    case (Cons q qs)
    then show ?case using count_list_length [of "pfiles q" f] by simp
  qed simp
  then have "refs s f \<le> 32 * length (proc_table s)" using assms le [of "proc_table s"] by (simp add: refs_def table_ok_def)
  also have "\<dots> \<le> 2048" using assms by (simp add: table_ok_def)
  finally show ?thesis .
qed

lemma set_fd_simps [simp]:
  "proc_table (set_fd p i g s) = (proc_table s)[unat p - 1 := (proc_at s p)\<lparr>pfiles := (pfiles (proc_at s p))[i := g]\<rparr>]"
  "vk (set_fd p i g s) = vk s" "files (set_fd p i g s) = files s" "inodes (set_fd p i g s) = inodes s"
  "current_proc (set_fd p i g s) = current_proc s"
  by (simp_all add: set_fd_def upd_proc_def)

lemma set_fd_ok: "table_ok s \<Longrightarrow> slot_ok p s \<Longrightarrow> table_ok (set_fd p i g s)"
  using fds_length [of s p] by (auto simp: table_ok_def dest!: set_update_subset_insert [THEN subsetD])

lemma refs_set_fd:
  assumes "table_ok s" "slot_ok p s" "i < MAX_FDS"
  shows "refs (set_fd p i g s) f + of_bool (pfiles (proc_at s p) ! i = f) = refs s f + of_bool (g = f)"
proof -
  let ?q = "proc_at s p" let ?h = "\<lambda>q. count_list (pfiles q) f"
  have "refs (set_fd p i g s) f + ?h ?q = refs s f + count_list ((pfiles ?q)[i := g]) f"
    using sum_list_map_update [of "unat p - 1" "proc_table s" ?h] assms(2)
    by (simp add: refs_def slot_ok_def proc_at_def)
  moreover have "count_list ((pfiles ?q)[i := g]) f + of_bool (pfiles ?q ! i = f) = ?h ?q + of_bool (g = f)"
    using count_list_update [of i "pfiles ?q" g f] fds_length [OF assms(1,2)] assms(3) by simp
  ultimately show ?thesis by linarith
qed

section \<open>Counts\<close>

text \<open>The counts of the open files are the references from the tables and \<open>d\<close> more; open files lie on
  pages of their own that are not free.\<close>

definition counted :: "nat multiset \<Rightarrow> (addr \<Rightarrow> int) \<Rightarrow> 'x procs_scheme \<Rightarrow> bool" where
  "counted F d s \<longleftrightarrow> buddy_ok (vk s) F \<and> table_ok s \<and>
     (\<forall>f. f \<noteq> 0 \<longrightarrow> 0 \<le> int (refs s f) + d f \<and> \<bar>d f\<bar> \<le> 2 \<and>
        (0 < int (refs s f) + d f \<longrightarrow> pg_aligned f \<and> page_of f \<notin># F \<and>
           unat (frefcnt (files s f)) = nat (int (refs s f) + d f)))"

lemma counted_get:
  assumes "counted F d s" "f \<noteq> 0" "0 < int (refs s f) + d f" "\<bar>d f + 1\<bar> \<le> 2"
  shows "counted F (d(f := d f + 1)) (vfs_file_get f s)"
proof -
  have r: "refs (vfs_file_get f s) g = refs s g" for g by (simp add: refs_def vfs_file_get_def upd_file_def)
  have "unat (frefcnt (files s f) + 1) = unat (frefcnt (files s f)) + 1"
  proof -
    have "refs s f \<le> 2048" "d f \<le> 2" "unat (frefcnt (files s f)) = nat (int (refs s f) + d f)"
      using assms refs_bound [of s f] unfolding counted_def by force+
    then have "unat (frefcnt (files s f)) \<le> 2050" by linarith
    then show ?thesis by (simp add: unat_word_ariths)
  qed
  then show ?thesis
    using assms unfolding counted_def r
    by (auto simp: vfs_file_get_def upd_file_def table_ok_def)
qed

lemma counted_set_fd:
  assumes "counted F d s" "slot_ok p s" "i < MAX_FDS" "g = 0 \<or> 0 < int (refs s g) + d g"
    and "\<And>f. f \<noteq> 0 \<Longrightarrow> d' f = d f + of_bool (pfiles (proc_at s p) ! i = f) - of_bool (g = f)"
    and "\<And>f. \<bar>d' f\<bar> \<le> 2"
  shows "counted F d' (set_fd p i g s)"
proof -
  have t: "table_ok s" using assms(1) by (simp add: counted_def)
  have e: "int (refs (set_fd p i g s) f) + d' f = int (refs s f) + d f" if "f \<noteq> 0" for f
  proof -
    have "int (refs (set_fd p i g s) f) + of_bool (pfiles (proc_at s p) ! i = f) = int (refs s f) + of_bool (g = f)"
      using arg_cong [OF refs_set_fd [OF t assms(2,3), of g f], of int] by simp
    then show ?thesis using assms(5) [OF that] by linarith
  qed
  then show ?thesis
    using assms(1,6) set_fd_ok [OF t assms(2), of i g] unfolding counted_def by simp
qed

text \<open>The closing operations of the kernel's files do nothing: what the calls need of the tables.\<close>

locale quiet_files =
  fixes T :: "'x procs_scheme vtables"
  assumes quiet: "fop T op_close s f = Some cl \<Longrightarrow> \<exists>rc. cl s f = Some (rc, s) \<and> \<not> rc <s 0"
begin

lemma close_put: "f \<noteq> 0 \<Longrightarrow> vfs_close T f s = map_option (\<lambda>t. (VFS_OK, t)) (vfs_file_put f s)"
  using quiet [of s f] by (auto simp: vfs_close_def split: option.splits)
     (cases "vfs_file_put f s"; auto)+

lemma counted_close:
  assumes "counted F d s" "f \<noteq> 0" "0 < int (refs s f) + d f" "\<bar>d f - 1\<bar> \<le> 2"
  shows "\<exists>s' F'. vfs_close T f s = Some (VFS_OK, s') \<and> counted F' (d(f := d f - 1)) s' \<and> F \<subseteq># F' \<and>
    proc_table s' = proc_table s \<and> current_proc s' = current_proc s \<and>
    (int (refs s f) + d f = 1 \<longrightarrow> page_of f \<in># F')"
proof -
  define s1 where "s1 = upd_file f (\<lambda>e. e\<lparr>frefcnt := frefcnt e - 1\<rparr>) s"
  have f: "pg_aligned f" "page_of f \<notin># F" "unat (frefcnt (files s f)) = nat (int (refs s f) + d f)"
    using assms unfolding counted_def by blast+
  have r: "refs s1 g = refs s g" for g by (simp add: refs_def s1_def upd_file_def)
  have cnt: "unat (frefcnt (files s1 f)) = unat (frefcnt (files s f)) - 1"
  proof -
    have "frefcnt (files s f) \<noteq> 0" using f(3) assms(3) by auto
    then show ?thesis by (simp add: s1_def upd_file_def unat_minus_one)
  qed
  have c1: "counted F (d(f := d f - 1)) s1"
    using assms f cnt unfolding counted_def r
    by (auto simp: s1_def upd_file_def table_ok_def)
  show ?thesis
  proof (cases "frefcnt (files s1 f) = 0")
    case False
    then have "vfs_close T f s = Some (VFS_OK, s1)"
      using assms(2) by (simp add: close_put vfs_file_put_def s1_def Let_def)
    moreover have "int (refs s f) + d f \<noteq> 1"
    proof
      assume "int (refs s f) + d f = 1"
      then have "unat (frefcnt (files s1 f)) = 0" using cnt f(3) by simp
      then show False using False by (simp add: unat_eq_0)
    qed
    ultimately show ?thesis using c1 by (intro exI [of _ s1] exI [of _ F]) (simp add: s1_def upd_file_def)
  next
    case True
    define s2 where "s2 = (if finode (files s1 f) \<noteq> 0 then vfs_inode_put (finode (files s1 f)) s1 else s1)"
    have s2: "vk s2 = vk s" "files s2 = files s1" "proc_table s2 = proc_table s" "current_proc s2 = current_proc s"
      by (simp_all add: s2_def s1_def vfs_inode_put_def upd_inode_def upd_file_def)
    have b: "buddy_ok (vk s2) F" using assms(1) by (simp add: s2 counted_def)
    have "once F" using b by (auto simp: buddy_ok_def buddy_rel_def)
    then have "once (F + {# page_of f #})" using f(2) by (auto simp: once_def count_eq_zero_iff)
    then obtain k where k: "kfree (vk s2) f 1 = Some k" "buddy_ok k (F + {# page_of f #})"
      using kfree_page [OF b _ f(1) assms(2)] by blast
    define s3 where "s3 = s2\<lparr>vk := k\<rparr>"
    have s3: "vk s3 = k" "files s3 = files s1" "proc_table s3 = proc_table s" "current_proc s3 = current_proc s"
      by (simp_all add: s3_def s2)
    have "vfs_close T f s = Some (VFS_OK, s3)"
      using assms(2) True k(1)
      by (simp add: close_put vfs_file_put_def s1_def [symmetric] s2_def [symmetric] Let_def page_free1_def s3_def)
    moreover have "counted (F + {# page_of f #}) (d(f := d f - 1)) s3"
    proof -
      have r3: "refs s3 g = refs s g" for g by (simp add: refs_def s3)
      have "int (refs s f) + d f = 1" using True cnt f(3) assms(3) by simp
      moreover have "page_of g \<noteq> page_of f" if "g \<noteq> f" "pg_aligned g" for g
        using that f(1) by (auto simp: page_of_def pg_aligned_def word_unat_eq_iff)
      ultimately show ?thesis
        using c1 k(2) unfolding counted_def r r3 s3 by (auto simp: table_ok_def s3 s1_def upd_file_def)
    qed
    ultimately show ?thesis using s3
      by (intro exI [of _ s3] exI [of _ "F + {# page_of f #}"]) simp
  qed
qed

end

section \<open>Descriptors\<close>

text \<open>The scan finds the lowest empty slot.\<close>

lemma fd_slot_cases:
  "(fd_slot fs i = None \<and> 0 \<notin> set fs) \<or>
   (\<exists>j < length fs. fd_slot fs i = Some (i + j) \<and> fs ! j = 0 \<and> (\<forall>k < j. fs ! k \<noteq> 0))"
proof (induction fs arbitrary: i)
  case (Cons f fs)
  show ?case
  proof (cases "f = 0")
    case False
    from Cons.IH [of "i + 1"] show ?thesis
    proof (elim disjE exE conjE)
      fix j assume j: "j < length fs" "fd_slot fs (i + 1) = Some (i + 1 + j)" "fs ! j = 0" "\<forall>k < j. fs ! k \<noteq> 0"
      then have "\<forall>k < Suc j. (f # fs) ! k \<noteq> 0" using False by (simp add: nth_Cons')
      then show ?thesis using j False by (intro disjI2 exI [of _ "Suc j"]) simp
    qed (use False in simp)
  qed simp
qed simp

text \<open>What \<open>fd_alloc\<close> returns.\<close>

lemma fd_alloc_cases:
  assumes "table_ok s" "slot_ok p s"
  shows "(fd_slot (pfiles (proc_at s p)) 0 = None \<and> fd_alloc p f s = (- 1, s)) \<or>
    (\<exists>i < MAX_FDS. fd_slot (pfiles (proc_at s p)) 0 = Some i \<and> pfiles (proc_at s p) ! i = 0 \<and>
       fd_alloc p f s = (word_of_nat i, set_fd p i f s))"
  using fd_slot_cases [of "pfiles (proc_at s p)" 0] fds_length [OF assms]
  by (auto simp: fd_alloc_def set_fd_def)

lemma small_fd:
  assumes "i < MAX_FDS"
  shows "\<not> (word_of_nat i :: i32) <s 0" "(scast (word_of_nat i :: i32) :: i64) = word_of_nat i"
    "fd_get p (word_of_nat i) s = pfiles (proc_at s p) ! i"
proof -
  have e: "sint (word_of_nat i :: i32) = int i"
    using assms sint_i32 [of "int i"] by simp
  then show "\<not> (word_of_nat i :: i32) <s 0" by (simp add: word_sless_alt)
  moreover have "(word_of_nat i :: i32) <s word_of_nat MAX_FDS"
    using assms e sint_i32 [of 32] by (simp add: word_sless_alt)
  moreover have "unat (word_of_nat i :: i32) = i" using assms by (intro unat_of_nat_id) simp
  ultimately show "fd_get p (word_of_nat i) s = pfiles (proc_at s p) ! i" by (simp add: fd_get_def)
  show "(scast (word_of_nat i :: i32) :: i64) = word_of_nat i"
    using e by (simp add: scast_eq)
qed

section \<open>The calls on descriptors\<close>

datatype fd_call = Dup u64 | Dup2 u64 u64 | Close u64

definition fd_run :: "'x procs_scheme vtables \<Rightarrow> fd_call \<Rightarrow> 'x procs_scheme \<Rightarrow> (i64 \<times> 'x procs_scheme) option" where
  "fd_run T c s = (case c of Dup fd \<Rightarrow> sys_dup T fd s | Dup2 a b \<Rightarrow> sys_dup2 T a b s | Close fd \<Rightarrow> sys_close T fd s)"

text \<open>What the calls are for, as functions of the descriptor table alone: entry 0 is a free slot.\<close>

definition fd_entry :: "addr list \<Rightarrow> u64 \<Rightarrow> addr" where
  "fd_entry fs fd = (if fd < word_of_nat MAX_FDS then fs ! unat fd else 0)"

definition fd_spec :: "fd_call \<Rightarrow> addr list \<Rightarrow> i64 \<times> addr list" where
  "fd_spec c fs = (case c of
     Dup fd \<Rightarrow> if fd_entry fs fd = 0 then (- 1, fs)
       else (case fd_slot fs 0 of None \<Rightarrow> (- 1, fs) | Some i \<Rightarrow> (word_of_nat i, fs[i := fd_entry fs fd]))
   | Dup2 a b \<Rightarrow> if word_of_nat MAX_FDS \<le> b \<or> fd_entry fs a = 0 then (- 1, fs)
       else (b, fs[unat b := fd_entry fs a])
   | Close fd \<Rightarrow> if fd_entry fs fd = 0 then (- 1, fs) else (0, fs[unat fd := 0]))"

text \<open>The numbers of a call have the value that the check sees in their low 32 bits, or fail it.\<close>

definition narrow_fd :: "u64 \<Rightarrow> bool" where
  "narrow_fd fd \<longleftrightarrow> ((ucast fd :: u32) < word_of_nat MAX_FDS \<longrightarrow> fd < word_of_nat MAX_FDS)"

definition narrow :: "fd_call \<Rightarrow> bool" where
  "narrow c \<longleftrightarrow> (case c of Dup fd \<Rightarrow> narrow_fd fd | Dup2 a b \<Rightarrow> narrow_fd a | Close fd \<Rightarrow> narrow_fd fd)"

definition fds_exact :: "nat multiset \<Rightarrow> 'x procs_scheme \<Rightarrow> bool" where
  "fds_exact F s \<longleftrightarrow> counted F (\<lambda>_. 0) s \<and> slot_ok (current_proc s) s"

lemma fd_in_range: "\<not> w <s 0 \<and> w <s word_of_nat MAX_FDS \<longleftrightarrow> w < word_of_nat MAX_FDS" for w :: i32
proof
  assume w: "\<not> w <s 0 \<and> w <s word_of_nat MAX_FDS"
  then have "0 \<le> sint w" "sint w < 32" using sint_i32 [of 32] by (simp_all add: word_sless_alt)
  moreover have "uint w = sint w mod 2 ^ 32"
  proof -
    have "uint (word_of_int (sint w) :: i32) = sint w mod 2 ^ 32"
      by (simp only: uint_word_of_int) simp
    then show ?thesis by simp
  qed
  ultimately show "w < word_of_nat MAX_FDS" by (simp add: word_less_def)
next
  assume "w < word_of_nat MAX_FDS"
  then have "uint w < 32" by (simp add: word_less_def)
  moreover have "- 2147483648 \<le> uint w" using uint_ge_0 [of w] by linarith
  ultimately have "sint w = uint w" using sint_i32 [of "uint w"] by simp
  then show "\<not> w <s 0 \<and> w <s word_of_nat MAX_FDS"
    using \<open>uint w < 32\<close> sint_i32 [of 32] by (simp add: word_sless_alt)
qed

lemma fd_get_entry:
  assumes "narrow_fd fd"
  shows "fd_get p (ucast fd) s = fd_entry (pfiles (proc_at s p)) fd"
proof -
  have "unat (ucast fd :: i32) = unat fd" if "fd < word_of_nat MAX_FDS"
  proof -
    have "uint fd < 32" using that by (simp add: word_less_def)
    then have "uint (ucast fd :: i32) = uint fd" by (simp add: unsigned_ucast_eq take_bit_int_eq_self)
    then show ?thesis by (metis nat_uint_eq)
  qed
  moreover have "(ucast fd :: i32) < word_of_nat MAX_FDS \<longleftrightarrow> fd < word_of_nat MAX_FDS"
    using calculation assms by (auto simp: narrow_fd_def word_less_nat_alt)
  ultimately show ?thesis
    using fd_in_range [of "ucast fd"] by (auto simp: fd_get_def fd_entry_def)
qed

text \<open>The state after a call: exact counts, no page lost, and the current process's table as specified, the
  other processes' untouched.\<close>

definition fd_after :: "nat multiset \<Rightarrow> 'x procs_scheme \<Rightarrow> addr list \<Rightarrow> 'x procs_scheme \<Rightarrow> bool" where
  "fd_after F s fs t \<longleftrightarrow> (\<exists>F'. fds_exact F' t \<and> F \<subseteq># F') \<and> current_proc t = current_proc s \<and>
     proc_table t = (proc_table s)[unat (current_proc s) - 1 := (proc_at s (current_proc s))\<lparr>pfiles := fs\<rparr>]"

lemma fd_after_same:
  assumes "fds_exact F s" "counted F' (\<lambda>_. 0) t" "F \<subseteq># F'" "proc_table t = proc_table s" "current_proc t = current_proc s"
  shows "fd_after F s (pfiles (proc_at s (current_proc s))) t"
  using assms by (auto simp: fd_after_def fds_exact_def slot_ok_def proc_at_def)

lemma fd_after_set:
  assumes "fds_exact F s" "counted F' (\<lambda>_. 0) t" "F \<subseteq># F'" "current_proc t = current_proc s"
    "proc_table t = proc_table (set_fd (current_proc s) i g s)"
  shows "fd_after F s ((pfiles (proc_at s (current_proc s)))[i := g]) t"
  using assms by (auto simp: fd_after_def fds_exact_def slot_ok_def)

lemma entry_index:
  assumes "fds_exact F s" "fd_entry (pfiles (proc_at s (current_proc s))) fd \<noteq> 0"
  shows "fd < word_of_nat MAX_FDS" "unat fd < MAX_FDS"
    "0 < refs s (fd_entry (pfiles (proc_at s (current_proc s))) fd)"
proof -
  let ?q = "proc_at s (current_proc s)"
  show fd: "fd < word_of_nat MAX_FDS" using assms(2) by (auto simp: fd_entry_def split: if_splits)
  then show i: "unat fd < MAX_FDS" by (simp add: word_less_nat_alt)
  have q: "?q \<in> set (proc_table s)" "length (pfiles ?q) = MAX_FDS"
    using assms(1) proc_at_mem fds_length by (auto simp: fds_exact_def counted_def)
  let ?f = "fd_entry (pfiles ?q) fd"
  have "?f \<in> set (pfiles ?q)" using fd i q(2) by (simp add: fd_entry_def)
  then have "0 < count_list (pfiles ?q) ?f" by (simp add: count_list_0_iff zero_less_iff_neq_zero)
  also have "\<dots> \<le> refs s ?f" unfolding refs_def by (rule member_le_sum_list) (use q(1) in auto)
  finally show "0 < refs s ?f" .
qed

context quiet_files
begin

lemma dup_ok:
  assumes "fds_exact F s" "narrow_fd fd" "p = current_proc s" "fs = pfiles (proc_at s p)"
  shows "\<exists>t. sys_dup T fd s = Some (fst (fd_spec (Dup fd) fs), t) \<and> fd_after F s (snd (fd_spec (Dup fd) fs)) t"
proof -
  have c: "counted F (\<lambda>_. 0) s" and p: "slot_ok p s" "p \<noteq> 0" and tab: "table_ok s"
    using assms(1,3) by (auto simp: fds_exact_def slot_ok_def counted_def)
  define f where "f = fd_entry fs fd"
  have get: "fd_get p (ucast fd) s = f" using fd_get_entry [OF assms(2)] by (simp add: f_def assms(4))
  show ?thesis
  proof (cases "f = 0")
    case True
    then show ?thesis using get p assms fd_after_same [OF assms(1) c]
      by (simp add: sys_dup_def fd_spec_def f_def)
  next
    case False
    have r: "0 < int (refs s f) + 0" using entry_index(3) [OF assms(1)] False assms(3,4) by (simp add: f_def)
    define s1 where "s1 = vfs_file_get f s"
    have s1: "proc_table s1 = proc_table s" "current_proc s1 = current_proc s" "proc_at s1 p = proc_at s p"
      by (simp_all add: s1_def vfs_file_get_def upd_file_def proc_at_def)
    have c1: "counted F ((\<lambda>_. 0)(f := 1)) s1"
      using counted_get [OF c False r] by (simp add: s1_def)
    have t1: "table_ok s1" "slot_ok p s1" using tab p by (simp_all add: table_ok_def slot_ok_def s1)
    from fd_alloc_cases [OF t1, of f] show ?thesis
    proof (elim disjE exE conjE)
      assume full: "fd_slot (pfiles (proc_at s1 p)) 0 = None" "fd_alloc p f s1 = (- 1, s1)"
      have "0 < int (refs s1 f) + ((\<lambda>_. 0)(f := 1)) f" by simp
      then obtain t F' where t: "vfs_close T f s1 = Some (VFS_OK, t)" "counted F' (\<lambda>_. 0) t" "F \<subseteq># F'"
        "proc_table t = proc_table s" "current_proc t = current_proc s"
        using counted_close [OF c1 False] by (auto simp: s1 fun_upd_idem)
      have "sys_dup T fd s = Some (- 1, t)"
        using False p(2) full(2) t(1) by (simp add: sys_dup_def assms(3) [symmetric] get s1_def [symmetric] Let_def)
      moreover have "fd_spec (Dup fd) fs = (- 1, fs)"
        using full(1) by (simp add: fd_spec_def s1 assms(4))
      ultimately show ?thesis using fd_after_same [OF assms(1) t(2-5)] by (simp add: assms(3,4))
    next
      fix i assume i: "i < MAX_FDS" "pfiles (proc_at s1 p) ! i = 0" "fd_slot (pfiles (proc_at s1 p)) 0 = Some i"
        "fd_alloc p f s1 = (word_of_nat i, set_fd p i f s1)"
      have c2: "counted F (\<lambda>_. 0) (set_fd p i f s1)"
        by (rule counted_set_fd [OF c1 t1(2) i(1)]) (use False i(2) in auto)
      have "sys_dup T fd s = Some (word_of_nat i, set_fd p i f s1)"
        using False p(2) i(4) small_fd(1,2) [OF i(1)]
        by (simp add: sys_dup_def assms(3) [symmetric] get s1_def [symmetric] Let_def)
      moreover have "fd_slot fs 0 = Some i" using i(3) by (simp add: s1 assms(4))
      ultimately show ?thesis
        using fd_after_set [OF assms(1) c2 subset_mset.order_refl, of i f] s1 False
        by (simp add: fd_spec_def f_def assms(3,4))
    qed
  qed
qed

lemma close_ok:
  assumes "fds_exact F s" "narrow_fd fd" "p = current_proc s" "fs = pfiles (proc_at s p)"
  shows "\<exists>t. sys_close T fd s = Some (fst (fd_spec (Close fd) fs), t) \<and> fd_after F s (snd (fd_spec (Close fd) fs)) t"
proof -
  have c: "counted F (\<lambda>_. 0) s" and p: "slot_ok p s" "p \<noteq> 0" and tab: "table_ok s"
    using assms(1,3) by (auto simp: fds_exact_def slot_ok_def counted_def)
  define f where "f = fd_entry fs fd"
  have get: "fd_get p (ucast fd) s = f" using fd_get_entry [OF assms(2)] by (simp add: f_def assms(4))
  show ?thesis
  proof (cases "f = 0")
    case True
    then show ?thesis using get p assms fd_after_same [OF assms(1) c]
      by (simp add: sys_close_def fd_spec_def f_def)
  next
    case False
    note i = entry_index [OF assms(1), of fd, folded assms(3), folded assms(4), folded f_def, OF False]
    have fi: "pfiles (proc_at s p) ! unat fd = f" using i(1) by (simp add: f_def fd_entry_def assms(4))
    define s1 where "s1 = set_fd p (unat fd) 0 s"
    have c1: "counted F ((\<lambda>_. 0)(f := 1)) s1" unfolding s1_def
      by (rule counted_set_fd [OF c p(1) i(2)]) (use fi False in auto)
    then obtain t F' where t: "vfs_close T f s1 = Some (VFS_OK, t)" "counted F' (\<lambda>_. 0) t" "F \<subseteq># F'"
      "proc_table t = proc_table s1" "current_proc t = current_proc s1"
      using counted_close [OF c1 False] by (auto simp: fun_upd_idem)
    have "sys_close T fd s = Some (0, t)"
      using False p(2) i(1) t(1)
      by (simp add: sys_close_def assms(3) [symmetric] get s1_def [symmetric] Let_def not_le [symmetric])
    then show ?thesis
      using fd_after_set [OF assms(1) t(2,3), of "unat fd" 0] t(4,5) False
      by (simp add: fd_spec_def f_def s1_def assms(3,4))
  qed
qed

lemma dup2_ok:
  assumes "fds_exact F s" "narrow_fd a" "p = current_proc s" "fs = pfiles (proc_at s p)"
  shows "\<exists>t. sys_dup2 T a b s = Some (fst (fd_spec (Dup2 a b) fs), t) \<and> fd_after F s (snd (fd_spec (Dup2 a b) fs)) t"
proof -
  have c: "counted F (\<lambda>_. 0) s" and p: "slot_ok p s" "p \<noteq> 0" and tab: "table_ok s"
    using assms(1,3) by (auto simp: fds_exact_def slot_ok_def counted_def)
  define f where "f = fd_entry fs a"
  have get: "fd_get p (ucast a) s = f" using fd_get_entry [OF assms(2)] by (simp add: f_def assms(4))
  have len: "length fs = MAX_FDS" using fds_length [OF tab p(1)] by (simp add: assms(4))
  show ?thesis
  proof (cases "word_of_nat MAX_FDS \<le> b \<or> f = 0")
    case True
    then show ?thesis using get p assms fd_after_same [OF assms(1) c]
      by (auto simp: sys_dup2_def fd_spec_def f_def Let_def)
  next
    case False
    then have b: "b < word_of_nat MAX_FDS" "unat b < MAX_FDS" and f: "f \<noteq> 0" by (auto simp: word_less_nat_alt not_le)
    note i = entry_index [OF assms(1), of a, folded assms(3), folded assms(4), folded f_def, OF f]
    have fi: "fs ! unat a = f" using i(1) by (simp add: f_def fd_entry_def)
    have spec: "fd_spec (Dup2 a b) fs = (b, fs[unat b := f])" using False by (simp add: fd_spec_def f_def)
    show ?thesis
    proof (cases "a = b")
      case True
      then have "sys_dup2 T a b s = Some (b, s)"
        using False p(2) get by (simp add: sys_dup2_def assms(3) [symmetric] Let_def)
      moreover have "fs[unat b := f] = fs" using fi True list_update_id [of fs "unat b"] by simp
      ultimately show ?thesis using fd_after_same [OF assms(1) c] unfolding spec by (simp add: assms(3,4))
    next
      case False
      then have ab: "unat a \<noteq> unat b" by (simp add: word_unat_eq_iff)
      define g where "g = fs ! unat b"
      have "\<exists>s1 F1. (if g \<noteq> 0 then do { (_, t) \<leftarrow> vfs_close T g s; Some (set_fd p (unat b) 0 t) } else Some s) = Some s1 \<and>
          counted F1 (\<lambda>_. 0) s1 \<and> F \<subseteq># F1 \<and> proc_table s1 = proc_table (set_fd p (unat b) 0 s) \<and>
          current_proc s1 = current_proc s"
      proof (cases "g = 0")
        case True
        then have "(pfiles (proc_at s p))[unat b := 0] = pfiles (proc_at s p)"
          using list_update_id [of "pfiles (proc_at s p)" "unat b"] by (simp add: g_def assms(4))
        then have "proc_table (set_fd p (unat b) 0 s) = proc_table s" by (simp add: proc_at_def)
        then show ?thesis using True c by auto
      next
        case g: False
        have "0 < int (refs s g) + 0"
          using entry_index(3) [OF assms(1), of b] b g by (simp add: fd_entry_def g_def assms(3,4))
        then obtain t F' where t: "vfs_close T g s = Some (VFS_OK, t)" "counted F' ((\<lambda>_. 0)(g := - 1)) t" "F \<subseteq># F'"
          "proc_table t = proc_table s" "current_proc t = current_proc s"
          using counted_close [OF c g] by auto
        have pt: "slot_ok p t" "proc_at t p = proc_at s p" using p t(4) by (simp_all add: slot_ok_def proc_at_def)
        have "counted F' (\<lambda>_. 0) (set_fd p (unat b) 0 t)"
          by (rule counted_set_fd [OF t(2) pt(1) b(2)]) (use g in \<open>auto simp: pt(2) g_def assms(4)\<close>)
        then show ?thesis using g t pt(2) by auto
      qed
      then obtain s1 F1 where s1: "(if g \<noteq> 0 then do { (_, t) \<leftarrow> vfs_close T g s; Some (set_fd p (unat b) 0 t) } else Some s) = Some s1"
        "counted F1 (\<lambda>_. 0) s1" "F \<subseteq># F1" "proc_table s1 = proc_table (set_fd p (unat b) 0 s)"
        "current_proc s1 = current_proc s" by blast
      have p1: "slot_ok p s1" "pfiles (proc_at s1 p) = fs[unat b := 0]"
        using p s1(4) by (simp_all add: slot_ok_def proc_at_def assms(4))
      have "fd_entry (pfiles (proc_at s1 (current_proc s1))) a = f"
        using ab i(1) fi by (simp add: s1(5) assms(3) [symmetric] p1(2) fd_entry_def)
      then have r: "0 < int (refs s1 f) + 0"
        using entry_index(3) [of F1 s1 a] s1(2,5) p1(1) f by (simp add: fds_exact_def assms(3))
      have c2: "counted F1 ((\<lambda>_. 0)(f := 1)) (vfs_file_get f s1)"
        using counted_get [OF s1(2) f r] by simp
      have p2: "slot_ok p (vfs_file_get f s1)" "proc_at (vfs_file_get f s1) p = proc_at s1 p"
        "proc_table (vfs_file_get f s1) = proc_table s1" "current_proc (vfs_file_get f s1) = current_proc s1"
        using p1 by (simp_all add: slot_ok_def proc_at_def vfs_file_get_def upd_file_def)
      define t where "t = set_fd p (unat b) f (vfs_file_get f s1)"
      have "counted F1 (\<lambda>_. 0) t" unfolding t_def
        by (rule counted_set_fd [OF c2 p2(1) b(2)]) (use f b(2) len in \<open>auto simp: p2 p1\<close>)
      moreover have "sys_dup2 T a b s = Some (b, t)"
      proof -
        have "sys_dup2 T a b s = do {
            s1 \<leftarrow> (if g \<noteq> 0 then do { (_, t) \<leftarrow> vfs_close T g s; Some (set_fd p (unat b) 0 t) } else Some s);
            Some (b, set_fd p (unat b) f (vfs_file_get f s1)) }"
          using b f p(2) False
          by (simp add: sys_dup2_def assms(3) [symmetric] assms(4) [symmetric] get Let_def not_le [symmetric] g_def)
        then show ?thesis unfolding s1(1) t_def by simp
      qed
      moreover have "proc_table t = proc_table (set_fd p (unat b) f s)" "current_proc t = current_proc s"
        using p by (simp_all add: t_def p2 s1 proc_at_def slot_ok_def)
      ultimately show ?thesis
        using fd_after_set [OF assms(1) _ s1(3), of t "unat b" f] unfolding spec by (simp add: assms(3,4))
    qed
  qed
qed

lemma fd_run_ok:
  assumes "fds_exact F s" "narrow c" "fs = pfiles (proc_at s (current_proc s))"
  shows "\<exists>t. fd_run T c s = Some (fst (fd_spec c fs), t) \<and> fd_after F s (snd (fd_spec c fs)) t"
  using assms dup_ok dup2_ok close_ok by (cases c) (simp_all add: narrow_def fd_run_def)

end

text \<open>The tables of the kernel: the only closing operations are those of the directories of devfs and of ext2
  files.\<close>

interpretation kf: quiet_files "kernel_tables E A" for E :: "'x procs_scheme blk_env" and A
  by unfold_locales
     (auto simp: fop_def kernel_tables_def devfs_fops_of_def devfs_dir_fops_def devfs_dir_close_def null_fops_def
        zero_fops_def blkdev_fops_def cons_fops_def fb_fops_def fbctl_fops_def ext2_file_ops_def ext2_close_def
        ps2_fops_of_def kbd_fops_def mouse_fops_def mousectl_fops_def no_fops_def split: if_splits)

section \<open>Sequences of calls\<close>

fun fd_runs :: "'x procs_scheme vtables \<Rightarrow> fd_call list \<Rightarrow> 'x procs_scheme \<Rightarrow> (i64 list \<times> 'x procs_scheme) option" where
  "fd_runs T [] s = Some ([], s)"
| "fd_runs T (c # cs) s = do { (r, s1) \<leftarrow> fd_run T c s; (rs, s2) \<leftarrow> fd_runs T cs s1; Some (r # rs, s2) }"

fun fd_specs :: "fd_call list \<Rightarrow> addr list \<Rightarrow> i64 list \<times> addr list" where
  "fd_specs [] fs = ([], fs)"
| "fd_specs (c # cs) fs =
     (let (r, fs1) = fd_spec c fs; (rs, fs2) = fd_specs cs fs1 in (r # rs, fs2))"


definition one_fd :: "addr list" where
  "one_fd = [0x7000, 0, 0, 0, 0, 0, 0, 0, 0, 0, 0, 0, 0, 0, 0, 0, 0, 0, 
    0, 0, 0, 0, 0, 0, 0, 0, 0, 0, 0, 0, 0, 0]"

definition one_file :: procs where
  "one_file = (boot_procs one_page)\<lparr>files := (\<lambda>_. zero_file\<lparr>frefcnt := 1\<rparr>), current_proc := 1,
     proc_table := [idle_proc\<lparr>pfiles := one_fd\<rparr>]\<rparr>"

lemma one_file_simps [simp]:
  "current_proc one_file = 1" "vk one_file = one_page" "frefcnt (files one_file f) = 1"
  "proc_table one_file = [idle_proc\<lparr>pfiles := one_fd\<rparr>]"
  "proc_at one_file 1 = idle_proc\<lparr>pfiles := one_fd\<rparr>"
  by (simp_all add: one_file_def proc_at_def)

lemma one_file_ok: "fds_exact {# page_of (hhdm0 + 0x1000) #} one_file"
proof -
  have r: "refs one_file f = of_bool (f = 0x7000)" if "f \<noteq> 0" for f
    using that by (simp add: refs_def one_fd_def)
  have "page_of 0x7000 \<noteq> page_of (hhdm0 + 0x1000)" by (simp add: page_of_def hhdm0_def)
  moreover have "pg_aligned 0x7000" by (simp add: pg_aligned_def)
  ultimately show ?thesis
    using buddy_ok_one by (simp add: fds_exact_def counted_def r table_ok_def slot_ok_def one_fd_def)
qed


section \<open>Numbers beyond 32 bits\<close>

text \<open>
  A descriptor number that is one of the table only in its low 32 bits defeats \<^verbatim>\<open>dup2\<close>. Given a
  slot \<open>k\<close> whose file no other descriptor refers to, \<^verbatim>\<open>dup2\<close> from number \<open>2\<^sup>3\<^sup>2 + k\<close> to \<open>k\<close> takes the two
  for different descriptors, closes the file, whose page goes back to the allocator, and leaves the
  descriptor pointing to it.
\<close>

lemma dup2_keeps_freed_file:
  fixes s :: "'x procs_scheme"
  assumes "fds_exact F s" and "k < MAX_FDS" and "f = pfiles (proc_at s (current_proc s)) ! k"
    and "f \<noteq> 0" and "refs s f = 1"
  shows "\<exists>t F'. sys_dup2 (kernel_tables E A) (2 ^ 32 + word_of_nat k) (word_of_nat k) s = Some (word_of_nat k, t) \<and>
    buddy_ok (vk t) F' \<and> page_of f \<in># F' \<and> pfiles (proc_at t (current_proc t)) ! k = f"
proof -
  let ?p = "current_proc s"
  have c: "counted F (\<lambda>_. 0) s" and p: "slot_ok ?p s" "?p \<noteq> 0" and tab: "table_ok s"
    using assms(1) by (auto simp: fds_exact_def slot_ok_def counted_def)
  have k: "unat (word_of_nat k :: u64) = k" "(ucast (2 ^ 32 + word_of_nat k :: u64) :: i32) = word_of_nat k"
    "(2 ^ 32 + word_of_nat k :: u64) \<noteq> word_of_nat k" "\<not> word_of_nat MAX_FDS \<le> (word_of_nat k :: u64)"
    using assms(2) by (simp_all add: unat_of_nat_id word_le_nat_alt unsigned_ucast_eq word_unat_eq_iff
        unat_word_ariths take_bit_nat_eq_self take_bit_eq_mod)
  have get: "fd_get ?p (ucast (2 ^ 32 + word_of_nat k :: u64)) s = f"
    unfolding k(2) using small_fd(3) [OF assms(2)] assms(3) by simp
  have r: "0 < int (refs s f) + 0" "int (refs s f) + 0 = 1" using assms(5) by simp_all
  obtain s1 F' where s1: "vfs_close (kernel_tables E A) f s = Some (VFS_OK, s1)" "counted F' ((\<lambda>_. 0)(f := - 1)) s1"
    "proc_table s1 = proc_table s" "current_proc s1 = ?p" "page_of f \<in># F'"
    using kf.counted_close [where E = E and A = A, OF c assms(4) r(1)] r(2) by auto
  define t where "t = set_fd ?p k f (vfs_file_get f (set_fd ?p k 0 s1))"
  have "sys_dup2 (kernel_tables E A) (2 ^ 32 + word_of_nat k) (word_of_nat k) s = Some (word_of_nat k, t)"
    using p(2) k(1,3,4) assms(4) s1(1) get
    by (simp add: sys_dup2_def Let_def assms(3) [symmetric] t_def)
  moreover have "vk t = vk s1" "current_proc t = ?p"
    by (simp_all add: t_def vfs_file_get_def upd_file_def s1(4))
  moreover have "pfiles (proc_at t ?p) ! k = f"
    using p fds_length [OF tab p(1)] assms(2) s1(3)
    by (simp add: t_def vfs_file_get_def upd_file_def proc_at_def slot_ok_def)
  ultimately show ?thesis using s1(2,5) by (auto simp: counted_def)
qed

section \<open>The way back\<close>

text \<open>
  C40: the result of a system call does not reach the process. When the handler returns and leaves the sixteen
  saved words alone, the process continues with all its registers as they were at the \<^verbatim>\<open>syscall\<close>
  instruction: in RAX is the number of the call again, for every call and every result.
\<close>

theorem syscall_result_lost:
  assumes "syscall_entry H kernel_rsp r s = Some e" and "e = Sysret r' t"
    and "\<And>x. unat (x - (kernel_rsp - 128)) < 128 \<Longrightarrow>
      bytes_of t x = wr_words (bytes_of s) (kernel_rsp - 128) (entry_frame r) x"
  shows "r' = r"
proof -
  obtain out where "e = (case out of Returns v t \<Rightarrow> Sysret (popped (bytes_of t) (kernel_rsp - 128)) t | Leaves t \<Rightarrow> Gone t)"
    using assms(1) by (auto simp: syscall_entry_def Let_def Option.bind_eq_Some_conv)
  then have r': "r' = popped (bytes_of t) (kernel_rsp - 128)"
    using assms(2) by (cases out) auto
  have "row (wr_words (bytes_of s) (kernel_rsp - 128) (entry_frame r)) (kernel_rsp - 128) (entry_frame r)"
    by (rule row_wr) (simp add: entry_frame_def)
  then have "row (bytes_of t) (kernel_rsp - 128) (entry_frame r)"
    by (rule row_cong) (simp_all add: entry_frame_def assms(3) [unfolded entry_frame_def])
  then have "frame_word (bytes_of t) (kernel_rsp - 128) i = entry_frame r ! i" if "i < 16" for i
    using row_nth that by (simp add: entry_frame_def)
  then show ?thesis unfolding r' by (simp add: popped_def entry_frame_def)
qed

theorem syscall_result_lost_witness:
  "\<exists>t. syscall_entry (\<lambda>num a1 a2 a3 a4 a5 s. Some (Returns 42 s)) 0x9000 (gprs (tf_machine (zero_tf\<lparr>t_rax := 2\<rparr>)))
     one_file = Some (Sysret (gprs (tf_machine (zero_tf\<lparr>t_rax := 2\<rparr>))) t)"
proof -
  let ?H = "\<lambda>num a1 a2 a3 a4 a5 s. Some (Returns 42 s)" let ?r = "gprs (tf_machine (zero_tf\<lparr>t_rax := 2\<rparr>))"
  obtain r' t where e: "syscall_entry ?H 0x9000 ?r one_file = Some (Sysret r' t)"
    "bytes_of t = wr_words (bytes_of one_file) (0x9000 - 128) (entry_frame ?r)"
    by (simp add: syscall_entry_def Let_def upd_proc_def set_bytes_def)
  have "r' = ?r" by (rule syscall_result_lost [OF e(1) refl]) (simp add: e(2))
  then show ?thesis using e(1) by blast
qed

end
