(* ===== verification/Apic_Spec.thy ===== *)
theory Apic_Spec
  imports Apic Ext2_Spec
begin

text \<open>
  What the search for the controller table finds and what it misreads, the entries of the
  table as a list, and the redirection table that the register writes leave in the I/O
  controller.
\<close>

section \<open>The root tables\<close>

lemma ucast_nat: "ucast w = word_of_nat (unat w)"
  by (simp only: of_nat_unat)

text \<open>A word of eight bytes, read half a word too far.\<close>

lemma ld_bytes_lt: "ld_bytes m b n < 256 ^ n"
proof (induction n arbitrary: b)
  case (Suc n)
  have "unat (m b) < 256" using unat_lt [of "m b"] by simp
  then show ?case using Suc [of "b + 1"] unfolding ld_bytes.simps power_Suc by linarith
qed simp

lemma ld_bytes_append:
  "ld_bytes m b (i + n) = ld_bytes m b i + 256 ^ i * ld_bytes m (b + word_of_nat i) n"
  by (induction i arbitrary: b) (simp_all add: algebra_simps)

lemma ld_bytes_4:
  "ld_bytes m b 4 = unat (m b) + 256 * (unat (m (b + 1)) + 256 * (unat (m (b + 2)) + 256 * unat (m (b + 3))))"
proof -
  have 4: "(4 :: nat) = Suc (Suc (Suc (Suc 0)))" by simp
  have 3: "b + 1 + 1 = b + 2" "b + 2 + 1 = b + 3" by simp_all
  show ?thesis unfolding 4 ld_bytes.simps 3 by simp
qed

lemma ld_bytes_8: "ld_bytes m b 8 = ld_bytes m b 4 + 2 ^ 32 * ld_bytes m (b + 4) 4"
  using ld_bytes_append [of m b 4 4] by simp

lemma ld64_across: "ld64 m (a + 4) = push_bit 32 (ucast (ld32 m (a + 8))) OR drop_bit 32 (ld64 m a)"
proof -
  define lo where "lo = ld_bytes m a 4"
  define mid where "mid = ld_bytes m (a + 4) 4"
  define hi where "hi = ld_bytes m (a + 8) 4"
  have b: "lo < 2 ^ 32" "mid < 2 ^ 32" "hi < 2 ^ 32"
    using ld_bytes_lt [of _ _ 4] by (simp_all add: lo_def mid_def hi_def)
  let ?x = "drop_bit 32 (ld64 m a)" and ?h = "push_bit 32 (ucast (ld32 m (a + 8))) :: u64"
  have "unat (ld64 m a) = lo + 2 ^ 32 * mid"
    unfolding ld64_def ld_bytes_8 lo_def [symmetric] mid_def [symmetric]
    by (rule unat_of_nat_id) (use b in simp)
  then have x: "unat ?x = mid" using b(1) by (simp add: drop_bit_eq_div unat_div)
  have h: "?h = word_of_nat (2 ^ 32 * hi)"
    using b unfolding ld32_def hi_def [symmetric] ucast_nat [of "word_of_nat hi"]
    by (simp add: push_bit_eq_mult unat_of_nat_id)
  have "ld64 m (a + 4) = word_of_nat (mid + 2 ^ 32 * hi)"
    using ld_bytes_8 [of m "a + 4"] by (simp add: ld64_def mid_def hi_def add.assoc)
  also have "\<dots> = ?h + ?x" unfolding h by (simp flip: x)
  also have "\<dots> = ?h OR ?x"
    by (rule or_high [symmetric, where k = 32]) (use x b in \<open>simp_all add: take_bit_push_bit\<close>)
  finally show ?thesis .
qed

lemma sdt_loop_eq:
  "sdt_loop m entry n i found =
     last (found # filter (\<lambda>a. sig_eq m a (ascii ''APIC'')) (map (\<lambda>j. entry (i + word_of_nat j)) [0..<n]))"
proof (induction n arbitrary: i found)
  case (Suc n)
  have "map (\<lambda>j. entry (i + word_of_nat j)) [0..<Suc n] = entry i # map (\<lambda>j. entry (i + 1 + word_of_nat j)) [0..<n]"
    by (simp add: upt_conv_Cons map_Suc_upt [symmetric] ac_simps del: upt_Suc)
  then show ?case using Suc by simp
qed simp

text \<open>
  From a root pointer of revision 0 whose table address is followed by four zero bytes, the
  kernel takes the last controller table (signature \<^verbatim>\<open>APIC\<close>) that the root table lists, and keeps
  what it had when it lists none.
\<close>

lemma init_acpi_finds_madt:
  assumes "kbytes k (p + 15) < 2" "r = PHYS_TO_VIRT k (ld64 (kbytes k) (p + 16))"
    and "len = unat (h_length (kbytes k) r)" "36 \<le> len"
  shows "madt (init_acpi k p t) = last (madt t #
    filter (\<lambda>a. sig_eq (kbytes k) a (ascii ''APIC''))
      (map (\<lambda>i. PHYS_TO_VIRT k (ucast (ld32 (kbytes k) (r + 36 + 4 * word_of_nat i)))) [0..<(len - 36) div 4]))"
proof -
  let ?n = "ucast ((ucast (h_length (kbytes k) r) - 36) div 4 :: u64) :: u32"
  have l: "len < 2 ^ 32" using unat_lt [of "h_length (kbytes k) r"] assms(3) by simp
  have c: "unat (ucast (h_length (kbytes k) r) :: u64) = len"
    using l assms(3) by (simp add: unsigned_ucast_eq take_bit_nat_eq_self)
  then have "unat (ucast (h_length (kbytes k) r) - 36 :: u64) = len - 36"
    using assms(4) by (subst unat_sub) (simp_all add: word_le_nat_alt)
  then have "unat ((ucast (h_length (kbytes k) r) - 36) div 4 :: u64) = (len - 36) div 4" by (simp add: unat_div)
  then have n: "unat ?n = (len - 36) div 4"
    using l by (simp add: unsigned_ucast_eq take_bit_nat_eq_self)
  have "init_acpi k p t = t\<lparr>rsdp := p, rsdt := r,
      madt := sdt_loop (kbytes k) (rsdt_entry k r) (unat ?n) 0 (madt t)\<rparr>"
    using assms(1,2) by (simp add: init_acpi_def Let_def word_less_nat_alt word_le_nat_alt)
  then show ?thesis by (simp add: n sdt_loop_eq rsdt_entry_def [abs_def])
qed

text \<open>
  C38: with a root pointer of revision 2 or later the kernel misses the table it describes. The
  pointer holds the address of the extended root table in the eight bytes at 24; the kernel
  takes for it the high half of that address, with the checksum and reserved bytes that follow
  as its high half. The entries of an extended root table, eight bytes each from 36, are read
  across their borders in the same way.
\<close>

theorem init_acpi_misreads_root:
  assumes "2 \<le> kbytes k (p + 15)"
  shows "xsdt (init_acpi k p t) =
      PHYS_TO_VIRT k (push_bit 32 (ucast (ld32 (kbytes k) (p + 32))) OR drop_bit 32 (ld64 (kbytes k) (p + 24))) \<and>
    xsdt_entry k x i = PHYS_TO_VIRT k (push_bit 32 (ucast (ld32 (kbytes k) (x + 36 + 8 * (i + 1)))) OR
      drop_bit 32 (ld64 (kbytes k) (x + 36 + 8 * i)))"
proof -
  have "xsdt (init_acpi k p t) = PHYS_TO_VIRT k (ld64 (kbytes k) (p + 24 + 4))"
    using assms by (simp add: init_acpi_def Let_def add.assoc)
  moreover have "xsdt_entry k x i = PHYS_TO_VIRT k (ld64 (kbytes k) (x + 36 + 8 * i + 4))"
    by (simp add: xsdt_entry_def ac_simps)
  moreover have "p + 24 + 8 = p + 32" "x + 36 + 8 * i + 8 = x + 36 + 8 * (i + 1)" by (simp_all add: algebra_simps)
  ultimately show ?thesis unfolding ld64_across by simp
qed

definition extended_root :: mem where
  "extended_root a = (if a = 15 then 2 else if a = 26 then 0xFE else if a = 32 then 0x5A else 0)"

theorem init_acpi_misreads_root_witness:
  "ld64 extended_root 24 = 0xFE0000 \<and>
   xsdt (init_acpi (fresh_kmem\<lparr>kbytes := extended_root, khhdm := 0\<rparr>) 0
     \<lparr>rsdp = 0, xsdp = 0, rsdt = 0, xsdt = 0, madt = 0\<rparr>) = 0x5A00000000"
proof -
  let ?k = "fresh_kmem\<lparr>kbytes := extended_root, khhdm := 0\<rparr>"
  have m: "ld64 extended_root 24 = 0xFE0000" "ld32 extended_root 32 = 0x5A"
    by (simp_all add: ld64_def ld32_def ld_bytes_8 ld_bytes_4 extended_root_def)
  have "2 \<le> kbytes ?k (0 + 15)" by (simp add: extended_root_def)
  from init_acpi_misreads_root [OF this] show ?thesis by (simp add: m PHYS_TO_VIRT_def)
qed

section \<open>The entries of the controller table\<close>

text \<open>The entries from \<open>p\<close> to \<open>e\<close>: a type and the bytes behind the length byte.\<close>

fun madt_rows :: "mem \<Rightarrow> addr \<Rightarrow> addr \<Rightarrow> (u8 \<times> u8 list) list \<Rightarrow> bool" where
  "madt_rows m p e [] \<longleftrightarrow> p = e"
| "madt_rows m p e ((ty, b) # es) \<longleftrightarrow> p < e \<and> m p = ty \<and> length b < 254 \<and>
     m (p + 1) = word_of_nat (2 + length b) \<and> (\<forall>i < length b. m (p + 2 + word_of_nat i) = b ! i) \<and>
     madt_rows m (p + word_of_nat (2 + length b)) e es"

text \<open>An override has eight bytes: the bus, the line, the number and the flags.\<close>

definition is_iso :: "u8 \<times> u8 list \<Rightarrow> u8 \<Rightarrow> bool" where
  "is_iso r l \<longleftrightarrow> fst r = 2 \<and> snd r ! 1 = l"

definition iso_gsi :: "u8 list \<Rightarrow> u32" where
  "iso_gsi b = word_of_nat (unat (b ! 2) + 256 * (unat (b ! 3) + 256 * (unat (b ! 4) + 256 * unat (b ! 5))))"

definition gsi_of :: "(u8 \<times> u8 list) list \<Rightarrow> u8 \<Rightarrow> u32" where
  "gsi_of es l = (case find (\<lambda>r. is_iso r l) es of None \<Rightarrow> ucast l | Some r \<Rightarrow> iso_gsi (snd r))"

lemma iso_walk_rows:
  assumes "madt_rows m p e es" "\<forall>r \<in> set es. fst r = 2 \<longrightarrow> length (snd r) = 8"
  shows "iso_walk m p e l = Some (gsi_of es l)"
  using assms
proof (induction es arbitrary: p)
  case Nil
  then show ?case by (subst iso_walk.simps) (simp add: gsi_of_def)
next
  case (Cons r es)
  obtain ty b where r: "r = (ty, b)" by fastforce
  have p: "p < e" "m p = ty" "m (p + 1) = word_of_nat (2 + length b)" "length b < 254"
    "\<forall>i < length b. m (p + 2 + word_of_nat i) = b ! i" "madt_rows m (p + word_of_nat (2 + length b)) e es"
    using Cons.prems(1) by (simp_all add: r)
  have u: "unat (word_of_nat (2 + length b) :: u8) = 2 + length b" using p(4) by (intro unat_of_nat_id) simp
  then have nz: "m (p + 1) \<noteq> 0" unfolding p(3) by (metis add_is_0 unat_0 zero_neq_numeral)
  have step: "p + ucast (m (p + 1)) = p + word_of_nat (2 + length b)"
    unfolding p(3) ucast_nat [of "word_of_nat (2 + length b) :: u8"] u ..
  show ?case
  proof (cases "ty = 2")
    case False
    then have "iso_walk m p e l = Some (gsi_of es l)"
      using Cons.IH [OF p(6)] Cons.prems(2) p(1,2) nz by (subst iso_walk.simps) (simp add: step)
    then show ?thesis using False by (simp add: gsi_of_def is_iso_def r)
  next
    case True
    then have len: "length b = 8" using Cons.prems(2) by (simp add: r)
    have at: "m (p + 2 + word_of_nat i) = b ! i" if "i < 8" for i using p(5) that by (simp add: len)
    have src: "m (p + 3) = b ! 1" using at [of 1] by (simp add: add.assoc)
    have gsi: "ld32 m (p + 4) = iso_gsi b"
      using at [of 2] at [of 3] at [of 4] at [of 5]
      by (simp add: ld32_def iso_gsi_def ld_bytes_4 add.assoc)
    show ?thesis
    proof (cases "b ! 1 = l")
      case t: True
      then show ?thesis using p(1,2) nz True src gsi
        by (subst iso_walk.simps) (simp add: gsi_of_def is_iso_def r)
    next
      case f: False
      then have "iso_walk m p e l = Some (gsi_of es l)"
        using Cons.IH [OF p(6)] Cons.prems(2) p(1,2) nz src by (subst iso_walk.simps) (simp add: step)
      then show ?thesis using f by (simp add: gsi_of_def is_iso_def r)
    qed
  qed
qed

section \<open>The redirection table\<close>

text \<open>
  The registers behind the window at \<open>b\<close> after a history of accesses, from \<open>ini\<close> on: a write
  of the selector chooses the register that a write of the window sets.
\<close>

fun io_sel :: "addr \<Rightarrow> io_event list \<Rightarrow> u32" where
  "io_sel b (Wr32 a v # tr) = (if a = b then v else io_sel b tr)"
| "io_sel b (e # tr) = io_sel b tr"
| "io_sel b [] = 0"

fun io_regs :: "addr \<Rightarrow> (u32 \<Rightarrow> u32) \<Rightarrow> io_event list \<Rightarrow> u32 \<Rightarrow> u32" where
  "io_regs b ini (Wr32 a v # tr) r =
     (if a = b + 0x10 \<and> io_sel b tr = r then v else io_regs b ini tr r)"
| "io_regs b ini (e # tr) r = io_regs b ini tr r"
| "io_regs b ini [] r = ini r"

definition redir :: "(u32 \<Rightarrow> u32) \<Rightarrow> 'x apics_scheme \<Rightarrow> u32 \<Rightarrow> u32" where
  "redir ini s = io_regs (ioapic_base s) ini (io_trace s)"

lemma redir_write: "redir ini (ioapic_write r v s) = (redir ini s)(r := v)"
  by (rule ext) (simp add: redir_def ioapic_write_def mmio_write_def io_do_def)

lemma ioapic_write_same: "acpi (ioapic_write r v s) = acpi s" "vk (ioapic_write r v s) = vk s"
  by (simp_all add: ioapic_write_def mmio_write_def io_do_def)

lemma redtbl_apart: "IOAPIC_REDTBL_LO g \<noteq> IOAPIC_REDTBL_HI g"
  by (simp add: IOAPIC_REDTBL_LO_def IOAPIC_REDTBL_HI_def)

lemma redtbl_inj:
  assumes "unat g < 2 ^ 31" "unat h < 2 ^ 31"
  shows "IOAPIC_REDTBL_LO g = IOAPIC_REDTBL_LO h \<longleftrightarrow> g = h" "IOAPIC_REDTBL_HI g = IOAPIC_REDTBL_HI h \<longleftrightarrow> g = h"
    "IOAPIC_REDTBL_LO g \<noteq> IOAPIC_REDTBL_HI h"
proof -
  have d: "unat (x * 2) = 2 * unat x" if "unat x < 2 ^ 31" for x :: u32
    using that by (simp add: unat_word_ariths)
  have "g * 2 = h * 2 \<longleftrightarrow> g = h" using d [OF assms(1)] d [OF assms(2)] by (metis mult_cancel_left word_unat_eq_iff zero_neq_numeral)
  then show "IOAPIC_REDTBL_LO g = IOAPIC_REDTBL_LO h \<longleftrightarrow> g = h" "IOAPIC_REDTBL_HI g = IOAPIC_REDTBL_HI h \<longleftrightarrow> g = h"
    by (simp_all add: IOAPIC_REDTBL_LO_def IOAPIC_REDTBL_HI_def)
  have "g * 2 \<noteq> h * 2 + 1"
  proof
    assume e: "g * 2 = h * 2 + 1"
    have "unat (h * 2 + 1) = 2 * unat h + 1" using d [OF assms(2)] assms(2) by (simp add: unat_word_ariths)
    then show False using e d [OF assms(1)] by presburger
  qed
  then show "IOAPIC_REDTBL_LO g \<noteq> IOAPIC_REDTBL_HI h"
    by (simp add: IOAPIC_REDTBL_LO_def IOAPIC_REDTBL_HI_def add.assoc add.commute)
qed

text \<open>
  C35: routing a line through a well-formed controller table returns, and programs the entry that
  the table assigns to the line: the number of its first override, or the number of the line.
  The entry's low word becomes the vector, unmasked, its high word the destination in the top
  byte; the other registers of the controller keep their values.
\<close>

theorem ioapic_route_irq_spec:
  assumes "madt (acpi s) \<noteq> 0" "madt_rows (bytes_of s) (madt (acpi s) + 44) (madt_end (bytes_of s) (madt (acpi s))) es"
    and "\<forall>r \<in> set es. fst r = 2 \<longrightarrow> length (snd r) = 8"
  shows "\<exists>t. ioapic_route_irq l vector dest s = Some t \<and>
    redir ini t = (redir ini s)(IOAPIC_REDTBL_LO (gsi_of es l) := ucast vector,
      IOAPIC_REDTBL_HI (gsi_of es l) := push_bit 24 (ucast dest))"
proof -
  have "irq_to_gsi s l = Some (gsi_of es l)"
    using iso_walk_rows [OF assms(2,3)] assms(1) by (simp add: irq_to_gsi_def Let_def)
  then show ?thesis
    using redtbl_apart [of "gsi_of es l"] by (simp add: ioapic_route_irq_def redir_write fun_upd_twist)
qed

text \<open>A table with the usual override of the timer line, and its state.\<close>

definition madt_memory :: mem where
  "madt_memory a = (if a = 0x2004 then 54 else if a = 0x202C then 2 else if a = 0x202D then 10
     else if a = 0x2030 then 2 else 0)"

definition with_madt :: "mem \<Rightarrow> apics" where
  "with_madt m = ios.extend (procs.extend (boot_procs (fresh_kmem\<lparr>kbytes := m\<rparr>)) (ios.fields []))
     (apics.fields \<lparr>rsdp = 0, xsdp = 0, rsdt = 0, xsdt = 0, madt = 0x2000\<rparr> 0 0x8000)"

lemma with_madt_simps [simp]:
  "vk (with_madt m) = fresh_kmem\<lparr>kbytes := m\<rparr>" "madt (acpi (with_madt m)) = 0x2000"
  by (simp_all add: with_madt_def ios.defs apics.defs procs.defs)

lemma madt_memory_end: "madt_end madt_memory 0x2000 = 0x2036"
  by (simp add: madt_end_def h_length_def ld32_def ld_bytes_4 madt_memory_def)

theorem ioapic_route_irq_spec_witness:
  "\<exists>t. ioapic_route_irq 0 32 1 (with_madt madt_memory) = Some t \<and>
     redir (\<lambda>_. 0) t 0x14 = 32 \<and> redir (\<lambda>_. 0) t 0x15 = 0x1000000"
proof -
  let ?es = "[(2, [0, 0, 2, 0, 0, 0, 0, 0])] :: (u8 \<times> u8 list) list"
  have "madt_memory (0x202E + word_of_nat i) = [0, 0, 2, 0, 0, 0, 0, 0] ! i" if "i < 8" for i
  proof -
    have "i \<in> {0, 1, 2, 3, 4, 5, 6, 7}" using that by auto
    then show ?thesis by (elim insertE emptyE) (simp_all add: madt_memory_def)
  qed
  then have r: "madt_rows madt_memory 0x202C 0x2036 ?es" by (simp add: madt_memory_def)
  have "madt_rows (bytes_of (with_madt madt_memory)) (madt (acpi (with_madt madt_memory)) + 44)
      (madt_end (bytes_of (with_madt madt_memory)) (madt (acpi (with_madt madt_memory)))) ?es"
    using r by (simp add: madt_memory_end)
  moreover have "gsi_of ?es 0 = 2" by (simp add: gsi_of_def is_iso_def iso_gsi_def)
  ultimately obtain t where "ioapic_route_irq 0 32 1 (with_madt madt_memory) = Some t"
    "redir (\<lambda>_. 0) t = (redir (\<lambda>_. 0) (with_madt madt_memory))(0x14 := 32, 0x15 := 0x1000000)"
    using ioapic_route_irq_spec [of "with_madt madt_memory" ?es 0 32 1 "\<lambda>_. 0"]
    by (auto simp: IOAPIC_REDTBL_LO_def IOAPIC_REDTBL_HI_def)
  then show ?thesis by simp
qed

section \<open>Walks that do not end\<close>

lemma ioapic_walk_stuck:
  "m q = ty \<Longrightarrow> ty \<noteq> 1 \<Longrightarrow> m (q + 1) = 0 \<Longrightarrow> q < e \<Longrightarrow> ioapic_walk m q e = None"
proof -
  assume a: "m q = ty" "ty \<noteq> 1" "m (q + 1) = 0" "q < e"
  have "n = m \<longrightarrow> p = q \<longrightarrow> f = e \<longrightarrow> False" if "ioapic_walk n p f = Some r" for n p f r
    using that
  proof (rule ioapic_walk.raw_induct [rotated])
    fix w :: "mem \<Rightarrow> addr \<Rightarrow> addr \<Rightarrow> u32 option option" and n p f r
    assume "\<And>n p f r. w n p f = Some r \<Longrightarrow> n = m \<longrightarrow> p = q \<longrightarrow> f = e \<longrightarrow> False"
      "(if p < f then if n p = 1 then Some (Some (ld32 n (p + 4))) else w n (p + ucast (n (p + 1))) f
        else Some None) = Some r"
    then show "n = m \<longrightarrow> p = q \<longrightarrow> f = e \<longrightarrow> False" using a by (auto split: if_splits)
  qed
  then show ?thesis by (cases "ioapic_walk m q e") auto
qed

text \<open>
  A controller table whose first entry has length 0, and is not one of an I/O controller,
  stops the kernel at start: the walk that sets up the I/O controller never ends. The two other
  walks over the same table end there.
\<close>

lemma ioapic_init_hangs:
  assumes "madt (acpi s) \<noteq> 0" "m = bytes_of s" "p = madt (acpi s) + 44" "p < madt_end m (madt (acpi s))"
    and "m p \<noteq> 1" "m (p + 1) = 0"
  shows "ioapic_init E s = None \<and> irq_to_gsi s l = Some (ucast l) \<and>
    override_walk (vk s) p (madt_end m (madt (acpi s))) base = Some base"
proof -
  have "ioapic_walk m p (madt_end m (madt (acpi s))) = None"
    by (rule ioapic_walk_stuck [OF refl]) (use assms in simp_all)
  then have "ioapic_init E s = None" using assms by (simp add: ioapic_init_def Let_def)
  moreover have "irq_to_gsi s l = Some (ucast l)"
    using assms by (simp add: irq_to_gsi_def Let_def) (subst iso_walk.simps, simp)
  moreover have "override_walk (vk s) p (madt_end m (madt (acpi s))) base = Some base"
    using assms by (subst override_walk.simps) simp
  ultimately show ?thesis by blast
qed

end
