(* ===== verification/Pci.thy ===== *)
theory Pci
  imports Apic
begin

text \<open>
  Configuration space and device enumeration, after \<^verbatim>\<open>kernel/pci.c\<close>. A configuration access is a write
  of the address port and an access to the data port. The table of the functions found is a list;
  its length is \<^verbatim>\<open>pci_device_count\<close>. A configuration header is its sixteen words.
\<close>

record pci_device =
  d_bus :: u8
  d_slot :: u8
  d_func :: u8
  vendor_id :: u16
  device_id :: u16
  header_type :: u8
  int_line :: u8
  hdr :: "u32 list"

record pcis = apics +
  pci_devices :: "pci_device list"
  free_bus :: u8

abbreviation (input) MAX_PCI_DEVICES :: nat where "MAX_PCI_DEVICES \<equiv> 256"
abbreviation (input) PCI_CONFIG_ADDR :: u16 where "PCI_CONFIG_ADDR \<equiv> 0xCF8"
abbreviation (input) PCI_CONFIG_DATA :: u16 where "PCI_CONFIG_DATA \<equiv> 0xCFC"

section \<open>Configuration space\<close>

definition PCI_ADDR :: "u8 \<Rightarrow> u8 \<Rightarrow> u8 \<Rightarrow> u8 \<Rightarrow> u32" where
  "PCI_ADDR bus slot fn off =
     0x80000000 OR push_bit 16 (ucast bus) OR push_bit 11 (ucast slot) OR push_bit 8 (ucast fn) OR
     (ucast off AND 0xFC)"

definition pci_select :: "u8 \<Rightarrow> u8 \<Rightarrow> u8 \<Rightarrow> u8 \<Rightarrow> 'x ios_scheme \<Rightarrow> 'x ios_scheme" where
  "pci_select bus slot fn off = outl PCI_CONFIG_ADDR (PCI_ADDR bus slot fn off)"

definition pci_read32 :: "io_env \<Rightarrow> u8 \<Rightarrow> u8 \<Rightarrow> u8 \<Rightarrow> u8 \<Rightarrow> 'x ios_scheme \<Rightarrow> u32 \<times> 'x ios_scheme" where
  "pci_read32 E bus slot fn off s = inl E PCI_CONFIG_DATA (pci_select bus slot fn off s)"

definition pci_read8 :: "io_env \<Rightarrow> u8 \<Rightarrow> u8 \<Rightarrow> u8 \<Rightarrow> u8 \<Rightarrow> 'x ios_scheme \<Rightarrow> u8 \<times> 'x ios_scheme" where
  "pci_read8 E bus slot fn off s =
     (let (v, s1) = inl E PCI_CONFIG_DATA (pci_select bus slot fn off s)
      in (ucast (drop_bit (unat (off AND 3) * 8) v AND 0xFF), s1))"

definition pci_read16 :: "io_env \<Rightarrow> u8 \<Rightarrow> u8 \<Rightarrow> u8 \<Rightarrow> u8 \<Rightarrow> 'x ios_scheme \<Rightarrow> u16 \<times> 'x ios_scheme" where
  "pci_read16 E bus slot fn off s =
     (let (v, s1) = inl E PCI_CONFIG_DATA (pci_select bus slot fn off s)
      in (ucast (drop_bit (unat (off AND 2) * 8) v AND 0xFFFF), s1))"

definition pci_write32 :: "u8 \<Rightarrow> u8 \<Rightarrow> u8 \<Rightarrow> u8 \<Rightarrow> u32 \<Rightarrow> 'x ios_scheme \<Rightarrow> 'x ios_scheme" where
  "pci_write32 bus slot fn off v s = outl PCI_CONFIG_DATA v (pci_select bus slot fn off s)"

definition pci_write8 :: "io_env \<Rightarrow> u8 \<Rightarrow> u8 \<Rightarrow> u8 \<Rightarrow> u8 \<Rightarrow> u8 \<Rightarrow> 'x ios_scheme \<Rightarrow> 'x ios_scheme" where
  "pci_write8 E bus slot fn off v s =
     (let (d, s1) = inl E PCI_CONFIG_DATA (pci_select bus slot fn off s); sh = unat (off AND 3) * 8
      in outl PCI_CONFIG_DATA ((d AND NOT (push_bit sh 0xFF)) OR push_bit sh (ucast v)) s1)"

definition pci_write16 :: "io_env \<Rightarrow> u8 \<Rightarrow> u8 \<Rightarrow> u8 \<Rightarrow> u8 \<Rightarrow> u16 \<Rightarrow> 'x ios_scheme \<Rightarrow> 'x ios_scheme" where
  "pci_write16 E bus slot fn off v s =
     (let (d, s1) = inl E PCI_CONFIG_DATA (pci_select bus slot fn off s); sh = unat (off AND 2) * 8
      in outl PCI_CONFIG_DATA ((d AND NOT (push_bit sh 0xFFFF)) OR push_bit sh (ucast v)) s1)"

definition pci_read_bar :: "io_env \<Rightarrow> u8 \<Rightarrow> u8 \<Rightarrow> u8 \<Rightarrow> u8 \<Rightarrow> 'x ios_scheme \<Rightarrow> u64 \<times> 'x ios_scheme" where
  "pci_read_bar E bus slot fn bar s =
     (let off = 0x10 + bar * 4; (low, s1) = pci_read32 E bus slot fn off s in
      if low AND 6 = 4 then
        let (high, s2) = pci_read32 E bus slot fn (off + 4) s1
        in (push_bit 32 (ucast high) OR (ucast low AND NOT 0xF), s2)
      else (ucast low AND NOT 0xF, s1))"

section \<open>Capabilities\<close>

text \<open>The walk has no value on a list that does not end.\<close>

partial_function (option) cap_walk :: "io_env \<Rightarrow> u8 \<Rightarrow> u8 \<Rightarrow> u8 \<Rightarrow> u8 \<Rightarrow> u8 \<Rightarrow> 'x ios_scheme \<Rightarrow>
    (u8 \<times> 'x ios_scheme) option" where
  "cap_walk E bus slot fn cap p s =
     (if p \<noteq> 0 then
        let (i, s1) = pci_read8 E bus slot fn p s in
        if i = cap then Some (p, s1)
        else let (q, s2) = pci_read8 E bus slot fn (p + 1) s1
          in cap_walk E bus slot fn cap (q AND NOT 3) s2
      else Some (0, s))"

definition pci_find_cap :: "io_env \<Rightarrow> u8 \<Rightarrow> u8 \<Rightarrow> u8 \<Rightarrow> u8 \<Rightarrow> 'x ios_scheme \<Rightarrow>
    (u8 \<times> 'x ios_scheme) option" where
  "pci_find_cap E bus slot fn cap s =
     (let (status, s1) = pci_read16 E bus slot fn 6 s in
      if status AND 0x10 = 0 then Some (0, s1)
      else let (p, s2) = pci_read8 E bus slot fn 0x34 s1
        in cap_walk E bus slot fn cap (p AND NOT 3) s2)"

section \<open>Message-signalled interrupts\<close>

definition pci_msi_enable :: "io_env \<Rightarrow> pci_device \<Rightarrow> u8 \<Rightarrow> 'x ios_scheme \<Rightarrow> (i32 \<times> 'x ios_scheme) option" where
  "pci_msi_enable E d vector s =
     (let b = d_bus d; l = d_slot d; f = d_func d in do {
        (cap, s1) \<leftarrow> pci_find_cap E b l f 5 s;
        if cap = 0 then Some (- 1, s1)
        else
          let (ctrl, s2) = pci_read16 E b l f (cap + 2) s1;
              s3 = pci_write32 b l f (cap + 4) 0xFEE00000 s2;
              (off, s4) = (if ctrl AND 0x80 \<noteq> 0
                then (cap + 12, pci_write32 b l f (cap + 8) 0 s3) else (cap + 8, s3));
              s5 = pci_write16 E b l f off (ucast vector) s4;
              ctrl1 = (ctrl AND NOT 0x70) OR 1
          in Some (0, pci_write16 E b l f (cap + 2) ctrl1 s5)
      })"

definition pci_msi_disable :: "io_env \<Rightarrow> pci_device \<Rightarrow> 'x ios_scheme \<Rightarrow> 'x ios_scheme option" where
  "pci_msi_disable E d s =
     (let b = d_bus d; l = d_slot d; f = d_func d in do {
        (cap, s1) \<leftarrow> pci_find_cap E b l f 5 s;
        if cap = 0 then Some s1
        else let (ctrl, s2) = pci_read16 E b l f (cap + 2) s1
          in Some (pci_write16 E b l f (cap + 2) (ctrl AND NOT 1) s2)
      })"

section \<open>Enumeration\<close>

fun read_words :: "io_env \<Rightarrow> u8 \<Rightarrow> u8 \<Rightarrow> u8 \<Rightarrow> nat \<Rightarrow> u8 \<Rightarrow> 'x ios_scheme \<Rightarrow> u32 list \<times> 'x ios_scheme" where
  "read_words E bus slot fn 0 i s = ([], s)"
| "read_words E bus slot fn (Suc n) i s =
     (let (w, s1) = pci_read32 E bus slot fn (i * 4) s;
          (ws, s2) = read_words E bus slot fn n (i + 1) s1
      in (w # ws, s2))"

text \<open>The general and the bridge header have the same size.\<close>

definition pci_read_header :: "io_env \<Rightarrow> u8 \<Rightarrow> u8 \<Rightarrow> u8 \<Rightarrow> 'x ios_scheme \<Rightarrow> u32 list \<times> 'x ios_scheme" where
  "pci_read_header E bus slot fn = read_words E bus slot fn 16 0"

definition pci_bus_alloc :: "'x pcis_scheme \<Rightarrow> u8 \<times> 'x pcis_scheme" where
  "pci_bus_alloc s = (free_bus s, s\<lparr>free_bus := free_bus s + 1\<rparr>)"

definition upd_pci :: "nat \<Rightarrow> (pci_device \<Rightarrow> pci_device) \<Rightarrow> 'x pcis_scheme \<Rightarrow> 'x pcis_scheme" where
  "upd_pci i f s = s\<lparr>pci_devices := (pci_devices s)[i := f (pci_devices s ! i)]\<rparr>"

text \<open>Byte \<open>i\<close> of the sixth word of a bridge header: the bus numbers.\<close>

definition set_bus_byte :: "nat \<Rightarrow> u8 \<Rightarrow> pci_device \<Rightarrow> pci_device" where
  "set_bus_byte i v d = d\<lparr>hdr := (hdr d)[6 :=
     (hdr d ! 6 AND NOT (push_bit (8 * i) 0xFF)) OR push_bit (8 * i) (ucast v)]\<rparr>"

definition with_header :: "u32 list \<Rightarrow> pci_device \<Rightarrow> pci_device" where
  "with_header ws d = d\<lparr>hdr := ws, vendor_id := ucast (ws ! 0), device_id := ucast (drop_bit 16 (ws ! 0)),
     int_line := ucast (ws ! 15)\<rparr>"

definition log_bridge :: "u8 \<Rightarrow> u8 \<Rightarrow> u8 \<Rightarrow> u8 \<Rightarrow> 'x devs_scheme \<Rightarrow> 'x devs_scheme option" where
  "log_bridge bus slot fn secondary = log_args klog ''PCI'' (ascii ''bridge %u:%u.%u -> bus %u'')
     [Num (ucast bus), Num (ucast slot), Num (ucast fn), Num (ucast secondary)]"

definition log_endpoint :: "u8 \<Rightarrow> u8 \<Rightarrow> u8 \<Rightarrow> pci_device \<Rightarrow> 'x devs_scheme \<Rightarrow> 'x devs_scheme option" where
  "log_endpoint bus slot fn d = log_args klog ''PCI'' (ascii ''%u:%u.%u  vendor=%04X device=%04X class=%02x:%02x'')
     [Num (ucast bus), Num (ucast slot), Num (ucast fn), Num (ucast (vendor_id d)), Num (ucast (device_id d)),
      Num (ucast (drop_bit 24 (hdr d ! 2))), Num (ucast (drop_bit 16 (hdr d ! 2) AND 0xFF))]"

text \<open>A bridge: its numbers are set, the bus behind it is scanned by \<open>scan\<close>, its range is corrected.\<close>

definition scan_bridge :: "io_env \<Rightarrow> (u8 \<Rightarrow> 'x pcis_scheme \<Rightarrow> 'x pcis_scheme option) \<Rightarrow> u8 \<Rightarrow> u8 \<Rightarrow> u8 \<Rightarrow> nat \<Rightarrow>
    'x pcis_scheme \<Rightarrow> 'x pcis_scheme option" where
  "scan_bridge E scan bus slot fn i s =
     (let (ws, s1) = pci_read_header E bus slot fn s;
          (sec, s2) = pci_bus_alloc (upd_pci i (with_header ws) s1);
          s3 = upd_pci i (set_bus_byte 2 sec \<circ> set_bus_byte 1 sec \<circ> set_bus_byte 0 bus) s2;
          s4 = pci_write8 E bus slot fn 0x1A sec (pci_write8 E bus slot fn 0x19 sec
                 (pci_write8 E bus slot fn 0x18 bus s3))
      in do {
        s5 \<leftarrow> log_bridge bus slot fn sec s4;
        s6 \<leftarrow> scan sec s5;
        let (n, s7) = pci_bus_alloc s6;
        let sub = n - 1;
        Some (upd_pci i (set_bus_byte 2 sub) (pci_write8 E bus slot fn 0x1A sub s7))
      })"

definition scan_endpoint :: "io_env \<Rightarrow> u8 \<Rightarrow> u8 \<Rightarrow> u8 \<Rightarrow> nat \<Rightarrow> 'x pcis_scheme \<Rightarrow> 'x pcis_scheme option" where
  "scan_endpoint E bus slot fn i s =
     (let (ws, s1) = pci_read_header E bus slot fn s; s2 = upd_pci i (with_header ws) s1
      in log_endpoint bus slot fn (pci_devices s2 ! i) s2)"

definition new_function :: "u8 \<Rightarrow> u8 \<Rightarrow> u8 \<Rightarrow> u8 \<Rightarrow> pci_device" where
  "new_function bus slot fn htype = \<lparr>d_bus = bus, d_slot = slot, d_func = fn, vendor_id = 0, device_id = 0,
     header_type = htype, int_line = 0, hdr = replicate 16 0\<rparr>"

definition scan_function :: "io_env \<Rightarrow> (u8 \<Rightarrow> 'x pcis_scheme \<Rightarrow> 'x pcis_scheme option) \<Rightarrow> u8 \<Rightarrow> u8 \<Rightarrow> u8 \<Rightarrow>
    'x pcis_scheme \<Rightarrow> 'x pcis_scheme option" where
  "scan_function E scan bus slot fn s =
     (let (v, s1) = pci_read16 E bus slot fn 0 s in
      if v = 0xFFFF then Some s1
      else if MAX_PCI_DEVICES \<le> length (pci_devices s1) then Some s1
      else
        let i = length (pci_devices s1); (htype, s2) = pci_read8 E bus slot fn 0x0E s1;
            s3 = s2\<lparr>pci_devices := pci_devices s2 @ [new_function bus slot fn htype]\<rparr> in
        if htype AND 0x7F = 1 then scan_bridge E scan bus slot fn i s3
        else scan_endpoint E bus slot fn i s3)"

fun scan_functions :: "io_env \<Rightarrow> (u8 \<Rightarrow> 'x pcis_scheme \<Rightarrow> 'x pcis_scheme option) \<Rightarrow> u8 \<Rightarrow> u8 \<Rightarrow> u8 list \<Rightarrow>
    'x pcis_scheme \<Rightarrow> 'x pcis_scheme option" where
  "scan_functions E scan bus slot [] s = Some s"
| "scan_functions E scan bus slot (f # fs) s = do {
     s1 \<leftarrow> scan_function E scan bus slot f s;
     scan_functions E scan bus slot fs s1
   }"

definition scan_slot :: "io_env \<Rightarrow> (u8 \<Rightarrow> 'x pcis_scheme \<Rightarrow> 'x pcis_scheme option) \<Rightarrow> u8 \<Rightarrow> u8 \<Rightarrow>
    'x pcis_scheme \<Rightarrow> 'x pcis_scheme option" where
  "scan_slot E scan bus slot s =
     (let (v, s1) = pci_read16 E bus slot 0 0 s in
      if v = 0xFFFF then Some s1
      else do {
        s2 \<leftarrow> scan_function E scan bus slot 0 s1;
        let (htype, s3) = pci_read8 E bus slot 0 0x0E s2;
        if htype AND 0x80 \<noteq> 0 then scan_functions E scan bus slot [1, 2, 3, 4, 5, 6, 7] s3
        else Some s3
      })"

fun scan_slots :: "io_env \<Rightarrow> (u8 \<Rightarrow> 'x pcis_scheme \<Rightarrow> 'x pcis_scheme option) \<Rightarrow> u8 \<Rightarrow> nat \<Rightarrow> u8 \<Rightarrow>
    'x pcis_scheme \<Rightarrow> 'x pcis_scheme option" where
  "scan_slots E scan bus 0 slot s = Some s"
| "scan_slots E scan bus (Suc n) slot s = do {
     s1 \<leftarrow> scan_slot E scan bus slot s;
     scan_slots E scan bus n (slot + 1) s1
   }"

text \<open>
  The recursion goes one bus deeper for each bridge, and each bridge takes an entry of the
  table, so a depth above its size is never used up.
\<close>

fun pci_scan_bus :: "io_env \<Rightarrow> nat \<Rightarrow> u8 \<Rightarrow> 'x pcis_scheme \<Rightarrow> 'x pcis_scheme option" where
  "pci_scan_bus E 0 bus s = None"
| "pci_scan_bus E (Suc d) bus s = scan_slots E (pci_scan_bus E d) bus 32 0 s"

definition pci_scan :: "io_env \<Rightarrow> 'x pcis_scheme \<Rightarrow> 'x pcis_scheme option" where
  "pci_scan E = pci_scan_bus E (Suc MAX_PCI_DEVICES) 0"

end
