(* ===== verification/Pci_Spec.thy ===== *)
theory Pci_Spec
  imports Pci Apic_Spec Print_Spec
begin

text \<open>
  Configuration accesses on hardware that implements them as documented, the capability list
  as a chain, and the enumeration: it ends on any hardware, and on a machine without bridges
  finds the functions that are there.
\<close>

section \<open>The configuration address\<close>

lemma unat_PCI_ADDR:
  assumes "l < 32" "f < 8"
  shows "unat (PCI_ADDR b l f off) =
    2 ^ 31 + 65536 * unat b + 2048 * unat l + 256 * unat f + 4 * (unat off div 4)"
proof -
  have lf: "unat l < 32" "unat f < 8" "unat b < 256" "unat off < 256"
    using assms unat_lt [of b] unat_lt [of off] by (simp_all add: word_less_nat_alt)
  have c: "unat (ucast x :: u32) = unat x" for x :: u8
    using unat_lt [of x] by (simp add: unsigned_ucast_eq take_bit_nat_eq_self)
  have pb: "unat (push_bit 16 (ucast b) :: u32) = 65536 * unat b"
    "unat (push_bit 11 (ucast l) :: u32) = 2048 * unat l" "unat (push_bit 8 (ucast f) :: u32) = 256 * unat f"
    using lf by (simp_all add: push_bit_eq_mult unat_word_ariths c)
  have m: "unat (ucast off AND 0xFC :: u32) = 4 * (unat off div 4)"
  proof -
    have fc: "push_bit 2 (mask 6) = (0xFC :: u32)" by (simp add: mask_eq_exp_minus_1)
    have "x AND push_bit 2 (mask 6) = push_bit 2 (take_bit 6 (drop_bit 2 x))" for x :: u32
      by (rule bit_word_eqI) (auto simp: bit_simps dest!: le_Suc_ex)
    then have "ucast off AND (0xFC :: u32) = push_bit 2 (take_bit 6 (drop_bit 2 (ucast off)))"
      unfolding fc .
    moreover have "unat (take_bit 6 (drop_bit 2 (ucast off)) :: u32) = unat off div 4"
      using lf by (simp add: take_bit_eq_mod drop_bit_eq_div unat_div unat_mod c)
    ultimately show ?thesis using lf by (simp add: push_bit_eq_mult unat_word_ariths)
  qed
  let ?o = "ucast off AND 0xFC :: u32" and ?f = "push_bit 8 (ucast f) :: u32"
    and ?l = "push_bit 11 (ucast l) :: u32" and ?b = "push_bit 16 (ucast b) :: u32"
  have "PCI_ADDR b l f off = 0x80000000 OR (?b OR (?l OR (?f OR ?o)))"
    by (simp add: PCI_ADDR_def or.assoc)
  moreover have 1: "?f OR ?o = ?f + ?o"
    by (rule or_high [where k = 8]) (use lf in \<open>simp_all add: m take_bit_push_bit\<close>)
  have u1: "unat (?f + ?o) = 256 * unat f + 4 * (unat off div 4)" using lf by (simp add: unat_word_ariths pb m)
  have 2: "?l OR (?f + ?o) = ?l + (?f + ?o)"
    by (rule or_high [where k = 11]) (use lf in \<open>simp_all add: u1 take_bit_push_bit\<close>)
  have u2: "unat (?l + (?f + ?o)) = 2048 * unat l + (256 * unat f + 4 * (unat off div 4))"
    using lf by (subst unat_add_lt) (simp_all add: u1 pb)
  have 3: "?b OR (?l + (?f + ?o)) = ?b + (?l + (?f + ?o))"
    by (rule or_high [where k = 16]) (use lf in \<open>simp_all add: u2 take_bit_push_bit\<close>)
  have u3: "unat (?b + (?l + (?f + ?o))) = 65536 * unat b + (2048 * unat l + (256 * unat f + 4 * (unat off div 4)))"
    using lf by (subst unat_add_lt) (simp_all add: u2 pb)
  have 4: "0x80000000 OR (?b + (?l + (?f + ?o))) = 0x80000000 + (?b + (?l + (?f + ?o)))"
    by (rule or_high [where k = 31]) (use lf in \<open>simp_all add: u3\<close>)
  have "unat (0x80000000 + (?b + (?l + (?f + ?o)))) = 2 ^ 31 + (65536 * unat b + (2048 * unat l + (256 * unat f + 4 * (unat off div 4))))"
    using lf by (subst unat_add_lt) (simp_all add: u3)
  ultimately show ?thesis by (simp add: 1 2 3 4)
qed

lemma digit_unique: "y < n \<Longrightarrow> y' < n \<Longrightarrow> n * x + y = n * x' + y' \<longleftrightarrow> x = x' \<and> y = (y' :: nat)"
  by (metis add.commute add_diff_cancel_left' div_mult_self2 div_less mod_less mod_mult_self2 add_cancel_left_left
    gr_implies_not0)

lemma address_digits:
  "2 ^ 31 + 65536 * b + 2048 * l + 256 * f + 4 * q = (64 * (8 * (32 * b + l) + f) + q) * 4 + (2 ^ 31 :: nat)"
  by (simp add: algebra_simps)

lemma PCI_ADDR_inj:
  assumes "l < 32" "f < 8" "l' < 32" "f' < 8"
  shows "PCI_ADDR b l f off = PCI_ADDR b' l' f' off' \<longleftrightarrow>
    b = b' \<and> l = l' \<and> f = f' \<and> unat off div 4 = unat off' div 4"
proof -
  have n: "unat l < 32" "unat f < 8" "unat l' < 32" "unat f' < 8" "unat off div 4 < 64" "unat off' div 4 < 64"
    using assms unat_lt [of off] unat_lt [of off'] by (simp_all add: word_less_nat_alt)
  have "unat (PCI_ADDR b l f off) = unat (PCI_ADDR b' l' f' off') \<longleftrightarrow>
    64 * (8 * (32 * unat b + unat l) + unat f) + unat off div 4 =
    64 * (8 * (32 * unat b' + unat l') + unat f') + unat off' div 4"
    unfolding unat_PCI_ADDR [OF assms(1,2)] unat_PCI_ADDR [OF assms(3,4)] address_digits
    by (simp only: add_right_cancel mult_cancel2) simp
  also have "\<dots> \<longleftrightarrow> unat b = unat b' \<and> unat l = unat l' \<and> unat f = unat f' \<and> unat off div 4 = unat off' div 4"
    using n digit_unique by (metis (no_types, lifting))
  finally show ?thesis by (simp add: word_unat_eq_iff)
qed

section \<open>Configuration mechanism\<close>

text \<open>
  What the hardware documents of the two ports: the address port selects a word of the
  configuration space, the data port reads and writes it. \<open>cfg_of ini tr\<close> is the space after the
  history \<open>tr\<close>, from \<open>ini\<close> on.
\<close>

fun cfg_sel :: "io_event list \<Rightarrow> u32" where
  "cfg_sel (Out32 p v # tr) = (if p = 0xCF8 then v else cfg_sel tr)"
| "cfg_sel (e # tr) = cfg_sel tr"
| "cfg_sel [] = 0"

fun cfg_of :: "(u32 \<Rightarrow> u32) \<Rightarrow> io_event list \<Rightarrow> u32 \<Rightarrow> u32" where
  "cfg_of ini (Out32 p v # tr) a = (if p = 0xCFC \<and> cfg_sel tr = a then v else cfg_of ini tr a)"
| "cfg_of ini (e # tr) a = cfg_of ini tr a"
| "cfg_of ini [] a = ini a"

lemma cfg_of_start [simp]: "cfg_of ini [] = ini"
  by (rule ext) simp

definition mech1 :: "io_env \<Rightarrow> (u32 \<Rightarrow> u32) \<Rightarrow> bool" where
  "mech1 E ini \<longleftrightarrow> (\<forall>tr. in32 E tr 0xCFC = cfg_of ini tr (cfg_sel tr))"

abbreviation cfg :: "(u32 \<Rightarrow> u32) \<Rightarrow> 'x ios_scheme \<Rightarrow> u32 \<Rightarrow> u32" where
  "cfg ini s \<equiv> cfg_of ini (io_trace s)"

text \<open>A state that differs only in accesses that left the configuration space alone.\<close>

definition quiet :: "(u32 \<Rightarrow> u32) \<Rightarrow> 'x ios_scheme \<Rightarrow> 'x ios_scheme \<Rightarrow> bool" where
  "quiet ini s t \<longleftrightarrow> cfg ini t = cfg ini s \<and> (\<exists>tr. t = s\<lparr>io_trace := tr\<rparr>)"

lemma quiet_refl [simp]: "quiet ini s s"
  by (auto simp: quiet_def intro: exI [of _ "io_trace s"])

lemma quiet_trans: "quiet ini a b \<Longrightarrow> quiet ini b c \<Longrightarrow> quiet ini a c"
  by (auto simp: quiet_def)

named_theorems port_defs
declare io_do_def [port_defs] outl_def [port_defs] inl_def [port_defs] pci_select_def [port_defs]

lemma cfg_read:
  assumes "mech1 E ini"
  shows "\<exists>t. inl E 0xCFC (pci_select b l f off s) = (cfg ini s (PCI_ADDR b l f off), t) \<and> quiet ini s t \<and>
    cfg_sel (io_trace t) = PCI_ADDR b l f off"
  using assms by (auto simp: port_defs mech1_def quiet_def fun_eq_iff)

lemma cfg_write:
  "cfg ini (outl 0xCFC v t) = (cfg ini t)(cfg_sel (io_trace t) := v)"
  by (rule ext) (auto simp: port_defs)

lemma read8_eq:
  assumes "mech1 E ini"
  shows "\<exists>t. pci_read8 E b l f off s =
    (ucast (drop_bit (unat (off AND 3) * 8) (cfg ini s (PCI_ADDR b l f off)) AND 0xFF), t) \<and> quiet ini s t"
  using cfg_read [OF assms, of b l f off s] by (auto simp: pci_read8_def)

lemma read16_eq:
  assumes "mech1 E ini"
  shows "\<exists>t. pci_read16 E b l f off s =
    (ucast (drop_bit (unat (off AND 2) * 8) (cfg ini s (PCI_ADDR b l f off)) AND 0xFFFF), t) \<and> quiet ini s t"
  using cfg_read [OF assms, of b l f off s] by (auto simp: pci_read16_def)

lemma read32_eq:
  assumes "mech1 E ini"
  shows "\<exists>t. pci_read32 E b l f off s = (cfg ini s (PCI_ADDR b l f off), t) \<and> quiet ini s t"
  using cfg_read [OF assms, of b l f off s] by (auto simp: pci_read32_def)

lemma write8_cfg:
  assumes "mech1 E ini"
  shows "cfg ini (pci_write8 E b l f off v s) = (cfg ini s)(PCI_ADDR b l f off :=
    (cfg ini s (PCI_ADDR b l f off) AND NOT (push_bit (unat (off AND 3) * 8) 0xFF)) OR
    push_bit (unat (off AND 3) * 8) (ucast v))"
  using cfg_read [OF assms, of b l f off s] by (auto simp: pci_write8_def Let_def cfg_write quiet_def)

text \<open>Bytes of a word.\<close>

lemma low_two: "unat (off AND 3 :: u8) = unat off mod 4"
proof -
  have "off AND 3 = take_bit 2 off" by (simp add: take_bit_eq_mask mask_eq_exp_minus_1)
  then show ?thesis by (simp add: take_bit_eq_mod unat_mod)
qed

lemma byte_in_word:
  fixes d :: u32 and v :: u8
  assumes "i < 4" "j < 4"
  shows "(ucast (drop_bit (j * 8) ((d AND NOT (push_bit (i * 8) 0xFF)) OR push_bit (i * 8) (ucast v)) AND 0xFF) :: u8) =
    (if i = j then v else ucast (drop_bit (j * 8) d AND 0xFF))"
proof -
  have ff: "(0xFF :: u32) = mask 8" by (simp add: mask_eq_exp_minus_1)
  have "i \<in> {0, 1, 2, 3}" "j \<in> {0, 1, 2, 3}" using assms by auto
  then show ?thesis unfolding ff
    by (intro bit_word_eqI) (auto simp: bit_simps dest: bit_imp_le_length)
qed


text \<open>A configuration space of zeros behind the documented mechanism.\<close>

definition memory_hardware :: "(u32 \<Rightarrow> u32) \<Rightarrow> io_env" where
  "memory_hardware ini = \<lparr>in8 = (\<lambda>_ _. 0), in16 = (\<lambda>_ _. 0), in32 = (\<lambda>tr p. cfg_of ini tr (cfg_sel tr)),
     rd32 = (\<lambda>_ _. 0), dma = (\<lambda>_ m. m)\<rparr>"

lemma mech1_memory: "mech1 (memory_hardware ini) ini"
  by (simp add: mech1_def memory_hardware_def)

definition idle_ios :: ios where
  "idle_ios = procs.extend (boot_procs fresh_kmem) (ios.fields [])"


section \<open>The enumeration ends\<close>

lemma log_total:
  assumes "fmt = fmt_text ps" "list_all piece_ok ps" "list_all arg_ok args" "render ps args \<noteq> None"
    "length tag < 2 ^ 30"
  shows "\<exists>t. log_args klog tag fmt args s = Some (s\<lparr>dout := t\<rparr>)"
proof -
  obtain out where "render ps args = Some out" using assms(4) by blast
  then have "do_vprintf fmt args t = Some (emit out t)" for t
    using vprintf_ok [OF assms(2,3)] assms(1) by simp
  then show ?thesis
    using klog_prefix [of "[]" "[]" "ascii tag"] assms(5) by (auto simp add: log_args_def klog_def ascii_def)
qed

abbreviation plain_u :: piece where "plain_u \<equiv> Conv False False False 0 Uns"

lemmas fmt_eval = fmt_text_def ascii_def flag_text_def numeral_text_def digits.simps digit_char_def

lemma bridge_format:
  "ascii ''bridge %u:%u.%u -> bus %u'' = fmt_text (map Lit (ascii ''bridge '') @ plain_u # Lit 58 # plain_u # Lit 46 #
     plain_u # map Lit (ascii '' -> bus '') @ [plain_u])"
  by (simp add: fmt_eval)

lemma endpoint_format:
  "ascii ''%u:%u.%u  vendor=%04X device=%04X class=%02x:%02x'' = fmt_text (plain_u # Lit 58 # plain_u # Lit 46 #
     plain_u # map Lit (ascii ''  vendor='') @ Conv False True False 4 HexP # map Lit (ascii '' device='') @
     Conv False True False 4 HexP # map Lit (ascii '' class='') @ Conv False True False 2 Hex # Lit 58 #
     [Conv False True False 2 Hex])"
  by (simp add: fmt_eval)

lemma log_bridge_total: "\<exists>t. log_bridge b l f n s = Some (s\<lparr>dout := t\<rparr>)"
  unfolding log_bridge_def by (rule log_total [OF bridge_format]) (simp_all add: ascii_def)

lemma log_endpoint_total: "\<exists>t. log_endpoint b l f d s = Some (s\<lparr>dout := t\<rparr>)"
  unfolding log_endpoint_def by (rule log_total [OF endpoint_format]) (simp_all add: ascii_def)

text \<open>Accesses leave the table alone, whatever the hardware answers.\<close>

lemma pci_devices_io [simp]:
  "pci_devices (io_do e s) = pci_devices s" "free_bus (io_do e s) = free_bus s"
  by (simp_all add: io_do_def)

lemma pci_devices_access [simp]:
  fixes s :: "'a pcis_scheme"
  shows "pci_devices (snd (pci_read8 E b l f off s)) = pci_devices s"
    "pci_devices (snd (pci_read16 E b l f off s)) = pci_devices s"
    "pci_devices (snd (pci_read32 E b l f off s)) = pci_devices s"
    "pci_devices (pci_write8 E b l f off v s) = pci_devices s"
  by (simp_all add: pci_read8_def pci_read16_def pci_read32_def pci_write8_def Let_def split_beta inl_def outl_def
      pci_select_def)

lemma pci_devices_words [simp]: "pci_devices (snd (read_words E b l f n i s)) = pci_devices s"
  for s :: "'a pcis_scheme"
  by (induction n arbitrary: i s) (simp_all add: split_beta Let_def)

lemma length_upd_pci [simp]: "length (pci_devices (upd_pci i g s)) = length (pci_devices s)"
  by (simp add: upd_pci_def)

text \<open>The table grows, up to its size.\<close>

definition grows :: "'x pcis_scheme \<Rightarrow> 'x pcis_scheme \<Rightarrow> bool" where
  "grows s t \<longleftrightarrow> length (pci_devices s) \<le> length (pci_devices t) \<and> length (pci_devices t) \<le> 256"

definition scans_above :: "nat \<Rightarrow> (u8 \<Rightarrow> 'x pcis_scheme \<Rightarrow> 'x pcis_scheme option) \<Rightarrow> bool" where
  "scans_above n scan \<longleftrightarrow> (\<forall>b s. n < length (pci_devices s) \<longrightarrow> length (pci_devices s) \<le> 256 \<longrightarrow>
     (\<exists>t. scan b s = Some t \<and> grows s t))"

lemma scan_function_grows:
  assumes "scans_above n scan" "n \<le> length (pci_devices s)" "length (pci_devices s) \<le> 256"
  shows "\<exists>t. scan_function E scan b l f s = Some t \<and> grows s t"
proof -
  obtain v s1 where 1: "pci_read16 E b l f 0 s = (v, s1)" "pci_devices s1 = pci_devices s"
    using pci_devices_access(2) [of E b l f 0 s] by (metis prod.exhaust snd_conv)
  show ?thesis
  proof (cases "v = 0xFFFF \<or> 256 \<le> length (pci_devices s)")
    case True
    then show ?thesis using 1 assms(3) by (auto simp: scan_function_def Let_def grows_def)
  next
    case room: False
    let ?i = "length (pci_devices s)"
    obtain ht s2 where 2: "pci_read8 E b l f 0x0E s1 = (ht, s2)" "pci_devices s2 = pci_devices s"
      using pci_devices_access(1) [of E b l f "0x0E" s1] 1(2) by (metis prod.exhaust snd_conv)
    define s3 where "s3 = s2\<lparr>pci_devices := pci_devices s2 @ [new_function b l f ht]\<rparr>"
    have l3: "length (pci_devices s3) = Suc ?i" by (simp add: s3_def 2)
    have eq: "scan_function E scan b l f s =
        (if ht AND 0x7F = 1 then scan_bridge E scan b l f ?i s3 else scan_endpoint E b l f ?i s3)"
      using room 1 2 by (simp add: scan_function_def Let_def s3_def)
    obtain ws s4 where 4: "pci_read_header E b l f s3 = (ws, s4)" "pci_devices s4 = pci_devices s3"
      using pci_devices_words [of E b l f 16 0 s3] unfolding pci_read_header_def by (metis prod.exhaust snd_conv)
    show ?thesis
    proof (cases "ht AND 0x7F = 1")
      case False
      obtain u where "log_endpoint b l f (pci_devices (upd_pci ?i (with_header ws) s4) ! ?i)
          (upd_pci ?i (with_header ws) s4) = Some ((upd_pci ?i (with_header ws) s4)\<lparr>dout := u\<rparr>)"
        using log_endpoint_total by blast
      then show ?thesis using False eq 4 l3 room by (simp add: scan_endpoint_def grows_def)
    next
      case True
      obtain sec s5 where 5: "pci_bus_alloc (upd_pci ?i (with_header ws) s4) = (sec, s5)"
        "length (pci_devices s5) = Suc ?i"
        using 4(2) l3 by (simp add: pci_bus_alloc_def)
      define s6 where "s6 = pci_write8 E b l f 0x1A sec (pci_write8 E b l f 0x19 sec (pci_write8 E b l f 0x18 b
        (upd_pci ?i (set_bus_byte 2 sec \<circ> set_bus_byte 1 sec \<circ> set_bus_byte 0 b) s5)))"
      obtain u where u: "log_bridge b l f sec s6 = Some (s6\<lparr>dout := u\<rparr>)" using log_bridge_total by blast
      have "length (pci_devices (s6\<lparr>dout := u\<rparr>)) = Suc ?i" by (simp add: s6_def 5(2))
      then obtain t where t: "scan sec (s6\<lparr>dout := u\<rparr>) = Some t" "grows (s6\<lparr>dout := u\<rparr>) t"
        using assms(1) [unfolded scans_above_def, rule_format, of "s6\<lparr>dout := u\<rparr>" sec] assms(2) room by auto
      then show ?thesis
        using True eq 4(1) 5(1) u \<open>length (pci_devices (s6\<lparr>dout := u\<rparr>)) = Suc ?i\<close>
        unfolding s6_def by (simp add: scan_bridge_def Let_def pci_bus_alloc_def [of t] grows_def)
    qed
  qed
qed

lemma grows_trans: "grows a b \<Longrightarrow> grows b c \<Longrightarrow> grows a c"
  by (simp add: grows_def)

lemma scan_functions_grows:
  assumes "scans_above n scan" "n \<le> length (pci_devices s)" "length (pci_devices s) \<le> 256"
  shows "\<exists>t. scan_functions E scan b l fs s = Some t \<and> grows s t"
  using assms(2,3)
proof (induction fs arbitrary: s)
  case (Cons f fs)
  obtain s1 where 1: "scan_function E scan b l f s = Some s1" "grows s s1"
    using scan_function_grows [OF assms(1) Cons.prems] by blast
  then obtain t where "scan_functions E scan b l fs s1 = Some t" "grows s1 t"
    using Cons.IH [of s1] Cons.prems by (auto simp: grows_def)
  then show ?case using 1 grows_trans by auto
qed (simp add: grows_def)

lemma scan_slot_grows:
  assumes "scans_above n scan" "n \<le> length (pci_devices s)" "length (pci_devices s) \<le> 256"
  shows "\<exists>t. scan_slot E scan b l s = Some t \<and> grows s t"
proof -
  obtain v s1 where 1: "pci_read16 E b l 0 0 s = (v, s1)" "pci_devices s1 = pci_devices s"
    using pci_devices_access(2) [of E b l 0 0 s] by (metis prod.exhaust snd_conv)
  obtain s2 where 2: "scan_function E scan b l 0 s1 = Some s2" "grows s1 s2"
    using scan_function_grows [OF assms(1)] assms(2,3) 1(2) by metis
  obtain ht s3 where 3: "pci_read8 E b l 0 0x0E s2 = (ht, s3)" "pci_devices s3 = pci_devices s2"
    using pci_devices_access(1) [of E b l 0 "0x0E" s2] by (metis prod.exhaust snd_conv)
  have len: "n \<le> length (pci_devices s3)" "length (pci_devices s3) \<le> 256"
    using 1(2) 2(2) 3(2) assms(2) by (simp_all add: grows_def)
  obtain t where t: "scan_functions E scan b l [1, 2, 3, 4, 5, 6, 7] s3 = Some t" "grows s3 t"
    using scan_functions_grows [OF assms(1) len] by blast
  have "grows s s1" "grows s s3" "grows s t"
    using 1(2) 2(2) 3(2) t(2) assms(3) by (simp_all add: grows_def)
  then show ?thesis using 1(1) 2(1) 3(1) t(1) by (simp add: scan_slot_def)
qed

lemma scan_slots_grows:
  assumes "scans_above n scan" "n \<le> length (pci_devices s)" "length (pci_devices s) \<le> 256"
  shows "\<exists>t. scan_slots E scan b k l s = Some t \<and> grows s t"
  using assms(2,3)
proof (induction k arbitrary: l s)
  case (Suc k)
  obtain s1 where 1: "scan_slot E scan b l s = Some s1" "grows s s1"
    using scan_slot_grows [OF assms(1) Suc.prems] by blast
  then obtain t where "scan_slots E scan b k (l + 1) s1 = Some t" "grows s1 t"
    using Suc.IH [of s1 "l + 1"] Suc.prems by (auto simp: grows_def)
  then show ?case using 1 grows_trans by auto
qed (simp add: grows_def)

lemma pci_scan_bus_grows:
  fixes s :: "'a pcis_scheme"
  shows "256 < length (pci_devices s) + d \<Longrightarrow> length (pci_devices s) \<le> 256 \<Longrightarrow>
   \<exists>t. pci_scan_bus E d b s = Some t \<and> grows s t"
proof (induction d arbitrary: b s)
  case (Suc d)
  have "scans_above (length (pci_devices s)) (pci_scan_bus E d :: u8 \<Rightarrow> 'a pcis_scheme \<Rightarrow> _)"
    unfolding scans_above_def
  proof (intro allI impI)
    fix b' and s' :: "'a pcis_scheme"
    assume "length (pci_devices s) < length (pci_devices s')" "length (pci_devices s') \<le> 256"
    then show "\<exists>t. pci_scan_bus E d b' s' = Some t \<and> grows s' t"
      using Suc.prems(1) by (intro Suc.IH) simp_all
  qed
  then show ?case using scan_slots_grows Suc.prems(2) by fastforce
qed simp

text \<open>
  C33: the enumeration of all buses returns, whatever the hardware answers to the configuration
  reads, bridges behind bridges and buses in a circle included; the table of devices only
  grows and never beyond its 256 entries.
\<close>

theorem pci_scan_returns:
  assumes "length (pci_devices s) \<le> 256"
  shows "\<exists>t. pci_scan E s = Some t \<and> length (pci_devices s) \<le> length (pci_devices t) \<and>
    length (pci_devices t) \<le> 256"
  using pci_scan_bus_grows [of s "Suc 256" E 0] assms by (auto simp: pci_scan_def grows_def)

definition idle_pcis :: pcis where
  "idle_pcis = apics.extend (ios.extend idle_ios (apics.fields \<lparr>rsdp = 0, xsdp = 0, rsdt = 0, xsdt = 0, madt = 0\<rparr> 0 0))
     (pcis.fields [] 1)"

lemma idle_pcis_simps [simp]: "pci_devices idle_pcis = []" "io_trace idle_pcis = []"
  by (simp_all add: idle_pcis_def idle_ios_def apics.defs pcis.defs ios.defs procs.defs)

theorem pci_scan_returns_witness:
  "\<exists>t. pci_scan (memory_hardware (\<lambda>_. 0x10101)) idle_pcis = Some t \<and> length (pci_devices t) \<le> 256"
  using pci_scan_returns [of idle_pcis "memory_hardware (\<lambda>_. 0x10101)"] by auto

section \<open>The enumeration is complete\<close>

text \<open>
  The reference: the functions of a bus with the configuration space \<open>c\<close>, slot by slot, and the
  entry of each. A slot without function 0 is empty, and the other functions count only if
  function 0 says there are several.
\<close>

definition fn_present :: "(u32 \<Rightarrow> u32) \<Rightarrow> u8 \<Rightarrow> u8 \<Rightarrow> u8 \<Rightarrow> bool" where
  "fn_present c b l f \<longleftrightarrow> (ucast (c (PCI_ADDR b l f 0)) :: u16) \<noteq> 0xFFFF"

definition fn_htype :: "(u32 \<Rightarrow> u32) \<Rightarrow> u8 \<Rightarrow> u8 \<Rightarrow> u8 \<Rightarrow> u8" where
  "fn_htype c b l f = ucast (drop_bit 16 (c (PCI_ADDR b l f 0x0E)))"

definition fn_entry :: "(u32 \<Rightarrow> u32) \<Rightarrow> u8 \<Rightarrow> u8 \<Rightarrow> u8 \<Rightarrow> pci_device" where
  "fn_entry c b l f = with_header (map (\<lambda>i. c (PCI_ADDR b l f (word_of_nat i * 4))) [0..<16])
     (new_function b l f (fn_htype c b l f))"

definition slot_fns :: "(u32 \<Rightarrow> u32) \<Rightarrow> u8 \<Rightarrow> u8 \<Rightarrow> u8 list" where
  "slot_fns c b l =
     (if fn_present c b l 0
      then 0 # (if fn_htype c b l 0 AND 0x80 \<noteq> 0 then filter (fn_present c b l) [1, 2, 3, 4, 5, 6, 7] else [])
      else [])"

definition bus_entries :: "(u32 \<Rightarrow> u32) \<Rightarrow> u8 \<Rightarrow> nat \<Rightarrow> nat \<Rightarrow> pci_device list" where
  "bus_entries c b k n = concat (map (\<lambda>l. map (fn_entry c b (word_of_nat l)) (slot_fns c b (word_of_nat l))) [k..<k + n])"

definition no_bridge :: "(u32 \<Rightarrow> u32) \<Rightarrow> u8 \<Rightarrow> bool" where
  "no_bridge c b \<longleftrightarrow> (\<forall>l f. l < 32 \<longrightarrow> f < 8 \<longrightarrow> fn_present c b l f \<longrightarrow> fn_htype c b l f AND 0x7F \<noteq> 1)"

lemma ucast_low: "(ucast (x AND 0xFFFF :: u32) :: u16) = ucast x" "(ucast (x AND 0xFF :: u32) :: u8) = ucast x"
proof -
  have m: "mask 16 = (0xFFFF :: u32)" "mask 8 = (0xFF :: u32)" by (simp_all add: mask_eq_exp_minus_1)
  have "(ucast (x AND mask 16) :: u16) = ucast x" "(ucast (x AND mask 8) :: u8) = ucast x"
    by (auto intro!: bit_word_eqI simp: bit_simps)
  then show "(ucast (x AND 0xFFFF :: u32) :: u16) = ucast x" "(ucast (x AND 0xFF :: u32) :: u8) = ucast x"
    unfolding m .
qed

lemma quiet_cfg: "quiet ini s t \<Longrightarrow> cfg ini t = cfg ini s"
  by (simp add: quiet_def)

lemma quiet_pci: "quiet ini s t \<Longrightarrow> pci_devices t = pci_devices s"
  by (auto simp: quiet_def)

lemma read_vendor:
  assumes "mech1 E ini"
  shows "\<exists>v t. pci_read16 E b l f 0 s = (v, t) \<and> quiet ini s t \<and> (v = 0xFFFF \<longleftrightarrow> \<not> fn_present (cfg ini s) b l f)"
  using read16_eq [OF assms, of b l f 0 s] by (auto simp: fn_present_def ucast_low)

lemma read_htype:
  assumes "mech1 E ini"
  shows "\<exists>t. pci_read8 E b l f 0x0E s = (fn_htype (cfg ini s) b l f, t) \<and> quiet ini s t"
  using read8_eq [OF assms, of b l f "0x0E" s] by (auto simp: fn_htype_def ucast_low)

lemma read_words_eq:
  assumes "mech1 E ini"
  shows "\<exists>t. read_words E b l f n i s =
    (map (\<lambda>j. cfg ini s (PCI_ADDR b l f ((i + word_of_nat j) * 4))) [0..<n], t) \<and> quiet ini s t"
proof (induction n arbitrary: i s)
  case (Suc n)
  obtain t where t: "pci_read32 E b l f (i * 4) s = (cfg ini s (PCI_ADDR b l f (i * 4)), t)" "quiet ini s t"
    using read32_eq [OF assms] by blast
  obtain u where u: "read_words E b l f n (i + 1) t =
      (map (\<lambda>j. cfg ini t (PCI_ADDR b l f ((i + 1 + word_of_nat j) * 4))) [0..<n], u)" "quiet ini t u"
    using Suc by blast
  have "[0..<Suc n] = 0 # map Suc [0..<n]" by (simp add: map_Suc_upt upt_conv_Cons del: upt_Suc)
  then show ?case
    using t u quiet_trans [OF t(2) u(2)] quiet_cfg [OF t(2)] by (simp add: ac_simps del: upt_Suc)
qed simp

lemma scan_function_finds:
  assumes "mech1 E ini" "no_bridge (cfg ini s) b" "length (pci_devices s) < 256" "l < 32" "f < 8"
  shows "\<exists>t. scan_function E scan b l f s = Some t \<and> cfg ini t = cfg ini s \<and>
    pci_devices t = pci_devices s @ (if fn_present (cfg ini s) b l f then [fn_entry (cfg ini s) b l f] else [])"
proof -
  let ?c = "cfg ini s" and ?i = "length (pci_devices s)"
  obtain v s1 where 1: "pci_read16 E b l f 0 s = (v, s1)" "quiet ini s s1" "v = 0xFFFF \<longleftrightarrow> \<not> fn_present ?c b l f"
    using read_vendor [OF assms(1)] by blast
  show ?thesis
  proof (cases "fn_present ?c b l f")
    case False
    then show ?thesis using 1 quiet_cfg [OF 1(2)] quiet_pci [OF 1(2)] by (simp add: scan_function_def)
  next
    case True
    obtain s2 where 2: "pci_read8 E b l f 0x0E s1 = (fn_htype ?c b l f, s2)" "quiet ini s1 s2"
      using read_htype [OF assms(1), of b l f s1] quiet_cfg [OF 1(2)] by auto
    define s3 where "s3 = s2\<lparr>pci_devices := pci_devices s2 @ [new_function b l f (fn_htype ?c b l f)]\<rparr>"
    have c3: "cfg ini s3 = ?c" using quiet_cfg [OF 1(2)] quiet_cfg [OF 2(2)] by (simp add: s3_def)
    have d3: "pci_devices s3 = pci_devices s @ [new_function b l f (fn_htype ?c b l f)]"
      using quiet_pci [OF 1(2)] quiet_pci [OF 2(2)] by (simp add: s3_def)
    have "fn_htype ?c b l f AND 0x7F \<noteq> 1" using assms(2,4,5) True by (simp add: no_bridge_def)
    then have e: "scan_function E scan b l f s = scan_endpoint E b l f ?i s3"
      using True 1 2 assms(3) quiet_pci [OF 1(2)] by (simp add: scan_function_def Let_def s3_def)
    obtain s4 where 4: "pci_read_header E b l f s3 =
        (map (\<lambda>j. ?c (PCI_ADDR b l f (word_of_nat j * 4))) [0..<16], s4)" "quiet ini s3 s4"
      using read_words_eq [OF assms(1), of b l f 16 0 s3] c3 unfolding pci_read_header_def by auto
    define s5 where "s5 = upd_pci ?i (with_header (map (\<lambda>j. ?c (PCI_ADDR b l f (word_of_nat j * 4))) [0..<16])) s4"
    have d5: "pci_devices s5 = pci_devices s @ [fn_entry ?c b l f]"
      using quiet_pci [OF 4(2)] d3 by (simp add: s5_def upd_pci_def fn_entry_def nth_append)
    have c5: "cfg ini s5 = ?c" using quiet_cfg [OF 4(2)] c3 by (simp add: s5_def upd_pci_def)
    obtain u where "log_endpoint b l f (pci_devices s5 ! ?i) s5 = Some (s5\<lparr>dout := u\<rparr>)"
      using log_endpoint_total by blast
    then have "scan_endpoint E b l f ?i s3 = Some (s5\<lparr>dout := u\<rparr>)"
      using 4(1) by (simp add: scan_endpoint_def s5_def Let_def)
    then show ?thesis using e True c5 d5 by simp
  qed
qed

lemma scan_functions_finds:
  assumes "mech1 E ini" "no_bridge (cfg ini s) b" "length (pci_devices s) + length fs \<le> 256"
    and "l < 32" "\<forall>f \<in> set fs. f < 8"
  shows "\<exists>t. scan_functions E scan b l fs s = Some t \<and> cfg ini t = cfg ini s \<and>
    pci_devices t = pci_devices s @ map (fn_entry (cfg ini s) b l) (filter (fn_present (cfg ini s) b l) fs)"
  using assms(2,3,5)
proof (induction fs arbitrary: s)
  case (Cons f fs)
  obtain s1 where 1: "scan_function E scan b l f s = Some s1" "cfg ini s1 = cfg ini s"
    "pci_devices s1 = pci_devices s @ (if fn_present (cfg ini s) b l f then [fn_entry (cfg ini s) b l f] else [])"
    using scan_function_finds [OF assms(1) Cons.prems(1) _ assms(4), of f] Cons.prems(2,3) by fastforce
  then show ?case using Cons.IH [of s1] Cons.prems by (auto split: if_splits)
qed simp

lemma scan_slot_finds:
  assumes "mech1 E ini" "no_bridge (cfg ini s) b" "length (pci_devices s) + 8 \<le> 256" "l < 32"
  shows "\<exists>t. scan_slot E scan b l s = Some t \<and> cfg ini t = cfg ini s \<and>
    pci_devices t = pci_devices s @ map (fn_entry (cfg ini s) b l) (slot_fns (cfg ini s) b l)"
proof -
  let ?c = "cfg ini s"
  obtain v s1 where 1: "pci_read16 E b l 0 0 s = (v, s1)" "quiet ini s s1" "v = 0xFFFF \<longleftrightarrow> \<not> fn_present ?c b l 0"
    using read_vendor [OF assms(1)] by blast
  note q1 = quiet_cfg [OF 1(2)] quiet_pci [OF 1(2)]
  show ?thesis
  proof (cases "fn_present ?c b l 0")
    case False
    then show ?thesis using 1 q1 by (simp add: scan_slot_def slot_fns_def)
  next
    case True
    obtain s2 where 2: "scan_function E scan b l 0 s1 = Some s2" "cfg ini s2 = ?c"
      "pci_devices s2 = pci_devices s @ [fn_entry ?c b l 0]"
      using scan_function_finds [OF assms(1), of s1 b l 0 scan] assms(2-4) q1 True by auto
    obtain s3 where 3: "pci_read8 E b l 0 0x0E s2 = (fn_htype ?c b l 0, s3)" "quiet ini s2 s3"
      using read_htype [OF assms(1), of b l 0 s2] 2(2) by auto
    note q3 = quiet_cfg [OF 3(2)] quiet_pci [OF 3(2)]
    obtain t where t: "scan_functions E scan b l [1, 2, 3, 4, 5, 6, 7] s3 = Some t" "cfg ini t = ?c"
      "pci_devices t = pci_devices s3 @ map (fn_entry ?c b l) (filter (fn_present ?c b l) [1, 2, 3, 4, 5, 6, 7])"
      using scan_functions_finds [OF assms(1), of s3 b "[1, 2, 3, 4, 5, 6, 7]" l scan] assms(2-4) 2(2,3) q3
      by (auto simp: word_less_nat_alt)
    show ?thesis
      using 1(1,3) 2(1,2,3) 3(1) t q3 True by (simp add: scan_slot_def slot_fns_def del: filter.simps)
  qed
qed

lemma length_slot_fns: "length (slot_fns c b l) \<le> 8"
proof -
  have "length (filter (fn_present c b l) [1, 2, 3, 4, 5, 6, 7]) \<le> length [1 :: u8, 2, 3, 4, 5, 6, 7]"
    by (rule length_filter_le)
  then show ?thesis by (simp add: slot_fns_def del: filter.simps)
qed

lemma scan_slots_finds:
  assumes "mech1 E ini" "no_bridge (cfg ini s) b" "length (pci_devices s) + 8 * n \<le> 256" "k + n \<le> 32"
  shows "\<exists>t. scan_slots E scan b n (word_of_nat k) s = Some t \<and> cfg ini t = cfg ini s \<and>
    pci_devices t = pci_devices s @ bus_entries (cfg ini s) b k n"
  using assms(2-4)
proof (induction n arbitrary: k s)
  case (Suc n)
  let ?c = "cfg ini s"
  obtain s1 where 1: "scan_slot E scan b (word_of_nat k) s = Some s1" "cfg ini s1 = ?c"
    "pci_devices s1 = pci_devices s @ map (fn_entry ?c b (word_of_nat k)) (slot_fns ?c b (word_of_nat k))"
    using scan_slot_finds [OF assms(1) Suc.prems(1), of "word_of_nat k"] Suc.prems(2,3)
    by (fastforce simp: word_less_nat_alt unat_of_nat_id)
  have "length (pci_devices s1) + 8 * n \<le> 256"
    using 1(3) Suc.prems(2) length_slot_fns [of ?c b "word_of_nat k"] by simp
  then obtain t where "scan_slots E scan b n (word_of_nat (Suc k)) s1 = Some t" "cfg ini t = ?c"
    "pci_devices t = pci_devices s1 @ bus_entries ?c b (Suc k) n"
    using Suc.IH [of s1 "Suc k"] Suc.prems(1,3) 1(2) by auto
  moreover have "[k..<k + Suc n] = k # [Suc k..<Suc k + n]" by (simp add: upt_conv_Cons)
  ultimately show ?case using 1 by (simp add: bus_entries_def add.commute)
qed (simp add: bus_entries_def)



end
