(* ===== verification/Ata.thy ===== *)
theory Ata
  imports Pci
begin

text \<open>
  The IDE disk driver of \<^verbatim>\<open>kernel/ata.c\<close>: the programming of a transfer and its completion, the
  interrupt handler, the detection of a drive and the set-up. A pointer to entry \<open>i\<close> of \<^verbatim>\<open>channels\<close>
  is \<open>i + 1\<close>, as for the devices of the block layer. A polling loop that never sees the state it
  waits for has no value.
\<close>

record ata_channel =
  c_base :: u16
  c_ctrl :: u16
  bm_base :: u16
  prd :: addr
  prd_phys :: u64
  c_blk :: addr

record atas = pcis +
  channels :: "ata_channel list"

definition chan_at :: "'x atas_scheme \<Rightarrow> addr \<Rightarrow> ata_channel" where
  "chan_at s c = channels s ! (unat c - 1)"

definition upd_chan :: "addr \<Rightarrow> (ata_channel \<Rightarrow> ata_channel) \<Rightarrow> 'x atas_scheme \<Rightarrow> 'x atas_scheme" where
  "upd_chan c f s = s\<lparr>channels := (channels s)[unat c - 1 := f (chan_at s c)]\<rparr>"

abbreviation (input) BM_STATUS :: u16 where "BM_STATUS \<equiv> 2"
abbreviation (input) BM_PRDT :: u16 where "BM_PRDT \<equiv> 4"
abbreviation (input) ATA_SR_BSY :: u8 where "ATA_SR_BSY \<equiv> 0x80"

text \<open>\<^verbatim>\<open>while (inb(port) & ATA_SR_BSY);\<close>\<close>

partial_function (option) wait_bsy :: "io_env \<Rightarrow> u16 \<Rightarrow> 'x ios_scheme \<Rightarrow> 'x ios_scheme option" where
  "wait_bsy E port s =
     (let (v, s1) = inb E port s in if v AND ATA_SR_BSY \<noteq> 0 then wait_bsy E port s1 else Some s1)"

section \<open>A transfer\<close>

text \<open>The one entry of the descriptor table: address, byte count and end mark.\<close>

definition fill_prd :: "addr \<Rightarrow> u64 \<Rightarrow> u32 \<Rightarrow> mem \<Rightarrow> mem" where
  "fill_prd p buf_pa bytes m =
     st16 (st16 (st32 m p (ucast buf_pa)) (p + 4) (if bytes = 65536 then 0 else ucast bytes)) (p + 6) 0x8000"

definition task_file :: "u16 \<Rightarrow> u64 \<Rightarrow> u32 \<Rightarrow> 'x ios_scheme \<Rightarrow> 'x ios_scheme" where
  "task_file base lba cnt s =
     (let s1 = outb (base + 2) (ucast (drop_bit 8 cnt)) s;
          s2 = outb (base + 3) (ucast (drop_bit 24 lba)) s1;
          s3 = outb (base + 4) (ucast (drop_bit 32 lba)) s2;
          s4 = outb (base + 5) (ucast (drop_bit 40 lba)) s3;
          s5 = outb (base + 2) (ucast cnt) s4;
          s6 = outb (base + 3) (ucast lba) s5;
          s7 = outb (base + 4) (ucast (drop_bit 8 lba)) s6
      in outb (base + 5) (ucast (drop_bit 16 lba)) s7)"

partial_function (option) bm_poll :: "io_env \<Rightarrow> u16 \<Rightarrow> 'x ios_scheme \<Rightarrow> (u8 \<times> 'x ios_scheme) option" where
  "bm_poll E port s =
     (let (v, s1) = inb E port s in if v AND 6 = 0 then bm_poll E port s1 else Some (v, s1))"

definition bm_setup :: "io_env \<Rightarrow> ata_channel \<Rightarrow> u8 \<Rightarrow> 'x ios_scheme \<Rightarrow> 'x ios_scheme" where
  "bm_setup E c bm_cmd s =
     (let s1 = outb (bm_base c) 0 s;
          (v, s2) = inb E (bm_base c + BM_STATUS) s1;
          s3 = outb (bm_base c + BM_STATUS) (v OR 2 OR 4) s2;
          s4 = outl (bm_base c + BM_PRDT) (ucast (prd_phys c)) s3
      in outb (bm_base c) bm_cmd s4)"

definition ata_submit :: "io_env \<Rightarrow> 'x atas_scheme \<Rightarrow> addr \<Rightarrow> addr \<Rightarrow> (i32 \<times> 'x atas_scheme) option" where
  "ata_submit E s dev r =
     (let ch = bpriv (dev_at s dev); c = chan_at s ch; q = breqs s r; lba = rq_lba q; cnt = rq_count q;
          buf_pa = VIRT_TO_PHYS (vk s) (rq_buf q); bytes = cnt * sector_size (dev_at s dev);
          s1 = set_bytes (fill_prd (prd c) buf_pa bytes (bytes_of s)) s;
          bm_cmd = (if rq_write q \<noteq> 0 then 0 else 8);
          line = (if ch = 1 then 14 else 15);
          cmd = (if rq_write q \<noteq> 0 then 0x35 else 0x25)
      in do {
        s2 \<leftarrow> wait_bsy E (c_ctrl c) (bm_setup E c bm_cmd s1);
        s3 \<leftarrow> ioapic_mask_irq E line (task_file (c_base c) lba cnt (outb (c_base c + 6) 0xE0 s2));
        let s4 = outb (bm_base c) (bm_cmd OR 1) (outb (c_base c + 7) cmd s3);
        (bm_status, s5) \<leftarrow> bm_poll E (bm_base c + BM_STATUS) s4;
        let s6 = outb (bm_base c + BM_STATUS) bm_status (outb (bm_base c) 0 (dma_arrive E s5));
        let (_, s7) = inb E (c_base c + 7) s6;
        s8 \<leftarrow> ioapic_unmask_irq E line (lapic_eoi s7);
        Some (0, blk_complete dev (if bm_status AND 2 \<noteq> 0 then - 1 else 0) s8)
      })"

definition ata_irq_handler :: "io_env \<Rightarrow> nat \<Rightarrow> 'x atas_scheme \<Rightarrow> 'x atas_scheme" where
  "ata_irq_handler E channel s =
     (let c = channels s ! channel;
          (status, s1) = inb E (bm_base c + BM_STATUS) s;
          s2 = outb (bm_base c) 0 (outb (bm_base c + BM_STATUS) status s1);
          (_, s3) = inb E (c_base c + 7) s2;
          err = (if status AND 2 \<noteq> 0 then - 1 else 0)
      in if c_blk c \<noteq> 0 then blk_complete (c_blk c) err s3 else s3)"

section \<open>Detection\<close>

definition alt_delay :: "io_env \<Rightarrow> u16 \<Rightarrow> 'x ios_scheme \<Rightarrow> 'x ios_scheme" where
  "alt_delay E port s = (let r = \<lambda>t. snd (inb E port t) in r (r (r (r s))))"

text \<open>Data or an error; the result says whether there are data.\<close>

partial_function (option) wait_drq :: "io_env \<Rightarrow> u16 \<Rightarrow> 'x ios_scheme \<Rightarrow> (bool \<times> 'x ios_scheme) option" where
  "wait_drq E port s =
     (let (v, s1) = inb E port s in
      if v AND 8 \<noteq> 0 then Some (True, s1)
      else if v AND 1 \<noteq> 0 then Some (False, s1)
      else wait_drq E port s1)"

fun read_data :: "io_env \<Rightarrow> u16 \<Rightarrow> nat \<Rightarrow> 'x ios_scheme \<Rightarrow> u16 list \<times> 'x ios_scheme" where
  "read_data E port 0 s = ([], s)"
| "read_data E port (Suc n) s =
     (let (w, s1) = inw E port s; (ws, s2) = read_data E port n s1 in (w # ws, s2))"

definition ata_identify_poll :: "io_env \<Rightarrow> ata_channel \<Rightarrow> 'x ios_scheme \<Rightarrow> (i32 \<times> 'x ios_scheme) option" where
  "ata_identify_poll E c s = do {
     s1 \<leftarrow> wait_bsy E (c_ctrl c) s;
     let s2 = alt_delay E (c_ctrl c) (outb (c_base c + 6) 0xA0 s1);
     let s3 = outb (c_base c + 7) 0xEC (outb (c_base c + 5) 0 (outb (c_base c + 4) 0
                (outb (c_base c + 3) 0 (outb (c_base c + 2) 0 s2))));
     let (status, s4) = inb E (c_ctrl c) (alt_delay E (c_ctrl c) s3);
     if status = 0 \<or> status = 0xFF then Some (- 1, s4)
     else do {
       s5 \<leftarrow> wait_bsy E (c_ctrl c) s4;
       let (l1, s6) = inb E (c_base c + 4) s5;
       let (l2, s7) = (if l1 \<noteq> 0 then (0, s6) else inb E (c_base c + 5) s6);
       if l1 \<noteq> 0 \<or> l2 \<noteq> 0 then Some (- 1, s7)
       else do {
         (ready, s8) \<leftarrow> wait_drq E (c_base c + 7) s7;
         if ready then Some (0, snd (read_data E (c_base c) 256 s8)) else Some (- 1, s8)
       }
     }
   }"

section \<open>Set-up\<close>

definition dev_class :: "pci_device \<Rightarrow> u8 \<times> u8" where
  "dev_class d = (ucast (drop_bit 24 (hdr d ! 2)), ucast (drop_bit 16 (hdr d ! 2)))"

text \<open>The first device of the table with a class and subclass.\<close>

definition find_class :: "u8 \<Rightarrow> u8 \<Rightarrow> 'x pcis_scheme \<Rightarrow> pci_device option" where
  "find_class cl sub s = find (\<lambda>d. dev_class d = (cl, sub)) (pci_devices s)"

definition set_channels :: "u16 \<Rightarrow> 'x atas_scheme \<Rightarrow> 'x atas_scheme" where
  "set_channels bm s = upd_chan 2 (\<lambda>c. c\<lparr>c_base := 0x170, c_ctrl := 0x376, bm_base := bm + 8\<rparr>)
     (upd_chan 1 (\<lambda>c. c\<lparr>c_base := 0x1F0, c_ctrl := 0x3F6, bm_base := bm\<rparr>) s)"

text \<open>The loop over the channels has one round: \<open>ops\<close> is the address of \<^verbatim>\<open>ata_submit\<close>.\<close>

definition channel_init :: "io_env \<Rightarrow> addr \<Rightarrow> 'x atas_scheme \<Rightarrow> 'x atas_scheme option" where
  "channel_init E ops s = do {
     (p, s1) \<leftarrow> alloc_pages (upd_chan 1 (\<lambda>c. c\<lparr>c_blk := 0\<rparr>) s) 1;
     let s2 = upd_chan 1 (\<lambda>c. c\<lparr>prd := p\<rparr>) s1;
     if p = 0 then Some s2
     else do {
       let s3 = upd_chan 1 (\<lambda>c. c\<lparr>prd_phys := VIRT_TO_PHYS (vk s2) p\<rparr>) s2;
       let bm = bm_base (chan_at s3 1) + BM_STATUS;
       let (v, s4) = inb E bm s3;
       (rc, s5) \<leftarrow> ata_identify_poll E (chan_at s4 1) (outb bm (v OR 0x20) s4);
       if rc \<noteq> 0 then log_args klog ''ATA'' (ascii ''no drive on channel %d'') [Num 0] s5
       else do {
         let (d, s6) = blk_register (ascii ''ata0'') ops 512 1 s5;
         let s7 = upd_chan 1 (\<lambda>c. c\<lparr>c_blk := d\<rparr>) s6;
         if d \<noteq> 0 then log_args klog_ok ''ATA'' (ascii ''disk %s'') [Str (Some (ascii ''ata0''))] s7 else Some s7
       }
     }
   }"

definition ata_init :: "io_env \<Rightarrow> addr \<Rightarrow> 'x atas_scheme \<Rightarrow> 'x atas_scheme option" where
  "ata_init E ops s =
     (case find_class 1 1 s of
        None \<Rightarrow> log_with klog ''ATA'' (ascii ''no IDE controller found'') s
      | Some d \<Rightarrow> do {
          s1 \<leftarrow> log_args klog ''ATA'' (ascii ''IDE controller at %u:%u'') [Num (ucast (d_bus d)), Num (ucast (d_slot d))] s;
          let (cmd, s2) = pci_read16 E (d_bus d) (d_slot d) (d_func d) 4 s1;
          let (bar4, s3) = pci_read32 E (d_bus d) (d_slot d) (d_func d) 0x20
                (pci_write16 E (d_bus d) (d_slot d) (d_func d) 4 (cmd OR 4) s2);
          channel_init E ops (set_channels (ucast (bar4 AND NOT 3)) s3)
        })"

end
