(* ===== verification/Ahci.thy ===== *)
theory Ahci
  imports Ata
begin

text \<open>
  The SATA disk driver of \<^verbatim>\<open>kernel/ahci.c\<close> and \<^verbatim>\<open>kernel/ahci.h\<close>: starting and stopping a port, its
  command list and tables in memory, the commands the driver builds there, the identification
  of a disk, the interrupt handler and the set-up. The registers of the controller are reached
  through the history of accesses; arrays indexed by port and slot are functions of the C index.
\<close>

record ahci_port_info =
  info_sector_size :: u32
  sector_count :: u64
  model :: "u8 list"

record ahcis = atas +
  ahci_dev :: "pci_device option"
  hba :: addr
  ahci_sata_port :: addr
  ahci_sata_info :: ahci_port_info
  cmd_lists :: "i32 \<Rightarrow> addr"
  fis_areas :: "i32 \<Rightarrow> addr"
  cmd_tables :: "i32 \<Rightarrow> i32 \<Rightarrow> addr"
  port_info :: "i32 \<Rightarrow> ahci_port_info"
  port_blk :: "i32 \<Rightarrow> addr"

text \<open>The registers of a port, from its address on.\<close>

abbreviation (input) P_CLB :: addr where "P_CLB \<equiv> 0"
abbreviation (input) P_FB :: addr where "P_FB \<equiv> 8"
abbreviation (input) P_IS :: addr where "P_IS \<equiv> 0x10"
abbreviation (input) P_IE :: addr where "P_IE \<equiv> 0x14"
abbreviation (input) P_CMD :: addr where "P_CMD \<equiv> 0x18"
abbreviation (input) P_TFD :: addr where "P_TFD \<equiv> 0x20"
abbreviation (input) P_SIG :: addr where "P_SIG \<equiv> 0x24"
abbreviation (input) P_SSTS :: addr where "P_SSTS \<equiv> 0x28"
abbreviation (input) P_SCTL :: addr where "P_SCTL \<equiv> 0x2C"
abbreviation (input) P_SERR :: addr where "P_SERR \<equiv> 0x30"
abbreviation (input) P_SACT :: addr where "P_SACT \<equiv> 0x34"
abbreviation (input) P_CI :: addr where "P_CI \<equiv> 0x38"

abbreviation (input) CMD_ST :: u32 where "CMD_ST \<equiv> 1"
abbreviation (input) CMD_FRE :: u32 where "CMD_FRE \<equiv> 0x10"
abbreviation (input) CMD_FR :: u32 where "CMD_FR \<equiv> 0x4000"
abbreviation (input) CMD_CR :: u32 where "CMD_CR \<equiv> 0x8000"
abbreviation (input) IS_TFES :: u32 where "IS_TFES \<equiv> 0x40000000"

section \<open>Registers\<close>

definition modify_reg :: "io_env \<Rightarrow> addr \<Rightarrow> (u32 \<Rightarrow> u32) \<Rightarrow> 'x ios_scheme \<Rightarrow> 'x ios_scheme" where
  "modify_reg E a f s = (let (v, s1) = mmio_read E a s in mmio_write a (f v) s1)"

text \<open>A loop on a register while a condition on its value holds.\<close>

partial_function (option) wait_while :: "io_env \<Rightarrow> addr \<Rightarrow> (u32 \<Rightarrow> bool) \<Rightarrow> 'x ios_scheme \<Rightarrow> 'x ios_scheme option" where
  "wait_while E a busy s = (let (v, s1) = mmio_read E a s in if busy v then wait_while E a busy s1 else Some s1)"

section \<open>Starting and stopping a port\<close>

definition ahci_port_stop :: "io_env \<Rightarrow> addr \<Rightarrow> 'x ios_scheme \<Rightarrow> 'x ios_scheme option" where
  "ahci_port_stop E p s = do {
     s1 \<leftarrow> wait_while E (p + P_CMD) (\<lambda>v. v AND CMD_CR \<noteq> 0) (modify_reg E (p + P_CMD) (\<lambda>v. v AND NOT CMD_ST) s);
     wait_while E (p + P_CMD) (\<lambda>v. v AND CMD_FR \<noteq> 0) (modify_reg E (p + P_CMD) (\<lambda>v. v AND NOT CMD_FRE) s1)
   }"

definition ahci_port_start :: "io_env \<Rightarrow> addr \<Rightarrow> 'x ios_scheme \<Rightarrow> 'x ios_scheme option" where
  "ahci_port_start E p s = do {
     s1 \<leftarrow> wait_while E (p + P_CMD) (\<lambda>v. v AND CMD_CR \<noteq> 0) s;
     Some (modify_reg E (p + P_CMD) (\<lambda>v. v OR CMD_ST) (modify_reg E (p + P_CMD) (\<lambda>v. v OR CMD_FRE) s1))
   }"

definition ahci_port_reset :: "io_env \<Rightarrow> addr \<Rightarrow> 'x ios_scheme \<Rightarrow> 'x ios_scheme option" where
  "ahci_port_reset E p s = do {
     s1 \<leftarrow> ahci_port_stop E p s;
     let s2 = modify_reg E (p + P_SCTL) (\<lambda>v. (v AND NOT 0xF) OR 1) s1;
     s3 \<leftarrow> wait_while E (p + P_SSTS) (\<lambda>v. v AND 0xF \<noteq> 3) (modify_reg E (p + P_SCTL) (\<lambda>v. v AND NOT 0xF) s2);
     ahci_port_start E p (modify_reg E (p + P_SERR) (\<lambda>v. v) s3)
   }"

definition get_port_num :: "'x ahcis_scheme \<Rightarrow> addr \<Rightarrow> i32" where
  "get_port_num s p = ucast ((p - (hba s + 0x100)) div 0x80)"

definition port_at :: "'x ahcis_scheme \<Rightarrow> i32 \<Rightarrow> addr" where
  "port_at s i = hba s + 0x100 + 0x80 * scast i"

section \<open>The memory of a port\<close>

definition zeroed_page :: "'x vfs_scheme \<Rightarrow> (addr \<times> 'x vfs_scheme) option" where
  "zeroed_page s = do {
     (p, s1) \<leftarrow> alloc_pages s 1;
     Some (p, if p = 0 then s1 else set_bytes (memset (bytes_of s1) p 0 PAGE_SIZE) s1)
   }"

text \<open>A physical address in two registers, and in the two words of a command header.\<close>

definition set_base :: "addr \<Rightarrow> u64 \<Rightarrow> 'x ios_scheme \<Rightarrow> 'x ios_scheme" where
  "set_base a phys s = mmio_write (a + 4) (ucast (drop_bit 32 phys)) (mmio_write a (ucast phys) s)"

abbreviation (input) hdr_at :: "addr \<Rightarrow> i32 \<Rightarrow> addr" where "hdr_at cl slot \<equiv> cl + 32 * scast slot"

definition set_table :: "addr \<Rightarrow> u64 \<Rightarrow> mem \<Rightarrow> mem" where
  "set_table h phys m = st32 (st32 m (h + 8) (ucast phys)) (h + 12) (ucast (drop_bit 32 phys))"

text \<open>The loop over the slots from \<open>slot\<close> on, with \<open>n\<close> rounds to go; the result says whether all
  tables were there.\<close>

fun alloc_tables :: "i32 \<Rightarrow> addr \<Rightarrow> nat \<Rightarrow> i32 \<Rightarrow> 'x ahcis_scheme \<Rightarrow> (bool \<times> 'x ahcis_scheme) option" where
  "alloc_tables pn cl 0 slot s = Some (True, s)"
| "alloc_tables pn cl (Suc n) slot s = do {
     (t, s1) \<leftarrow> zeroed_page s;
     if t = 0 then Some (False, s1)
     else
       let s2 = s1\<lparr>cmd_tables := (cmd_tables s1)(pn := (cmd_tables s1 pn)(slot := t))\<rparr>;
           s3 = set_bytes (set_table (hdr_at cl slot) (VIRT_TO_PHYS (vk s2) t) (bytes_of s2)) s2
       in alloc_tables pn cl n (slot + 1) s3
   }"

definition ahci_port_init :: "io_env \<Rightarrow> addr \<Rightarrow> 'x ahcis_scheme \<Rightarrow> (i32 \<times> 'x ahcis_scheme) option" where
  "ahci_port_init E p s = do {
     let pn = get_port_num s p;
     s1 \<leftarrow> ahci_port_stop E p s;
     (cl, s2) \<leftarrow> zeroed_page s1;
     if cl = 0 then Some (- 1, s2)
     else do {
       let s3 = set_base (p + P_CLB) (VIRT_TO_PHYS (vk s2) cl) (s2\<lparr>cmd_lists := (cmd_lists s2)(pn := cl)\<rparr>);
       (fis, s4) \<leftarrow> zeroed_page s3;
       if fis = 0 then Some (- 1, s4)
       else do {
         let s5 = set_base (p + P_FB) (VIRT_TO_PHYS (vk s4) fis) (s4\<lparr>fis_areas := (fis_areas s4)(pn := fis)\<rparr>);
         (ok, s6) \<leftarrow> alloc_tables pn cl 32 0 s5;
         if \<not> ok then Some (- 1, s6)
         else do {
           s7 \<leftarrow> ahci_port_start E p (modify_reg E (p + P_SERR) (\<lambda>v. v) (modify_reg E (p + P_IS) (\<lambda>v. v) s6));
           Some (0, s7)
         }
       }
     }
   }"

section \<open>Detection, and the choice of a slot\<close>

definition ahci_port_type :: "io_env \<Rightarrow> addr \<Rightarrow> 'x ios_scheme \<Rightarrow> i32 \<times> 'x ios_scheme" where
  "ahci_port_type E p s =
     (let (ssts, s1) = mmio_read E (p + P_SSTS) s in
      if ssts AND 0xF \<noteq> 3 then (0, s1)
      else if drop_bit 8 ssts AND 0xF \<noteq> 1 then (0, s1)
      else let (sig, s2) = mmio_read E (p + P_SIG) s1 in
        (if sig = 0x00000101 then 1 else if sig = 0xEB140101 then 2
         else if sig = 0xC33C0101 then 3 else if sig = 0x96690101 then 4 else 0, s2))"

text \<open>The loop over the bits from \<open>i\<close> on, with \<open>n\<close> rounds to go.\<close>

fun free_bit :: "u32 \<Rightarrow> nat \<Rightarrow> nat \<Rightarrow> i32" where
  "free_bit slots 0 i = - 1"
| "free_bit slots (Suc n) i = (if slots AND push_bit i 1 = 0 then word_of_nat i else free_bit slots n (Suc i))"

definition ahci_find_slot :: "io_env \<Rightarrow> addr \<Rightarrow> 'x ios_scheme \<Rightarrow> i32 \<times> 'x ios_scheme" where
  "ahci_find_slot E p s =
     (let (sact, s1) = mmio_read E (p + P_SACT) s; (ci, s2) = mmio_read E (p + P_CI) s1
      in (free_bit (sact OR ci) 32 0, s2))"

section \<open>Issuing a command\<close>

definition ahci_submit_dma :: "io_env \<Rightarrow> addr \<Rightarrow> i32 \<Rightarrow> 'x ios_scheme \<Rightarrow> 'x ios_scheme option" where
  "ahci_submit_dma E p slot s = do {
     s1 \<leftarrow> wait_while E (p + P_TFD) (\<lambda>v. v AND (0x80 OR 8) \<noteq> 0) s;
     Some (mmio_write (p + P_CI) (push_bit (unat slot) 1) s1)
   }"

text \<open>Whether the slot was freed before a task file error was seen.\<close>

partial_function (option) ci_poll :: "io_env \<Rightarrow> addr \<Rightarrow> i32 \<Rightarrow> 'x ios_scheme \<Rightarrow> (bool \<times> 'x ios_scheme) option" where
  "ci_poll E p slot s =
     (let (ci, s1) = mmio_read E (p + P_CI) s in
      if ci AND push_bit (unat slot) 1 = 0 then Some (True, s1)
      else let (st, s2) = mmio_read E (p + P_IS) s1 in
        if st AND IS_TFES \<noteq> 0 then Some (False, s2) else ci_poll E p slot s2)"

definition ahci_issue_poll :: "io_env \<Rightarrow> addr \<Rightarrow> i32 \<Rightarrow> 'x ios_scheme \<Rightarrow> (i32 \<times> 'x ios_scheme) option" where
  "ahci_issue_poll E p slot s = do {
     s1 \<leftarrow> wait_while E (p + P_TFD) (\<lambda>v. v AND (0x80 OR 8) \<noteq> 0) s;
     (freed, s2) \<leftarrow> ci_poll E p slot (mmio_write (p + P_CI) (push_bit (unat slot) 1) s1);
     let s3 = dma_arrive E s2;
     if \<not> freed then Some (- 1, s3)
     else let (st, s4) = mmio_read E (p + P_IS) s3 in Some (if st AND IS_TFES \<noteq> 0 then - 1 else 0, s4)
   }"

definition ahci_port_clear_interrupts :: "addr \<Rightarrow> 'x ios_scheme \<Rightarrow> 'x ios_scheme" where
  "ahci_port_clear_interrupts p = mmio_write (p + P_IS) (- 1)"

section \<open>Commands in memory\<close>

text \<open>The bit fields of the header: the length of the command in words, and the direction.\<close>

definition fill_header :: "addr \<Rightarrow> u8 \<Rightarrow> mem \<Rightarrow> mem" where
  "fill_header h wr m =
     (let m1 = m(h := (m h AND NOT 0x1F) OR 5);
          m2 = m1(h := (m1 h AND NOT 0x40) OR push_bit 6 (wr AND 1))
      in st16 m2 (h + 2) 1)"

definition fill_prdt :: "addr \<Rightarrow> u64 \<Rightarrow> u32 \<Rightarrow> mem \<Rightarrow> mem" where
  "fill_prdt e buf dbc m =
     (let m1 = st32 m e (ucast buf);
          m2 = st32 m1 (e + 4) (ucast (drop_bit 32 buf));
          m3 = st32 m2 (e + 12) ((ld32 m2 (e + 12) AND NOT 0x3FFFFF) OR (dbc AND 0x3FFFFF))
      in st32 m3 (e + 12) (ld32 m3 (e + 12) OR 0x80000000))"

definition fis_set_lba48 :: "addr \<Rightarrow> u64 \<Rightarrow> mem \<Rightarrow> mem" where
  "fis_set_lba48 f lba m = m(f + 4 := ucast lba, f + 5 := ucast (drop_bit 8 lba), f + 6 := ucast (drop_bit 16 lba),
     f + 8 := ucast (drop_bit 24 lba), f + 9 := ucast (drop_bit 32 lba), f + 10 := ucast (drop_bit 40 lba))"

abbreviation (input) prdt_at :: "addr \<Rightarrow> addr" where "prdt_at tbl \<equiv> tbl + 0x80"

definition identify_command :: "addr \<Rightarrow> addr \<Rightarrow> u64 \<Rightarrow> mem \<Rightarrow> mem" where
  "identify_command h tbl buf m =
     (fill_prdt (prdt_at tbl) buf 511 (fill_header h 0 m))(tbl := 0x27, tbl + 1 := 0x80, tbl + 2 := 0xEC, tbl + 7 := 0)"

definition rw_command :: "addr \<Rightarrow> addr \<Rightarrow> u64 \<Rightarrow> u32 \<Rightarrow> blk_request \<Rightarrow> mem \<Rightarrow> mem" where
  "rw_command h tbl buf bytes q m =
     (let m1 = fill_prdt (prdt_at tbl) buf (bytes - 1) (fill_header h (rq_write q) m);
          m2 = m1(tbl := 0x27, tbl + 1 := 0x80, tbl + 2 := if rq_write q \<noteq> 0 then 0x35 else 0x25);
          m3 = (fis_set_lba48 tbl (rq_lba q) m2)(tbl + 7 := 0x40)
      in st16 m3 (tbl + 12) (ucast (rq_count q)))"

section \<open>Identification\<close>

fun swap_model :: "mem \<Rightarrow> addr \<Rightarrow> nat \<Rightarrow> u8 list" where
  "swap_model m a 0 = []"
| "swap_model m a (Suc n) = m (a + 1) # m a # swap_model m (a + 2) n"

text \<open>The loop that clears trailing spaces, down from index \<open>j - 1\<close>.\<close>

fun trim_model :: "nat \<Rightarrow> u8 list \<Rightarrow> u8 list" where
  "trim_model 0 md = md"
| "trim_model (Suc j) md = (if md ! j = 0x20 then trim_model j (md[j := 0]) else md)"

definition identified_size :: "mem \<Rightarrow> addr \<Rightarrow> u32" where
  "identified_size m a =
     (let w106 = ld16 m (a + 212) in
      if w106 AND 0x4000 \<noteq> 0 \<and> w106 AND 0x8000 = 0
      then (if w106 AND 0x1000 \<noteq> 0 then ld32 m (a + 234) * 2 else 512)
      else 512)"

definition ahci_parse_identify :: "mem \<Rightarrow> addr \<Rightarrow> ahci_port_info" where
  "ahci_parse_identify m a = \<lparr>info_sector_size = identified_size m a, sector_count = ld64 m (a + 200),
     model = trim_model 40 (swap_model m (a + 54) 20 @ [0])\<rparr>"

definition ahci_get_sector_size :: "'x ahcis_scheme \<Rightarrow> addr \<Rightarrow> u32" where
  "ahci_get_sector_size s p = info_sector_size (port_info s (get_port_num s p))"

definition ahci_identify :: "io_env \<Rightarrow> addr \<Rightarrow> addr \<Rightarrow> 'x ahcis_scheme \<Rightarrow> (i32 \<times> 'x ahcis_scheme) option" where
  "ahci_identify E p buf s =
     (let pn = get_port_num s p; (slot, s1) = ahci_find_slot E p (ahci_port_clear_interrupts p s) in
      if slot <s 0 then Some (- 1, s1)
      else ahci_issue_poll E p slot
        (set_bytes (identify_command (hdr_at (cmd_lists s1 pn) slot) (cmd_tables s1 pn slot)
           (VIRT_TO_PHYS (vk s1) buf) (bytes_of s1)) s1))"

section \<open>Requests and interrupts\<close>

definition ahci_submit :: "io_env \<Rightarrow> 'x ahcis_scheme \<Rightarrow> addr \<Rightarrow> addr \<Rightarrow> (i32 \<times> 'x ahcis_scheme) option" where
  "ahci_submit E s dev r =
     (let p = bpriv (dev_at s dev); pn = get_port_num s p; q = breqs s r;
          ss = (let z = info_sector_size (port_info s pn) in if z = 0 then 512 else z);
          (slot, s1) = ahci_find_slot E p (ahci_port_clear_interrupts p s) in
      if slot <s 0 then Some (- 1, s1)
      else do {
        s2 \<leftarrow> ahci_submit_dma E p slot
          (set_bytes (rw_command (hdr_at (cmd_lists s1 pn) slot) (cmd_tables s1 pn slot)
             (VIRT_TO_PHYS (vk s1) (rq_buf q)) (rq_count q * ss) q (bytes_of s1)) s1);
        Some (0, s2)
      })"

text \<open>The loop of the handler from port \<open>i\<close> on, with \<open>n\<close> rounds to go.\<close>

fun port_irqs :: "io_env \<Rightarrow> u32 \<Rightarrow> nat \<Rightarrow> i32 \<Rightarrow> 'x ahcis_scheme \<Rightarrow> 'x ahcis_scheme" where
  "port_irqs E global_is 0 i s = s"
| "port_irqs E global_is (Suc n) i s =
     (if global_is AND push_bit (unat i) 1 = 0 then port_irqs E global_is n (i + 1) s
      else
        let p = port_at s i; (port_is, s1) = mmio_read E (p + P_IS) s;
            s2 = mmio_write (hba s + 8) (push_bit (unat i) 1) (mmio_write (p + P_IS) port_is s1);
            status = (if port_is AND IS_TFES \<noteq> 0 then - 1 else 0)
        in port_irqs E global_is n (i + 1)
          (if port_blk s2 i \<noteq> 0 then blk_complete (port_blk s2 i) status s2 else s2))"

definition ahci_irq_handler :: "io_env \<Rightarrow> 'x ahcis_scheme \<Rightarrow> 'x ahcis_scheme" where
  "ahci_irq_handler E s =
     (let (global_is, s1) = mmio_read E (hba s + 8) (dma_arrive E s) in port_irqs E global_is 32 0 s1)"

section \<open>Set-up\<close>

definition ahci_name :: "i32 \<Rightarrow> cstr" where
  "ahci_name i = ascii ''ahci'' @ [0x30 + ucast i]"

text \<open>A disk that answered the identification.\<close>

definition register_disk :: "addr \<Rightarrow> i32 \<Rightarrow> addr \<Rightarrow> addr \<Rightarrow> 'x ahcis_scheme \<Rightarrow> 'x ahcis_scheme option" where
  "register_disk ops i p buf s =
     (let pn = get_port_num s p; info = ahci_parse_identify (bytes_of s) buf;
          s1 = s\<lparr>port_info := (port_info s)(pn := info)\<rparr>;
          s2 = (if p = ahci_sata_port s1 then s1\<lparr>ahci_sata_info := info\<rparr> else s1);
          (d, s3) = blk_register (ahci_name i) ops (info_sector_size info) p s2;
          s4 = s3\<lparr>port_blk := (port_blk s3)(i := d)\<rparr>;
          mb = ucast (sector_count info * ucast (info_sector_size info) div 0x100000) :: u32
      in if d \<noteq> 0 then log_args klog_ok ''AHCI'' (ascii ''disk %s  %s  %u MB'')
           [Str (Some (ahci_name i)), Str (Some (takeWhile (\<lambda>c. c \<noteq> 0) (model info))), Num (ucast mb)] s4
         else Some s4)"

definition disk_init :: "io_env \<Rightarrow> addr \<Rightarrow> i32 \<Rightarrow> addr \<Rightarrow> 'x ahcis_scheme \<Rightarrow> 'x ahcis_scheme option" where
  "disk_init E ops i p s = do {
     (rc, s1) \<leftarrow> ahci_port_init E p s;
     if rc <s 0 then log_args klog_fail ''AHCI'' (ascii ''failed to init port %d'') [Num (scast i)] s1
     else do {
       let s2 = (if ahci_sata_port s1 = 0 then s1\<lparr>ahci_sata_port := p\<rparr> else s1);
       (buf, s3) \<leftarrow> alloc_pages (mmio_write (p + P_IE) (1 OR 0x40000000) s2) 1;
       if buf = 0 then Some s3
       else do {
         (rc1, s4) \<leftarrow> ahci_identify E p buf s3;
         s5 \<leftarrow> (if rc1 = 0 then register_disk ops i p buf s4 else Some s4);
         free_pages_at s5 buf 1
       }
     }
   }"

fun ports_init :: "io_env \<Rightarrow> addr \<Rightarrow> u32 \<Rightarrow> nat \<Rightarrow> i32 \<Rightarrow> 'x ahcis_scheme \<Rightarrow> 'x ahcis_scheme option" where
  "ports_init E ops pi 0 i s = Some s"
| "ports_init E ops pi (Suc n) i s =
     (if pi AND push_bit (unat i) 1 = 0 then ports_init E ops pi n (i + 1) s
      else do {
        let (ty, s1) = ahci_port_type E (port_at s i) s;
        s2 \<leftarrow> (if ty = 1 then disk_init E ops i (port_at s i) s1 else Some s1);
        ports_init E ops pi n (i + 1) s2
      })"

text \<open>The arguments of the version message are evaluated from the last one on.\<close>

definition log_version :: "io_env \<Rightarrow> 'x ahcis_scheme \<Rightarrow> 'x ahcis_scheme option" where
  "log_version E s =
     (let (cap, s1) = mmio_read E (hba s) s; (v0, s2) = mmio_read E (hba s + 0x10) s1;
          (v1, s3) = mmio_read E (hba s + 0x10) s2
      in log_args klog ''AHCI'' (ascii ''version %x.%x, %u ports'')
           [Num (ucast (drop_bit 16 v1 AND 0xFFFF)), Num (ucast (v0 AND 0xFFFF)), Num (ucast ((cap AND 0x1F) + 1))] s3)"

text \<open>\<open>ops\<close> is the address of \<^verbatim>\<open>ahci_submit\<close>.\<close>

definition ahci_init :: "io_env \<Rightarrow> addr \<Rightarrow> 'x ahcis_scheme \<Rightarrow> 'x ahcis_scheme option" where
  "ahci_init E ops s =
     (case find_class 1 6 s of
        None \<Rightarrow> log_with klog ''AHCI'' (ascii ''no controller found'') (s\<lparr>ahci_dev := None\<rparr>)
      | Some d \<Rightarrow> do {
          s1 \<leftarrow> log_args klog ''AHCI'' (ascii ''controller at %u:%u.%u'')
            [Num (ucast (d_bus d)), Num (ucast (d_slot d)), Num (ucast (d_func d))] (s\<lparr>ahci_dev := Some d\<rparr>);
          let (abar, s2) = pci_read_bar E (d_bus d) (d_slot d) (d_func d) 5 s1;
          k \<leftarrow> map_mmio (vk s2) (cr3 s2) abar (PAGE_SIZE * 4);
          let s3 = s2\<lparr>vk := k, hba := PHYS_TO_VIRT k abar\<rparr>;
          s4 \<leftarrow> log_version E (modify_reg E (hba s3 + 4) (\<lambda>v. v OR 0x80000000) s3);
          (_, s5) \<leftarrow> pci_msi_enable E d 48 s4;
          let (pi, s6) = mmio_read E (hba s5 + 0xC) s5;
          s7 \<leftarrow> ports_init E ops pi 32 0 s6;
          log_with klog_ok ''AHCI'' (ascii ''initialized'') (modify_reg E (hba s7 + 4) (\<lambda>v. v OR 2) s7)
        })"

end
