(* ===== verification/Ata_Spec.thy ===== *)
theory Ata_Spec
  imports Ahci Apic_Spec
begin

text \<open>
  What a transfer of the IDE driver does to the device and to memory, and words in memory byte
  by byte, for the commands of both disk drivers.
\<close>

section \<open>Words of memory by their bytes\<close>

lemma byte_at:
  fixes v :: "'a::len word"
  shows "(word_of_nat (unat v div 256 ^ k) :: u8) = ucast (drop_bit (8 * k) v)"
proof -
  have "unat (drop_bit (8 * k) v) = unat v div 2 ^ (8 * k)" unfolding unat_drop_bit_eq drop_bit_nat_def ..
  moreover have "(2 :: nat) ^ (8 * k) = 256 ^ k" by (simp add: power_mult)
  ultimately show ?thesis unfolding ucast_nat [of "drop_bit (8 * k) v"] by simp
qed

lemmas byte_digits = byte_at [of _ 0, simplified] byte_at [of _ 1, simplified] byte_at [of _ 2, simplified]
  byte_at [of _ 3, simplified]

lemma st32_upd:
  "st32 m a v = m(a + 3 := ucast (drop_bit 24 v), a + 2 := ucast (drop_bit 16 v), a + 1 := ucast (drop_bit 8 v), a := ucast v)"
proof -
  have 4: "(4 :: nat) = Suc (Suc (Suc (Suc 0)))" by simp
  have a: "a + 1 + 1 = a + 2" "a + 2 + 1 = a + 3" by simp_all
  have n: "n div 256 div 256 = n div 65536" "n div 65536 div 256 = n div 16777216" for n :: nat
    by (simp_all add: div_mult2_eq [symmetric])
  show ?thesis unfolding st32_def 4 st_bytes.simps a n by (simp only: byte_digits of_nat_unat)
qed

lemma st16_upd: "st16 m a v = m(a + 1 := ucast (drop_bit 8 v), a := ucast v)"
proof -
  have 2: "(2 :: nat) = Suc (Suc 0)" by simp
  show ?thesis unfolding st16_def 2 st_bytes.simps by (simp only: byte_digits of_nat_unat)
qed

text \<open>A word is what was stored when its bytes are.\<close>

lemma ld32I:
  assumes "m a = ucast v" "m (a + 1) = ucast (drop_bit 8 v)" "m (a + 2) = ucast (drop_bit 16 v)"
    "m (a + 3) = ucast (drop_bit 24 v)"
  shows "ld32 m a = v"
proof -
  have "ld_bytes (st32 m a v) a 4 = unat v mod 256 ^ 4" unfolding st32_def by (rule ld_st_bytes) simp
  moreover have "ld_bytes (st32 m a v) a 4 = ld_bytes m a 4" unfolding ld_bytes_4 st32_upd by (simp add: assms)
  moreover have "unat v mod 256 ^ 4 = unat v" using unat_lt [of v] by simp
  ultimately show ?thesis by (simp add: ld32_def)
qed

lemma ld16I: "m a = ucast v \<Longrightarrow> m (a + 1) = ucast (drop_bit 8 v) \<Longrightarrow> ld16 m a = v"
proof -
  assume a: "m a = ucast v" "m (a + 1) = ucast (drop_bit 8 v)"
  have 2: "ld_bytes n a 2 = unat (n a) + 256 * unat (n (a + 1))" for n by (simp add: numeral_2_eq_2)
  have "ld_bytes (st16 m a v) a 2 = unat v mod 256 ^ 2" unfolding st16_def by (rule ld_st_bytes) simp
  moreover have "ld_bytes (st16 m a v) a 2 = ld_bytes m a 2" unfolding 2 st16_upd by (simp add: a)
  moreover have "unat v mod 256 ^ 2 = unat v" using unat_lt [of v] by simp
  ultimately show ?thesis by (simp add: ld16_def)
qed

lemma ld32_same [simp]: "ld32 (st32 m a v) a = v"
  by (rule ld32I) (simp_all add: st32_upd)

lemma ld16_same [simp]: "ld16 (st16 m a v) a = v"
  by (rule ld16I) (simp_all add: st16_upd)

section \<open>A transfer of the IDE driver\<close>

text \<open>
  What the documentation says of the device: each of its ports keeps the last two bytes written to
  it, which for the address and count ports are the high and the low part of a 48-bit command.
\<close>

fun port_writes :: "u16 \<Rightarrow> io_event list \<Rightarrow> u8 list" where
  "port_writes p (Out8 q v # tr) = (if p = q then v # port_writes p tr else port_writes p tr)"
| "port_writes p (e # tr) = port_writes p tr"
| "port_writes p [] = []"

definition two_deep :: "u16 \<Rightarrow> io_event list \<Rightarrow> u8 \<times> u8" where
  "two_deep p tr = (port_writes p tr ! 1, port_writes p tr ! 0)"

text \<open>The block and the number of sectors that the registers from port \<open>b\<close> on describe.\<close>

definition tf_count :: "u16 \<Rightarrow> io_event list \<Rightarrow> u16" where
  "tf_count b tr = (case two_deep (b + 2) tr of (h, l) \<Rightarrow> push_bit 8 (ucast h) OR ucast l)"

definition tf_lba :: "u16 \<Rightarrow> io_event list \<Rightarrow> u64" where
  "tf_lba b tr =
     (case (two_deep (b + 3) tr, two_deep (b + 4) tr, two_deep (b + 5) tr) of
       ((h3, l0), (h4, l1), (h5, l2)) \<Rightarrow>
         ucast l0 OR push_bit 8 (ucast l1) OR push_bit 16 (ucast l2) OR
         push_bit 24 (ucast h3) OR push_bit 32 (ucast h4) OR push_bit 40 (ucast h5))"

lemma take_byte:
  fixes x :: "'a::len word"
  shows "take_bit (m + 8) x = take_bit m x OR push_bit m (ucast (ucast (drop_bit m x) :: u8))"
  by (rule bit_word_eqI) (auto simp: bit_simps dest!: le_Suc_ex)

lemmas take_bytes = take_byte [of 0, simplified] take_byte [of 8, simplified] take_byte [of 16, simplified]
  take_byte [of 24, simplified] take_byte [of 32, simplified] take_byte [of 40, simplified]

lemma take_48:
  fixes x :: u64
  shows "take_bit 48 x = ucast (ucast x :: u8) OR push_bit 8 (ucast (ucast (drop_bit 8 x) :: u8)) OR
    push_bit 16 (ucast (ucast (drop_bit 16 x) :: u8)) OR push_bit 24 (ucast (ucast (drop_bit 24 x) :: u8)) OR
    push_bit 32 (ucast (ucast (drop_bit 32 x) :: u8)) OR push_bit 40 (ucast (ucast (drop_bit 40 x) :: u8))"
  unfolding take_bytes by (simp only: or.assoc)

lemma tf_task_file:
  "tf_count b (io_trace (task_file b lba cnt s)) = ucast cnt"
  "tf_lba b (io_trace (task_file b lba cnt s)) = take_bit 48 lba"
proof -
  note t = task_file_def Let_def outb_def io_do_def two_deep_def
  have "take_bit 16 cnt = ucast (ucast cnt :: u8) OR push_bit 8 (ucast (ucast (drop_bit 8 cnt) :: u8))"
    unfolding take_bytes ..
  then have "(ucast (take_bit 16 cnt) :: u16) = push_bit 8 (ucast (ucast (drop_bit 8 cnt) :: u8)) OR ucast (ucast cnt :: u8)"
    by (intro bit_word_eqI) (auto simp: bit_simps)
  moreover have "(ucast (take_bit 16 cnt) :: u16) = ucast cnt" by (rule bit_word_eqI) (auto simp: bit_simps)
  ultimately show "tf_count b (io_trace (task_file b lba cnt s)) = ucast cnt"
    unfolding tf_count_def t by simp
  show "tf_lba b (io_trace (task_file b lba cnt s)) = take_bit 48 lba"
    unfolding tf_lba_def t take_48 by simp
qed

text \<open>Accesses only extend the history.\<close>

lemmas io_simps = outb_def outl_def inb_def mmio_read_def mmio_write_def io_do_def

lemma least_poll:
  fixes P :: "nat \<Rightarrow> bool"
  assumes "\<exists>n. P n"
  obtains n where "P n" "\<And>k. k < n \<Longrightarrow> \<not> P k"
  using assms LeastI_ex [of P] not_less_Least [of _ P] by (metis (full_types))

text \<open>A polling loop ends when the value it waits for is read at last.\<close>

lemma wait_bsy_ready:
  assumes "\<exists>n. in8 E (replicate n (In8 p) @ io_trace s) p AND 0x80 = 0"
  shows "\<exists>n. wait_bsy E p s = Some (s\<lparr>io_trace := replicate n (In8 p) @ io_trace s\<rparr>)"
proof -
  obtain n where n: "in8 E (replicate n (In8 p) @ io_trace s) p AND 0x80 = 0"
    "\<And>k. k < n \<Longrightarrow> in8 E (replicate k (In8 p) @ io_trace s) p AND 0x80 \<noteq> 0"
    using least_poll [OF assms] by blast
  have "wait_bsy E p (s\<lparr>io_trace := replicate k (In8 p) @ io_trace s\<rparr>) =
      Some (s\<lparr>io_trace := replicate (Suc n) (In8 p) @ io_trace s\<rparr>)" if "k \<le> n" for k
    using that
  proof (induction k rule: inc_induct)
    case base
    then show ?case using n(1) by (subst wait_bsy.simps) (simp add: io_simps)
  next
    case (step k)
    then show ?case using n(2) by (subst wait_bsy.simps) (simp add: io_simps)
  qed
  from this [of 0] show ?thesis by (intro exI [of _ "Suc n"]) simp
qed

lemma bm_poll_step:
  "in8 E (io_trace s) p AND 6 = 0 \<Longrightarrow> bm_poll E p s = bm_poll E p (s\<lparr>io_trace := In8 p # io_trace s\<rparr>)"
  "in8 E (io_trace s) p AND 6 \<noteq> 0 \<Longrightarrow>
     bm_poll E p s = Some (in8 E (io_trace s) p, s\<lparr>io_trace := In8 p # io_trace s\<rparr>)"
  by (subst bm_poll.simps, simp add: inb_def io_do_def Let_def)+

lemma bm_poll_ends:
  assumes "\<exists>n. in8 E (replicate n (In8 p) @ io_trace s) p AND 6 \<noteq> 0"
  shows "\<exists>n. in8 E (replicate n (In8 p) @ io_trace s) p AND 6 \<noteq> 0 \<and>
    bm_poll E p s = Some (in8 E (replicate n (In8 p) @ io_trace s) p,
      s\<lparr>io_trace := In8 p # replicate n (In8 p) @ io_trace s\<rparr>)"
proof -
  obtain n where n: "in8 E (replicate n (In8 p) @ io_trace s) p AND 6 \<noteq> 0"
    "\<And>k. k < n \<Longrightarrow> \<not> in8 E (replicate k (In8 p) @ io_trace s) p AND 6 \<noteq> 0"
    using least_poll [OF assms] by metis
  let ?t = "\<lambda>k. s\<lparr>io_trace := replicate k (In8 p) @ io_trace s\<rparr>"
  have "bm_poll E p (?t k) = Some (in8 E (replicate n (In8 p) @ io_trace s) p,
      s\<lparr>io_trace := In8 p # replicate n (In8 p) @ io_trace s\<rparr>)" if "k \<le> n" for k
    using that
  proof (induction k rule: inc_induct)
    case base
    then show ?case using bm_poll_step(2) [of E "?t n" p] n(1) by simp
  next
    case (step k)
    then show ?case using bm_poll_step(1) [of E "?t k" p] n(2) [of k] by auto
  qed
  from this [of 0] n(1) show ?thesis by (intro exI [of _ n]) simp
qed

text \<open>
  The command that a history hands to the device, when its last two accesses start it: the
  registers with base port \<open>b\<close>, and the descriptor whose physical address the bus master with base port
  \<open>bm\<close> was given.
\<close>

record disk_command =
  dc_write :: bool
  dc_lba :: u64
  dc_count :: u16
  dc_buf :: u64
  dc_bytes :: nat

fun last_out32 :: "u16 \<Rightarrow> io_event list \<Rightarrow> u32" where
  "last_out32 p (Out32 q v # tr) = (if p = q then v else last_out32 p tr)"
| "last_out32 p (e # tr) = last_out32 p tr"
| "last_out32 p [] = 0"

lemma last_out32_polls [simp]: "last_out32 p (replicate n (In8 q) @ tr) = last_out32 p tr"
  by (induction n) simp_all

definition prd_command :: "mem \<Rightarrow> addr \<Rightarrow> u16 \<Rightarrow> io_event list \<Rightarrow> bool \<Rightarrow> disk_command" where
  "prd_command m e b tr wr = \<lparr>dc_write = wr, dc_lba = tf_lba b tr, dc_count = tf_count b tr, dc_buf = ucast (ld32 m e),
     dc_bytes = (if ld16 m (e + 4) = 0 then 65536 else unat (ld16 m (e + 4)))\<rparr>"

definition ide_issued :: "kmem \<Rightarrow> u16 \<Rightarrow> u16 \<Rightarrow> io_event list \<Rightarrow> disk_command option" where
  "ide_issued k bm b tr =
     (case tr of Out8 p1 d # Out8 p2 cmd # tr0 \<Rightarrow>
        let e = PHYS_TO_VIRT k (ucast (last_out32 (bm + 4) tr0)) in
        if p1 = bm \<and> p2 = b + 7 \<and> d AND 1 \<noteq> 0 \<and> cmd = (if d AND 8 = 0 then 0x35 else 0x25) \<and>
          port_writes (b + 6) tr0 ! 0 AND 0x40 \<noteq> 0 \<and> ld16 (kbytes k) (e + 6) AND 0x8000 \<noteq> 0
        then Some (prd_command (kbytes k) e b tr0 (d AND 8 = 0)) else None
      | _ \<Rightarrow> None)"

lemma fill_prd_words:
  "ld32 (fill_prd e buf n m) e = ucast buf"
  "ld16 (fill_prd e buf n m) (e + 4) = (if n = 65536 then 0 else ucast n)"
  "ld16 (fill_prd e buf n m) (e + 6) = 0x8000"
proof -
  show "ld32 (fill_prd e buf n m) e = ucast buf" by (rule ld32I) (simp_all add: fill_prd_def st16_upd st32_upd)
  show "ld16 (fill_prd e buf n m) (e + 4) = (if n = 65536 then 0 else ucast n)"
    by (rule ld16I) (simp_all add: fill_prd_def st16_upd st32_upd)
  show "ld16 (fill_prd e buf n m) (e + 6) = 0x8000" by (rule ld16I) (simp_all add: fill_prd_def st16_upd st32_upd)
qed

lemma fill_prd_frame: "\<not> a - e < 8 \<Longrightarrow> fill_prd e buf n m a = m a"
proof -
  assume "\<not> a - e < 8"
  then have "a \<noteq> e + i" if "i < 8" for i using that by auto
  from this [of 0] this [of 1] this [of 2] this [of 3] this [of 4] this [of 5] this [of 6] this [of 7]
  show ?thesis by (simp add: fill_prd_def st16_upd st32_upd add.assoc)
qed

text \<open>
  The controller table lies outside the addresses \<open>P\<close>: its entries are the rows \<open>es\<close> whatever is
  stored in \<open>P\<close>.
\<close>

definition table_outside :: "addr set \<Rightarrow> 'x apics_scheme \<Rightarrow> (u8 \<times> u8 list) list \<Rightarrow> bool" where
  "table_outside P s es \<longleftrightarrow> madt (acpi s) \<noteq> 0 \<and> (\<forall>r \<in> set es. fst r = 2 \<longrightarrow> length (snd r) = 8) \<and>
     (\<forall>m. (\<forall>a. a \<notin> P \<longrightarrow> m a = bytes_of s a) \<longrightarrow> madt_rows m (madt (acpi s) + 44) (madt_end m (madt (acpi s))) es)"

lemma table_routes:
  assumes "table_outside P s es" "acpi t = acpi s" "\<And>a. a \<notin> P \<Longrightarrow> bytes_of t a = bytes_of s a"
  shows "irq_to_gsi t l = Some (gsi_of es l)"
proof -
  have "madt_rows (bytes_of t) (madt (acpi s) + 44) (madt_end (bytes_of t) (madt (acpi s))) es"
    "\<forall>r \<in> set es. fst r = 2 \<longrightarrow> length (snd r) = 8" "madt (acpi s) \<noteq> 0"
    using assms(1,3) unfolding table_outside_def by blast+
  then show ?thesis using iso_walk_rows by (simp add: irq_to_gsi_def assms(2) Let_def)
qed

definition mask_trace :: "addr \<Rightarrow> u32 \<Rightarrow> u32 \<Rightarrow> io_event list" where
  "mask_trace b reg v = [Wr32 (b + 0x10) v, Wr32 b reg, Rd32 (b + 0x10), Wr32 b reg]"

lemma mask_trace_quiet [simp]:
  "port_writes p (mask_trace b reg v @ tr) = port_writes p tr"
  "last_out32 p (mask_trace b reg v @ tr) = last_out32 p tr"
  by (simp_all add: mask_trace_def)

lemma ioapic_masks:
  assumes "irq_to_gsi s l = Some g"
  shows "\<exists>v. ioapic_mask_irq E l s = Some (s\<lparr>io_trace := mask_trace (ioapic_base s) (IOAPIC_REDTBL_LO g) v @ io_trace s\<rparr>)"
    and "\<exists>v. ioapic_unmask_irq E l s = Some (s\<lparr>io_trace := mask_trace (ioapic_base s) (IOAPIC_REDTBL_LO g) v @ io_trace s\<rparr>)"
  by (auto simp: ioapic_mask_irq_def ioapic_unmask_irq_def ioapic_read_def ioapic_write_def io_simps assms
    mask_trace_def Let_def)

text \<open>The accesses before the command register is written.\<close>

definition setup_trace :: "io_env \<Rightarrow> ata_channel \<Rightarrow> u8 \<Rightarrow> io_event list \<Rightarrow> io_event list" where
  "setup_trace E c dir tr = Out8 (bm_base c) dir # Out32 (bm_base c + 4) (ucast (prd_phys c)) #
     Out8 (bm_base c + 2) (in8 E (Out8 (bm_base c) 0 # tr) (bm_base c + 2) OR 2 OR 4) #
     In8 (bm_base c + 2) # Out8 (bm_base c) 0 # tr"

lemma bm_setup_trace: "bm_setup E c dir s = s\<lparr>io_trace := setup_trace E c dir (io_trace s)\<rparr>"
  by (simp add: bm_setup_def setup_trace_def io_simps Let_def)

definition file_trace :: "u16 \<Rightarrow> u64 \<Rightarrow> u32 \<Rightarrow> io_event list \<Rightarrow> io_event list" where
  "file_trace b lba cnt tr = Out8 (b + 5) (ucast (drop_bit 16 lba)) # Out8 (b + 4) (ucast (drop_bit 8 lba)) #
     Out8 (b + 3) (ucast lba) # Out8 (b + 2) (ucast cnt) # Out8 (b + 5) (ucast (drop_bit 40 lba)) #
     Out8 (b + 4) (ucast (drop_bit 32 lba)) # Out8 (b + 3) (ucast (drop_bit 24 lba)) #
     Out8 (b + 2) (ucast (drop_bit 8 cnt)) # tr"

lemma task_file_trace: "task_file b lba cnt s = s\<lparr>io_trace := file_trace b lba cnt (io_trace s)\<rparr>"
  by (simp add: task_file_def file_trace_def io_simps Let_def)

lemma last_out32_file [simp]: "last_out32 p (file_trace b lba cnt tr) = last_out32 p tr"
  by (simp add: file_trace_def)

lemma tf_file:
  "tf_count b (mask_trace x reg v @ file_trace b lba cnt tr) = ucast cnt"
  "tf_lba b (mask_trace x reg v @ file_trace b lba cnt tr) = take_bit 48 lba"
  using tf_task_file [of b lba cnt "undefined\<lparr>io_trace := tr\<rparr>"]
  by (simp_all add: task_file_trace tf_count_def tf_lba_def two_deep_def)

text \<open>The command that the accesses of a submission hand to the device.\<close>

lemma submit_issues:
  fixes c :: ata_channel and cnt :: u32 and buf :: u64
  assumes "e = PHYS_TO_VIRT k (ucast (ucast (prd_phys c) :: u32))" "kbytes k = fill_prd e buf n m"
    and "buf < 2 ^ 32" "lba < 2 ^ 48" "0 < n" "n \<le> 65536"
    and "tr = mask_trace x reg v @ file_trace (c_base c) lba cnt (Out8 (c_base c + 6) 0xE0 # replicate j (In8 y) @
      setup_trace E c (if wr then 0 else 8) tr0)"
  shows "ide_issued k (bm_base c) (c_base c)
      (Out8 (bm_base c) ((if wr then 0 else 8) OR 1) # Out8 (c_base c + 7) (if wr then 0x35 else 0x25) # tr) =
    Some \<lparr>dc_write = wr, dc_lba = lba, dc_count = ucast cnt, dc_buf = buf, dc_bytes = unat n\<rparr>"
proof -
  have l: "last_out32 (bm_base c + 4) tr = ucast (prd_phys c)" by (simp add: assms(7) setup_trace_def)
  have w: "port_writes (c_base c + 6) tr ! 0 = 0xE0" by (simp add: assms(7) file_trace_def)
  have f: "tf_count (c_base c) tr = ucast cnt" "tf_lba (c_base c) tr = lba"
    using assms(4) by (simp_all add: assms(7) tf_file take_bit_eq_mod word_less_nat_alt word_unat_eq_iff unat_mod)
  have b: "ucast (ucast buf :: u32) = buf"
    using assms(3) by (simp add: word_unat_eq_iff unsigned_ucast_eq unsigned_take_bit_eq take_bit_nat_eq_self word_less_nat_alt)
  have n: "(if ld16 (kbytes k) (e + 4) = 0 then 65536 else unat (ld16 (kbytes k) (e + 4))) = unat n"
  proof (cases "n = 65536")
    case False
    then have "unat n \<noteq> unat (65536 :: u32)" using word_unat_eq_iff by blast
    then have u: "unat n < 2 ^ 16" using assms(6) by (simp add: word_le_nat_alt)
    then have v: "unat (ucast n :: u16) = unat n" by (simp add: unsigned_ucast_eq take_bit_nat_eq_self)
    have "0 < unat n" using assms(5) by (simp add: word_less_nat_alt)
    then have "(ucast n :: u16) \<noteq> 0" using v by (metis unat_0 less_irrefl)
    then show ?thesis using False v by (simp add: assms(2) fill_prd_words)
  qed (simp add: assms(2) fill_prd_words)
  show ?thesis
    using n by (simp add: ide_issued_def prd_command_def l w f flip: assms(1)) (simp add: assms(2) fill_prd_words b)
qed

text \<open>
  A request of the block layer becomes the transfer it asks for. On a device that becomes ready
  and ends each transfer, with a buffer below 4 GiB, a request of up to 64 KiB and a controller
  table that the transfer does not overwrite, \<^verbatim>\<open>ata_submit\<close> returns 0. At some point of its accesses the
  device holds exactly the requested command: direction, block, number of sectors, address and
  length of the buffer. The request is then complete, with the status that the last poll saw;
  memory has what the device stored until then.
\<close>

lemma ata_submit_transfers:
  fixes s :: "'x atas_scheme" and E :: io_env
  assumes "c = chan_at s (bpriv (dev_at s dev))" "q = breqs s r" "r \<noteq> 0" "current_req (dev_at s dev) = r"
    and "buf = VIRT_TO_PHYS (vk s) (rq_buf q)" "n = rq_count q * sector_size (dev_at s dev)"
    and "buf < 2 ^ 32" "rq_lba q < 2 ^ 48" "0 < n" "n \<le> 65536"
    and "PHYS_TO_VIRT (vk s) (ucast (ucast (prd_phys c) :: u32)) = prd c"
    and "table_outside P s es" "\<forall>a. a - prd c < 8 \<longrightarrow> a \<in> P" "\<forall>tr m a. a \<notin> P \<longrightarrow> dma E tr m a = m a"
    and "\<forall>tr. \<exists>j. in8 E (replicate j (In8 (c_ctrl c)) @ tr) (c_ctrl c) AND 0x80 = 0"
    and "\<forall>tr. \<exists>j. in8 E (replicate j (In8 (bm_base c + 2)) @ tr) (bm_base c + 2) AND 6 \<noteq> 0"
  shows "\<exists>t m tr tr1 j. ata_submit E s dev r = Some (0, t) \<and>
    ide_issued ((vk s)\<lparr>kbytes := m\<rparr>) (bm_base c) (c_base c) tr = Some \<lparr>dc_write = (rq_write q \<noteq> 0),
      dc_lba = rq_lba q, dc_count = ucast (rq_count q), dc_buf = buf, dc_bytes = unat n\<rparr> \<and>
    (\<forall>a. \<not> a - prd c < 8 \<longrightarrow> m a = bytes_of s a) \<and>
    bytes_of t = dma E (In8 (bm_base c + 2) # replicate j (In8 (bm_base c + 2)) @ tr) m \<and>
    io_trace t = tr1 @ In8 (bm_base c + 2) # replicate j (In8 (bm_base c + 2)) @ tr \<and>
    breqs t r = q\<lparr>rq_status := if in8 E (replicate j (In8 (bm_base c + 2)) @ tr) (bm_base c + 2) AND 2 \<noteq> 0 then - 1 else 0,
      rq_done := 1\<rparr> \<and> blk_devices t = blk_devices s"
proof -
  define m where "m = fill_prd (prd c) buf n (bytes_of s)"
  define s1 where "s1 = set_bytes m s"
  define line :: u8 where "line = (if bpriv (dev_at s dev) = 1 then 14 else 15)"
  define dir :: u8 where "dir = (if rq_write q \<noteq> 0 then 0 else 8)"
  define cmd :: u8 where "cmd = (if rq_write q \<noteq> 0 then 0x35 else 0x25)"
  note f [simp] = s1_def set_bytes_def
  obtain j1 where w: "wait_bsy E (c_ctrl c) (bm_setup E c dir s1) =
      Some (s1\<lparr>io_trace := replicate j1 (In8 (c_ctrl c)) @ setup_trace E c dir (io_trace s)\<rparr>)"
    using wait_bsy_ready [of E "c_ctrl c" "bm_setup E c dir s1"] assms(15) by (auto simp: bm_setup_trace)
  define T3 where "T3 = file_trace (c_base c) (rq_lba q) (rq_count q)
      (Out8 (c_base c + 6) 0xE0 # replicate j1 (In8 (c_ctrl c)) @ setup_trace E c dir (io_trace s))"
  have out: "m a = bytes_of s a" if "a \<notin> P" for a
    using that assms(13) unfolding m_def by (intro fill_prd_frame) blast
  have "irq_to_gsi (s1\<lparr>io_trace := T3\<rparr>) line = Some (gsi_of es line)"
    by (rule table_routes [OF assms(12)]) (simp_all add: out)
  from ioapic_masks(1) [OF this, of E] obtain v where k: "ioapic_mask_irq E line (s1\<lparr>io_trace := T3\<rparr>) =
      Some (s1\<lparr>io_trace := mask_trace (ioapic_base s) (IOAPIC_REDTBL_LO (gsi_of es line)) v @ T3\<rparr>)"
    by auto
  define T where "T = Out8 (bm_base c) (dir OR 1) # Out8 (c_base c + 7) cmd #
      mask_trace (ioapic_base s) (IOAPIC_REDTBL_LO (gsi_of es line)) v @ T3"
  obtain j where p: "bm_poll E (bm_base c + 2) (s1\<lparr>io_trace := T\<rparr>) = Some
      (in8 E (replicate j (In8 (bm_base c + 2)) @ T) (bm_base c + 2),
       s1\<lparr>io_trace := In8 (bm_base c + 2) # replicate j (In8 (bm_base c + 2)) @ T\<rparr>)"
    using bm_poll_ends [of E "bm_base c + 2" "s1\<lparr>io_trace := T\<rparr>"] assms(16) by auto
  define m2 where "m2 = dma E (In8 (bm_base c + 2) # replicate j (In8 (bm_base c + 2)) @ T) m"
  have "irq_to_gsi (s\<lparr>vk := (vk s)\<lparr>kbytes := m2\<rparr>, io_trace := X\<rparr>) line = Some (gsi_of es line)" for X
    by (rule table_routes [OF assms(12)]) (simp_all add: m2_def assms(14) out)
  note u = ioapic_masks(2) [OF this, of E]
  have iss: "ide_issued ((vk s)\<lparr>kbytes := m\<rparr>) (bm_base c) (c_base c) T = Some \<lparr>dc_write = (rq_write q \<noteq> 0),
      dc_lba = rq_lba q, dc_count = ucast (rq_count q), dc_buf = buf, dc_bytes = unat n\<rparr>"
    unfolding T_def dir_def cmd_def
    by (rule submit_issues) (use assms(7-11) in \<open>simp_all add: m_def T3_def dir_def PHYS_TO_VIRT_def\<close>)
  define st where "st = in8 E (replicate j (In8 (bm_base c + 2)) @ T) (bm_base c + 2)"
  define X where "X = Wr32 (lapic_base s + 4 * ucast (0xB0 div 4 :: u32)) 0 # In8 (c_base c + 7) # Out8 (bm_base c + 2) st #
      Out8 (bm_base c) 0 # In8 (bm_base c + 2) # replicate j (In8 (bm_base c + 2)) @ T"
  obtain v2 where u2: "ioapic_unmask_irq E line (s\<lparr>vk := (vk s)\<lparr>kbytes := m2\<rparr>, io_trace := X\<rparr>) =
      Some (s\<lparr>vk := (vk s)\<lparr>kbytes := m2\<rparr>,
        io_trace := mask_trace (ioapic_base s) (IOAPIC_REDTBL_LO (gsi_of es line)) v2 @ X\<rparr>)"
    using u [of X] by auto
  let ?t = "blk_complete dev (if st AND 2 \<noteq> 0 then - 1 else 0) (s\<lparr>vk := (vk s)\<lparr>kbytes := m2\<rparr>,
        io_trace := mask_trace (ioapic_base s) (IOAPIC_REDTBL_LO (gsi_of es line)) v2 @ X\<rparr>)"
  have k2: "ioapic_mask_irq E line (task_file (c_base c) (rq_lba q) (rq_count q) (outb (c_base c + 6) 0xE0
      (s1\<lparr>io_trace := replicate j1 (In8 (c_ctrl c)) @ setup_trace E c dir (io_trace s)\<rparr>))) =
      Some (s1\<lparr>io_trace := mask_trace (ioapic_base s) (IOAPIC_REDTBL_LO (gsi_of es line)) v @ T3\<rparr>)"
    using k by (simp add: task_file_trace io_simps T3_def)
  have p2: "bm_poll E (bm_base c + 2) (outb (bm_base c) (dir OR 1) (outb (c_base c + 7) cmd
      (s1\<lparr>io_trace := mask_trace (ioapic_base s) (IOAPIC_REDTBL_LO (gsi_of es line)) v @ T3\<rparr>))) =
      Some (st, s1\<lparr>io_trace := In8 (bm_base c + 2) # replicate j (In8 (bm_base c + 2)) @ T\<rparr>)"
    using p by (simp add: io_simps T_def st_def)
  have u3: "ioapic_unmask_irq E line (lapic_eoi (snd (inb E (c_base c + 7) (outb (bm_base c + 2) st
      (outb (bm_base c) 0 (dma_arrive E (s1\<lparr>io_trace := In8 (bm_base c + 2) # replicate j (In8 (bm_base c + 2)) @ T\<rparr>))))))) =
      Some (s\<lparr>vk := (vk s)\<lparr>kbytes := m2\<rparr>, io_trace := mask_trace (ioapic_base s) (IOAPIC_REDTBL_LO (gsi_of es line)) v2 @ X\<rparr>)"
    using u2 by (simp add: io_simps lapic_eoi_def lapic_write_def dma_arrive_def m2_def X_def)
  have run: "ata_submit E s dev r = Some (0, ?t)"
    unfolding ata_submit_def Let_def assms(1,2) [symmetric] assms(5,6) [symmetric] m_def [symmetric]
      s1_def [symmetric] dir_def [symmetric] line_def [symmetric] cmd_def [symmetric]
    by (simp add: w k2 p2 u3 split_beta del: f)
  have q: "breqs ?t r = q\<lparr>rq_status := if st AND 2 \<noteq> 0 then - 1 else 0, rq_done := 1\<rparr>"
    using assms(2-4) by (simp add: blk_complete_def upd_req_def dev_at_def)
  have "blk_devices ?t = blk_devices s" "bytes_of ?t = m2" "io_trace ?t = mask_trace (ioapic_base s) (IOAPIC_REDTBL_LO (gsi_of es line)) v2 @ X"
    by (simp_all add: blk_complete_def upd_req_def Let_def)
  with run iss q show ?thesis
    by (intro exI [of _ ?t] exI [of _ m] exI [of _ T]
        exI [of _ "mask_trace (ioapic_base s) (IOAPIC_REDTBL_LO (gsi_of es line)) v2 @ take 4 X"] exI [of _ j])
      (simp add: m2_def st_def X_def m_def fill_prd_frame)
qed

text \<open>A ready device, and the state of a machine with the controller table above and one disk.\<close>

definition ready_disk :: io_env where
  "ready_disk = \<lparr>in8 = (\<lambda>_ _. 4), in16 = (\<lambda>_ _. 0), in32 = (\<lambda>_ _. 0), rd32 = (\<lambda>_ _. 0), dma = (\<lambda>_ m. m)\<rparr>"

definition first_channel :: ata_channel where
  "first_channel = \<lparr>c_base = 0x1F0, c_ctrl = 0x3F6, bm_base = 0xC000, prd = hhdm0 + 0x5000, prd_phys = 0x5000, c_blk = 1\<rparr>"

definition disk_request :: blk_request where
  "disk_request = \<lparr>rq_lba = 0x123456789A, rq_count = 8, rq_buf = hhdm0 + 0x6000, rq_write = 0, rq_done = 0, rq_status = 7\<rparr>"

definition disk_atas :: atas where
  "disk_atas = pcis.extend (apics.extend (apics.truncate ((with_madt madt_memory)
       \<lparr>blk_devices := [no_device\<lparr>sector_size := 512, bpriv := 1, current_req := 0x100\<rparr>], breqs := (\<lambda>_. disk_request)\<rparr>))
     (pcis.fields [] 1)) (atas.fields [first_channel, first_channel])"

lemma disk_atas_simps [simp]:
  "vk disk_atas = fresh_kmem\<lparr>kbytes := madt_memory\<rparr>" "madt (acpi disk_atas) = 0x2000"
  "dev_at disk_atas 1 = no_device\<lparr>sector_size := 512, bpriv := 1, current_req := 0x100\<rparr>"
  "breqs disk_atas = (\<lambda>_. disk_request)" "chan_at disk_atas 1 = first_channel"
  by (simp_all add: disk_atas_def with_madt_def dev_at_def chan_at_def ios.defs apics.defs procs.defs pcis.defs atas.defs)

lemma table_outside_disk:
  "table_outside {a. a - (hhdm0 + 0x5000) < 8} disk_atas [(2, [0, 0, 2, 0, 0, 0, 0, 0])]"
proof -
  have "madt_rows m 0x202C (madt_end m 0x2000) [(2, [0, 0, 2, 0, 0, 0, 0, 0])]"
    if m: "\<forall>a. a \<notin> {a. a - (hhdm0 + 0x5000) < 8} \<longrightarrow> m a = madt_memory a" for m
  proof -
    have a: "m a = madt_memory a" if "a < 0x3000" for a
    proof -
      have "unat a < 0x3000" using that by (simp add: word_less_nat_alt)
      then have "8 \<le> unat (a - (hhdm0 + 0x5000))" by (simp add: hhdm0_def unat_sub_if')
      then show ?thesis using m by (simp add: word_less_nat_alt)
    qed
    have "m (0x202E + word_of_nat i) = [0, 0, 2, 0, 0, 0, 0, 0] ! i" if "i < 8" for i
    proof -
      have "i \<in> {0, 1, 2, 3, 4, 5, 6, 7}" using that by auto
      then show ?thesis by (elim insertE emptyE) (simp_all add: a madt_memory_def)
    qed
    moreover have "madt_end m 0x2000 = 0x2036"
      by (simp add: madt_end_def h_length_def ld32_def ld_bytes_4 a madt_memory_def)
    ultimately show ?thesis by (simp add: a madt_memory_def)
  qed
  then show ?thesis by (simp add: table_outside_def del: madt_rows.simps)
qed

end
