(* ===== verification/Ahci_Spec.thy ===== *)
theory Ahci_Spec
  imports Ahci Ata_Spec Pci_Spec
begin

text \<open>
  The SATA driver: the commands it builds are the requested ones when a controller reads them as the
  AHCI specification says, a port that was set up is ready for every slot, and the identification
  of a disk is read as the ATA specification lays it out.
\<close>

section \<open>What a controller reads\<close>

definition dword :: "mem \<Rightarrow> addr \<Rightarrow> u64" where
  "dword m a = push_bit 32 (ucast (ld32 m (a + 4))) OR ucast (ld32 m a)"

text \<open>
  A controller that processes a slot reads the header at its place in the command list, follows
  it to the table, and takes the command from the register fields of the table's first bytes
  and the buffer from its first descriptor.
\<close>

definition fis_lba :: "mem \<Rightarrow> addr \<Rightarrow> u64" where
  "fis_lba m t = ucast (m (t + 4)) OR push_bit 8 (ucast (m (t + 5))) OR push_bit 16 (ucast (m (t + 6))) OR
     push_bit 24 (ucast (m (t + 8))) OR push_bit 32 (ucast (m (t + 9))) OR push_bit 40 (ucast (m (t + 10)))"

definition table_command :: "mem \<Rightarrow> addr \<Rightarrow> bool \<Rightarrow> disk_command option" where
  "table_command m t wr =
     (if m t = 0x27 \<and> m (t + 1) AND 0x80 \<noteq> 0 \<and> m (t + 2) = (if wr then 0x35 else 0x25) \<and> m (t + 7) AND 0x40 \<noteq> 0
      then Some \<lparr>dc_write = wr, dc_lba = fis_lba m t, dc_count = ld16 m (t + 12), dc_buf = dword m (t + 0x80),
        dc_bytes = unat (take_bit 22 (ld32 m (t + 0x8C))) + 1\<rparr>
      else None)"

definition slot_command :: "kmem \<Rightarrow> u64 \<Rightarrow> i32 \<Rightarrow> disk_command option" where
  "slot_command k clb slot =
     (let m = kbytes k; h = PHYS_TO_VIRT k (clb + 32 * scast slot) in
      if m h AND 0x1F = 5 \<and> ld16 m (h + 2) = 1
      then table_command m (PHYS_TO_VIRT k (dword m (h + 8))) (m h AND 0x40 \<noteq> 0) else None)"

text \<open>Every slot of a port has a header in the page of the list and a page for its table.\<close>

definition port_ready :: "'x ahcis_scheme \<Rightarrow> i32 \<Rightarrow> bool" where
  "port_ready s pn \<longleftrightarrow> pg_aligned (cmd_lists s pn) \<and>
     (\<forall>i < 32. pg_aligned (cmd_tables s pn (word_of_nat i)) \<and> page_of (cmd_tables s pn (word_of_nat i)) \<noteq> page_of (cmd_lists s pn) \<and>
       dword (bytes_of s) (hdr_at (cmd_lists s pn) (word_of_nat i) + 8) = VIRT_TO_PHYS (vk s) (cmd_tables s pn (word_of_nat i)))"

section \<open>A command in memory\<close>

lemma dword_words: "ld32 m a = ucast v \<Longrightarrow> ld32 m (a + 4) = ucast (drop_bit 32 v) \<Longrightarrow> dword m a = v"
  by (rule bit_word_eqI) (auto simp: dword_def bit_simps dest!: le_Suc_ex)

lemma u8_eqI:
  fixes a b :: u8
  assumes "\<forall>n \<in> {0, 1, 2, 3, 4, 5, 6, 7}. bit a n = bit b n"
  shows "a = b"
proof (rule bit_word_eqI)
  fix n assume "n < LENGTH(8)"
  then have "n \<in> {0, 1, 2, 3, 4, 5, 6, 7}" by auto
  then show "bit a n = bit b n" using assms by blast
qed

lemma header_bits:
  fixes x wr :: u8
  assumes "wr = 0 \<or> wr = 1"
  shows "(((x AND NOT 0x1F) OR 5) AND NOT 0x40 OR push_bit 6 (wr AND 1)) AND 0x1F = 5"
    "(((x AND NOT 0x1F) OR 5) AND NOT 0x40 OR push_bit 6 (wr AND 1)) AND 0x40 = (if wr = 0 then 0 else 0x40)"
  using assms by (auto intro!: u8_eqI simp: bit_simps)

lemma header_words:
  assumes "wr = 0 \<or> wr = 1"
  shows "fill_header h wr m h AND 0x1F = 5" "ld16 (fill_header h wr m) (h + 2) = 1"
    "fill_header h wr m h AND 0x40 = (if wr = 0 then 0 else 0x40)"
    "a \<noteq> h \<Longrightarrow> a \<noteq> h + 2 \<Longrightarrow> a \<noteq> h + 3 \<Longrightarrow> fill_header h wr m a = m a"
proof -
  show "ld16 (fill_header h wr m) (h + 2) = 1" by (rule ld16I) (simp_all add: fill_header_def st16_upd add.assoc)
qed (use header_bits [OF assms, of "m h"] in \<open>simp_all add: fill_header_def st16_upd add.assoc\<close>)

lemma prdt_words:
  "dword (fill_prdt e buf n m) e = buf"
  "take_bit 22 (ld32 (fill_prdt e buf n m) (e + 12)) = take_bit 22 n"
  "\<forall>i < 16. a \<noteq> e + word_of_nat i \<Longrightarrow> fill_prdt e buf n m a = m a"
proof -
  note f = fill_prdt_def Let_def st32_upd add.assoc
  show "dword (fill_prdt e buf n m) e = buf"
    by (rule dword_words; rule ld32I) (simp_all add: f)
  have m: "(0x3FFFFF :: u32) = mask 22" "(0x80000000 :: u32) = push_bit 31 1" by (simp_all add: mask_eq_exp_minus_1)
  have "take_bit 22 ((x AND NOT (mask 22) OR n AND mask 22) OR push_bit 31 1) = take_bit 22 n" for x :: u32
    by (rule bit_word_eqI) (auto simp: bit_simps)
  then show "take_bit 22 (ld32 (fill_prdt e buf n m) (e + 12)) = take_bit 22 n"
    unfolding fill_prdt_def Let_def ld32_same m .
  assume a: "\<forall>i < 16. a \<noteq> e + word_of_nat i"
  from a [rule_format, of 0] a [rule_format, of 1] a [rule_format, of 2] a [rule_format, of 3] a [rule_format, of 4]
    a [rule_format, of 5] a [rule_format, of 6] a [rule_format, of 7] a [rule_format, of 12] a [rule_format, of 13]
    a [rule_format, of 14] a [rule_format, of 15]
  show "fill_prdt e buf n m a = m a" by (simp add: f)
qed

lemma ld32_bytes_cong:
  "m a = m' a \<Longrightarrow> m (a + 1) = m' (a + 1) \<Longrightarrow> m (a + 2) = m' (a + 2) \<Longrightarrow> m (a + 3) = m' (a + 3) \<Longrightarrow> ld32 m a = ld32 m' a"
  by (simp add: ld32_def ld_bytes_4)

lemma ld16_bytes_cong: "m a = m' a \<Longrightarrow> m (a + 1) = m' (a + 1) \<Longrightarrow> ld16 m a = ld16 m' a"
  by (simp add: ld16_def numeral_2_eq_2)

text \<open>The register fields and the descriptor, over any memory \<open>m\<close> below.\<close>

lemma table_words:
  assumes "rq_write q = 0 \<or> rq_write q = 1" "rq_lba q < 2 ^ 48" "0 < n" "n \<le> 2 ^ 22"
  shows "table_command (rw_command h t buf n q m) t (rq_write q \<noteq> 0) = Some \<lparr>dc_write = (rq_write q \<noteq> 0),
    dc_lba = rq_lba q, dc_count = ucast (rq_count q), dc_buf = buf, dc_bytes = unat n\<rparr>"
proof -
  let ?m = "rw_command h t buf n q m"
  let ?p = "fill_prdt (prdt_at t) buf (n - 1) (fill_header h (rq_write q) m)"
  have b: "?m t = 0x27" "?m (t + 1) = 0x80" "?m (t + 2) = (if rq_write q \<noteq> 0 then 0x35 else 0x25)" "?m (t + 7) = 0x40"
    by (simp_all add: rw_command_def Let_def st16_upd fis_set_lba48_def add.assoc)
  have l: "fis_lba ?m t = take_bit 48 (rq_lba q)"
    unfolding take_48 fis_lba_def by (simp add: rw_command_def Let_def st16_upd fis_set_lba48_def add.assoc or.assoc)
  then have l: "fis_lba ?m t = rq_lba q"
    using assms(2) by (simp add: word_unat_eq_iff unsigned_take_bit_eq take_bit_nat_eq_self word_less_nat_alt)
  have c: "ld16 ?m (t + 12) = ucast (rq_count q)" by (simp add: rw_command_def Let_def)
  have d: "dword ?m (t + 0x80) = dword ?p (t + 0x80)"
    unfolding dword_def
    by (intro arg_cong2 [where f = "(OR)"] arg_cong [where f = "push_bit 32"] arg_cong [where f = ucast] ld32_bytes_cong)
      (simp_all add: rw_command_def Let_def st16_upd fis_set_lba48_def add.assoc)
  have e: "ld32 ?m (t + 0x8C) = ld32 ?p (t + 0x8C)"
    by (rule ld32_bytes_cong) (simp_all add: rw_command_def Let_def st16_upd fis_set_lba48_def add.assoc)
  have u: "0 < unat n" "unat n \<le> 2 ^ 22" using assms(3,4) by (simp_all add: word_less_nat_alt word_le_nat_alt)
  then have n1: "unat (n - 1) = unat n - 1" by (intro unat_minus_one) auto
  have "take_bit 22 (ld32 ?p (t + 0x80 + 12)) = take_bit 22 (n - 1)" by (rule prdt_words)
  then have "unat (take_bit 22 (ld32 ?p (t + 0x8C))) = unat n - 1"
    using u n1 by (simp add: unsigned_take_bit_eq take_bit_nat_eq_self add.assoc)
  then have "unat (take_bit 22 (ld32 ?m (t + 0x8C))) + 1 = unat n" using u e by simp
  then show ?thesis
    using b l c d prdt_words(1) [of "prdt_at t" buf "n - 1" "fill_header h (rq_write q) m"]
    by (simp add: table_command_def)
qed

text \<open>Offsets in an aligned page.\<close>

lemma page_far:
  assumes "page_of a \<noteq> page_of t" "pg_aligned t" "k < 4096"
  shows "a \<noteq> t + k"
proof
  assume "a = t + k"
  then have "unat (a - t) < 4096" using assms(3) by (simp add: word_less_nat_alt)
  then show False using page_bytes [OF assms(2), of a] assms(1) by blast
qed

lemma page_far_0: "page_of a \<noteq> page_of t \<Longrightarrow> a \<noteq> t"
  by auto

lemma rw_other_page:
  assumes "page_of a \<noteq> page_of t" "pg_aligned t"
  shows "rw_command h t buf n q m a = fill_header h (rq_write q) m a"
  using page_far [OF assms] page_far_0 [OF assms(1)]
  by (simp add: rw_command_def Let_def st16_upd fis_set_lba48_def fill_prdt_def st32_upd add.assoc)

lemma small_eq: "a < 4096 \<Longrightarrow> b < 4096 \<Longrightarrow> word_of_nat a = (word_of_nat b :: u64) \<longleftrightarrow> a = b"
  by (simp add: word_unat_eq_iff unat_of_nat_id)

lemma slot_word: "i < 32 \<Longrightarrow> scast (word_of_nat i :: i32) = (word_of_nat i :: u64)"
proof -
  assume "i < 32"
  then have "sint (word_of_nat i :: i32) = int i"
    by (simp add: sint_uint uint_nat unat_of_nat_id signed_take_bit_int_eq_self)
  then show ?thesis by (metis of_int_of_nat_eq of_int_sint)
qed

definition hdr_off :: "addr \<Rightarrow> nat \<Rightarrow> nat \<Rightarrow> addr" where
  "hdr_off cl i k = cl + word_of_nat (32 * i + k)"

lemma hdr_off_simps:
  assumes "i < 32"
  shows "hdr_at cl (word_of_nat i) = hdr_off cl i 0" "hdr_off cl i k + 1 = hdr_off cl i (k + 1)"
    "hdr_off cl i k + 2 = hdr_off cl i (k + 2)" "hdr_off cl i k + 3 = hdr_off cl i (k + 3)"
    "hdr_off cl i k + 4 = hdr_off cl i (k + 4)" "hdr_off cl i k + 8 = hdr_off cl i (k + 8)"
    "k < 32 \<Longrightarrow> pg_aligned cl \<Longrightarrow> page_of (hdr_off cl i k) = page_of cl"
    "k < 32 \<Longrightarrow> j < 32 \<Longrightarrow> l < 32 \<Longrightarrow> hdr_off cl i k = hdr_off cl j l \<longleftrightarrow> i = j \<and> k = l"
proof -
  show "hdr_at cl (word_of_nat i) = hdr_off cl i 0" using assms by (simp add: hdr_off_def slot_word)
  show "k < 32 \<Longrightarrow> pg_aligned cl \<Longrightarrow> page_of (hdr_off cl i k) = page_of cl"
    unfolding hdr_off_def by (rule page_index) (use assms in simp_all)
  assume "k < 32" "j < 32" "l < 32"
  then show "hdr_off cl i k = hdr_off cl j l \<longleftrightarrow> i = j \<and> k = l"
    using assms digit_unique [of k 32 l i j] by (simp add: hdr_off_def small_eq del: of_nat_add of_nat_mult)
qed (simp_all add: hdr_off_def add.assoc)

lemma hdr_off_num: "hdr_off cl i k + numeral w = hdr_off cl i (k + numeral w)" "hdr_off cl i k + 1 = hdr_off cl i (k + 1)"
  by (simp_all add: hdr_off_def add.assoc)

section \<open>A free slot and a register that settles\<close>

lemma free_bit_from:
  assumes "i + n = 32" "i \<le> j" "j < 32" "\<not> bit x j"
  shows "\<exists>j. i \<le> j \<and> j < 32 \<and> free_bit x n i = word_of_nat j \<and> \<not> bit x j \<and> (\<forall>l. i \<le> l \<and> l < j \<longrightarrow> bit x l)"
  using assms
proof (induction n arbitrary: i)
  case (Suc n)
  have b: "x AND push_bit i 1 = 0 \<longleftrightarrow> \<not> bit x i" using bit_iff_and_push_bit_not_eq_0 [of x i] by simp
  show ?case
  proof (cases "bit x i")
    case False
    then show ?thesis using b Suc.prems by (intro exI [of _ i]) auto
  next
    case True
    then have "Suc i \<le> j" using Suc.prems by (metis le_neq_implies_less Suc_leI)
    then obtain k where k: "Suc i \<le> k" "k < 32" "free_bit x n (Suc i) = word_of_nat k" "\<not> bit x k"
      "\<forall>l. Suc i \<le> l \<and> l < k \<longrightarrow> bit x l"
      using Suc.IH [of "Suc i"] Suc.prems by auto
    then have "\<forall>l. i \<le> l \<and> l < k \<longrightarrow> bit x l" using True by (metis Suc_leI le_neq_implies_less)
    then show ?thesis using k b True by (intro exI [of _ k]) (simp del: push_bit_of_1)
  qed
qed simp

lemma free_bit_spec:
  assumes "\<exists>i < 32. \<not> bit x i"
  shows "\<exists>i < 32. free_bit x 32 0 = word_of_nat i \<and> \<not> bit x i \<and> (\<forall>j < i. bit x j)"
proof -
  obtain i where "i < 32" "\<not> bit x i" using assms by blast
  then show ?thesis using free_bit_from [of 0 32 i x] by auto
qed

lemma wait_while_ends:
  assumes "\<exists>n. \<not> B (rd32 E (replicate n (Rd32 a) @ io_trace s) a)"
  shows "\<exists>n. wait_while E a B s = Some (s\<lparr>io_trace := replicate n (Rd32 a) @ io_trace s\<rparr>)"
proof -
  obtain n where n: "\<not> B (rd32 E (replicate n (Rd32 a) @ io_trace s) a)"
    "\<And>k. k < n \<Longrightarrow> \<not> \<not> B (rd32 E (replicate k (Rd32 a) @ io_trace s) a)"
    using least_poll [OF assms] by metis
  have "wait_while E a B (s\<lparr>io_trace := replicate k (Rd32 a) @ io_trace s\<rparr>) =
      Some (s\<lparr>io_trace := replicate (Suc n) (Rd32 a) @ io_trace s\<rparr>)" if "k \<le> n" for k
    using that
  proof (induction k rule: inc_induct)
    case base
    then show ?case using n(1) by (subst wait_while.simps) (simp add: io_simps)
  next
    case (step k)
    then show ?case using n(2) by (subst wait_while.simps) (simp add: io_simps)
  qed
  from this [of 0] show ?thesis by (intro exI [of _ "Suc n"]) simp
qed

section \<open>A request\<close>

text \<open>The slots in use that a submission sees from the history \<open>tr\<close> on.\<close>

definition slots_seen :: "io_env \<Rightarrow> addr \<Rightarrow> io_event list \<Rightarrow> u32" where
  "slots_seen E p tr =
     (let tr1 = Wr32 (p + 0x10) (- 1) # tr in rd32 E tr1 (p + 0x34) OR rd32 E (Rd32 (p + 0x34) # tr1) (p + 0x38))"

lemma trace_vk_commute: "s\<lparr>io_trace := tr, vk := k\<rparr> = s\<lparr>vk := k, io_trace := tr\<rparr>"
  by (cases s) simp

lemma find_slot_free:
  assumes "\<exists>i < 32. \<not> bit (slots_seen E p (io_trace s)) i"
  shows "\<exists>i < 32. \<not> bit (slots_seen E p (io_trace s)) i \<and>
    ahci_find_slot E p (ahci_port_clear_interrupts p s) = (word_of_nat i,
      s\<lparr>io_trace := Rd32 (p + 0x38) # Rd32 (p + 0x34) # Wr32 (p + 0x10) (- 1) # io_trace s\<rparr>)"
  using free_bit_spec [OF assms]
  by (auto simp: ahci_find_slot_def ahci_port_clear_interrupts_def io_simps slots_seen_def Let_def)

lemma slot_not_negative: "i < 32 \<Longrightarrow> \<not> (word_of_nat i :: i32) <s 0"
proof -
  assume "i < 32"
  then have "sint (word_of_nat i :: i32) = int i"
    by (simp add: sint_uint uint_nat unat_of_nat_id signed_take_bit_int_eq_self)
  then show ?thesis by (simp add: word_sless_alt)
qed

lemma port_ready_iff:
  "port_ready s pn \<longleftrightarrow> pg_aligned (cmd_lists s pn) \<and>
     (\<forall>i < 32. pg_aligned (cmd_tables s pn (word_of_nat i)) \<and> page_of (cmd_tables s pn (word_of_nat i)) \<noteq> page_of (cmd_lists s pn) \<and>
       dword (bytes_of s) (hdr_off (cmd_lists s pn) i 8) = VIRT_TO_PHYS (vk s) (cmd_tables s pn (word_of_nat i)))"
  by (simp add: port_ready_def hdr_off_simps hdr_off_def slot_word add.assoc cong: conj_cong)

lemma rw_keeps_header:
  assumes "pg_aligned cl" "pg_aligned t" "page_of t \<noteq> page_of cl" "rq_write q = 0 \<or> rq_write q = 1" "i < 32" "j < 32"
  shows "k < 8 \<Longrightarrow> rw_command (hdr_off cl i 0) t buf n q m (hdr_off cl j (8 + k)) = m (hdr_off cl j (8 + k))"
    "l < 4 \<Longrightarrow> rw_command (hdr_off cl i 0) t buf n q m (hdr_off cl i l) =
       fill_header (hdr_off cl i 0) (rq_write q) m (hdr_off cl i l)"
    "dword (rw_command (hdr_off cl i 0) t buf n q m) (hdr_off cl j 8) = dword m (hdr_off cl j 8)"
    "page_of a \<noteq> page_of cl \<Longrightarrow> page_of a \<noteq> page_of t \<Longrightarrow> rw_command (hdr_off cl i 0) t buf n q m a = m a"
proof -
  have o: "rw_command (hdr_off cl i 0) t buf n q m (hdr_off cl j l) =
      fill_header (hdr_off cl i 0) (rq_write q) m (hdr_off cl j l)" if "l < 32" "j < 32" for j l
    by (rule rw_other_page) (use assms that in \<open>simp_all add: hdr_off_simps\<close>)
  show f: "rw_command (hdr_off cl i 0) t buf n q m (hdr_off cl j (8 + k)) = m (hdr_off cl j (8 + k))" if "k < 8" for k
    using that assms header_words(4) [OF assms(4)] by (simp add: o hdr_off_simps)
  show "l < 4 \<Longrightarrow> rw_command (hdr_off cl i 0) t buf n q m (hdr_off cl i l) =
       fill_header (hdr_off cl i 0) (rq_write q) m (hdr_off cl i l)" using assms by (simp add: o)
  show "dword (rw_command (hdr_off cl i 0) t buf n q m) (hdr_off cl j 8) = dword m (hdr_off cl j 8)"
    unfolding dword_def
    by (intro arg_cong2 [where f = "(OR)"] arg_cong [where f = "push_bit 32"] arg_cong [where f = ucast] ld32_bytes_cong)
      (use f [of 0] f [of 1] f [of 2] f [of 3] f [of 4] f [of 5] f [of 6] f [of 7] assms(6) in \<open>simp_all add: hdr_off_simps\<close>)
  assume a: "page_of a \<noteq> page_of cl" "page_of a \<noteq> page_of t"
  have "a \<noteq> hdr_off cl i l" if "l < 32" for l using a(1) assms(1,5) hdr_off_simps(7) [OF assms(5) that] by auto
  from this [of 0] this [of 2] this [of 3]
  have "a \<noteq> hdr_off cl i 0" "a \<noteq> hdr_off cl i 0 + 2" "a \<noteq> hdr_off cl i 0 + 3"
    using hdr_off_simps(3,4) [OF assms(5), of cl 0] by (simp_all add: numeral_2_eq_2)
  from header_words(4) [OF assms(4) this] show "rw_command (hdr_off cl i 0) t buf n q m a = m a"
    using rw_other_page [OF a(2) assms(2)] by simp
qed

text \<open>
  A request of the block layer becomes the command it asks for. On a port that was set up, with a
  slot free and a disk that becomes ready, \<^verbatim>\<open>ahci_submit\<close> returns 0 and its last access issues a slot that was
  free. In this slot the controller finds the requested command: direction, block, number of
  sectors, address and length of the buffer. The port stays ready, and memory changes only in the pages of the
  command list and of the slot's table.
\<close>

lemma ahci_submit_issues:
  fixes s :: "'x ahcis_scheme"
  assumes "p = bpriv (dev_at s dev)" "pn = get_port_num s p" "q = breqs s r" "rq_write q = 0 \<or> rq_write q = 1"
    and "rq_lba q < 2 ^ 48" "0 < n" "n \<le> 2 ^ 22"
    and "n = rq_count q * (if info_sector_size (port_info s pn) = 0 then 512 else info_sector_size (port_info s pn))"
    and "port_ready s pn" "\<exists>i < 32. \<not> bit (slots_seen E p (io_trace s)) i"
    and "\<forall>tr. \<exists>j. rd32 E (replicate j (Rd32 (p + 0x20)) @ tr) (p + 0x20) AND 0x88 = 0"
  shows "\<exists>t i. ahci_submit E s dev r = Some (0, t) \<and> i < 32 \<and> \<not> bit (slots_seen E p (io_trace s)) i \<and>
    (\<exists>tr. io_trace t = Wr32 (p + 0x38) (push_bit i 1) # tr) \<and>
    slot_command (vk t) (VIRT_TO_PHYS (vk s) (cmd_lists s pn)) (word_of_nat i) = Some \<lparr>dc_write = (rq_write q \<noteq> 0),
      dc_lba = rq_lba q, dc_count = ucast (rq_count q), dc_buf = VIRT_TO_PHYS (vk s) (rq_buf q), dc_bytes = unat n\<rparr> \<and>
    port_ready t pn \<and>
    pg_frame {# page_of (cmd_lists s pn), page_of (cmd_tables s pn (word_of_nat i)) #} (bytes_of s) (bytes_of t) \<and>
    t = s\<lparr>vk := vk t, io_trace := io_trace t\<rparr>"
proof -
  obtain i where i: "i < 32" "\<not> bit (slots_seen E p (io_trace s)) i"
    "ahci_find_slot E p (ahci_port_clear_interrupts p s) = (word_of_nat i,
      s\<lparr>io_trace := Rd32 (p + 0x38) # Rd32 (p + 0x34) # Wr32 (p + 0x10) (- 1) # io_trace s\<rparr>)"
    using find_slot_free [OF assms(10)] by auto
  define tr where "tr = Rd32 (p + 0x38) # Rd32 (p + 0x34) # Wr32 (p + 0x10) (- 1) # io_trace s"
  define cl where "cl = cmd_lists s pn"
  define tb where "tb = cmd_tables s pn (word_of_nat i)"
  define m where "m = rw_command (hdr_off cl i 0) tb (VIRT_TO_PHYS (vk s) (rq_buf q)) n q (bytes_of s)"
  obtain j where w: "wait_while E (p + 0x20) (\<lambda>v. v AND 0x88 \<noteq> 0) (s\<lparr>vk := (vk s)\<lparr>kbytes := m\<rparr>, io_trace := tr\<rparr>) =
      Some (s\<lparr>vk := (vk s)\<lparr>kbytes := m\<rparr>, io_trace := replicate j (Rd32 (p + 0x20)) @ tr\<rparr>)"
    using wait_while_ends [of "\<lambda>v. v AND 0x88 \<noteq> 0" E "p + 0x20" "s\<lparr>vk := (vk s)\<lparr>kbytes := m\<rparr>, io_trace := tr\<rparr>"] assms(11)
    by auto
  let ?t = "s\<lparr>vk := (vk s)\<lparr>kbytes := m\<rparr>,
      io_trace := Wr32 (p + 0x38) (push_bit i 1) # replicate j (Rd32 (p + 0x20)) @ tr\<rparr>"
  have u: "unat (word_of_nat i :: i32) = i" using i(1) by (simp add: unat_of_nat_id)
  have "(0x80 OR 8 :: u32) = 0x88" by simp
  then have run: "ahci_submit E s dev r = Some (0, ?t)"
    unfolding ahci_submit_def Let_def assms(1-3) [symmetric] assms(8) [symmetric] i(3) prod.case hdr_off_simps(1) [OF i(1)]
      ahci_submit_dma_def
    using slot_not_negative [OF i(1)] w
    by (simp add: m_def cl_def tb_def tr_def set_bytes_def io_simps u trace_vk_commute)
  note k = rw_keeps_header [OF _ _ _ assms(4) i(1)]
  have r: "pg_aligned cl" "pg_aligned tb" "page_of tb \<noteq> page_of cl"
    "\<And>l. l < 32 \<Longrightarrow> dword (bytes_of s) (hdr_off cl l 8) = VIRT_TO_PHYS (vk s) (cmd_tables s pn (word_of_nat l))"
    using assms(9) i(1) by (simp_all add: port_ready_iff cl_def tb_def)
  have ready: "port_ready ?t pn"
    using assms(9) k(3) [OF r(1-3)] by (simp add: port_ready_iff m_def VIRT_TO_PHYS_def flip: cl_def)
  have "slot_command (vk ?t) (VIRT_TO_PHYS (vk s) cl) (word_of_nat i) = Some \<lparr>dc_write = (rq_write q \<noteq> 0),
      dc_lba = rq_lba q, dc_count = ucast (rq_count q), dc_buf = VIRT_TO_PHYS (vk s) (rq_buf q), dc_bytes = unat n\<rparr>"
  proof -
    have h: "m (hdr_off cl i l) = fill_header (hdr_off cl i 0) (rq_write q) (bytes_of s) (hdr_off cl i l)" if "l < 4" for l
      unfolding m_def using k(2) [OF r(1-3) i(1) that] .
    have "ld16 m (hdr_off cl i 0 + 2) = 1"
      unfolding header_words(2) [OF assms(4), of "hdr_off cl i 0" "bytes_of s", symmetric]
      by (rule ld16_bytes_cong) (use h [of 2] h [of 3] in \<open>simp_all add: hdr_off_simps i(1) numeral_2_eq_2 numeral_3_eq_3\<close>)
    moreover have "m (hdr_off cl i 0) AND 0x1F = 5" "m (hdr_off cl i 0) AND 0x40 = (if rq_write q = 0 then 0 else 0x40)"
      using h [of 0] header_words(1,3) [OF assms(4)] by simp_all
    moreover have "dword m (hdr_off cl i 0 + 8) = VIRT_TO_PHYS (vk s) tb"
      using k(3) [OF r(1-3) i(1)] r(4) [OF i(1)] i(1) by (simp add: m_def tb_def hdr_off_simps)
    moreover have "table_command m tb (rq_write q \<noteq> 0) = Some \<lparr>dc_write = (rq_write q \<noteq> 0), dc_lba = rq_lba q,
        dc_count = ucast (rq_count q), dc_buf = VIRT_TO_PHYS (vk s) (rq_buf q), dc_bytes = unat n\<rparr>"
      unfolding m_def by (rule table_words [OF assms(4-7)])
    moreover have "PHYS_TO_VIRT (vk ?t) (VIRT_TO_PHYS (vk s) cl + 32 * scast (word_of_nat i :: i32)) = hdr_off cl i 0"
      "PHYS_TO_VIRT (vk ?t) (VIRT_TO_PHYS (vk s) tb) = tb"
      by (simp_all add: PHYS_TO_VIRT_def VIRT_TO_PHYS_def hdr_off_def slot_word i(1))
    ultimately show ?thesis by (cases "rq_write q = 0") (simp_all add: slot_command_def Let_def)
  qed
  moreover have "pg_frame {# page_of cl, page_of tb #} (bytes_of s) (bytes_of ?t)"
    using k(4) [OF r(1-3) i(1)] by (simp add: pg_frame_def m_def)
  ultimately show ?thesis using run ready i(1,2) unfolding cl_def tb_def by (intro exI [of _ ?t] exI [of _ i]) simp
qed

text \<open>A machine with memory \<open>k\<close>, one disk on port 0 of a controller, and all slots of the port at one table.\<close>

definition sata_ahcis :: "kmem \<Rightarrow> ahcis" where
  "sata_ahcis k = atas.extend (disk_atas\<lparr>vk := k,
       blk_devices := [no_device\<lparr>sector_size := 512, bpriv := hhdm0 + 0x100100, current_req := 0x100\<rparr>]\<rparr>)
     (ahcis.fields None (hhdm0 + 0x100000) 0 \<lparr>info_sector_size = 512, sector_count = 0, model = []\<rparr>
       (\<lambda>_. hhdm0 + 0x8000) (\<lambda>_. 0) (\<lambda>_ _. hhdm0 + 0x9000) (\<lambda>_. \<lparr>info_sector_size = 0, sector_count = 0, model = []\<rparr>) (\<lambda>_. 0))"

lemma sata_ahcis_simps [simp]:
  "vk (sata_ahcis k) = k" "cmd_lists (sata_ahcis k) = (\<lambda>_. hhdm0 + 0x8000)" "cmd_tables (sata_ahcis k) = (\<lambda>_ _. hhdm0 + 0x9000)"
  "breqs (sata_ahcis k) = (\<lambda>_. disk_request)" "hba (sata_ahcis k) = hhdm0 + 0x100000"
  "dev_at (sata_ahcis k) 1 = no_device\<lparr>sector_size := 512, bpriv := hhdm0 + 0x100100, current_req := 0x100\<rparr>"
  "port_info (sata_ahcis k) = (\<lambda>_. \<lparr>info_sector_size = 0, sector_count = 0, model = []\<rparr>)"
  by (simp_all add: sata_ahcis_def disk_atas_def with_madt_def dev_at_def ios.defs apics.defs procs.defs pcis.defs
    atas.defs ahcis.defs)

definition list_memory :: mem where
  "list_memory a = (if unat a mod 32 = 9 then 0x90 else 0)"

lemma sata_port_ready: "port_ready (sata_ahcis (fresh_kmem\<lparr>kbytes := list_memory\<rparr>)) pn"
proof -
  have u: "unat (hdr_off (hhdm0 + 0x8000) i k) mod 32 = k" if "i < 32" "k < 32" for i k
  proof -
    have "unat (hhdm0 + 0x8000) = 0xffff800000008000" by (simp add: hhdm0_def)
    moreover have "unat (word_of_nat (32 * i + k) :: u64) = 32 * i + k" by (rule unat_of_nat_id) (use that in simp)
    moreover from calculation have "unat (hhdm0 + 0x8000) + unat (word_of_nat (32 * i + k) :: u64) < 2 ^ LENGTH(64)"
      using that by simp
    ultimately have "unat (hdr_off (hhdm0 + 0x8000) i k) = 0xffff800000008000 + (32 * i + k)"
      unfolding hdr_off_def by (simp only: unat_add_lt)
    then have "unat (hdr_off (hhdm0 + 0x8000) i k) = k + 32 * (0x7fffc0000000400 + i)" by simp
    then show ?thesis using that(2) by (simp only: mod_mult_self2 mod_less)
  qed
  have b: "list_memory (hdr_off (hhdm0 + 0x8000) i k) = (if k = 9 then 0x90 else 0)" if "i < 32" "k < 32" for i k
    by (simp add: list_memory_def u [OF that])
  have "dword list_memory (hdr_off (hhdm0 + 0x8000) i 8) = 0x9000" if "i < 32" for i
    by (rule dword_words; rule ld32I) (simp_all add: hdr_off_num b that)
  then show ?thesis
    by (simp add: port_ready_iff pg_aligned_def page_of_def hhdm0_def VIRT_TO_PHYS_def fresh_kmem_def kinit_def)
qed

section \<open>Setting a port up\<close>

text \<open>A zeroed page is taken from the free ones; nothing in use changes.\<close>

lemma zeroed_page_taken:
  assumes "buddy_ok (vk s) F" "F \<noteq> {#}"
  shows "\<exists>b k F'. zeroed_page s = Some (b, s\<lparr>vk := k\<rparr>) \<and> b \<noteq> 0 \<and> pg_aligned b \<and> buddy_ok k F' \<and>
    F = F' + {# page_of b #} \<and> page_of b \<notin># F' \<and> khhdm k = khhdm (vk s) \<and> pg_frame F (bytes_of s) (kbytes k)"
proof -
  obtain b k F' where b: "kalloc (vk s) 1 = Some (b, k)" "b \<noteq> 0" "pg_aligned b" "buddy_ok k F'"
    "F = F' + {# page_of b #}" "pg_frame F (bytes_of s) (kbytes k)" "khhdm k = khhdm (vk s)"
    using kalloc_page [OF assms] unfolding same_cpu_def by blast
  have "once (F' + {# page_of b #})" using assms(1) b(5) by (auto simp: buddy_ok_def buddy_rel_def)
  then have n: "page_of b \<notin># F'" using once_disjoint [of F' "{# page_of b #}"] by auto
  let ?m = "memset (kbytes k) b 0 PAGE_SIZE"
  have f: "pg_frame {# page_of b #} (kbytes k) ?m" by (rule memset_page_frame [OF b(3)])
  have "buddy_ok (k\<lparr>kbytes := ?m\<rparr>) F'" by (rule buddy_ok_frame [OF b(4) f]) (use n in auto)
  moreover have "pg_frame F (bytes_of s) ?m"
    by (rule pg_frame_trans [OF b(6) pg_frame_mono [OF f]]) (simp add: b(5))
  ultimately show ?thesis using b n
    by (intro exI [of _ b] exI [of _ "k\<lparr>kbytes := ?m\<rparr>"] exI [of _ F'])
      (simp add: zeroed_page_def alloc_pages_def set_bytes_def)
qed

text \<open>The first \<open>i\<close> slots of a list at \<open>cl\<close> have tables of their own, in pages that are not free.\<close>

definition slots_done :: "(i32 \<Rightarrow> addr) \<Rightarrow> addr \<Rightarrow> kmem \<Rightarrow> nat multiset \<Rightarrow> nat \<Rightarrow> bool" where
  "slots_done tbl cl k F i \<longleftrightarrow> inj_on (\<lambda>j. page_of (tbl (word_of_nat j))) {..<i} \<and>
     (\<forall>j < i. pg_aligned (tbl (word_of_nat j)) \<and> page_of (tbl (word_of_nat j)) \<noteq> page_of cl \<and>
        page_of (tbl (word_of_nat j)) \<notin># F \<and> dword (kbytes k) (hdr_off cl j 8) = VIRT_TO_PHYS k (tbl (word_of_nat j)))"

lemma set_table_upd:
  "set_table (hdr_off cl i 0) phys m = m(hdr_off cl i 11 := ucast (drop_bit 24 (ucast phys :: u32)),
     hdr_off cl i 10 := ucast (drop_bit 16 (ucast phys :: u32)), hdr_off cl i 9 := ucast (drop_bit 8 (ucast phys :: u32)),
     hdr_off cl i 8 := ucast (ucast phys :: u32), hdr_off cl i 15 := ucast (drop_bit 24 (ucast (drop_bit 32 phys) :: u32)),
     hdr_off cl i 14 := ucast (drop_bit 16 (ucast (drop_bit 32 phys) :: u32)),
     hdr_off cl i 13 := ucast (drop_bit 8 (ucast (drop_bit 32 phys) :: u32)),
     hdr_off cl i 12 := ucast (ucast (drop_bit 32 phys) :: u32))"
  by (simp add: set_table_def st32_upd add.assoc hdr_off_num)

lemma set_table_words:
  assumes "i < 32" "j < 32" "pg_aligned cl"
  shows "dword (set_table (hdr_off cl i 0) phys m) (hdr_off cl j 8) = (if i = j then phys else dword m (hdr_off cl j 8))"
    and "pg_frame {# page_of cl #} m (set_table (hdr_off cl i 0) phys m)"
proof -
  let ?h = "hdr_off cl i 0" and ?m = "set_table (hdr_off cl i 0) phys m"
  show "dword ?m (hdr_off cl j 8) = (if i = j then phys else dword m (hdr_off cl j 8))"
  proof (cases "i = j")
    case True
    have "dword ?m (?h + 8) = phys"
      by (rule dword_words; rule ld32I) (simp_all add: set_table_def st32_upd add.assoc)
    then show ?thesis using True by (simp add: hdr_off_num)
  next
    case False
    have "?m (hdr_off cl j l) = m (hdr_off cl j l)" if "l < 32" for l
      using that assms False by (simp add: set_table_upd hdr_off_simps)
    from this [of 8] this [of 9] this [of 10] this [of 11] this [of 12] this [of 13] this [of 14] this [of 15]
    have "dword ?m (hdr_off cl j 8) = dword m (hdr_off cl j 8)"
      unfolding dword_def
      by (intro arg_cong2 [where f = "(OR)"] arg_cong [where f = "push_bit 32"] arg_cong [where f = ucast] ld32_bytes_cong)
        (simp_all add: hdr_off_simps(2-6) [OF assms(2)])
    then show ?thesis using False by simp
  qed
  have "a \<noteq> hdr_off cl i l" if "page_of a \<noteq> page_of cl" "l < 32" for a l
    using that assms(3) hdr_off_simps(7) [OF assms(1) that(2)] by auto
  then show "pg_frame {# page_of cl #} m ?m" by (simp add: pg_frame_def set_table_upd)
qed

lemma slots_done_frame:
  assumes "slots_done tbl cl k F i" "pg_aligned cl" "page_of cl \<notin># G" "i \<le> 32" "khhdm k' = khhdm k"
    and "pg_frame G (kbytes k) (kbytes k')" "set_mset F' \<subseteq> set_mset F"
  shows "slots_done tbl cl k' F' i"
proof -
  have "kbytes k' (hdr_off cl j l) = kbytes k (hdr_off cl j l)" if "j < 32" "l < 32" for j l
    using assms(2,3,6) hdr_off_simps(7) [OF that] by (simp add: pg_frame_def)
  then have "dword (kbytes k') (hdr_off cl j 8) = dword (kbytes k) (hdr_off cl j 8)" if "j < 32" for j
    unfolding dword_def using that
    by (intro arg_cong2 [where f = "(OR)"] arg_cong [where f = "push_bit 32"] arg_cong [where f = ucast] ld32_bytes_cong)
      (simp_all add: hdr_off_simps(2-6) [OF that])
  then show ?thesis using assms(1,4,5,7) by (auto simp: slots_done_def VIRT_TO_PHYS_def)
qed

lemma tables_vk_commute: "s\<lparr>cmd_tables := c, vk := k\<rparr> = s\<lparr>vk := k, cmd_tables := c\<rparr>"
  by (cases s) simp

text \<open>One round of the loop: one more slot is done.\<close>

lemma slots_done_next:
  assumes "slots_done tbl cl k F' i" "i < 32" "pg_aligned cl" "page_of cl \<notin># F'" "pg_aligned b" "page_of b \<noteq> page_of cl"
    and "page_of b \<notin># F'" "\<forall>j < i. page_of (tbl (word_of_nat j)) \<noteq> page_of b"
  shows "slots_done (tbl(word_of_nat i := b)) cl
    (k\<lparr>kbytes := set_table (hdr_off cl i 0) (VIRT_TO_PHYS k b) (kbytes k)\<rparr>) F' (Suc i)"
proof -
  have w: "(word_of_nat j :: i32) = word_of_nat i \<longleftrightarrow> j = i" if "j < 32" for j
    using that assms(2) by (simp add: word_unat_eq_iff unat_of_nat_id)
  show ?thesis
    unfolding slots_done_def
  proof (intro conjI allI impI)
    show "inj_on (\<lambda>j. page_of ((tbl(word_of_nat i := b)) (word_of_nat j))) {..<Suc i}"
    proof (rule inj_onI)
      fix x y assume "x \<in> {..<Suc i}" "y \<in> {..<Suc i}"
        and e: "page_of ((tbl(word_of_nat i := b)) (word_of_nat x)) = page_of ((tbl(word_of_nat i := b)) (word_of_nat y))"
      then have "x < i \<or> x = i" "y < i \<or> y = i" "x < 32" "y < 32" using assms(2) by auto
      then show "x = y" using e assms(1,8) w [of x] w [of y] by (auto simp: slots_done_def inj_on_def split: if_splits)
    qed
  next
    fix j assume "j < Suc i"
    then have j: "j < i \<or> j = i" "j < 32" using assms(2) by auto
    then show "pg_aligned ((tbl(word_of_nat i := b)) (word_of_nat j))"
      "page_of ((tbl(word_of_nat i := b)) (word_of_nat j)) \<noteq> page_of cl"
      "page_of ((tbl(word_of_nat i := b)) (word_of_nat j)) \<notin># F'"
      using assms w by (auto simp: slots_done_def)
    show "dword (kbytes (k\<lparr>kbytes := set_table (hdr_off cl i 0) (VIRT_TO_PHYS k b) (kbytes k)\<rparr>)) (hdr_off cl j 8) =
      VIRT_TO_PHYS (k\<lparr>kbytes := set_table (hdr_off cl i 0) (VIRT_TO_PHYS k b) (kbytes k)\<rparr>)
        ((tbl(word_of_nat i := b)) (word_of_nat j))"
      using j assms(1) w [OF j(2)] set_table_words(1) [OF assms(2) j(2) assms(3)]
      by (auto simp: slots_done_def VIRT_TO_PHYS_def)
  qed
qed

lemma alloc_tables_ready:
  assumes "i + n = 32" "buddy_ok (vk s) F" "n \<le> size F" "pg_aligned cl" "page_of cl \<notin># F"
    and "slots_done (cmd_tables s pn) cl (vk s) F i"
  shows "\<exists>k F' tb. alloc_tables pn cl n (word_of_nat i) s = Some (True, s\<lparr>vk := k, cmd_tables := (cmd_tables s)(pn := tb)\<rparr>) \<and>
    buddy_ok k F' \<and> size F = size F' + n \<and> set_mset F' \<subseteq> set_mset F \<and> slots_done tb cl k F' 32 \<and>
    khhdm k = khhdm (vk s) \<and> pg_frame (F + {# page_of cl #}) (bytes_of s) (kbytes k)"
  using assms
proof (induction n arbitrary: s F i)
  case 0
  then show ?case by (intro exI [of _ "vk s"] exI [of _ F] exI [of _ "cmd_tables s pn"]) simp
next
  case (Suc n)
  have i: "i < 32" and F: "F \<noteq> {#}" using Suc.prems(1,3) by auto
  obtain b k F1 where b: "zeroed_page s = Some (b, s\<lparr>vk := k\<rparr>)" "b \<noteq> 0" "pg_aligned b" "buddy_ok k F1"
    "F = F1 + {# page_of b #}" "page_of b \<notin># F1" "khhdm k = khhdm (vk s)" "pg_frame F (bytes_of s) (kbytes k)"
    using zeroed_page_taken [OF Suc.prems(2) F] by blast
  let ?tb = "(cmd_tables s pn)(word_of_nat i := b)"
  let ?m = "set_table (hdr_off cl i 0) (VIRT_TO_PHYS k b) (kbytes k)"
  let ?s = "s\<lparr>vk := k\<lparr>kbytes := ?m\<rparr>, cmd_tables := (cmd_tables s)(pn := ?tb)\<rparr>"
  have cl: "page_of cl \<notin># F1" "page_of b \<noteq> page_of cl" using Suc.prems(5) b(5) by auto
  have sub: "set_mset F1 \<subseteq> set_mset F" by (auto simp: b(5))
  have "slots_done (cmd_tables s pn) cl k F1 i"
    by (rule slots_done_frame [OF Suc.prems(6,4,5) _ b(7,8) sub]) (use i in simp)
  moreover have "\<forall>j < i. page_of (cmd_tables s pn (word_of_nat j)) \<noteq> page_of b"
    using Suc.prems(6) b(5) by (auto simp: slots_done_def)
  ultimately have sd: "slots_done ?tb cl (k\<lparr>kbytes := ?m\<rparr>) F1 (Suc i)"
    using slots_done_next [OF _ i Suc.prems(4) cl(1) b(3) cl(2) b(6)] by blast
  have fr: "pg_frame {# page_of cl #} (kbytes k) ?m" by (rule set_table_words(2) [OF i i Suc.prems(4)])
  have ok: "buddy_ok (k\<lparr>kbytes := ?m\<rparr>) F1" by (rule buddy_ok_frame [OF b(4) fr]) (use cl in auto)
  have "slots_done (cmd_tables ?s pn) cl (vk ?s) F1 (Suc i)" using sd by (simp del: fun_upd_apply)
      (simp only: fun_upd_same)
  moreover have "Suc i + n = 32" "n \<le> size F1" "buddy_ok (vk ?s) F1" using Suc.prems(1,3) b(5) ok by simp_all
  ultimately have ih: "\<exists>k F' tb. alloc_tables pn cl n (word_of_nat (Suc i)) ?s =
      Some (True, ?s\<lparr>vk := k, cmd_tables := (cmd_tables ?s)(pn := tb)\<rparr>) \<and> buddy_ok k F' \<and> size F1 = size F' + n \<and>
      set_mset F' \<subseteq> set_mset F1 \<and> slots_done tb cl k F' 32 \<and> khhdm k = khhdm (vk ?s) \<and>
      pg_frame (F1 + {# page_of cl #}) (bytes_of ?s) (kbytes k)"
    by (intro Suc.IH [OF _ _ _ Suc.prems(4) cl(1)])
  then have ih: "\<exists>k2 F' tb. alloc_tables pn cl n (word_of_nat (Suc i)) ?s =
      Some (True, ?s\<lparr>vk := k2, cmd_tables := (cmd_tables ?s)(pn := tb)\<rparr>) \<and> buddy_ok k2 F' \<and> size F1 = size F' + n \<and>
      set_mset F' \<subseteq> set_mset F1 \<and> slots_done tb cl k2 F' 32 \<and> khhdm k2 = khhdm k \<and>
      pg_frame (F1 + {# page_of cl #}) ?m (kbytes k2)" by simp
  obtain k2 F2 tb where r: "alloc_tables pn cl n (word_of_nat (Suc i)) ?s =
      Some (True, ?s\<lparr>vk := k2, cmd_tables := (cmd_tables ?s)(pn := tb)\<rparr>)" "buddy_ok k2 F2" "size F1 = size F2 + n"
    "set_mset F2 \<subseteq> set_mset F1" "slots_done tb cl k2 F2 32" "khhdm k2 = khhdm k"
    "pg_frame (F1 + {# page_of cl #}) ?m (kbytes k2)"
    using ih by blast
  have "alloc_tables pn cl (Suc n) (word_of_nat i) s = Some (True, s\<lparr>vk := k2, cmd_tables := (cmd_tables s)(pn := tb)\<rparr>)"
    using r(1) b(1,2) i by (simp add: set_bytes_def Let_def hdr_off_simps(1) tables_vk_commute hdr_off_def slot_word add.commute)
  moreover have "pg_frame (F + {# page_of cl #}) (bytes_of s) (kbytes k2)"
    using pg_frame_trans [OF b(8) [THEN pg_frame_mono] pg_frame_trans [OF fr [THEN pg_frame_mono] r(7) [THEN pg_frame_mono]],
      of "F + {# page_of cl #}"] by (auto simp: b(5))
  moreover have "size F = size F2 + Suc n" "set_mset F2 \<subseteq> set_mset F" "khhdm k2 = khhdm (vk s)"
    using r(3,4,6) b(5,7) sub by auto
  ultimately show ?case using r(2,5) by blast
qed

text \<open>The value last written to a register, and to a pair of registers.\<close>

fun reg_last :: "addr \<Rightarrow> io_event list \<Rightarrow> u32" where
  "reg_last a (Wr32 b v # tr) = (if a = b then v else reg_last a tr)"
| "reg_last a (e # tr) = reg_last a tr"
| "reg_last a [] = 0"

lemma reg_last_reads [simp]: "reg_last a (replicate n (Rd32 b) @ tr) = reg_last a tr"
  by (induction n) simp_all

definition reg64 :: "addr \<Rightarrow> io_event list \<Rightarrow> u64" where
  "reg64 a tr = push_bit 32 (ucast (reg_last (a + 4) tr)) OR ucast (reg_last a tr)"

lemma reg64_set_base: "reg64 a (io_trace (set_base a phys s)) = phys"
  unfolding reg64_def set_base_def
  by (simp add: io_simps) (rule bit_word_eqI, auto simp: bit_simps dest!: le_Suc_ex)

text \<open>The engines of the port at \<open>p\<close> stop when they are told to.\<close>

definition stops :: "io_env \<Rightarrow> addr \<Rightarrow> bool" where
  "stops E p \<longleftrightarrow> (\<forall>tr. (\<exists>j. rd32 E (replicate j (Rd32 (p + 0x18)) @ tr) (p + 0x18) AND 0x8000 = 0) \<and>
     (\<exists>j. rd32 E (replicate j (Rd32 (p + 0x18)) @ tr) (p + 0x18) AND 0x4000 = 0))"

lemma stops_waits:
  assumes "stops E p"
  shows "\<exists>n. wait_while E (p + 0x18) (\<lambda>v. v AND 0x8000 \<noteq> 0) s =
      Some (s\<lparr>io_trace := replicate n (Rd32 (p + 0x18)) @ io_trace s\<rparr>)"
    and "\<exists>n. wait_while E (p + 0x18) (\<lambda>v. v AND 0x4000 \<noteq> 0) s =
      Some (s\<lparr>io_trace := replicate n (Rd32 (p + 0x18)) @ io_trace s\<rparr>)"
  by (rule wait_while_ends, use assms in \<open>simp add: stops_def\<close>)+

lemma port_stop_start:
  assumes "stops E p"
  shows "\<exists>tr. ahci_port_stop E p s = Some (s\<lparr>io_trace := tr\<rparr>)"
    and "\<exists>tr. ahci_port_start E p s = Some (s\<lparr>io_trace := tr\<rparr>) \<and>
      (\<forall>a. a \<noteq> p + 0x18 \<longrightarrow> reg_last a tr = reg_last a (io_trace s))"
proof -
  let ?s = "modify_reg E (p + 0x18) (\<lambda>v. v AND NOT 1) s"
  obtain n where n: "wait_while E (p + 0x18) (\<lambda>v. v AND 0x8000 \<noteq> 0) ?s =
      Some (?s\<lparr>io_trace := replicate n (Rd32 (p + 0x18)) @ io_trace ?s\<rparr>)" using stops_waits(1) [OF assms] by blast
  let ?u = "modify_reg E (p + 0x18) (\<lambda>v. v AND NOT 0x10) (?s\<lparr>io_trace := replicate n (Rd32 (p + 0x18)) @ io_trace ?s\<rparr>)"
  obtain k where "wait_while E (p + 0x18) (\<lambda>v. v AND 0x4000 \<noteq> 0) ?u =
      Some (?u\<lparr>io_trace := replicate k (Rd32 (p + 0x18)) @ io_trace ?u\<rparr>)" using stops_waits(2) [OF assms] by blast
  with n have "ahci_port_stop E p s = Some (?u\<lparr>io_trace := replicate k (Rd32 (p + 0x18)) @ io_trace ?u\<rparr>)"
    by (simp only: ahci_port_stop_def) (simp only: bind.bind_lunit)
  then show "\<exists>tr. ahci_port_stop E p s = Some (s\<lparr>io_trace := tr\<rparr>)" by (simp add: modify_reg_def io_simps) blast
  obtain j where "wait_while E (p + 0x18) (\<lambda>v. v AND 0x8000 \<noteq> 0) s =
      Some (s\<lparr>io_trace := replicate j (Rd32 (p + 0x18)) @ io_trace s\<rparr>)" using stops_waits(1) [OF assms] by blast
  then show "\<exists>tr. ahci_port_start E p s = Some (s\<lparr>io_trace := tr\<rparr>) \<and>
      (\<forall>a. a \<noteq> p + 0x18 \<longrightarrow> reg_last a tr = reg_last a (io_trace s))"
    by (auto simp: ahci_port_start_def modify_reg_def io_simps)
qed

text \<open>
  C23: a port that was set up is ready. With 34 free pages and engines that stop when they are told to,
  \<^verbatim>\<open>ahci_port_init\<close> returns 0; every slot of the command list then has a table in a page of its own and its
  header holds the table's physical address, and the registers of the port hold the addresses of
  the list and of the area for received frames. Exactly 34 pages are taken.
\<close>

theorem ahci_port_init_ready:
  assumes "buddy_ok (vk s) F" "34 \<le> size F" "stops E p" "pn = get_port_num s p"
  shows "\<exists>t F'. ahci_port_init E p s = Some (0, t) \<and> port_ready t pn \<and> buddy_ok (vk t) F' \<and> size F = size F' + 34 \<and>
    inj_on (\<lambda>i. page_of (cmd_tables t pn (word_of_nat i))) {..<32} \<and>
    reg64 p (io_trace t) = VIRT_TO_PHYS (vk t) (cmd_lists t pn) \<and>
    reg64 (p + 8) (io_trace t) = VIRT_TO_PHYS (vk t) (fis_areas t pn)"
proof -
  obtain tr1 where 1: "ahci_port_stop E p s = Some (s\<lparr>io_trace := tr1\<rparr>)" using port_stop_start(1) [OF assms(3)] by blast
  define s1 where "s1 = s\<lparr>io_trace := tr1\<rparr>"
  have "buddy_ok (vk s1) F" "F \<noteq> {#}" using assms(1,2) by (auto simp: s1_def)
  then obtain cl k1 F1 where 2: "zeroed_page s1 = Some (cl, s1\<lparr>vk := k1\<rparr>)" "cl \<noteq> 0" "pg_aligned cl" "buddy_ok k1 F1"
    "F = F1 + {# page_of cl #}" "page_of cl \<notin># F1"
    using zeroed_page_taken [of s1 F] by blast
  define s2 where "s2 = s1\<lparr>vk := k1\<rparr>"
  define s3 where "s3 = set_base p (VIRT_TO_PHYS (vk s2) cl) (s2\<lparr>cmd_lists := (cmd_lists s2)(pn := cl)\<rparr>)"
  have 3: "vk s3 = k1" "cmd_tables s3 = cmd_tables s" "cmd_lists s3 pn = cl"
    by (simp_all add: s3_def s2_def s1_def set_base_def io_simps)
  have "buddy_ok (vk s3) F1" "F1 \<noteq> {#}" using 2(4,5) assms(2) by (auto simp: 3)
  then obtain fa k2 F2 where 4: "zeroed_page s3 = Some (fa, s3\<lparr>vk := k2\<rparr>)" "fa \<noteq> 0" "buddy_ok k2 F2"
    "F1 = F2 + {# page_of fa #}" "khhdm k2 = khhdm (vk s3)"
    using zeroed_page_taken [of s3 F1] by blast
  define s4 where "s4 = s3\<lparr>vk := k2\<rparr>"
  define s5 where "s5 = set_base (p + 8) (VIRT_TO_PHYS (vk s4) fa) (s4\<lparr>fis_areas := (fis_areas s4)(pn := fa)\<rparr>)"
  have 5: "vk s5 = k2" "cmd_tables s5 = cmd_tables s" "cmd_lists s5 pn = cl" "fis_areas s5 pn = fa"
    by (simp_all add: s5_def s4_def 3 set_base_def io_simps)
  have "slots_done (cmd_tables s5 pn) cl (vk s5) F2 0" by (simp add: slots_done_def)
  moreover have "buddy_ok (vk s5) F2" "32 \<le> size F2" "page_of cl \<notin># F2" "(0 :: nat) + 32 = 32"
    using 4 2(5,6) assms(2) by (auto simp: 5)
  ultimately have "\<exists>k F' tb. alloc_tables pn cl 32 (word_of_nat 0) s5 =
      Some (True, s5\<lparr>vk := k, cmd_tables := (cmd_tables s5)(pn := tb)\<rparr>) \<and> buddy_ok k F' \<and> size F2 = size F' + 32 \<and>
      set_mset F' \<subseteq> set_mset F2 \<and> slots_done tb cl k F' 32 \<and> khhdm k = khhdm (vk s5) \<and>
      pg_frame (F2 + {# page_of cl #}) (bytes_of s5) (kbytes k)"
    by (intro alloc_tables_ready [OF _ _ _ 2(3)])
  then obtain k F' tb where 6: "alloc_tables pn cl 32 0 s5 = Some (True, s5\<lparr>vk := k, cmd_tables := (cmd_tables s5)(pn := tb)\<rparr>)"
    "buddy_ok k F'" "size F2 = size F' + 32" "slots_done tb cl k F' 32" "khhdm k = khhdm k2" by (auto simp: 5(1))
  define s6 where "s6 = s5\<lparr>vk := k, cmd_tables := (cmd_tables s5)(pn := tb)\<rparr>"
  have 7: "vk s6 = k" "cmd_tables s6 pn = tb" "cmd_lists s6 pn = cl" "fis_areas s6 pn = fa" "io_trace s6 = io_trace s5"
    by (simp_all add: s6_def 5)
  define s7 where "s7 = modify_reg E (p + 0x30) (\<lambda>v. v) (modify_reg E (p + 0x10) (\<lambda>v. v) s6)"
  obtain tr where 8: "ahci_port_start E p s7 = Some (s7\<lparr>io_trace := tr\<rparr>)"
    "\<forall>a. a \<noteq> p + 0x18 \<longrightarrow> reg_last a tr = reg_last a (io_trace s7)" using port_stop_start(2) [OF assms(3)] by blast
  let ?t = "s7\<lparr>io_trace := tr\<rparr>"
  have 9: "vk s7 = k" "cmd_tables s7 pn = tb" "cmd_lists s7 pn = cl" "fis_areas s7 pn = fa"
    by (simp_all add: s7_def modify_reg_def io_simps 7)
  have r: "reg_last a tr = reg_last a (io_trace s5)" if "a \<in> {p, p + 4, p + 8, p + 12}" for a
    using that 8(2) by (auto simp: s7_def modify_reg_def io_simps 7)
  have f: "reg64 (p + 8) tr = VIRT_TO_PHYS k2 fa"
    using r reg64_set_base [of "p + 8"] unfolding reg64_def s5_def by (simp add: s4_def add.assoc)
  have "reg64 p tr = reg64 p (io_trace s3)"
    using r unfolding reg64_def by (simp add: s5_def s4_def set_base_def io_simps add.assoc)
  then have c: "reg64 p tr = VIRT_TO_PHYS k1 cl" using reg64_set_base [of p] unfolding s3_def by (simp add: s2_def)
  have "ahci_port_init E p s = Some (0, ?t)"
    using 1 [folded s1_def] 2(1) [folded s2_def] 4(1) [folded s4_def] 6(1) [folded s6_def] 8(1) 2(2) 4(2)
    by (simp add: ahci_port_init_def Let_def flip: assms(4) s3_def s5_def s7_def)
  moreover have "port_ready ?t pn" using 6(4) 2(3) by (simp add: port_ready_iff 9 slots_done_def del: fun_upd_apply)
  moreover have "inj_on (\<lambda>i. page_of (tb (word_of_nat i))) {..<32}" using 6(4) by (simp add: slots_done_def)
  moreover have "size F = size F' + 34" using 2(5) 4(4) 6(3) by simp
  moreover have "VIRT_TO_PHYS k1 cl = VIRT_TO_PHYS k cl" "VIRT_TO_PHYS k2 fa = VIRT_TO_PHYS k fa"
    by (simp_all add: VIRT_TO_PHYS_def 6(5) 4(5) 3(1))
  ultimately show ?thesis using c f 6(2) 9 by (intro exI [of _ ?t] exI [of _ F']) simp
qed

definition many_pages :: "kmem option" where
  "many_pages = freerange fresh_kmem 0x10000 0x50000"

theorem ahci_port_init_ready_witness:
  "\<exists>k t. many_pages = Some k \<and> ahci_port_init ready_disk (hhdm0 + 0x100100) (sata_ahcis k) = Some (0, t) \<and> port_ready t 0"
proof -
  let ?P = "mset [0xffff800000010 ..< 0xffff800000050] :: nat multiset"
  have "once ?P" by (simp only: once_def mset_upt) (simp add: count_mset_set')
  then obtain k where k: "many_pages = Some k" "buddy_ok k ?P"
    using freerange_rel [OF buddy_ok_fresh, of "0x50000" "0x10000"]
    by (auto simp: many_pages_def window_ok_def fresh_kmem_def kinit_def hhdm0_def)
  have "stops ready_disk p" for p by (simp add: stops_def ready_disk_def)
  moreover have "0 = get_port_num (sata_ahcis k) (hhdm0 + 0x100100)" by (simp add: get_port_num_def)
  moreover have "buddy_ok (vk (sata_ahcis k)) ?P" "34 \<le> size ?P" using k(2) by simp_all
  ultimately show ?thesis using ahci_port_init_ready k(1) by blast
qed

section \<open>The identification of a disk\<close>

text \<open>
  The reference: the model is the text of 40 characters whose pairs come in swapped order, without
  trailing spaces; word 106 says whether words 117 and 118 hold the sector size in words.
\<close>

definition swapped :: "nat \<Rightarrow> nat" where
  "swapped j = (if even j then j + 1 else j - 1)"

definition id_text :: "mem \<Rightarrow> addr \<Rightarrow> u8 list" where
  "id_text m a = rev (dropWhile (\<lambda>c. c = 0x20) (rev (map (\<lambda>j. m (a + 54 + word_of_nat (swapped j))) [0..<40])))"

definition id_sector_size :: "mem \<Rightarrow> addr \<Rightarrow> u32" where
  "id_sector_size m a =
     (let w = ld16 m (a + 2 * 106) in
      if bit w 14 \<and> \<not> bit w 15 \<and> bit w 12 then 2 * ld32 m (a + 2 * 117) else 512)"

lemma swap_model_eq: "swap_model m a n = map (\<lambda>j. m (a + word_of_nat (swapped j))) [0..<2 * n]"
proof (induction n arbitrary: a)
  case (Suc n)
  have "map (\<lambda>j. m (a + word_of_nat (swapped j))) [0..<2 * Suc n] =
      m (a + 1) # m a # map (\<lambda>j. m (a + word_of_nat (swapped (j + 2)))) [0..<2 * n]"
    by (simp add: upt_conv_Cons swapped_def map_Suc_upt [symmetric] comp_def del: upt_Suc)
  moreover have "swapped (j + 2) = swapped j + 2" for j by (auto simp: swapped_def)
  ultimately show ?case using Suc [of "a + 2"] by (simp add: ac_simps)
qed simp

lemma trim_model_eq:
  assumes "j \<le> length md"
  shows "trim_model j md = (let t = rev (dropWhile (\<lambda>c. c = 0x20) (rev (take j md))) in t @ replicate (j - length t) 0 @ drop j md)"
  using assms
proof (induction j arbitrary: md)
  case (Suc j)
  have t: "take (Suc j) md = take j md @ [md ! j]" using Suc.prems by (simp add: take_Suc_conv_app_nth)
  show ?case
  proof (cases "md ! j = 0x20")
    case True
    let ?t = "rev (dropWhile (\<lambda>c. c = 0x20) (rev (take j md)))"
    have "length ?t \<le> j" using length_dropWhile_le [of "\<lambda>c. c = 0x20" "rev (take j md)"] by simp
    moreover have "drop j (md[j := 0]) = 0 # drop (Suc j) md" using Suc.prems
      by (simp add: Cons_nth_drop_Suc [symmetric])
    ultimately show ?thesis using Suc True t
      by (simp add: Let_def Suc_diff_le replicate_app_Cons_same [symmetric])
  next
    case False
    then show ?thesis using t Suc.prems id_take_nth_drop [of j md] by (simp add: min_absorb2)
  qed
qed simp

text \<open>
  C36: the identification data of a disk is read as the ATA specification lays it out, for all data:
  the number of sectors, the size of a sector, and the model as a zero-terminated string without
  its trailing spaces.
\<close>

theorem ahci_parse_identify_spec:
  "ahci_parse_identify m a = \<lparr>info_sector_size = id_sector_size m a, sector_count = ld64 m (a + 2 * 100),
     model = id_text m a @ replicate (41 - length (id_text m a)) 0\<rparr>"
proof -
  have "swap_model m (a + 54) 20 = map (\<lambda>j. m (a + 54 + word_of_nat (swapped j))) [0..<40]"
    by (simp add: swap_model_eq del: upt_rec_numeral)
  then have t: "trim_model 40 (swap_model m (a + 54) 20 @ [0]) = id_text m a @ replicate (40 - length (id_text m a)) 0 @ [0]"
    by (simp add: trim_model_eq id_text_def Let_def del: upt_rec_numeral)
  have "length (id_text m a) \<le> 40"
    using length_dropWhile_le [of "\<lambda>c. c = 0x20" "rev (map (\<lambda>j. m (a + 54 + word_of_nat (swapped j))) [0..<40])"]
    by (simp add: id_text_def del: upt_rec_numeral)
  then have "replicate (40 - length (id_text m a)) (0 :: u8) @ [0] = replicate (41 - length (id_text m a)) 0"
    by (simp add: replicate_append_same Suc_diff_le numeral_eq_Suc [of "num.One"] flip: replicate_Suc)
  moreover have "identified_size m a = id_sector_size m a"
    using bit_iff_and_push_bit_not_eq_0 [of "ld16 m (a + 212)" 12] bit_iff_and_push_bit_not_eq_0 [of "ld16 m (a + 212)" 14]
      bit_iff_and_push_bit_not_eq_0 [of "ld16 m (a + 212)" 15]
    by (simp add: identified_size_def id_sector_size_def Let_def mult.commute)
  ultimately show ?thesis using t by (simp add: ahci_parse_identify_def)
qed

end
