(* ===== verification/Drivers.thy ===== *)
theory Drivers
  imports Ahci
begin

text \<open>
  The two disk drivers behind the block layer: the function that \<^verbatim>\<open>ops.submit\<close> of a device points
  to, and the interrupt that ends the \<^verbatim>\<open>hlt\<close> of a waiting request.
\<close>

text \<open>The address of \<^verbatim>\<open>ata_submit\<close> is \<open>ata_ops\<close>; the other driver is \<^verbatim>\<open>ahci_submit\<close>.\<close>

definition disk_submit :: "io_env \<Rightarrow> addr \<Rightarrow> addr \<Rightarrow> 'x ahcis_scheme \<Rightarrow> addr \<Rightarrow> addr \<Rightarrow> (i32 \<times> 'x ahcis_scheme) option" where
  "disk_submit E ata_ops ops s dev r = (if ops = ata_ops then ata_submit E s dev r else ahci_submit E s dev r)"

text \<open>Vector 48 of \<^verbatim>\<open>exception_handler\<close>.\<close>

definition ahci_vector :: "io_env \<Rightarrow> 'x ahcis_scheme \<Rightarrow> 'x ahcis_scheme" where
  "ahci_vector E s = lapic_eoi (ahci_irq_handler E s)"

definition disk_env :: "io_env \<Rightarrow> addr \<Rightarrow> addr \<Rightarrow> 'x ahcis_scheme blk_env" where
  "disk_env E ata_ops fr = \<lparr>submit_of = disk_submit E ata_ops, irq = (\<lambda>s. Some (ahci_vector E s)), frame = fr\<rparr>"

section \<open>The third controller\<close>

text \<open>\<^verbatim>\<open>nvme_init\<close> of \<^verbatim>\<open>kernel/nvme.c\<close> finds the controller and maps its registers; nothing calls it.\<close>

definition nvme_init :: "io_env \<Rightarrow> 'x pcis_scheme \<Rightarrow> 'x pcis_scheme option" where
  "nvme_init E s =
     (case find_class 1 8 s of
        None \<Rightarrow> log_with klog ''NVME'' (ascii ''no controller found'') s
      | Some d \<Rightarrow> do {
          s1 \<leftarrow> log_args klog ''NVME'' (ascii ''controller at %u:%u.%u'')
            [Num (ucast (d_bus d)), Num (ucast (d_slot d)), Num (ucast (d_func d))] s;
          let (abar, s2) = pci_read_bar E (d_bus d) (d_slot d) (d_func d) 0 s1;
          k \<leftarrow> map_mmio (vk s2) (cr3 s2) abar PAGE_SIZE;
          log_with klog_ok ''NVME'' (ascii ''MMIO mapped'') (s2\<lparr>vk := k\<rparr>)
        })"

end
