(* ===== verification/Drivers_Spec.thy ===== *)
theory Drivers_Spec
  imports Drivers Ahci_Spec
begin

text \<open>
  A request of the block layer from its submission to its completion, through either disk
  driver: the device gets exactly the requested command, and the caller its status.
\<close>

section \<open>The request\<close>

text \<open>The state in which the driver is called, and the request it finds there.\<close>

abbreviation pending :: "io_env \<Rightarrow> addr \<Rightarrow> addr \<Rightarrow> addr \<Rightarrow> u64 \<Rightarrow> u32 \<Rightarrow> addr \<Rightarrow> u8 \<Rightarrow> 'x ahcis_scheme \<Rightarrow> 'x ahcis_scheme" where
  "pending E ao fr \<equiv> submitted (disk_env E ao fr)"

definition new_request :: "u64 \<Rightarrow> u32 \<Rightarrow> addr \<Rightarrow> u8 \<Rightarrow> blk_request" where
  "new_request lba cnt buf wr = \<lparr>rq_lba = lba, rq_count = cnt, rq_buf = buf, rq_write = wr, rq_done = 0, rq_status = 0\<rparr>"

lemma frame_disk [simp]: "frame (disk_env E ao fr) = fr"
  by (simp add: disk_env_def)

lemma pending_simps [simp]:
  "vk (pending E ao fr dev lba cnt buf wr s) = vk s" "io_trace (pending E ao fr dev lba cnt buf wr s) = io_trace s"
  "acpi (pending E ao fr dev lba cnt buf wr s) = acpi s" "chan_at (pending E ao fr dev lba cnt buf wr s) x = chan_at s x"
  "hba (pending E ao fr dev lba cnt buf wr s) = hba s" "port_info (pending E ao fr dev lba cnt buf wr s) = port_info s"
  "cmd_lists (pending E ao fr dev lba cnt buf wr s) = cmd_lists s" "cmd_tables (pending E ao fr dev lba cnt buf wr s) = cmd_tables s"
  "port_blk (pending E ao fr dev lba cnt buf wr s) = port_blk s"
  "length (blk_devices (pending E ao fr dev lba cnt buf wr s)) = length (blk_devices s)"
  "breqs (pending E ao fr dev lba cnt buf wr s) fr = new_request lba cnt buf wr"
  by (simp_all add: submitted_def upd_dev_def upd_req_def chan_at_def new_request_def)

lemma pending_dev:
  assumes "dev \<noteq> 0" "unat dev \<le> length (blk_devices s)"
  shows "dev_at (pending E ao fr dev lba cnt buf wr s) dev = (dev_at s dev)\<lparr>current_req := fr\<rparr>"
proof -
  have "unat dev \<noteq> 0" using assms(1) by (simp add: word_unat_eq_iff)
  then show ?thesis using assms(2) by (simp add: submitted_def upd_req_def) (simp add: dev_at_def)
qed

lemma sync_returns:
  assumes "dev \<noteq> 0" "unat dev \<le> length (blk_devices s)" "u = pending E ao fr dev lba cnt buf wr s"
    and "disk_submit E ao (bsubmit (dev_at s dev)) u dev fr = Some (0, v)"
    and "rq_done (breqs v fr) \<noteq> 0 \<and> w = v \<or> rq_done (breqs v fr) = 0 \<and> w = ahci_vector E v \<and> rq_done (breqs w fr) \<noteq> 0"
  shows "blk_submit_sync (disk_env E ao fr) dev lba cnt buf wr s =
    Some (rq_status (breqs w fr), upd_dev dev (\<lambda>d. d\<lparr>current_req := 0\<rparr>) w)"
proof -
  have "blk_wait (irq (disk_env E ao fr)) fr v = Some w"
    using assms(5) blk_wait.simps [of "irq (disk_env E ao fr)" fr v] blk_wait.simps [of "irq (disk_env E ao fr)" fr w]
    by (auto simp: disk_env_def)
  moreover have "submit_of (disk_env E ao fr) (bsubmit (dev_at u dev)) u dev fr = Some (0, v)"
    using assms(4) pending_dev [OF assms(1,2)] by (simp add: assms(3)) (simp add: disk_env_def)
  ultimately show ?thesis using assms(1,3) by (simp add: blk_submit_sync_def submitted_def)
qed

section \<open>The IDE disk\<close>


text \<open>The machine with the controller table above and its IDE disk behind \<^verbatim>\<open>ata_submit\<close> at 0x77.\<close>

definition ide_ahcis :: ahcis where
  "ide_ahcis = atas.extend (disk_atas\<lparr>blk_devices := [no_device\<lparr>sector_size := 512, bsubmit := 0x77, bpriv := 1\<rparr>]\<rparr>)
     (ahcis.fields None 0 0 \<lparr>info_sector_size = 0, sector_count = 0, model = []\<rparr> (\<lambda>_. 0) (\<lambda>_. 0) (\<lambda>_ _. 0)
       (\<lambda>_. \<lparr>info_sector_size = 0, sector_count = 0, model = []\<rparr>) (\<lambda>_. 0))"

lemma ide_ahcis_simps [simp]:
  "vk ide_ahcis = vk disk_atas" "acpi ide_ahcis = acpi disk_atas" "length (blk_devices ide_ahcis) = 1"
  "dev_at ide_ahcis 1 = no_device\<lparr>sector_size := 512, bsubmit := 0x77, bpriv := 1\<rparr>"
  "chan_at ide_ahcis 1 = first_channel"
  by (simp_all add: ide_ahcis_def disk_atas_def with_madt_def dev_at_def chan_at_def ios.defs apics.defs procs.defs
    pcis.defs atas.defs ahcis.defs)


section \<open>The SATA disk\<close>

lemma port_word: "j < 32 \<Longrightarrow> unat (word_of_nat j :: i32) = j"
  by (simp add: unat_of_nat_id)

lemma one_bit: "i < 32 \<Longrightarrow> j < 32 \<Longrightarrow> (push_bit i 1 :: u32) AND push_bit j 1 = 0 \<longleftrightarrow> i \<noteq> j"
  by (auto simp: bit_eq_iff bit_simps)

text \<open>The handler's work for one port, and for a status with one bit.\<close>

definition port_irq :: "io_env \<Rightarrow> nat \<Rightarrow> 'x ahcis_scheme \<Rightarrow> 'x ahcis_scheme" where
  "port_irq E i s =
     (let p = port_at s (word_of_nat i); (port_is, s1) = mmio_read E (p + 0x10) s;
          s2 = mmio_write (hba s + 8) (push_bit i 1) (mmio_write (p + 0x10) port_is s1)
      in if port_blk s (word_of_nat i) \<noteq> 0
         then blk_complete (port_blk s (word_of_nat i)) (if port_is AND 0x40000000 \<noteq> 0 then - 1 else 0) s2 else s2)"

lemma port_irqs_one:
  assumes "i < 32" "j + n = 32"
  shows "port_irqs E (push_bit i 1) n (word_of_nat j) s = (if j \<le> i then port_irq E i s else s)"
  using assms(2)
proof (induction n arbitrary: j s)
  case (Suc n)
  have j: "j < 32" "Suc j + n = 32" "word_of_nat j + 1 = (word_of_nat (Suc j) :: i32)" using Suc.prems by simp_all
  note ih = Suc.IH [OF j(2)]
  show ?case
  proof (cases "i = j")
    case True
    have "(push_bit j 1 :: u32) \<noteq> 0" using one_bit [OF j(1) j(1)] by (simp del: push_bit_of_1)
    with True show ?thesis
      using ih by (simp add: one_bit assms(1) j port_word port_irq_def Let_def split_beta io_simps del: of_nat_Suc push_bit_of_1)
  next
    case False
    then show ?thesis
      using ih by (auto simp add: one_bit assms(1) j port_word simp del: of_nat_Suc push_bit_of_1)
  qed
qed (use assms(1) in simp)

lemma ahci_vector_completes:
  assumes "i < 32" "\<forall>tr. rd32 E tr (hba v + 8) = push_bit i 1" "port_blk v (word_of_nat i) = dev" "dev \<noteq> 0"
    and "current_req (dev_at v dev) = fr" "fr \<noteq> 0"
  shows "\<exists>tr. breqs (ahci_vector E v) fr = (breqs v fr)\<lparr>rq_status :=
      if rd32 E tr (port_at v (word_of_nat i) + 0x10) AND 0x40000000 \<noteq> 0 then - 1 else 0, rq_done := 1\<rparr> \<and>
    blk_devices (ahci_vector E v) = blk_devices v \<and> (\<exists>tr1. tr = tr1 @ io_trace v)"
proof -
  let ?v = "snd (mmio_read E (hba v + 8) (dma_arrive E v))"
  have "ahci_irq_handler E v = port_irqs E (push_bit i 1) 32 (word_of_nat 0) ?v"
    using assms(2) by (simp add: ahci_irq_handler_def mmio_read_def dma_arrive_def set_bytes_def)
  then have h: "ahci_irq_handler E v = port_irq E i ?v" using port_irqs_one [OF assms(1), of 0 32 E ?v] by simp
  define tr where "tr = Rd32 (hba v + 8) # io_trace v"
  define st where "st = rd32 E tr (port_at v (word_of_nat i) + 0x10)"
  have v: "port_blk ?v = port_blk v" "hba ?v = hba v" "port_at ?v x = port_at v x" "io_trace ?v = tr" "breqs ?v = breqs v"
    "blk_devices ?v = blk_devices v" for x
    by (simp_all add: mmio_read_def io_do_def dma_arrive_def set_bytes_def port_at_def tr_def)
  have d: "current_req (dev_at ?v dev) = fr" using assms(5) by (simp add: dev_at_def v)
  let ?s2 = "mmio_write (hba v + 8) (push_bit i 1) (mmio_write (port_at v (word_of_nat i) + 0x10) st
      (snd (mmio_read E (port_at v (word_of_nat i) + 0x10) ?v)))"
  have s2: "breqs ?s2 = breqs v" "blk_devices ?s2 = blk_devices v"
    by (simp_all add: mmio_read_def mmio_write_def io_do_def dma_arrive_def set_bytes_def)
  have "port_irq E i ?v = blk_complete dev (if st AND 0x40000000 \<noteq> 0 then - 1 else 0) ?s2"
    unfolding port_irq_def Let_def v assms(3) using assms(4) v(4) by (simp add: mmio_read_def st_def del: push_bit_of_1)
  moreover have "dev_at ?s2 dev = dev_at v dev" unfolding dev_at_def s2 ..
  ultimately have p: "port_irq E i ?v = upd_req fr (\<lambda>q. q\<lparr>rq_status := if st AND 0x40000000 \<noteq> 0 then - 1 else 0, rq_done := 1\<rparr>) ?s2"
    using assms(5,6) by (simp add: blk_complete_def)
  have l: "breqs (lapic_eoi t) = breqs t" "blk_devices (lapic_eoi t) = blk_devices t" for t :: "'a ahcis_scheme"
    by (simp_all add: lapic_eoi_def lapic_write_def mmio_write_def io_do_def)
  have u: "blk_devices (upd_req r g t) = blk_devices t" for r g and t :: "'a ahcis_scheme" by (simp add: upd_req_def)
  show ?thesis
    unfolding ahci_vector_def h p l u s2 breqs_upd by (intro exI [of _ tr]) (simp add: st_def tr_def)
qed


text \<open>A controller whose interrupt status names port 0, with slot 0 in use.\<close>

definition sata_disk :: io_env where
  "sata_disk = ready_disk\<lparr>rd32 := (\<lambda>_ _. 1)\<rparr>"


end
