(* ===== verification/Tables.thy ===== *)
theory Tables
  imports Bytes
begin

text \<open>
  The descriptor tables of \<^verbatim>\<open>kernel/gdt.c\<close> and \<^verbatim>\<open>kernel/idt.c\<close> and the model specific registers: one segment
  table and one task state per processor, one interrupt table for all. A segment table is a memory of its own
  with offsets as addresses, the other objects are records; the addresses of the objects are parameters.
  What a processor runs of these when it is started closes the theory.
\<close>

section \<open>Objects\<close>

record tss =
  t_rsp0 :: u64
  t_rsp1 :: u64
  t_rsp2 :: u64
  t_ist :: "u64 list"
  iopb_offset :: u16

record idt_entry =
  offset_1 :: u16
  selector :: u16
  ist :: u8
  type_attr :: u8
  offset_2 :: u16
  offset_3 :: u32
  zero :: u32

text \<open>The registers of a processor that name tables and segments.\<close>

record seg_regs =
  gdtr_limit :: u16
  gdtr_base :: u64
  idtr_limit :: u16
  idtr_base :: u64
  tr_sel :: u16
  cs_sel :: u16
  ds_sel :: u16
  es_sel :: u16
  ss_sel :: u16
  fs_sel :: u16
  gs_sel :: u16

record tables =
  gdt_data :: "mem list"
  tss_array :: "tss list"
  idt :: "idt_entry list"
  idt_ptr :: "u16 \<times> u64"
  seg :: "seg_regs list"
  msr :: "(u32 \<Rightarrow> u64) list"

record table_addrs =
  gdt_addr :: "nat \<Rightarrow> u64"
  tss_addr :: "nat \<Rightarrow> u64"
  idt_addr :: u64
  isr_table :: "nat \<Rightarrow> u64"
  isr_spurious :: u64
  cpu_addr :: "nat \<Rightarrow> u64"
  syscall_stub :: u64

section \<open>Segments\<close>

definition gdt_set_entry :: "u64 \<Rightarrow> u32 \<Rightarrow> u32 \<Rightarrow> u8 \<Rightarrow> u8 \<Rightarrow> mem \<Rightarrow> mem" where
  "gdt_set_entry idx base limit access gran g =
     (let e = idx * 8 in
      (st16 (st16 g e (ucast (limit AND 0xFFFF))) (e + 2) (ucast (base AND 0xFFFF)))
        (e + 4 := ucast (drop_bit 16 base AND 0xFF), e + 5 := access,
         e + 6 := ucast (drop_bit 16 limit AND 0x0F) OR (gran AND 0xF0), e + 7 := ucast (drop_bit 24 base AND 0xFF)))"

definition gdt_set_tss :: "u64 \<Rightarrow> u64 \<Rightarrow> u32 \<Rightarrow> mem \<Rightarrow> mem" where
  "gdt_set_tss idx base limit g =
     (let e = idx * 8;
          g1 = (st16 (st16 g e (ucast (limit AND 0xFFFF))) (e + 2) (ucast (base AND 0xFFFF)))
            (e + 4 := ucast (drop_bit 16 base AND 0xFF), e + 5 := 0x89,
             e + 6 := ucast (drop_bit 16 limit AND 0x0F), e + 7 := ucast (drop_bit 24 base AND 0xFF))
      in st32 (st32 g1 (e + 8) (ucast (drop_bit 32 base AND 0xFFFFFFFF))) (e + 12) 0)"

text \<open>A task state has 104 bytes.\<close>

definition zero_tss :: tss where
  "zero_tss = \<lparr>t_rsp0 = 0, t_rsp1 = 0, t_rsp2 = 0, t_ist = replicate 7 0, iopb_offset = 0\<rparr>"

definition setup_gdt :: "u64 \<Rightarrow> mem \<Rightarrow> mem \<times> tss" where
  "setup_gdt tssp g =
     (let g0 = memset g 0 0 (11 * 8);
          t = zero_tss\<lparr>iopb_offset := 104\<rparr>;
          g1 = gdt_set_entry 0 0 0 0 0 g0;
          g2 = gdt_set_entry 1 0 0xFFFF 0x9A 0x00 g1;
          g3 = gdt_set_entry 2 0 0xFFFF 0x92 0x00 g2;
          g4 = gdt_set_entry 3 0 0xFFFFF 0x9A 0xCF g3;
          g5 = gdt_set_entry 4 0 0xFFFFF 0x92 0xCF g4;
          g6 = gdt_set_entry 5 0 0xFFFFF 0x9A 0xAF g5;
          g7 = gdt_set_entry 6 0 0xFFFFF 0x92 0xAF g6;
          g8 = gdt_set_entry 7 0 0xFFFFF 0xF2 0xAF g7;
          g9 = gdt_set_entry 8 0 0xFFFFF 0xFA 0xAF g8
      in (gdt_set_tss 9 tssp (104 - 1) g9, t))"

definition load_gdt :: "u64 \<Rightarrow> seg_regs \<Rightarrow> seg_regs" where
  "load_gdt gdt r = r\<lparr>gdtr_limit := 11 * 8 - 1, gdtr_base := gdt, cs_sel := 0x28, ds_sel := 0x30, es_sel := 0x30,
     ss_sel := 0x30, fs_sel := 0, gs_sel := 0, tr_sel := 0x48\<rparr>"

section \<open>Model specific registers\<close>

abbreviation (input) MSR_GS_BASE :: u32 where "MSR_GS_BASE \<equiv> 0xC0000101"
abbreviation (input) MSR_KERNEL_GS_BASE :: u32 where "MSR_KERNEL_GS_BASE \<equiv> 0xC0000102"
abbreviation (input) MSR_EFER :: u32 where "MSR_EFER \<equiv> 0xC0000080"
abbreviation (input) MSR_STAR :: u32 where "MSR_STAR \<equiv> 0xC0000081"
abbreviation (input) MSR_LSTAR :: u32 where "MSR_LSTAR \<equiv> 0xC0000082"
abbreviation (input) MSR_FMASK :: u32 where "MSR_FMASK \<equiv> 0xC0000084"

text \<open>The instructions of processor \<open>c\<close> move the value in two halves.\<close>

definition wrmsr :: "nat \<Rightarrow> u32 \<Rightarrow> u64 \<Rightarrow> 'x tables_scheme \<Rightarrow> 'x tables_scheme" where
  "wrmsr c reg val s =
     (let lo = ucast val :: u32; hi = ucast (drop_bit 32 val) :: u32 in
      s\<lparr>msr := (msr s)[c := (msr s ! c)(reg := push_bit 32 (ucast hi) OR ucast lo)]\<rparr>)"

definition rdmsr :: "nat \<Rightarrow> u32 \<Rightarrow> 'x tables_scheme \<Rightarrow> u64" where
  "rdmsr c reg s =
     (let v = (msr s ! c) reg; lo = ucast v :: u32; hi = ucast (drop_bit 32 v) :: u32 in push_bit 32 (ucast hi) OR ucast lo)"

section \<open>Segments of a processor\<close>

text \<open>
  On processor \<open>c\<close>; the boot processor, 0, calls \<^verbatim>\<open>init_gdt\<close>. Loading a null selector into GS clears its
  base register, as the comment in \<^verbatim>\<open>ap_entry\<close> says.
\<close>

definition init_gdt_ap :: "table_addrs \<Rightarrow> nat \<Rightarrow> 'x tables_scheme \<Rightarrow> 'x tables_scheme" where
  "init_gdt_ap A c s =
     (let (g, t) = setup_gdt (tss_addr A c) (gdt_data s ! c) in
      s\<lparr>gdt_data := (gdt_data s)[c := g], tss_array := (tss_array s)[c := t],
        seg := (seg s)[c := load_gdt (gdt_addr A c) (seg s ! c)], msr := (msr s)[c := (msr s ! c)(MSR_GS_BASE := 0)]\<rparr>)"

definition init_gdt :: "table_addrs \<Rightarrow> 'x tables_scheme \<Rightarrow> 'x tables_scheme" where
  "init_gdt A s = init_gdt_ap A 0 s"

definition tss_set_rsp0 :: "nat \<Rightarrow> u64 \<Rightarrow> 'x tables_scheme \<Rightarrow> 'x tables_scheme" where
  "tss_set_rsp0 c rsp0 s = s\<lparr>tss_array := (tss_array s)[c := (tss_array s ! c)\<lparr>t_rsp0 := rsp0\<rparr>]\<rparr>"

section \<open>Interrupt gates\<close>

definition idt_set_gate :: "u8 \<Rightarrow> u64 \<Rightarrow> u8 \<Rightarrow> 'x tables_scheme \<Rightarrow> 'x tables_scheme" where
  "idt_set_gate num handler ty s = s\<lparr>idt := (idt s)[unat num := \<lparr>offset_1 = ucast (handler AND 0xFFFF), selector = 0x28,
     ist = 0, type_attr = ty, offset_2 = ucast (drop_bit 16 handler AND 0xFFFF),
     offset_3 = ucast (drop_bit 32 handler AND 0xFFFFFFFF), zero = 0\<rparr>]\<rparr>"

definition load_idt :: "nat \<Rightarrow> 'x tables_scheme \<Rightarrow> 'x tables_scheme" where
  "load_idt c s = s\<lparr>seg := (seg s)[c := (seg s ! c)\<lparr>idtr_limit := fst (idt_ptr s), idtr_base := snd (idt_ptr s)\<rparr>]\<rparr>"

text \<open>On the boot processor. The table has 256 entries of 16 bytes.\<close>

definition init_idt :: "table_addrs \<Rightarrow> 'x tables_scheme \<Rightarrow> 'x tables_scheme" where
  "init_idt A s =
     (let s1 = s\<lparr>idt_ptr := (256 * 16 - 1, idt_addr A)\<rparr>;
          s2 = fold (\<lambda>i. idt_set_gate (word_of_nat i) 0 0) [0..<256] s1;
          s3 = fold (\<lambda>i. idt_set_gate (word_of_nat i) (isr_table A i) 0x8E) [0..<49] s2
      in load_idt 0 (idt_set_gate 0xFF (isr_spurious A) 0x8E s3))"

section \<open>System calls\<close>

definition init_syscall :: "table_addrs \<Rightarrow> nat \<Rightarrow> 'x tables_scheme \<Rightarrow> 'x tables_scheme" where
  "init_syscall A c s =
     (let efer = rdmsr c MSR_EFER s;
          s1 = wrmsr c MSR_EFER (efer OR 1) s;
          star = push_bit 48 0x33 OR push_bit 32 0x28;
          s2 = wrmsr c MSR_STAR star s1;
          s3 = wrmsr c MSR_LSTAR (syscall_stub A) s2
      in wrmsr c MSR_FMASK 0x200 s3)"

section \<open>Starting a processor\<close>

text \<open>The \<^verbatim>\<open>struct cpu\<close> of the processor is found through the base of GS, in the kernel and behind \<^verbatim>\<open>swapgs\<close>.\<close>

definition set_gs :: "table_addrs \<Rightarrow> nat \<Rightarrow> 'x tables_scheme \<Rightarrow> 'x tables_scheme" where
  "set_gs A c s = wrmsr c MSR_KERNEL_GS_BASE (cpu_addr A c) (wrmsr c MSR_GS_BASE (cpu_addr A c) s)"

text \<open>What \<^verbatim>\<open>_start\<close> does to the tables and registers, and \<^verbatim>\<open>ap_entry\<close> on processor \<open>c\<close> after it found its slot.\<close>

definition bsp_tables :: "table_addrs \<Rightarrow> 'x tables_scheme \<Rightarrow> 'x tables_scheme" where
  "bsp_tables A s = init_syscall A 0 (set_gs A 0 (init_gdt A (set_gs A 0 (init_idt A s))))"

definition ap_tables :: "table_addrs \<Rightarrow> nat \<Rightarrow> 'x tables_scheme \<Rightarrow> 'x tables_scheme" where
  "ap_tables A c s = init_syscall A c (load_idt c (set_gs A c (init_gdt_ap A c (set_gs A c s))))"

definition mycpu :: "table_addrs \<Rightarrow> nat \<Rightarrow> 'x tables_scheme \<Rightarrow> nat option" where
  "mycpu A c s = find (\<lambda>i. cpu_addr A i = rdmsr c MSR_GS_BASE s) [0..<16]"

end
