(* ===== verification/Tables_Spec.thy ===== *)
theory Tables_Spec
  imports Tables Ata_Spec
begin

text \<open>
  The descriptor tables as the processor's manual reads them: on every processor that was set up,
  an interrupt reaches the stub of its vector in the kernel's code segment, on the stack that was
  set for it.
\<close>

section \<open>What the processor does\<close>

text \<open>Descriptor bytes 5 and 6 of a selector, and the kinds of segment they describe.\<close>

definition desc_at :: "u16 \<Rightarrow> u64" where
  "desc_at sel = ucast (sel AND NOT 7)"

definition code_seg :: "mem \<Rightarrow> u16 \<Rightarrow> u8 \<Rightarrow> bool" where
  "code_seg g sel dpl \<longleftrightarrow> (let acc = g (desc_at sel + 5); fl = g (desc_at sel + 6) in
     bit acc 7 \<and> bit acc 4 \<and> bit acc 3 \<and> drop_bit 5 acc AND 3 = dpl \<and> bit fl 5 \<and> \<not> bit fl 6)"

definition data_seg :: "mem \<Rightarrow> u16 \<Rightarrow> u8 \<Rightarrow> bool" where
  "data_seg g sel dpl \<longleftrightarrow> (let acc = g (desc_at sel + 5) in
     bit acc 7 \<and> bit acc 4 \<and> \<not> bit acc 3 \<and> bit acc 1 \<and> drop_bit 5 acc AND 3 = dpl)"

definition tss_base :: "mem \<Rightarrow> u16 \<Rightarrow> u64 option" where
  "tss_base g sel =
     (let e = desc_at sel in
      if g (e + 5) = 0x89
      then Some (ucast (ld16 g (e + 2)) OR push_bit 16 (ucast (g (e + 4))) OR push_bit 24 (ucast (g (e + 7))) OR
        push_bit 32 (ucast (ld32 g (e + 8))))
      else None)"

definition gate_offset :: "idt_entry \<Rightarrow> u64" where
  "gate_offset e = ucast (offset_1 e) OR push_bit 16 (ucast (offset_2 e)) OR push_bit 32 (ucast (offset_3 e))"

text \<open>
  An interrupt of vector \<open>v\<close> on processor \<open>c\<close> that comes from user mode: the gate must be a
  present interrupt gate with a kernel code segment; the stack comes from the task state. The tables
  are found by their addresses.
\<close>

definition deliver :: "table_addrs \<Rightarrow> 'x tables_scheme \<Rightarrow> nat \<Rightarrow> u8 \<Rightarrow> (u64 \<times> u16 \<times> u64) option" where
  "deliver A s c v = do {
     let r = seg s ! c;
     i \<leftarrow> find (\<lambda>i. gdt_addr A i = gdtr_base r) [0..<length (gdt_data s)];
     let g = gdt_data s ! i;
     let e = idt s ! unat v;
     b \<leftarrow> tss_base g (tr_sel r);
     j \<leftarrow> find (\<lambda>j. tss_addr A j = b) [0..<length (tss_array s)];
     if idtr_base r = idt_addr A \<and> 16 * unat v + 15 \<le> unat (idtr_limit r) \<and> type_attr e AND 0x9F = 0x8E \<and>
       unat (selector e) + 7 \<le> unat (gdtr_limit r) \<and> code_seg g (selector e) 0
     then Some (gate_offset e, selector e, t_rsp0 (tss_array s ! j)) else None
   }"

section \<open>The segment table\<close>

lemma take_piece:
  fixes x :: "'a::len word"
  shows "take_bit (m + LENGTH('b)) x = take_bit m x OR push_bit m (ucast (ucast (drop_bit m x) :: 'b::len word))"
  by (rule bit_word_eqI) (auto simp: bit_simps dest!: le_Suc_ex)

lemma joined:
  fixes x :: u64
  shows "ucast (ucast x :: u16) OR push_bit 16 (ucast (ucast (drop_bit 16 x) :: u16)) OR
      push_bit 32 (ucast (ucast (drop_bit 32 x) :: u32)) = x"
    and "ucast (ucast x :: u16) OR push_bit 16 (ucast (ucast (drop_bit 16 x) :: u8)) OR
      push_bit 24 (ucast (ucast (drop_bit 24 x) :: u8)) OR push_bit 32 (ucast (ucast (drop_bit 32 x) :: u32)) = x"
proof -
  have x: "take_bit 64 x = x" by (rule take_bit_word_eq_self) simp
  have 0: "take_bit 16 x = ucast (ucast x :: u16)" using take_piece [where 'b = 16, of 0 x] by simp
  note p = take_piece [where 'b = 32, of 32 x, simplified, unfolded x]
  show "ucast (ucast x :: u16) OR push_bit 16 (ucast (ucast (drop_bit 16 x) :: u16)) OR
      push_bit 32 (ucast (ucast (drop_bit 32 x) :: u32)) = x"
    using take_piece [where 'b = 16, of 16 x] p unfolding 0 by (simp add: or.assoc)
  show "ucast (ucast x :: u16) OR push_bit 16 (ucast (ucast (drop_bit 16 x) :: u8)) OR
      push_bit 24 (ucast (ucast (drop_bit 24 x) :: u8)) OR push_bit 32 (ucast (ucast (drop_bit 32 x) :: u32)) = x"
    using take_piece [where 'b = 8, of 16 x] take_piece [where 'b = 8, of 24 x] p unfolding 0 by (simp add: or.assoc)
qed

lemma low_masks:
  fixes x :: u64
  shows "(ucast (x AND 0xFFFF) :: u16) = ucast x" "(ucast (x AND 0xFF) :: u8) = ucast x" "(ucast (x AND 0xFFFFFFFF) :: u32) = ucast x"
proof -
  have m: "(0xFFFF :: u64) = mask 16" "(0xFF :: u64) = mask 8" "(0xFFFFFFFF :: u64) = mask 32" by (simp_all add: mask_eq_exp_minus_1)
  show "(ucast (x AND 0xFFFF) :: u16) = ucast x" "(ucast (x AND 0xFF) :: u8) = ucast x" "(ucast (x AND 0xFFFFFFFF) :: u32) = ucast x"
    unfolding m by (rule bit_word_eqI, auto simp: bit_simps)+
qed

lemma setup_gdt_tss: "tss_base (fst (setup_gdt p g)) 0x48 = Some p"
proof -
  note d = setup_gdt_def gdt_set_tss_def Let_def desc_at_def st32_upd st16_upd low_masks
  have "ld16 (fst (setup_gdt p g)) 0x4A = ucast p" by (rule ld16I) (simp_all add: d)
  moreover have "ld32 (fst (setup_gdt p g)) 0x50 = ucast (drop_bit 32 p)" by (rule ld32I) (simp_all add: d)
  moreover have "fst (setup_gdt p g) 0x4C = ucast (drop_bit 16 p)" "fst (setup_gdt p g) 0x4F = ucast (drop_bit 24 p)"
    "fst (setup_gdt p g) 0x4D = 0x89" by (simp_all add: d)
  ultimately show ?thesis using joined(2) [of p] by (simp add: tss_base_def desc_at_def)
qed

lemma setup_gdt_segs:
  "code_seg (fst (setup_gdt p g)) 0x28 0" "data_seg (fst (setup_gdt p g)) 0x30 0"
  "data_seg (fst (setup_gdt p g)) 0x3B 3" "code_seg (fst (setup_gdt p g)) 0x43 3"
proof -
  note d = setup_gdt_def gdt_set_entry_def gdt_set_tss_def Let_def st32_upd st16_upd
  have b: "fst (setup_gdt p g) 45 = 0x9A" "fst (setup_gdt p g) 46 = 0xAF" "fst (setup_gdt p g) 53 = 0x92"
    "fst (setup_gdt p g) 61 = 0xF2" "fst (setup_gdt p g) 69 = 0xFA" "fst (setup_gdt p g) 70 = 0xAF"
    by (simp_all add: d)
  show "code_seg (fst (setup_gdt p g)) 0x28 0" "data_seg (fst (setup_gdt p g)) 0x30 0"
    "data_seg (fst (setup_gdt p g)) 0x3B 3" "code_seg (fst (setup_gdt p g)) 0x43 3"
    by (simp_all add: code_seg_def data_seg_def desc_at_def b Let_def)
qed

section \<open>The gates\<close>

definition gate :: "u64 \<Rightarrow> u8 \<Rightarrow> idt_entry" where
  "gate h ty = \<lparr>offset_1 = ucast h, selector = 0x28, ist = 0, type_attr = ty, offset_2 = ucast (drop_bit 16 h),
     offset_3 = ucast (drop_bit 32 h), zero = 0\<rparr>"

lemma set_gate: "idt_set_gate num h ty s = s\<lparr>idt := (idt s)[unat num := gate h ty]\<rparr>"
  by (simp add: idt_set_gate_def gate_def low_masks)

lemma gate_fields: "gate_offset (gate h ty) = h" "selector (gate h ty) = 0x28" "type_attr (gate h ty) = ty"
  by (simp_all add: gate_offset_def gate_def joined(1))

lemma set_gates:
  assumes "n \<le> 256" "length (idt s) = 256"
  shows "fold (\<lambda>i. idt_set_gate (word_of_nat i) (h i) ty) [0..<n] s =
    s\<lparr>idt := map (\<lambda>i. gate (h i) ty) [0..<n] @ drop n (idt s)\<rparr>"
  using assms(1)
proof (induction n)
  case (Suc n)
  have "unat (word_of_nat n :: u8) = n" using Suc.prems by (simp add: unat_of_nat_id)
  then have "idt_set_gate (word_of_nat n) (h n) ty (s\<lparr>idt := map (\<lambda>i. gate (h i) ty) [0..<n] @ drop n (idt s)\<rparr>) =
      s\<lparr>idt := (map (\<lambda>i. gate (h i) ty) [0..<n] @ drop n (idt s))[n := gate (h n) ty]\<rparr>"
    by (simp add: set_gate)
  also have "(map (\<lambda>i. gate (h i) ty) [0..<n] @ drop n (idt s))[n := gate (h n) ty] =
      map (\<lambda>i. gate (h i) ty) [0..<Suc n] @ drop (Suc n) (idt s)"
    using Suc.prems assms(2) by (simp add: list_update_append Cons_nth_drop_Suc [symmetric])
  finally show ?case using Suc by simp
qed simp

lemma init_idt_gates:
  fixes v :: u8
  assumes "length (idt s) = 256"
  shows "idt (init_idt A s) ! unat v = (if v = 255 then gate (isr_spurious A) 0x8E
      else if unat v < 49 then gate (isr_table A (unat v)) 0x8E else gate 0 0)"
    and "idt_ptr (init_idt A s) = (4095, idt_addr A)" "seg (init_idt A s) = (seg s)[0 := (seg s ! 0)\<lparr>idtr_limit := 4095, idtr_base := idt_addr A\<rparr>]"
    "gdt_data (init_idt A s) = gdt_data s" "tss_array (init_idt A s) = tss_array s" "msr (init_idt A s) = msr s" "length (idt (init_idt A s)) = 256"
proof -
  let ?s1 = "s\<lparr>idt_ptr := (256 * 16 - 1, idt_addr A)\<rparr>"
  let ?s2 = "?s1\<lparr>idt := map (\<lambda>i. gate 0 0) [0..<256]\<rparr>"
  have 2: "fold (\<lambda>i. idt_set_gate (word_of_nat i) 0 0) [0..<256] ?s1 = ?s2"
    using set_gates [of 256 ?s1 "\<lambda>_. 0" 0] assms by simp
  have 3: "fold (\<lambda>i. idt_set_gate (word_of_nat i) (isr_table A i) 0x8E) [0..<49] ?s2 =
      ?s2\<lparr>idt := map (\<lambda>i. gate (isr_table A i) 0x8E) [0..<49] @ drop 49 (map (\<lambda>i. gate 0 0) [0..<256])\<rparr>"
    using set_gates [of 49 ?s2 "isr_table A" "0x8E"] by simp
  have i: "init_idt A s = load_idt 0 (?s1\<lparr>idt := (map (\<lambda>i. gate (isr_table A i) 0x8E) [0..<49] @
      drop 49 (map (\<lambda>i. gate 0 0) [0..<256]))[255 := gate (isr_spurious A) 0x8E]\<rparr>)"
    unfolding init_idt_def Let_def 2 3 set_gate by simp
  have v: "unat v < 256" "unat v = 255 \<longleftrightarrow> v = 255" using unat_lt [of v] by (simp_all add: word_unat_eq_iff)
  show "idt (init_idt A s) ! unat v = (if v = 255 then gate (isr_spurious A) 0x8E
      else if unat v < 49 then gate (isr_table A (unat v)) 0x8E else gate 0 0)"
    using v by (simp add: i load_idt_def nth_list_update nth_append del: upt_rec_numeral)
  show "idt_ptr (init_idt A s) = (4095, idt_addr A)" "gdt_data (init_idt A s) = gdt_data s"
    "seg (init_idt A s) = (seg s)[0 := (seg s ! 0)\<lparr>idtr_limit := 4095, idtr_base := idt_addr A\<rparr>]"
    "tss_array (init_idt A s) = tss_array s" "msr (init_idt A s) = msr s" "length (idt (init_idt A s)) = 256"
    by (simp_all add: i load_idt_def del: upt_rec_numeral)
qed

section \<open>A processor that was started\<close>

lemma halves: "push_bit 32 (ucast (ucast (drop_bit 32 (v :: u64)) :: u32)) OR ucast (ucast v :: u32) = v"
proof -
  have "take_bit 64 v = v" by (rule take_bit_word_eq_self) simp
  moreover have "take_bit 32 v = ucast (ucast v :: u32)" using take_piece [where 'b = 32, of 0 v] by simp
  ultimately show ?thesis using take_piece [where 'b = 32, of 32 v] by (simp add: or.commute)
qed

lemma wrmsr_fields [simp]:
  "c < length (msr s) \<Longrightarrow> msr (wrmsr c reg v s) ! c = (msr s ! c)(reg := v)" "length (msr (wrmsr c reg v s)) = length (msr s)"
  "gdt_data (wrmsr c reg v s) = gdt_data s" "tss_array (wrmsr c reg v s) = tss_array s" "seg (wrmsr c reg v s) = seg s"
  "idt (wrmsr c reg v s) = idt s" "idt_ptr (wrmsr c reg v s) = idt_ptr s"
  by (simp_all add: wrmsr_def Let_def halves)

lemma rdmsr_eq: "rdmsr c reg s = (msr s ! c) reg"
  by (simp add: rdmsr_def halves Let_def)

lemma init_gdt_ap_fields [simp]:
  "c < length (msr s) \<Longrightarrow> msr (init_gdt_ap A c s) ! c = (msr s ! c)(MSR_GS_BASE := 0)"
  "c < length (gdt_data s) \<Longrightarrow> gdt_data (init_gdt_ap A c s) ! c = fst (setup_gdt (tss_addr A c) (gdt_data s ! c))"
  "c < length (seg s) \<Longrightarrow> seg (init_gdt_ap A c s) ! c = load_gdt (gdt_addr A c) (seg s ! c)"
  "length (msr (init_gdt_ap A c s)) = length (msr s)" "length (gdt_data (init_gdt_ap A c s)) = length (gdt_data s)"
  "length (tss_array (init_gdt_ap A c s)) = length (tss_array s)" "length (seg (init_gdt_ap A c s)) = length (seg s)"
  "idt (init_gdt_ap A c s) = idt s" "idt_ptr (init_gdt_ap A c s) = idt_ptr s"
  by (simp_all add: init_gdt_ap_def split_beta)

lemma load_idt_fields [simp]:
  "c < length (seg s) \<Longrightarrow>
    seg (load_idt c s) ! c = (seg s ! c)\<lparr>idtr_limit := fst (idt_ptr s), idtr_base := snd (idt_ptr s)\<rparr>"
  "length (seg (load_idt c s)) = length (seg s)" "msr (load_idt c s) = msr s" "gdt_data (load_idt c s) = gdt_data s"
  "tss_array (load_idt c s) = tss_array s" "idt (load_idt c s) = idt s" "idt_ptr (load_idt c s) = idt_ptr s"
  by (simp_all add: load_idt_def)

text \<open>
  The boot processor, and another one that was started after it.
\<close>

definition cpu_started :: "table_addrs \<Rightarrow> nat \<Rightarrow> 'x tables_scheme \<Rightarrow> 'x tables_scheme" where
  "cpu_started A c s = (if c = 0 then bsp_tables A s else ap_tables A c (bsp_tables A s))"

definition sized :: "'x tables_scheme \<Rightarrow> bool" where
  "sized s \<longleftrightarrow> length (gdt_data s) = 16 \<and> length (tss_array s) = 16 \<and> length (seg s) = 16 \<and> length (msr s) = 16 \<and>
     length (idt s) = 256"

text \<open>No two objects of an array have the same address.\<close>

definition distinct_addrs :: "table_addrs \<Rightarrow> bool" where
  "distinct_addrs A \<longleftrightarrow> distinct (map (gdt_addr A) [0..<16]) \<and> distinct (map (tss_addr A) [0..<16]) \<and>
     distinct (map (cpu_addr A) [0..<16])"

lemma find_addr:
  assumes "distinct (map f [0..<n])" "c < n"
  shows "find (\<lambda>i. f i = f c) [0..<n] = Some c"
  unfolding find_Some_iff using assms by (intro exI [of _ c]) (force simp: distinct_map inj_on_def)

lemmas start_defs = cpu_started_def bsp_tables_def ap_tables_def init_gdt_def init_syscall_def set_gs_def rdmsr_eq init_idt_gates Let_def

lemma started_tables:
  assumes "sized s" "c < 16"
  shows "length (gdt_data (cpu_started A c s)) = 16" "length (tss_array (cpu_started A c s)) = 16"
    and "\<exists>g. gdt_data (cpu_started A c s) ! c = fst (setup_gdt (tss_addr A c) g)"
    and "\<exists>r. seg (cpu_started A c s) ! c = (load_gdt (gdt_addr A c) r)\<lparr>idtr_limit := 4095, idtr_base := idt_addr A\<rparr>"
proof -
  note l = assms [unfolded sized_def]
  show "length (gdt_data (cpu_started A c s)) = 16" "length (tss_array (cpu_started A c s)) = 16"
    using l by (simp_all add: start_defs)
  show "\<exists>g. gdt_data (cpu_started A c s) ! c = fst (setup_gdt (tss_addr A c) g)"
    using l by (auto simp add: start_defs)
  have "seg (cpu_started A c s) ! c = (load_gdt (gdt_addr A c) (seg s ! c))\<lparr>idtr_limit := 4095, idtr_base := idt_addr A\<rparr>"
    using l by (simp add: start_defs load_gdt_def)
  then show "\<exists>r. seg (cpu_started A c s) ! c = (load_gdt (gdt_addr A c) r)\<lparr>idtr_limit := 4095, idtr_base := idt_addr A\<rparr>"
    by blast
qed

lemma started_gates:
  fixes v :: u8
  assumes "sized s"
  shows "idt (cpu_started A c s) ! unat v = (if v = 255 then gate (isr_spurious A) 0x8E
      else if unat v < 49 then gate (isr_table A (unat v)) 0x8E else gate 0 0)"
proof -
  have "idt (cpu_started A c s) = idt (init_idt A s)" using assms by (simp add: sized_def start_defs)
  then show ?thesis using init_idt_gates(1) [of s A v] assms by (simp add: sized_def)
qed

lemma started_msrs:
  assumes "sized s" "c < 16"
  shows "(msr (cpu_started A c s) ! c) MSR_GS_BASE = cpu_addr A c" "(msr (cpu_started A c s) ! c) MSR_KERNEL_GS_BASE = cpu_addr A c"
    and "bit ((msr (cpu_started A c s) ! c) MSR_EFER) 0" "(msr (cpu_started A c s) ! c) MSR_STAR = 0x33002800000000"
    and "(msr (cpu_started A c s) ! c) MSR_LSTAR = syscall_stub A" "(msr (cpu_started A c s) ! c) MSR_FMASK = 0x200"
  using assms by (simp_all add: sized_def start_defs bit_simps)

lemma mycpu_started:
  assumes "sized s" "c < 16" "distinct_addrs A"
  shows "mycpu A c (cpu_started A c s) = Some c"
  using find_addr [of "cpu_addr A" 16 c] assms(2,3)
  by (simp add: mycpu_def rdmsr_eq started_msrs [OF assms(1,2)] distinct_addrs_def del: upt_rec_numeral)

lemma tss_set_rsp0_fields [simp]:
  "c < length (tss_array s) \<Longrightarrow> t_rsp0 (tss_array (tss_set_rsp0 c r s) ! c) = r" "seg (tss_set_rsp0 c r s) = seg s"
  "gdt_data (tss_set_rsp0 c r s) = gdt_data s" "length (tss_array (tss_set_rsp0 c r s)) = length (tss_array s)"
  "idt (tss_set_rsp0 c r s) = idt s" "msr (tss_set_rsp0 c r s) = msr s"
  by (simp_all add: tss_set_rsp0_def)

section \<open>Interrupts\<close>

text \<open>
  C12: on every processor that was started and given a kernel stack, each interrupt that comes from user
  mode passes the processor's checks of selectors, limits and gate type: a vector below 49 enters its own
  stub and vector 255 the spurious stub, in the kernel's code segment and on the stack that was set for
  this very processor; every other vector is refused.
\<close>

theorem interrupts_reach_stubs:
  assumes "sized s" "c < 16" "distinct_addrs A"
  shows "deliver A (tss_set_rsp0 c stack (cpu_started A c s)) c v =
    (if v = 255 then Some (isr_spurious A, 0x28, stack)
     else if unat v < 49 then Some (isr_table A (unat v), 0x28, stack) else None)"
proof -
  let ?s = "tss_set_rsp0 c stack (cpu_started A c s)"
  obtain g r where gr: "gdt_data (cpu_started A c s) ! c = fst (setup_gdt (tss_addr A c) g)"
    "seg (cpu_started A c s) ! c = (load_gdt (gdt_addr A c) r)\<lparr>idtr_limit := 4095, idtr_base := idt_addr A\<rparr>"
    using started_tables(3,4) [OF assms(1,2)] by blast
  note f = started_tables(1,2) [OF assms(1,2)] gr load_gdt_def
  note d = assms(3) [unfolded distinct_addrs_def]
  have g: "find (\<lambda>i. gdt_addr A i = gdtr_base (seg ?s ! c)) [0..<length (gdt_data ?s)] = Some c"
    using find_addr [of "gdt_addr A", OF _ assms(2)] d by (simp add: f del: upt_rec_numeral)
  have t: "tss_base (gdt_data ?s ! c) (tr_sel (seg ?s ! c)) = Some (tss_addr A c)"
    by (simp add: f setup_gdt_tss)
  have j: "find (\<lambda>j. tss_addr A j = tss_addr A c) [0..<length (tss_array ?s)] = Some c"
    using find_addr [of "tss_addr A", OF _ assms(2)] d by (simp add: f del: upt_rec_numeral)
  have i: "idt ?s ! unat v = (if v = 255 then gate (isr_spurious A) 0x8E
      else if unat v < 49 then gate (isr_table A (unat v)) 0x8E else gate 0 0)"
    using started_gates [OF assms(1)] by simp
  have l: "16 * unat v + 15 \<le> 4095" using unat_lt [of v] by simp
  show ?thesis
    using l assms(2) unfolding deliver_def Let_def g bind.bind_lunit t j i
    by (simp add: f gate_fields setup_gdt_segs)
qed

definition sample_addrs :: table_addrs where
  "sample_addrs = \<lparr>gdt_addr = \<lambda>i. 0xC000 + 88 * word_of_nat i, tss_addr = \<lambda>i. 0xD000 + 104 * word_of_nat i, idt_addr = 0xE000,
     isr_table = \<lambda>i. 0x10000 + 16 * word_of_nat i, isr_spurious = 0x20000, cpu_addr = \<lambda>i. 0xF000 + 40 * word_of_nat i,
     syscall_stub = 0x21000\<rparr>"

definition sample_tables :: tables where
  "sample_tables = \<lparr>gdt_data = replicate 16 (\<lambda>_. 0), tss_array = replicate 16 zero_tss, idt = replicate 256 (gate 0 0),
     idt_ptr = (0, 0), seg = replicate 16 \<lparr>gdtr_limit = 0, gdtr_base = 0, idtr_limit = 0, idtr_base = 0, tr_sel = 0,
       cs_sel = 0, ds_sel = 0, es_sel = 0, ss_sel = 0, fs_sel = 0, gs_sel = 0\<rparr>, msr = replicate 16 (\<lambda>_. 0)\<rparr>"

lemma sample: "sized sample_tables" "distinct_addrs sample_addrs"
  by (simp add: sized_def sample_tables_def) code_simp

theorem interrupts_reach_stubs_witness:
  "deliver sample_addrs (tss_set_rsp0 2 0x9000 (cpu_started sample_addrs 2 sample_tables)) 2 33 = Some (0x10210, 0x28, 0x9000)"
  using interrupts_reach_stubs [OF sample(1) _ sample(2), of 2 "0x9000" 33] by (simp add: sample_addrs_def)

section \<open>System calls\<close>

text \<open>
  The instruction \<^verbatim>\<open>syscall\<close>: where it continues, with which segments and flags, and the \<^verbatim>\<open>struct cpu\<close> behind
  \<^verbatim>\<open>swapgs\<close>; and the segments \<^verbatim>\<open>sysret\<close> goes back to. The selectors are checked against the segment table.
\<close>

definition syscall_to :: "table_addrs \<Rightarrow> 'x tables_scheme \<Rightarrow> nat \<Rightarrow> u64 \<Rightarrow> (u64 \<times> u16 \<times> u16 \<times> u64 \<times> u64) option" where
  "syscall_to A s c rflags =
     (let r = msr s ! c; star = drop_bit 32 (r MSR_STAR); cs = ucast star AND 0xFFFC; ss = cs + 8; g = gdt_data s ! c in
      if bit (r MSR_EFER) 0 \<and> gdtr_base (seg s ! c) = gdt_addr A c \<and> code_seg g cs 0 \<and> data_seg g ss 0
      then Some (r MSR_LSTAR, cs, ss, rflags AND NOT (r MSR_FMASK), r MSR_KERNEL_GS_BASE) else None)"

definition sysret_to :: "table_addrs \<Rightarrow> 'x tables_scheme \<Rightarrow> nat \<Rightarrow> (u16 \<times> u16) option" where
  "sysret_to A s c =
     (let r = msr s ! c; star = drop_bit 48 (r MSR_STAR); cs = (ucast star + 16) OR 3; ss = (ucast star + 8) OR 3;
          g = gdt_data s ! c in
      if bit (r MSR_EFER) 0 \<and> gdtr_base (seg s ! c) = gdt_addr A c \<and> code_seg g cs 3 \<and> data_seg g ss 3
      then Some (cs, ss) else None)"

text \<open>
  C39: on every processor that was started, a system call enters the kernel's stub in the kernel's code
  and stack segments with interrupts off, finds the processor's own \<^verbatim>\<open>struct cpu\<close>, and the return instruction goes
  back to the user's segments; the segment table describes them with the right privilege.
\<close>

theorem syscalls_enter_kernel:
  assumes "sized s" "c < 16"
  shows "(syscall_to A (cpu_started A c s) c rflags, sysret_to A (cpu_started A c s) c) =
    (Some (syscall_stub A, 0x28, 0x30, rflags AND NOT 0x200, cpu_addr A c), Some (0x43, 0x3B))"
proof -
  obtain g r where gr: "gdt_data (cpu_started A c s) ! c = fst (setup_gdt (tss_addr A c) g)"
    "seg (cpu_started A c s) ! c = (load_gdt (gdt_addr A c) r)\<lparr>idtr_limit := 4095, idtr_base := idt_addr A\<rparr>"
    using started_tables(3,4) [OF assms] by blast
  show ?thesis
    by (simp add: syscall_to_def sysret_to_def started_msrs [OF assms] gr setup_gdt_segs load_gdt_def Let_def)
qed

theorem syscalls_enter_kernel_witness:
  "syscall_to sample_addrs (cpu_started sample_addrs 3 sample_tables) 3 0x202 = Some (0x21000, 0x28, 0x30, 2, 0xF078)"
  using syscalls_enter_kernel [OF sample(1), of 3 sample_addrs "0x202"] by (simp add: sample_addrs_def)

end
