(* ===== verification/Serial_Spec.thy ===== *)
theory Serial_Spec
  imports Serial
begin

text \<open>
  The serial port transmits what it is given: if the transmitter becomes ready again and again, a
  string is sent completely and in order, and no byte is written before the transmitter has taken the one
  before.
\<close>

section \<open>Histories\<close>

text \<open>The bytes handed to the transmitter, oldest first; a history has its newest event in front.\<close>

fun sent :: "io_event list \<Rightarrow> u8 list" where
  "sent [] = []"
| "sent (Out8 p v # t) = (if p = PORT then sent t @ [v] else sent t)"
| "sent (_ # t) = sent t"

text \<open>The events \<open>ev\<close> that follow the history \<open>t\<close> write a byte only after the status was read and was ready.\<close>

fun paced :: "io_env \<Rightarrow> io_event list \<Rightarrow> io_event list \<Rightarrow> bool" where
  "paced E t [] = True"
| "paced E t (Out8 p v # ev) =
     ((p = PORT \<longrightarrow> (case ev of In8 q # ev1 \<Rightarrow> q = PORT + UART_LSR \<and> in8 E (ev1 @ t) q AND UART_LSR_THRE \<noteq> 0 | _ \<Rightarrow> False)) \<and>
      paced E t ev)"
| "paced E t (_ # ev) = paced E t ev"

text \<open>Polling the status after the history \<open>t\<close> finds the transmitter ready after some time.\<close>

definition gets_ready :: "io_env \<Rightarrow> io_event list \<Rightarrow> bool" where
  "gets_ready E t \<longleftrightarrow> (\<exists>n. in8 E (replicate n (In8 (PORT + UART_LSR)) @ t) (PORT + UART_LSR) AND UART_LSR_THRE \<noteq> 0)"

lemma sent_append: "sent (a @ b) = sent b @ sent a"
  by (induction a rule: sent.induct) simp_all

lemma paced_append: "paced E t b \<Longrightarrow> paced E (b @ t) a \<Longrightarrow> paced E t (a @ b)"
  by (induction E "b @ t" a rule: paced.induct) (auto split: list.splits io_event.splits)

lemma polls: "sent (replicate n (In8 p)) = []" "paced E t (replicate n (In8 p))"
  by (induction n) simp_all

section \<open>Sending\<close>

lemma thre: "(ucast (v :: u8) :: u32) = 0 \<longleftrightarrow> v = 0"
  by transfer (simp add: take_bit_take_bit)

lemma wait_transmit_polls:
  assumes "in8 E (replicate n (In8 (PORT + UART_LSR)) @ io_trace s) (PORT + UART_LSR) AND UART_LSR_THRE \<noteq> 0"
  shows "\<exists>k. wait_transmit E s = Some (s\<lparr>io_trace := replicate (Suc k) (In8 (PORT + UART_LSR)) @ io_trace s\<rparr>) \<and>
    in8 E (replicate k (In8 (PORT + UART_LSR)) @ io_trace s) (PORT + UART_LSR) AND UART_LSR_THRE \<noteq> 0"
  using assms
proof (induction n arbitrary: s)
  case 0
  then show ?case by (intro exI [of _ 0]) (subst wait_transmit.simps, simp add: is_transmit_empty_def thre inb_def io_do_def)
next
  case (Suc n)
  let ?s = "s\<lparr>io_trace := In8 (PORT + UART_LSR) # io_trace s\<rparr>"
  show ?case
  proof (cases "in8 E (io_trace s) (PORT + UART_LSR) AND UART_LSR_THRE = 0")
    case True
    then have "wait_transmit E s = wait_transmit E ?s"
      by (subst wait_transmit.simps) (simp add: is_transmit_empty_def thre inb_def io_do_def)
    moreover obtain k where "wait_transmit E ?s = Some (?s\<lparr>io_trace := replicate (Suc k) (In8 (PORT + UART_LSR)) @ io_trace ?s\<rparr>)"
      "in8 E (replicate k (In8 (PORT + UART_LSR)) @ io_trace ?s) (PORT + UART_LSR) AND UART_LSR_THRE \<noteq> 0"
      using Suc.IH [of ?s] Suc.prems by (auto simp: replicate_app_Cons_same)
    ultimately show ?thesis by (intro exI [of _ "Suc k"]) (simp add: replicate_app_Cons_same)
  next
    case False
    then show ?thesis by (intro exI [of _ 0]) (subst wait_transmit.simps, simp add: is_transmit_empty_def thre inb_def io_do_def)
  qed
qed

lemma serial_putc_sends:
  assumes "gets_ready E (io_trace s)"
  obtains ev where "serial_putc E c s = Some (s\<lparr>io_trace := ev @ io_trace s\<rparr>)" "sent ev = [c]" "paced E (io_trace s) ev"
proof -
  obtain k where k: "wait_transmit E s = Some (s\<lparr>io_trace := replicate (Suc k) (In8 (PORT + UART_LSR)) @ io_trace s\<rparr>)"
    "in8 E (replicate k (In8 (PORT + UART_LSR)) @ io_trace s) (PORT + UART_LSR) AND UART_LSR_THRE \<noteq> 0"
    using assms wait_transmit_polls unfolding gets_ready_def by blast
  show ?thesis
    by (rule that [of "Out8 PORT c # replicate (Suc k) (In8 (PORT + UART_LSR))"])
      (use k in \<open>simp_all add: serial_putc_def outb_def io_do_def polls\<close>)
qed

lemma serial_puts_from_sends:
  assumes "\<And>t. gets_ready E t" "length str < 2 ^ 32" "unat i \<le> length str"
  shows "\<exists>ev. serial_puts_from E str i s = Some (s\<lparr>io_trace := ev @ io_trace s\<rparr>) \<and> sent ev = drop (unat i) str \<and>
    paced E (io_trace s) ev"
  using assms(3)
proof (induction "length str - unat i" arbitrary: i s)
  case 0
  then show ?case by (intro exI [of _ "[]"]) (simp add: serial_puts_from.simps)
next
  case (Suc n)
  have i: "unat i < length str" using Suc.hyps(2) by linarith
  then have i1: "unat (i + 1) = unat i + 1" using assms(2) by (simp add: unat_word_ariths)
  obtain a where a: "serial_putc E (str ! unat i) s = Some (s\<lparr>io_trace := a @ io_trace s\<rparr>)" "sent a = [str ! unat i]"
    "paced E (io_trace s) a"
    using serial_putc_sends [OF assms(1)] by blast
  have "n = length str - unat (i + 1)" "unat (i + 1) \<le> length str" using Suc.hyps(2) i i1 by simp_all
  then obtain b where b: "serial_puts_from E str (i + 1) (s\<lparr>io_trace := a @ io_trace s\<rparr>) =
      Some (s\<lparr>io_trace := b @ a @ io_trace s\<rparr>)" "sent b = drop (unat i + 1) str" "paced E (a @ io_trace s) b"
    using Suc.hyps(1) [of "i + 1" "s\<lparr>io_trace := a @ io_trace s\<rparr>"] i1 by auto
  show ?case
    using i a b paced_append [OF a(3) b(3)]
    by (intro exI [of _ "b @ a"]) (simp add: serial_puts_from.simps [of E str i] sent_append Cons_nth_drop_Suc)
qed

text \<open>
  C29: if the transmitter becomes ready after every byte, sending a string returns; the bytes handed to
  the transmitter are exactly the string, in order, each only after the status was read as ready, and
  nothing else of the kernel's state changes.
\<close>

theorem serial_puts_transmits:
  assumes "\<And>t. gets_ready E t" "length str < 2 ^ 32"
  shows "\<exists>ev. serial_puts E str s = Some (s\<lparr>io_trace := ev @ io_trace s\<rparr>) \<and> sent ev = str \<and> paced E (io_trace s) ev"
  using serial_puts_from_sends [OF assms, of 0 s] by (simp add: serial_puts_def)

text \<open>A transmitter that is ready at every second look.\<close>

definition slow_uart :: io_env where
  "slow_uart = \<lparr>in8 = (\<lambda>t p. case t of In8 q # _ \<Rightarrow> 0x20 | _ \<Rightarrow> 0), in16 = (\<lambda>_ _. 0), in32 = (\<lambda>_ _. 0), rd32 = (\<lambda>_ _. 0),
     dma = (\<lambda>_ m. m)\<rparr>"

lemma slow_uart_ready: "gets_ready slow_uart t"
  unfolding gets_ready_def by (rule exI [of _ 1]) (simp add: slow_uart_def)

theorem serial_puts_transmits_witness:
  "\<forall>s. \<exists>ev. serial_puts slow_uart [0x6F, 0x6B] s = Some (s\<lparr>io_trace := ev @ io_trace s\<rparr>) \<and> sent ev = [0x6F, 0x6B] \<and>
    paced slow_uart (io_trace s) ev"
  by (rule allI) (rule serial_puts_transmits [OF slow_uart_ready], simp)

end
