(* ===== verification/Panic.thy ===== *)
theory Panic
  imports Ports
begin

text \<open>
  The report of a fatal error, \<^verbatim>\<open>kernel/panic.c\<close>: the message, the registers and the chain of stack frames.
  The result is the output when the processor stops in its final loop.
\<close>

definition crlf :: cstr where
  "crlf = [13, 10]"

definition canonical :: "u64 \<Rightarrow> bool" where
  "canonical a \<longleftrightarrow> (let top_bits = drop_bit 48 a in top_bits = 0 \<or> top_bits = 0xFFFF)"

definition aligned16 :: "u64 \<Rightarrow> bool" where
  "aligned16 a \<longleftrightarrow> a AND 7 = 0"

text \<open>\<open>n\<close> more frames, the next one number \<open>i\<close> at \<open>rbp\<close>.\<close>

fun backtrace_loop :: "mem \<Rightarrow> nat \<Rightarrow> u64 \<Rightarrow> u64 \<Rightarrow> outs \<Rightarrow> outs option" where
  "backtrace_loop m 0 i rbp t = Some t"
| "backtrace_loop m (Suc n) i rbp t =
     (if \<not> canonical rbp \<or> \<not> aligned16 rbp \<or> rbp = 0 then Some t
      else
        let next_rbp = ld64 m rbp; ret_addr = ld64 m (rbp + 8) in
        if \<not> canonical ret_addr then Some t
        else do {
          t1 \<leftarrow> printf (ascii ''  #%d  rip=%p  rbp=%p'' @ crlf) [Num i, Num ret_addr, Num rbp] t;
          if next_rbp \<le> rbp then Some t1 else backtrace_loop m n (i + 1) next_rbp t1
        })"

definition backtrace_from :: "mem \<Rightarrow> u64 \<Rightarrow> u64 \<Rightarrow> nat \<Rightarrow> outs \<Rightarrow> outs option" where
  "backtrace_from m start_rbp start_rip max_frames t = do {
     t1 \<leftarrow> printf (ascii ''  #0  rip=%p'' @ crlf) [Num start_rip] (puts (ascii ''Backtrace:'' @ crlf) t);
     backtrace_loop m (max_frames - 1) 1 start_rbp t1
   }"

text \<open>The control registers.\<close>

record control_regs =
  c_cr0 :: u64
  c_cr2 :: u64
  c_cr3 :: u64

definition panic_registers :: "control_regs \<Rightarrow> trap_frame \<Rightarrow> outs \<Rightarrow> outs option" where
  "panic_registers c f t = do {
     t1 \<leftarrow> printf (ascii ''EXCEPTION: %p ERRNO: %p'' @ crlf) [Num (t_int_no f), Num (t_error_code f)] t;
     t2 \<leftarrow> printf (ascii ''RAX:'' @ [9] @ ascii ''   %p RBX:   %p'' @ crlf) [Num (t_rax f), Num (t_rbx f)] t1;
     t3 \<leftarrow> printf (ascii ''RCX:'' @ [9] @ ascii ''   %p RDX:   %p'' @ crlf) [Num (t_rcx f), Num (t_rdx f)] t2;
     t4 \<leftarrow> printf (ascii ''RIP:'' @ [9] @ ascii ''   %p CR0:   %p'' @ crlf) [Num (t_rip f), Num (c_cr0 c)] t3;
     t5 \<leftarrow> printf (ascii ''RSP:'' @ [9] @ ascii ''   %p RBP:   %p'' @ crlf) [Num (t_rsp f), Num (t_rbp f)] t4;
     printf (ascii ''CR2:'' @ [9] @ ascii ''   %p CR3:   %p'' @ crlf) [Num (c_cr2 c), Num (c_cr3 c)] t5
   }"

definition panic :: "mem \<Rightarrow> control_regs \<Rightarrow> cstr option \<Rightarrow> trap_frame option \<Rightarrow> outs \<Rightarrow> outs option" where
  "panic m c msg fr t =
     (let bar = replicate 24 0x3D;
          t1 = (if msg \<noteq> None \<or> fr \<noteq> None then puts (bar @ ascii '' PANIC '' @ bar @ crlf) t else t)
      in do {
        t2 \<leftarrow> (case msg of None \<Rightarrow> Some t1 | Some s \<Rightarrow> printf (ascii ''%^56s'' @ crlf) [Str (Some s)] t1);
        case fr of None \<Rightarrow> Some t2
        | Some f \<Rightarrow> do {
            t3 \<leftarrow> panic_registers c f t2;
            t4 \<leftarrow> backtrace_from m (t_rbp f) (t_rip f) 32 t3;
            Some (puts (replicate 55 0x3D @ crlf) t4)
          }
      })"

end
