(* ===== verification/User.thy ===== *)
theory User
  imports Bytes "HOL-Library.Monad_Syntax"
begin

text \<open>
  The user programs: the byte loops of \<^verbatim>\<open>user/ulib.c\<close> and the line editor of the shell,
  \<^verbatim>\<open>user/jesh/jesh.c\<close>. What the system calls return is a parameter of the editor: the list of the results of its reads.
\<close>

section \<open>The runtime library\<close>

fun ulib_memset :: "mem \<Rightarrow> u64 \<Rightarrow> i32 \<Rightarrow> nat \<Rightarrow> mem" where
  "ulib_memset m p c 0 = m"
| "ulib_memset m p c (Suc n) = ulib_memset (m(p := ucast c)) (p + 1) c n"

fun ulib_memcpy :: "mem \<Rightarrow> u64 \<Rightarrow> u64 \<Rightarrow> nat \<Rightarrow> mem" where
  "ulib_memcpy m d s 0 = m"
| "ulib_memcpy m d s (Suc n) = ulib_memcpy (m(d := m s)) (d + 1) (s + 1) n"

text \<open>From index \<open>i\<close> on; characters are signed.\<close>

partial_function (option) ulib_strcmp :: "mem \<Rightarrow> u64 \<Rightarrow> u64 \<Rightarrow> i32 \<Rightarrow> i32 option" where
  "ulib_strcmp m s1 s2 i =
     (let a = m (s1 + scast i); b = m (s2 + scast i) in
      if b <s a then Some 1 else if a <s b then Some (- 1) else ulib_strcmp m s1 s2 (i + 1))"

section \<open>The line editor\<close>

abbreviation (input) LINE_MAX :: i32 where "LINE_MAX \<equiv> 128"

text \<open>
  The results of the reads, each the number of bytes and the byte; the line and its length; the bytes
  written. The result is the length, the line, the bytes written and the reads that are left. It is
  missing while the line is not finished.
\<close>

fun read_line :: "(i32 \<times> u8) list \<Rightarrow> u8 list \<Rightarrow> i32 \<Rightarrow> u8 list \<Rightarrow> (i32 \<times> u8 list \<times> u8 list \<times> (i32 \<times> u8) list) option" where
  "read_line [] line len out = None"
| "read_line ((n, c0) # evs) line len out =
     (if n <=s 0 then read_line evs line len out
      else
        let c = (if c0 = 0x0D then 0x0A else c0) in
        if c = 0x0A then Some (len, line[unat len := 0], out @ [0x0A], evs)
        else if c = 0x08 \<or> c = 0x7F then
          if 0 <s len then read_line evs line (len - 1) (out @ [0x08, 0x20, 0x08]) else read_line evs line len out
        else if len <s LINE_MAX - 1 then read_line evs (line[unat len := c]) (len + 1) (out @ [c])
        else read_line evs line len out)"

end
