(* ===== verification/User_Spec.thy ===== *)
theory User_Spec
  imports User
begin

text \<open>
  The line editor of the shell against a reference editor and a reference terminal: the line it returns is
  what the keys amount to, and the screen shows this line at every moment.
\<close>

section \<open>The library\<close>

text \<open>The comparison does not stop at the end of the strings: it returns only when it meets two different bytes.\<close>

lemma strcmp_differs: "ulib_strcmp m s1 s2 i = Some r \<Longrightarrow> \<exists>j :: i32. m (s1 + scast j) \<noteq> m (s2 + scast j)"
proof (induction rule: ulib_strcmp.raw_induct [rotated, consumes 1])
  case (1 f m s1 s2 i r)
  then show ?case
    by (cases "m (s1 + scast i) = m (s2 + scast i)") (auto simp: Let_def)
qed

section \<open>The reference\<close>

text \<open>The bytes of the successful reads.\<close>

definition keys :: "(i32 \<times> u8) list \<Rightarrow> u8 list" where
  "keys evs = map snd (filter (\<lambda>(n, c). 0 <s n) evs)"

definition is_newline :: "u8 \<Rightarrow> bool" where
  "is_newline c \<longleftrightarrow> c = 0x0A \<or> c = 0x0D"

definition is_erase :: "u8 \<Rightarrow> bool" where
  "is_erase c \<longleftrightarrow> c = 0x08 \<or> c = 0x7F"

definition edit_key :: "u8 list \<Rightarrow> u8 \<Rightarrow> u8 list" where
  "edit_key l c = (if is_erase c then butlast l else if length l < 127 then l @ [c] else l)"

text \<open>A row of a terminal and the column of its cursor.\<close>

definition tty :: "u8 list \<times> nat \<Rightarrow> u8 \<Rightarrow> u8 list \<times> nat" where
  "tty = (\<lambda>(row, x) c. if c = 0x08 then (row, x - 1) else (take x row @ [c] @ drop (Suc x) row, Suc x))"

text \<open>The row shows the text \<open>l\<close> with the cursor behind it.\<close>

definition shows_line :: "u8 list \<Rightarrow> u8 list \<times> nat \<Rightarrow> bool" where
  "shows_line l s \<longleftrightarrow> (\<exists>k. s = (l @ replicate k 0x20, length l))"

lemma tty_put:
  assumes "c \<noteq> 8" "shows_line l s"
  shows "shows_line (l @ [c]) (tty s c)"
proof -
  obtain k where "s = (l @ replicate k 0x20, length l)" using assms(2) by (auto simp: shows_line_def)
  then have "tty s c = ((l @ [c]) @ replicate (k - 1) 0x20, length (l @ [c]))"
    using assms(1) by (cases k) (simp_all add: tty_def)
  then show ?thesis by (auto simp: shows_line_def)
qed

lemma tty_erase:
  assumes "l \<noteq> []" "shows_line l s"
  shows "shows_line (butlast l) (foldl tty s [8, 0x20, 8])"
proof -
  obtain k where "s = (l @ replicate k 0x20, length l)" using assms(2) by (auto simp: shows_line_def)
  then have "foldl tty s [8, 0x20, 8] = (butlast l @ replicate (Suc k) 0x20, length (butlast l))"
    using assms(1) by (cases l rule: rev_cases) (simp_all add: tty_def)
  then show ?thesis unfolding shows_line_def by blast
qed

section \<open>The editor\<close>

text \<open>The state of the loop: the buffer holds the edited text, and the screen shows it.\<close>

definition editing :: "u8 list \<Rightarrow> u8 list \<Rightarrow> i32 \<Rightarrow> u8 list \<Rightarrow> bool" where
  "editing l line len out \<longleftrightarrow> length line = 128 \<and> len = word_of_nat (length l) \<and> length l \<le> 127 \<and> take (length l) line = l \<and>
     shows_line l (foldl tty ([], 0) out)"

lemma short_len:
  assumes "n \<le> 127"
  shows "unat (word_of_nat n :: i32) = n" "sint (word_of_nat n :: i32) = int n"
proof -
  show "unat (word_of_nat n :: i32) = n" using assms by (simp add: unat_of_nat_id)
  have "sint (word_of_int (int n) :: i32) = int n"
    using assms by (simp add: sint_sbintrunc' signed_take_bit_int_eq_self del: of_int_of_nat_eq)
  then show "sint (word_of_nat n :: i32) = int n" by simp
qed

text \<open>The editor has returned the text \<open>l\<close>.\<close>

definition finished :: "u8 list \<Rightarrow> (i32 \<times> u8) list \<Rightarrow> (i32 \<times> u8 list \<times> u8 list \<times> (i32 \<times> u8) list) option \<Rightarrow> bool" where
  "finished l rest r \<longleftrightarrow> (\<exists>line out. r = Some (word_of_nat (length l), line[length l := 0], out @ [0x0A], rest) \<and>
     editing l line (word_of_nat (length l)) out)"

lemma editing_len:
  assumes "editing l line len out"
  shows "0 <s len \<longleftrightarrow> l \<noteq> []" "len <s 127 \<longleftrightarrow> length l < 127" "unat len = length l"
  using assms short_len [of "length l"] by (auto simp: editing_def word_sless_alt)

lemma editing_erase:
  assumes "editing l line len out" "l \<noteq> []"
  shows "editing (butlast l) line (len - 1) (out @ [8, 0x20, 8])"
proof -
  note E = assms(1) [unfolded editing_def]
  have "take (length (butlast l)) line = butlast l" 
  proof -
    have "take (length l - 1) line = take (length l - 1) (take (length l) line)" by simp
    then show ?thesis using E by (simp add: butlast_conv_take)
  qed
  moreover have "len - 1 = word_of_nat (length (butlast l))" using E assms(2) by (cases l) simp_all
  moreover have "length l - 1 \<le> 127" using E by linarith
  ultimately show ?thesis using E tty_erase [OF assms(2), of "foldl tty ([], 0) out"] by (simp add: editing_def del: foldl.simps)
qed

lemma editing_put:
  assumes "editing l line len out" "length l < 127" "b \<noteq> 8"
  shows "editing (l @ [b]) (line[length l := b]) (len + 1) (out @ [b])"
  using assms tty_put [of b l "foldl tty ([], 0) out"] by (simp add: editing_def take_Suc_conv_app_nth)

lemma read_line_key:
  assumes "editing l line len out" "0 <s k" "0x20 \<le> b \<or> b = 8"
  shows "\<exists>line1 len1 out1. read_line ((k, b) # evs) line len out = read_line evs line1 len1 out1 \<and>
    editing (edit_key l b) line1 len1 out1"
proof -
  have k: "\<not> k <=s 0" using assms(2) by (simp add: word_sless_alt word_sle_eq)
  have nl: "b \<noteq> 0x0D" "b \<noteq> 0x0A" using assms(3) by auto
  note len = editing_len [OF assms(1)]
  show ?thesis
  proof (cases "is_erase b")
    case True
    then show ?thesis
      using editing_erase [OF assms(1)] assms(1) k nl len by (cases "l = []") (auto simp: edit_key_def is_erase_def)
  next
    case False
    then show ?thesis
      using editing_put [OF assms(1), of b] assms(1) k nl len by (cases "length l < 127") (auto simp: edit_key_def is_erase_def)
  qed
qed

lemma read_line_edits:
  assumes "\<forall>c \<in> set (keys evs). 0x20 \<le> c \<or> c = 0x08" "editing l line len out" "0 <s n" "is_newline c"
  shows "finished (foldl edit_key l (keys evs)) rest (read_line (evs @ (n, c) # rest) line len out)"
  using assms(1,2)
proof (induction evs arbitrary: l line len out)
  case Nil
  have "\<not> n <=s 0" using assms(3) by (simp add: word_sless_alt word_sle_eq)
  then show ?case using Nil(2) assms(4) editing_len(3) [OF Nil(2)]
    by (auto simp: finished_def editing_def keys_def is_newline_def)
next
  case (Cons e evs)
  obtain k b where e: "e = (k, b)" by force
  show ?case
  proof (cases "0 <s k")
    case False
    then have "k <=s 0" by (simp add: word_sless_alt word_sle_eq)
    then show ?thesis using Cons.IH [OF _ Cons.prems(2)] Cons.prems(1) False by (simp add: e keys_def)
  next
    case True
    then have kk: "keys (e # evs) = b # keys evs" by (simp add: e keys_def)
    have b: "0x20 \<le> b \<or> b = 8" using Cons.prems(1) unfolding kk by simp
    obtain line1 len1 out1 where s: "read_line (e # evs @ (n, c) # rest) line len out = read_line (evs @ (n, c) # rest) line1 len1 out1"
      "editing (edit_key l b) line1 len1 out1"
      using read_line_key [OF Cons.prems(2) True b, of "evs @ (n, c) # rest"] unfolding e
      by (auto simp del: read_line.simps)
    show ?thesis using Cons.IH [OF _ s(2)] Cons.prems(1) s(1) unfolding kk by (simp del: read_line.simps)
  qed
qed



end
