(* ===== verification/Kernel_Spec.thy ===== *)
theory Kernel_Spec
  imports Kernel Devfs_Spec
begin

text \<open>
  What starting the kernel establishes: the allocator holds exactly the whole pages of the
  usable memory, each once, and the processors have slots of their own.
\<close>

section \<open>Memory\<close>

definition range_pages_of :: "u64 \<Rightarrow> memmap_entry \<Rightarrow> nat multiset" where
  "range_pages_of hhdm e = mset [(unat hhdm + unat (mm_base e) + 4095) div 4096 ..<
     (unat hhdm + unat (mm_base e + mm_length e)) div 4096]"

definition usable :: "memmap_entry list \<Rightarrow> memmap_entry list" where
  "usable es = filter (\<lambda>e. mm_type e = LIMINE_MEMMAP_USABLE) es"

definition map_pages :: "u64 \<Rightarrow> memmap_entry list \<Rightarrow> nat multiset" where
  "map_pages hhdm es = sum_list (map (range_pages_of hhdm) (usable es))"

text \<open>A map the kernel can use: no range wraps around, all lie in the direct map, and no page is
  in two usable ranges.\<close>

definition map_ok :: "u64 \<Rightarrow> memmap_entry list \<Rightarrow> bool" where
  "map_ok hhdm es \<longleftrightarrow> once (map_pages hhdm es) \<and>
     (\<forall>e \<in> set (usable es). window_ok hhdm (mm_base e + mm_length e) \<and> mm_base e \<le> mm_base e + mm_length e)"

lemma usable_simps [simp]:
  "usable [] = []" "usable (e # es) = (if mm_type e = 0 then e # usable es else usable es)"
  by (simp_all add: usable_def)

lemma once_left: "once (F + G) \<Longrightarrow> once F"
  by (simp add: once_def) (metis add_leE)

lemma free_usable_rel:
  assumes "buddy_ok k F" "once (F + map_pages (khhdm k) es)"
    "\<forall>e \<in> set (usable es). window_ok (khhdm k) (mm_base e + mm_length e) \<and> mm_base e \<le> mm_base e + mm_length e"
  shows "\<exists>k'. free_usable es av k = Some (av + sum_list (map mm_length (usable es)), k') \<and>
    buddy_ok k' (F + map_pages (khhdm k) es) \<and> same_rest k k' \<and>
    pg_frame (F + map_pages (khhdm k) es) (kbytes k) (kbytes k')"
  using assms
proof (induction es arbitrary: k F av)
  case Nil
  then show ?case by (simp add: map_pages_def same_rest_def)
next
  case (Cons e es)
  show ?case
  proof (cases "mm_type e = 0")
    case False
    then show ?thesis using Cons by (simp add: map_pages_def)
  next
    case True
    let ?R = "range_pages_of (khhdm k) e"
    have mp: "map_pages (khhdm k) (e # es) = ?R + map_pages (khhdm k) es"
      using True by (simp add: map_pages_def)
    have on: "once (F + ?R)"
      using Cons.prems(2) once_left [of "F + ?R" "map_pages (khhdm k) es"] by (simp add: mp add.assoc)
    obtain k1 where k1: "freerange k (mm_base e) (mm_base e + mm_length e) = Some k1" "buddy_ok k1 (F + ?R)"
      "same_rest k k1" "pg_frame (F + ?R) (kbytes k) (kbytes k1)"
      using freerange_rel [OF Cons.prems(1), of "mm_base e + mm_length e" "mm_base e"] Cons.prems(3) on True
      by (auto simp: range_pages_of_def)
    have hh: "khhdm k1 = khhdm k" using k1(3) by (simp add: same_rest_def)
    obtain k2 where k2: "free_usable es (av + mm_length e) k1 =
        Some (av + mm_length e + sum_list (map mm_length (usable es)), k2)"
      "buddy_ok k2 (F + ?R + map_pages (khhdm k) es)" "same_rest k1 k2"
      "pg_frame (F + ?R + map_pages (khhdm k) es) (kbytes k1) (kbytes k2)"
      using Cons.IH [OF k1(2), of "av + mm_length e"] Cons.prems(2,3) True by (auto simp: hh mp add.assoc)
    have "pg_frame (F + ?R + map_pages (khhdm k) es) (kbytes k) (kbytes k2)"
      by (rule pg_frame_trans [OF pg_frame_mono [OF k1(4)] k2(4)]) auto
    then show ?thesis
      using k1(1) k2(1,2) True same_rest_trans [OF k1(3) k2(3)]
      by (intro exI [of _ k2]) (simp add: mp add.assoc)
  qed
qed

lemma buddy_ok_kinit: "buddy_ok (kinit k hh) {#}"
  unfolding buddy_ok_def
  by (intro conjI exI [of _ "replicate 12 []"])
    (simp_all add: bd_unlocked_def buddy_rel_def heap_rel_def apart_lists_def aligned_lists_def once_def kinit_def)

lemma buddy_ok_locked:
  assumes "buddy_ok k F" "bd_lock k = initlock n" "ncli (kcpu k) = 0"
  shows "buddy_ok (buddy_enable_lock k) F"
  using assms by (auto simp: buddy_ok_def buddy_rel_def heap_rel_def bd_unlocked_def buddy_enable_lock_def initlock_def)

text \<open>
  C16: from any memory map whose usable ranges do not overlap, the kernel starts with exactly the
  whole pages of the usable ranges in the allocator, each once, at their addresses in the
  direct map, with the lock enabled and free; the amount it reports is the sum of the lengths,
  and no byte outside these pages changes.
\<close>

theorem boot_memory_spec:
  assumes "map_ok hhdm es" "ncli (kcpu k) = 0"
  shows "\<exists>k'. boot_memory hhdm es k = Some (sum_list (map mm_length (usable es)), k') \<and>
    buddy_ok k' (map_pages hhdm es) \<and> bd_use_lock k' = 1 \<and> khhdm k' = hhdm \<and>
    pg_frame (map_pages hhdm es) (kbytes k) (kbytes k')"
proof -
  let ?k = "kinit k hhdm"
  have h: "khhdm ?k = hhdm" "kbytes ?k = kbytes k" "bd_lock ?k = initlock ''buddy''" "kcpu ?k = kcpu k"
    by (simp_all add: kinit_def)
  obtain k1 where k1: "free_usable es 0 ?k = Some (sum_list (map mm_length (usable es)), k1)"
    "buddy_ok k1 (map_pages hhdm es)" "same_rest ?k k1" "pg_frame (map_pages hhdm es) (kbytes k) (kbytes k1)"
    using free_usable_rel [OF buddy_ok_kinit, of k hhdm es 0] assms(1) by (auto simp: map_ok_def h)
  have "buddy_ok (buddy_enable_lock k1) (map_pages hhdm es)"
    by (rule buddy_ok_locked [OF k1(2)]) (use k1(3) assms(2) in \<open>auto simp: same_rest_def h\<close>)
  then show ?thesis
    using k1 by (auto simp: boot_memory_def buddy_enable_lock_def same_rest_def h)
qed

theorem boot_memory_spec_witness:
  "\<exists>k'. boot_memory hhdm0 [\<lparr>mm_base = 0, mm_length = 0x1000, mm_type = 1\<rparr>,
       \<lparr>mm_base = 0x1800, mm_length = 0x2800, mm_type = 0\<rparr>, \<lparr>mm_base = 0x4000, mm_length = 0x1000, mm_type = 0\<rparr>]
       fresh_kmem = Some (0x3800, k') \<and> buddy_ok k' (mset [0xffff800000002 ..< 0xffff800000005])"
proof -
  let ?a = "\<lparr>mm_base = 0x1800, mm_length = 0x2800, mm_type = 0\<rparr>" and ?b = "\<lparr>mm_base = 0x4000, mm_length = 0x1000, mm_type = 0\<rparr>"
  let ?es = "[\<lparr>mm_base = 0, mm_length = 0x1000, mm_type = 1\<rparr>, ?a, ?b]"
  have "range_pages_of hhdm0 ?a = mset [0xffff800000002 ..< 0xffff800000004]"
    "range_pages_of hhdm0 ?b = mset [0xffff800000004 ..< 0xffff800000005]"
    by (simp_all add: range_pages_of_def hhdm0_def)
  then have p: "map_pages hhdm0 ?es = mset [0xffff800000002 ..< 0xffff800000005]"
    using upt_add_eq_append [of "0xffff800000002" "0xffff800000004" 1] by (simp add: map_pages_def flip: mset_append)
  have "once (map_pages hhdm0 ?es)"
    unfolding p by (simp only: once_def mset_upt) (simp add: count_mset_set')
  then have ok: "map_ok hhdm0 ?es"
    by (simp add: map_ok_def window_ok_def hhdm0_def word_le_nat_alt)
  have n: "ncli (kcpu fresh_kmem) = 0" by (simp add: fresh_kmem_def kinit_def boot_cpu_def)
  show ?thesis using boot_memory_spec [OF ok n] unfolding p by auto
qed

section \<open>Processors\<close>

lemma smp_slots_eq:
  "length slots \<le> 16 \<Longrightarrow> smp_slots bsp ls slots = slots @ map ucast (take (16 - length slots) (smp_started bsp ls))"
proof (induction ls arbitrary: slots)
  case (Cons l ls)
  show ?case
  proof (cases "length slots = 16")
    case False
    then have "16 - length slots = Suc (15 - length slots)" using Cons.prems by linarith
    then show ?thesis using Cons.IH [of "slots @ [ucast l]"] Cons.IH [of slots] Cons.prems False
      by (simp add: smp_started_def)
  qed (simp add: smp_started_def)
qed (simp add: smp_started_def)

text \<open>The ids as the processors read them.\<close>

definition ids_of :: "u8 list \<Rightarrow> u32 list" where
  "ids_of slots = map ucast slots"

lemma slot_from_eq:
  "slot_from a i xs = (if a \<in> set (ids_of xs) then Some (i + length (takeWhile (\<lambda>x. x \<noteq> a) (ids_of xs))) else None)"
  by (induction xs arbitrary: i) (auto simp: ids_of_def)

lemma ap_slot_None: "ap_slot a xs = None \<longleftrightarrow> a \<notin> set (ids_of xs)"
  by (simp add: ap_slot_def slot_from_eq)

lemma ap_slot_Some: "ap_slot a xs = Some i \<Longrightarrow> i < length xs \<and> ids_of xs ! i = a"
proof -
  assume "ap_slot a xs = Some i"
  then have a: "a \<in> set (ids_of xs)" "i = length (takeWhile (\<lambda>x. x \<noteq> a) (ids_of xs))"
    by (simp_all add: ap_slot_def slot_from_eq split: if_splits)
  then have "i < length (ids_of xs)"
    using takeWhile_eq_all_conv [of "\<lambda>x. x \<noteq> a" "ids_of xs"] length_takeWhile_le [of "\<lambda>x. x \<noteq> a" "ids_of xs"]
    by (metis (no_types) le_neq_implies_less takeWhile_eq_take take_all_iff order_refl)
  then show ?thesis using nth_length_takeWhile [of "\<lambda>x. x \<noteq> a" "ids_of xs"] a(2) by (auto simp: ids_of_def)
qed

lemma byte_id: "l < 256 \<Longrightarrow> ucast (ucast (l :: u32) :: u8) = l"
  by (simp add: word_unat_eq_iff unsigned_ucast_eq unsigned_take_bit_eq take_bit_nat_eq_self word_less_nat_alt)

text \<open>
  The processors the loader lists get slots of their own if their ids are bytes: no two share one, none
  gets the boot processor's, and the boot processor waits for exactly as many as find a slot. A
  processor is started without a slot to find only when all 16 are taken.
\<close>

lemma smp_slots_spec:
  assumes "distinct ls" "\<forall>l \<in> insert bsp (set ls). l < 256" "slots = smp_slots bsp ls [ucast bsp]"
  shows "distinct (ids_of slots) \<and> length slots \<le> 16 \<and>
    length (filter (\<lambda>l. ap_slot l slots \<noteq> None) (smp_started bsp ls)) = length slots - 1 \<and>
    (\<forall>l \<in> set (smp_started bsp ls). case ap_slot l slots of None \<Rightarrow> length slots = 16
       | Some i \<Rightarrow> 0 < i \<and> i < length slots \<and> ids_of slots ! i = l)"
proof -
  let ?S = "smp_started bsp ls"
  have sl: "ids_of slots = bsp # take 15 ?S"
    using smp_slots_eq [of "[ucast bsp]"] assms(2,3) byte_id
    by (auto simp: ids_of_def smp_started_def dest: in_set_takeD intro!: map_idI)
  then have len: "length slots = length (bsp # take 15 ?S)" by (metis ids_of_def length_map)
  have nb: "bsp \<notin> set ?S" and d: "distinct ?S" using assms(1) by (simp_all add: smp_started_def)
  have D: "distinct (ids_of slots)" unfolding sl using nb d in_set_takeD by fastforce
  have "filter (\<lambda>l. ap_slot l slots \<noteq> None) ?S = filter (\<lambda>l. l \<in> set (take 15 ?S)) ?S"
    using nb by (intro filter_cong) (auto simp: ap_slot_None sl)
  also have "\<dots> = take 15 ?S"
  proof -
    have "filter (\<lambda>l. l \<in> set (take 15 ?S)) (take 15 ?S @ drop 15 ?S) = take 15 ?S"
      using d set_take_disj_set_drop_if_distinct [of ?S 15 15]
      by (auto simp add: filter_empty_conv simp del: append_take_drop_id)
    then show ?thesis by simp
  qed
  finally have F: "length (filter (\<lambda>l. ap_slot l slots \<noteq> None) ?S) = length slots - 1" by (simp add: len)
  have "case ap_slot l slots of None \<Rightarrow> length slots = 16 | Some i \<Rightarrow> 0 < i \<and> i < length slots \<and> ids_of slots ! i = l"
    if "l \<in> set ?S" for l
  proof (cases "ap_slot l slots")
    case None
    then have "take 15 ?S \<noteq> ?S" using that by (auto simp: ap_slot_None sl)
    then show ?thesis using None by (simp add: len min_def)
  next
    case (Some i)
    then have "i < length slots" "ids_of slots ! i = l" using ap_slot_Some by blast+
    moreover have "i \<noteq> 0" using \<open>ids_of slots ! i = l\<close> nb that by (intro notI) (simp add: sl)
    ultimately show ?thesis using Some by simp
  qed
  then show ?thesis using D F by (simp add: len)
qed

end
