(* ===== verification/Start.thy ===== *)
theory Start
  imports Kernel Drivers Tables Panic
begin

text \<open>
  \<^verbatim>\<open>_start\<close> of \<^verbatim>\<open>kernel/main.c\<close> as a whole: the calls in their order, up to the entry of the scheduler, over the state
  of all components. What the boot loader hands over and what the hardware answers are parameters.
  Interrupts are enabled in the middle; those that no driver waits for are not part of it.
\<close>

section \<open>State and surroundings\<close>

record starts = ahcis +
  tabs :: tables
  cpu_ids :: "u8 list"

text \<open>The responses of the boot loader: the framebuffer, the direct map, the memory map, the firmware's
  root table, and the ids of the boot processor and of all processors.\<close>

record firmware =
  fw_address :: addr
  fw_pixels :: "u32 \<Rightarrow> u32"
  fw_width :: u64
  fw_height :: u64
  fw_pitch :: u64
  fw_hhdm :: u64
  fw_memmap :: "memmap_entry list"
  fw_rsdp :: u64
  fw_mp :: "(u32 \<times> u32 list) option"

text \<open>Addresses that the linker fixes, and the stack frame of the waiting disk request.\<close>

record layout =
  l_kernel :: kernel_addrs
  l_tables :: table_addrs
  l_ata_ops :: addr
  l_ahci_ops :: addr
  l_frame :: addr
  l_trapret :: addr
  l_forkret :: addr

definition with_tabs :: "(tables \<Rightarrow> tables) \<Rightarrow> 'x starts_scheme \<Rightarrow> 'x starts_scheme" where
  "with_tabs f s = s\<lparr>tabs := f (tabs s)\<rparr>"

definition say :: "cstr \<Rightarrow> 'x devs_scheme \<Rightarrow> 'x devs_scheme" where
  "say t s = s\<lparr>dout := puts t (dout s)\<rparr>"

section \<open>The steps\<close>

definition start_console :: "layout \<Rightarrow> firmware \<Rightarrow> 'x starts_scheme \<Rightarrow> 'x starts_scheme" where
  "start_console L F s =
     (let s1 = init_serial (with_tabs (init_idt (l_tables L)) s);
          s2 = s1\<lparr>fb_addr := fw_address F,
            dout := (dout s1)\<lparr>tcon := kconsole_init (fw_pixels F) (fw_width F) (fw_height F) (fw_pitch F) (tcon (dout s1))\<rparr>\<rparr>;
          s3 = say (crlf @ [27] @ ascii ''[1;36m  ====  OS Kernel  ===='' @ [27] @ ascii ''[0m'' @ crlf) s2
      in with_tabs (set_gs (l_tables L) 0) s3)"

definition start_memory :: "firmware \<Rightarrow> 'x starts_scheme \<Rightarrow> 'x starts_scheme option" where
  "start_memory F s = do {
     s1 \<leftarrow> log_with klog ''MEM'' (ascii ''initializing buddy allocator'') s;
     (available, k) \<leftarrow> boot_memory (fw_hhdm F) (fw_memmap F) (vk s1);
     log_args klog_ok ''MEM'' (ascii ''%u MB available'') [Num (ucast (ucast (available div (1024 * 1024)) :: u32))] (s1\<lparr>vk := k\<rparr>)
   }"

definition start_tables :: "layout \<Rightarrow> 'x starts_scheme \<Rightarrow> 'x starts_scheme option" where
  "start_tables L s = do {
     s1 \<leftarrow> log_with klog_ok ''GDT'' (ascii ''segments loaded'')
       (with_tabs (\<lambda>t. set_gs (l_tables L) 0 (init_gdt (l_tables L) t)) s);
     log_with klog_ok ''SYSCALL'' (ascii ''MSRs configured'') (proc_init (with_tabs (init_syscall (l_tables L) 0) s1))
   }"

definition start_acpi :: "firmware \<Rightarrow> 'x starts_scheme \<Rightarrow> 'x starts_scheme option" where
  "start_acpi F s = do {
     k1 \<leftarrow> map_reserved (fw_memmap F) (cr3 s) (vk s);
     k2 \<leftarrow> map_mmio k1 (cr3 s) (fw_rsdp F) PAGE_SIZE;
     log_with klog_ok ''ACPI'' (ascii ''tables parsed'')
       (s\<lparr>vk := k2, acpi := init_acpi k2 (PHYS_TO_VIRT k2 (fw_rsdp F)) (acpi s)\<rparr>)
   }"

definition route_here :: "io_env \<Rightarrow> u8 \<Rightarrow> u8 \<Rightarrow> 'x apics_scheme \<Rightarrow> 'x apics_scheme option" where
  "route_here E line vector s = (let (me, s1) = lapic_id E s in ioapic_route_irq line vector (ucast me) s1)"

definition start_interrupts :: "io_env \<Rightarrow> layout \<Rightarrow> 'x starts_scheme \<Rightarrow> 'x starts_scheme option" where
  "start_interrupts E L s = do {
     s1 \<leftarrow> lapic_init (pic_disable s);
     s2 \<leftarrow> ioapic_init E s1;
     s3 \<leftarrow> route_here E 0 32 (devfs_register_fb (dev_tab (l_kernel L)) s2);
     s4 \<leftarrow> route_here E 1 33 (lapic_timer_periodic 32 1000000 (pit_stop s3));
     s5 \<leftarrow> route_here E 12 44 s4;
     s6 \<leftarrow> route_here E 14 46 s5;
     s7 \<leftarrow> route_here E 15 47 s6;
     log_with klog_ok ''IRQ'' (ascii ''routes configured'') s7
   }"

definition start_devices :: "io_env \<Rightarrow> layout \<Rightarrow> 'x starts_scheme \<Rightarrow> 'x starts_scheme option" where
  "start_devices E L s = do {
     s1 \<leftarrow> ps2_init E (ps2_tab (l_kernel L)) s;
     s2 \<leftarrow> pci_scan E s1;
     s3 \<leftarrow> ahci_init E (l_ahci_ops L) s2;
     ata_init E (l_ata_ops L) s3
   }"

text \<open>The other processors: \<open>started k\<close> is what the \<open>k\<close>-th load of \<^verbatim>\<open>ap_started\<close> gives.\<close>

partial_function (option) await_started :: "(nat \<Rightarrow> u64) \<Rightarrow> u64 \<Rightarrow> nat \<Rightarrow> nat option" where
  "await_started started expected k = (if started k < expected then await_started started expected (Suc k) else Some k)"

definition start_processors :: "(nat \<Rightarrow> u64) \<Rightarrow> firmware \<Rightarrow> 'x starts_scheme \<Rightarrow> 'x starts_scheme option" where
  "start_processors started F s =
     (case fw_mp F of None \<Rightarrow> Some s
      | Some (bsp, ls) \<Rightarrow> do {
          let slots = smp_slots bsp ls [ucast bsp];
          let ncpu = (word_of_nat (length slots) :: u32);
          polls \<leftarrow> await_started started (ucast (ncpu - 1)) 0;
          log_args klog_ok ''SMP'' (ascii ''%u CPU(s) online'') [Num (ucast ncpu)] (s\<lparr>cpu_ids := slots\<rparr>)
        })"

definition disk_tables :: "io_env \<Rightarrow> layout \<Rightarrow> 'x starts_scheme vtables" where
  "disk_tables E L = kernel_tables (disk_env E (l_ata_ops L) (l_frame L)) (l_kernel L)"

definition start_init :: "io_env \<Rightarrow> layout \<Rightarrow> 'x starts_scheme \<Rightarrow> 'x starts_scheme option" where
  "start_init E L s = do {
     (p, s1) \<leftarrow> proc_create (disk_tables E L) (l_trapret L) (l_forkret L) (ascii ''/bin/init'') s;
     s2 \<leftarrow> (if p \<noteq> 0 then log_args klog_ok ''PROC'' (ascii ''init started (pid %u)'') [Num (ucast (pid (proc_at s1 p)))] s1
       else log_with klog_fail ''PROC'' (ascii ''no init found at /bin/init'') s1);
     Some (say (crlf @ crlf @ [27] @ ascii ''[1;32m  kernel ready'' @ [27] @ ascii ''[0m'' @ crlf @ crlf) s2)
   }"

text \<open>
  The entry of another processor. Without a slot it stops. Its start is reported before it enters the scheduler.
\<close>

definition ap_entry :: "layout \<Rightarrow> u32 \<Rightarrow> 'x starts_scheme \<Rightarrow> (nat \<times> 'x starts_scheme) option" where
  "ap_entry L apic_id s = do {
     c \<leftarrow> ap_slot apic_id (cpu_ids s);
     Some (c, lapic_timer_periodic 32 1000000 (lapic_init_ap (with_tabs (ap_tables (l_tables L) c) s)))
   }"

text \<open>The state in which \<^verbatim>\<open>scheduler\<close> is called.\<close>

definition start_kernel :: "io_env \<Rightarrow> (nat \<Rightarrow> u64) \<Rightarrow> layout \<Rightarrow> firmware \<Rightarrow> 'x starts_scheme \<Rightarrow> 'x starts_scheme option" where
  "start_kernel E started L F s = do {
     s1 \<leftarrow> start_memory F (start_console L F s);
     s2 \<leftarrow> start_tables L s1;
     s3 \<leftarrow> start_acpi F s2;
     s4 \<leftarrow> start_interrupts E L s3;
     s5 \<leftarrow> start_devices E L s4;
     s6 \<leftarrow> boot_files (disk_env E (l_ata_ops L) (l_frame L)) (l_kernel L) s5;
     s7 \<leftarrow> start_processors started F s6;
     start_init E L s7
   }"

end
