(* ===== verification/Start_Spec.thy ===== *)
theory Start_Spec
  imports Start Kernel_Spec Tables_Spec
begin

text \<open>
  The start of the machine across the components: the boot processor's tables are those of the tables'
  theory, the wait for the other processors ends when they have reported, and each processor runs with the
  slot that was made for it.
\<close>

section \<open>The boot processor\<close>

lemma log_args_tabs: "log_args lg tag msg args s = Some s' \<Longrightarrow> tabs s' = tabs s"
  by (auto simp: log_args_def split: bind_splits)

lemma start_tabs:
  assumes "start_memory F (start_console L F s) = Some s1" "start_tables L s1 = Some s2"
  shows "tabs s2 = bsp_tables (l_tables L) (tabs s)"
proof -
  have s: "tabs (start_console L F s) = set_gs (l_tables L) 0 (init_idt (l_tables L) (tabs s))"
    by (simp add: start_console_def Let_def with_tabs_def say_def init_serial_def outb_def io_do_def)
  have 1: "tabs s1 = tabs (start_console L F s)"
    using assms(1) by (auto simp: start_memory_def split: bind_splits dest!: log_args_tabs)
  have "tabs s2 = init_syscall (l_tables L) 0 (set_gs (l_tables L) 0 (init_gdt (l_tables L) (tabs s1)))"
    using assms(2) by (auto simp: start_tables_def proc_init_def with_tabs_def split: bind_splits dest!: log_args_tabs)
  then show ?thesis by (simp add: bsp_tables_def 1 s)
qed

section \<open>The other processors\<close>

lemma await_started_ends:
  assumes "expected \<le> started k" "\<forall>j < k. started j < expected" "i \<le> k"
  shows "await_started started expected i = Some k"
  using assms(3)
proof (induction "k - i" arbitrary: i)
  case 0
  then show ?case using assms(1) leD [of expected "started k"] by (subst await_started.simps) simp
next
  case (Suc n)
  then show ?case using assms(2) by (subst await_started.simps) simp
qed

text \<open>
  A processor of the loader's list either stops because all slots are taken, or runs with the slot that
  carries its own id, through the base of GS; interrupts and system calls work there as on the boot processor.
\<close>

lemma ap_entry_runs:
  assumes "distinct ls" "\<forall>l \<in> insert bsp (set ls). l < 256" "cpu_ids s = smp_slots bsp ls [ucast bsp]"
    and "tabs s = bsp_tables (l_tables L) t" "sized t" "distinct_addrs (l_tables L)"
    and "l \<in> set (smp_started bsp ls)"
  shows "(case ap_entry L l s of None \<Rightarrow> length (cpu_ids s) = 16
    | Some (c, s') \<Rightarrow> 0 < c \<and> c < 16 \<and> ids_of (cpu_ids s) ! c = l \<and> tabs s' = cpu_started (l_tables L) c t \<and>
        mycpu (l_tables L) c (tabs s') = Some c)"
proof -
  have S: "length (cpu_ids s) \<le> 16" "case ap_slot l (cpu_ids s) of None \<Rightarrow> length (cpu_ids s) = 16
       | Some i \<Rightarrow> 0 < i \<and> i < length (cpu_ids s) \<and> ids_of (cpu_ids s) ! i = l"
    using smp_slots_spec [OF assms(1-3)] assms(7) by blast+
  show ?thesis
  proof (cases "ap_slot l (cpu_ids s)")
    case None
    then show ?thesis using S(2) by (simp add: ap_entry_def)
  next
    case (Some c)
    then have c: "0 < c" "c < 16" "ids_of (cpu_ids s) ! c = l" using S by auto
    have "tabs (lapic_timer_periodic 32 1000000 (lapic_init_ap (with_tabs (ap_tables (l_tables L) c) s))) =
        cpu_started (l_tables L) c t"
      using assms(4) c(1)
      by (simp add: lapic_timer_periodic_def lapic_timer_set_def lapic_init_ap_def lapic_enable_def lapic_write_def
          mmio_write_def io_do_def with_tabs_def cpu_started_def)
    then show ?thesis using Some c mycpu_started [OF assms(5) c(2) assms(6)] by (simp add: ap_entry_def)
  qed
qed

end
