(* ===== verification/Spec2Isabelle.thy ===== *)
theory Spec2Isabelle
  imports Kernel_Prelude Digits Ring Spinlock Bytes Buddy Buddy_Spec Paging KString Vfs Vfs_Spec
    Initfs Pipe Kconsole Kconsole_Spec Print Print_Spec Ps2 Ps2_Spec Blk
    Ext2 Ext2_Spec Devfs Devfs_Spec Proc Proc_Spec Trap Trap_Spec Sched Sched_Spec Syscall Syscall_Spec
    Ports Acpi Apic Apic_Spec Pci Pci_Spec Ata Ahci Ata_Spec Ahci_Spec Drivers Drivers_Spec Tables Tables_Spec
    Serial Serial_Spec Panic User User_Spec Kernel Kernel_Spec Start Start_Spec
begin

text \<open>
  A verification development for the JEOS kernel, a kernel for 64-bit PCs in C and assembly. All paths below
  are under \<^verbatim>\<open>src/kernel\<close> unless they say otherwise.

  \<^bold>\<open>The program.\<close> The boot loader calls \<^verbatim>\<open>_start\<close>, which gives the usable memory to a buddy allocator, installs
  descriptor tables, finds the interrupt controllers through the firmware tables, starts keyboard, mouse and disks,
  mounts the file systems, starts the other processors and the first process, and enters the scheduler. Processes
  come back by system calls and interrupts. System calls act on open files through the VFS, whose
  operation tables lead to initfs, ext2, devfs and pipes; ext2 and the block devices of devfs submit requests to
  the block layer, which calls the AHCI or ATA driver and waits for its interrupt. Characters go to the serial port
  and the framebuffer console, keys and mouse events come back through byte rings.

  \<^bold>\<open>The model.\<close> Definitions are executable and follow the C code function by function. Machine integers keep
  their width as words, so wrap-around is that of the code, which is built without optimisation. The kernel's memory
  is a byte function; page tables, free lists, frames, tables of devices and disk buffers are bytes in it, while
  the objects of the VFS, processes and drivers are records found by their address. \<open>None\<close> means that the code does not
  return (a halt, a spin on a lock, a loop without end, a division by zero); errors the code reports are its
  numbers. Loops without a bound are \<open>partial_function\<close>s, and the properties prove that they return. The state
  is one record that each component extends:
  \<^item> memory and allocator (\<open>kmem\<close>), VFS objects (\<open>vfs\<close>), \<open>initfs\<close>, pipes, block devices (\<open>blks\<close>), \<open>ext2s\<close>, device
    files with console and keyboard (\<open>devs\<close>), the process table (\<open>procs\<close>), port accesses (\<open>ios\<close>), interrupt
    controllers (\<open>apics\<close>), PCI functions (\<open>pcis\<close>), ATA (\<open>atas\<close>), AHCI (\<open>ahcis\<close>), and processor tables (\<open>starts\<close>).
  Hardware is a parameter: \<open>io_env\<close> gives what a port or register reads as, and what a device has written to memory, as
  functions of the whole history of accesses, so a property over an arbitrary \<open>io_env\<close> holds for every device.
  Concurrency between processors is modelled where the code handles it, by step relations: the spinlock, the pipe and
  the scheduler.

  \<^bold>\<open>Memory.\<close> \<open>Bytes\<close> has \<^verbatim>\<open>memset\<close>, \<^verbatim>\<open>memcpy\<close> and little-endian accesses. \<open>Buddy\<close> is the allocator of
  \<^verbatim>\<open>mem.c\<close>: free lists threaded through the free blocks, \<^verbatim>\<open>kalloc\<close>, \<^verbatim>\<open>kfree\<close>, \<^verbatim>\<open>freerange\<close>; \<open>Buddy_Spec\<close>
  shows that it refines a multiset of free pages. \<open>Paging\<close> has the page tables of \<^verbatim>\<open>mem.c\<close>; its theorem relates
  \<^verbatim>\<open>map_page_pml4\<close> to the page walk of the processor.

  \<^bold>\<open>Primitives.\<close> \<open>Spinlock\<close> (\<^verbatim>\<open>spinlock.h\<close>) as operations and as a step relation with mutual exclusion; \<open>Ring\<close>
  (\<^verbatim>\<open>ring.h\<close>) as a bounded queue; \<open>KString\<close> (\<^verbatim>\<open>string.c\<close>); \<open>Print\<close> (\<^verbatim>\<open>print.c\<close>), where \<open>Print_Spec\<close>
  and \<open>Digits\<close> prove \<^verbatim>\<open>printf\<close> against a rendering of numerals.

  \<^bold>\<open>Files.\<close> \<open>Vfs\<close> (\<^verbatim>\<open>vfs.c\<close>) takes file systems as tables of functions. \<open>Initfs\<close> (\<^verbatim>\<open>initfs.c\<close>) is an
  instance, on which path lookup is proved to follow an abstract tree. \<open>Pipe\<close> (\<^verbatim>\<open>pipe.c\<close>) yields to an
  environment while it waits; its invariant holds in every interleaving. \<open>Blk\<close> (\<^verbatim>\<open>blk.c\<close>) has the driver as a
  parameter. \<open>Ext2\<close> (\<^verbatim>\<open>ext2.c\<close>) reads volumes; \<open>Ext2_Spec\<close> relates the block map to the pointer trees on the disk
  and reads to the contents. \<open>Devfs\<close> (\<^verbatim>\<open>devfs.c\<close>) has the registry and the device files.

  \<^bold>\<open>Consoles.\<close> \<open>Kconsole\<close> (\<^verbatim>\<open>kconsole.c\<close>) is proved to refine a text terminal, and to stay inside the framebuffer.
  \<open>Ps2\<close> (\<^verbatim>\<open>ps2.c\<close>) has scancodes, mouse packets and device operations; \<open>Serial\<close> (\<^verbatim>\<open>serial.c\<close> and the port sequences
  of \<^verbatim>\<open>ps2.c\<close>) the drivers that wait for a port: a string is sent completely, in order, and never faster than the
  transmitter. The output model of \<open>Print\<close> keeps the bytes sent; it does not repeat the polling.

  \<^bold>\<open>Processes.\<close> \<open>Proc\<close> (\<^verbatim>\<open>proc.c\<close>, \<^verbatim>\<open>elf.h\<close>) has descriptors, program loading, stacks, creation, fork and exec;
  \<open>Proc_Spec\<close> the layout of the initial stack. \<open>Trap\<close> (\<^verbatim>\<open>idt.c\<close>, \<^verbatim>\<open>swtch.asm\<close>) has the stubs, frames and context
  switch over stacks in memory. \<open>Sched\<close> is the scheduler, yield, exit and wait as steps of any number of processors.
  \<open>Syscall\<close> (\<^verbatim>\<open>syscall.c\<close>, \<^verbatim>\<open>syscall_entry.asm\<close>) has the handlers and the entry stub; descriptor calls
  are proved to refine a table of shared descriptions. \<open>Tables\<close> (\<^verbatim>\<open>gdt.c\<close>, \<^verbatim>\<open>idt.c\<close>, the register set-up of
  \<^verbatim>\<open>syscall.c\<close>) has the descriptor tables; \<open>Tables_Spec\<close> reads them as the processor does.

  \<^bold>\<open>Devices.\<close> \<open>Ports\<close> (\<^verbatim>\<open>x86.h\<close>) is the access history; \<open>Acpi\<close> and \<open>Apic\<close> (\<^verbatim>\<open>acpi.c\<close>, \<^verbatim>\<open>apic.c\<close>), \<open>Pci\<close>
  (\<^verbatim>\<open>pci.c\<close>), \<open>Ata\<close> (\<^verbatim>\<open>ata.c\<close>) and \<open>Ahci\<close> (\<^verbatim>\<open>ahci.c\<close>) are whole drivers. \<open>Drivers\<close> puts the disk drivers behind the
  block layer and has \<^verbatim>\<open>nvme.c\<close>, and \<open>Drivers_Spec\<close> follows a request through it down to the device.

  \<^bold>\<open>The whole.\<close> \<open>Kernel\<close> has the start of memory and file systems, \<open>Start\<close> all of \<^verbatim>\<open>_start\<close> and \<^verbatim>\<open>ap_entry\<close>
  (\<^verbatim>\<open>main.c\<close>), \<open>Panic\<close> (\<^verbatim>\<open>panic.c\<close>) the report of a fatal error, and \<open>User\<close> the library and the line
  editor of the user programs (\<^verbatim>\<open>src/user\<close>).

  \<^bold>\<open>Interfaces.\<close> Contracts between components are locales, each interpreted on the code's model: the queue that drops
  its oldest bytes, which the ring provides; the allocator of pages, which the buddy lists provide; the directory tree
  that path lookup relies on, which initfs provides; files whose close changes nothing, which descriptor calls rely on. A \<open>_Spec\<close> theory holds
  the abstract side of its component and the lemmas of the refinement; the numbered texts are the
  properties.

  \<^bold>\<open>Bounds and fuel.\<close> A request to the allocator has at most 2048 pages, the largest block. Bus scans have a depth
  of 257 rounds: each round but the last enters a device, of which there are at most 256. Console rows and columns
  are at most 1000, and pixel sizes below \<open>2^30\<close>, so that no product wraps. ATA requests have at most 64 KiB and AHCI requests
  at most 4 MiB, the sizes their descriptors can express. Interrupt loops poll at most 64 times, as the code does.

  \<^bold>\<open>Not modelled.\<close> \<^verbatim>\<open>limine.h\<close> is the boot loader's header; of it
  only the values of the responses appear, as a parameter of \<open>start_kernel\<close>, and the check of the protocol revision is
  taken as passed. Loads of control registers beside the page table root, cache and TLB instructions and delay loops have no
  state in the model. Interrupts that arrive in the middle of kernel code are modelled for the waits that expect them (block
  requests, pipes, the scheduler) and not elsewhere. Locks are taken and released in the sequential operations, but only
  the spinlock, pipe and scheduler models interleave processors. Message texts of ext2 are not part of the output. The main loops of \<^verbatim>\<open>init\<close> and of the shell only call the system. The linker script and build files
  are not code.
\<close>

end
